(* ===== verification/Prelude.thy ===== *)
theory Prelude
  imports Main
begin

text \<open>
  Shared material of the development: the collections of rewrite rules
  (\<open>dedup_simps\<close>, \<open>result_simps\<close>), the order-preserving removal of duplicates that
  several parts of the program implement in their own way, the result type of
  operations that may raise, and the enumeration of finite sets that stands for
  the iteration order of a hash set.
\<close>

named_theorems dedup_simps \<open>order-preserving removal of duplicates\<close>
named_theorems result_simps \<open>results that carry an error\<close>

section \<open>Results\<close>

text \<open>An operation that may raise returns \<open>Inl\<close> of the error or \<open>Inr\<close> of its value.\<close>

definition bind_result :: "'e + 'a \<Rightarrow> ('a \<Rightarrow> 'e + 'b) \<Rightarrow> 'e + 'b" where
  "bind_result r f = (case r of Inl e \<Rightarrow> Inl e | Inr x \<Rightarrow> f x)"

lemma bind_result_Inl [simp, result_simps]: "bind_result (Inl e) f = Inl e"
  by (simp add: bind_result_def)

lemma bind_result_Inr [simp, result_simps]: "bind_result (Inr x) f = f x"
  by (simp add: bind_result_def)

lemma bind_result_Inr_iff [result_simps]:
  "bind_result r f = Inr y \<longleftrightarrow> (\<exists>x. r = Inr x \<and> f x = Inr y)"
  by (cases r) auto

section \<open>Removing duplicates, keeping the first occurrence\<close>

text \<open>
  The reference definition: an element is kept when its key has not been seen.
\<close>

fun dedup_by :: "('a \<Rightarrow> 'k) \<Rightarrow> 'k set \<Rightarrow> 'a list \<Rightarrow> 'a list" where
  "dedup_by key seen [] = []"
| "dedup_by key seen (x # xs) =
     (if key x \<in> seen then dedup_by key seen xs
      else x # dedup_by key (insert (key x) seen) xs)"

abbreviation dedup :: "'a list \<Rightarrow> 'a list" where
  "dedup xs \<equiv> dedup_by (\<lambda>x. x) {} xs"

lemma key_set_dedup_by [dedup_simps]:
  "key ` set (dedup_by key seen xs) = key ` set xs - seen"
proof (induction xs arbitrary: seen)
  case Nil
  then show ?case by simp
next
  case (Cons x xs)
  then show ?case by (auto simp: Cons.IH)
qed

lemma set_dedup_by_subset: "set (dedup_by key seen xs) \<subseteq> set xs"
proof (induction xs arbitrary: seen)
  case Nil
  then show ?case by simp
next
  case (Cons x xs)
  have "set (dedup_by key S xs) \<subseteq> set (x # xs)" for S
    using Cons.IH by (meson order_trans set_subset_Cons)
  then show ?case by simp
qed

lemma distinct_key_dedup_by [dedup_simps]: "distinct (map key (dedup_by key seen xs))"
  by (induction xs arbitrary: seen) (auto simp: key_set_dedup_by)

lemma dedup_by_filter:
  "dedup_by key (S \<union> T) xs = dedup_by key S (filter (\<lambda>x. key x \<notin> T) xs)"
proof (induction xs arbitrary: S)
  case Nil
  then show ?case by simp
next
  case (Cons x xs)
  have "dedup_by key (insert (key x) (S \<union> T)) xs =
      dedup_by key (insert (key x) S) (filter (\<lambda>x. key x \<notin> T) xs)"
    using Cons.IH [of "insert (key x) S"] by simp
  then show ?case using Cons.IH by simp
qed

lemma dedup_by_Un:
  "dedup_by key (S \<union> T) xs = filter (\<lambda>x. key x \<notin> T) (dedup_by key S xs)"
proof (induction xs arbitrary: S)
  case Nil
  then show ?case by simp
next
  case (Cons x xs)
  have "dedup_by key (insert (key x) (S \<union> T)) xs = dedup_by key (S \<union> T) xs" if "key x \<in> T"
    using that by (simp add: insert_absorb)
  then show ?case using Cons.IH [of S] Cons.IH [of "insert (key x) S"] by auto
qed

lemma dedup_by_append [dedup_simps]:
  "dedup_by key seen (xs @ ys) =
     dedup_by key seen xs @ dedup_by key (seen \<union> key ` set xs) ys"
proof (induction xs arbitrary: seen)
  case Nil
  then show ?case by simp
next
  case (Cons x xs)
  have "seen \<union> insert (key x) (key ` set xs) = insert (key x) seen \<union> key ` set xs"
    by simp
  then show ?case using Cons.IH by (auto simp: insert_absorb)
qed

lemma dedup_by_id:
  assumes "distinct (map key xs)" and "key ` set xs \<inter> seen = {}"
  shows "dedup_by key seen xs = xs"
  using assms by (induction xs arbitrary: seen) auto

lemma set_dedup [simp, dedup_simps]: "set (dedup xs) = set xs"
  using key_set_dedup_by [of "\<lambda>x. x" "{}" xs] by simp

lemma count_list_distinct: "distinct xs \<Longrightarrow> count_list xs x = (if x \<in> set xs then 1 else 0)"
  by (induction xs) auto

lemma distinct_dedup [simp, dedup_simps]: "distinct (dedup xs)"
  using distinct_key_dedup_by [of "\<lambda>x. x" "{}" xs] by simp

lemma dedup_distinct [simp, dedup_simps]: "distinct xs \<Longrightarrow> dedup xs = xs"
  by (rule dedup_by_id) auto

section \<open>Iteration order of hash sets\<close>

text \<open>
  Python iterates over a set in an order the program does not control. A model that
  iterates over a set takes the order as an argument, any function that lists each
  finite set without repetition.
\<close>

definition enumerates :: "('a set \<Rightarrow> 'a list) \<Rightarrow> bool" where
  "enumerates ho \<longleftrightarrow> (\<forall>S. finite S \<longrightarrow> set (ho S) = S \<and> distinct (ho S))"

lemma enumerates_set [simp]: "enumerates ho \<Longrightarrow> finite S \<Longrightarrow> set (ho S) = S"
  by (simp add: enumerates_def)

lemma enumerates_distinct [simp]: "enumerates ho \<Longrightarrow> finite S \<Longrightarrow> distinct (ho S)"
  by (simp add: enumerates_def)

lemma enumerates_Nil_iff: "enumerates ho \<Longrightarrow> finite S \<Longrightarrow> ho S = [] \<longleftrightarrow> S = {}"
  by (metis enumerates_set set_empty)

lemma enumerates_empty [simp]: "enumerates ho \<Longrightarrow> ho {} = []"
  by (simp add: enumerates_Nil_iff)

lemma enumerates_sorted_list_of_set:
  "enumerates (sorted_list_of_set :: 'a::linorder set \<Rightarrow> 'a list)"
  by (simp add: enumerates_def)

end
