(* ===== verification/PyString.thy ===== *)
theory PyString
  imports Prelude
begin

text \<open>
  The Python string operations the source uses, on \<open>string\<close> (lists of characters):
  \<open>split\<close> at a one-character separator, \<open>join\<close>, \<open>find\<close> and \<open>rfind\<close>,
  slices by position, \<open>rstrip\<close>, white-space \<open>split\<close>, and \<open>os.path\<close> on
  POSIX (\<open>normpath\<close>, \<open>join\<close>, \<open>split\<close>; \<open>normcase\<close> is the identity).
\<close>

section \<open>Splitting and joining\<close>

fun split_on :: "char \<Rightarrow> string \<Rightarrow> string list" where
  "split_on c [] = [[]]"
| "split_on c (x # xs) =
     (if x = c then [] # split_on c xs
      else (case split_on c xs of [] \<Rightarrow> [[x]] | w # ws \<Rightarrow> (x # w) # ws))"

fun join_with :: "string \<Rightarrow> string list \<Rightarrow> string" where
  "join_with sep [] = []"
| "join_with sep [w] = w"
| "join_with sep (w # v # ws) = w @ sep @ join_with sep (v # ws)"

lemma split_on_not_Nil [simp]: "split_on c s \<noteq> []"
  by (induction s) (auto split: list.splits)

lemma split_on_no_sep: "w \<in> set (split_on c s) \<Longrightarrow> c \<notin> set w"
proof (induction s arbitrary: w)
  case Nil
  then show ?case by simp
next
  case (Cons x xs)
  then show ?case by (cases "split_on c xs") (auto split: if_splits)
qed

lemma join_split: "join_with [c] (split_on c s) = s"
proof (induction s)
  case Nil
  then show ?case by simp
next
  case (Cons x xs)
  obtain w ws where s: "split_on c xs = w # ws"
    by (cases "split_on c xs") auto
  then show ?case using Cons.IH by (cases ws) auto
qed

lemma split_on_free: "c \<notin> set w \<Longrightarrow> split_on c w = [w]"
  by (induction w) auto

lemma split_on_append_sep: "c \<notin> set w \<Longrightarrow> split_on c (w @ c # s) = w # split_on c s"
  by (induction w) auto

lemma split_join:
  "ws \<noteq> [] \<Longrightarrow> \<forall>w\<in>set ws. c \<notin> set w \<Longrightarrow> split_on c (join_with [c] ws) = ws"
proof (induction ws)
  case Nil
  then show ?case by simp
next
  case (Cons w ws)
  then show ?case by (cases ws) (auto simp: split_on_free split_on_append_sep)
qed

section \<open>Searching and slicing\<close>

text \<open>\<open>s.find(c)\<close> and \<open>s.rfind(c)\<close>: the first and the last position, or -1.\<close>

fun find_char :: "char \<Rightarrow> string \<Rightarrow> int" where
  "find_char c [] = -1"
| "find_char c (x # xs) =
     (if x = c then 0 else (let i = find_char c xs in if i = -1 then -1 else i + 1))"

fun rfind_char :: "char \<Rightarrow> string \<Rightarrow> int" where
  "rfind_char c [] = -1"
| "rfind_char c (x # xs) =
     (let i = rfind_char c xs in if i = -1 then (if x = c then 0 else -1) else i + 1)"

lemma rfind_char_ge: "-1 \<le> rfind_char c s"
  by (induction s) (auto simp: Let_def)

lemma rfind_char_less: "rfind_char c s < int (length s)"
  by (induction s) (auto simp: Let_def)

lemma rfind_char_none_iff: "rfind_char c s = -1 \<longleftrightarrow> c \<notin> set s"
proof (induction s)
  case Nil
  then show ?case by simp
next
  case (Cons x xs)
  then show ?case using rfind_char_ge [of c xs] by (auto simp: Let_def)
qed

lemma find_char_none_iff: "find_char c s = -1 \<longleftrightarrow> c \<notin> set s"
proof (induction s)
  case Nil
  then show ?case by simp
next
  case (Cons x xs)
  have "find_char c ys \<ge> -1" for ys by (induction ys) (auto simp: Let_def)
  then have "find_char c xs + 1 \<noteq> -1" by (smt (verit))
  then show ?case using Cons.IH by (auto simp: Let_def)
qed

lemma rfind_char_nth:
  assumes "rfind_char c s = int i"
  shows "i < length s \<and> s ! i = c \<and> c \<notin> set (drop (Suc i) s)"
  using assms
proof (induction s arbitrary: i)
  case Nil
  then show ?case by simp
next
  case (Cons x xs)
  show ?case
  proof (cases "rfind_char c xs = -1")
    case True
    with Cons.prems have "x = c" and "i = 0" by (auto simp: Let_def split: if_splits)
    with True show ?thesis by (simp add: rfind_char_none_iff)
  next
    case False
    with Cons.prems have eq: "rfind_char c xs + 1 = int i" by (simp add: Let_def)
    with rfind_char_ge [of c xs] False obtain j where j: "i = Suc j"
      by (cases i) auto
    with eq have "rfind_char c xs = int j" by simp
    from Cons.IH [OF this] j show ?thesis by simp
  qed
qed

text \<open>Python's \<open>s[-n:]\<close> for \<open>n > 0\<close>: the last \<open>n\<close> characters, or all of them.\<close>

definition last_n :: "nat \<Rightarrow> string \<Rightarrow> string" where
  "last_n n s = drop (length s - n) s"

definition is_space :: "char \<Rightarrow> bool" where
  "is_space c \<longleftrightarrow> c \<in> {CHR '' '', CHR 0x09, CHR 0x0A, CHR 0x0B, CHR 0x0C, CHR 0x0D}"

definition rstrip :: "string \<Rightarrow> string" where
  "rstrip s = rev (dropWhile is_space (rev s))"

text \<open>\<open>s.split()\<close>: the maximal runs of characters that are not white space.\<close>

fun words_of :: "string \<Rightarrow> string \<Rightarrow> string list" where
  "words_of cur [] = (if cur = [] then [] else [cur])"
| "words_of cur (x # xs) =
     (if is_space x then (if cur = [] then words_of [] xs else cur # words_of [] xs)
      else words_of (cur @ [x]) xs)"

definition split_ws :: "string \<Rightarrow> string list" where
  "split_ws s = words_of [] s"

lemma words_of_no_space:
  assumes "w \<in> set (words_of cur s)" and "\<forall>c\<in>set cur. \<not> is_space c"
  shows "w \<noteq> [] \<and> (\<forall>c\<in>set w. \<not> is_space c)"
  using assms
proof (induction s arbitrary: cur)
  case Nil
  then show ?case by (simp split: if_splits)
next
  case (Cons x xs)
  show ?case
  proof (cases "is_space x")
    case True
    with Cons.prems(1) have "(cur \<noteq> [] \<and> w = cur) \<or> w \<in> set (words_of [] xs)"
      by (simp split: if_splits)
    then show ?thesis
    proof
      assume "cur \<noteq> [] \<and> w = cur"
      with Cons.prems(2) show ?thesis by simp
    next
      assume "w \<in> set (words_of [] xs)"
      then show ?thesis by (rule Cons.IH) simp
    qed
  next
    case False
    show ?thesis
    proof (rule Cons.IH)
      show "w \<in> set (words_of (cur @ [x]) xs)" using Cons.prems(1) False by simp
      show "\<forall>c\<in>set (cur @ [x]). \<not> is_space c" using Cons.prems(2) False by auto
    qed
  qed
qed

section \<open>Paths\<close>

definition sep :: char where "sep = CHR ''/''"

text \<open>\<open>posixpath.normpath\<close>: the component stack, then the leading slashes.\<close>

fun norm_comps :: "bool \<Rightarrow> string list \<Rightarrow> string list \<Rightarrow> string list" where
  "norm_comps root acc [] = acc"
| "norm_comps root acc (c # cs) =
     (if c = [] \<or> c = ''.'' then norm_comps root acc cs
      else if c \<noteq> ''..'' \<or> (\<not> root \<and> acc = []) \<or> (acc \<noteq> [] \<and> last acc = ''..'')
        then norm_comps root (acc @ [c]) cs
      else norm_comps root (butlast acc) cs)"

definition initial_slashes :: "string \<Rightarrow> nat" where
  "initial_slashes p =
     (if take 1 p \<noteq> ''/'' then 0
      else if take 2 p = ''//'' \<and> take 3 p \<noteq> ''///'' then 2 else 1)"

definition normpath :: "string \<Rightarrow> string" where
  "normpath p =
     (if p = [] then ''.''
      else (let n = initial_slashes p;
                q = replicate n sep @ join_with ''/'' (norm_comps (n \<noteq> 0) [] (split_on sep p))
            in if q = [] then ''.'' else q))"

text \<open>\<open>os.path.normcase\<close> on POSIX returns its argument.\<close>

definition normcase :: "string \<Rightarrow> string" where
  "normcase p = p"

text \<open>\<open>posixpath.join\<close> of two components.\<close>

definition path_join :: "string \<Rightarrow> string \<Rightarrow> string" where
  "path_join a b =
     (if take 1 b = ''/'' then b
      else if a = [] \<or> last a = sep then a @ b
      else a @ ''/'' @ b)"

text \<open>\<open>posixpath.split\<close>: the head keeps its slashes only when it is all slashes.\<close>

definition rstrip_sep :: "string \<Rightarrow> string" where
  "rstrip_sep s = rev (dropWhile (\<lambda>c. c = sep) (rev s))"

definition path_split :: "string \<Rightarrow> string \<times> string" where
  "path_split p =
     (let i = nat (rfind_char sep p + 1); head = take i p; tl = drop i p
      in (if head \<noteq> [] \<and> head \<noteq> replicate (length head) sep then rstrip_sep head else head, tl))"

lemma norm_comps_no_dot:
  "c \<in> set (norm_comps root acc cs) \<Longrightarrow> \<forall>d\<in>set acc. d \<noteq> [] \<and> d \<noteq> ''.'' \<Longrightarrow> c \<noteq> [] \<and> c \<noteq> ''.''"
  by (induction root acc cs rule: norm_comps.induct) (auto split: if_splits dest: in_set_butlastD)

section \<open>Letter case\<close>

text \<open>\<open>str.upper\<close> and \<open>str.lower\<close> on ASCII letters.\<close>

definition is_lower :: "char \<Rightarrow> bool" where
  "is_lower c \<longleftrightarrow> 97 \<le> (of_char c :: nat) \<and> (of_char c :: nat) \<le> 122"

definition is_upper :: "char \<Rightarrow> bool" where
  "is_upper c \<longleftrightarrow> 65 \<le> (of_char c :: nat) \<and> (of_char c :: nat) \<le> 90"

definition to_upper :: "char \<Rightarrow> char" where
  "to_upper c = (if is_lower c then char_of ((of_char c :: nat) - 32) else c)"

definition to_lower :: "char \<Rightarrow> char" where
  "to_lower c = (if is_upper c then char_of ((of_char c :: nat) + 32) else c)"

definition lower :: "string \<Rightarrow> string" where
  "lower s = map to_lower s"

end
