(* ===== verification/PyList.thy ===== *)
theory PyList
  imports PyString
begin

text \<open>
  \<open>SCons/Util.py\<close>, the sequence utilities: the type predicates and
  \<open>flatten\<close>, the duplicate removers (\<open>unique\<close>, \<open>uniquer\<close>,
  \<open>uniquer_hashables\<close>), the self-deduplicating \<open>UniqueList\<close>, the ordered
  dictionary with its \<open>Selector\<close> subclass, and the small string tests. The
  locale \<open>first_occurrence_dedup\<close> is the contract of a duplicate remover that
  keeps first occurrences; the library's own three implementations interpret it.
\<close>

section \<open>Python values and flattening\<close>

text \<open>
  The shapes the code's type tests tell apart: strings, lists, tuples, dictionaries
  and any other object.
\<close>

datatype 'a pyobj =
    PStr string
  | PList "'a pyobj list"
  | PTuple "'a pyobj list"
  | PDict "(string \<times> 'a pyobj) list"
  | PObj 'a

definition is_Dict :: "'a pyobj \<Rightarrow> bool" where
  "is_Dict x = (case x of PDict _ \<Rightarrow> True | _ \<Rightarrow> False)"

definition is_List :: "'a pyobj \<Rightarrow> bool" where
  "is_List x = (case x of PList _ \<Rightarrow> True | _ \<Rightarrow> False)"

definition is_Tuple :: "'a pyobj \<Rightarrow> bool" where
  "is_Tuple x = (case x of PTuple _ \<Rightarrow> True | _ \<Rightarrow> False)"

definition is_Sequence :: "'a pyobj \<Rightarrow> bool" where
  "is_Sequence x = (case x of PList _ \<Rightarrow> True | PTuple _ \<Rightarrow> True | _ \<Rightarrow> False)"

definition is_String :: "'a pyobj \<Rightarrow> bool" where
  "is_String x = (case x of PStr _ \<Rightarrow> True | _ \<Rightarrow> False)"

definition is_Scalar :: "'a pyobj \<Rightarrow> bool" where
  "is_Scalar x \<longleftrightarrow> is_String x \<or> \<not> is_Sequence x"

text \<open>\<open>do_flatten(sequence, result)\<close> appends to \<open>result\<close>, item by item.\<close>

fun do_flatten :: "'a pyobj list \<Rightarrow> 'a pyobj list \<Rightarrow> 'a pyobj list" where
  "do_flatten [] result = result"
| "do_flatten (PList xs # rest) result = do_flatten rest (do_flatten xs result)"
| "do_flatten (PTuple xs # rest) result = do_flatten rest (do_flatten xs result)"
| "do_flatten (item # rest) result = do_flatten rest (result @ [item])"

fun flatten :: "'a pyobj \<Rightarrow> 'a pyobj list" where
  "flatten (PList xs) = do_flatten xs []"
| "flatten (PTuple xs) = do_flatten xs []"
| "flatten obj = [obj]"

definition flatten_sequence :: "'a pyobj list \<Rightarrow> 'a pyobj list" where
  "flatten_sequence xs = do_flatten xs []"

text \<open>The reference: the leaves of a value, left to right.\<close>

fun leaves :: "'a pyobj \<Rightarrow> 'a pyobj list" where
  "leaves (PList xs) = concat (map leaves xs)"
| "leaves (PTuple xs) = concat (map leaves xs)"
| "leaves x = [x]"

lemma do_flatten_leaves: "do_flatten xs result = result @ concat (map leaves xs)"
  by (induction xs result rule: do_flatten.induct) simp_all

lemma flatten_leaves: "flatten x = leaves x"
  by (cases x) (simp_all add: do_flatten_leaves)

lemma leaves_scalar: "y \<in> set (leaves x) \<Longrightarrow> is_Scalar y"
  by (induction x rule: leaves.induct) (auto simp: is_Scalar_def is_Sequence_def is_String_def)

lemma leaves_of_scalar: "is_Scalar x \<Longrightarrow> leaves x = [x]"
  by (cases x) (auto simp: is_Scalar_def is_Sequence_def is_String_def)

lemma leaves_of_scalars: "\<forall>x\<in>set xs. is_Scalar x \<Longrightarrow> concat (map leaves xs) = xs"
  by (induction xs) (simp_all add: leaves_of_scalar)

text \<open>
  \<open>to_String_for_subst\<close>. The loop converts the elements into \<open>l\<close>, which
  is then not used: the code joins the sequence itself. \<open>str.join\<close> raises
  \<open>TypeError\<close> for an element that is not a string.
\<close>

datatype str_error = TypeError

fun join_strings :: "'a pyobj list \<Rightarrow> str_error + string list" where
  "join_strings [] = Inr []"
| "join_strings (PStr s # xs) = bind_result (join_strings xs) (\<lambda>ws. Inr (s # ws))"
| "join_strings (x # xs) = Inl TypeError"

fun to_String_for_subst :: "('a pyobj \<Rightarrow> string) \<Rightarrow> 'a pyobj \<Rightarrow> str_error + string"
and to_Strings :: "('a pyobj \<Rightarrow> string) \<Rightarrow> 'a pyobj list \<Rightarrow> str_error + string list" where
  "to_String_for_subst str (PStr s) = Inr s"
| "to_String_for_subst str (PList xs) =
     bind_result (to_Strings str xs)
       (\<lambda>l. bind_result (join_strings xs) (\<lambda>ws. Inr (join_with '' '' ws)))"
| "to_String_for_subst str (PTuple xs) =
     bind_result (to_Strings str xs)
       (\<lambda>l. bind_result (join_strings xs) (\<lambda>ws. Inr (join_with '' '' ws)))"
| "to_String_for_subst str (PDict d) = Inr (str (PDict d))"
| "to_String_for_subst str (PObj x) = Inr (str (PObj x))"
| "to_Strings str [] = Inr []"
| "to_Strings str (x # xs) =
     bind_result (to_String_for_subst str x)
       (\<lambda>w. bind_result (to_Strings str xs) (\<lambda>ws. Inr (w # ws)))"

lemma join_strings_Inr_iff: "join_strings xs = Inr ws \<longleftrightarrow> xs = map PStr ws"
  by (induction xs arbitrary: ws rule: join_strings.induct) (auto simp: result_simps)

lemma to_Strings_map_PStr: "to_Strings str (map PStr ws) = Inr ws"
  by (induction ws) simp_all

section \<open>Removing duplicates\<close>

text \<open>
  The contract of a duplicate remover that keeps the first occurrence of each element.
\<close>

locale first_occurrence_dedup =
  fixes rm :: "'a list \<Rightarrow> 'a list"
  assumes rm_dedup: "rm xs = dedup xs"
begin

lemma rm_set: "set (rm xs) = set xs"
  by (simp add: rm_dedup)

lemma rm_distinct: "distinct (rm xs)"
  by (simp add: rm_dedup)

lemma rm_idem: "rm (rm xs) = rm xs"
  by (simp add: rm_dedup)

lemma rm_append: "rm (xs @ ys) = rm xs @ filter (\<lambda>y. y \<notin> set xs) (rm ys)"
proof -
  have "dedup_by (\<lambda>x. x) (set xs) ys = filter (\<lambda>y. y \<notin> set xs) (dedup ys)"
    using dedup_by_Un [of "\<lambda>x. x" "{}" "set xs" ys] by simp
  then show ?thesis by (simp add: rm_dedup dedup_by_append)
qed

end

text \<open>\<open>uniquer(seq, idfun)\<close>: the \<open>seen\<close> dictionary is its set of keys.\<close>

fun uniquer_loop :: "('a \<Rightarrow> 'k) \<Rightarrow> 'k set \<Rightarrow> 'a list \<Rightarrow> 'a list \<Rightarrow> 'a list" where
  "uniquer_loop idfun seen result [] = result"
| "uniquer_loop idfun seen result (item # seq) =
     (let marker = idfun item in
      if marker \<in> seen then uniquer_loop idfun seen result seq
      else uniquer_loop idfun (insert marker seen) (result @ [item]) seq)"

definition uniquer :: "'a list \<Rightarrow> ('a \<Rightarrow> 'a) option \<Rightarrow> 'a list" where
  "uniquer seq idfun =
     uniquer_loop (case idfun of None \<Rightarrow> (\<lambda>x. x) | Some f \<Rightarrow> f) {} [] seq"

fun uniquer_hashables_loop :: "'a set \<Rightarrow> 'a list \<Rightarrow> 'a list \<Rightarrow> 'a list" where
  "uniquer_hashables_loop seen result [] = result"
| "uniquer_hashables_loop seen result (item # seq) =
     (if item \<notin> seen then uniquer_hashables_loop (insert item seen) (result @ [item]) seq
      else uniquer_hashables_loop seen result seq)"

definition uniquer_hashables :: "'a list \<Rightarrow> 'a list" where
  "uniquer_hashables seq = uniquer_hashables_loop {} [] seq"

lemma uniquer_loop_dedup: "uniquer_loop f seen result seq = result @ dedup_by f seen seq"
  by (induction seq arbitrary: seen result) (simp_all add: Let_def)

lemma uniquer_hashables_loop_dedup:
  "uniquer_hashables_loop seen result seq = result @ dedup_by (\<lambda>x. x) seen seq"
  by (induction seq arbitrary: seen result) simp_all

lemma uniquer_hashables_dedup: "uniquer_hashables seq = dedup seq"
  by (simp add: uniquer_hashables_def uniquer_hashables_loop_dedup)

lemma uniquer_dedup_by:
  "uniquer seq idfun = dedup_by (case idfun of None \<Rightarrow> (\<lambda>x. x) | Some f \<Rightarrow> f) {} seq"
  by (simp add: uniquer_def uniquer_loop_dedup)

text \<open>
  \<open>unique(s)\<close> tries three ways in turn: a dictionary when the elements hash (the
  keys come back in hash order), sorting when they are ordered, and a quadratic loop.
  The second compacts the sorted list in place: \<open>t[lasti] = last = t[i]\<close>.
\<close>

function unique_weed :: "nat \<Rightarrow> 'a list \<Rightarrow> 'a \<Rightarrow> nat \<Rightarrow> nat \<Rightarrow> 'a list \<times> nat" where
  "unique_weed n t lst lasti i =
     (if i < n then
        (if t ! i \<noteq> lst
         then unique_weed n (t[lasti := t ! i]) (t ! i) (lasti + 1) (i + 1)
         else unique_weed n t lst lasti (i + 1))
      else (t, lasti))"
  by pat_completeness auto
termination by (relation "measure (\<lambda>(n, t, lst, lasti, i). n - i)") auto

declare unique_weed.simps [simp del]

fun unique_brute :: "'a list \<Rightarrow> 'a list \<Rightarrow> 'a list" where
  "unique_brute u [] = u"
| "unique_brute u (x # s) = unique_brute (if x \<notin> set u then u @ [x] else u) s"

definition unique ::
  "bool \<Rightarrow> bool \<Rightarrow> ('a set \<Rightarrow> 'a list) \<Rightarrow> ('a::linorder) list \<Rightarrow> 'a list" where
  "unique hashable sortable ho s =
     (if length s = 0 then []
      else if hashable then ho (set s)
      else if sortable then
        (let t = sort s; (t', lasti) = unique_weed (length s) t (t ! 0) 1 1
         in take lasti t')
      else unique_brute [] s)"

lemma unique_brute_dedup: "unique_brute u s = u @ dedup_by (\<lambda>x. x) (set u) s"
  by (induction s arbitrary: u) simp_all

text \<open>
  The loop invariant of the compaction: the first \<open>lasti\<close> cells hold the distinct
  neighbours of the part already read, and the unread part is untouched.
\<close>

lemma remdups_adj_snoc:
  "xs \<noteq> [] \<Longrightarrow> remdups_adj (xs @ [y]) =
     (if last xs = y then remdups_adj xs else remdups_adj xs @ [y])"
  by (induction xs rule: remdups_adj.induct) auto

lemma unique_weed_inv:
  assumes "length t = n" and "length t0 = n" and "0 < i" and "i \<le> n"
    and "take lasti t = remdups_adj (take i t0)"
    and "drop i t = drop i t0" and "lst = t0 ! (i - 1)" and "lasti \<le> i"
  shows "case unique_weed n t lst lasti i of (t', k) \<Rightarrow> take k t' = remdups_adj t0"
  using assms
proof (induction n t lst lasti i rule: unique_weed.induct)
  case (1 n t lst lasti i)
  show ?case
  proof (cases "i < n")
    case True
    have ti: "t ! i = t0 ! i"
      using "1.prems" True by (metis Cons_nth_drop_Suc list.inject)
    have tk: "take (i + 1) t0 = take i t0 @ [t0 ! i]"
      using "1.prems" True by (simp add: take_Suc_conv_app_nth)
    have ne: "take i t0 \<noteq> []" using "1.prems" by auto
    have last: "last (take i t0) = lst"
      using "1.prems" last_conv_nth [OF ne] by simp
    have drop: "drop (i + 1) t = drop (i + 1) t0"
      using "1.prems" by (metis drop_drop add.commute)
    have rem: "remdups_adj (take (i + 1) t0) =
        (if lst = t0 ! i then remdups_adj (take i t0) else remdups_adj (take i t0) @ [t0 ! i])"
      using remdups_adj_snoc [OF ne, of "t0 ! i"] last tk by simp
    show ?thesis
    proof (cases "t ! i = lst")
      case eq: True
      have "case unique_weed n t lst lasti (i + 1) of (t', k) \<Rightarrow> take k t' = remdups_adj t0"
        using "1.prems" True eq rem drop ti by (intro "1.IH") auto
      then show ?thesis using True eq by (simp add: unique_weed.simps [of n t lst lasti i])
    next
      case False
      have len: "lasti < length t" using "1.prems" True by simp
      have "take (lasti + 1) (t[lasti := t ! i]) = take lasti t @ [t ! i]"
        using len by (simp add: take_Suc_conv_app_nth)
      moreover have "drop (i + 1) (t[lasti := t ! i]) = drop (i + 1) t"
        using "1.prems" by simp
      ultimately have "case unique_weed n (t[lasti := t ! i]) (t ! i) (lasti + 1) (i + 1) of
          (t', k) \<Rightarrow> take k t' = remdups_adj t0"
        using "1.prems" True False rem drop ti by (intro "1.IH") auto
      then show ?thesis using True False by (simp add: unique_weed.simps [of n t lst lasti i])
    qed
  next
    case False
    then have "unique_weed n t lst lasti i = (t, lasti)"
      by (simp add: unique_weed.simps [of n t lst lasti i])
    then show ?thesis using "1.prems" False by simp
  qed
qed

lemma unique_sorted_branch:
  assumes "s \<noteq> []"
  shows "unique False True ho s = remdups_adj (sort s)"
proof -
  have len: "length (sort s) = length s" by simp
  have ne: "sort s \<noteq> []" using assms by (metis len length_0_conv)
  have "take 1 (sort s) = [sort s ! 0]"
    using ne by (cases "sort s") auto
  then have "case unique_weed (length s) (sort s) (sort s ! 0) 1 1 of
      (t', k) \<Rightarrow> take k t' = remdups_adj (sort s)"
    using assms by (intro unique_weed_inv) (auto simp: Suc_leI)
  then show ?thesis using assms by (simp add: unique_def Let_def split: prod.splits)
qed

lemma sorted_remdups_adj_distinct: "sorted xs \<Longrightarrow> distinct (remdups_adj xs)"
  by (induction xs rule: remdups_adj.induct) auto

interpretation uh: first_occurrence_dedup uniquer_hashables
  by unfold_locales (rule uniquer_hashables_dedup)

interpretation un: first_occurrence_dedup "\<lambda>seq. uniquer seq None"
  by unfold_locales (simp add: uniquer_dedup_by)

interpretation ub: first_occurrence_dedup "unique_brute []"
  by unfold_locales (simp add: unique_brute_dedup)

section \<open>Properties\<close>

text \<open>
  The three ways of \<open>unique\<close> agree up to order: whether the elements hash, or can only be sorted,
  or can only be compared, the result has each element of the sequence exactly once; the
  second way gives them sorted and the third in the order of first occurrence.
\<close>

theorem unique_ways_agree:
  assumes "enumerates ho"
  shows "set (unique hashable sortable ho s) = set s \<and> distinct (unique hashable sortable ho s) \<and>
    unique False True ho s = remdups_adj (sort s) \<and> unique False False ho s = dedup s"
proof -
  have sorted: "unique False True ho s = remdups_adj (sort s)"
    using unique_sorted_branch [of s ho] by (cases "s = []") (simp_all add: unique_def)
  have brute: "unique False False ho s = dedup s" by (simp add: unique_def unique_brute_dedup)
  have "distinct (remdups_adj (sort s))" by (simp add: sorted_remdups_adj_distinct)
  moreover have "unique True sortable ho s = (if s = [] then [] else ho (set s))"
    by (simp add: unique_def)
  ultimately show ?thesis using sorted brute assms
    by (cases hashable; cases sortable) auto
qed

theorem unique_ways_agree_witness:
  "unique False True sorted_list_of_set [3, 1, 3 :: nat] = [1, 3] \<and>
   unique False False sorted_list_of_set [3, 1, 3 :: nat] = [3, 1]"
  using unique_ways_agree [OF enumerates_sorted_list_of_set, of False False "[3, 1, 3 :: nat]"] by simp

text \<open>
  Flattening gives exactly the leaves of a nested sequence from left to right: nothing that is
  left is a list or a tuple, a scalar gives itself alone, and flattening the result again
  changes nothing.
\<close>

theorem flatten_is_leaves:
  "flatten x = leaves x \<and> (\<forall>y\<in>set (flatten x). is_Scalar y) \<and>
   flatten_sequence (flatten x) = flatten x"
  using leaves_scalar [of _ x] leaves_of_scalars [of "leaves x"]
  by (simp add: flatten_leaves flatten_sequence_def do_flatten_leaves)

theorem flatten_is_leaves_witness:
  "flatten (PList [PStr ''a'', PTuple [PObj (1 :: nat), PList []]]) = [PStr ''a'', PObj 1]"
  using flatten_is_leaves [of "PList [PStr ''a'', PTuple [PObj (1 :: nat), PList []]]"] by simp

end
