(* ===== verification/UniqueList.thy ===== *)
theory UniqueList
  imports PyList
begin

text \<open>
  \<open>SCons/Util.py\<close>, class \<open>UniqueList\<close>: a list that removes its own
  duplicates lazily. Mutators clear the flag \<open>unique\<close>, observers call
  \<open>__make_unique\<close> first. Every operation returns the object's new state, because
  observers change it too. \<open>ul_view\<close> is what an observer sees; the lemmas relate
  each operation to an operation on duplicate-free lists.
\<close>

record 'a ulist =
  ul_data :: "'a list"
  ul_unique :: bool

definition ul_init :: "'a list \<Rightarrow> 'a ulist" where
  "ul_init seq = \<lparr>ul_data = seq, ul_unique = True\<rparr>"

definition make_unique :: "'a ulist \<Rightarrow> 'a ulist" where
  "make_unique u =
     (if \<not> ul_unique u
      then u\<lparr>ul_data := uniquer_hashables (ul_data u), ul_unique := True\<rparr> else u)"

text \<open>
  The comparisons deduplicate \<open>self\<close> and compare with the raw data of the other
  operand (\<open>UserList.__cast\<close> takes \<open>other.data\<close> as it is).
\<close>

definition ul_eq :: "'a ulist \<Rightarrow> 'a ulist \<Rightarrow> bool \<times> 'a ulist" where
  "ul_eq u v = (let u' = make_unique u in (ul_data u' = ul_data v, u'))"

definition ul_ne :: "'a ulist \<Rightarrow> 'a ulist \<Rightarrow> bool \<times> 'a ulist" where
  "ul_ne u v = (let u' = make_unique u in (ul_data u' \<noteq> ul_data v, u'))"

definition ul_len :: "'a ulist \<Rightarrow> nat \<times> 'a ulist" where
  "ul_len u = (let u' = make_unique u in (length (ul_data u'), u'))"

text \<open>Python's index: negative positions count from the end; out of range raises.\<close>

datatype list_error = IndexError | ValueError | ArgTypeError

definition py_index :: "'a list \<Rightarrow> int \<Rightarrow> nat option" where
  "py_index xs i =
     (let j = (if i < 0 then int (length xs) + i else i)
      in if 0 \<le> j \<and> j < int (length xs) then Some (nat j) else None)"

definition ul_getitem :: "'a ulist \<Rightarrow> int \<Rightarrow> (list_error + 'a) \<times> 'a ulist" where
  "ul_getitem u i =
     (let u' = make_unique u
      in (case py_index (ul_data u') i of
            None \<Rightarrow> Inl IndexError | Some j \<Rightarrow> Inr (ul_data u' ! j), u'))"

definition ul_setitem :: "'a ulist \<Rightarrow> int \<Rightarrow> 'a \<Rightarrow> (list_error + unit) \<times> 'a ulist" where
  "ul_setitem u i x =
     (case py_index (ul_data u) i of
        None \<Rightarrow> (Inl IndexError, u)
      | Some j \<Rightarrow> (Inr (), u\<lparr>ul_data := (ul_data u)[j := x], ul_unique := False\<rparr>))"

definition ul_getslice :: "'a ulist \<Rightarrow> int \<Rightarrow> int \<Rightarrow> 'a ulist \<times> 'a ulist" where
  "ul_getslice u i j =
     (let u' = make_unique u; i' = nat (max i 0); j' = nat (max j 0)
      in (ul_init (take (j' - i') (drop i' (ul_data u'))), u'))"

definition ul_setslice :: "'a ulist \<Rightarrow> int \<Rightarrow> int \<Rightarrow> 'a list \<Rightarrow> 'a ulist" where
  "ul_setslice u i j other =
     (let i' = nat (max i 0); j' = max i' (nat (max j 0))
      in u\<lparr>ul_data := take i' (ul_data u) @ other @ drop j' (ul_data u), ul_unique := False\<rparr>)"

definition ul_add :: "'a ulist \<Rightarrow> 'a list \<Rightarrow> 'a ulist" where
  "ul_add u other = (ul_init (ul_data u @ other))\<lparr>ul_unique := False\<rparr>"

definition ul_radd :: "'a ulist \<Rightarrow> 'a list \<Rightarrow> 'a ulist" where
  "ul_radd u other = (ul_init (other @ ul_data u))\<lparr>ul_unique := False\<rparr>"

definition ul_iadd :: "'a ulist \<Rightarrow> 'a list \<Rightarrow> 'a ulist" where
  "ul_iadd u other = u\<lparr>ul_data := ul_data u @ other, ul_unique := False\<rparr>"

definition ul_mul :: "'a ulist \<Rightarrow> int \<Rightarrow> 'a ulist" where
  "ul_mul u n = (ul_init (concat (replicate (nat n) (ul_data u))))\<lparr>ul_unique := False\<rparr>"

definition ul_imul :: "'a ulist \<Rightarrow> int \<Rightarrow> 'a ulist" where
  "ul_imul u n = u\<lparr>ul_data := concat (replicate (nat n) (ul_data u)), ul_unique := False\<rparr>"

definition ul_append :: "'a ulist \<Rightarrow> 'a \<Rightarrow> 'a ulist" where
  "ul_append u x = u\<lparr>ul_data := ul_data u @ [x], ul_unique := False\<rparr>"

text \<open>
  \<open>insert(self, i)\<close> passes one argument to \<open>UserList.insert\<close>, which takes
  two: every call raises \<open>TypeError\<close> before the flag is touched.
\<close>

definition ul_insert :: "'a ulist \<Rightarrow> int \<Rightarrow> (list_error + unit) \<times> 'a ulist" where
  "ul_insert u i = (Inl ArgTypeError, u)"

definition ul_count :: "'a ulist \<Rightarrow> 'a \<Rightarrow> nat \<times> 'a ulist" where
  "ul_count u x = (let u' = make_unique u in (count_list (ul_data u') x, u'))"

fun index_of :: "'a \<Rightarrow> 'a list \<Rightarrow> nat option" where
  "index_of x [] = None"
| "index_of x (y # ys) = (if x = y then Some 0 else map_option Suc (index_of x ys))"

definition ul_index :: "'a ulist \<Rightarrow> 'a \<Rightarrow> (list_error + nat) \<times> 'a ulist" where
  "ul_index u x =
     (let u' = make_unique u
      in (case index_of x (ul_data u') of None \<Rightarrow> Inl ValueError | Some i \<Rightarrow> Inr i, u'))"

definition ul_reverse :: "'a ulist \<Rightarrow> 'a ulist" where
  "ul_reverse u = (let u' = make_unique u in u'\<lparr>ul_data := rev (ul_data u')\<rparr>)"

definition ul_sort :: "('a::linorder) ulist \<Rightarrow> 'a ulist" where
  "ul_sort u = (let u' = make_unique u in u'\<lparr>ul_data := sort (ul_data u')\<rparr>)"

definition ul_extend :: "'a ulist \<Rightarrow> 'a list \<Rightarrow> 'a ulist" where
  "ul_extend u other = u\<lparr>ul_data := ul_data u @ other, ul_unique := False\<rparr>"

text \<open>
  What the class inherits from \<open>UserList\<close> works on the raw data and leaves the flag alone:
  \<open>__contains__\<close>, \<open>__delitem__\<close>, \<open>__delslice__\<close>, \<open>pop\<close> and \<open>remove\<close>.
\<close>

definition ul_contains :: "'a ulist \<Rightarrow> 'a \<Rightarrow> bool" where
  "ul_contains u x = (x \<in> set (ul_data u))"

definition drop_index :: "nat \<Rightarrow> 'a list \<Rightarrow> 'a list" where
  "drop_index j xs = take j xs @ drop (Suc j) xs"

definition drop_slice :: "int \<Rightarrow> int \<Rightarrow> 'a list \<Rightarrow> 'a list" where
  "drop_slice i j xs = (let i' = nat (max i 0); j' = max i' (nat (max j 0)) in take i' xs @ drop j' xs)"

definition ul_pop :: "'a ulist \<Rightarrow> int \<Rightarrow> (list_error + 'a) \<times> 'a ulist" where
  "ul_pop u i =
     (case py_index (ul_data u) i of
        None \<Rightarrow> (Inl IndexError, u)
      | Some j \<Rightarrow> (Inr (ul_data u ! j), u\<lparr>ul_data := drop_index j (ul_data u)\<rparr>))"

definition ul_remove :: "'a ulist \<Rightarrow> 'a \<Rightarrow> (list_error + unit) \<times> 'a ulist" where
  "ul_remove u x =
     (if x \<in> set (ul_data u) then (Inr (), u\<lparr>ul_data := remove1 x (ul_data u)\<rparr>) else (Inl ValueError, u))"

definition ul_delitem :: "'a ulist \<Rightarrow> int \<Rightarrow> (list_error + unit) \<times> 'a ulist" where
  "ul_delitem u i =
     (case py_index (ul_data u) i of
        None \<Rightarrow> (Inl IndexError, u) | Some j \<Rightarrow> (Inr (), u\<lparr>ul_data := drop_index j (ul_data u)\<rparr>))"

definition ul_delslice :: "'a ulist \<Rightarrow> int \<Rightarrow> int \<Rightarrow> 'a ulist" where
  "ul_delslice u i j = u\<lparr>ul_data := drop_slice i j (ul_data u)\<rparr>"

section \<open>Invariant and view\<close>

definition ul_wf :: "'a ulist \<Rightarrow> bool" where
  "ul_wf u \<longleftrightarrow> (ul_unique u \<longrightarrow> distinct (ul_data u))"

definition ul_view :: "'a ulist \<Rightarrow> 'a list" where
  "ul_view u = (if ul_unique u then ul_data u else dedup (ul_data u))"

lemma make_unique_data: "ul_data (make_unique u) = ul_view u"
  by (simp add: make_unique_def ul_view_def uniquer_hashables_dedup)

lemma make_unique_flag: "ul_unique (make_unique u)"
  by (simp add: make_unique_def)

lemma make_unique_view: "ul_view (make_unique u) = ul_view u"
  by (simp add: ul_view_def make_unique_flag make_unique_data)

lemma ul_view_distinct: "ul_wf u \<Longrightarrow> distinct (ul_view u)"
  by (simp add: ul_wf_def ul_view_def)

lemma ul_view_set: "set (ul_view u) = set (ul_data u)"
  by (simp add: ul_view_def)

lemma ul_view_dedup: "ul_wf u \<Longrightarrow> ul_view u = dedup (ul_data u)"
  by (simp add: ul_wf_def ul_view_def)

lemmas make_unique_facts = make_unique_data make_unique_flag make_unique_view

section \<open>Commands and their specification\<close>

text \<open>
  The operations on one object as commands with answers, and the same commands on lists without
  duplicates, where duplicates are removed at once.
\<close>

datatype 'a ul_cmd =
    Append 'a | Extend "'a list" | IAdd "'a list" | IMul int | Reverse | Sort | InsertAt int
  | SetItem int 'a | SetSlice int int "'a list" | DelItem int | DelSlice int int | PopAt int | RemoveItem 'a
  | LenOf | GetItem int | GetSlice int int | CountOf 'a | IndexOf 'a | Contains 'a

datatype 'a answer = ADone | AItem 'a | AItems "'a list" | ANumber nat | ATruth bool | ARaise list_error

definition answer_of :: "('b \<Rightarrow> 'a answer) \<Rightarrow> list_error + 'b \<Rightarrow> 'a answer" where
  "answer_of f r = (case r of Inl e \<Rightarrow> ARaise e | Inr x \<Rightarrow> f x)"

lemma answer_of_simps [simp]: "answer_of f (Inl e) = ARaise e" "answer_of f (Inr x) = f x"
  by (simp_all add: answer_of_def)

fun ul_step :: "('a::linorder) ul_cmd \<Rightarrow> 'a ulist \<Rightarrow> 'a answer \<times> 'a ulist" where
  "ul_step (Append x) u = (ADone, ul_append u x)"
| "ul_step (Extend xs) u = (ADone, ul_extend u xs)"
| "ul_step (IAdd xs) u = (ADone, ul_iadd u xs)"
| "ul_step (IMul n) u = (ADone, ul_imul u n)"
| "ul_step Reverse u = (ADone, ul_reverse u)"
| "ul_step Sort u = (ADone, ul_sort u)"
| "ul_step (InsertAt i) u = map_prod (answer_of (\<lambda>_. ADone)) id (ul_insert u i)"
| "ul_step (SetItem i x) u = map_prod (answer_of (\<lambda>_. ADone)) id (ul_setitem u i x)"
| "ul_step (SetSlice i j xs) u = (ADone, ul_setslice u i j xs)"
| "ul_step (DelItem i) u = map_prod (answer_of (\<lambda>_. ADone)) id (ul_delitem u i)"
| "ul_step (DelSlice i j) u = (ADone, ul_delslice u i j)"
| "ul_step (PopAt i) u = map_prod (answer_of AItem) id (ul_pop u i)"
| "ul_step (RemoveItem x) u = map_prod (answer_of (\<lambda>_. ADone)) id (ul_remove u x)"
| "ul_step LenOf u = map_prod ANumber id (ul_len u)"
| "ul_step (GetItem i) u = map_prod (answer_of AItem) id (ul_getitem u i)"
| "ul_step (GetSlice i j) u = map_prod (\<lambda>v. AItems (ul_data v)) id (ul_getslice u i j)"
| "ul_step (CountOf x) u = map_prod ANumber id (ul_count u x)"
| "ul_step (IndexOf x) u = map_prod (answer_of ANumber) id (ul_index u x)"
| "ul_step (Contains x) u = (ATruth (ul_contains u x), u)"

definition at_index :: "'a list \<Rightarrow> int \<Rightarrow> (nat \<Rightarrow> 'a answer \<times> 'a list) \<Rightarrow> 'a answer \<times> 'a list" where
  "at_index v i f = (case py_index v i of None \<Rightarrow> (ARaise IndexError, v) | Some j \<Rightarrow> f j)"

fun spec_step :: "('a::linorder) ul_cmd \<Rightarrow> 'a list \<Rightarrow> 'a answer \<times> 'a list" where
  "spec_step (Append x) v = (ADone, if x \<in> set v then v else v @ [x])"
| "spec_step (Extend xs) v = (ADone, v @ filter (\<lambda>x. x \<notin> set v) (dedup xs))"
| "spec_step (IAdd xs) v = (ADone, v @ filter (\<lambda>x. x \<notin> set v) (dedup xs))"
| "spec_step (IMul n) v = (ADone, if n \<le> 0 then [] else v)"
| "spec_step Reverse v = (ADone, rev v)"
| "spec_step Sort v = (ADone, sort v)"
| "spec_step (InsertAt i) v = (ARaise ArgTypeError, v)"
| "spec_step (SetItem i x) v = at_index v i (\<lambda>j. (ADone, dedup (v[j := x])))"
| "spec_step (SetSlice i j xs) v =
     (ADone, dedup (take (nat (max i 0)) v @ xs @ drop (max (nat (max i 0)) (nat (max j 0))) v))"
| "spec_step (DelItem i) v = at_index v i (\<lambda>j. (ADone, drop_index j v))"
| "spec_step (DelSlice i j) v = (ADone, drop_slice i j v)"
| "spec_step (PopAt i) v = at_index v i (\<lambda>j. (AItem (v ! j), drop_index j v))"
| "spec_step (RemoveItem x) v = (if x \<in> set v then (ADone, remove1 x v) else (ARaise ValueError, v))"
| "spec_step LenOf v = (ANumber (length v), v)"
| "spec_step (GetItem i) v = at_index v i (\<lambda>j. (AItem (v ! j), v))"
| "spec_step (GetSlice i j) v = (AItems (take (nat (max j 0) - nat (max i 0)) (drop (nat (max i 0)) v)), v)"
| "spec_step (CountOf x) v = (ANumber (if x \<in> set v then 1 else 0), v)"
| "spec_step (IndexOf x) v = ((case index_of x v of None \<Rightarrow> ARaise ValueError | Some i \<Rightarrow> ANumber i), v)"
| "spec_step (Contains x) v = (ATruth (x \<in> set v), v)"

fun run_cmds :: "('c \<Rightarrow> 's \<Rightarrow> 'b \<times> 's) \<Rightarrow> 'c list \<Rightarrow> 's \<Rightarrow> 'b list \<times> 's" where
  "run_cmds f [] s = ([], s)"
| "run_cmds f (c # cs) s = (let (a, s1) = f c s; (as, s2) = run_cmds f cs s1 in (a # as, s2))"

text \<open>
  The commands that change the raw data at a position or delete from it without removing the
  duplicates first, and the runs that give them no duplicates to hit.
\<close>

fun raw_cmd :: "'a ul_cmd \<Rightarrow> bool" where
  "raw_cmd (SetItem _ _) = True"
| "raw_cmd (SetSlice _ _ _) = True"
| "raw_cmd (DelItem _) = True"
| "raw_cmd (DelSlice _ _) = True"
| "raw_cmd (PopAt _) = True"
| "raw_cmd (RemoveItem _) = True"
| "raw_cmd _ = False"

fun settled :: "('a::linorder) ul_cmd list \<Rightarrow> 'a ulist \<Rightarrow> bool" where
  "settled [] u \<longleftrightarrow> True"
| "settled (c # cs) u \<longleftrightarrow> (raw_cmd c \<longrightarrow> distinct (ul_data u)) \<and> settled cs (snd (ul_step c u))"

lemma dedup_append_view:
  "ul_wf u \<Longrightarrow> dedup (ul_data u @ xs) = ul_view u @ filter (\<lambda>x. x \<notin> set (ul_view u)) (dedup xs)"
  using uh.rm_append [of "ul_data u" xs]
  by (simp add: uniquer_hashables_dedup ul_view_dedup ul_view_set)

lemma dedup_concat_replicate:
  "dedup (concat (replicate n xs)) = (if n = 0 then [] else dedup xs)"
proof (cases n)
  case 0
  then show ?thesis by simp
next
  case (Suc m)
  have "dedup (xs @ concat (replicate m xs)) =
      dedup xs @ filter (\<lambda>y. y \<notin> set xs) (dedup (concat (replicate m xs)))"
    using uh.rm_append [of xs "concat (replicate m xs)"] by (simp add: uniquer_hashables_dedup)
  moreover have "filter (\<lambda>y. y \<notin> set xs) (dedup (concat (replicate m xs))) = []"
    by (auto simp: filter_empty_conv)
  ultimately show ?thesis using Suc by simp
qed

lemma distinct_drop_index: "distinct v \<Longrightarrow> distinct (drop_index j v)"
  using set_take_disj_set_drop_if_distinct [of v j "Suc j"]
  by (auto simp: drop_index_def distinct_append)

lemma distinct_drop_slice: "distinct v \<Longrightarrow> distinct (drop_slice i j v)"
  unfolding drop_slice_def Let_def distinct_append
  by (intro conjI set_take_disj_set_drop_if_distinct) auto

lemma ul_view_raw: "distinct (ul_data u) \<Longrightarrow> ul_view u = ul_data u"
  by (simp add: ul_view_def dedup_distinct)

text \<open>One command: the answer, the view, and well-formedness, by groups.\<close>

definition simulates :: "('a::linorder) ul_cmd \<Rightarrow> 'a ulist \<Rightarrow> bool" where
  "simulates c u \<longleftrightarrow> ul_wf (snd (ul_step c u)) \<and> fst (ul_step c u) = fst (spec_step c (ul_view u)) \<and>
     ul_view (snd (ul_step c u)) = snd (spec_step c (ul_view u))"

lemma flagged: "\<not> ul_unique u \<Longrightarrow> ul_wf u \<and> ul_view u = dedup (ul_data u)"
  by (simp add: ul_wf_def ul_view_def)

lemma simulates_growth:
  assumes "ul_wf u"
  shows "simulates (Append x) u" "simulates (Extend xs) u" "simulates (IAdd xs) u" "simulates (IMul n) u"
proof -
  show "simulates (Append x) u"
    using dedup_append_view [OF assms, of "[x]"] flagged [of "ul_append u x"] by (simp add: simulates_def ul_append_def)
  show "simulates (Extend xs) u"
    using dedup_append_view [OF assms, of xs] flagged [of "ul_extend u xs"] by (simp add: simulates_def ul_extend_def)
  show "simulates (IAdd xs) u"
    using dedup_append_view [OF assms, of xs] flagged [of "ul_iadd u xs"] by (simp add: simulates_def ul_iadd_def)
  show "simulates (IMul n) u"
    using dedup_concat_replicate [of "nat n" "ul_data u"] ul_view_dedup [OF assms] flagged [of "ul_imul u n"]
    by (simp add: simulates_def ul_imul_def)
qed

lemma made_unique:
  assumes "ul_wf u"
  shows "make_unique u = \<lparr>ul_data = ul_view u, ul_unique = True\<rparr>"
  using make_unique_facts [of u] by (cases "make_unique u") simp

lemma view_of_unique [simp]: "ul_view \<lparr>ul_data = xs, ul_unique = True\<rparr> = xs"
  by (simp add: ul_view_def)

lemma wf_of_unique [simp]: "ul_wf \<lparr>ul_data = xs, ul_unique = True\<rparr> \<longleftrightarrow> distinct xs"
  by (simp add: ul_wf_def)

lemma simulates_order:
  assumes "ul_wf u"
  shows "simulates Reverse u" "simulates Sort u"
  using ul_view_distinct [OF assms]
  by (simp_all add: simulates_def ul_reverse_def ul_sort_def Let_def made_unique [OF assms])

lemma simulates_observers:
  assumes "ul_wf u"
  shows "simulates LenOf u" "simulates (GetItem i) u" "simulates (GetSlice i j) u" "simulates (CountOf x) u"
    "simulates (IndexOf x) u" "simulates (Contains x) u" "simulates (InsertAt i) u"
proof -
  note d = ul_view_distinct [OF assms] and m = made_unique [OF assms]
  show "simulates LenOf u" using d by (simp add: simulates_def ul_len_def Let_def m)
  show "simulates (GetItem i) u"
    using d by (simp add: simulates_def ul_getitem_def at_index_def Let_def m split: option.split)
  show "simulates (GetSlice i j) u"
    using d by (simp add: simulates_def ul_getslice_def Let_def m ul_init_def)
  show "simulates (CountOf x) u"
    using d by (simp add: simulates_def ul_count_def Let_def m count_list_distinct)
  show "simulates (IndexOf x) u"
    using d by (simp add: simulates_def ul_index_def Let_def m split: option.split)
  show "simulates (Contains x) u" using assms by (simp add: simulates_def ul_contains_def ul_view_set)
  show "simulates (InsertAt i) u" using assms by (simp add: simulates_def ul_insert_def)
qed

lemma simulates_raw:
  assumes "ul_wf u" and d: "distinct (ul_data u)"
  shows "simulates (SetItem i x) u" "simulates (SetSlice i j xs) u" "simulates (DelItem i) u"
    "simulates (DelSlice i j) u" "simulates (PopAt i) u" "simulates (RemoveItem x) u"
proof -
  note v = ul_view_raw [OF d]
  have kept: "ul_wf (u\<lparr>ul_data := xs\<rparr>) \<and> ul_view (u\<lparr>ul_data := xs\<rparr>) = xs" if "distinct xs" for xs
    using that by (simp add: ul_wf_def ul_view_raw)
  show "simulates (SetItem i x) u" using assms(1)
    by (simp add: simulates_def ul_setitem_def at_index_def v flagged split: option.split)
  show "simulates (SetSlice i j xs) u"
    by (simp add: simulates_def ul_setslice_def Let_def v flagged)
  show "simulates (DelItem i) u" using assms(1) kept distinct_drop_index [OF d]
    by (simp add: simulates_def ul_delitem_def at_index_def v split: option.split)
  show "simulates (DelSlice i j) u" using kept distinct_drop_slice [OF d]
    by (simp add: simulates_def ul_delslice_def v)
  show "simulates (PopAt i) u" using assms(1) kept distinct_drop_index [OF d]
    by (simp add: simulates_def ul_pop_def at_index_def v split: option.split)
  show "simulates (RemoveItem x) u" using assms(1) kept [of "remove1 x (ul_data u)"] d
    by (simp add: simulates_def ul_remove_def v)
qed

lemma ul_step_simulates:
  assumes "ul_wf u" and "raw_cmd c \<Longrightarrow> distinct (ul_data u)"
  shows "simulates c u"
  using assms simulates_growth [OF assms(1)] simulates_order [OF assms(1)] simulates_observers [OF assms(1)]
    simulates_raw [OF assms(1)]
  by (cases c) simp_all

lemma ul_run_refines:
  assumes "ul_wf u" and "settled cs u"
  shows "ul_wf (snd (run_cmds ul_step cs u)) \<and>
    fst (run_cmds ul_step cs u) = fst (run_cmds spec_step cs (ul_view u)) \<and>
    ul_view (snd (run_cmds ul_step cs u)) = snd (run_cmds spec_step cs (ul_view u))"
  using assms
proof (induction cs arbitrary: u)
  case (Cons c cs)
  have "simulates c u" using ul_step_simulates Cons.prems by auto
  then show ?case using Cons.IH [of "snd (ul_step c u)"] Cons.prems(2)
    by (auto simp: simulates_def split_beta Let_def)
qed simp

section \<open>Properties\<close>



lemma pending_duplicates_hit:
  "ul_view (ul_extend (ul_init []) [1, 1, 2 :: nat]) = [1, 2]"
  "ul_view (snd (ul_setitem (ul_extend (ul_init []) [1, 1, 2 :: nat]) 1 3)) = [1, 3, 2]"
  "ul_view (snd (ul_remove (ul_extend (ul_init []) [1, 1, 2 :: nat]) 1)) = [1, 2]"
  by code_simp+

end
