(* ===== verification/OrderedDict.thy ===== *)
theory OrderedDict
  imports PyList
begin

text \<open>
  \<open>SCons/Util.py\<close>, classes \<open>OrderedDict\<close> and \<open>Selector\<close>: a dictionary
  with the list of its keys in insertion order, and the suffix selector built on it.
  The locale \<open>keyed_store\<close> is the dictionary contract; \<open>OrderedDict\<close>
  interprets it under its invariant that the key list and the dictionary agree.
\<close>

record ('k, 'v) odict =
  od_data :: "'k \<rightharpoonup> 'v"
  od_keys :: "'k list"

definition od_empty :: "('k, 'v) odict" where
  "od_empty = \<lparr>od_data = (\<lambda>_. None), od_keys = []\<rparr>"

definition od_setitem :: "('k, 'v) odict \<Rightarrow> 'k \<Rightarrow> 'v \<Rightarrow> ('k, 'v) odict" where
  "od_setitem d key item =
     \<lparr>od_data = (od_data d)(key \<mapsto> item),
      od_keys = (if key \<notin> set (od_keys d) then od_keys d @ [key] else od_keys d)\<rparr>"

datatype 'k dict_error = KeyError 'k | EmptyDict | SuffixClash 'k 'k 'k

text \<open>
  \<open>del self.data[key]\<close> raises for a missing key; \<open>list.remove\<close> drops the first
  occurrence.
\<close>

definition od_delitem :: "('k, 'v) odict \<Rightarrow> 'k \<Rightarrow> 'k dict_error + ('k, 'v) odict" where
  "od_delitem d key =
     (if od_data d key = None then Inl (KeyError key)
      else Inr \<lparr>od_data = (od_data d)(key := None), od_keys = remove1 key (od_keys d)\<rparr>)"

definition od_getitem :: "('k, 'v) odict \<Rightarrow> 'k \<Rightarrow> 'k dict_error + 'v" where
  "od_getitem d key = (case od_data d key of None \<Rightarrow> Inl (KeyError key) | Some v \<Rightarrow> Inr v)"

definition od_clear :: "('k, 'v) odict \<Rightarrow> ('k, 'v) odict" where
  "od_clear d = \<lparr>od_data = (\<lambda>_. None), od_keys = []\<rparr>"

definition od_get_keys :: "('k, 'v) odict \<Rightarrow> 'k list" where
  "od_get_keys d = od_keys d"

text \<open>\<open>values\<close> maps \<open>self.get\<close> over the keys (\<open>None\<close> for a key not stored).\<close>

definition od_values :: "('k, 'v) odict \<Rightarrow> 'v option list" where
  "od_values d = map (od_data d) (od_keys d)"

definition od_items :: "('k, 'v) odict \<Rightarrow> ('k \<times> 'v option) list" where
  "od_items d = zip (od_keys d) (od_values d)"

fun od_update :: "('k, 'v) odict \<Rightarrow> ('k \<times> 'v) list \<Rightarrow> ('k, 'v) odict" where
  "od_update d [] = d"
| "od_update d ((key, val) # items) = od_update (od_setitem d key val) items"

definition stored_items :: "('k, 'v) odict \<Rightarrow> ('k \<times> 'v) list" where
  "stored_items d = List.map_filter (\<lambda>(k, v). map_option (Pair k) v) (od_items d)"

definition od_init :: "('k \<times> 'v) list option \<Rightarrow> ('k, 'v) odict" where
  "od_init dict = (case dict of None \<Rightarrow> od_empty | Some items \<Rightarrow> od_update od_empty items)"

definition od_copy :: "('k, 'v) odict \<Rightarrow> ('k, 'v) odict" where
  "od_copy d = od_update od_empty (stored_items d)"

definition od_popitem ::
  "('k, 'v) odict \<Rightarrow> 'k dict_error + ('k \<times> 'v) \<times> ('k, 'v) odict" where
  "od_popitem d =
     (if od_keys d = [] then Inl EmptyDict
      else (let key = last (od_keys d) in
            bind_result (od_getitem d key) (\<lambda>val.
            bind_result (od_delitem d key) (\<lambda>d'. Inr ((key, val), d')))))"

text \<open>
  \<open>UserDict.setdefault\<close> stores through \<open>self[key] = failobj\<close> when the key is
  missing; the method then appends the key if it is still not listed.
\<close>

definition od_setdefault :: "('k, 'v) odict \<Rightarrow> 'k \<Rightarrow> 'v \<Rightarrow> ('k, 'v) odict" where
  "od_setdefault d key failobj =
     (let d' = (if od_data d key = None then od_setitem d key failobj else d)
      in if key \<notin> set (od_keys d') then d'\<lparr>od_keys := od_keys d' @ [key]\<rparr> else d')"

section \<open>Selector\<close>

text \<open>
  \<open>Selector.__call__\<close>: the literal key first; then the keys after environment
  substitution, where two keys that become the same suffix raise; then the default key
  \<open>None\<close>; then nothing. \<open>subst\<close> is \<open>env.subst\<close>, \<open>suffix\<close> the suffix
  of the first source, or \<open>None\<close> when there is no source.
\<close>

fun sel_subst_dict ::
  "(string \<Rightarrow> string) \<Rightarrow> (string \<rightharpoonup> string \<times> 'v) \<Rightarrow> (string option \<times> 'v) list \<Rightarrow>
     string dict_error + (string \<rightharpoonup> string \<times> 'v)" where
  "sel_subst_dict subst s_dict [] = Inr s_dict"
| "sel_subst_dict subst s_dict ((None, v) # items) = sel_subst_dict subst s_dict items"
| "sel_subst_dict subst s_dict ((Some k, v) # items) =
     (let s_k = subst k in
      case s_dict s_k of
        Some (k0, _) \<Rightarrow> Inl (SuffixClash k0 k s_k)
      | None \<Rightarrow> sel_subst_dict subst (s_dict(s_k \<mapsto> (k, v))) items)"

definition selector_call ::
  "(string \<Rightarrow> string) \<Rightarrow> (string option, 'v) odict \<Rightarrow> string option \<Rightarrow> string option \<Rightarrow>
     string dict_error + 'v option" where
  "selector_call subst d suffix ext0 =
     (let ext = (case ext0 of Some e \<Rightarrow> e
                 | None \<Rightarrow> (case suffix of Some s \<Rightarrow> s | None \<Rightarrow> [])) in
      case od_data d (Some ext) of
        Some v \<Rightarrow> Inr (Some v)
      | None \<Rightarrow>
          bind_result (sel_subst_dict subst (\<lambda>_. None) (stored_items d)) (\<lambda>s_dict.
            case s_dict ext of
              Some (k, v) \<Rightarrow> Inr (Some v)
            | None \<Rightarrow> Inr (od_data d None)))"

section \<open>Invariant and contract\<close>

definition od_wf :: "('k, 'v) odict \<Rightarrow> bool" where
  "od_wf d \<longleftrightarrow> distinct (od_keys d) \<and> set (od_keys d) = dom (od_data d)"

locale keyed_store =
  fixes empty :: "'d"
    and put :: "'d \<Rightarrow> 'k \<Rightarrow> 'v \<Rightarrow> 'd"
    and look :: "'d \<Rightarrow> 'k \<rightharpoonup> 'v"
    and wf :: "'d \<Rightarrow> bool"
  assumes wf_empty: "wf empty"
    and look_empty: "look empty k = None"
    and wf_put: "wf d \<Longrightarrow> wf (put d k v)"
    and look_put: "wf d \<Longrightarrow> look (put d k v) k' = (if k' = k then Some v else look d k')"
begin

definition put_all :: "'d \<Rightarrow> ('k \<times> 'v) list \<Rightarrow> 'd" where
  "put_all d kvs = fold (\<lambda>(k, v) d. put d k v) kvs d"

lemma wf_put_all: "wf d \<Longrightarrow> wf (put_all d kvs)"
  unfolding put_all_def by (induction kvs arbitrary: d) (auto simp: wf_put)

lemma look_put_all:
  "wf d \<Longrightarrow> look (put_all d kvs) k =
     (case map_of (rev kvs) k of Some v \<Rightarrow> Some v | None \<Rightarrow> look d k)"
proof (induction kvs arbitrary: d)
  case Nil
  then show ?case by (simp add: put_all_def)
next
  case (Cons kv kvs)
  obtain a b where kv: "kv = (a, b)" by (cases kv)
  have "look (put_all (put d a b) kvs) k =
      (case map_of (rev kvs) k of Some v \<Rightarrow> Some v | None \<Rightarrow> look (put d a b) k)"
    using Cons by (simp add: wf_put)
  then show ?case using Cons.prems kv
    by (auto simp: put_all_def map_add_def look_put split: option.splits)
qed

end

interpretation od: keyed_store od_empty od_setitem od_data od_wf
  by unfold_locales (auto simp: od_empty_def od_setitem_def od_wf_def)

lemma od_update_put_all: "od_update d items = od.put_all d items"
  by (induction d items rule: od_update.induct) (simp_all add: od.put_all_def)

lemma od_keys_update:
  "od_wf d \<Longrightarrow> od_keys (od_update d items) =
     od_keys d @ filter (\<lambda>k. k \<notin> set (od_keys d)) (dedup (map fst items))"
proof (induction d items rule: od_update.induct)
  case (1 d)
  then show ?case by simp
next
  case (2 d key val items)
  have "dedup_by (\<lambda>x. x) {key} (map fst items) =
      filter (\<lambda>k. k \<noteq> key) (dedup (map fst items))"
    using dedup_by_Un [of "\<lambda>x. x" "{}" "{key}"] by simp
  then show ?case using 2 od.wf_put [OF "2.prems"]
    by (auto simp: od_setitem_def intro!: filter_cong)
qed

lemma od_items_wf: "od_wf d \<Longrightarrow> od_items d = map (\<lambda>k. (k, od_data d k)) (od_keys d)"
  by (simp add: od_items_def od_values_def zip_map2 zip_same_conv_map)

lemma stored_items_wf:
  assumes "od_wf d"
  shows "map fst (stored_items d) = od_keys d \<and> map_of (stored_items d) = od_data d"
proof -
  have dom: "\<exists>v. od_data d k = Some v" if "k \<in> set (od_keys d)" for k
    using assms that by (auto simp: od_wf_def)
  have *: "map fst (List.map_filter (\<lambda>(k, v). map_option (Pair k) v)
       (map (\<lambda>k. (k, od_data d k)) ks)) = ks \<and>
     map_of (List.map_filter (\<lambda>(k, v). map_option (Pair k) v)
       (map (\<lambda>k. (k, od_data d k)) ks)) = od_data d |` set ks"
    if "set ks \<subseteq> set (od_keys d)" for ks
    using that
  proof (induction ks)
    case Nil
    then show ?case by (simp add: List.map_filter_def)
  next
    case (Cons k ks)
    then obtain v where "od_data d k = Some v" using dom [of k] by auto
    then show ?case using Cons by (auto simp: List.map_filter_def restrict_map_def fun_eq_iff)
  qed
  have "od_data d |` set (od_keys d) = od_data d"
    using assms by (auto simp: od_wf_def restrict_map_def fun_eq_iff domIff)
  then show ?thesis
    using * [of "od_keys d"] by (simp add: stored_items_def od_items_wf assms)
qed

lemma od_setitem_wf: "od_wf d \<Longrightarrow> od_wf (od_setitem d k v)"
  by (rule od.wf_put)

lemma od_delitem_wf: "od_wf d \<Longrightarrow> od_delitem d k = Inr d' \<Longrightarrow> od_wf d'"
  by (auto simp: od_delitem_def od_wf_def split: if_splits)

lemma od_setdefault_wf: "od_wf d \<Longrightarrow> od_wf (od_setdefault d k v)"
  by (auto simp: od_setdefault_def Let_def od_setitem_def od_wf_def)

lemma od_update_wf: "od_wf d \<Longrightarrow> od_wf (od_update d items)"
  by (simp add: od_update_put_all od.wf_put_all)

lemma od_popitem_wf: "od_wf d \<Longrightarrow> od_popitem d = Inr (kv, d') \<Longrightarrow> od_wf d'"
  by (auto simp: od_popitem_def Let_def bind_result_Inr_iff intro: od_delitem_wf split: if_splits)

lemma od_popitem_setitem:
  assumes "od_wf d" and "k \<notin> set (od_keys d)"
  shows "od_popitem (od_setitem d k v) = Inr ((k, v), d)"
proof -
  have "od_data d k = None" using assms by (auto simp: od_wf_def domIff)
  then have "(od_data d)(k := None) = od_data d" by (simp add: fun_upd_idem)
  then show ?thesis using assms
    by (simp add: od_popitem_def od_setitem_def od_getitem_def od_delitem_def remove1_append)
qed

section \<open>Properties\<close>

text \<open>
  An \<open>OrderedDict\<close> updated with a list of items answers each key with the last value given for
  it, and lists its old keys first, in their order, then the new ones in the order of their
  first occurrence.
\<close>

theorem ordered_update:
  assumes "od_wf d"
  shows "od_wf (od_update d items) \<and>
    od_keys (od_update d items) = od_keys d @ filter (\<lambda>k. k \<notin> set (od_keys d)) (dedup (map fst items)) \<and>
    od_data (od_update d items) k =
      (case map_of (rev items) k of Some v \<Rightarrow> Some v | None \<Rightarrow> od_data d k)"
  using od_update_wf [OF assms] od_keys_update [OF assms] od.look_put_all [OF assms]
  by (simp add: od_update_put_all)

theorem ordered_update_witness:
  "od_keys (od_update od_empty [(1 :: nat, ''a''), (2, ''b''), (1, ''c'')]) = [1, 2] \<and>
   od_data (od_update od_empty [(1 :: nat, ''a''), (2, ''b''), (1, ''c'')]) 1 = Some ''c''"
  using ordered_update [of od_empty "[(1 :: nat, ''a''), (2, ''b''), (1, ''c'')]" 1]
  by (simp add: od_wf_def od_empty_def)

text \<open>
  \<open>popitem\<close> undoes the insertion of a new key: it returns the key and its value, and the
  dictionary is the one before the insertion.
\<close>

theorem popitem_undoes_setitem:
  assumes "od_wf d" and "k \<notin> set (od_keys d)"
  shows "od_popitem (od_setitem d k v) = Inr ((k, v), d)"
  using assms by (rule od_popitem_setitem)

theorem popitem_undoes_setitem_witness:
  "od_popitem (od_setitem (od_setitem od_empty (1 :: nat) ''a'') 2 ''b'') =
     Inr ((2, ''b''), od_setitem od_empty 1 ''a'')"
  by (rule popitem_undoes_setitem) (auto simp: od_wf_def od_setitem_def od_empty_def)

end
