(* ===== verification/PyPath.thy ===== *)
theory PyPath
  imports PyList "HOL-Library.Char_ord"
begin

text \<open>
  \<open>SCons/Util.py\<close>, strings and search paths: the character tests, \<open>splitext\<close>,
  \<open>get_environment_var\<close>, \<open>PrependPath\<close> and \<open>AppendPath\<close>,
  \<open>AddPathIfNotExists\<close>, \<open>WhereIs\<close> (the POSIX branch), \<open>adjustixes\<close>,
  \<open>Split\<close> and \<open>CLVar\<close>, \<open>logical_lines\<close>, \<open>MD5collect\<close> and the tree
  printer. File tests and the digest are parameters.
\<close>

section \<open>Character tests and suffixes\<close>

definition containsAny :: "string \<Rightarrow> char list \<Rightarrow> bool" where
  "containsAny str set' = list_ex (\<lambda>c. c \<in> set str) set'"

definition containsAll :: "string \<Rightarrow> char list \<Rightarrow> bool" where
  "containsAll str set' = list_all (\<lambda>c. c \<in> set str) set'"

definition containsOnly :: "string \<Rightarrow> char list \<Rightarrow> bool" where
  "containsOnly str set' = list_all (\<lambda>c. c \<in> set set') str"

definition rightmost_separator :: "string \<Rightarrow> char \<Rightarrow> int" where
  "rightmost_separator path s = rfind_char s path"

text \<open>
  \<open>dot > sep\<close> makes \<open>dot\<close> a position, since \<open>sep\<close> is at least -1.
\<close>

definition splitext :: "string \<Rightarrow> string \<times> string" where
  "splitext path =
     (let s = rightmost_separator path sep; dot = rfind_char CHR ''.'' path in
      if dot > s \<and> \<not> containsOnly (drop (nat dot) path) ''0123456789.''
      then (take (nat dot) path, drop (nat dot) path)
      else (path, []))"

lemma splitext_concat: "fst (splitext p) @ snd (splitext p) = p"
  by (simp add: splitext_def Let_def)

lemma splitext_ext:
  assumes "snd (splitext p) \<noteq> []"
  shows "hd (snd (splitext p)) = CHR ''.'' \<and> sep \<notin> set (snd (splitext p)) \<and>
    CHR ''.'' \<notin> set (tl (snd (splitext p)))"
proof -
  let ?s = "rfind_char sep p" and ?dot = "rfind_char CHR ''.'' p"
  from assms have gt: "?dot > ?s" and ext: "snd (splitext p) = drop (nat ?dot) p"
    by (auto simp: splitext_def Let_def rightmost_separator_def split: if_splits)
  then obtain i where i: "?dot = int i"
    using rfind_char_ge [of sep p] by (metis le_minus_one_simps(1) linorder_not_less
        nonneg_int_cases order.strict_trans1 zle_add1_eq_le add.left_inverse linorder_le_less_linear)
  have dot: "i < length p \<and> p ! i = CHR ''.'' \<and> CHR ''.'' \<notin> set (drop (Suc i) p)"
    by (rule rfind_char_nth [OF i])
  then have cons: "drop i p = CHR ''.'' # drop (Suc i) p"
    by (metis Cons_nth_drop_Suc)
  have "sep \<notin> set (drop i p)"
  proof (cases "?s = -1")
    case True
    then show ?thesis by (metis in_set_dropD rfind_char_none_iff)
  next
    case False
    then obtain j where j: "?s = int j"
      using rfind_char_ge [of sep p] by (metis int_nat_eq nat_eq_iff2 nonneg_int_cases
          order_le_less zless_imp_add1_zle add.left_inverse)
    with gt i have "Suc j \<le> i" by simp
    then have "set (drop i p) \<subseteq> set (drop (Suc j) p)" by (rule set_drop_subset_set_drop)
    then show ?thesis using rfind_char_nth [OF j] by blast
  qed
  with ext i cons dot show ?thesis by simp
qed

section \<open>Environment variable references\<close>

definition ident_start :: "char \<Rightarrow> bool" where
  "ident_start c \<longleftrightarrow> c = CHR ''_'' \<or> (CHR ''a'' \<le> c \<and> c \<le> CHR ''z'') \<or> (CHR ''A'' \<le> c \<and> c \<le> CHR ''Z'')"

definition word_char :: "char \<Rightarrow> bool" where
  "word_char c \<longleftrightarrow> ident_start c \<or> (CHR ''0'' \<le> c \<and> c \<le> CHR ''9'')"

definition is_ident :: "string \<Rightarrow> bool" where
  "is_ident s = (case s of [] \<Rightarrow> False | c # cs \<Rightarrow> ident_start c \<and> list_all word_char cs)"

text \<open>
  The pattern \<open>^\$([_a-zA-Z]\w*|{[_a-zA-Z]\w*})$\<close>. Python's \<open>$\<close> also matches
  before one final newline, so a reference followed by a newline is accepted too.
\<close>

definition strip_newline :: "string \<Rightarrow> string" where
  "strip_newline s = (if s \<noteq> [] \<and> last s = CHR 0x0A then butlast s else s)"

definition get_environment_var :: "string \<Rightarrow> string option" where
  "get_environment_var varstr =
     (case varstr of
        [] \<Rightarrow> None
      | c # rest \<Rightarrow>
          (let body = strip_newline rest in
           if c \<noteq> CHR ''$'' then None
           else if is_ident body then Some body
           else if 2 \<le> length body \<and> hd body = CHR ''{'' \<and> last body = CHR ''}'' \<and>
                   is_ident (butlast (tl body))
             then Some (butlast (tl body))
           else None))"

lemma not_word_char: "\<not> word_char CHR 0x0A" "\<not> word_char CHR ''{''" "\<not> word_char CHR ''}''"
  by (simp_all add: word_char_def ident_start_def)

lemma ident_word_chars: "is_ident v \<Longrightarrow> v \<noteq> [] \<and> (\<forall>c\<in>set v. word_char c)"
  by (cases v) (auto simp: is_ident_def word_char_def list_all_iff)

lemma ident_last: "is_ident v \<Longrightarrow> last v \<noteq> CHR 0x0A"
  using ident_word_chars not_word_char last_in_set by metis

lemma get_environment_var_plain:
  assumes "is_ident v"
  shows "get_environment_var (CHR ''$'' # v) = Some v"
  using assms ident_last [OF assms] by (simp add: get_environment_var_def strip_newline_def)

lemma get_environment_var_braced:
  assumes "is_ident v"
  shows "get_environment_var (''${'' @ v @ ''}'') = Some v"
proof -
  have body: "strip_newline (''{'' @ v @ ''}'') = ''{'' @ v @ ''}''"
    by (simp add: strip_newline_def)
  have no: "\<not> is_ident (''{'' @ v @ ''}'')"
    using ident_word_chars not_word_char by (metis append_Cons append_Nil list.set_intros(1))
  have inner: "butlast (tl (''{'' @ v @ ''}'')) = v" by (simp add: butlast_append)
  have len: "2 \<le> length (''{'' @ v @ ''}'')" by simp
  have cons: "''${'' @ v @ ''}'' = CHR ''$'' # (''{'' @ v @ ''}'')" by simp
  have ends: "hd (''{'' @ v @ ''}'') = CHR ''{'' \<and> last (''{'' @ v @ ''}'') = CHR ''}''" by simp
  show ?thesis
    unfolding get_environment_var_def cons list.case Let_def body
    using no inner len ends assms by (simp only: if_True if_False) simp
qed

section \<open>Search paths\<close>

text \<open>A search path is one string or a list; the result has the shape of the old path.\<close>

datatype pathval = PathStr string | PathList "string list"

definition path_elems :: "char \<Rightarrow> pathval \<Rightarrow> string list" where
  "path_elems s p = (case p of PathStr str \<Rightarrow> split_on s str | PathList xs \<Rightarrow> xs)"

definition path_like :: "char \<Rightarrow> pathval \<Rightarrow> string list \<Rightarrow> pathval" where
  "path_like s p xs = (case p of PathStr _ \<Rightarrow> PathStr (join_with [s] xs) | PathList _ \<Rightarrow> PathList xs)"

definition norm_key :: "string \<Rightarrow> string" where
  "norm_key path = normpath (normcase path)"

definition canon :: "(string \<Rightarrow> string) option \<Rightarrow> string list \<Rightarrow> string list" where
  "canon canonicalize xs = (case canonicalize of None \<Rightarrow> xs | Some f \<Rightarrow> map f xs)"

text \<open>The loop both functions share: keep a path whose normal form is new.\<close>

fun add_unique :: "string list \<Rightarrow> string list \<Rightarrow> string list \<Rightarrow> string list" where
  "add_unique paths normpaths [] = paths"
| "add_unique paths normpaths (p # ps) =
     (if p \<noteq> [] \<and> norm_key p \<notin> set normpaths
      then add_unique (paths @ [p]) (normpaths @ [norm_key p]) ps
      else add_unique paths normpaths ps)"

text \<open>\<open>delete_existing = 0\<close> in \<open>PrependPath\<close>: old paths first, then insert at the head.\<close>

fun keep_old :: "string list \<Rightarrow> string list \<Rightarrow> string list \<Rightarrow> string list \<times> string list" where
  "keep_old result normpaths [] = (result, normpaths)"
| "keep_old result normpaths (p # ps) =
     (if p = [] then keep_old result normpaths ps
      else if norm_key p \<notin> set normpaths
        then keep_old (result @ [p]) (normpaths @ [norm_key p]) ps
      else keep_old result normpaths ps)"

fun insert_heads :: "string list \<Rightarrow> string list \<Rightarrow> string list \<Rightarrow> string list" where
  "insert_heads result normpaths [] = result"
| "insert_heads result normpaths (p # ps) =
     (if p = [] then insert_heads result normpaths ps
      else if norm_key p \<notin> set normpaths
        then insert_heads (p # result) (normpaths @ [norm_key p]) ps
      else insert_heads result normpaths ps)"

text \<open>
  The second component of the result is what the caller's \<open>newpath\<close> argument is
  afterwards: \<open>newpaths.reverse()\<close> works on the caller's own list when no
  \<open>canonicalize\<close> made a copy.
\<close>

definition PrependPath ::
  "pathval \<Rightarrow> pathval \<Rightarrow> char \<Rightarrow> bool \<Rightarrow> (string \<Rightarrow> string) option \<Rightarrow> pathval \<times> pathval" where
  "PrependPath oldpath newpath s delete_existing canonicalize =
     (let paths = path_elems s oldpath;
          newpaths = canon canonicalize (path_elems s newpath) in
      if \<not> delete_existing then
        (let (result, normpaths) = keep_old [] [] paths in
         (path_like s oldpath (insert_heads result normpaths (rev newpaths)),
          case newpath of
            PathList xs \<Rightarrow> (if canonicalize = None then PathList (rev xs) else newpath)
          | PathStr _ \<Rightarrow> newpath))
      else (path_like s oldpath (add_unique [] [] (newpaths @ paths)), newpath))"

text \<open>\<open>delete_existing = 0\<close> in \<open>AppendPath\<close>: the old paths are all kept.\<close>

definition AppendPath ::
  "pathval \<Rightarrow> pathval \<Rightarrow> char \<Rightarrow> bool \<Rightarrow> (string \<Rightarrow> string) option \<Rightarrow> pathval" where
  "AppendPath oldpath newpath s delete_existing canonicalize =
     (let paths = path_elems s oldpath;
          newpaths = canon canonicalize (path_elems s newpath) in
      if \<not> delete_existing then
        (let old = filter (\<lambda>p. p \<noteq> []) paths
         in path_like s oldpath (add_unique old (map norm_key old) newpaths))
      else path_like s oldpath (rev (add_unique [] [] (rev (paths @ newpaths)))))"

lemma add_unique_dedup:
  "add_unique paths normpaths ps =
     paths @ dedup_by norm_key (set normpaths) (filter (\<lambda>p. p \<noteq> []) ps)"
  by (induction ps arbitrary: paths normpaths) auto

lemma PrependPath_elems:
  "fst (PrependPath old new s True c) =
     path_like s old
       (dedup_by norm_key {}
         (filter (\<lambda>p. p \<noteq> []) (canon c (path_elems s new) @ path_elems s old)))"
  by (simp add: PrependPath_def Let_def add_unique_dedup)

lemma AppendPath_elems:
  "AppendPath old new s True c =
     path_like s old
       (rev (dedup_by norm_key {}
         (rev (filter (\<lambda>p. p \<noteq> []) (path_elems s old @ canon c (path_elems s new))))))"
  by (simp add: AppendPath_def Let_def add_unique_dedup rev_filter)

text \<open>
  \<open>AddPathIfNotExists\<close>. The stored value is a list, or a string split at the
  separator.
\<close>

definition AddPathIfNotExists ::
  "(string \<rightharpoonup> pathval) \<Rightarrow> string \<Rightarrow> string \<Rightarrow> char \<Rightarrow> (string \<rightharpoonup> pathval)" where
  "AddPathIfNotExists env_dict key path s =
     (case env_dict key of
        None \<Rightarrow> env_dict(key \<mapsto> PathStr path)
      | Some v \<Rightarrow>
          (let paths = path_elems s v;
               paths' = (if normcase path \<notin> set (map normcase paths) then path # paths else paths)
           in env_dict(key \<mapsto> path_like s v paths')))"

text \<open>
  \<open>WhereIs\<close> on POSIX. \<open>isfile\<close> is \<open>os.path.isfile\<close>; \<open>mode\<close> is
  \<open>os.stat\<close> followed by the test of the execute bits, \<open>None\<close> for an
  \<open>OSError\<close>. \<open>env_path\<close> is \<open>os.environ['PATH']\<close>, if set.
\<close>

fun whereis_loop ::
  "(string \<Rightarrow> bool) \<Rightarrow> (string \<Rightarrow> bool option) \<Rightarrow> string \<Rightarrow> string list \<Rightarrow> string list \<Rightarrow>
     string option" where
  "whereis_loop isfile mode file reject [] = None"
| "whereis_loop isfile mode file reject (d # ds) =
     (let f = path_join d file in
      if isfile f \<and> mode f = Some True \<and> f \<notin> set reject then Some (normpath f)
      else whereis_loop isfile mode file reject ds)"

definition WhereIs ::
  "string option \<Rightarrow> (string \<Rightarrow> bool) \<Rightarrow> (string \<Rightarrow> bool option) \<Rightarrow> string \<Rightarrow> pathval option \<Rightarrow>
     string list \<Rightarrow> string option" where
  "WhereIs env_path isfile mode file path reject =
     (case (case path of None \<Rightarrow> map_option PathStr env_path | Some p \<Rightarrow> Some p) of
        None \<Rightarrow> None
      | Some p \<Rightarrow> whereis_loop isfile mode file reject (path_elems CHR '':'' p))"

lemma whereis_loop_first:
  "whereis_loop isfile mode file reject ds =
     map_option (\<lambda>d. normpath (path_join d file))
       (List.find (\<lambda>d. isfile (path_join d file) \<and> mode (path_join d file) = Some True \<and>
          path_join d file \<notin> set reject) ds)"
  by (induction ds) (auto simp: Let_def)

section \<open>File names\<close>

definition case_sensitive_suffixes :: "string \<Rightarrow> string \<Rightarrow> bool" where
  "case_sensitive_suffixes s1 s2 \<longleftrightarrow> normcase s1 \<noteq> normcase s2"

definition adjustixes :: "string \<Rightarrow> string \<Rightarrow> string \<Rightarrow> bool \<Rightarrow> string" where
  "adjustixes fname pre suf ensure_suffix =
     (let fname1 =
        (if pre \<noteq> [] then
           (let (path, fn) = path_split (normpath fname)
            in if take (length pre) fn \<noteq> pre then path_join path (pre @ fn) else fname)
         else fname)
      in if suf \<noteq> [] \<and> last_n (length suf) fname1 \<noteq> suf \<and>
            (ensure_suffix \<or> snd (splitext fname1) = [])
         then fname1 @ suf else fname1)"

lemma last_n_append [simp]: "last_n (length suf) (s @ suf) = suf"
  by (simp add: last_n_def)

section \<open>Command-line variables\<close>

fun Split :: "'a pyobj \<Rightarrow> 'a pyobj list" where
  "Split (PList xs) = xs"
| "Split (PTuple xs) = xs"
| "Split (PStr s) = map PStr (split_ws s)"
| "Split arg = [arg]"

definition CLVar :: "'a pyobj \<Rightarrow> 'a pyobj list" where
  "CLVar seq = Split seq"

definition clvar_add :: "'a pyobj list \<Rightarrow> 'a pyobj \<Rightarrow> 'a pyobj list" where
  "clvar_add self other = self @ CLVar other"

definition clvar_radd :: "'a pyobj list \<Rightarrow> 'a pyobj \<Rightarrow> 'a pyobj list" where
  "clvar_radd self other = CLVar other @ self"

definition clvar_str :: "'a pyobj list \<Rightarrow> str_error + string" where
  "clvar_str self = bind_result (join_strings self) (\<lambda>ws. Inr (join_with '' '' ws))"

lemma words_of_append_word:
  "\<forall>c\<in>set w. \<not> is_space c \<Longrightarrow> words_of cur (w @ s) = words_of (cur @ w) s"
proof (induction w arbitrary: cur)
  case (Cons x w)
  then show ?case using Cons.IH [of "cur @ [x]"] by simp
qed simp

lemma words_of_join:
  assumes "\<forall>w\<in>set ws. w \<noteq> [] \<and> (\<forall>c\<in>set w. \<not> is_space c)"
  shows "words_of [] (join_with '' '' ws) = ws"
  using assms
proof (induction ws)
  case Nil
  then show ?case by simp
next
  case (Cons w ws)
  have w: "\<forall>c\<in>set w. \<not> is_space c" "w \<noteq> []" using Cons.prems by auto
  have sp: "is_space CHR '' ''" by (simp add: is_space_def)
  show ?case
  proof (cases ws)
    case Nil
    then show ?thesis using words_of_append_word [OF w(1), of "[]" "[]"] w by simp
  next
    case (Cons v vs)
    then have "join_with '' '' (w # ws) = w @ '' '' @ join_with '' '' ws" by simp
    then show ?thesis
      using words_of_append_word [OF w(1), of "[]" "'' '' @ join_with '' '' ws"] w sp Cons.IH
        Cons.prems by simp
  qed
qed

section \<open>Logical lines and signatures\<close>

text \<open>\<open>logical_lines\<close> as the list its generator yields.\<close>

fun logical_loop :: "string list \<Rightarrow> string list \<Rightarrow> string list" where
  "logical_loop logical_line [] = (if logical_line = [] then [] else [concat logical_line])"
| "logical_loop logical_line (line # rest) =
     (let stripped = rstrip line in
      if stripped \<noteq> [] \<and> last stripped = CHR 0x5C
      then logical_loop (logical_line @ [butlast stripped]) rest
      else concat (logical_line @ [line]) # logical_loop [] rest)"

definition logical_lines :: "string list \<Rightarrow> string list" where
  "logical_lines physical_lines = logical_loop [] physical_lines"

lemma logical_lines_plain:
  "\<forall>l\<in>set ls. rstrip l = [] \<or> last (rstrip l) \<noteq> CHR 0x5C \<Longrightarrow> logical_lines ls = ls"
  unfolding logical_lines_def by (induction ls) (auto simp: Let_def)

definition MD5collect :: "(string \<Rightarrow> string) \<Rightarrow> string list \<Rightarrow> string" where
  "MD5collect md5 signatures =
     (case signatures of [s] \<Rightarrow> s | _ \<Rightarrow> md5 (join_with '', '' signatures))"

section \<open>The tree printer\<close>

text \<open>
  \<open>render_tree\<close>. With \<open>prune\<close> the set of visited names is shared by the whole
  tree, otherwise each call works on a copy, so only the current branch counts. The
  children's calls push a margin entry and pop it. The call depth is bounded by fuel;
  \<open>render_tree_returns\<close> shows how much is enough.
\<close>

definition margin_text :: "bool list \<Rightarrow> string" where
  "margin_text margin = concat (map (\<lambda>pipe. if pipe then ''| '' else ''  '') (butlast margin))"

fun render_tree ::
  "nat \<Rightarrow> ('n \<Rightarrow> string) \<Rightarrow> ('n \<Rightarrow> 'n list) \<Rightarrow> bool \<Rightarrow> bool list \<Rightarrow> string set \<Rightarrow> 'n \<Rightarrow>
     (string \<times> string set) option"
and render_children ::
  "nat \<Rightarrow> ('n \<Rightarrow> string) \<Rightarrow> ('n \<Rightarrow> 'n list) \<Rightarrow> bool \<Rightarrow> bool list \<Rightarrow> string set \<Rightarrow> 'n list \<Rightarrow>
     (string \<times> string set) option" where
  "render_tree 0 str child_func prune margin visited root = None"
| "render_tree (Suc fuel) str child_func prune margin visited root =
     (let rname = str root; pre = margin_text margin in
      if rname \<in> visited then Some (pre @ ''+-['' @ rname @ '']'' @ [CHR 0x0A], visited)
      else
        (case render_children fuel str child_func prune margin (insert rname visited)
                (child_func root) of
           None \<Rightarrow> None
         | Some (text, visited') \<Rightarrow>
             Some (pre @ ''+-'' @ rname @ [CHR 0x0A] @ text,
                   if prune then visited' else visited)))"
| "render_children fuel str child_func prune margin visited [] = Some ([], visited)"
| "render_children fuel str child_func prune margin visited (c # cs) =
     (case render_tree fuel str child_func prune (margin @ [cs \<noteq> []]) visited c of
        None \<Rightarrow> None
      | Some (text, visited') \<Rightarrow>
          (case render_children fuel str child_func prune margin visited' cs of
             None \<Rightarrow> None
           | Some (text', visited'') \<Rightarrow> Some (text @ text', visited'')))"

lemma render_children_some:
  assumes "\<And>m v c. c \<in> set cs \<Longrightarrow> visited \<subseteq> v \<Longrightarrow> v \<subseteq> U \<Longrightarrow>
      \<exists>t v'. render_tree fuel str kids prune m v c = Some (t, v') \<and> v \<subseteq> v' \<and> v' \<subseteq> U"
    and "visited \<subseteq> v" and "v \<subseteq> U"
  shows "\<exists>t v'. render_children fuel str kids prune m v cs = Some (t, v') \<and> v \<subseteq> v' \<and> v' \<subseteq> U"
  using assms
proof (induction cs arbitrary: v m)
  case Nil
  then show ?case by simp
next
  case (Cons c cs)
  from Cons.prems(1) [of c v "m @ [cs \<noteq> []]"] Cons.prems(2,3)
  obtain t v1 where c: "render_tree fuel str kids prune (m @ [cs \<noteq> []]) v c = Some (t, v1)"
    and v1: "v \<subseteq> v1" "v1 \<subseteq> U" by auto
  have "\<exists>t v'. render_children fuel str kids prune m v1 cs = Some (t, v') \<and> v1 \<subseteq> v' \<and> v' \<subseteq> U"
    using Cons.prems v1 by (intro Cons.IH) auto
  then show ?case using c v1 by auto
qed

lemma render_tree_returns:
  assumes "finite U" and "\<And>n. n \<in> N \<Longrightarrow> str n \<in> U \<and> set (kids n) \<subseteq> N"
    and "root \<in> N" and "visited \<subseteq> U" and "card (U - visited) < fuel"
  shows "\<exists>t v'. render_tree fuel str kids prune m visited root = Some (t, v') \<and>
      visited \<subseteq> v' \<and> v' \<subseteq> U"
  using assms(3-5)
proof (induction fuel arbitrary: visited root m)
  case 0
  then show ?case by simp
next
  case (Suc fuel)
  show ?case
  proof (cases "str root \<in> visited")
    case True
    then show ?thesis using Suc.prems by (simp add: Let_def)
  next
    case False
    let ?v = "insert (str root) visited"
    have vU: "?v \<subseteq> U" using assms(2) Suc.prems by auto
    have "U - ?v \<subset> U - visited" using False assms(2) Suc.prems(1) by auto
    then have "card (U - ?v) < card (U - visited)"
      using assms(1) by (intro psubset_card_mono) auto
    then have small: "card (U - ?v) < fuel" using Suc.prems(3) by simp
    have "\<exists>t v'. render_children fuel str kids prune m ?v (kids root) = Some (t, v') \<and>
        ?v \<subseteq> v' \<and> v' \<subseteq> U"
    proof (rule render_children_some [where visited = ?v])
      fix m v c
      assume "c \<in> set (kids root)" and sub: "?v \<subseteq> v" and "v \<subseteq> U"
      moreover have "card (U - v) \<le> card (U - ?v)"
        using sub assms(1) by (intro card_mono) auto
      ultimately show "\<exists>t v'. render_tree fuel str kids prune m v c = Some (t, v') \<and>
          v \<subseteq> v' \<and> v' \<subseteq> U"
        using assms(2) [OF Suc.prems(1)] small by (intro Suc.IH) auto
    qed (use vU in auto)
    then show ?thesis using False Suc.prems(2) by (auto simp: Let_def)
  qed
qed

section \<open>Properties\<close>

text \<open>
  Prepending to a search path puts the new directories first, in their order, then the old ones,
  and keeps of all the entries with the same normal form only the first.
\<close>

theorem prepend_path_elements:
  "fst (PrependPath old new s True c) =
     path_like s old
       (dedup_by norm_key {}
         (filter (\<lambda>p. p \<noteq> []) (canon c (path_elems s new) @ path_elems s old))) \<and>
   AppendPath old new s True c =
     path_like s old
       (rev (dedup_by norm_key {}
         (rev (filter (\<lambda>p. p \<noteq> []) (path_elems s old @ canon c (path_elems s new))))))"
  using PrependPath_elems AppendPath_elems by blast

text \<open>
  \<open>splitext\<close> splits a path into two parts that give it back, and the second part is an extension:
  it is empty, or a dot followed by characters among which there is no dot and no separator.
\<close>

theorem splitext_round_trip:
  "fst (splitext p) @ snd (splitext p) = p \<and>
   (snd (splitext p) = [] \<or>
     hd (snd (splitext p)) = CHR ''.'' \<and> sep \<notin> set (snd (splitext p)) \<and>
     CHR ''.'' \<notin> set (tl (snd (splitext p))))"
  using splitext_concat splitext_ext by blast

text \<open>
  A reference to an environment variable gives back its name: \<open>$NAME\<close> and \<open>${NAME}\<close> are both
  recognised for every identifier.
\<close>

theorem environment_var_round_trip:
  assumes "is_ident v"
  shows "get_environment_var (CHR ''$'' # v) = Some v \<and> get_environment_var (''${'' @ v @ ''}'') = Some v"
  using get_environment_var_plain [OF assms] get_environment_var_braced [OF assms] by blast

theorem environment_var_round_trip_witness:
  "get_environment_var ''${CC}'' = Some ''CC''"
  using environment_var_round_trip [of "''CC''"]
  by (simp add: is_ident_def ident_start_def word_char_def less_eq_char_def)

text \<open>
  The tree printer returns on every graph, cyclic ones included: with fuel for the names not yet
  visited, \<open>render_tree\<close> gives a text, because a name met again on the way down is only
  marked.
\<close>

theorem tree_printing_ends:
  assumes "finite U" and "\<And>n. n \<in> N \<Longrightarrow> str n \<in> U \<and> set (kids n) \<subseteq> N"
    and "root \<in> N" and "visited \<subseteq> U" and "card (U - visited) < fuel"
  shows "\<exists>t v'. render_tree fuel str kids prune margin visited root = Some (t, v')"
proof -
  have "\<exists>t v'. render_tree fuel str kids prune margin visited root = Some (t, v') \<and>
      visited \<subseteq> v' \<and> v' \<subseteq> U"
    by (rule render_tree_returns [where N = N]) (use assms in auto)
  then show ?thesis by blast
qed

theorem tree_printing_ends_witness:
  "\<exists>t v'. render_tree 3 (\<lambda>n. if n then ''a'' else ''b'') (\<lambda>n. [\<not> n]) False [False] {} True = Some (t, v')"
  by (rule tree_printing_ends [where U = "{''a'', ''b''}" and N = UNIV]) auto

end
