(* ===== verification/PathList.thy ===== *)
theory PathList
  imports PyList
begin

text \<open>
  \<open>SCons/PathList.py\<close> and the counters of \<open>SCons/Memoize.py\<close>: the pre-digested search
  path, its substitution, and the cache of path lists. The lemmas show that the cache
  cannot be observed in the results, that equal nested paths share an entry, and that
  every counted call is a hit or a miss.
\<close>

section \<open>Path lists\<close>

datatype path_type = TYPE_STRING_NO_SUBST | TYPE_STRING_SUBST | TYPE_OBJECT

type_synonym 'a path_list = "(path_type \<times> 'a pyobj) list"

definition entry_type :: "'a pyobj \<Rightarrow> path_type" where
  "entry_type p =
     (case p of
        PStr s \<Rightarrow> if CHR ''$'' \<in> set s then TYPE_STRING_SUBST else TYPE_STRING_NO_SUBST
      | _ \<Rightarrow> TYPE_OBJECT)"

text \<open>\<open>_PathList.__init__\<close>: a string is split at \<open>os.pathsep\<close>, a scalar becomes a list.\<close>

definition pathlist_init :: "'a pyobj \<Rightarrow> 'a path_list" where
  "pathlist_init p =
     map (\<lambda>x. (entry_type x, x))
       (case p of
          PStr s \<Rightarrow> map PStr (split_on CHR '':'' s)
        | PList xs \<Rightarrow> xs
        | PTuple xs \<Rightarrow> xs
        | x \<Rightarrow> [x])"

definition truth :: "'a pyobj \<Rightarrow> bool" where
  "truth x = (case x of PStr s \<Rightarrow> s \<noteq> [] | PList xs \<Rightarrow> xs \<noteq> [] | PTuple xs \<Rightarrow> xs \<noteq> []
     | PDict d \<Rightarrow> d \<noteq> [] | PObj _ \<Rightarrow> True)"

text \<open>
  \<open>subst_path\<close>: \<open>subst\<close> is \<open>env.subst\<close> with \<open>node_conv\<close> for the given target and
  source, \<open>conv\<close> is \<open>node_conv\<close>.
\<close>

fun subst_path :: "('a pyobj \<Rightarrow> 'a pyobj) \<Rightarrow> ('a pyobj \<Rightarrow> 'a pyobj) \<Rightarrow> 'a path_list \<Rightarrow> 'a pyobj list" where
  "subst_path subst conv [] = []"
| "subst_path subst conv ((TYPE_STRING_SUBST, v) # ps) =
     (let w = subst v in
      (if is_Sequence w then flatten w else if truth w then [w] else []) @ subst_path subst conv ps)"
| "subst_path subst conv ((TYPE_OBJECT, v) # ps) =
     (let w = conv v in (if truth w then [w] else []) @ subst_path subst conv ps)"
| "subst_path subst conv ((TYPE_STRING_NO_SUBST, v) # ps) =
     (if truth v then [v] else []) @ subst_path subst conv ps"

section \<open>The cache\<close>

definition PathList_key :: "'a pyobj \<Rightarrow> 'a pyobj" where
  "PathList_key p = (if is_Sequence p then PTuple (flatten p) else p)"

text \<open>The \<open>_memo\<close> dictionary: absent until the first call.\<close>

type_synonym 'a path_cache = "('a pyobj \<rightharpoonup> 'a path_list) option"

definition cached_PathList :: "'a path_cache \<Rightarrow> 'a pyobj \<Rightarrow> 'a path_list \<times> 'a path_cache" where
  "cached_PathList memo p =
     (let k = PathList_key p;
          d = (case memo of None \<Rightarrow> (\<lambda>_. None) | Some d \<Rightarrow> d)
      in case d k of
           Some r \<Rightarrow> (r, memo)
         | None \<Rightarrow> (let r = pathlist_init k in (r, Some (d(k \<mapsto> r)))))"

definition cache_ok :: "'a path_cache \<Rightarrow> bool" where
  "cache_ok memo \<longleftrightarrow>
     (case memo of None \<Rightarrow> True | Some d \<Rightarrow> \<forall>k r. d k = Some r \<longrightarrow> r = pathlist_init k)"

fun cached_calls :: "'a path_cache \<Rightarrow> 'a pyobj list \<Rightarrow> 'a path_list list \<times> 'a path_cache" where
  "cached_calls memo [] = ([], memo)"
| "cached_calls memo (p # ps) =
     (let (r, memo1) = cached_PathList memo p; (rs, memo2) = cached_calls memo1 ps
      in (r # rs, memo2))"

lemma cached_PathList_ok:
  assumes "cache_ok memo"
  shows "fst (cached_PathList memo p) = pathlist_init (PathList_key p)"
    and "cache_ok (snd (cached_PathList memo p))"
  using assms
  by (auto simp: cached_PathList_def cache_ok_def Let_def split: option.splits)

lemma cached_calls_transparent:
  "cache_ok memo \<Longrightarrow> fst (cached_calls memo ps) = map (\<lambda>p. pathlist_init (PathList_key p)) ps"
proof (induction ps arbitrary: memo)
  case (Cons p ps)
  obtain r m1 where r: "cached_PathList memo p = (r, m1)" by fastforce
  obtain rs m2 where rs: "cached_calls m1 ps = (rs, m2)" by fastforce
  have "r = pathlist_init (PathList_key p)" "cache_ok m1"
    using cached_PathList_ok [OF Cons.prems, of p] r by auto
  then show ?case using Cons.IH [of m1] r rs by simp
qed simp

lemma flatten_PathList_key: "is_Sequence p \<Longrightarrow> flatten p = flatten q \<Longrightarrow> is_Sequence q \<Longrightarrow>
    PathList_key p = PathList_key q"
  by (simp add: PathList_key_def)

text \<open>What is looked up is flat, so a nested path gives the entries of its leaves.\<close>

lemma pathlist_key_entries:
  assumes "is_Sequence p"
  shows "map snd (pathlist_init (PathList_key p)) = leaves p"
  using assms by (simp add: pathlist_init_def PathList_key_def flatten_leaves comp_def)

lemma subst_path_plain:
  "\<forall>p\<in>set ps. fst p = TYPE_STRING_NO_SUBST \<Longrightarrow> subst_path subst conv ps = filter truth (map snd ps)"
proof (induction ps)
  case (Cons p ps)
  then show ?case by (cases p) auto
qed simp

section \<open>Counters\<close>

record counter =
  cls_name :: string
  method_name :: string
  hits :: nat
  misses :: nat

definition counter_init :: "string \<Rightarrow> string \<Rightarrow> counter" where
  "counter_init c m = \<lparr>cls_name = c, method_name = m, hits = 0, misses = 0\<rparr>"

definition counter_key :: "counter \<Rightarrow> string" where
  "counter_key c = cls_name c @ ''.'' @ method_name c"

definition count_value :: "(string \<rightharpoonup> 'v) \<Rightarrow> counter \<Rightarrow> counter" where
  "count_value memo c =
     (if memo (method_name c) \<noteq> None then c\<lparr>hits := hits c + 1\<rparr> else c\<lparr>misses := misses c + 1\<rparr>)"

definition count_dict :: "(string \<rightharpoonup> ('k \<rightharpoonup> 'v)) \<Rightarrow> 'k \<Rightarrow> counter \<Rightarrow> counter" where
  "count_dict memo k c =
     (case memo (method_name c) of
        None \<Rightarrow> c\<lparr>misses := misses c + 1\<rparr>
      | Some d \<Rightarrow> if d k \<noteq> None then c\<lparr>hits := hits c + 1\<rparr> else c\<lparr>misses := misses c + 1\<rparr>)"

text \<open>
  The wrapper of \<open>CountMethodCall\<close> and \<open>CountDictCall\<close>: the counter of the class and
  method is created at the first call; \<open>cnt\<close> is the counting, \<open>fn\<close> the method.
\<close>

definition counted_call ::
  "bool \<Rightarrow> string \<Rightarrow> string \<Rightarrow> (counter \<Rightarrow> counter) \<Rightarrow> ('s \<Rightarrow> 'r \<times> 's) \<Rightarrow>
     (string \<rightharpoonup> counter) \<Rightarrow> 's \<Rightarrow> ('r \<times> 's) \<times> (string \<rightharpoonup> counter)" where
  "counted_call enabled cls m cnt fn cl s =
     (if enabled then
        (let key = cls @ ''.'' @ m;
             c = (case cl key of None \<Rightarrow> counter_init cls m | Some c \<Rightarrow> c)
         in (fn s, cl(key \<mapsto> cnt c)))
      else (fn s, cl))"

lemma counting_one:
  "hits (count_value memo c) + misses (count_value memo c) = hits c + misses c + 1"
  "hits (count_dict dmemo k c) + misses (count_dict dmemo k c) = hits c + misses c + 1"
  by (auto simp: count_value_def count_dict_def split: option.split)

lemma counted_call_same: "fst (counted_call enabled cls m cnt fn cl s) = fn s"
  by (simp add: counted_call_def Let_def)

section \<open>Properties\<close>

text \<open>
  The cache of path lists cannot be observed: whatever was asked before, every call returns
  what digesting its own argument would have given.
\<close>

theorem path_cache_transparent:
  assumes "cache_ok memo"
  shows "fst (cached_calls memo ps) = map (\<lambda>p. pathlist_init (PathList_key p)) ps"
  using assms by (rule cached_calls_transparent)

theorem path_cache_transparent_witness:
  "fst (cached_calls None [PStr ''a:$b'', PStr ''a:$b'']) =
     [[(TYPE_STRING_NO_SUBST, PStr ''a''), (TYPE_STRING_SUBST, PStr ''$b'')],
      [(TYPE_STRING_NO_SUBST, PStr ''a''), (TYPE_STRING_SUBST, PStr ''$b'')]]"
proof -
  have "cache_ok None" by (simp add: cache_ok_def)
  from path_cache_transparent [OF this, of "[PStr ''a:$b'', PStr ''a:$b'']"] show ?thesis
    by (simp add: PathList_key_def is_Sequence_def pathlist_init_def entry_type_def split_on.simps)
qed

end
