(* ===== verification/Warnings.thy ===== *)
theory Warnings
  imports PyString
begin

text \<open>
  \<open>SCons/Warnings.py\<close>: the warning classes, the list of enabled and suppressed classes
  in order of the settings, \<open>warn\<close>, and the \<open>--warn\<close> option. The lemmas show that the
  latest setting that applies decides, and what the option cannot do.
\<close>

section \<open>Classes\<close>

text \<open>Each class of the module with its base class.\<close>

definition class_table :: "(string \<times> string) list" where
  "class_table =
     (let d = ''WarningOnByDefault''; w = ''Warning''; dep = ''DeprecatedWarning'';
          man = ''MandatoryDeprecatedWarning'' in
      [(d, w), (''TargetNotBuiltWarning'', w), (''CacheVersionWarning'', d),
       (''CacheWriteErrorWarning'', w), (''CorruptSConsignWarning'', d), (''DependencyWarning'', w),
       (''DevelopmentVersionWarning'', d), (''DuplicateEnvironmentWarning'', d),
       (''FutureReservedVariableWarning'', d), (''LinkWarning'', d),
       (''MisleadingKeywordsWarning'', d), (''MissingSConscriptWarning'', d),
       (''NoMD5ModuleWarning'', d), (''NoMetaclassSupportWarning'', d),
       (''NoObjectCountWarning'', d), (''NoParallelSupportWarning'', d),
       (''ReservedVariableWarning'', d), (''StackSizeWarning'', d), (''VisualCMissingWarning'', d),
       (''VisualVersionMismatch'', d), (''VisualStudioMissingWarning'', w),
       (''FortranCxxMixWarning'', ''LinkWarning''), (''FutureDeprecatedWarning'', w), (dep, w),
       (man, dep), (''PythonVersionWarning'', dep),
       (''DeprecatedSourceCodeWarning'', ''FutureDeprecatedWarning''),
       (''DeprecatedBuildDirWarning'', dep), (''TaskmasterNeedsExecuteWarning'', dep),
       (''DeprecatedCopyWarning'', man), (''DeprecatedOptionsWarning'', man),
       (''DeprecatedSourceSignaturesWarning'', man), (''DeprecatedTargetSignaturesWarning'', man),
       (''DeprecatedDebugOptionsWarning'', man), (''DeprecatedSigModuleWarning'', man),
       (''DeprecatedBuilderKeywordsWarning'', man)])"

definition is_class :: "string \<Rightarrow> bool" where
  "is_class c \<longleftrightarrow> c = ''Warning'' \<or> c \<in> set (map fst class_table)"

text \<open>A class and its bases; no chain of the module is longer than four.\<close>

fun bases :: "nat \<Rightarrow> string \<Rightarrow> string list" where
  "bases 0 c = [c]"
| "bases (Suc k) c = c # (case map_of class_table c of None \<Rightarrow> [] | Some p \<Rightarrow> bases k p)"

definition issubclass :: "string \<Rightarrow> string \<Rightarrow> bool" where
  "issubclass c d \<longleftrightarrow> d \<in> set (bases 4 c)"

section \<open>Settings and warnings\<close>

record warn_state =
  ws_enabled :: "(string \<times> bool) list"
  ws_as_exception :: bool
  ws_has_out :: bool
  ws_out :: "string list"

definition suppressWarningClass :: "string \<Rightarrow> warn_state \<Rightarrow> warn_state" where
  "suppressWarningClass c s = s\<lparr>ws_enabled := (c, False) # ws_enabled s\<rparr>"

definition enableWarningClass :: "string \<Rightarrow> warn_state \<Rightarrow> warn_state" where
  "enableWarningClass c s = s\<lparr>ws_enabled := (c, True) # ws_enabled s\<rparr>"

definition warningAsException :: "bool \<Rightarrow> warn_state \<Rightarrow> bool \<times> warn_state" where
  "warningAsException flag s = (ws_as_exception s, s\<lparr>ws_as_exception := flag\<rparr>)"

text \<open>\<open>warn\<close>: the left result is the warning, raised.\<close>

fun warn_loop :: "string \<Rightarrow> (string \<times> bool) list \<Rightarrow> warn_state \<Rightarrow> string + warn_state" where
  "warn_loop w [] s = Inr s"
| "warn_loop w ((c, flag) # es) s =
     (if issubclass w c then
        (if flag then
           (if ws_as_exception s then Inl w
            else if ws_has_out s then Inr (s\<lparr>ws_out := ws_out s @ [w]\<rparr>) else Inr s)
         else Inr s)
      else warn_loop w es s)"

definition warn :: "string \<Rightarrow> warn_state \<Rightarrow> string + warn_state" where
  "warn w s = warn_loop w (ws_enabled s) s"

section \<open>The --warn option\<close>

definition capitalize :: "string \<Rightarrow> string" where
  "capitalize s =
     (if take 5 s = ''scons'' then ''SCons'' @ drop 5 s
      else (case s of [] \<Rightarrow> [] | c # cs \<Rightarrow> to_upper c # map to_lower cs))"

definition class_name :: "string list \<Rightarrow> string" where
  "class_name elems =
     (if elems = [''all''] then ''Warning'' else concat (map capitalize elems) @ ''Warning'')"

definition process_warn_string :: "string \<Rightarrow> warn_state \<Rightarrow> string list \<times> warn_state" where
  "process_warn_string arg s =
     (let elems = split_on CHR ''-'' (map to_lower arg);
          enable = (hd elems \<noteq> ''no'');
          c = class_name (if enable then elems else tl elems)
      in if \<not> is_class c then ([''No warning type: '' @ arg], s)
         else if enable then ([], enableWarningClass c s)
         else if issubclass c ''MandatoryDeprecatedWarning''
           then ([''Can not disable mandataory warning: '' @ arg], s)
         else ([], suppressWarningClass c s))"

fun process_warn_strings :: "string list \<Rightarrow> warn_state \<Rightarrow> string list \<times> warn_state" where
  "process_warn_strings [] s = ([], s)"
| "process_warn_strings (a # as) s =
     (let (m1, s1) = process_warn_string a s; (m2, s2) = process_warn_strings as s1
      in (m1 @ m2, s2))"

section \<open>The latest setting decides\<close>

text \<open>Whether a warning class is shown under a list of settings, newest first.\<close>

definition setting :: "string \<Rightarrow> (string \<times> bool) list \<Rightarrow> bool option" where
  "setting w es = map_option snd (find (\<lambda>(c, _). issubclass w c) es)"

lemma warn_loop_setting:
  "warn_loop w es s =
     (if setting w es = Some True then
        (if ws_as_exception s then Inl w
         else if ws_has_out s then Inr (s\<lparr>ws_out := ws_out s @ [w]\<rparr>) else Inr s)
      else Inr s)"
proof (induction es)
  case (Cons e es)
  then show ?case by (cases e) (auto simp: setting_def)
qed (simp add: setting_def)

lemma setting_Cons: "setting w ((c, b) # es) = (if issubclass w c then Some b else setting w es)"
  by (simp add: setting_def)

lemma issubclass_refl [simp]: "issubclass c c"
  by (simp add: issubclass_def numeral_eq_Suc)

section \<open>Properties\<close>

text \<open>
  The latest setting that applies to a warning decides: after a list of settings, newest
  first, a warning is raised or printed exactly when the first of them that names its class
  or a base class of it enables it.
\<close>

theorem latest_setting_decides:
  shows "warn w s =
    (case find (\<lambda>(c, _). issubclass w c) (ws_enabled s) of
       Some (c, True) \<Rightarrow>
         (if ws_as_exception s then Inl w
          else if ws_has_out s then Inr (s\<lparr>ws_out := ws_out s @ [w]\<rparr>) else Inr s)
     | _ \<Rightarrow> Inr s)"
  using warn_loop_setting [of w "ws_enabled s" s]
  by (auto simp: warn_def setting_def split: option.splits bool.splits)

text \<open>
  The option cannot do all it offers: a class whose name begins with \<open>No\<close> cannot be enabled by
  name, because the prefix \<open>no-\<close> is taken for the negation, and although disabling a mandatory
  deprecation by its own name is refused, \<open>no-deprecated\<close> silences it.
\<close>

theorem warn_option_limits:
  "fst (process_warn_string ''no-object-count'' s) = [''No warning type: no-object-count''] \<and>
   fst (process_warn_string ''no-deprecated-copy'' s) = [''Can not disable mandataory warning: no-deprecated-copy''] \<and>
   warn ''DeprecatedCopyWarning'' (snd (process_warn_string ''no-deprecated'' s)) =
     Inr (snd (process_warn_string ''no-deprecated'' s))"
proof -
  have l: "map to_lower ''no-object-count'' = ''no-object-count''"
    "map to_lower ''no-deprecated-copy'' = ''no-deprecated-copy''"
    "map to_lower ''no-deprecated'' = ''no-deprecated''"
    by code_simp+
  have sp: "split_on CHR ''-'' ''no-object-count'' = [''no'', ''object'', ''count'']"
    "split_on CHR ''-'' ''no-deprecated-copy'' = [''no'', ''deprecated'', ''copy'']"
    "split_on CHR ''-'' ''no-deprecated'' = [''no'', ''deprecated'']"
    by code_simp+
  have c: "class_name [''object'', ''count''] = ''ObjectCountWarning''"
    "class_name [''deprecated'', ''copy''] = ''DeprecatedCopyWarning''"
    "class_name [''deprecated''] = ''DeprecatedWarning''"
    by code_simp+
  have k: "\<not> is_class ''ObjectCountWarning''" "is_class ''DeprecatedCopyWarning''"
    "is_class ''DeprecatedWarning''"
    "issubclass ''DeprecatedCopyWarning'' ''MandatoryDeprecatedWarning''"
    "\<not> issubclass ''DeprecatedWarning'' ''MandatoryDeprecatedWarning''"
    "issubclass ''DeprecatedCopyWarning'' ''DeprecatedWarning''"
    by code_simp+
  have p: "process_warn_string ''no-object-count'' s = ([''No warning type: no-object-count''], s)"
    "process_warn_string ''no-deprecated-copy'' s =
       ([''Can not disable mandataory warning: no-deprecated-copy''], s)"
    "process_warn_string ''no-deprecated'' s = ([], suppressWarningClass ''DeprecatedWarning'' s)"
    unfolding process_warn_string_def l sp Let_def list.sel c by (simp_all only: c k simp_thms if_True if_False append.simps)
  have "warn ''DeprecatedCopyWarning'' (suppressWarningClass ''DeprecatedWarning'' s) =
      Inr (suppressWarningClass ''DeprecatedWarning'' s)"
    using k(6) by (simp only: warn_def suppressWarningClass_def) simp
  then show ?thesis unfolding p by simp
qed

end
