(* ===== verification/Errors.thy ===== *)
theory Errors
  imports Prelude
begin

text \<open>
  \<open>SCons/Errors.py\<close>: the attributes of a \<open>BuildError\<close> and the conversion of any
  status an action can end with (a return code, a string, or one of the exception
  classes) into one. The lemmas show which exit status the build ends with.
\<close>

record build_error =
  be_node :: "nat option"
  be_errstr :: string
  be_status :: int
  be_exitstatus :: int
  be_filename :: "string option"
  be_has_exc :: bool

text \<open>\<open>BuildError.__init__\<close> with its default arguments.\<close>

definition build_error_init :: build_error where
  "build_error_init = \<lparr>be_node = None, be_errstr = ''Unknown error'', be_status = 2,
     be_exitstatus = 2, be_filename = None, be_has_exc = False\<rparr>"

definition build_error_str :: "build_error \<Rightarrow> string" where
  "build_error_str b =
     (case be_filename b of
        None \<Rightarrow> be_errstr b
      | Some f \<Rightarrow> if f \<noteq> [] then f @ '': '' @ be_errstr b else be_errstr b)"

text \<open>
  What \<open>convert_to_BuildError\<close> is given. \<open>StOSError\<close> is the built-in
  \<open>EnvironmentError\<close> (\<open>IOError\<close>, \<open>OSError\<close>, and \<open>MSVCError\<close>), with errno, strerror and
  file name; \<open>StException\<close> any other exception class, \<open>SCons.Errors.EnvironmentError\<close>
  and \<open>InternalError\<close> among them.
\<close>

datatype status =
    StBuildError build_error
  | StExplicitExit int
  | StStopError string
  | StUserError string
  | StOSError int string "string option"
  | StException string string
  | StString string
  | StInt int

fun digits_of :: "nat \<Rightarrow> string" where
  "digits_of n = (if n < 10 then [char_of (48 + n)] else digits_of (n div 10) @ [char_of (48 + n mod 10)])"

declare digits_of.simps [simp del]

definition int_str :: "int \<Rightarrow> string" where
  "int_str i = (if i < 0 then CHR ''-'' # digits_of (nat (- i)) else digits_of (nat i))"

definition is_exception :: "status \<Rightarrow> bool" where
  "is_exception s = (case s of StString _ \<Rightarrow> False | StInt _ \<Rightarrow> False | _ \<Rightarrow> True)"

text \<open>\<open>convert_to_BuildError(status, exc_info)\<close>; \<open>given\<close> says that \<open>exc_info\<close> is set.\<close>

definition convert_to_BuildError :: "status \<Rightarrow> bool \<Rightarrow> build_error" where
  "convert_to_BuildError s given =
     (let exc = given \<or> is_exception s in
      case s of
        StBuildError b \<Rightarrow> b\<lparr>be_exitstatus := 2\<rparr>
      | StExplicitExit n \<Rightarrow>
          build_error_init\<lparr>be_errstr := ''Explicit exit, status '' @ int_str n,
             be_status := n, be_exitstatus := n, be_has_exc := exc\<rparr>
      | StStopError m \<Rightarrow> build_error_init\<lparr>be_errstr := m, be_has_exc := exc\<rparr>
      | StUserError m \<Rightarrow> build_error_init\<lparr>be_errstr := m, be_has_exc := exc\<rparr>
      | StOSError no m f \<Rightarrow>
          build_error_init\<lparr>be_errstr := m, be_status := no, be_filename := f, be_has_exc := exc\<rparr>
      | StException c m \<Rightarrow> build_error_init\<lparr>be_errstr := c @ '' : '' @ m, be_has_exc := exc\<rparr>
      | StString m \<Rightarrow> build_error_init\<lparr>be_errstr := m\<rparr>
      | StInt n \<Rightarrow> build_error_init\<lparr>be_errstr := ''Error '' @ int_str n, be_status := n\<rparr>)"

lemma digits_of_ne [simp]: "digits_of k \<noteq> []"
  by (subst digits_of.simps) simp

lemma digits_of_inj: "digits_of m = digits_of n \<Longrightarrow> m = n"
proof (induction m arbitrary: n rule: digits_of.induct)
  case (1 m)
  have d: "length (digits_of k) = 1 \<longleftrightarrow> k < 10" for k
    by (subst digits_of.simps) simp
  have c: "a < 10 \<Longrightarrow> b < 10 \<Longrightarrow> (char_of (48 + a) :: char) = char_of (48 + b) \<longleftrightarrow> a = b" for a b :: nat
    by (simp add: char_of_eq_iff take_bit_eq_mod)
  show ?case
  proof (cases "m < 10")
    case True
    then have "n < 10" using d [of m] d [of n] 1(2) by simp
    then show ?thesis using True 1(2) c by (simp add: digits_of.simps [of m] digits_of.simps [of n])
  next
    case False
    then have n: "\<not> n < 10" using d [of m] d [of n] 1(2) by simp
    have e: "digits_of (m div 10) = digits_of (n div 10)"
      "(char_of (48 + m mod 10) :: char) = char_of (48 + n mod 10)"
      using 1(2) False n by (simp_all add: digits_of.simps [of m] digits_of.simps [of n])
    have "m div 10 = n div 10" using 1(1) [OF False e(1)] .
    moreover have "m mod 10 = n mod 10" using e(2) c by simp
    ultimately show ?thesis by (metis div_mult_mod_eq)
  qed
qed

lemma int_str_inj: "int_str i = int_str j \<Longrightarrow> i = j"
proof -
  have m: "hd (digits_of k) \<noteq> CHR ''-'' \<and> digits_of k \<noteq> []" for k
  proof (induction k rule: digits_of.induct)
    case (1 k)
    have "(char_of (48 + k) :: char) \<noteq> CHR ''-''" if "k < 10" for k :: nat
      using that by (simp add: char_of_eq_iff take_bit_eq_mod)
    then show ?case using 1 by (subst (1 2) digits_of.simps) auto
  qed
  have h: "digits_of k \<noteq> CHR ''-'' # xs" for k xs using m [of k] by (cases "digits_of k") auto
  show "int_str i = int_str j \<Longrightarrow> i = j"
    using digits_of_inj [of "nat (- i)" "nat (- j)"] digits_of_inj [of "nat i" "nat j"] h h [symmetric]
    by (auto simp: int_str_def split: if_splits)
qed

text \<open>Only an explicit exit decides the exit status itself; everything else exits with 2.\<close>

lemma convert_exitstatus:
  "be_exitstatus (convert_to_BuildError s given) = (case s of StExplicitExit n \<Rightarrow> n | _ \<Rightarrow> 2)"
  by (cases s) (simp_all add: convert_to_BuildError_def build_error_init_def)

lemma convert_idem:
  "convert_to_BuildError (StBuildError (convert_to_BuildError s g)) g' =
     (convert_to_BuildError s g)\<lparr>be_exitstatus := 2\<rparr>"
  by (simp add: convert_to_BuildError_def)

text \<open>A nonzero return code stays a failing status.\<close>

lemma convert_status:
  "be_status (convert_to_BuildError s g) =
     (case s of StBuildError b \<Rightarrow> be_status b | StExplicitExit n \<Rightarrow> n | StOSError n _ _ \<Rightarrow> n
      | StInt n \<Rightarrow> n | _ \<Rightarrow> 2)"
  by (cases s) (simp_all add: convert_to_BuildError_def build_error_init_def)

lemma convert_str:
  "build_error_str (convert_to_BuildError s g) =
     (case s of StBuildError b \<Rightarrow> build_error_str b
      | StExplicitExit n \<Rightarrow> ''Explicit exit, status '' @ int_str n
      | StStopError m \<Rightarrow> m | StUserError m \<Rightarrow> m
      | StOSError _ m f \<Rightarrow> (case f of Some (c # cs) \<Rightarrow> (c # cs) @ '': '' @ m | _ \<Rightarrow> m)
      | StException c m \<Rightarrow> c @ '' : '' @ m | StString m \<Rightarrow> m | StInt n \<Rightarrow> ''Error '' @ int_str n)"
  by (cases s)
    (auto simp: convert_to_BuildError_def build_error_init_def build_error_str_def
      split: option.split list.split)

section \<open>Properties\<close>

text \<open>
  Any status an action can end with becomes a build error: the build's exit status is the one
  of \<open>Exit(n)\<close> and 2 otherwise, the status of the error is that of the action or the errno,
  and converting again only resets the exit status.
\<close>

theorem build_error_of_status:
  "be_exitstatus (convert_to_BuildError s given) = (case s of StExplicitExit n \<Rightarrow> n | _ \<Rightarrow> 2) \<and>
   be_status (convert_to_BuildError s given) =
     (case s of StBuildError b \<Rightarrow> be_status b | StExplicitExit n \<Rightarrow> n | StOSError n _ _ \<Rightarrow> n
      | StInt n \<Rightarrow> n | _ \<Rightarrow> 2) \<and>
   convert_to_BuildError (StBuildError (convert_to_BuildError s given)) given' =
     (convert_to_BuildError s given)\<lparr>be_exitstatus := 2\<rparr>"
  using convert_exitstatus convert_status convert_idem by simp

end
