(* ===== verification/Dblite.thy ===== *)
theory Dblite
  imports PyPath
begin

text \<open>
  \<open>SCons/dblite.py\<close>, the dictionary kept in a pickled file: opening with its flags,
  reading, writing, and \<open>sync\<close> as the sequence of file operations it makes. Pickling is a
  parameter with its round trip as law. The lemmas show that what was stored is read
  back, and that at no point of \<open>sync\<close> both the old and the new dictionary are lost.
\<close>

section \<open>Files and pickles\<close>

type_synonym dict = "(string \<times> string) list"
type_synonym files = "string \<rightharpoonup> string"

text \<open>Dictionary update: the value of a key in place, a new key at the end.\<close>

fun dict_set :: "string \<Rightarrow> string \<Rightarrow> dict \<Rightarrow> dict" where
  "dict_set k v [] = [(k, v)]"
| "dict_set k v ((k', v') # d) = (if k' = k then (k, v) # d else (k', v') # dict_set k v d)"

lemma dict_set_lookup: "map_of (dict_set k v d) = (map_of d)(k \<mapsto> v)"
  by (induction d) (auto simp: fun_eq_iff)

lemma dict_set_keys: "fst ` set (dict_set k v d) = insert k (fst ` set d)"
proof (induction d)
  case (Cons p d)
  then show ?case by (cases p) auto
qed simp

lemma dict_set_distinct: "distinct (map fst d) \<Longrightarrow> distinct (map fst (dict_set k v d))"
proof (induction d)
  case (Cons p d)
  then show ?case using dict_set_keys [of k v d] by (cases p) auto
qed simp

text \<open>\<open>pk_load\<close> fails on text that is no pickle of a dictionary.\<close>

record pickle =
  pk_dump :: "dict \<Rightarrow> string"
  pk_load :: "string \<Rightarrow> dict option"

definition pickle_ok :: "pickle \<Rightarrow> bool" where
  "pickle_ok pk \<longleftrightarrow> (\<forall>d. pk_load pk (pk_dump pk d) = Some d \<and> pk_dump pk d \<noteq> [])"

datatype db_flag = FlagR | FlagW | FlagC | FlagN

datatype db_error = IOError string | UnpicklingError | KeyError | OSError string

record db =
  db_file :: string
  db_tmp :: string
  db_flag :: db_flag
  db_dict :: dict
  db_needs_sync :: bool

section \<open>Opening\<close>

definition dblite_suffix :: string where "dblite_suffix = ''.dblite''"
definition tmp_suffix :: string where "tmp_suffix = ''.tmp''"

definition db_names :: "string \<Rightarrow> string \<times> string" where
  "db_names name =
     (let (base, ext) = splitext name in
      if ext = dblite_suffix then (name, base @ tmp_suffix)
      else (name @ dblite_suffix, name @ tmp_suffix))"

text \<open>
  \<open>__init__\<close>; no flag means reading. \<open>ignore\<close> is \<open>ignore_corrupt_dbfiles\<close>. The owner of
  the file and its mode are not modelled.
\<close>

definition db_open ::
  "pickle \<Rightarrow> nat \<Rightarrow> string \<Rightarrow> db_flag option \<Rightarrow> files \<Rightarrow> (db_error + db) \<times> files" where
  "db_open pk ignore name flag fs =
     (let (file, tmp) = db_names name;
          fl = (case flag of None \<Rightarrow> FlagR | Some f \<Rightarrow> f);
          new = \<lparr>db_file = file, db_tmp = tmp, db_flag = fl, db_dict = [], db_needs_sync = False\<rparr>
      in if fl = FlagN then (Inr new, fs(file \<mapsto> []))
         else
           (case fs file of
              None \<Rightarrow> if fl \<noteq> FlagC then (Inl (IOError file), fs) else (Inr new, fs(file \<mapsto> []))
            | Some p \<Rightarrow>
                if p = [] then (Inr new, fs)
                else
                  (case pk_load pk p of
                     Some d \<Rightarrow> (Inr (new\<lparr>db_dict := d\<rparr>), fs)
                   | None \<Rightarrow> if ignore = 0 then (Inl UnpicklingError, fs) else (Inr new, fs))))"

section \<open>Reading and writing\<close>

definition check_writable :: "db \<Rightarrow> db_error + unit" where
  "check_writable d =
     (if db_flag d = FlagR then Inl (IOError (''Read-only database: '' @ db_file d)) else Inr ())"

definition db_getitem :: "db \<Rightarrow> string \<Rightarrow> db_error + string" where
  "db_getitem d k = (case map_of (db_dict d) k of None \<Rightarrow> Inl KeyError | Some v \<Rightarrow> Inr v)"

definition db_setitem :: "string \<Rightarrow> string \<Rightarrow> db \<Rightarrow> db_error + db" where
  "db_setitem k v d =
     bind_result (check_writable d)
       (\<lambda>_. Inr (d\<lparr>db_dict := dict_set k v (db_dict d), db_needs_sync := True\<rparr>))"

definition db_keys :: "db \<Rightarrow> string list" where
  "db_keys d = map fst (db_dict d)"

definition db_contains :: "string \<Rightarrow> db \<Rightarrow> bool" where
  "db_contains k d \<longleftrightarrow> k \<in> set (db_keys d)"

definition db_len :: "db \<Rightarrow> nat" where
  "db_len d = length (db_dict d)"

section \<open>Syncing\<close>

text \<open>
  The file operations of \<open>sync\<close>, one at a time: the temporary file is created and
  written, the database is removed, the temporary file is renamed.
\<close>

datatype file_op = WriteFile string string | Unlink string | Rename string string

fun file_step :: "file_op \<Rightarrow> files \<Rightarrow> db_error + files" where
  "file_step (WriteFile f c) fs = Inr (fs(f \<mapsto> c))"
| "file_step (Unlink f) fs = (if fs f = None then Inl (OSError f) else Inr (fs(f := None)))"
| "file_step (Rename f g) fs =
     (case fs f of None \<Rightarrow> Inl (OSError f) | Some c \<Rightarrow> Inr ((fs(f := None))(g \<mapsto> c)))"

fun file_steps :: "file_op list \<Rightarrow> files \<Rightarrow> db_error + files" where
  "file_steps [] fs = Inr fs"
| "file_steps (op # ops) fs = bind_result (file_step op fs) (file_steps ops)"

definition sync_ops :: "pickle \<Rightarrow> db \<Rightarrow> file_op list" where
  "sync_ops pk d =
     [WriteFile (db_tmp d) [], WriteFile (db_tmp d) (pk_dump pk (db_dict d)), Unlink (db_file d),
      Rename (db_tmp d) (db_file d)]"

definition db_sync :: "pickle \<Rightarrow> db \<Rightarrow> files \<Rightarrow> db_error + db \<times> files" where
  "db_sync pk d fs =
     bind_result (check_writable d) (\<lambda>_.
     bind_result (file_steps (sync_ops pk d) fs) (\<lambda>fs'.
       Inr (d\<lparr>db_needs_sync := False\<rparr>, fs')))"

definition db_close :: "pickle \<Rightarrow> db \<Rightarrow> files \<Rightarrow> db_error + db \<times> files" where
  "db_close pk d fs = (if db_needs_sync d then db_sync pk d fs else Inr (d, fs))"

section \<open>What is stored is read back\<close>

lemma db_names_distinct: "fst (db_names name) \<noteq> snd (db_names name)"
proof -
  have "x @ dblite_suffix \<noteq> y @ tmp_suffix" for x y
  proof
    assume "x @ dblite_suffix = y @ tmp_suffix"
    then have "last (x @ dblite_suffix) = last (y @ tmp_suffix)" by simp
    then show False by (simp add: dblite_suffix_def tmp_suffix_def)
  qed
  moreover have "name = fst (splitext name) @ snd (splitext name)" by (simp add: splitext_concat)
  ultimately show ?thesis by (auto simp: db_names_def Let_def split: prod.splits)
qed

lemma db_open_names:
  "db_open pk ig name fl fs = (Inr d, fs') \<Longrightarrow> db_file d = fst (db_names name) \<and> db_tmp d = snd (db_names name) \<and>
     db_flag d = (case fl of None \<Rightarrow> FlagR | Some f \<Rightarrow> f) \<and> \<not> db_needs_sync d \<and>
     (db_flag d \<noteq> FlagR \<longrightarrow> fs' (db_file d) \<noteq> None)"
  by (auto simp: db_open_def Let_def split: prod.splits if_splits option.splits)

lemma db_sync_effect:
  assumes "db_flag d \<noteq> FlagR" and "fs (db_file d) \<noteq> None" and "db_file d \<noteq> db_tmp d"
  shows "db_sync pk d fs =
    Inr (d\<lparr>db_needs_sync := False\<rparr>,
         fs(db_tmp d := None, db_file d \<mapsto> pk_dump pk (db_dict d)))"
  using assms
  by (auto simp: db_sync_def check_writable_def sync_ops_def bind_result_def fun_eq_iff)

text \<open>
  Through a whole sync, after every prefix of its operations: the database file still
  has its contents, or the new ones, or is gone while the temporary file has the new ones.
\<close>

lemma db_sync_no_loss:
  assumes "fs (db_file d) = Some old" and "db_file d \<noteq> db_tmp d"
    and "file_steps (take k (sync_ops pk d)) fs = Inr fs'"
  shows "fs' (db_file d) = Some old \<or> fs' (db_file d) = Some (pk_dump pk (db_dict d)) \<or>
    (fs' (db_file d) = None \<and> fs' (db_tmp d) = Some (pk_dump pk (db_dict d)))"
proof -
  have "k = 0 \<or> k = 1 \<or> k = 2 \<or> k = 3 \<or> k \<ge> 4" by linarith
  then show ?thesis using assms
    by (elim disjE) (auto simp: sync_ops_def bind_result_def numeral_eq_Suc)
qed

lemma db_reopen:
  assumes "pickle_ok pk" and "db_open pk ig name (Some fl) fs = (Inr d0, fs0)" and "fl \<noteq> FlagR"
    and "db_file d = db_file d0" and "db_tmp d = db_tmp d0" and "db_flag d = db_flag d0"
    and "db_sync pk d fs0 = Inr (d', fs')"
  shows "\<exists>r. db_open pk 0 name None fs' = (Inr r, fs') \<and> db_dict r = db_dict d"
proof -
  note n = db_open_names [OF assms(2)]
  have fn: "db_names name = (db_file d, db_tmp d)" using n assms(4,5) by (cases "db_names name") auto
  have ne: "db_file d \<noteq> db_tmp d" using db_names_distinct [of name] fn by simp
  have "fs' = fs0(db_tmp d := None, db_file d \<mapsto> pk_dump pk (db_dict d))"
    using db_sync_effect [of d fs0 pk] n assms(3,4,6,7) ne by auto
  then show ?thesis using assms(1) fn by (simp add: db_open_def pickle_ok_def)
qed

section \<open>Properties\<close>

text \<open>
  C39: No crash during \<open>sync\<close> loses the database: after any number of its file operations, the
  file holds the old dictionary or the new one, or it is gone and the temporary file holds
  the new one.
\<close>

theorem sync_loses_nothing:
  assumes "fs (db_file d) = Some old" and "db_file d \<noteq> db_tmp d"
    and "file_steps (take k (sync_ops pk d)) fs = Inr fs'"
  shows "fs' (db_file d) = Some old \<or> fs' (db_file d) = Some (pk_dump pk (db_dict d)) \<or>
    (fs' (db_file d) = None \<and> fs' (db_tmp d) = Some (pk_dump pk (db_dict d)))"
  using assms by (rule db_sync_no_loss)

definition small_pickle :: pickle where
  "small_pickle = \<lparr>pk_dump = (\<lambda>d. ''p'' @ concat (map snd d)), pk_load = (\<lambda>_. None)\<rparr>"

definition small_db :: db where
  "small_db = \<lparr>db_file = ''f'', db_tmp = ''t'', db_flag = FlagW, db_dict = [(''k'', ''v'')],
     db_needs_sync = True\<rparr>"

theorem sync_loses_nothing_witness:
  "\<exists>fs'. file_steps (take 3 (sync_ops small_pickle small_db)) [''f'' \<mapsto> ''old''] = Inr fs' \<and>
     fs' ''f'' = None \<and> fs' ''t'' = Some ''pv''"
proof -
  have r: "file_steps (take 3 (sync_ops small_pickle small_db)) [''f'' \<mapsto> ''old''] =
      Inr [''t'' \<mapsto> ''pv'']"
    by (simp add: sync_ops_def small_pickle_def small_db_def fun_eq_iff)
  from sync_loses_nothing [OF _ _ r, of "''old''"] show ?thesis
    using r by (simp add: small_db_def)
qed

text \<open>
  What was stored is read back: after a \<open>sync\<close> of a database opened for writing, opening the same
  name for reading gives the dictionary that was synced.
\<close>

theorem reopened_after_sync:
  assumes "pickle_ok pk" and "db_open pk ig name (Some fl) fs = (Inr d0, fs0)" and "fl \<noteq> FlagR"
    and "db_file d = db_file d0" and "db_tmp d = db_tmp d0" and "db_flag d = db_flag d0"
    and "db_sync pk d fs0 = Inr (d', fs')"
  shows "\<exists>r. db_open pk 0 name None fs' = (Inr r, fs') \<and> db_dict r = db_dict d"
  using assms by (rule db_reopen)

text \<open>A pickle format: every character is escaped, every string is ended.\<close>

fun put_str :: "string \<Rightarrow> string" where
  "put_str [] = ''.''"
| "put_str (c # cs) = CHR ''-'' # c # put_str cs"

fun get_str :: "string \<Rightarrow> (string \<times> string) option" where
  "get_str (c # s) =
     (if c = CHR ''.'' then Some ([], s)
      else (case s of [] \<Rightarrow> None | d # s' \<Rightarrow> map_option (\<lambda>(w, r). (d # w, r)) (get_str s')))"
| "get_str [] = None"

fun put_dict :: "dict \<Rightarrow> string" where
  "put_dict [] = ''.''"
| "put_dict ((k, v) # d) = CHR ''-'' # put_str k @ put_str v @ put_dict d"

fun get_dict :: "nat \<Rightarrow> string \<Rightarrow> dict option" where
  "get_dict 0 s = None"
| "get_dict (Suc n) s =
     (if s = ''.'' then Some []
      else (case get_str (tl s) of
              None \<Rightarrow> None
            | Some (k, s1) \<Rightarrow>
                (case get_str s1 of
                   None \<Rightarrow> None
                 | Some (v, s2) \<Rightarrow> map_option (\<lambda>d. (k, v) # d) (get_dict n s2))))"

definition text_pickle :: pickle where
  "text_pickle = \<lparr>pk_dump = put_dict, pk_load = (\<lambda>s. get_dict (length s) s)\<rparr>"

lemma get_put_str: "get_str (put_str w @ s) = Some (w, s)"
  by (induction w) auto

lemma get_put_dict: "length d < n \<Longrightarrow> get_dict n (put_dict d) = Some d"
proof (induction d arbitrary: n)
  case Nil
  then show ?case by (cases n) auto
next
  case (Cons p d)
  then show ?case by (cases p; cases n) (auto simp: get_put_str)
qed

lemma put_str_length: "length (put_str w) > 0"
  by (cases w) auto

lemma put_dict_length: "length d < length (put_dict d)"
proof (induction d)
  case (Cons p d)
  then show ?case using put_str_length [of "fst p"] by (cases p) auto
qed simp

lemma text_pickle_ok: "pickle_ok text_pickle"
  using get_put_dict put_dict_length by (auto simp: pickle_ok_def text_pickle_def) (metis list.size(3) not_less_zero)

theorem reopened_after_sync_witness:
  "\<exists>d0 fs0 d' fs' r. db_open text_pickle 0 ''f'' (Some FlagC) (\<lambda>_. None) = (Inr d0, fs0) \<and>
     db_sync text_pickle (d0\<lparr>db_dict := [(''k'', ''v'')]\<rparr>) fs0 = Inr (d', fs') \<and>
     db_open text_pickle 0 ''f'' None fs' = (Inr r, fs') \<and> db_dict r = [(''k'', ''v'')]"
proof -
  obtain d0 fs0 where o: "db_open text_pickle 0 ''f'' (Some FlagC) (\<lambda>_. None) = (Inr d0, fs0)"
    by (cases "db_names ''f''") (auto simp: db_open_def Let_def)
  note n = db_open_names [OF o]
  have ne: "db_file d0 \<noteq> db_tmp d0" using n db_names_distinct by simp
  then obtain d' fs' where s: "db_sync text_pickle (d0\<lparr>db_dict := [(''k'', ''v'')]\<rparr>) fs0 = Inr (d', fs')"
    using db_sync_effect [of "d0\<lparr>db_dict := [(''k'', ''v'')]\<rparr>" fs0 text_pickle] n by auto
  from reopened_after_sync [OF text_pickle_ok o _ _ _ _ s] show ?thesis using o s by simp
qed

end
