(* ===== verification/CppPre.thy ===== *)
theory CppPre
  imports PyString
begin

text \<open>
  \<open>SCons/cpp.py\<close>: the C preprocessor that follows \<open>#include\<close> lines. Every directive is
  looked up in a dispatch table; conditionals push the table and change what the next
  \<open>#elif\<close>, \<open>#else\<close> and \<open>#include\<close> do. The lines are given as the tuples of
  \<open>tupleize\<close>; reading and splitting a file, Python's \<open>eval\<close> of a translated condition
  and the file test are parameters. The main lemma shows that the tables implement
  nested conditionals.
\<close>

section \<open>Expressions\<close>

text \<open>The operators of a condition are replaced longest first, in one pass.\<close>

fun cpp_ops :: "string \<Rightarrow> string" where
  "cpp_ops [] = []"
| "cpp_ops (c # cs) =
     (if c = CHR ''!'' \<and> cs \<noteq> [] \<and> hd cs = CHR ''='' then '' != '' @ cpp_ops (tl cs)
      else if c = CHR ''&'' \<and> cs \<noteq> [] \<and> hd cs = CHR ''&'' then '' and '' @ cpp_ops (tl cs)
      else if c = CHR ''|'' \<and> cs \<noteq> [] \<and> hd cs = CHR ''|'' then '' or '' @ cpp_ops (tl cs)
      else if c = CHR ''!'' then '' not '' @ cpp_ops cs
      else if c = CHR ''?'' then '' and '' @ cpp_ops cs
      else if c = CHR '':'' then '' or '' @ cpp_ops cs
      else if c = CHR 0x0D then cpp_ops cs
      else c # cpp_ops cs)"

section \<open>Macros\<close>

text \<open>Python's \<open>int\<close> on a string: white space around an optional sign and digits.\<close>

definition lstrip :: "string \<Rightarrow> string" where
  "lstrip s = dropWhile is_space s"

definition is_digit :: "char \<Rightarrow> bool" where
  "is_digit c \<longleftrightarrow> c \<in> set ''0123456789''"

fun digits_val :: "string \<Rightarrow> int \<Rightarrow> int" where
  "digits_val [] acc = acc"
| "digits_val (c # cs) acc = digits_val cs (10 * acc + (int (of_char c) - 48))"

definition py_int :: "string \<Rightarrow> int option" where
  "py_int s =
     (let t = rev (lstrip (rev (lstrip s)));
          (neg, ds) = (if t \<noteq> [] \<and> hd t = CHR ''-'' then (True, tl t)
                       else if t \<noteq> [] \<and> hd t = CHR ''+'' then (False, tl t) else (False, t))
      in if ds \<noteq> [] \<and> list_all is_digit ds
         then Some (if neg then - digits_val ds 0 else digits_val ds 0) else None)"

datatype expansion = ExpInt int | ExpParts "string list"

datatype nsval =
    NsInt int
  | NsStr string
  | NsFun string "string list" expansion
  | NsDict

type_synonym namespace = "string \<rightharpoonup> nsval"

text \<open>\<open>re.split(',\s*')\<close> and \<open>str.split('##')\<close>.\<close>

function split_args :: "string \<Rightarrow> string \<Rightarrow> string list" where
  "split_args cur [] = [rev cur]"
| "split_args cur (c # cs) =
     (if c = CHR '','' then rev cur # split_args [] (dropWhile is_space cs)
      else split_args (c # cur) cs)"
  by pat_completeness auto

termination split_args
  by (relation "measure (\<lambda>(cur, cs). length cs)") (auto simp: le_imp_less_Suc length_dropWhile_le)

fun split_paste :: "string \<Rightarrow> string \<Rightarrow> string list" where
  "split_paste cur [] = [rev cur]"
| "split_paste cur (c # cs) =
     (if c = CHR ''#'' \<and> cs \<noteq> [] \<and> hd cs = CHR ''#'' then rev cur # split_paste [] (tl cs)
      else split_paste (c # cur) cs)"

datatype cpp_exn = CppError string

text \<open>
  \<open>FunctionEvaluator\<close>: an integer expansion cannot be iterated over; otherwise the
  parts that name a parameter are replaced by the value of the last parameter of that
  name, and everything is joined.
\<close>

definition function_evaluator :: "string \<Rightarrow> string \<Rightarrow> string + int \<Rightarrow> nsval" where
  "function_evaluator name args e =
     NsFun name (split_args [] args)
       (case e of Inl s \<Rightarrow> ExpParts (split_paste [] s) | Inr i \<Rightarrow> ExpInt i)"

fun lookup_arg :: "string list \<Rightarrow> string list \<Rightarrow> string \<Rightarrow> string option" where
  "lookup_arg (k # ks) (v # vs) x =
     (case lookup_arg ks vs x of Some w \<Rightarrow> Some w | None \<Rightarrow> if k = x then Some v else None)"
| "lookup_arg ks vs x = None"

definition call_evaluator :: "string list \<Rightarrow> expansion \<Rightarrow> string list \<Rightarrow> cpp_exn + string" where
  "call_evaluator args e values =
     (if length args \<noteq> length values then Inl (CppError ''ValueError'')
      else
        (case e of
           ExpInt _ \<Rightarrow> Inl (CppError ''TypeError'')
         | ExpParts ps \<Rightarrow>
             Inr (concat (map (\<lambda>p. case lookup_arg args values p of Some v \<Rightarrow> v | None \<Rightarrow> p) ps))))"

section \<open>The preprocessor\<close>

datatype line =
    LIf string | LElif string | LIfdef string | LIfndef string | LElse | LEndif
  | LDefine string "string option" string | LUndef string
  | LImport string | LInclude string | LIncludeNext string | LCurrentFile string

datatype kind = KIf | KElif | KIfdef | KIfndef | KElse | KEndif | KDefine | KUndef
  | KImport | KInclude | KIncludeNext | KCurrentFile

fun kind_of :: "line \<Rightarrow> kind" where
  "kind_of (LIf _) = KIf"
| "kind_of (LElif _) = KElif"
| "kind_of (LIfdef _) = KIfdef"
| "kind_of (LIfndef _) = KIfndef"
| "kind_of LElse = KElse"
| "kind_of LEndif = KEndif"
| "kind_of (LDefine _ _ _) = KDefine"
| "kind_of (LUndef _) = KUndef"
| "kind_of (LImport _) = KImport"
| "kind_of (LInclude _) = KInclude"
| "kind_of (LIncludeNext _) = KIncludeNext"
| "kind_of (LCurrentFile _) = KCurrentFile"

text \<open>What a table entry can be: the method of a directive, or one of three others.\<close>

datatype handler = Do kind | DoNothing | StartIncludes | StopIncludes | AllInclude

type_synonym table = "kind \<Rightarrow> handler"

text \<open>
  \<open>cp_eval\<close> is \<open>eval\<close> of a condition in the namespace: a truth value or the name of the
  exception. \<open>cp_tuples\<close> reads a file and splits it into lines.
\<close>

record cpp_config =
  cp_current :: string
  cp_path :: "string list"
  cp_all :: bool
  cp_dumb :: bool
  cp_eval :: "namespace \<Rightarrow> string \<Rightarrow> string + bool"
  cp_isfile :: "string \<Rightarrow> bool"
  cp_tuples :: "string \<Rightarrow> cpp_exn + line list"

text \<open>
  \<open>__init__\<close>: \<open>all\<close> replaces the method \<open>do_include\<close> of the object, which
  \<open>#include_next\<close> does not use. \<open>DumbPreProcessor\<close> ignores the conditionals.
\<close>

definition default_table :: "cpp_config \<Rightarrow> table" where
  "default_table c k =
     (if cp_dumb c \<and> k \<in> {KIf, KElif, KElse, KEndif, KIfdef, KIfndef} then DoNothing
      else if cp_all c \<and> k = KInclude then AllInclude
      else Do k)"

datatype result_item = ResFile string | ResInclude "(char \<times> string) option"

record pp =
  pp_ns :: namespace
  pp_file :: string
  pp_result :: "result_item list"
  pp_stack :: "table list"
  pp_table :: table
  pp_tuples :: "line list"

definition search_path :: "cpp_config \<Rightarrow> char \<Rightarrow> string list" where
  "search_path c q =
     (if q = CHR 0x22 then cp_current c # cp_path c else cp_path c @ [cp_current c])"

definition save :: "cpp_config \<Rightarrow> pp \<Rightarrow> pp" where
  "save c s = s\<lparr>pp_stack := pp_table s # pp_stack s, pp_table := default_table c\<rparr>"

definition restore :: "pp \<Rightarrow> pp" where
  "restore s =
     (case pp_stack s of [] \<Rightarrow> s | t # ts \<Rightarrow> s\<lparr>pp_table := t, pp_stack := ts\<rparr>)"

definition is_inc :: "kind \<Rightarrow> bool" where
  "is_inc k \<longleftrightarrow> k = KImport \<or> k = KInclude \<or> k = KIncludeNext"

definition start_handling_includes :: "cpp_config \<Rightarrow> pp \<Rightarrow> pp" where
  "start_handling_includes c s =
     (let p = (case pp_stack s of [] \<Rightarrow> default_table c | t # _ \<Rightarrow> t)
      in s\<lparr>pp_table := (\<lambda>k. if is_inc k then p k else pp_table s k)\<rparr>)"

definition stop_handling_includes :: "pp \<Rightarrow> pp" where
  "stop_handling_includes s =
     s\<lparr>pp_table := (\<lambda>k. if is_inc k then DoNothing else pp_table s k)\<rparr>"

definition set_entries :: "handler \<Rightarrow> handler \<Rightarrow> pp \<Rightarrow> pp" where
  "set_entries e1 e2 s = s\<lparr>pp_table := (pp_table s)(KElif := e1, KElse := e2)\<rparr>"

definition do_if_else_condition :: "cpp_config \<Rightarrow> bool \<Rightarrow> pp \<Rightarrow> pp" where
  "do_if_else_condition c b s =
     (let s1 = save c s in
      if b then set_entries StopIncludes StopIncludes (start_handling_includes c s1)
      else set_entries (Do KElif) StartIncludes (stop_handling_includes s1))"

definition eval_expression :: "cpp_config \<Rightarrow> string \<Rightarrow> pp \<Rightarrow> cpp_exn + bool" where
  "eval_expression c e s =
     (case cp_eval c (pp_ns s) e of
        Inr b \<Rightarrow> Inr b
      | Inl x \<Rightarrow> if x = ''NameError'' \<or> x = ''TypeError'' then Inr False else Inl (CppError x))"

definition do_elif :: "cpp_config \<Rightarrow> string \<Rightarrow> pp \<Rightarrow> cpp_exn + pp" where
  "do_elif c e s =
     bind_result (eval_expression c e s) (\<lambda>b.
       Inr (if b then set_entries StopIncludes StopIncludes (start_handling_includes c s) else s))"

definition do_define :: "string \<Rightarrow> string option \<Rightarrow> string \<Rightarrow> pp \<Rightarrow> pp" where
  "do_define name args e s =
     (let v = (case py_int e of Some i \<Rightarrow> Inr i | None \<Rightarrow> Inl e);
          x = (case args of
                 Some (a # as) \<Rightarrow> function_evaluator name (butlast as) v
               | _ \<Rightarrow> (case v of Inr i \<Rightarrow> NsInt i | Inl str \<Rightarrow> NsStr str))
      in s\<lparr>pp_ns := (pp_ns s)(name \<mapsto> x)\<rparr>)"

definition do_undef :: "string \<Rightarrow> pp \<Rightarrow> pp" where
  "do_undef name s = s\<lparr>pp_ns := (pp_ns s)(name := None)\<rparr>"

subsection \<open>Resolving an include line\<close>

text \<open>
  The first \<open>(\S+)\(([^)]*)\)\<close> of a string: the longest run of non-space characters
  before an opening parenthesis that is closed again, backtracking to earlier ones.
\<close>

fun last_call :: "string \<Rightarrow> string \<Rightarrow> (string \<times> string) option" where
  "last_call pre [] = None"
| "last_call pre (c # cs) =
     (if is_space c then None
      else
        (case last_call (pre @ [c]) cs of
           Some r \<Rightarrow> Some r
         | None \<Rightarrow>
             if c = CHR ''('' \<and> pre \<noteq> [] \<and> CHR '')'' \<in> set cs
             then Some (pre, takeWhile (\<lambda>x. x \<noteq> CHR '')'') cs) else None))"

fun function_name :: "string \<Rightarrow> (string \<times> string) option" where
  "function_name [] = None"
| "function_name (c # cs) =
     (case last_call [] (c # cs) of Some r \<Rightarrow> Some r | None \<Rightarrow> function_name cs)"

definition nsval_false :: "nsval \<Rightarrow> bool" where
  "nsval_false v = (case v of NsInt i \<Rightarrow> i = 0 | NsStr s \<Rightarrow> s = [] | _ \<Rightarrow> False)"

text \<open>One expansion: the value of the name, or of the function call.\<close>

definition expand_once :: "namespace \<Rightarrow> string \<Rightarrow> cpp_exn + nsval" where
  "expand_once ns s =
     (case ns s of
        Some v \<Rightarrow> Inr v
      | None \<Rightarrow>
          (case function_name s of
             None \<Rightarrow> Inl (CppError ''AttributeError'')
           | Some (f, a) \<Rightarrow>
               (case ns f of
                  None \<Rightarrow> Inl (CppError ''KeyError'')
                | Some (NsFun n args e) \<Rightarrow>
                    map_sum id NsStr (call_evaluator args e (split_args [] a))
                | Some v \<Rightarrow> Inr v)))"

partial_function (option) resolve_loop ::
  "namespace \<Rightarrow> string \<Rightarrow> (cpp_exn + (char \<times> string) option) option" where
  "resolve_loop ns s =
     (if s = [] then Some (Inl (CppError ''IndexError''))
      else if hd s = CHR ''<'' \<or> hd s = CHR 0x22 then Some (Inr (Some (hd s, butlast (tl s))))
      else
        (case expand_once ns s of
           Inl x \<Rightarrow> Some (Inl x)
         | Inr v \<Rightarrow>
             if nsval_false v then Some (Inr None)
             else (case v of
                     NsStr s' \<Rightarrow> resolve_loop ns s'
                   | _ \<Rightarrow> Some (Inl (CppError ''TypeError'')))))"

declare resolve_loop.simps [code]

definition find_include_file :: "cpp_config \<Rightarrow> (char \<times> string) option \<Rightarrow> cpp_exn + string option" where
  "find_include_file c t =
     (case t of
        None \<Rightarrow> Inl (CppError ''TypeError'')
      | Some (q, f) \<Rightarrow>
          Inr (find (cp_isfile c)
                 (map (\<lambda>d. if d = ''.'' then f else path_join d f) (search_path c q))))"

definition do_include :: "cpp_config \<Rightarrow> string \<Rightarrow> pp \<Rightarrow> (cpp_exn + pp) option" where
  "do_include c arg s =
     map_option (\<lambda>r. bind_result r (\<lambda>t. bind_result (find_include_file c t) (\<lambda>f.
         case f of
           None \<Rightarrow> Inr s
         | Some file \<Rightarrow>
             bind_result (cp_tuples c file) (\<lambda>ls.
               Inr (s\<lparr>pp_result := pp_result s @ [ResFile file],
                      pp_tuples := LCurrentFile file # ls @ LCurrentFile (pp_file s) # pp_tuples s\<rparr>)))))
       (resolve_loop (pp_ns s) arg)"

text \<open>\<open>all_include\<close> records the resolved pair itself.\<close>

definition all_include :: "string \<Rightarrow> pp \<Rightarrow> (cpp_exn + pp) option" where
  "all_include arg s =
     map_option (\<lambda>r. bind_result r (\<lambda>t.
         Inr (s\<lparr>pp_result := pp_result s @ [ResInclude t]\<rparr>)))
       (resolve_loop (pp_ns s) arg)"

definition do_default :: "cpp_config \<Rightarrow> line \<Rightarrow> pp \<Rightarrow> (cpp_exn + pp) option" where
  "do_default c l s =
     (case l of
        LIf e \<Rightarrow> Some (bind_result (eval_expression c e s) (\<lambda>b. Inr (do_if_else_condition c b s)))
      | LElif e \<Rightarrow> Some (do_elif c e s)
      | LIfdef x \<Rightarrow> Some (Inr (do_if_else_condition c (pp_ns s x \<noteq> None) s))
      | LIfndef x \<Rightarrow> Some (Inr (do_if_else_condition c (pp_ns s x = None) s))
      | LElse \<Rightarrow> Some (Inr s)
      | LEndif \<Rightarrow> Some (Inr (restore s))
      | LDefine x a e \<Rightarrow> Some (Inr (do_define x a e s))
      | LUndef x \<Rightarrow> Some (Inr (do_undef x s))
      | LImport _ \<Rightarrow> Some (Inr s)
      | LInclude a \<Rightarrow> do_include c a s
      | LIncludeNext a \<Rightarrow> do_include c a s
      | LCurrentFile f \<Rightarrow> Some (Inr (s\<lparr>pp_file := f\<rparr>)))"

fun line_arg :: "line \<Rightarrow> string" where
  "line_arg (LInclude a) = a"
| "line_arg _ = []"

definition dispatch :: "cpp_config \<Rightarrow> line \<Rightarrow> pp \<Rightarrow> (cpp_exn + pp) option" where
  "dispatch c l s =
     (case pp_table s (kind_of l) of
        Do _ \<Rightarrow> do_default c l s
      | DoNothing \<Rightarrow> Some (Inr s)
      | StartIncludes \<Rightarrow> Some (Inr (start_handling_includes c s))
      | StopIncludes \<Rightarrow> Some (Inr (stop_handling_includes s))
      | AllInclude \<Rightarrow> all_include (line_arg l) s)"

text \<open>The loop of \<open>process_contents\<close>; a file that includes itself can keep it going.\<close>

partial_function (option) process_loop :: "cpp_config \<Rightarrow> pp \<Rightarrow> (cpp_exn + pp) option" where
  "process_loop c s =
     (case pp_tuples s of
        [] \<Rightarrow> Some (Inr s)
      | l # ls \<Rightarrow>
          (case dispatch c l (s\<lparr>pp_tuples := ls\<rparr>) of
             None \<Rightarrow> None
           | Some (Inl x) \<Rightarrow> Some (Inl x)
           | Some (Inr s') \<Rightarrow> process_loop c s'))"

declare process_loop.simps [code]

definition process_start :: "cpp_config \<Rightarrow> namespace \<Rightarrow> string \<Rightarrow> line list \<Rightarrow> pp" where
  "process_start c ns fname ls =
     \<lparr>pp_ns = ns, pp_file = fname, pp_result = [ResFile fname], pp_stack = [],
      pp_table = default_table c, pp_tuples = ls\<rparr>"

definition process_contents ::
  "cpp_config \<Rightarrow> namespace \<Rightarrow> string \<Rightarrow> line list \<Rightarrow> (cpp_exn + result_item list) option" where
  "process_contents c ns fname ls =
     map_option (map_sum id (\<lambda>s. tl (pp_result s))) (process_loop c (process_start c ns fname ls))"

section \<open>The tables implement nested conditionals\<close>

text \<open>
  Structured source: conditionals with any number of \<open>#elif\<close> parts and an optional
  \<open>#else\<close>, nested, around other lines.
\<close>

datatype test = TIf string | TIfdef string | TIfndef string

datatype item =
    Plain line
  | Cond test "item list" "(string \<times> item list) list" "item list option"

fun test_line :: "test \<Rightarrow> line" where
  "test_line (TIf e) = LIf e"
| "test_line (TIfdef x) = LIfdef x"
| "test_line (TIfndef x) = LIfndef x"

fun flat :: "item \<Rightarrow> line list" where
  "flat (Plain l) = [l]"
| "flat (Cond t body elifs els) =
     test_line t # concat (map flat body)
     @ concat (map (\<lambda>(e, b). LElif e # concat (map flat b)) elifs)
     @ (case els of None \<Rightarrow> [] | Some b \<Rightarrow> LElse # concat (map flat b)) @ [LEndif]"

abbreviation flats :: "item list \<Rightarrow> line list" where
  "flats is \<equiv> concat (map flat is)"

definition plain_line :: "line \<Rightarrow> bool" where
  "plain_line l \<longleftrightarrow> kind_of l \<in> {KDefine, KUndef, KImport, KInclude, KIncludeNext, KCurrentFile}"

text \<open>What the lines change for good: the macros, the current file and the result.\<close>

record core =
  co_ns :: namespace
  co_file :: string
  co_result :: "result_item list"

definition pp_of :: "core \<Rightarrow> table \<Rightarrow> table list \<Rightarrow> line list \<Rightarrow> pp" where
  "pp_of k tb st ls = \<lparr>pp_ns = co_ns k, pp_file = co_file k, pp_result = co_result k,
     pp_stack = st, pp_table = tb, pp_tuples = ls\<rparr>"

definition core_of :: "pp \<Rightarrow> core" where
  "core_of s = \<lparr>co_ns = pp_ns s, co_file = pp_file s, co_result = pp_result s\<rparr>"

definition cond_value :: "cpp_config \<Rightarrow> string \<Rightarrow> core \<Rightarrow> cpp_exn + bool" where
  "cond_value c e k = eval_expression c e (pp_of k (default_table c) [] [])"

definition test_value :: "cpp_config \<Rightarrow> test \<Rightarrow> core \<Rightarrow> cpp_exn + bool" where
  "test_value c t k =
     (case t of
        TIf e \<Rightarrow> cond_value c e k
      | TIfdef x \<Rightarrow> Inr (co_ns k x \<noteq> None)
      | TIfndef x \<Rightarrow> Inr (co_ns k x = None))"

text \<open>The file an include line stands for, if it is found.\<close>

definition included :: "cpp_config \<Rightarrow> core \<Rightarrow> string \<Rightarrow> string option \<Rightarrow> bool" where
  "included c k arg f \<longleftrightarrow>
     (\<exists>t. resolve_loop (co_ns k) arg = Some (Inr t) \<and> find_include_file c t = Inr f)"

definition include_arg :: "line \<Rightarrow> string option" where
  "include_arg l = (case l of LInclude a \<Rightarrow> Some a | LIncludeNext a \<Rightarrow> Some a | _ \<Rightarrow> None)"

text \<open>
  What the source means. The flag says whether include lines count. Definitions always
  count, and so does the first test of every conditional; of the parts of a conditional
  the first with a true test is active when the conditional is, and the tests after it
  are not made. The lines of an included file are run in place.
\<close>

inductive sem :: "cpp_config \<Rightarrow> bool \<Rightarrow> item list \<Rightarrow> core \<Rightarrow> core \<Rightarrow> bool"
  and parts :: "cpp_config \<Rightarrow> bool \<Rightarrow> bool \<Rightarrow> (string \<times> item list) list \<Rightarrow> item list option \<Rightarrow>
    core \<Rightarrow> core \<Rightarrow> bool" for c where
  sem_Nil: "sem c a [] k k"
| sem_define: "sem c a is (core_of (do_define x args e (pp_of k (default_table c) [] []))) k' \<Longrightarrow>
    sem c a (Plain (LDefine x args e) # is) k k'"
| sem_undef: "sem c a is (k\<lparr>co_ns := (co_ns k)(x := None)\<rparr>) k' \<Longrightarrow> sem c a (Plain (LUndef x) # is) k k'"
| sem_file: "sem c a is (k\<lparr>co_file := f\<rparr>) k' \<Longrightarrow> sem c a (Plain (LCurrentFile f) # is) k k'"
| sem_import: "sem c a is k k' \<Longrightarrow> sem c a (Plain (LImport x) # is) k k'"
| sem_skip: "include_arg l = Some arg \<Longrightarrow> sem c False is k k' \<Longrightarrow> sem c False (Plain l # is) k k'"
| sem_missing: "include_arg l = Some arg \<Longrightarrow> included c k arg None \<Longrightarrow> sem c True is k k' \<Longrightarrow>
    sem c True (Plain l # is) k k'"
| sem_include: "include_arg l = Some arg \<Longrightarrow> included c k arg (Some f) \<Longrightarrow>
    cp_tuples c f = Inr (flats fs) \<Longrightarrow>
    sem c True (Plain (LCurrentFile f) # fs @ Plain (LCurrentFile (co_file k)) # is)
      (k\<lparr>co_result := co_result k @ [ResFile f]\<rparr>) k' \<Longrightarrow>
    sem c True (Plain l # is) k k'"
| sem_cond: "test_value c t k = Inr b \<Longrightarrow> sem c (a \<and> b) body k k1 \<Longrightarrow>
    parts c a b elifs els k1 k2 \<Longrightarrow> sem c a is k2 k' \<Longrightarrow> sem c a (Cond t body elifs els # is) k k'"
| parts_end: "parts c a taken [] None k k"
| parts_else: "sem c (a \<and> \<not> taken) b k k' \<Longrightarrow> parts c a taken [] (Some b) k k'"
| parts_after: "sem c False b k k1 \<Longrightarrow> parts c a True es els k1 k' \<Longrightarrow> parts c a True ((e, b) # es) els k k'"
| parts_elif: "cond_value c e k = Inr v \<Longrightarrow> sem c (a \<and> v) b k k1 \<Longrightarrow> parts c a v es els k1 k' \<Longrightarrow>
    parts c a False ((e, b) # es) els k k'"

text \<open>The tables of a level, and of a conditional between its parts.\<close>

definition level_ok :: "cpp_config \<Rightarrow> bool \<Rightarrow> table \<Rightarrow> bool" where
  "level_ok c a tb \<longleftrightarrow>
     (\<forall>k. is_inc k \<longrightarrow> tb k = (if a then Do k else DoNothing)) \<and>
     (\<forall>k. \<not> is_inc k \<and> k \<noteq> KElif \<and> k \<noteq> KElse \<longrightarrow> tb k = Do k)"

definition parts_ok :: "bool \<Rightarrow> table \<Rightarrow> bool" where
  "parts_ok taken tb \<longleftrightarrow>
     (if taken then tb KElif = StopIncludes \<and> tb KElse = StopIncludes
      else tb KElif = Do KElif \<and> tb KElse = StartIncludes \<and> (\<forall>k. is_inc k \<longrightarrow> tb k = DoNothing)) \<and>
     (\<forall>k. \<not> is_inc k \<and> k \<noteq> KElif \<and> k \<noteq> KElse \<longrightarrow> tb k = Do k)"

definition open_table :: "cpp_config \<Rightarrow> bool \<Rightarrow> table \<Rightarrow> table" where
  "open_table c b tb =
     (\<lambda>k. if is_inc k then (if b then tb k else DoNothing)
          else if k = KElif then (if b then StopIncludes else Do KElif)
          else if k = KElse then (if b then StopIncludes else StartIncludes) else Do k)"

lemma not_inc [simp]: "\<not> is_inc KIf" "\<not> is_inc KElif" "\<not> is_inc KIfdef" "\<not> is_inc KIfndef"
  "\<not> is_inc KElse" "\<not> is_inc KEndif" "\<not> is_inc KDefine" "\<not> is_inc KUndef" "\<not> is_inc KCurrentFile"
  "is_inc KImport" "is_inc KInclude" "is_inc KIncludeNext"
  by (simp_all add: is_inc_def)

definition normal :: "cpp_config \<Rightarrow> bool" where
  "normal c \<longleftrightarrow> \<not> cp_all c \<and> \<not> cp_dumb c"

lemma default_normal: "normal c \<Longrightarrow> default_table c = Do"
  by (rule ext) (simp add: normal_def default_table_def)

lemma level_open: "level_ok c a tb \<Longrightarrow> level_ok c (a \<and> b) (open_table c b tb)"
  by (auto simp: level_ok_def open_table_def)

lemma parts_open: "parts_ok b (open_table c b tb)"
  by (auto simp: parts_ok_def open_table_def)

lemma open_condition:
  "normal c \<Longrightarrow> do_if_else_condition c b (pp_of k tb st ls) = pp_of k (open_table c b tb) (tb # st) ls"
  by (auto simp: do_if_else_condition_def save_def start_handling_includes_def default_normal
      stop_handling_includes_def set_entries_def open_table_def pp_of_def Let_def fun_eq_iff)

lemma loop_step:
  "dispatch c l (pp_of k tb st ls) = Some (Inr s') \<Longrightarrow>
     process_loop c (pp_of k tb st (l # ls)) = process_loop c s'"
  by (subst process_loop.simps) (simp add: pp_of_def)

lemma pp_of_sel [simp]:
  "pp_ns (pp_of k tb st ls) = co_ns k" "pp_table (pp_of k tb st ls) = tb"
  "pp_stack (pp_of k tb st ls) = st" "pp_tuples (pp_of k tb st ls) = ls"
  "pp_file (pp_of k tb st ls) = co_file k"
  by (simp_all add: pp_of_def)

lemma eval_core: "eval_expression c e (pp_of k tb st ls) = cond_value c e k"
  by (simp add: cond_value_def eval_expression_def)

lemma test_step:
  assumes "normal c" and "level_ok c a tb" and "test_value c t k = Inr b"
  shows "process_loop c (pp_of k tb st (test_line t # ls)) =
    process_loop c (pp_of k (open_table c b tb) (tb # st) ls)"
  using assms
  by (intro loop_step, cases t)
    (auto simp: dispatch_def level_ok_def do_default_def test_value_def eval_core open_condition)

lemma start_table:
  "start_handling_includes c (pp_of k tbp (tb # st) ls) =
     pp_of k (\<lambda>x. if is_inc x then tb x else tbp x) (tb # st) ls"
  by (simp add: start_handling_includes_def pp_of_def Let_def fun_eq_iff)

lemma stop_table:
  "stop_handling_includes (pp_of k tbp st ls) = pp_of k (\<lambda>x. if is_inc x then DoNothing else tbp x) st ls"
  by (simp add: stop_handling_includes_def pp_of_def fun_eq_iff)

text \<open>The whole: running structured source means \<open>sem\<close> and leaves table and stack.\<close>

lemma run_structured:
  assumes n: "normal c"
  shows "sem c a is k k' \<Longrightarrow> level_ok c a tb \<Longrightarrow>
      process_loop c (pp_of k tb st (flats is @ rest)) = process_loop c (pp_of k' tb st rest)"
    and "parts c a taken es els k k' \<Longrightarrow> level_ok c a tb \<Longrightarrow> parts_ok taken tbp \<Longrightarrow>
      process_loop c (pp_of k tbp (tb # st)
        (concat (map (\<lambda>(e, b). LElif e # flats b) es)
         @ (case els of None \<Rightarrow> [] | Some b \<Rightarrow> LElse # flats b) @ LEndif # rest)) =
      process_loop c (pp_of k' tb st rest)"
proof (induction arbitrary: tb st rest and tb tbp st rest rule: sem_parts.inducts)
  case (sem_define a "is" x args e k k')
  have "dispatch c (LDefine x args e) (pp_of k tb st ls) =
      Some (Inr (pp_of (core_of (do_define x args e (pp_of k (default_table c) [] []))) tb st ls))" for ls
    using sem_define.prems
    by (auto simp: dispatch_def level_ok_def do_default_def do_define_def core_of_def pp_of_def Let_def)
  then show ?case using sem_define.IH(2) [OF sem_define.prems] by (simp add: loop_step)
next
  case (sem_undef a "is" k x k')
  have "dispatch c (LUndef x) (pp_of k tb st ls) =
      Some (Inr (pp_of (k\<lparr>co_ns := (co_ns k)(x := None)\<rparr>) tb st ls))" for ls
    using sem_undef.prems
    by (auto simp: dispatch_def level_ok_def do_default_def do_undef_def pp_of_def)
  then show ?case using sem_undef.IH(2) [OF sem_undef.prems] by (simp add: loop_step)
next
  case (sem_file a "is" f k k')
  have "dispatch c (LCurrentFile f) (pp_of k tb st ls) = Some (Inr (pp_of (k\<lparr>co_file := f\<rparr>) tb st ls))" for ls
    using sem_file.prems by (auto simp: dispatch_def level_ok_def do_default_def pp_of_def)
  then show ?case using sem_file.IH(2) [OF sem_file.prems] by (simp add: loop_step)
next
  case (sem_import a "is" k k' x)
  have "dispatch c (LImport x) (pp_of k tb st ls) = Some (Inr (pp_of k tb st ls))" for ls
    using sem_import.prems by (auto simp: dispatch_def level_ok_def do_default_def)
  then show ?case using sem_import.IH(2) [OF sem_import.prems] by (simp add: loop_step)
next
  case (sem_skip l arg "is" k k')
  have "dispatch c l (pp_of k tb st ls) = Some (Inr (pp_of k tb st ls))" for ls
    using sem_skip by (cases l) (auto simp: dispatch_def level_ok_def include_arg_def)
  then show ?case using sem_skip(3) [OF sem_skip.prems] by (simp add: loop_step)
next
  case (sem_missing l arg k "is" k')
  have "dispatch c l (pp_of k tb st ls) = Some (Inr (pp_of k tb st ls))" for ls
    using sem_missing
    by (cases l) (auto simp: dispatch_def level_ok_def include_arg_def included_def do_default_def do_include_def)
  then show ?case using sem_missing(4) [OF sem_missing.prems] by (simp add: loop_step)
next
  case (sem_include l arg k f fs "is" k')
  have "dispatch c l (pp_of k tb st ls) = Some (Inr (pp_of (k\<lparr>co_result := co_result k @ [ResFile f]\<rparr>) tb st
      (LCurrentFile f # flats fs @ LCurrentFile (co_file k) # ls)))" for ls
    using sem_include
    by (cases l) (auto simp: dispatch_def level_ok_def include_arg_def included_def do_default_def
        do_include_def pp_of_def)
  then show ?case using sem_include(5) [OF sem_include.prems, of st rest] by (simp add: loop_step)
next
  case (sem_cond t k b a body k1 elifs els k2 "is" k')
  note lo = level_open [OF sem_cond.prems, of b]
  show ?case
    by (simp add: test_step [OF n sem_cond.prems sem_cond(1)] sem_cond(3) [OF lo]
        sem_cond(5) [OF sem_cond.prems parts_open] sem_cond(7) [OF sem_cond.prems])
next
  case (parts_end a taken k)
  have "dispatch c LEndif (pp_of k tbp (tb # st) rest) = Some (Inr (pp_of k tb st rest))"
    using parts_end.prems by (auto simp: dispatch_def parts_ok_def do_default_def restore_def pp_of_def)
  then show ?case by (simp add: loop_step)
next
  case (parts_else a taken b k k')
  let ?tb = "\<lambda>x. if is_inc x then (if taken then DoNothing else tb x) else tbp x"
  have e: "dispatch c LElse (pp_of k tbp (tb # st) ls) = Some (Inr (pp_of k ?tb (tb # st) ls))" for ls
    using parts_else.prems
    by (cases taken) (simp_all add: dispatch_def parts_ok_def start_table stop_table cong: if_cong)
  have lv: "level_ok c (a \<and> \<not> taken) ?tb"
    using parts_else.prems by (auto simp: level_ok_def parts_ok_def)
  have d: "dispatch c LEndif (pp_of k' ?tb (tb # st) rest) = Some (Inr (pp_of k' tb st rest))"
    using parts_else.prems by (auto simp: dispatch_def parts_ok_def do_default_def restore_def pp_of_def)
  show ?case using parts_else(2) [OF lv, of "tb # st" "LEndif # rest"]
    by (simp add: loop_step [OF e] loop_step [OF d])
next
  case (parts_after b k k1 a es els k' e)
  let ?tb = "\<lambda>x. if is_inc x then DoNothing else tbp x"
  have d: "dispatch c (LElif e) (pp_of k tbp (tb # st) ls) = Some (Inr (pp_of k ?tb (tb # st) ls))" for ls
    using parts_after.prems by (auto simp: dispatch_def parts_ok_def stop_table)
  have lv: "level_ok c False ?tb" "parts_ok True ?tb"
    using parts_after.prems by (auto simp: level_ok_def parts_ok_def)
  show ?case
    by (simp add: loop_step [OF d] parts_after(2) [OF lv(1)]
        parts_after(4) [OF parts_after.prems(1) lv(2)])
next
  case (parts_elif e k v a b k1 es els k')
  let ?tb = "if v then (\<lambda>x. if is_inc x then tb x else tbp x)(KElif := StopIncludes, KElse := StopIncludes)
    else tbp"
  have d: "dispatch c (LElif e) (pp_of k tbp (tb # st) ls) = Some (Inr (pp_of k ?tb (tb # st) ls))" for ls
    using parts_elif.prems parts_elif(1)
    by (auto simp: dispatch_def parts_ok_def do_default_def do_elif_def eval_core start_table
        set_entries_def) (simp add: pp_of_def)
  have lv: "level_ok c (a \<and> v) ?tb" "parts_ok v ?tb"
    using parts_elif.prems by (auto simp: level_ok_def parts_ok_def)
  show ?case
    by (simp add: loop_step [OF d] parts_elif(3) [OF lv(1)]
        parts_elif(5) [OF parts_elif.prems(1) lv(2)])
qed simp

text \<open>
  For a whole file: with all tests and includes defined by \<open>sem\<close>, the result is the
  list of files the active lines include, in order.
\<close>

lemma process_structured:
  assumes "normal c"
    and "sem c True is \<lparr>co_ns = ns, co_file = fname, co_result = [ResFile fname]\<rparr> k"
  shows "process_contents c ns fname (flats is) = Some (Inr (tl (co_result k)))"
proof -
  let ?k = "\<lparr>co_ns = ns, co_file = fname, co_result = [ResFile fname]\<rparr>"
  have lv: "level_ok c True (default_table c)"
    using assms(1) by (simp add: level_ok_def default_normal)
  have "process_start c ns fname (flats is) = pp_of ?k (default_table c) [] (flats is @ [])"
    by (simp add: process_start_def pp_of_def)
  then have "process_loop c (process_start c ns fname (flats is)) = process_loop c (pp_of k (default_table c) [] [])"
    using run_structured(1) [OF assms lv, of "[]" "[]"] by simp
  also have "\<dots> = Some (Inr (pp_of k (default_table c) [] []))"
    by (subst process_loop.simps) simp
  finally show ?thesis by (simp add: process_contents_def) (simp add: pp_of_def)
qed

section \<open>Expansion that does not end\<close>

text \<open>A macro that expands to itself keeps \<open>resolve_include\<close> going for ever.\<close>

lemma resolve_self:
  assumes "ns x = Some (NsStr x)" and "x \<noteq> []" and "hd x \<noteq> CHR ''<''" and "hd x \<noteq> CHR 0x22"
  shows "resolve_loop ns x = None"
proof (rule ccontr)
  assume "resolve_loop ns x \<noteq> None"
  then obtain r where r: "resolve_loop ns x = Some r" by auto
  let ?P = "\<lambda>n s r. n = ns \<longrightarrow> s = x \<longrightarrow> False"
  have "?P ns x r"
  proof (rule resolve_loop.raw_induct [of ?P, OF _ r], intro impI)
    fix loop n s r
    assume IH: "\<And>n s r. loop n s = Some r \<Longrightarrow> ?P n s r" and n: "n = ns" and s: "s = x"
      and body: "(if s = [] then Some (Inl (CppError ''IndexError''))
        else if hd s = CHR ''<'' \<or> hd s = CHR 0x22 then Some (Inr (Some (hd s, butlast (tl s))))
        else (case expand_once n s of Inl x \<Rightarrow> Some (Inl x)
           | Inr v \<Rightarrow> if nsval_false v then Some (Inr None)
               else (case v of NsStr s' \<Rightarrow> loop n s'
                     | _ \<Rightarrow> Some (Inl (CppError ''TypeError''))))) = Some r"
    have "loop n x = Some r" using body assms by (simp add: n s expand_once_def nsval_false_def)
    then show False using IH [of n x r] n by simp
  qed
  then show False by simp
qed

text \<open>Expansion through a chain of macros, and the values it ends with.\<close>

lemma resolve_quoted:
  assumes "s = q # name @ [e]" and "q = CHR ''<'' \<or> q = CHR 0x22"
  shows "resolve_loop ns s = Some (Inr (Some (q, name)))"
  using assms by (subst resolve_loop.simps) auto

lemma resolve_macro:
  assumes "ns x = Some (NsStr y)" and "x \<noteq> []" and "y \<noteq> []" and "hd x \<noteq> CHR ''<''" and "hd x \<noteq> CHR 0x22"
  shows "resolve_loop ns x = resolve_loop ns y"
  using assms by (subst resolve_loop.simps) (simp add: expand_once_def nsval_false_def)

section \<open>Properties\<close>

text \<open>
  C8: The tables of the preprocessor implement nested conditionals: when structured source, with
  any nesting of \<open>#if\<close>, \<open>#ifdef\<close>, \<open>#ifndef\<close>, \<open>#elif\<close>, \<open>#else\<close> and included files, has a meaning,
  \<open>process_contents\<close> of its lines returns exactly the files that meaning includes.
\<close>

theorem preprocessor_runs_structured:
  assumes "normal c"
    and "sem c True is \<lparr>co_ns = ns, co_file = fname, co_result = [ResFile fname]\<rparr> k"
  shows "process_contents c ns fname (flats is) = Some (Inr (tl (co_result k)))"
  using assms by (rule process_structured)

definition demo_cpp :: cpp_config where
  "demo_cpp = \<lparr>cp_current = ''.'', cp_path = [], cp_all = False, cp_dumb = False,
     cp_eval = (\<lambda>_ _. Inr True), cp_isfile = (\<lambda>_. True), cp_tuples = (\<lambda>_. Inr [])\<rparr>"

theorem preprocessor_runs_structured_witness:
  "process_contents demo_cpp (\<lambda>_. None) ''m''
     [LIfdef ''A'', LInclude ''<x>'', LElse, LInclude ''<y>'', LEndif] =
   Some (Inr [ResFile ''y''])"
proof -
  let ?k = "\<lparr>co_ns = (\<lambda>_. None), co_file = ''m'', co_result = [ResFile ''m'']\<rparr> :: core"
  let ?k1 = "?k\<lparr>co_result := [ResFile ''m'', ResFile ''y'']\<rparr>"
  have inc: "included demo_cpp ?k ''<y>'' (Some ''y'')"
    using resolve_quoted [of "''<y>''" "CHR ''<''" "''y''" "CHR ''>''" "\<lambda>_. None"]
    by (simp add: included_def find_include_file_def search_path_def demo_cpp_def)
  have marks: "sem demo_cpp True (Plain (LCurrentFile ''y'') # [] @ Plain (LCurrentFile ''m'') # []) ?k1 ?k1"
    unfolding append_Nil by (rule sem_file, rule sem_file) (simp add: sem_Nil)
  have y: "sem demo_cpp True [Plain (LInclude ''<y>'')] ?k ?k1"
    by (rule sem_include [where arg = "''<y>''" and f = "''y''" and fs = "[]"])
      (use inc marks in \<open>simp_all add: include_arg_def demo_cpp_def\<close>)
  have "sem demo_cpp True [Cond (TIfdef ''A'') [Plain (LInclude ''<x>'')] [] (Some [Plain (LInclude ''<y>'')])] ?k ?k1"
  proof (rule sem_cond)
    show "test_value demo_cpp (TIfdef ''A'') ?k = Inr False" by (simp add: test_value_def)
    show "sem demo_cpp (True \<and> False) [Plain (LInclude ''<x>'')] ?k ?k"
      using sem_skip [OF _ sem_Nil] by (simp add: include_arg_def)
    show "parts demo_cpp True False [] (Some [Plain (LInclude ''<y>'')]) ?k ?k1"
      by (rule parts_else) (use y in simp)
  qed (rule sem_Nil)
  from preprocessor_runs_structured [OF _ this] show ?thesis by (simp add: normal_def demo_cpp_def)
qed

text \<open>
  An \<open>#include\<close> of a macro that is defined as itself never returns: the loop of
  \<open>resolve_include\<close> has no bound on the number of expansions.
\<close>

theorem self_macro_include_diverges:
  assumes "ns x = Some (NsStr x)" and "x \<noteq> []" and "hd x \<noteq> CHR ''<''" and "hd x \<noteq> CHR 0x22"
    and "default_table c KInclude = Do KInclude"
  shows "process_contents c ns fname (LInclude x # ls) = None"
  using resolve_self [of ns x] assms
  by (simp add: process_contents_def process_start_def process_loop.simps [of c] dispatch_def
      do_default_def do_include_def)

theorem self_macro_include_diverges_witness:
  "process_contents demo_cpp [''A'' \<mapsto> NsStr ''A''] ''m'' [LInclude ''A''] = None"
  by (rule self_macro_include_diverges) (simp_all add: demo_cpp_def default_table_def)

end
