(* ===== verification/NodeWalk.thy ===== *)
theory NodeWalk
  imports Prelude
begin

text \<open>
  Two traversals of \<open>SCons/Node/__init__.py\<close>: the breadth-first search for implicit
  dependencies (\<open>get_implicit_deps\<close>) and the iterative depth-first \<open>Walker\<close>. The
  scanner's answers and the children are parameters. The lemmas show that the first
  finds exactly the reachable nodes and ends on cyclic include graphs, and that the
  second visits an acyclic graph in post-order.
\<close>

section \<open>Implicit dependencies\<close>

text \<open>
  \<open>found\<close> gives the included nodes of a node (nothing when no scanner is found for it),
  \<open>recurse\<close> is \<open>scanner.recurse_nodes\<close>. A dependency that occurs twice in one answer is
  listed twice.
\<close>

partial_function (option) deps_loop ::
  "('n \<Rightarrow> 'n list) \<Rightarrow> ('n list \<Rightarrow> 'n list) \<Rightarrow> 'n list \<Rightarrow> 'n set \<Rightarrow> 'n list \<Rightarrow> 'n list option" where
  "deps_loop found rec todo seen deps =
     (case todo of
        [] \<Rightarrow> Some deps
      | n # ns \<Rightarrow>
          (let inc = filter (\<lambda>x. x \<notin> seen) (found n) in
           deps_loop found rec (ns @ (if inc = [] then [] else rec inc)) (seen \<union> set inc) (deps @ inc)))"

declare deps_loop.simps [code]

definition get_implicit_deps_walk :: "('n \<Rightarrow> 'n list) \<Rightarrow> ('n list \<Rightarrow> 'n list) \<Rightarrow> 'n \<Rightarrow> 'n list option" where
  "get_implicit_deps_walk found rec n = deps_loop found rec [n] {n} []"

definition inc_rel :: "('n \<Rightarrow> 'n list) \<Rightarrow> ('n \<times> 'n) set" where
  "inc_rel found = {(a, b). b \<in> set (found a)}"

text \<open>
  Every scanned or waiting node has been seen; all inclusions of the scanned ones have
  been seen as well. The measure: unseen nodes first, then the waiting list.
\<close>

lemma deps_loop_result:
  assumes "finite U" and "\<And>n. n \<in> U \<Longrightarrow> set (found n) \<subseteq> U" and rec: "\<And>xs. set (rec xs) = set xs"
    and "r \<in> U"
  shows "set todo \<subseteq> seen \<Longrightarrow> seen \<subseteq> U \<Longrightarrow> seen = insert r (set deps) \<Longrightarrow>
    (\<And>x. x \<in> seen \<Longrightarrow> (r, x) \<in> (inc_rel found)\<^sup>*) \<Longrightarrow>
    (\<And>x. x \<in> seen - set todo \<Longrightarrow> set (found x) \<subseteq> seen) \<Longrightarrow> r \<notin> set deps \<Longrightarrow>
    \<exists>ds. deps_loop found rec todo seen deps = Some ds \<and> r \<notin> set ds \<and>
      insert r (set ds) = (inc_rel found)\<^sup>* `` {r}"
proof (induction "(card (U - seen), length todo)" arbitrary: todo seen deps
    rule: wf_induct_rule [OF wf_lex_prod [OF wf_less_than wf_less_than]])
  case (1 todo seen deps)
  show ?case
  proof (cases todo)
    case Nil
    have "x \<in> seen" if "(r, x) \<in> (inc_rel found)\<^sup>*" for x
      using that
    proof (induction rule: rtrancl_induct)
      case base
      then show ?case using 1(4) by simp
    next
      case (step y z)
      then show ?case using 1(6) Nil by (auto simp: inc_rel_def)
    qed
    then have "insert r (set deps) = (inc_rel found)\<^sup>* `` {r}" using 1(4,5) by auto
    then show ?thesis using Nil 1(7) by (subst deps_loop.simps) simp
  next
    case (Cons n ns)
    let ?inc = "filter (\<lambda>x. x \<notin> seen) (found n)"
    let ?todo = "ns @ (if ?inc = [] then [] else rec ?inc)"
    let ?seen = "seen \<union> set ?inc"
    have n: "n \<in> seen" "n \<in> U" using 1(2,3) Cons by auto
    have step: "deps_loop found rec todo seen deps = deps_loop found rec ?todo ?seen (deps @ ?inc)"
      using Cons by (subst deps_loop.simps) (simp add: Let_def)
    have "set (if inc = [] then [] else rec inc) = set inc" for inc by (simp add: rec)
    then have st: "set ?todo = set ns \<union> set ?inc" by (simp only: set_append)
    have sU: "?seen \<subseteq> U" using 1(3) assms(2) [OF n(2)] by auto
    have dec: "((card (U - ?seen), length ?todo), card (U - seen), length todo) \<in> less_than <*lex*> less_than"
    proof (cases "?inc = []")
      case True
      then show ?thesis using Cons by simp
    next
      case False
      then have "U - ?seen \<subset> U - seen" using sU by (cases ?inc) (auto simp: filter_eq_Cons_iff)
      then have "card (U - ?seen) < card (U - seen)"
        using assms(1) by (intro psubset_card_mono) auto
      then show ?thesis by simp
    qed
    have "\<exists>ds. deps_loop found rec ?todo ?seen (deps @ ?inc) = Some ds \<and> r \<notin> set ds \<and>
      insert r (set ds) = (inc_rel found)\<^sup>* `` {r}"
    proof (rule 1(1) [OF dec _ sU])
      show "set ?todo \<subseteq> ?seen" using 1(2) Cons st by auto
      show "?seen = insert r (set (deps @ ?inc))" using 1(4) by auto
      show "r \<notin> set (deps @ ?inc)" using 1(4,7) by auto
      show "(r, x) \<in> (inc_rel found)\<^sup>*" if "x \<in> ?seen" for x
      proof (cases "x \<in> seen")
        case False
        then have "(n, x) \<in> inc_rel found" using that by (auto simp: inc_rel_def)
        then show ?thesis using 1(5) [OF n(1)] by (rule rtrancl_into_rtrancl [rotated])
      qed (use 1(5) in blast)
      show "set (found x) \<subseteq> ?seen" if x: "x \<in> ?seen - set ?todo" for x
      proof (cases "x = n")
        case False
        then have "x \<in> seen - set todo" using x st Cons by auto
        then show ?thesis using 1(6) by blast
      qed auto
    qed
    then show ?thesis using step by simp
  qed
qed

lemma get_implicit_deps_reachable:
  assumes "finite U" and "r \<in> U" and "\<And>n. n \<in> U \<Longrightarrow> set (found n) \<subseteq> U"
    and "\<And>xs. set (rec xs) = set xs"
  shows "\<exists>ds. get_implicit_deps_walk found rec r = Some ds \<and>
    set ds = (inc_rel found)\<^sup>* `` {r} - {r}"
proof -
  have "\<exists>ds. deps_loop found rec [r] {r} [] = Some ds \<and> r \<notin> set ds \<and>
      insert r (set ds) = (inc_rel found)\<^sup>* `` {r}"
    by (rule deps_loop_result [OF assms(1,3,4,2)]) (use assms(2) in simp_all)
  then obtain ds where d: "deps_loop found rec [r] {r} [] = Some ds" "r \<notin> set ds"
    "insert r (set ds) = (inc_rel found)\<^sup>* `` {r}" by blast
  then have "set ds = (inc_rel found)\<^sup>* `` {r} - {r}" by blast
  then show ?thesis using d(1) unfolding get_implicit_deps_walk_def by blast
qed

section \<open>The Walker\<close>

text \<open>
  The stack has the current node first, each node with the kids it still has to visit
  (\<open>wkids\<close>); \<open>history\<close> holds the nodes of the stack. \<open>walk_cycles\<close> collects the
  calls of \<open>cycle_func\<close>, which is given the node and the stack.
\<close>

record 'n walker =
  walk_stack :: "('n \<times> 'n list) list"
  walk_history :: "'n set"
  walk_cycles :: "('n \<times> 'n list) list"

definition walker_init :: "('n \<Rightarrow> 'n list) \<Rightarrow> 'n \<Rightarrow> 'n walker" where
  "walker_init kids n =
     \<lparr>walk_stack = [(n, kids n)], walk_history = {n}, walk_cycles = []\<rparr>"

partial_function (option) get_next ::
  "('n \<Rightarrow> 'n list) \<Rightarrow> 'n walker \<Rightarrow> ('n option \<times> 'n walker) option" where
  "get_next kids w =
     (case walk_stack w of
        [] \<Rightarrow> Some (None, w)
      | (t, []) # st \<Rightarrow>
          Some (Some t, w\<lparr>walk_stack := st, walk_history := walk_history w - {t}\<rparr>)
      | (t, k # ks) # st \<Rightarrow>
          if k \<in> walk_history w
          then get_next kids (w\<lparr>walk_stack := (t, ks) # st,
                                walk_cycles := walk_cycles w @ [(k, t # map fst st)]\<rparr>)
          else get_next kids (w\<lparr>walk_stack := (k, kids k) # (t, ks) # st,
                                walk_history := insert k (walk_history w)\<rparr>))"

declare get_next.simps [code]

definition is_done :: "'n walker \<Rightarrow> bool" where
  "is_done w \<longleftrightarrow> walk_stack w = []"

text \<open>All nodes a client gets by calling \<open>get_next\<close> until it returns nothing.\<close>

partial_function (option) walk_all :: "('n \<Rightarrow> 'n list) \<Rightarrow> 'n walker \<Rightarrow> 'n list \<Rightarrow> 'n list option" where
  "walk_all kids w acc =
     (case get_next kids w of
        None \<Rightarrow> None
      | Some (None, w') \<Rightarrow> Some acc
      | Some (Some n, w') \<Rightarrow> walk_all kids w' (acc @ [n]))"

declare walk_all.simps [code]

text \<open>Post-order of an acyclic graph; the depth bounds the recursion.\<close>

fun post :: "('n \<Rightarrow> 'n list) \<Rightarrow> nat \<Rightarrow> 'n \<Rightarrow> 'n list" where
  "post kids 0 n = [n]"
| "post kids (Suc d) n = concat (map (post kids d) (kids n)) @ [n]"

lemma post_same:
  assumes "\<And>n k. k \<in> set (kids n) \<Longrightarrow> rank k < rank n"
  shows "rank n \<le> d \<Longrightarrow> rank n \<le> d' \<Longrightarrow> post kids d n = post kids d' n"
proof (induction d arbitrary: n d')
  case 0
  have "kids n = []" using assms [of _ n] 0 by (cases "kids n") auto
  then show ?case by (cases d') auto
next
  case (Suc d)
  show ?case
  proof (cases d')
    case 0
    have "kids n = []" using assms [of _ n] 0 Suc.prems by (cases "kids n") auto
    then show ?thesis using 0 by simp
  next
    case (Suc e)
    have "post kids d k = post kids e k" if k: "k \<in> set (kids n)" for k
      by (rule Suc.IH) (use assms [OF k] Suc.prems Suc in auto)
    then have "map (post kids d) (kids n) = map (post kids e) (kids n)" by simp
    then show ?thesis unfolding Suc by (simp only: post.simps)
  qed
qed

lemma walk_all_cong: "get_next kids w = get_next kids w' \<Longrightarrow> walk_all kids w acc = walk_all kids w' acc"
  by (simp add: walk_all.simps [of kids w] walk_all.simps [of kids w'])

lemma walk_push:
  "walk_stack w = (t, k # ks) # st \<Longrightarrow> k \<notin> walk_history w \<Longrightarrow>
     walk_all kids w acc = walk_all kids (w\<lparr>walk_stack := (k, kids k) # (t, ks) # st,
       walk_history := insert k (walk_history w)\<rparr>) acc"
  by (rule walk_all_cong, subst get_next.simps) simp

lemma walk_pop:
  "walk_stack w = (t, []) # st \<Longrightarrow>
     walk_all kids w acc = walk_all kids (w\<lparr>walk_stack := st, walk_history := walk_history w - {t}\<rparr>) (acc @ [t])"
  by (subst walk_all.simps) (simp add: get_next.simps)

lemma walk_subtree:
  assumes rank: "\<And>n k. k \<in> set (kids n) \<Longrightarrow> rank k < rank n"
  shows "walk_stack w = (n, ks) # st \<Longrightarrow> walk_history w = insert n (fst ` set st) \<Longrightarrow>
    (\<And>k. k \<in> set ks \<Longrightarrow> rank k < rank n) \<Longrightarrow> (\<And>m. m \<in> fst ` set st \<Longrightarrow> rank n < rank m) \<Longrightarrow>
    walk_all kids w acc = walk_all kids (w\<lparr>walk_stack := st, walk_history := fst ` set st\<rparr>)
      (acc @ concat (map (post kids (rank n)) ks) @ [n])"
proof (induction "rank n" arbitrary: n ks st w acc rule: less_induct)
  case less
  note outer = less.hyps
  show ?case
    using less.prems
  proof (induction ks arbitrary: w acc)
    case Nil
    have "insert n (fst ` set st) - {n} = fst ` set st" using Nil(4) by fastforce
    then show ?case using walk_pop [OF Nil(1), of kids acc] Nil(2) by simp
  next
    case (Cons k ks)
    have kn: "rank k < rank n" using Cons.prems(3) by simp
    have new: "k \<notin> walk_history w" using Cons.prems(2,4) kn by fastforce
    let ?w1 = "w\<lparr>walk_stack := (k, kids k) # (n, ks) # st, walk_history := insert k (walk_history w)\<rparr>"
    let ?w2 = "w\<lparr>walk_stack := (n, ks) # st, walk_history := insert n (fst ` set st)\<rparr>"
    have "walk_all kids ?w1 acc = walk_all kids (?w1\<lparr>walk_stack := (n, ks) # st,
        walk_history := fst ` set ((n, ks) # st)\<rparr>)
        (acc @ concat (map (post kids (rank k)) (kids k)) @ [k])"
      by (rule outer [OF kn]) (use Cons.prems(2,4) rank kn in \<open>auto intro: less_trans\<close>)
    then have "walk_all kids w acc = walk_all kids ?w2 (acc @ post kids (Suc (rank k)) k)"
      using walk_push [OF Cons.prems(1) new, of kids acc] by simp
    also have "post kids (Suc (rank k)) k = post kids (rank n) k"
      by (rule post_same [OF rank]) (use kn in auto)
    also have "walk_all kids ?w2 (acc @ post kids (rank n) k) =
        walk_all kids (?w2\<lparr>walk_stack := st, walk_history := fst ` set st\<rparr>)
          ((acc @ post kids (rank n) k) @ concat (map (post kids (rank n)) ks) @ [n])"
      by (rule Cons.IH) (use Cons.prems in auto)
    finally show ?case by simp
  qed
qed

lemma walker_post_order:
  assumes "\<And>n k. k \<in> set (kids n) \<Longrightarrow> rank k < rank n"
  shows "walk_all kids (walker_init kids n) [] = Some (post kids (rank n) n)"
proof -
  have "walk_all kids (walker_init kids n) [] =
      walk_all kids ((walker_init kids n)\<lparr>walk_stack := [], walk_history := {}\<rparr>)
        (concat (map (post kids (rank n)) (kids n)) @ [n])"
    using walk_subtree [where kids = kids and rank = rank and w = "walker_init kids n" and n = n
        and ks = "kids n" and st = "[]" and acc = "[]", OF assms]
    by (simp add: walker_init_def assms)
  also have "\<dots> = Some (concat (map (post kids (rank n)) (kids n)) @ [n])"
    by (subst walk_all.simps) (simp add: get_next.simps)
  also have "concat (map (post kids (rank n)) (kids n)) @ [n] = post kids (Suc (rank n)) n" by simp
  also have "\<dots> = post kids (rank n) n" by (rule post_same [OF assms]) auto
  finally show ?thesis .
qed

text \<open>Every call is answered: a call visits a kid that is on no stack, or drops one.\<close>

lemma get_next_returns:
  assumes "finite U" and "\<And>n. n \<in> U \<Longrightarrow> set (kids n) \<subseteq> U"
  shows "walk_history w = fst ` set (walk_stack w) \<Longrightarrow> walk_history w \<subseteq> U \<Longrightarrow>
    (\<And>t ks. (t, ks) \<in> set (walk_stack w) \<Longrightarrow> set ks \<subseteq> U) \<Longrightarrow> \<exists>r. get_next kids w = Some r"
proof (induction "(card (U - walk_history w), length (concat (map snd (walk_stack w))))" arbitrary: w
    rule: wf_induct_rule [OF wf_lex_prod [OF wf_less_than wf_less_than]])
  case (1 w)
  show ?case
  proof (cases "walk_stack w")
    case Nil
    then show ?thesis by (subst get_next.simps) simp
  next
    case (Cons f st)
    obtain t ks where f: "f = (t, ks)" by fastforce
    show ?thesis
    proof (cases ks)
      case Nil
      then show ?thesis using Cons f by (subst get_next.simps) simp
    next
      case (Cons k ks')
      note w = \<open>walk_stack w = f # st\<close> f Cons
      have tU: "set ks \<subseteq> U" using 1(4) [of t ks] w by simp
      show ?thesis
      proof (cases "k \<in> walk_history w")
        case True
        let ?w = "w\<lparr>walk_stack := (t, ks') # st, walk_cycles := walk_cycles w @ [(k, t # map fst st)]\<rparr>"
        have "\<exists>r. get_next kids ?w = Some r"
          by (rule 1(1)) (use 1(2,3,4) w tU in \<open>auto dest: subsetD\<close>)
        then show ?thesis using True w by (subst get_next.simps) simp
      next
        case False
        let ?w = "w\<lparr>walk_stack := (k, kids k) # (t, ks') # st, walk_history := insert k (walk_history w)\<rparr>"
        have kU: "k \<in> U" using tU w by simp
        have "U - insert k (walk_history w) \<subset> U - walk_history w" using kU False by blast
        then have "card (U - insert k (walk_history w)) < card (U - walk_history w)"
          using assms(1) by (intro psubset_card_mono) auto
        then have "\<exists>r. get_next kids ?w = Some r"
          by (intro 1(1)) (use 1(2,3,4) w tU kU assms(2) [OF kU] in \<open>auto dest: subsetD\<close>)
        then show ?thesis using False w by (subst get_next.simps) simp
      qed
    qed
  qed
qed

section \<open>Properties\<close>

text \<open>
  The search for implicit dependencies ends, also when files include each other in a circle,
  and finds exactly the nodes that the node reaches by one or more inclusions, itself left
  out.
\<close>

theorem implicit_deps_are_reachable:
  assumes "finite U" and "r \<in> U" and "\<And>n. n \<in> U \<Longrightarrow> set (found n) \<subseteq> U"
    and "\<And>xs. set (rec xs) = set xs"
  shows "\<exists>ds. get_implicit_deps_walk found rec r = Some ds \<and>
    set ds = (inc_rel found)\<^sup>* `` {r} - {r}"
  using assms by (rule get_implicit_deps_reachable)

definition small_includes :: "nat \<Rightarrow> nat list" where
  "small_includes n = (if n = 1 then [2, 3] else if n = 2 then [1] else [])"

theorem implicit_deps_are_reachable_witness:
  "get_implicit_deps_walk small_includes rev 1 = Some [2, 3] \<and>
   {2, 3} = (inc_rel small_includes)\<^sup>* `` {1} - {1}"
proof -
  have small: "set (small_includes n) \<subseteq> {1, 2, 3}" for n by (auto simp: small_includes_def)
  have "get_implicit_deps_walk small_includes rev 1 = Some [2, 3]" by code_simp
  moreover have "\<exists>ds. get_implicit_deps_walk small_includes rev 1 = Some ds \<and>
    set ds = (inc_rel small_includes)\<^sup>* `` {1} - {1}"
    by (rule implicit_deps_are_reachable [where U = "{1, 2, 3}"]) (use small in simp_all)
  ultimately show ?thesis by simp
qed

text \<open>
  The \<open>Walker\<close> visits an acyclic graph in post-order: calling \<open>get_next\<close> until it returns
  nothing gives, for every node, all the nodes below it before the node itself.
\<close>

theorem walker_is_post_order:
  assumes "\<And>n k. k \<in> set (kids n) \<Longrightarrow> rank k < rank n"
  shows "walk_all kids (walker_init kids n) [] = Some (post kids (rank n) n)"
  using assms by (rule walker_post_order)

theorem walker_is_post_order_witness:
  "walk_all (\<lambda>n. if n = 0 then [] else [n - 1]) (walker_init (\<lambda>n. if n = 0 then [] else [n - 1]) 2) [] =
     Some (post (\<lambda>n. if n = 0 then [] else [n - 1 :: nat]) 2 2)"
  by (rule walker_is_post_order [of "\<lambda>n. if n = 0 then [] else [n - 1]" "\<lambda>n. n"]) (auto split: if_splits)

end
