(* ===== verification/NodeCore.thy ===== *)
theory NodeCore
  imports UniqueList
begin

text \<open>
  \<open>SCons/Node/__init__.py\<close>, the node itself: its states, the child lists with
  their companion sets, the flags, and the fields the Taskmaster keeps on it. Nodes
  refer to each other, so they live in a heap indexed by node numbers, next to the
  executors (\<open>SCons/Executor.py\<close>), which several nodes can share. What an
  operation asks of the file system is a \<open>hooks\<close> parameter; what it does to it
  is appended to the \<open>events\<close> of the heap.
\<close>

section \<open>States\<close>

datatype nstate = NO_STATE | PENDING | EXECUTING | UP_TO_DATE | EXECUTED | FAILED

text \<open>The code's numbers, which give the order the code compares states with.\<close>

fun state_num :: "nstate \<Rightarrow> nat" where
  "state_num NO_STATE = 0"
| "state_num PENDING = 1"
| "state_num EXECUTING = 2"
| "state_num UP_TO_DATE = 3"
| "state_num EXECUTED = 4"
| "state_num FAILED = 5"

instantiation nstate :: linorder
begin

definition less_eq_nstate :: "nstate \<Rightarrow> nstate \<Rightarrow> bool" where
  "less_eq_nstate a b \<longleftrightarrow> state_num a \<le> state_num b"

definition less_nstate :: "nstate \<Rightarrow> nstate \<Rightarrow> bool" where
  "less_nstate a b \<longleftrightarrow> state_num a < state_num b"

instance
proof
  fix a b :: nstate
  show "a \<le> b \<Longrightarrow> b \<le> a \<Longrightarrow> a = b"
    by (cases a; cases b) (auto simp: less_eq_nstate_def)
qed (auto simp: less_eq_nstate_def less_nstate_def)

end

lemmas nstate_order = less_eq_nstate_def less_nstate_def

definition StateString :: "nstate \<Rightarrow> string" where
  "StateString s = (case s of NO_STATE \<Rightarrow> ''no_state'' | PENDING \<Rightarrow> ''pending''
     | EXECUTING \<Rightarrow> ''executing'' | UP_TO_DATE \<Rightarrow> ''up_to_date''
     | EXECUTED \<Rightarrow> ''executed'' | FAILED \<Rightarrow> ''failed'')"

section \<open>Nodes, executors and the heap\<close>

type_synonym nid = nat
type_synonym eid = nat

record node =
  state_of :: nstate
  sources :: "nid list"
  sources_set :: "nid set"
  depends :: "nid list"
  depends_set :: "nid set"
  ignore :: "nid list"
  ignore_set :: "nid set"
  specific_sources :: bool
  prerequisites :: "nid ulist option"
  implicit :: "nid list option"
  implicit_set :: "nid set"
  waiting_parents :: "nid set"
  waiting_s_e :: "nid set"
  ref_count :: int
  side_effects :: "nid list"
  side_effect :: bool
  has_builder :: bool
  always_build :: bool
  linked :: bool
  pseudo :: bool
  cached :: bool
  precious :: bool
  noclean :: bool
  nocache :: bool
  children_memo :: "nid list option"
  executor_of :: "eid option"
  has_binfo :: bool

text \<open>\<open>Node.__init__\<close>; a node gets a builder later, or is created without one.\<close>

definition init_node :: node where
  "init_node = \<lparr>state_of = NO_STATE, sources = [], sources_set = {}, depends = [],
     depends_set = {}, ignore = [], ignore_set = {}, specific_sources = False,
     prerequisites = None, implicit = None, implicit_set = {}, waiting_parents = {},
     waiting_s_e = {}, ref_count = 0, side_effects = [], side_effect = False,
     has_builder = False, always_build = False, linked = False, pseudo = False,
     cached = False, precious = False, noclean = False, nocache = False,
     children_memo = None, executor_of = None, has_binfo = False\<rparr>"

text \<open>
  The targets an action names with \<open>Action.get_targets\<close>: the string is a key of
  \<open>Executor.get_lvars\<close>.
\<close>

datatype lvar_list = TARGETS | CHANGED_TARGETS | UNCHANGED_TARGETS
  | SOURCES | CHANGED_SOURCES | UNCHANGED_SOURCES

record action =
  act_id :: nat
  act_targets :: lvar_list

record batch =
  b_targets :: "nid list"
  b_sources :: "nid list"

record changes =
  ch_changed_sources :: "nid list"
  ch_changed_targets :: "nid list"
  ch_unchanged_sources :: "nid list"
  ch_unchanged_targets :: "nid list"

record executor =
  is_null :: bool
  pre_actions :: "action list"
  action_list :: "action list"
  post_actions :: "action list"
  batches :: "batch list"
  do_execute :: bool
  changes_memo :: "changes option"
  unignored_memo :: "(nid option \<times> nid list) \<rightharpoonup> nid list"

datatype event =
    EvPrepare nid | EvBuild nid | EvRetrieve nid | EvUnlink nid | EvPush nid
  | EvVisited nid | EvRelease nid | EvStoreInfo nid | EvAction nat "nid list"

record heap =
  nodes :: "nid \<Rightarrow> node"
  execs :: "eid \<Rightarrow> executor"
  next_eid :: eid
  events :: "event list"

definition upd_node :: "nid \<Rightarrow> (node \<Rightarrow> node) \<Rightarrow> heap \<Rightarrow> heap" where
  "upd_node n f h = h\<lparr>nodes := (nodes h)(n := f (nodes h n))\<rparr>"

definition upd_exec :: "eid \<Rightarrow> (executor \<Rightarrow> executor) \<Rightarrow> heap \<Rightarrow> heap" where
  "upd_exec e f h = h\<lparr>execs := (execs h)(e := f (execs h e))\<rparr>"

definition emit :: "event \<Rightarrow> heap \<Rightarrow> heap" where
  "emit ev h = h\<lparr>events := events h @ [ev]\<rparr>"

named_theorems heap_simps \<open>reading the heap after an update\<close>

lemma upd_node_nodes [simp, heap_simps]:
  "nodes (upd_node n f h) m = (if m = n then f (nodes h n) else nodes h m)"
  by (simp add: upd_node_def)

lemma upd_node_rest [simp, heap_simps]:
  "execs (upd_node n f h) = execs h" "next_eid (upd_node n f h) = next_eid h"
  "events (upd_node n f h) = events h"
  by (simp_all add: upd_node_def)

lemma upd_exec_execs [simp, heap_simps]:
  "execs (upd_exec e f h) x = (if x = e then f (execs h e) else execs h x)"
  by (simp add: upd_exec_def)

lemma upd_exec_rest [simp, heap_simps]:
  "nodes (upd_exec e f h) = nodes h" "next_eid (upd_exec e f h) = next_eid h"
  "events (upd_exec e f h) = events h"
  by (simp_all add: upd_exec_def)

lemma emit_rest [simp, heap_simps]:
  "nodes (emit ev h) = nodes h" "execs (emit ev h) = execs h"
  "next_eid (emit ev h) = next_eid h" "events (emit ev h) = events h @ [ev]"
  by (simp_all add: emit_def)

section \<open>Exceptions and hooks\<close>

datatype exn =
    UserError string
  | StopError string
  | BuildError nid string
  | ExplicitExit nid int
  | SystemExit int
  | EnvironmentError string string
  | OtherError string

text \<open>
  What the model asks of the code it does not cover: the subclasses' up-to-date test
  and existence tests (\<open>SCons/Node/FS.py\<close>), the scanners, the cache directory, the
  actions of an executor and the command-line switches.
\<close>

record hooks =
  hk_up_to_date :: "heap \<Rightarrow> nid \<Rightarrow> exn + bool"
  hk_implicit_deps :: "bool \<Rightarrow> nid \<Rightarrow> exn + nid list"
  hk_action_deps :: "nat \<Rightarrow> nid list"
  hk_has_target_scanner :: "nid \<Rightarrow> bool"
  hk_stored_implicit :: "nid \<Rightarrow> nid list option"
  hk_implicit_cache :: bool
  hk_implicit_deps_changed :: bool
  hk_implicit_deps_unchanged :: bool
  hk_exists :: "heap \<Rightarrow> nid \<Rightarrow> bool"
  hk_rexists :: "heap \<Rightarrow> nid \<Rightarrow> bool"
  hk_retrieve :: "heap \<Rightarrow> nid \<Rightarrow> exn + bool"
  hk_run_action :: "heap \<Rightarrow> nat \<Rightarrow> nid list \<Rightarrow> exn + int"
  hk_alter_targets :: "nid \<Rightarrow> nid list \<times> string option"
  hk_name :: "nid \<Rightarrow> string"
  hk_builder_action :: "nid \<Rightarrow> action list"

section \<open>Child lists\<close>

text \<open>
  \<open>_children_reset\<close>: forget the memoized children; \<open>executor_cleanup\<close> empties
  the memo of the executor when there is one.
\<close>

definition executor_cleanup :: "nid \<Rightarrow> heap \<Rightarrow> heap" where
  "executor_cleanup n h =
     (case executor_of (nodes h n) of
        None \<Rightarrow> h
      | Some e \<Rightarrow>
          if is_null (execs h e) then h
          else upd_exec e (\<lambda>x. x\<lparr>unignored_memo := (\<lambda>_. None)\<rparr>) h)"

definition clear_memoized_values :: "nid \<Rightarrow> heap \<Rightarrow> heap" where
  "clear_memoized_values n h = upd_node n (\<lambda>x. x\<lparr>children_memo := None\<rparr>) h"

definition children_reset :: "nid \<Rightarrow> heap \<Rightarrow> heap" where
  "children_reset n h = executor_cleanup n (clear_memoized_values n h)"

text \<open>\<open>_add_child(collection, set, child)\<close>, and whether anything was added.\<close>

fun add_child_loop :: "nid list \<Rightarrow> nid set \<Rightarrow> nid list \<Rightarrow> nid list \<times> nid set \<times> bool" where
  "add_child_loop coll seen [] = (coll, seen, False)"
| "add_child_loop coll seen (c # cs) =
     (if c \<notin> seen then
        (let (coll', seen', _) = add_child_loop (coll @ [c]) (insert c seen) cs
         in (coll', seen', True))
      else add_child_loop coll seen cs)"

definition add_source :: "nid \<Rightarrow> nid list \<Rightarrow> heap \<Rightarrow> heap" where
  "add_source n source h =
     (if specific_sources (nodes h n) then h
      else (let (c, s, added) = add_child_loop (sources (nodes h n)) (sources_set (nodes h n)) source;
                h' = upd_node n (\<lambda>x. x\<lparr>sources := c, sources_set := s\<rparr>) h
            in if added then children_reset n h' else h'))"

definition set_specific_source :: "nid \<Rightarrow> nid list \<Rightarrow> heap \<Rightarrow> heap" where
  "set_specific_source n source h =
     upd_node n (\<lambda>x. x\<lparr>specific_sources := True\<rparr>) (add_source n source h)"

definition add_dependency :: "nid \<Rightarrow> nid list \<Rightarrow> heap \<Rightarrow> heap" where
  "add_dependency n depend h =
     (let (c, s, added) = add_child_loop (depends (nodes h n)) (depends_set (nodes h n)) depend;
          h' = upd_node n (\<lambda>x. x\<lparr>depends := c, depends_set := s\<rparr>) h
      in if added then children_reset n h' else h')"

definition add_ignore :: "nid \<Rightarrow> nid list \<Rightarrow> heap \<Rightarrow> heap" where
  "add_ignore n depend h =
     (let (c, s, added) = add_child_loop (ignore (nodes h n)) (ignore_set (nodes h n)) depend;
          h' = upd_node n (\<lambda>x. x\<lparr>ignore := c, ignore_set := s\<rparr>) h
      in if added then children_reset n h' else h')"

definition add_prerequisite :: "nid \<Rightarrow> nid list \<Rightarrow> heap \<Rightarrow> heap" where
  "add_prerequisite n prerequisite h =
     (let u = (case prerequisites (nodes h n) of None \<Rightarrow> ul_init [] | Some u \<Rightarrow> u)
      in children_reset n (upd_node n (\<lambda>x. x\<lparr>prerequisites := Some (ul_extend u prerequisite)\<rparr>) h))"

definition add_to_implicit :: "nid \<Rightarrow> nid list \<Rightarrow> heap \<Rightarrow> heap" where
  "add_to_implicit n deps h =
     (let h1 = (if implicit (nodes h n) = None
                then children_reset n (upd_node n (\<lambda>x. x\<lparr>implicit := Some [], implicit_set := {}\<rparr>) h)
                else h);
          coll = (case implicit (nodes h1 n) of None \<Rightarrow> [] | Some xs \<Rightarrow> xs);
          (c, s, added) = add_child_loop coll (implicit_set (nodes h1 n)) deps;
          h2 = upd_node n (\<lambda>x. x\<lparr>implicit := Some c, implicit_set := s\<rparr>) h1
      in if added then children_reset n h2 else h2)"

text \<open>
  \<open>all_children(scan=0)\<close> and \<open>_children_get\<close>, whose result is memoized.
\<close>

definition raw_children :: "node \<Rightarrow> nid list" where
  "raw_children x =
     sources x @ depends x @ (case implicit x of None \<Rightarrow> [] | Some xs \<Rightarrow> xs)"

definition pure_children :: "node \<Rightarrow> nid list" where
  "pure_children x =
     (if ignore_set x \<noteq> {} then filter (\<lambda>i. i \<notin> ignore_set x) (raw_children x)
      else raw_children x)"

definition children_get :: "nid \<Rightarrow> heap \<Rightarrow> nid list \<times> heap" where
  "children_get n h =
     (case children_memo (nodes h n) of
        Some cs \<Rightarrow> (cs, h)
      | None \<Rightarrow>
          (let cs = pure_children (nodes h n)
           in (cs, upd_node n (\<lambda>x. x\<lparr>children_memo := Some cs\<rparr>) h)))"

section \<open>Flags\<close>

definition set_state :: "nid \<Rightarrow> nstate \<Rightarrow> heap \<Rightarrow> heap" where
  "set_state n s h = upd_node n (\<lambda>x. x\<lparr>state_of := s\<rparr>) h"

definition get_state :: "nid \<Rightarrow> heap \<Rightarrow> nstate" where
  "get_state n h = state_of (nodes h n)"

definition set_precious :: "nid \<Rightarrow> bool \<Rightarrow> heap \<Rightarrow> heap" where
  "set_precious n b h = upd_node n (\<lambda>x. x\<lparr>precious := b\<rparr>) h"

definition set_pseudo :: "nid \<Rightarrow> bool \<Rightarrow> heap \<Rightarrow> heap" where
  "set_pseudo n b h = upd_node n (\<lambda>x. x\<lparr>pseudo := b\<rparr>) h"

definition set_noclean :: "nid \<Rightarrow> bool \<Rightarrow> heap \<Rightarrow> heap" where
  "set_noclean n b h = upd_node n (\<lambda>x. x\<lparr>noclean := b\<rparr>) h"

definition set_nocache :: "nid \<Rightarrow> bool \<Rightarrow> heap \<Rightarrow> heap" where
  "set_nocache n b h = upd_node n (\<lambda>x. x\<lparr>nocache := b\<rparr>) h"

definition set_always_build :: "nid \<Rightarrow> bool \<Rightarrow> heap \<Rightarrow> heap" where
  "set_always_build n b h = upd_node n (\<lambda>x. x\<lparr>always_build := b\<rparr>) h"

definition is_derived :: "nid \<Rightarrow> heap \<Rightarrow> bool" where
  "is_derived n h \<longleftrightarrow> has_builder (nodes h n) \<or> side_effect (nodes h n)"

definition missing :: "hooks \<Rightarrow> nid \<Rightarrow> heap \<Rightarrow> bool" where
  "missing hk n h \<longleftrightarrow> \<not> is_derived n h \<and> \<not> linked (nodes h n) \<and> \<not> hk_rexists hk h n"

definition add_to_waiting_s_e :: "nid \<Rightarrow> nid \<Rightarrow> heap \<Rightarrow> heap" where
  "add_to_waiting_s_e s n h = upd_node s (\<lambda>x. x\<lparr>waiting_s_e := insert n (waiting_s_e x)\<rparr>) h"

definition add_to_waiting_parents :: "nid \<Rightarrow> nid \<Rightarrow> heap \<Rightarrow> int \<times> heap" where
  "add_to_waiting_parents c n h =
     (if n \<in> waiting_parents (nodes h c) then (0, h)
      else (1, upd_node c (\<lambda>x. x\<lparr>waiting_parents := insert n (waiting_parents x)\<rparr>) h))"

definition builder_set :: "nid \<Rightarrow> bool \<Rightarrow> heap \<Rightarrow> heap" where
  "builder_set n b h = upd_node n (\<lambda>x. x\<lparr>has_builder := b, executor_of := None\<rparr>) h"

definition node_postprocess :: "nid \<Rightarrow> heap \<Rightarrow> heap" where
  "node_postprocess n h = upd_node n (\<lambda>x. x\<lparr>waiting_parents := {}\<rparr>) (executor_cleanup n h)"

section \<open>The child-list invariant\<close>

text \<open>
  Each list agrees with its set and has no repetition; for a scanned node a memoized
  child list is the one that would be computed. (\<open>built\<close> sets \<open>implicit\<close> of the
  waiting parents back to \<open>None\<close> and leaves the memo; the next scan resets it.)
\<close>

definition lists_wf :: "node \<Rightarrow> bool" where
  "lists_wf x \<longleftrightarrow>
     distinct (sources x) \<and> sources_set x = set (sources x) \<and>
     distinct (depends x) \<and> depends_set x = set (depends x) \<and>
     distinct (ignore x) \<and> ignore_set x = set (ignore x) \<and>
     (\<forall>xs. implicit x = Some xs \<longrightarrow> distinct xs \<and> implicit_set x = set xs)"

definition node_wf :: "node \<Rightarrow> bool" where
  "node_wf x \<longleftrightarrow> lists_wf x \<and>
     (\<forall>cs. implicit x \<noteq> None \<and> children_memo x = Some cs \<longrightarrow> cs = pure_children x)"

definition heap_wf :: "heap \<Rightarrow> bool" where
  "heap_wf h \<longleftrightarrow> (\<forall>n. node_wf (nodes h n))"

lemma add_child_loop_eq:
  "add_child_loop coll seen cs =
     (coll @ dedup_by (\<lambda>x. x) seen cs, seen \<union> set cs, dedup_by (\<lambda>x. x) seen cs \<noteq> [])"
  by (induction cs arbitrary: coll seen) (auto simp: insert_absorb)

lemma add_child_keeps:
  assumes "distinct coll" and "seen = set coll"
  shows "distinct (coll @ dedup_by (\<lambda>x. x) seen cs)" and
    "seen \<union> set cs = set (coll @ dedup_by (\<lambda>x. x) seen cs)"
proof -
  have s: "set (dedup_by (\<lambda>x. x) seen cs) = set cs - seen"
    using key_set_dedup_by [of "\<lambda>x. x" seen cs] by simp
  have "distinct (dedup_by (\<lambda>x. x) seen cs)"
    using distinct_key_dedup_by [of "\<lambda>x. x" seen cs] by simp
  then show "distinct (coll @ dedup_by (\<lambda>x. x) seen cs)" using s assms by auto
  show "seen \<union> set cs = set (coll @ dedup_by (\<lambda>x. x) seen cs)" using s assms by auto
qed

lemma executor_cleanup_nodes [simp, heap_simps]:
  "nodes (executor_cleanup n h) = nodes h" "events (executor_cleanup n h) = events h"
  "next_eid (executor_cleanup n h) = next_eid h"
  by (auto simp: executor_cleanup_def split: option.splits)

lemma children_reset_nodes [simp, heap_simps]:
  "nodes (children_reset n h) m =
     (if m = n then (nodes h n)\<lparr>children_memo := None\<rparr> else nodes h m)"
  "events (children_reset n h) = events h" "next_eid (children_reset n h) = next_eid h"
  by (simp_all add: children_reset_def clear_memoized_values_def)

lemma pure_children_memo [simp]:
  "pure_children (x\<lparr>children_memo := m\<rparr>) = pure_children x"
  by (simp add: pure_children_def raw_children_def)

lemma lists_wf_memo [simp]: "lists_wf (x\<lparr>children_memo := m\<rparr>) = lists_wf x"
  by (simp add: lists_wf_def)

lemma children_get_result:
  "heap_wf h \<Longrightarrow> implicit (nodes h n) \<noteq> None \<Longrightarrow>
     fst (children_get n h) = pure_children (nodes h n)"
  by (auto simp: children_get_def heap_wf_def node_wf_def Let_def split: option.splits)

lemma children_get_wf: "heap_wf h \<Longrightarrow> heap_wf (snd (children_get n h))"
  by (auto simp: children_get_def heap_wf_def node_wf_def Let_def split: option.splits)

lemma dedup_by_Nil_set: "dedup_by (\<lambda>x. x) seen cs = [] \<Longrightarrow> set cs \<subseteq> seen"
  using key_set_dedup_by [of "\<lambda>x. x" seen cs] by auto

text \<open>The shape all adders share: store the new list and set, reset when something is new.\<close>

lemma adder_wf:
  assumes "heap_wf h" and "lists_wf (f (nodes h n))"
    and "\<not> added \<Longrightarrow> f (nodes h n) = nodes h n"
  shows "heap_wf (if added then children_reset n (upd_node n f h) else upd_node n f h)"
  using assms by (auto simp: heap_wf_def node_wf_def)

lemma add_source_wf:
  assumes "heap_wf h"
  shows "heap_wf (add_source n cs h)"
proof (cases "specific_sources (nodes h n)")
  case True
  then show ?thesis using assms by (simp add: add_source_def)
next
  case False
  let ?x = "nodes h n"
  have x: "lists_wf ?x" using assms by (simp add: heap_wf_def node_wf_def)
  note k = add_child_keeps [of "sources ?x" "sources_set ?x" cs]
  show ?thesis
    unfolding add_source_def Let_def add_child_loop_eq prod.case
    using False x k dedup_by_Nil_set [of "sources_set ?x" cs]
    by (simp only: if_False, intro adder_wf assms) (auto simp: lists_wf_def Un_absorb2)
qed

lemma add_dependency_wf:
  assumes "heap_wf h"
  shows "heap_wf (add_dependency n cs h)"
proof -
  let ?x = "nodes h n"
  have x: "lists_wf ?x" using assms by (simp add: heap_wf_def node_wf_def)
  note k = add_child_keeps [of "depends ?x" "depends_set ?x" cs]
  show ?thesis
    unfolding add_dependency_def Let_def add_child_loop_eq prod.case
    using x k dedup_by_Nil_set [of "depends_set ?x" cs]
    by (intro adder_wf assms) (auto simp: lists_wf_def Un_absorb2)
qed

lemma add_ignore_wf:
  assumes "heap_wf h"
  shows "heap_wf (add_ignore n cs h)"
proof -
  let ?x = "nodes h n"
  have x: "lists_wf ?x" using assms by (simp add: heap_wf_def node_wf_def)
  note k = add_child_keeps [of "ignore ?x" "ignore_set ?x" cs]
  show ?thesis
    unfolding add_ignore_def Let_def add_child_loop_eq prod.case
    using x k dedup_by_Nil_set [of "ignore_set ?x" cs]
    by (intro adder_wf assms) (auto simp: lists_wf_def Un_absorb2)
qed

lemma add_to_implicit_wf:
  assumes "heap_wf h"
  shows "heap_wf (add_to_implicit n cs h)"
proof -
  let ?h1 = "if implicit (nodes h n) = None
     then children_reset n (upd_node n (\<lambda>x. x\<lparr>implicit := Some [], implicit_set := {}\<rparr>) h) else h"
  have h1: "heap_wf ?h1"
    using assms by (auto simp: heap_wf_def node_wf_def lists_wf_def)
  let ?x = "nodes ?h1 n"
  have x: "lists_wf ?x" using h1 by (simp only: heap_wf_def node_wf_def)
  obtain xs where xs: "implicit ?x = Some xs" by (cases "implicit (nodes h n)") auto
  then have xs': "distinct xs" "implicit_set ?x = set xs" using x by (auto simp: lists_wf_def)
  note k = add_child_keeps [of xs "implicit_set ?x" cs]
  show ?thesis
    unfolding add_to_implicit_def Let_def add_child_loop_eq prod.case xs option.case
    using x k xs xs' dedup_by_Nil_set [of "implicit_set ?x" cs]
    by (intro adder_wf h1) (auto simp: lists_wf_def Un_absorb2)
qed

lemma add_prerequisite_wf: "heap_wf h \<Longrightarrow> heap_wf (add_prerequisite n cs h)"
  by (auto simp: add_prerequisite_def Let_def heap_wf_def node_wf_def lists_wf_def)

lemma init_node_wf: "node_wf init_node"
  by (simp add: node_wf_def lists_wf_def init_node_def)

section \<open>What scanning leaves alone\<close>

text \<open>
  The fields the Taskmaster works with. Scanning for children changes other fields
  only; \<open>same_walk\<close> says so.
\<close>

definition walk_part ::
  "node \<Rightarrow> nstate \<times> nid set \<times> nid set \<times> int \<times> nid list \<times> nid ulist option \<times> bool \<times> bool" where
  "walk_part x = (state_of x, waiting_parents x, waiting_s_e x, ref_count x, side_effects x,
     prerequisites x, has_builder x, always_build x)"

definition same_walk :: "heap \<Rightarrow> heap \<Rightarrow> bool" where
  "same_walk h h' \<longleftrightarrow> (\<forall>n. walk_part (nodes h' n) = walk_part (nodes h n))"

lemma same_walk_refl [simp]: "same_walk h h"
  by (simp add: same_walk_def)

lemma same_walk_trans: "same_walk h h1 \<Longrightarrow> same_walk h1 h2 \<Longrightarrow> same_walk h h2"
  by (simp add: same_walk_def)

lemma same_walkD:
  assumes "same_walk h h'"
  shows "state_of (nodes h' n) = state_of (nodes h n)"
    "waiting_parents (nodes h' n) = waiting_parents (nodes h n)"
    "waiting_s_e (nodes h' n) = waiting_s_e (nodes h n)"
    "ref_count (nodes h' n) = ref_count (nodes h n)"
    "side_effects (nodes h' n) = side_effects (nodes h n)"
    "prerequisites (nodes h' n) = prerequisites (nodes h n)"
    "has_builder (nodes h' n) = has_builder (nodes h n)"
    "always_build (nodes h' n) = always_build (nodes h n)"
  using assms by (auto simp: same_walk_def walk_part_def)

lemma same_walk_children_reset: "same_walk h (children_reset n h)"
  by (simp add: same_walk_def walk_part_def)

lemma same_walk_add_to_implicit: "same_walk h (add_to_implicit n cs h)"
  by (auto simp: same_walk_def walk_part_def add_to_implicit_def Let_def add_child_loop_eq)

lemma same_walk_children_get: "same_walk h (snd (children_get n h))"
  by (auto simp: same_walk_def walk_part_def children_get_def Let_def split: option.splits)

end
