(* ===== verification/Executor.thy ===== *)
theory Executor
  imports NodeCore Errors
begin

text \<open>
  \<open>SCons/Executor.py\<close> and the scanning half of \<open>SCons/Node/__init__.py\<close>: the
  association of an action list with batches of targets and sources, the \<open>Null\<close>
  executor of nodes without a builder, how a node gets its executor, scanning for
  implicit dependencies, and the unique child lists the Taskmaster walks. The lemmas
  show what scanning keeps (the child-list invariant, the Taskmaster's fields) and that
  the unique lists have the members they should.
\<close>

section \<open>Construction\<close>

definition exec_init :: "action list \<Rightarrow> nid list \<Rightarrow> nid list \<Rightarrow> executor" where
  "exec_init acts targets srcs =
     \<lparr>is_null = False, pre_actions = [], action_list = acts, post_actions = [],
      batches = (if targets \<noteq> [] \<or> srcs \<noteq> []
                 then [\<lparr>b_targets = targets, b_sources = srcs\<rparr>] else []),
      do_execute = True, changes_memo = None, unignored_memo = (\<lambda>_. None)\<rparr>"

definition null_init :: "nid list \<Rightarrow> executor" where
  "null_init targets =
     \<lparr>is_null = True, pre_actions = [], action_list = [], post_actions = [],
      batches = [\<lparr>b_targets = targets, b_sources = []\<rparr>],
      do_execute = True, changes_memo = None, unignored_memo = (\<lambda>_. None)\<rparr>"

text \<open>
  \<open>Node.get_executor\<close>: the stored executor, or a new one. Without a builder the
  attribute \<open>self.builder.action\<close> is missing and the executor is \<open>Null\<close>.
\<close>

definition get_executor :: "hooks \<Rightarrow> nid \<Rightarrow> heap \<Rightarrow> eid \<times> heap" where
  "get_executor hk n h =
     (case executor_of (nodes h n) of
        Some e \<Rightarrow> (e, h)
      | None \<Rightarrow>
          (let e = next_eid h;
               x = (if has_builder (nodes h n)
                    then exec_init (hk_builder_action hk n) [n] (sources (nodes h n))
                    else null_init [n])
           in (e, upd_node n (\<lambda>nd. nd\<lparr>executor_of := Some e\<rparr>)
                    (h\<lparr>execs := (execs h)(e := x), next_eid := Suc e\<rparr>))))"

definition set_executor :: "nid \<Rightarrow> eid \<Rightarrow> heap \<Rightarrow> heap" where
  "set_executor n e h = upd_node n (\<lambda>nd. nd\<lparr>executor_of := Some e\<rparr>) h"

definition reset_executor :: "nid \<Rightarrow> heap \<Rightarrow> heap" where
  "reset_executor n h = upd_node n (\<lambda>nd. nd\<lparr>executor_of := None\<rparr>) h"

section \<open>Targets, sources, actions\<close>

text \<open>
  \<open>Null.get_all_targets\<close> reads the first batch only, and \<open>Null.get_all_sources\<close>
  the sources of its first target.
\<close>

definition first_batch_targets :: "executor \<Rightarrow> nid list" where
  "first_batch_targets x = (case batches x of [] \<Rightarrow> [] | b # _ \<Rightarrow> b_targets b)"

definition get_all_targets :: "executor \<Rightarrow> nid list" where
  "get_all_targets x =
     (if is_null x then first_batch_targets x else concat (map b_targets (batches x)))"

definition get_all_sources :: "executor \<Rightarrow> heap \<Rightarrow> nid list" where
  "get_all_sources x h =
     (if is_null x
      then (case first_batch_targets x of [] \<Rightarrow> [] | t # _ \<Rightarrow> sources (nodes h t))
      else concat (map b_sources (batches x)))"

definition get_action_list :: "executor \<Rightarrow> action list" where
  "get_action_list x =
     (if is_null x then [] else pre_actions x @ action_list x @ post_actions x)"

definition add_pre_action :: "action \<Rightarrow> executor \<Rightarrow> executor" where
  "add_pre_action a x = x\<lparr>is_null := False, pre_actions := pre_actions x @ [a]\<rparr>"

definition add_post_action :: "action \<Rightarrow> executor \<Rightarrow> executor" where
  "add_post_action a x = x\<lparr>is_null := False, post_actions := post_actions x @ [a]\<rparr>"

text \<open>
  \<open>add_sources\<close> asserts that there is one batch. The list that filters the new
  sources is computed before any is added, so repetitions within \<open>srcs\<close> stay.
\<close>

definition add_sources :: "nid list \<Rightarrow> executor \<Rightarrow> executor option" where
  "add_sources srcs x =
     (case batches x of
        [b] \<Rightarrow> Some (x\<lparr>batches := [b\<lparr>b_sources :=
                 b_sources b @ filter (\<lambda>s. s \<notin> set (b_sources b)) srcs\<rparr>]\<rparr>)
      | _ \<Rightarrow> None)"

definition add_batch :: "nid list \<Rightarrow> nid list \<Rightarrow> executor \<Rightarrow> executor" where
  "add_batch targets srcs x =
     x\<lparr>batches := batches x @ [\<lparr>b_targets = targets, b_sources = srcs\<rparr>]\<rparr>"

definition nullify :: "executor \<Rightarrow> executor" where
  "nullify x = x\<lparr>unignored_memo := (\<lambda>_. None), do_execute := False\<rparr>"

section \<open>Scanning\<close>

text \<open>
  \<open>Executor.scan\<close>: the implicit dependencies of every node of the list, then those
  of the actions, all given to every target.
\<close>

fun collect_deps :: "hooks \<Rightarrow> bool \<Rightarrow> nid list \<Rightarrow> exn + nid list" where
  "collect_deps hk tgt [] = Inr []"
| "collect_deps hk tgt (n # ns) =
     bind_result (hk_implicit_deps hk tgt n) (\<lambda>ds.
     bind_result (collect_deps hk tgt ns) (\<lambda>rest. Inr (ds @ rest)))"

definition get_implicit_deps :: "hooks \<Rightarrow> executor \<Rightarrow> nid list" where
  "get_implicit_deps hk x = concat (map (\<lambda>a. hk_action_deps hk (act_id a)) (get_action_list x))"

definition add_implicit_all :: "nid list \<Rightarrow> nid list \<Rightarrow> heap \<Rightarrow> heap" where
  "add_implicit_all targets deps h = fold (\<lambda>t. add_to_implicit t deps) targets h"

definition exec_scan :: "hooks \<Rightarrow> eid \<Rightarrow> bool \<Rightarrow> nid list \<Rightarrow> heap \<Rightarrow> (exn + unit) \<times> heap" where
  "exec_scan hk e tgt node_list h =
     (case collect_deps hk tgt node_list of
        Inl x \<Rightarrow> (Inl x, h)
      | Inr deps \<Rightarrow>
          (Inr (), add_implicit_all (get_all_targets (execs h e))
                     (deps @ get_implicit_deps hk (execs h e)) h))"

definition scan_sources :: "hooks \<Rightarrow> eid \<Rightarrow> heap \<Rightarrow> (exn + unit) \<times> heap" where
  "scan_sources hk e h =
     (case batches (execs h e) of
        [] \<Rightarrow> (Inl (OtherError ''IndexError''), h)
      | b # _ \<Rightarrow>
          if b_sources b \<noteq> [] then exec_scan hk e False (get_all_sources (execs h e) h) h
          else (Inr (), h))"

definition scan_targets :: "hooks \<Rightarrow> eid \<Rightarrow> heap \<Rightarrow> (exn + unit) \<times> heap" where
  "scan_targets hk e h = exec_scan hk e True (get_all_targets (execs h e)) h"

text \<open>
  The part of \<open>Node.scan\<close> after the cache: the executor scans the sources, then,
  with a target scanner, the targets.
\<close>

definition scan_with_executor :: "hooks \<Rightarrow> nid \<Rightarrow> eid \<Rightarrow> heap \<Rightarrow> (exn + unit) \<times> heap" where
  "scan_with_executor hk n e h =
     (case scan_sources hk e h of
        (Inl x, h') \<Rightarrow> (Inl x, h')
      | (Inr _, h') \<Rightarrow> if hk_has_target_scanner hk n then scan_targets hk e h' else (Inr (), h'))"

text \<open>
  \<open>Node.scan\<close>. With \<open>--implicit-cache\<close> the stored dependencies are tried first;
  the up-to-date test of the file nodes reads \<open>self.children()\<close>, which memoizes them,
  before the targets' implicit lists are emptied again.
\<close>

definition drop_implicit :: "nid list \<Rightarrow> heap \<Rightarrow> heap" where
  "drop_implicit targets h =
     fold (\<lambda>t. upd_node t (\<lambda>x. x\<lparr>implicit := Some [], implicit_set := {}\<rparr>)) targets h"

definition node_scan :: "hooks \<Rightarrow> nid \<Rightarrow> heap \<Rightarrow> (exn + unit) \<times> heap" where
  "node_scan hk n h =
     (if implicit (nodes h n) \<noteq> None then (Inr (), h)
      else
        (let h1 = children_reset n (upd_node n (\<lambda>x. x\<lparr>implicit := Some [], implicit_set := {}\<rparr>) h) in
         if \<not> has_builder (nodes h1 n) then (Inr (), h1)
         else
           (let (e, h2) = get_executor hk n h1 in
            case (if hk_implicit_cache hk \<and> \<not> hk_implicit_deps_changed hk
                  then hk_stored_implicit hk n else None) of
              None \<Rightarrow> scan_with_executor hk n e h2
            | Some stored \<Rightarrow>
                (let h3 = add_implicit_all (get_all_targets (execs h2 e)) stored h2 in
                 if hk_implicit_deps_unchanged hk then (Inr (), h3)
                 else
                   (let h4 = snd (children_get n h3) in
                    case hk_up_to_date hk h4 n of
                      Inl x \<Rightarrow> (Inl x, h4)
                    | Inr True \<Rightarrow> (Inr (), h4)
                    | Inr False \<Rightarrow>
                        scan_with_executor hk n e
                          (drop_implicit (get_all_targets (execs h4 e)) h4))))))"

text \<open>\<open>Node.children\<close> and \<open>Node.all_children\<close> with \<open>scan=1\<close>.\<close>

definition children :: "hooks \<Rightarrow> nid \<Rightarrow> heap \<Rightarrow> (exn + nid list) \<times> heap" where
  "children hk n h =
     (case node_scan hk n h of
        (Inl x, h') \<Rightarrow> (Inl x, h')
      | (Inr _, h') \<Rightarrow> (let (cs, h'') = children_get n h' in (Inr cs, h'')))"

definition all_children :: "hooks \<Rightarrow> nid \<Rightarrow> heap \<Rightarrow> (exn + nid list) \<times> heap" where
  "all_children hk n h =
     (case node_scan hk n h of
        (Inl x, h') \<Rightarrow> (Inl x, h')
      | (Inr _, h') \<Rightarrow> (Inr (raw_children (nodes h' n)), h'))"

text \<open>
  The up-to-date test of the file-system nodes goes through \<open>self.children()\<close>
  (\<open>File.is_up_to_date\<close> by way of \<open>Node.changed\<close>, \<open>Dir.is_up_to_date\<close>
  directly) before it decides.
\<close>

definition is_up_to_date :: "hooks \<Rightarrow> nid \<Rightarrow> heap \<Rightarrow> (exn + bool) \<times> heap" where
  "is_up_to_date hk n h =
     (case children hk n h of
        (Inl x, h') \<Rightarrow> (Inl x, h')
      | (Inr _, h') \<Rightarrow> (hk_up_to_date hk h' n, h'))"

section \<open>The lists the Taskmaster asks for\<close>

fun children_of_targets ::
  "hooks \<Rightarrow> nid list \<Rightarrow> nid ulist \<Rightarrow> heap \<Rightarrow> (exn + nid ulist) \<times> heap" where
  "children_of_targets hk [] acc h = (Inr acc, h)"
| "children_of_targets hk (t # ts) acc h =
     (case children hk t h of
        (Inl x, h') \<Rightarrow> (Inl x, h')
      | (Inr cs, h') \<Rightarrow> children_of_targets hk ts (ul_extend acc cs) h')"

definition get_all_children :: "hooks \<Rightarrow> eid \<Rightarrow> heap \<Rightarrow> (exn + nid list) \<times> heap" where
  "get_all_children hk e h =
     (if is_null (execs h e)
      then (case first_batch_targets (execs h e) of
              [] \<Rightarrow> (Inl (OtherError ''IndexError''), h)
            | t # _ \<Rightarrow> children hk t h)
      else
        (case children_of_targets hk (get_all_targets (execs h e)) (ul_init []) h of
           (Inl x, h') \<Rightarrow> (Inl x, h')
         | (Inr u, h') \<Rightarrow> (Inr (ul_view u), h')))"

definition get_all_prerequisites :: "eid \<Rightarrow> heap \<Rightarrow> nid list" where
  "get_all_prerequisites e h =
     (if is_null (execs h e) then []
      else ul_view (fold (\<lambda>t u. case prerequisites (nodes h t) of
                                  None \<Rightarrow> u
                                | Some p \<Rightarrow> ul_extend u (ul_data p))
                     (get_all_targets (execs h e)) (ul_init [])))"

text \<open>
  \<open>_get_changes\<close>: a batch counts as unchanged when its first target is not marked
  \<open>always_build\<close> and is up to date. The four lists are computed once.
\<close>

fun get_changes_loop ::
  "hooks \<Rightarrow> batch list \<Rightarrow> changes \<Rightarrow> heap \<Rightarrow> (exn + changes) \<times> heap" where
  "get_changes_loop hk [] ch h = (Inr ch, h)"
| "get_changes_loop hk (b # bs) ch h =
     (case b_targets b of
        [] \<Rightarrow> (Inl (OtherError ''IndexError''), h)
      | t # _ \<Rightarrow>
          (case (if always_build (nodes h t) then (Inr False, h) else is_up_to_date hk t h) of
             (Inl x, h') \<Rightarrow> (Inl x, h')
           | (Inr current, h') \<Rightarrow>
               get_changes_loop hk bs
                 (if current
                  then ch\<lparr>ch_unchanged_sources := ch_unchanged_sources ch @ b_sources b,
                          ch_unchanged_targets := ch_unchanged_targets ch @ b_targets b\<rparr>
                  else ch\<lparr>ch_changed_sources := ch_changed_sources ch @ b_sources b,
                          ch_changed_targets := ch_changed_targets ch @ b_targets b\<rparr>) h'))"

definition get_changes :: "hooks \<Rightarrow> eid \<Rightarrow> heap \<Rightarrow> (exn + changes) \<times> heap" where
  "get_changes hk e h =
     (case changes_memo (execs h e) of
        Some ch \<Rightarrow> (Inr ch, h)
      | None \<Rightarrow>
          (case get_changes_loop hk (batches (execs h e))
                  \<lparr>ch_changed_sources = [], ch_changed_targets = [],
                   ch_unchanged_sources = [], ch_unchanged_targets = []\<rparr> h of
             (Inl x, h') \<Rightarrow> (Inl x, h')
           | (Inr ch, h') \<Rightarrow> (Inr ch, upd_exec e (\<lambda>x. x\<lparr>changes_memo := Some ch\<rparr>) h')))"

text \<open>The list an lvar name stands for, as \<open>get_lvars\<close> binds it.\<close>

definition get_lvar :: "hooks \<Rightarrow> eid \<Rightarrow> lvar_list \<Rightarrow> heap \<Rightarrow> (exn + nid list) \<times> heap" where
  "get_lvar hk e v h =
     (case v of
        TARGETS \<Rightarrow> (Inr (get_all_targets (execs h e)), h)
      | SOURCES \<Rightarrow> (Inr (get_all_sources (execs h e) h), h)
      | CHANGED_TARGETS \<Rightarrow> map_prod (map_sum id ch_changed_targets) id (get_changes hk e h)
      | CHANGED_SOURCES \<Rightarrow> map_prod (map_sum id ch_changed_sources) id (get_changes hk e h)
      | UNCHANGED_TARGETS \<Rightarrow> map_prod (map_sum id ch_unchanged_targets) id (get_changes hk e h)
      | UNCHANGED_SOURCES \<Rightarrow> map_prod (map_sum id ch_unchanged_sources) id (get_changes hk e h))"

definition get_action_targets :: "hooks \<Rightarrow> eid \<Rightarrow> heap \<Rightarrow> (exn + nid list) \<times> heap" where
  "get_action_targets hk e h =
     (if is_null (execs h e) then (Inr [], h)
      else (case action_list (execs h e) of
              [] \<Rightarrow> (Inr [], h)
            | a # _ \<Rightarrow> get_lvar hk e (act_targets a) h))"

definition get_action_side_effects :: "hooks \<Rightarrow> eid \<Rightarrow> heap \<Rightarrow> (exn + nid list) \<times> heap" where
  "get_action_side_effects hk e h =
     (if is_null (execs h e) then (Inr [], h)
      else (case get_action_targets hk e h of
              (Inl x, h') \<Rightarrow> (Inl x, h')
            | (Inr ts, h') \<Rightarrow>
                (Inr (ul_view (fold (\<lambda>t u. ul_extend u (side_effects (nodes h' t))) ts (ul_init []))),
                 h')))"

text \<open>
  \<open>get_unignored_sources\<close>: the sources of the first batch that has the node among its
  targets, without the ignored ones, cached under the node and the ignore list.
\<close>

fun sources_of_batch :: "nid \<Rightarrow> batch list \<Rightarrow> nid list" where
  "sources_of_batch n [] = []"
| "sources_of_batch n (b # bs) =
     (if n \<in> set (b_targets b) then b_sources b else sources_of_batch n bs)"

definition get_unignored_sources ::
  "eid \<Rightarrow> nid option \<Rightarrow> nid list \<Rightarrow> heap \<Rightarrow> nid list \<times> heap" where
  "get_unignored_sources e n ign h =
     (if is_null (execs h e) then ([], h)
      else
        (case unignored_memo (execs h e) (n, ign) of
           Some r \<Rightarrow> (r, h)
         | None \<Rightarrow>
             (let sl = (case n of
                          Some n' \<Rightarrow> sources_of_batch n' (batches (execs h e))
                        | None \<Rightarrow> get_all_sources (execs h e) h);
                  r = (if ign \<noteq> [] then filter (\<lambda>s. s \<notin> set ign) sl else sl)
              in (r, upd_exec e (\<lambda>x. x\<lparr>unignored_memo := (unignored_memo x)((n, ign) \<mapsto> r)\<rparr>) h))))"

text \<open>
  \<open>Executor.prepare\<close>: every source must exist, be derived or be linked. The message
  names \<open>self.batches[0].targets[0]\<close>, and raises \<open>IndexError\<close> when there is none.
\<close>

definition exec_prepare :: "hooks \<Rightarrow> eid \<Rightarrow> heap \<Rightarrow> exn + unit" where
  "exec_prepare hk e h =
     (if is_null (execs h e) then Inr ()
      else
        (case find (\<lambda>s. missing hk s h) (get_all_sources (execs h e) h) of
           None \<Rightarrow> Inr ()
         | Some s \<Rightarrow>
             (case first_batch_targets (execs h e) of
                [] \<Rightarrow> Inl (OtherError ''IndexError'')
              | t # _ \<Rightarrow>
                  Inl (StopError (''Source `'' @ hk_name hk s @ [CHR 0x27] @ '' not found, needed by target `'' @
                    hk_name hk t @ [CHR 0x27] @ ''.'')))))"

text \<open>
  \<open>execute_action_list\<close>: the actions in order, on all targets; the first one that
  raises (or returns a \<open>BuildError\<close>, which is then raised) or returns a nonzero status
  stops the list. \<open>Node.build\<close> replaces the node of the error.
\<close>

fun run_actions :: "hooks \<Rightarrow> nid list \<Rightarrow> action list \<Rightarrow> heap \<Rightarrow> (exn + int) \<times> heap" where
  "run_actions hk targets [] h = (Inr 0, h)"
| "run_actions hk targets (a # acts) h =
     (let h' = emit (EvAction (act_id a) targets) h in
      case hk_run_action hk h' (act_id a) targets of
        Inl x \<Rightarrow> (Inl x, h')
      | Inr status \<Rightarrow>
          if status \<noteq> 0
          then (Inl (BuildError (case targets of [] \<Rightarrow> 0 | t # _ \<Rightarrow> t) (''Error '' @ int_str status)), h')
          else run_actions hk targets acts h')"

definition execute_action_list :: "hooks \<Rightarrow> eid \<Rightarrow> heap \<Rightarrow> (exn + int) \<times> heap" where
  "execute_action_list hk e h =
     (if is_null (execs h e) \<or> \<not> do_execute (execs h e) then (Inr 0, h)
      else run_actions hk (get_all_targets (execs h e)) (get_action_list (execs h e)) h)"

section \<open>What scanning keeps\<close>

lemma same_walk_fold_implicit: "same_walk h (fold (\<lambda>t. add_to_implicit t deps) ts h)"
  by (induction ts arbitrary: h) (auto intro: same_walk_trans same_walk_add_to_implicit)

lemma same_walk_add_implicit_all: "same_walk h (add_implicit_all ts deps h)"
  by (simp add: add_implicit_all_def same_walk_fold_implicit)

lemma same_walk_drop_implicit: "same_walk h (drop_implicit ts h)"
proof -
  have "same_walk h (upd_node t (\<lambda>x. x\<lparr>implicit := Some [], implicit_set := {}\<rparr>) h)" for t h
    by (simp add: same_walk_def walk_part_def)
  then show ?thesis
    unfolding drop_implicit_def
    by (induction ts arbitrary: h) (auto intro: same_walk_trans)
qed

lemma same_walk_get_executor: "same_walk h (snd (get_executor hk n h))"
  by (auto simp: same_walk_def walk_part_def get_executor_def Let_def split: option.splits)

lemma same_walk_exec_scan: "same_walk h (snd (exec_scan hk e tgt ns h))"
  by (auto simp: exec_scan_def same_walk_add_implicit_all split: sum.splits)

lemma same_walk_scan_sources: "same_walk h (snd (scan_sources hk e h))"
  by (auto simp: scan_sources_def same_walk_exec_scan split: list.splits)

lemma same_walk_scan_with_executor: "same_walk h (snd (scan_with_executor hk n e h))"
proof -
  have "same_walk h (snd (scan_sources hk e h))" by (rule same_walk_scan_sources)
  then show ?thesis
    by (auto simp: scan_with_executor_def scan_targets_def split: prod.splits sum.splits
        intro: same_walk_trans same_walk_exec_scan [of _ hk e True, simplified])
qed

lemma same_walk_reset_implicit:
  "same_walk h (children_reset n (upd_node n (\<lambda>x. x\<lparr>implicit := Some [], implicit_set := {}\<rparr>) h))"
  by (simp add: same_walk_def walk_part_def)

lemmas same_walk_scans =
  same_walk_reset_implicit same_walk_get_executor same_walk_add_implicit_all
  same_walk_children_get same_walk_drop_implicit same_walk_scan_with_executor

text \<open>The two tails of \<open>node_scan\<close>, to follow its branches one at a time.\<close>

lemma same_walk_node_scan: "same_walk h (snd (node_scan hk n h))"
proof -
  let ?h1 = "children_reset n (upd_node n (\<lambda>x. x\<lparr>implicit := Some [], implicit_set := {}\<rparr>) h)"
  obtain e h2 where g: "get_executor hk n ?h1 = (e, h2)" by (cases "get_executor hk n ?h1")
  have w1: "same_walk h ?h1" by (rule same_walk_reset_implicit)
  have w2: "same_walk h h2"
    using same_walk_get_executor [of ?h1 hk n] g w1 by (auto intro: same_walk_trans)
  have s2: "same_walk h (snd (scan_with_executor hk n e h2))"
    using w2 same_walk_scan_with_executor by (rule same_walk_trans)
  let ?h3 = "\<lambda>st. add_implicit_all (get_all_targets (execs h2 e)) st h2"
  have w3: "same_walk h (?h3 st)" for st
    using w2 same_walk_add_implicit_all by (rule same_walk_trans)
  let ?h4 = "\<lambda>st. snd (children_get n (?h3 st))"
  have w4: "same_walk h (?h4 st)" for st
    using w3 same_walk_children_get by (rule same_walk_trans)
  have s4: "same_walk h (snd (scan_with_executor hk n e
      (drop_implicit (get_all_targets (execs (?h4 st) e)) (?h4 st))))" for st
    using w4 same_walk_drop_implicit same_walk_scan_with_executor by (meson same_walk_trans)
  show ?thesis
    unfolding node_scan_def Let_def g prod.case
    using w1 s2 w3 w4 s4 by (auto split: option.split sum.split bool.split)
qed

lemma same_walk_children: "same_walk h (snd (children hk n h))"
proof -
  obtain r h' where r: "node_scan hk n h = (r, h')" by (cases "node_scan hk n h")
  have "same_walk h h'" using same_walk_node_scan [of h hk n] r by simp
  then show ?thesis
    using r same_walk_children_get [of h' n]
    by (auto simp: children_def split: sum.splits prod.splits intro: same_walk_trans)
qed

lemma same_walk_children_of_targets: "same_walk h (snd (children_of_targets hk ts acc h))"
proof (induction ts arbitrary: acc h)
  case Nil
  then show ?case by simp
next
  case (Cons t ts)
  obtain r h' where r: "children hk t h = (r, h')" by (cases "children hk t h")
  have "same_walk h h'" using same_walk_children [of h hk t] r by simp
  then show ?case using r Cons.IH [of h'] by (auto split: sum.splits intro: same_walk_trans)
qed

lemma same_walk_get_all_children: "same_walk h (snd (get_all_children hk e h))"
  using same_walk_children_of_targets [of h hk "get_all_targets (execs h e)" "ul_init []"]
  by (auto simp: get_all_children_def same_walk_children split: list.split prod.splits sum.splits)

lemma same_walk_is_up_to_date: "same_walk h (snd (is_up_to_date hk n h))"
  using same_walk_children [of h hk n] by (auto simp: is_up_to_date_def split: prod.splits sum.splits)

lemma same_walk_get_changes_loop: "same_walk h (snd (get_changes_loop hk bs ch h))"
proof (induction bs arbitrary: ch h)
  case Nil
  then show ?case by simp
next
  case (Cons b bs)
  have step: "same_walk h (snd (if always_build (nodes h t) then (Inr False, h)
      else is_up_to_date hk t h))" for t
    by (simp add: same_walk_is_up_to_date)
  show ?case
  proof (cases "b_targets b")
    case Nil
    then show ?thesis by simp
  next
    case (Cons t ts)
    obtain r h' where r: "(if always_build (nodes h t) then (Inr False, h)
        else is_up_to_date hk t h) = (r, h')" by fastforce
    have "same_walk h h'" using step [of t] r by simp
    then show ?thesis using Cons r Cons.IH
      by (cases r) (auto intro: same_walk_trans)
  qed
qed

lemma same_walk_upd_exec: "same_walk h h' \<Longrightarrow> same_walk h (upd_exec e f h')"
  by (simp add: same_walk_def)

lemma same_walk_get_changes: "same_walk h (snd (get_changes hk e h))"
proof -
  have "same_walk h (snd (get_changes_loop hk bs ch h))" for bs ch
    by (rule same_walk_get_changes_loop)
  then show ?thesis
    by (auto simp: get_changes_def same_walk_upd_exec split: option.split sum.split prod.split)
      (metis snd_conv same_walk_upd_exec)+
qed

lemma same_walk_get_action_targets: "same_walk h (snd (get_action_targets hk e h))"
proof -
  have "snd (map_prod f id p) = snd p" for f :: "exn + changes \<Rightarrow> exn + nid list"
    and p :: "(exn + changes) \<times> heap"
    by (cases p) simp
  then show ?thesis
    by (auto simp: get_action_targets_def get_lvar_def same_walk_get_changes
        split: list.split lvar_list.split)
qed

lemma same_walk_get_action_side_effects: "same_walk h (snd (get_action_side_effects hk e h))"
  using same_walk_get_action_targets [of h hk e]
  by (auto simp: get_action_side_effects_def split: prod.splits sum.splits)

section \<open>The child-list invariant under scanning\<close>

lemma add_implicit_all_wf: "heap_wf h \<Longrightarrow> heap_wf (add_implicit_all ts deps h)"
  unfolding add_implicit_all_def
  by (induction ts arbitrary: h) (auto intro: add_to_implicit_wf)

lemma exec_scan_wf: "heap_wf h \<Longrightarrow> heap_wf (snd (exec_scan hk e tgt ns h))"
  by (auto simp: exec_scan_def intro: add_implicit_all_wf split: sum.splits)

lemma scan_with_executor_wf:
  assumes "heap_wf h"
  shows "heap_wf (snd (scan_with_executor hk n e h))"
proof -
  have "heap_wf (snd (scan_sources hk e h))"
    using assms by (auto simp: scan_sources_def exec_scan_wf split: list.splits)
  then show ?thesis
    using exec_scan_wf
    by (auto simp: scan_with_executor_def scan_targets_def split: prod.splits sum.splits)
qed

lemma reset_implicit_wf:
  "heap_wf h \<Longrightarrow>
     heap_wf (children_reset n (upd_node n (\<lambda>x. x\<lparr>implicit := Some [], implicit_set := {}\<rparr>) h))"
  by (auto simp: heap_wf_def node_wf_def lists_wf_def)

lemma node_wf_executor_of [simp]: "node_wf (x\<lparr>executor_of := e\<rparr>) = node_wf x"
  by (simp add: node_wf_def lists_wf_def pure_children_def raw_children_def)

lemma get_executor_wf: "heap_wf h \<Longrightarrow> heap_wf (snd (get_executor hk n h))"
  by (auto simp: get_executor_def Let_def heap_wf_def split: option.splits)

lemma node_scan_wf:
  assumes "heap_wf h" and "\<not> hk_implicit_cache hk \<or> hk_implicit_deps_unchanged hk"
  shows "heap_wf (snd (node_scan hk n h))"
proof -
  let ?h1 = "children_reset n (upd_node n (\<lambda>x. x\<lparr>implicit := Some [], implicit_set := {}\<rparr>) h)"
  obtain e h2 where g: "get_executor hk n ?h1 = (e, h2)" by (cases "get_executor hk n ?h1")
  have w1: "heap_wf ?h1" by (rule reset_implicit_wf [OF assms(1)])
  have w2: "heap_wf h2" using get_executor_wf [OF w1, of hk n] g by simp
  show ?thesis
    unfolding node_scan_def Let_def g prod.case
    using assms w1 w2 scan_with_executor_wf [OF w2] add_implicit_all_wf [OF w2]
    by (auto split: option.split)
qed

lemma children_wf:
  assumes "heap_wf h" and "\<not> hk_implicit_cache hk \<or> hk_implicit_deps_unchanged hk"
  shows "heap_wf (snd (children hk n h))"
proof -
  obtain r h' where r: "node_scan hk n h = (r, h')" by (cases "node_scan hk n h")
  have "heap_wf h'" using node_scan_wf [OF assms, of n] r by simp
  then show ?thesis
    using r children_get_wf [of h' n] by (auto simp: children_def split: sum.splits prod.splits)
qed

text \<open>
  What \<open>children\<close> returns: the sources, the explicit and the implicit dependencies,
  in this order, without the ignored nodes.
\<close>

definition scanned :: "nid \<Rightarrow> heap \<Rightarrow> bool" where
  "scanned n h \<longleftrightarrow> implicit (nodes h n) \<noteq> None"

lemma scanned_add_to_implicit: "scanned n h \<Longrightarrow> scanned n (add_to_implicit t deps h)"
  by (auto simp: scanned_def add_to_implicit_def Let_def add_child_loop_eq)

lemma scanned_add_implicit_all: "scanned n h \<Longrightarrow> scanned n (add_implicit_all ts deps h)"
  unfolding add_implicit_all_def
  by (induction ts arbitrary: h) (auto intro: scanned_add_to_implicit)

lemma scanned_exec_scan: "scanned n h \<Longrightarrow> scanned n (snd (exec_scan hk e tgt ns h))"
  by (auto simp: exec_scan_def scanned_add_implicit_all split: sum.splits)

lemma scanned_scan_with_executor:
  assumes "scanned n h"
  shows "scanned n (snd (scan_with_executor hk m e h))"
proof -
  have "scanned n (snd (scan_sources hk e h))"
    using assms by (auto simp: scan_sources_def scanned_exec_scan split: list.splits)
  then show ?thesis
    by (auto simp: scan_with_executor_def scan_targets_def scanned_exec_scan
        split: prod.splits sum.splits)
qed

lemma scanned_node_scan:
  assumes "\<not> hk_implicit_cache hk \<or> hk_implicit_deps_unchanged hk"
  shows "scanned n (snd (node_scan hk n h))"
proof (cases "scanned n h")
  case True
  then show ?thesis by (simp add: node_scan_def scanned_def)
next
  case False
  let ?h1 = "children_reset n (upd_node n (\<lambda>x. x\<lparr>implicit := Some [], implicit_set := {}\<rparr>) h)"
  obtain e h2 where g: "get_executor hk n ?h1 = (e, h2)" by (cases "get_executor hk n ?h1")
  have i1: "scanned n ?h1" by (simp add: scanned_def)
  have i2: "scanned n h2"
    using g i1 by (auto simp: get_executor_def scanned_def Let_def split: option.splits)
  have "\<not> implicit (nodes h n) \<noteq> None" using False by (simp add: scanned_def)
  then show ?thesis
    unfolding node_scan_def Let_def g prod.case
    using assms i1 i2 scanned_scan_with_executor [OF i2] scanned_add_implicit_all [OF i2]
    by (auto split: option.split)
qed

lemma children_result:
  assumes "heap_wf h" and "\<not> hk_implicit_cache hk \<or> hk_implicit_deps_unchanged hk"
    and "children hk n h = (Inr cs, h')"
  shows "cs = pure_children (nodes h' n)"
proof -
  obtain r h1 where r: "node_scan hk n h = (r, h1)" by (cases "node_scan hk n h")
  have w: "heap_wf h1" using node_scan_wf [OF assms(1,2), of n] r by simp
  have i: "implicit (nodes h1 n) \<noteq> None"
    using scanned_node_scan [OF assms(2), of n h] r by (simp add: scanned_def)
  have "pure_children (nodes (snd (children_get n h1)) n) = pure_children (nodes h1 n)"
    by (auto simp: children_get_def Let_def split: option.splits)
  then show ?thesis
    using assms(3) r children_get_result [OF w i]
    by (auto simp: children_def split: sum.splits prod.splits)
qed

lemma mem_pure_children:
  assumes "lists_wf x"
  shows "c \<in> set (pure_children x) \<longleftrightarrow>
    (c \<in> sources_set x \<or> c \<in> depends_set x \<or> (implicit x \<noteq> None \<and> c \<in> implicit_set x)) \<and>
    c \<notin> ignore_set x"
  using assms by (cases "implicit x") (auto simp: lists_wf_def pure_children_def raw_children_def)

lemma children_of_targets_distinct:
  assumes "children_of_targets hk ts acc h = (Inr u, h')" and "ul_wf acc"
  shows "ul_wf u"
  using assms
proof (induction ts arbitrary: acc h)
  case Nil
  then show ?case by simp
next
  case (Cons t ts)
  have "ul_wf (ul_extend acc cs)" for cs by (simp add: ul_wf_def ul_extend_def)
  then show ?case using Cons by (auto split: prod.splits sum.splits)
qed

lemma get_all_children_distinct:
  assumes "\<not> is_null (execs h e)" and "get_all_children hk e h = (Inr cs, h')"
  shows "distinct cs"
proof -
  have "ul_wf (ul_init ([] :: nid list))" by (simp add: ul_wf_def ul_init_def)
  then show ?thesis
    using assms children_of_targets_distinct [of hk "get_all_targets (execs h e)" "ul_init []" h]
    by (auto simp: get_all_children_def ul_view_distinct split: prod.splits sum.splits)
qed

end
