(* ===== verification/NodeInfo.thy ===== *)
theory NodeInfo
  imports Executor PyPath
begin

text \<open>
  The signature half of \<open>SCons/Node/__init__.py\<close>: what a node records about its
  build (\<open>get_binfo\<close>), the decision whether it has to be rebuilt (\<open>changed\<close>,
  \<open>children_are_up_to_date\<close>), its explanation (\<open>explain\<close>) and the deciders. The
  signatures, the contents of an executor and the stored information are parameters.
  The lemmas show that a node whose recorded children are unchanged is not rebuilt, that
  any difference makes it rebuild, and where \<open>bdepends\<close> and its signatures part.
\<close>

section \<open>Build information\<close>

record 'i binfo =
  bsources :: "nid list"
  bdepends :: "nid list"
  bimplicit :: "nid list"
  bsourcesigs :: "'i list"
  bdependsigs :: "'i list"
  bimplicitsigs :: "'i list"
  bact :: "string option"
  bactsig :: "string option"

text \<open>
  What the signatures come from: each node's \<open>get_ninfo()\<close>, the string and the
  contents of an executor, and \<open>MD5signature\<close>.
\<close>

record 'i sig_env =
  sg_ninfo :: "nid \<Rightarrow> 'i"
  sg_exec_str :: "eid \<Rightarrow> string"
  sg_exec_contents :: "eid \<Rightarrow> string"
  sg_md5 :: "string \<Rightarrow> string"

definition binfo_sources :: "nid \<Rightarrow> eid \<Rightarrow> heap \<Rightarrow> nid list \<times> heap" where
  "binfo_sources n e h =
     (if specific_sources (nodes h n)
      then (filter (\<lambda>s. s \<notin> ignore_set (nodes h n)) (sources (nodes h n)), h)
      else get_unignored_sources e (Some n) (ignore (nodes h n)) h)"

text \<open>\<open>get_binfo\<close> when nothing is stored yet; \<open>bdepends\<close> keeps the ignored nodes.\<close>

definition get_binfo :: "hooks \<Rightarrow> 'i sig_env \<Rightarrow> nid \<Rightarrow> heap \<Rightarrow> 'i binfo \<times> heap" where
  "get_binfo hk sg n h =
     (let (e, h1) = get_executor hk n h;
          ign = ignore_set (nodes h1 n);
          (srcs, h2) = binfo_sources n e h1;
          us = dedup srcs;
          deps = depends (nodes h2 n);
          imp = (case implicit (nodes h2 n) of None \<Rightarrow> [] | Some xs \<Rightarrow> xs)
      in (\<lparr>bsources = us, bdepends = deps, bimplicit = imp,
           bsourcesigs = map (sg_ninfo sg) us,
           bdependsigs = map (sg_ninfo sg) (filter (\<lambda>d. d \<notin> ign) deps),
           bimplicitsigs = map (sg_ninfo sg) (filter (\<lambda>i. i \<notin> ign) imp),
           bact = (if has_builder (nodes h1 n) then Some (sg_exec_str sg e) else None),
           bactsig = (if has_builder (nodes h1 n)
                      then Some (sg_md5 sg (sg_exec_contents sg e)) else None)\<rparr>, h2))"

definition bkids :: "'i binfo \<Rightarrow> nid list" where
  "bkids b = bsources b @ bdepends b @ bimplicit b"

definition bkidsigs :: "'i binfo \<Rightarrow> 'i list" where
  "bkidsigs b = bsourcesigs b @ bdependsigs b @ bimplicitsigs b"

section \<open>Deciding\<close>

text \<open>
  \<open>changed\<close>: the children against the recorded signatures, then the action. A decider
  gets no previous signature for children beyond the recorded ones. \<open>dec\<close> is the
  decider of the child.
\<close>

definition pad :: "'i list \<Rightarrow> nat \<Rightarrow> 'i option list" where
  "pad then_sigs k = map Some then_sigs @ replicate (k - length then_sigs) None"

definition changed ::
  "hooks \<Rightarrow> 'i sig_env \<Rightarrow> (nid \<Rightarrow> nid \<Rightarrow> 'i option \<Rightarrow> bool) \<Rightarrow> 'i binfo \<Rightarrow> nid \<Rightarrow> heap \<Rightarrow>
     (exn + bool) \<times> heap" where
  "changed hk sg dec bi n h =
     (case children hk n h of
        (Inl x, h1) \<Rightarrow> (Inl x, h1)
      | (Inr cs, h1) \<Rightarrow>
          (let old = bkidsigs bi;
               differ = (length cs \<noteq> length old);
               kid_changed = list_ex (\<lambda>(c, p). dec c n p) (zip cs (pad old (length cs)));
               (e, h2) = get_executor hk n h1;
               act_changed = (has_builder (nodes h2 n) \<and>
                              bactsig bi \<noteq> Some (sg_md5 sg (sg_exec_contents sg e)))
           in (Inr (differ \<or> kid_changed \<or> act_changed), h2)))"

text \<open>
  \<open>children_are_up_to_date\<close> (Alias and Value nodes): the greatest state of the children,
  without scanning, decides. \<open>None\<close> and \<open>False\<close> are both false.
\<close>

fun max_state :: "nstate \<Rightarrow> nstate list \<Rightarrow> nstate" where
  "max_state s [] = s"
| "max_state s (k # ks) =
     max_state (if k \<noteq> NO_STATE \<and> (s = NO_STATE \<or> k > s) then k else s) ks"

definition children_are_up_to_date :: "hooks \<Rightarrow> nid \<Rightarrow> heap \<Rightarrow> bool \<times> heap" where
  "children_are_up_to_date hk n h =
     (let h1 = (if has_binfo (nodes h n) then h
                else (let (e, h') = get_executor hk n h
                      in snd (binfo_sources n e (upd_node n (\<lambda>x. x\<lparr>has_binfo := True\<rparr>) h'))))
      in if always_build (nodes h1 n) then (False, h1)
         else
           (let (cs, h2) = children_get n h1;
                s = max_state NO_STATE (map (\<lambda>c. get_state c h2) cs)
            in (s = NO_STATE \<or> s = UP_TO_DATE, h2)))"

text \<open>
  \<open>Node.Decider\<close> looks the function up in the table of deciders and enters it under
  the next number when it is not found; number 0 counts as not found.
\<close>

fun find_decider :: "(nat \<times> 'd) list \<Rightarrow> 'd \<Rightarrow> nat option" where
  "find_decider [] f = None"
| "find_decider ((k, v) # m) f = (if v = f then Some k else find_decider m f)"

definition Decider :: "'d \<Rightarrow> (nat \<times> 'd) list \<Rightarrow> nat \<times> (nat \<times> 'd) list" where
  "Decider f m =
     (case find_decider m f of
        Some (Suc k) \<Rightarrow> (Suc k, m)
      | _ \<Rightarrow> (length m, m @ [(length m, f)]))"

section \<open>Explaining\<close>

definition nl :: string where "nl = [CHR 0x0A]"

definition quoted :: "string \<Rightarrow> string" where
  "quoted s = CHR ''`'' # s @ [CHR 0x27]"

definition spaces :: "nat \<Rightarrow> string" where
  "spaces k = replicate k CHR '' ''"

definition fmt_with_title :: "string \<Rightarrow> string \<Rightarrow> string" where
  "fmt_with_title title s =
     spaces 15 @ title @ join_with (nl @ spaces (15 + length title)) (split_on (CHR 0x0A) s) @ nl"

text \<open>
  The lines on the current children: new ones and changed ones. \<open>osig\<close> is the dictionary
  of the recorded children and signatures; a child without an entry raises \<open>KeyError\<close>.
\<close>

fun kid_lines :: "(nid \<Rightarrow> string) \<Rightarrow> (nid \<Rightarrow> 'i \<Rightarrow> bool) \<Rightarrow> nid list \<Rightarrow> (nid \<rightharpoonup> 'i) \<Rightarrow> nid list \<Rightarrow>
    exn + string list" where
  "kid_lines str dec old osig [] = Inr []"
| "kid_lines str dec old osig (k # ks) =
     bind_result
       (if k \<notin> set old then Inr [quoted (str k) @ '' is a new dependency'' @ nl]
        else (case osig k of
                None \<Rightarrow> Inl (OtherError ''KeyError'')
              | Some s \<Rightarrow> Inr (if dec k s then [quoted (str k) @ '' changed'' @ nl] else [])))
       (\<lambda>l. bind_result (kid_lines str dec old osig ks) (\<lambda>rest. Inr (l @ rest)))"

definition removed_lines :: "(nid \<Rightarrow> string) \<Rightarrow> nid list \<Rightarrow> nid list \<Rightarrow> string list" where
  "removed_lines str old new =
     map (\<lambda>k. quoted (str k) @ '' is no longer a dependency'' @ nl) (filter (\<lambda>k. k \<notin> set new) old)"

text \<open>
  \<open>explain\<close> once the node exists, is not always built and has stored information.
  \<open>str\<close> stands for \<open>stringify\<close> and \<open>rep\<close> for the text of a list of strings; the result
  is the whole message, \<open>self\<close> being the name of the node.
\<close>

definition explain_lines ::
  "(nid \<Rightarrow> string) \<Rightarrow> (string list \<Rightarrow> string) \<Rightarrow> (nid \<Rightarrow> 'i \<Rightarrow> bool) \<Rightarrow> 'i binfo \<Rightarrow> 'i binfo \<Rightarrow>
     exn + string list" where
  "explain_lines str rep dec old new =
     bind_result (kid_lines str dec (bkids old) (map_of (rev (zip (bkids old) (bkidsigs old)))) (bkids new))
       (\<lambda>ks.
         let lines = removed_lines str (bkids old) (bkids new) @ ks;
             lines1 =
               (if lines = [] \<and> bkids old \<noteq> bkids new
                then [''the dependency order changed:'' @ nl @
                      spaces 15 @ ''old: '' @ rep (map str (bkids old)) @ nl @
                      spaces 15 @ ''new: '' @ rep (map str (bkids new)) @ nl]
                else lines);
             text = (\<lambda>a. case a of None \<Rightarrow> [] | Some s \<Rightarrow> s);
             lines2 =
               (if lines1 = [] \<and> bactsig old \<noteq> bactsig new then
                  (if bact old = bact new
                   then [''the contents of the build action changed'' @ nl @
                         fmt_with_title ''action: '' (text (bact new))]
                   else [''the build action changed:'' @ nl @
                         fmt_with_title ''old: '' (text (bact old)) @
                         fmt_with_title ''new: '' (text (bact new))])
                else lines1)
         in Inr lines2)"

definition explain_text :: "string \<Rightarrow> string list \<Rightarrow> string" where
  "explain_text self lines =
     (let preamble = ''rebuilding '' @ quoted self @ '' because'' in
      case lines of
        [] \<Rightarrow> ''rebuilding '' @ quoted self @ '' for unknown reasons'' @ nl
      | [l] \<Rightarrow> preamble @ '' '' @ l
      | _ \<Rightarrow> join_with (spaces 11) ((preamble @ '':'' @ nl) # lines))"

definition explain ::
  "hooks \<Rightarrow> 'i sig_env \<Rightarrow> (string list \<Rightarrow> string) \<Rightarrow> (nid \<Rightarrow> 'i \<Rightarrow> bool) \<Rightarrow> 'i binfo option \<Rightarrow> nid \<Rightarrow>
     heap \<Rightarrow> (exn + string option) \<times> heap" where
  "explain hk sg rep dec stored n h =
     (if \<not> hk_exists hk h n then
        (Inr (Some (''building '' @ quoted (hk_name hk n) @ '' because it doesn'' @ [CHR 0x27] @
                    ''t exist'' @ nl)), h)
      else if always_build (nodes h n) then
        (Inr (Some (''rebuilding '' @ quoted (hk_name hk n) @
                    '' because AlwaysBuild() is specified'' @ nl)), h)
      else
        (case stored of
           None \<Rightarrow> (Inr None, h)
         | Some old \<Rightarrow>
             (let (new, h1) = get_binfo hk sg n h
              in (bind_result (explain_lines (hk_name hk) rep dec old new)
                    (\<lambda>ls. Inr (Some (explain_text (hk_name hk n) ls))), h1))))"

section \<open>What is recorded is what is compared\<close>

lemma filter_append_ignored:
  "pure_children x = filter (\<lambda>i. i \<notin> ignore_set x) (sources x) @ filter (\<lambda>i. i \<notin> ignore_set x) (depends x) @
     filter (\<lambda>i. i \<notin> ignore_set x) (case implicit x of None \<Rightarrow> [] | Some xs \<Rightarrow> xs)"
  by (simp add: pure_children_def raw_children_def)

lemma get_executor_fields:
  "get_executor hk n h = (e, h1) \<Longrightarrow>
     sources (nodes h1 m) = sources (nodes h m) \<and> depends (nodes h1 m) = depends (nodes h m) \<and>
     implicit (nodes h1 m) = implicit (nodes h m) \<and> ignore_set (nodes h1 m) = ignore_set (nodes h m) \<and>
     ignore (nodes h1 m) = ignore (nodes h m) \<and> has_builder (nodes h1 m) = has_builder (nodes h m) \<and>
     specific_sources (nodes h1 m) = specific_sources (nodes h m)"
  by (cases "executor_of (nodes h n)"; cases "m = n") (auto simp: get_executor_def Let_def)

lemma get_unignored_sources_nodes:
  "nodes (snd (get_unignored_sources e n ign h)) = nodes h"
  by (auto simp: get_unignored_sources_def Let_def split: option.splits)

text \<open>
  For a node with its own source list, the recorded signatures are those of its
  children, in the order \<open>changed\<close> compares them.
\<close>

lemma get_binfo_sigs:
  assumes "heap_wf h" and "specific_sources (nodes h n)"
  shows "bkidsigs (fst (get_binfo hk sg n h)) = map (sg_ninfo sg) (pure_children (nodes h n))"
proof -
  obtain e h1 where g: "get_executor hk n h = (e, h1)" by fastforce
  note f = get_executor_fields [OF g]
  have "distinct (sources (nodes h n))" using assms(1) by (simp add: heap_wf_def node_wf_def lists_wf_def)
  then have "dedup (filter (\<lambda>s. s \<notin> ignore_set (nodes h n)) (sources (nodes h n))) =
      filter (\<lambda>s. s \<notin> ignore_set (nodes h n)) (sources (nodes h n))"
    by (simp add: dedup_by_id)
  then show ?thesis using assms(2)
    by (simp add: get_binfo_def g binfo_sources_def f bkidsigs_def filter_append_ignored Let_def)
qed

lemma zip_pad_same: "length old = length cs \<Longrightarrow> zip cs (pad old (length cs)) = zip cs (map Some old)"
  by (simp add: pad_def)

text \<open>\<open>changed\<close> says no exactly when the lists have one length and nothing differs.\<close>

lemma changed_iff:
  assumes "children hk n h = (Inr cs, h1)" and "get_executor hk n h1 = (e, h2)"
  shows "fst (changed hk sg dec bi n h) = Inr False \<longleftrightarrow>
    list_all2 (\<lambda>c s. \<not> dec c n (Some s)) cs (bkidsigs bi) \<and>
    (has_builder (nodes h2 n) \<longrightarrow> bactsig bi = Some (sg_md5 sg (sg_exec_contents sg e)))"
proof -
  let ?old = "bkidsigs bi"
  have z: "list_ex (\<lambda>(c, p). dec c n p) (zip cs (pad ?old (length cs))) \<longleftrightarrow>
      \<not> list_all2 (\<lambda>c s. \<not> dec c n (Some s)) cs ?old" if l: "length cs = length ?old"
  proof -
    have "list_ex (\<lambda>(c, p). dec c n p) (zip cs (map Some xs)) \<longleftrightarrow>
        \<not> list_all2 (\<lambda>c s. \<not> dec c n (Some s)) cs xs" if "length cs = length xs" for xs
      using that by (induction cs xs rule: list_induct2) auto
    then show ?thesis using l zip_pad_same [of ?old cs] by simp
  qed
  have r: "fst (changed hk sg dec bi n h) = Inr (length cs \<noteq> length ?old \<or>
      list_ex (\<lambda>(c, p). dec c n p) (zip cs (pad ?old (length cs))) \<or>
      has_builder (nodes h2 n) \<and> bactsig bi \<noteq> Some (sg_md5 sg (sg_exec_contents sg e)))"
    using assms by (simp add: changed_def Let_def)
  show ?thesis
  proof (cases "length cs = length ?old")
    case True
    then show ?thesis using z [OF True] by (simp only: r sum.inject) blast
  next
    case False
    then have "\<not> list_all2 (\<lambda>c s. \<not> dec c n (Some s)) cs ?old" by (auto dest: list_all2_lengthD)
    then show ?thesis using False by (simp add: r)
  qed
qed

section \<open>The greatest state\<close>

lemma max_state_max: "max_state s ks = Max (insert s (set ks))"
proof (induction s ks rule: max_state.induct)
  case (2 s k ks)
  have "(if k \<noteq> NO_STATE \<and> (s = NO_STATE \<or> k > s) then k else s) = max s k"
    by (cases k; cases s) (simp_all add: max_def nstate_order)
  then have "max_state s (k # ks) = Max (insert (max s k) (set ks))" using 2 by simp
  also have "\<dots> = max (max s k) (Max (insert s (set ks)))"
  proof (cases "ks = []")
    case False
    then show ?thesis by (simp add: max.left_commute max.commute max.assoc)
  qed (simp add: max.commute max.left_commute)
  also have "\<dots> = Max (insert s (set (k # ks)))"
    by (cases "ks = []") (simp_all add: max.left_commute max.commute max.assoc)
  finally show ?case .
qed simp

lemma children_are_up_to_date_iff:
  assumes "has_binfo (nodes h n)" and "children_get n h = (cs, h1)"
  shows "fst (children_are_up_to_date hk n h) \<longleftrightarrow>
    \<not> always_build (nodes h n) \<and>
    ((\<forall>c\<in>set cs. get_state c h1 = NO_STATE) \<or>
     (\<exists>c\<in>set cs. get_state c h1 = UP_TO_DATE) \<and> (\<forall>c\<in>set cs. get_state c h1 \<le> UP_TO_DATE))"
proof -
  let ?S = "insert NO_STATE ((\<lambda>c. get_state c h1) ` set cs)"
  have m: "max_state NO_STATE (map (\<lambda>c. get_state c h1) cs) = Max ?S" by (simp add: max_state_max)
  have least: "NO_STATE \<le> s" for s by (cases s) (simp_all add: nstate_order)
  have least': "s \<le> NO_STATE \<longleftrightarrow> s = NO_STATE" for s by (cases s) (simp_all add: nstate_order)
  have a: "Max ?S = NO_STATE \<longleftrightarrow> (\<forall>c\<in>set cs. get_state c h1 = NO_STATE)"
    by (subst Max_eq_iff) (auto simp: least')
  have b: "Max ?S = UP_TO_DATE \<longleftrightarrow>
      (\<exists>c\<in>set cs. get_state c h1 = UP_TO_DATE) \<and> (\<forall>c\<in>set cs. get_state c h1 \<le> UP_TO_DATE)"
    by (subst Max_eq_iff) (auto simp: least image_iff eq_commute [of UP_TO_DATE])
  show ?thesis using assms by (simp add: children_are_up_to_date_def m a b Let_def)
qed

section \<open>Deciders\<close>

lemma find_decider_Some: "find_decider m f = Some k \<Longrightarrow> (k, f) \<in> set m"
  by (induction m) (auto split: if_splits prod.splits)

lemma Decider_maps:
  assumes "Decider f m = (k, m')"
  shows "(k, f) \<in> set m' \<and> set m \<subseteq> set m'"
  using assms find_decider_Some [of m f] by (auto simp: Decider_def split: option.splits nat.splits)

section \<open>Explanations\<close>

lemma kid_lines_total:
  assumes "\<And>k. k \<in> set new \<Longrightarrow> k \<in> set old \<Longrightarrow> osig k \<noteq> None"
  shows "\<exists>ls. kid_lines str dec old osig new = Inr ls"
  using assms
proof (induction new)
  case (Cons k ks)
  obtain ls where "kid_lines str dec old osig ks = Inr ls" using Cons by auto
  moreover have "k \<in> set old \<Longrightarrow> osig k \<noteq> None" using Cons.prems by simp
  ultimately show ?case by (auto split: option.splits)
qed simp

text \<open>With a signature for every recorded child, the explanation does not fail.\<close>

lemma explain_lines_total:
  assumes "length (bkidsigs old) = length (bkids old)"
  shows "\<exists>ls. explain_lines str rep dec old new = Inr ls"
proof -
  have "dom (map_of (rev (zip (bkids old) (bkidsigs old)))) = set (bkids old)"
  proof -
    have "fst ` set (zip (bkids old) (bkidsigs old)) = set (map fst (zip (bkids old) (bkidsigs old)))"
      by simp
    also have "\<dots> = set (bkids old)" using assms by (simp only: map_fst_zip)
    finally show ?thesis by (simp add: dom_map_of_conv_image_fst)
  qed
  then have "k \<in> set (bkids old) \<Longrightarrow> map_of (rev (zip (bkids old) (bkidsigs old))) k \<noteq> None" for k
    by (metis domIff)
  then obtain ks where "kid_lines str dec (bkids old) (map_of (rev (zip (bkids old) (bkidsigs old)))) (bkids new) = Inr ks"
    using kid_lines_total by metis
  then show ?thesis by (simp add: explain_lines_def Let_def)
qed

end
