(* ===== verification/Taskmaster.thy ===== *)
theory Taskmaster
  imports Executor
begin

text \<open>
  The class \<open>Taskmaster\<close> of \<open>SCons/Taskmaster.py\<close>: the walk of the dependency graph
  that picks the next node to build, the waiting-parents bookkeeping, the clean-up of
  nodes that will never be built, and the search for cycles at the end. Sets are
  iterated in the order \<open>cf_ho\<close> gives; the lemmas hold for every such order. The trace
  output and the (disabled) statistics are not modelled; \<open>disambiguate\<close> returns the node
  itself.
\<close>

section \<open>State\<close>

record config =
  cf_hk :: hooks
  cf_order :: "nid list \<Rightarrow> nid list"
  cf_ho :: "nid set \<Rightarrow> nid list"

text \<open>
  The lists are kept in Python's order, \<open>pop()\<close> takes the last element. \<open>stopped\<close>
  says that \<open>next_candidate\<close> has become \<open>no_next_candidate\<close>.
\<close>

record tm =
  tm_heap :: heap
  original_top :: "nid list"
  top_targets_left :: "nid list"
  candidates :: "nid list"
  current_top :: "nid option"
  stopped :: bool
  pending_children :: "nid set"
  message :: "string option"
  ready_exc :: "exn option"

definition tm_init :: "nid list \<Rightarrow> heap \<Rightarrow> tm" where
  "tm_init targets h =
     \<lparr>tm_heap = h, original_top = targets, top_targets_left = rev targets, candidates = [],
      current_top = None, stopped = False, pending_children = {}, message = None,
      ready_exc = None\<rparr>"

definition stop :: "tm \<Rightarrow> tm" where
  "stop t = t\<lparr>stopped := True\<rparr>"

section \<open>Nodes that will not be built\<close>

text \<open>
  \<open>will_not_build\<close>: visit the nodes and, transitively, everything that waits for
  them; every visited node's waiting list is flushed at once, which ends the loop on
  cyclic graphs too.
\<close>

definition flush_parents :: "nid \<Rightarrow> heap \<Rightarrow> heap" where
  "flush_parents n h =
     (let ps = waiting_parents (nodes h n)
      in h\<lparr>nodes := (\<lambda>m. let x = (if m = n then (nodes h n)\<lparr>waiting_parents := {}\<rparr> else nodes h m)
                        in if m \<in> ps then x\<lparr>ref_count := ref_count x - 1\<rparr> else x)\<rparr>)"

partial_function (option) wnb_loop ::
  "(nid set \<Rightarrow> nid list) \<Rightarrow> (nid \<Rightarrow> heap \<Rightarrow> heap) \<Rightarrow> nid set \<Rightarrow> nid set \<Rightarrow> heap \<Rightarrow>
     (nid set \<times> heap) option" where
  "wnb_loop ho f to_visit pend h =
     (case ho to_visit of
        [] \<Rightarrow> Some (pend, h)
      | n # _ \<Rightarrow>
          (let h1 = f n h;
               ps = waiting_parents (nodes h1 n)
           in wnb_loop ho f (to_visit - {n} \<union> ps) (pend - ps) (flush_parents n h1)))"

definition will_not_build :: "config \<Rightarrow> nid list \<Rightarrow> (nid \<Rightarrow> heap \<Rightarrow> heap) \<Rightarrow> tm \<Rightarrow> tm option" where
  "will_not_build cfg ns f t =
     map_option (\<lambda>(pend, h). t\<lparr>pending_children := pend, tm_heap := h\<rparr>)
       (wnb_loop (cf_ho cfg) f (set ns) (pending_children t - set ns) (tm_heap t))"

section \<open>Candidates\<close>

definition find_next_candidate :: "config \<Rightarrow> tm \<Rightarrow> nid option \<times> tm" where
  "find_next_candidate cfg t =
     (if candidates t \<noteq> [] then
        (Some (last (candidates t)), t\<lparr>candidates := butlast (candidates t)\<rparr>)
      else if top_targets_left t = [] then (None, t)
      else
        (let n = last (top_targets_left t);
             t1 = t\<lparr>top_targets_left := butlast (top_targets_left t), current_top := Some n\<rparr>;
             (alt, msg) = hk_alter_targets (cf_hk cfg) n
         in if alt \<noteq> [] then
              (let cands = candidates t1 @ [n] @ cf_order cfg alt
               in (Some (last cands), t1\<lparr>message := msg, candidates := butlast cands\<rparr>))
            else (Some n, t1)))"

partial_function (option) no_next_candidate :: "config \<Rightarrow> tm \<Rightarrow> tm option" where
  "no_next_candidate cfg t =
     (if candidates t = [] then Some t
      else (case will_not_build cfg (candidates t) (\<lambda>_ h. h) (t\<lparr>candidates := []\<rparr>) of
              None \<Rightarrow> None
            | Some t' \<Rightarrow> no_next_candidate cfg t'))"

definition next_candidate :: "config \<Rightarrow> tm \<Rightarrow> (nid option \<times> tm) option" where
  "next_candidate cfg t =
     (if stopped t then map_option (Pair None) (no_next_candidate cfg t)
      else Some (find_next_candidate cfg t))"

section \<open>The walk\<close>

definition done_state :: "nstate \<Rightarrow> bool" where
  "done_state s \<longleftrightarrow> s = UP_TO_DATE \<or> s = EXECUTED"

text \<open>Wait for the children: each gets the node as a waiting parent, once.\<close>

fun wait_for :: "nid \<Rightarrow> nid list \<Rightarrow> heap \<Rightarrow> heap" where
  "wait_for n [] h = h"
| "wait_for n (c # cs) h =
     (let (k, h1) = add_to_waiting_parents c n h
      in wait_for n cs (upd_node n (\<lambda>x. x\<lparr>ref_count := ref_count x + k\<rparr>) h1))"

definition wait_side_effects :: "nid \<Rightarrow> nid list \<Rightarrow> heap \<Rightarrow> heap" where
  "wait_side_effects n ses h = fold (\<lambda>s. add_to_waiting_s_e s n) ses h"

datatype outcome = Skip | Found nid | Raised exn

text \<open>
  One round of the loop of \<open>_find_next_ready_node\<close>. An exception of the scan is kept
  in \<open>ready_exc\<close> for the task; one of \<open>get_action_targets\<close> or
  \<open>get_action_side_effects\<close> leaves the method.
\<close>

definition consider_node :: "config \<Rightarrow> nid \<Rightarrow> tm \<Rightarrow> outcome \<times> tm" where
  "consider_node cfg n t =
     (if get_state n (tm_heap t) > PENDING then (Skip, t)
      else
        (let h0 = (if get_state n (tm_heap t) = NO_STATE then set_state n PENDING (tm_heap t)
                   else tm_heap t);
             (e, h1) = get_executor (cf_hk cfg) n h0
         in case get_all_children (cf_hk cfg) e h1 of
              (Inl x, h2) \<Rightarrow>
                (Found n, t\<lparr>tm_heap := h2,
                   ready_exc := Some (case x of SystemExit c \<Rightarrow> ExplicitExit n c | _ \<Rightarrow> x)\<rparr>)
            | (Inr cs, h2) \<Rightarrow>
                (let kids = get_all_prerequisites e h2 @ cs;
                     not_visited = filter (\<lambda>c. get_state c h2 = NO_STATE) kids;
                     pend = set (filter (\<lambda>c. get_state c h2 = PENDING) kids);
                     failed = list_ex (\<lambda>c. get_state c h2 = FAILED) kids;
                     not_ready = filter (\<lambda>c. get_state c h2 \<le> EXECUTING) kids;
                     t1 = t\<lparr>tm_heap := h2,
                            candidates := candidates t @ cf_order cfg (rev not_visited)\<rparr>
                 in if failed then
                      (case get_action_targets (cf_hk cfg) e h2 of
                         (Inl x, h3) \<Rightarrow> (Raised x, t1\<lparr>tm_heap := h3\<rparr>)
                       | (Inr ts, h3) \<Rightarrow>
                           (Skip, t1\<lparr>tm_heap := fold (\<lambda>m. set_state m FAILED) ts h3\<rparr>))
                    else if not_ready \<noteq> [] then
                      (Skip, t1\<lparr>tm_heap := wait_for n not_ready h2,
                                pending_children := pending_children t \<union> pend\<rparr>)
                    else
                      (case get_action_side_effects (cf_hk cfg) e h2 of
                         (Inl x, h3) \<Rightarrow> (Raised x, t1\<lparr>tm_heap := h3\<rparr>)
                       | (Inr ses, h3) \<Rightarrow>
                           (let busy = filter (\<lambda>s. get_state s h3 = EXECUTING) ses
                            in if busy \<noteq> [] then
                                 (Skip, t1\<lparr>tm_heap := wait_side_effects n busy h3\<rparr>)
                               else (Found n, t1\<lparr>tm_heap := h3\<rparr>))))))"

partial_function (option) ready_loop :: "config \<Rightarrow> tm \<Rightarrow> ((exn + nid option) \<times> tm) option" where
  "ready_loop cfg t =
     (case next_candidate cfg t of
        None \<Rightarrow> None
      | Some (None, t1) \<Rightarrow> Some (Inr None, t1)
      | Some (Some n, t1) \<Rightarrow>
          (case consider_node cfg n t1 of
             (Skip, t2) \<Rightarrow> ready_loop cfg t2
           | (Found m, t2) \<Rightarrow> Some (Inr (Some m), t2)
           | (Raised x, t2) \<Rightarrow> Some (Inl x, t2)))"

declare wnb_loop.simps [code] no_next_candidate.simps [code] ready_loop.simps [code]

definition find_next_ready_node :: "config \<Rightarrow> tm \<Rightarrow> ((exn + nid option) \<times> tm) option" where
  "find_next_ready_node cfg t = ready_loop cfg (t\<lparr>ready_exc := None\<rparr>)"

section \<open>Cycles\<close>

text \<open>
  \<open>find_cycle(stack, visited)\<close>. The stack is kept in Python's order; a call that
  returns \<open>None\<close> has restored it. \<open>fuel\<close> bounds the depth of the recursion.
\<close>

fun find_cycle :: "(nid set \<Rightarrow> nid list) \<Rightarrow> (nid \<Rightarrow> nid set) \<Rightarrow> nat \<Rightarrow> nid list \<Rightarrow> nid set \<Rightarrow>
    (nid list option \<times> nid set) option"
and cycle_kids :: "(nid set \<Rightarrow> nid list) \<Rightarrow> (nid \<Rightarrow> nid set) \<Rightarrow> nat \<Rightarrow> nid list \<Rightarrow> nid list \<Rightarrow> nid set \<Rightarrow>
    (nid list option \<times> nid set) option" where
  "find_cycle ho wp 0 stack visited = None"
| "find_cycle ho wp (Suc k) stack visited =
     (if last stack \<in> visited then Some (None, visited)
      else cycle_kids ho wp k (ho (wp (last stack))) stack (insert (last stack) visited))"
| "cycle_kids ho wp k [] stack visited = Some (None, visited)"
| "cycle_kids ho wp k (n # ns) stack visited =
     (if hd stack = n then Some (Some (stack @ [n]), visited)
      else (case find_cycle ho wp k (stack @ [n]) visited of
              None \<Rightarrow> None
            | Some (Some s, visited') \<Rightarrow> Some (Some s, visited')
            | Some (None, visited') \<Rightarrow> cycle_kids ho wp k ns stack visited'))"

definition wp_of :: "heap \<Rightarrow> nid \<Rightarrow> nid set" where
  "wp_of h n = waiting_parents (nodes h n)"

text \<open>
  \<open>cleanup\<close>: nothing to report without pending children, or when every pending child
  has been executed and is on no cycle; otherwise a \<open>UserError\<close> with one line for each
  pending child.
\<close>

definition cycle_line :: "hooks \<Rightarrow> heap \<Rightarrow> nid \<Rightarrow> nid list option \<Rightarrow> string" where
  "cycle_line hk h n cyc =
     (case cyc of
        Some c \<Rightarrow> ''  '' @ join_with '' -> '' (map (hk_name hk) c) @ [CHR 0x0A]
      | None \<Rightarrow> ''  Internal Error: no cycle found for node '' @ hk_name hk n @ '' in state '' @
          StateString (get_state n h) @ [CHR 0x0A])"

fun find_cycles :: "(nid set \<Rightarrow> nid list) \<Rightarrow> nat \<Rightarrow> heap \<Rightarrow> nid list \<Rightarrow> (nid \<times> nid list option) list option" where
  "find_cycles ho fuel h [] = Some []"
| "find_cycles ho fuel h (n # ns) =
     (case find_cycle ho (wp_of h) fuel [n] {} of
        None \<Rightarrow> None
      | Some (c, _) \<Rightarrow> map_option (Cons (n, c)) (find_cycles ho fuel h ns))"

definition cleanup :: "config \<Rightarrow> nat \<Rightarrow> tm \<Rightarrow> (exn + unit) option" where
  "cleanup cfg fuel t =
     (if pending_children t = {} then Some (Inr ())
      else
        map_option (\<lambda>nclist.
           if filter (\<lambda>(n, c). c \<noteq> None \<or> get_state n (tm_heap t) \<noteq> EXECUTED) nclist = []
           then Inr ()
           else Inl (UserError (''Found dependency cycle(s):'' @ [CHR 0x0A] @
                  concat (map (\<lambda>(n, c). cycle_line (cf_hk cfg) (tm_heap t) n c) nclist))))
          (find_cycles (cf_ho cfg) fuel (tm_heap t) (cf_ho cfg (pending_children t))))"

text \<open>\<open>_validate_pending_children\<close>, the code's own statement of its invariant.\<close>

definition validate_pending_children :: "tm \<Rightarrow> bool" where
  "validate_pending_children t \<longleftrightarrow>
     (\<forall>n\<in>pending_children t.
        (get_state n (tm_heap t) = PENDING \<or> get_state n (tm_heap t) = EXECUTING) \<and>
        wp_of (tm_heap t) n \<noteq> {} \<and>
        (\<forall>p\<in>wp_of (tm_heap t) n. ref_count (nodes (tm_heap t) p) > 0))"

section \<open>What will-not-build does\<close>

text \<open>
  The nodes reached from a set through waiting parents, and the effect of the loop on
  the heap in one step: every reached node gets its state changed and its waiting list
  emptied, and every node loses one reference for each reached node it waited for.
\<close>

definition waits :: "(nid \<Rightarrow> nid set) \<Rightarrow> (nid \<times> nid) set" where
  "waits wp = {(c, p). p \<in> wp c}"

definition reached :: "(nid \<Rightarrow> nid set) \<Rightarrow> nid set \<Rightarrow> nid set" where
  "reached wp S = (waits wp)\<^sup>* `` S"

definition dropped :: "(nstate \<Rightarrow> nstate) \<Rightarrow> nid set \<Rightarrow> heap \<Rightarrow> heap" where
  "dropped g R h = h\<lparr>nodes := (\<lambda>m. (nodes h m)
     \<lparr>state_of := (if m \<in> R then g (state_of (nodes h m)) else state_of (nodes h m)),
      waiting_parents := (if m \<in> R then {} else waiting_parents (nodes h m)),
      ref_count := ref_count (nodes h m) - int (card {c \<in> R. m \<in> waiting_parents (nodes h c)})\<rparr>)\<rparr>"

definition restate :: "(nstate \<Rightarrow> nstate) \<Rightarrow> nid \<Rightarrow> heap \<Rightarrow> heap" where
  "restate g n h = upd_node n (\<lambda>x. x\<lparr>state_of := g (state_of x)\<rparr>) h"

lemma wp_of_restate [simp]: "wp_of (restate g n h) = wp_of h"
  by (rule ext) (simp add: wp_of_def restate_def)

lemma wp_of_flush [simp]: "wp_of (flush_parents n h) = (wp_of h)(n := {})"
  by (rule ext) (simp add: wp_of_def flush_parents_def Let_def)

lemma rtrancl_drop_source:
  assumes "(a, b) \<in> (waits wp)\<^sup>*"
  shows "(a, b) \<in> (waits (wp(n := {})))\<^sup>* \<or> b = n \<or>
    (\<exists>p\<in>wp n. (p, b) \<in> (waits (wp(n := {})))\<^sup>*)"
  using assms
proof (induction rule: rtrancl_induct)
  case (step y z)
  have "(y, z) \<in> waits (wp(n := {}))" if "y \<noteq> n" using step.hyps(2) that by (auto simp: waits_def)
  moreover have "z \<in> wp n" if "y = n" using step.hyps(2) that by (auto simp: waits_def)
  ultimately show ?case using step.IH by (metis rtrancl.rtrancl_into_rtrancl rtrancl.rtrancl_refl)
qed simp

lemma waits_mono: "(a, b) \<in> (waits (wp(n := {})))\<^sup>* \<Longrightarrow> (a, b) \<in> (waits wp)\<^sup>*"
  by (erule rtrancl_mono [THEN subsetD, rotated]) (auto simp: waits_def split: if_splits)

lemma reached_step:
  assumes "n \<in> S"
  shows "reached wp S = insert n (reached (wp(n := {})) (S - {n} \<union> wp n))"
proof
  show "reached wp S \<subseteq> insert n (reached (wp(n := {})) (S - {n} \<union> wp n))"
  proof
    fix b assume "b \<in> reached wp S"
    then obtain a where a: "a \<in> S" "(a, b) \<in> (waits wp)\<^sup>*" by (auto simp: reached_def)
    have nf: "(n, b) \<in> (waits (wp(n := {})))\<^sup>* \<Longrightarrow> b = n"
      by (erule converse_rtranclE) (auto simp: waits_def)
    show "b \<in> insert n (reached (wp(n := {})) (S - {n} \<union> wp n))"
      using rtrancl_drop_source [OF a(2), of n] a(1) nf
      by (cases "a = n") (auto simp: reached_def)
  qed
next
  have "(n, b) \<in> (waits wp)\<^sup>*" if "p \<in> wp n" "(p, b) \<in> (waits (wp(n := {})))\<^sup>*" for p b
    using waits_mono [OF that(2)] that(1) by (auto simp: waits_def intro: converse_rtrancl_into_rtrancl)
  then show "insert n (reached (wp(n := {})) (S - {n} \<union> wp n)) \<subseteq> reached wp S"
    using assms waits_mono [of _ _ wp n] unfolding reached_def
    by (auto simp: Image_iff) (meson ImageI)+
qed

lemma reached_finite:
  assumes "finite S" and "finite {c. wp c \<noteq> {}}" and "\<And>c. finite (wp c)"
  shows "finite (reached wp S)"
proof -
  have "b \<in> S \<union> (\<Union>c\<in>{c. wp c \<noteq> {}}. wp c)" if "a \<in> S" "(a, b) \<in> (waits wp)\<^sup>*" for a b
    using that(2,1) by (cases rule: rtranclE) (auto simp: waits_def)
  then have "reached wp S \<subseteq> S \<union> (\<Union>c\<in>{c. wp c \<noteq> {}}. wp c)"
    unfolding reached_def by blast
  then show ?thesis using assms by (meson finite_UN finite_UnI finite_subset)
qed

lemma reached_self: "S \<subseteq> reached wp S"
  by (auto simp: reached_def)

lemma reached_closed: "c \<in> reached wp S \<Longrightarrow> p \<in> wp c \<Longrightarrow> p \<in> reached wp S"
  by (auto simp: reached_def waits_def intro: rtrancl_into_rtrancl)

text \<open>One round of the loop and the rest together make the whole effect.\<close>

lemma dropped_step:
  assumes g: "\<And>s. g (g s) = g s" and n: "n \<in> S" and fin: "finite (reached (wp_of h) S)"
  shows "dropped g (reached ((wp_of h)(n := {})) (S - {n} \<union> wp_of h n))
           (flush_parents n (restate g n h)) = dropped g (reached (wp_of h) S) h"
    (is "dropped g ?R1 ?h1 = dropped g ?R h")
proof -
  have R: "?R = insert n ?R1" using reached_step [OF n] .
  have f1: "finite ?R1" using fin R by simp
  have wp1: "waiting_parents (nodes ?h1 m) = (if m = n then {} else waiting_parents (nodes h m))" for m
    by (simp add: flush_parents_def restate_def Let_def)
  have nd: "nodes ?h1 m = (nodes h m)
      \<lparr>state_of := (if m = n then g (state_of (nodes h n)) else state_of (nodes h m)),
       waiting_parents := (if m = n then {} else waiting_parents (nodes h m)),
       ref_count := ref_count (nodes h m) - (if m \<in> wp_of h n then 1 else 0)\<rparr>" for m
    by (auto simp: flush_parents_def restate_def Let_def wp_of_def)
  have cnt: "int (card {c \<in> ?R1. m \<in> waiting_parents (nodes ?h1 c)}) + (if m \<in> wp_of h n then 1 else 0)
      = int (card {c \<in> ?R. m \<in> waiting_parents (nodes h c)})" for m
  proof -
    have a: "{c \<in> ?R1. m \<in> waiting_parents (nodes ?h1 c)}
        = {c \<in> ?R. m \<in> waiting_parents (nodes h c)} - {n}"
      unfolding R wp1 by auto
    have f: "finite {c \<in> ?R. m \<in> waiting_parents (nodes h c)}" using fin by simp
    have i: "n \<in> {c \<in> ?R. m \<in> waiting_parents (nodes h c)} \<longleftrightarrow> m \<in> wp_of h n"
      using R by (simp add: wp_of_def)
    have "int (card (A - {x})) + (if x \<in> A then 1 else 0) = int (card A)" if "finite A" for A :: "nid set" and x
      using that card_gt_0_iff [of A] by (auto simp: card_Diff_singleton_if of_nat_diff)
    from this [OF f, of n] show ?thesis unfolding a i .
  qed
  have empty: "m \<notin> ?R1 \<Longrightarrow> m \<in> ?R \<Longrightarrow> m = n" for m using R by blast
  have "nodes (dropped g ?R1 ?h1) m = nodes (dropped g ?R h) m" for m
  proof -
    have e: "ref_count (nodes ?h1 m) - int (card {c \<in> ?R1. m \<in> waiting_parents (nodes ?h1 c)})
        = ref_count (nodes h m) - int (card {c \<in> ?R. m \<in> waiting_parents (nodes h c)})"
      using cnt [of m] by (simp add: nd)
    have st: "(if m \<in> ?R1 then g (state_of (nodes ?h1 m)) else state_of (nodes ?h1 m)) =
        (if m \<in> ?R then g (state_of (nodes h m)) else state_of (nodes h m))"
      using R by (cases "m = n") (simp_all add: nd g)
    have w: "(if m \<in> ?R1 then {} else waiting_parents (nodes ?h1 m)) =
        (if m \<in> ?R then {} else waiting_parents (nodes h m))"
      using R wp1 [of m] by auto
    have "nodes (dropped g ?R1 ?h1) m = (nodes ?h1 m)
        \<lparr>state_of := (if m \<in> ?R1 then g (state_of (nodes ?h1 m)) else state_of (nodes ?h1 m)),
         waiting_parents := (if m \<in> ?R1 then {} else waiting_parents (nodes ?h1 m)),
         ref_count := ref_count (nodes ?h1 m) - int (card {c \<in> ?R1. m \<in> waiting_parents (nodes ?h1 c)})\<rparr>"
      by (simp add: dropped_def)
    also have "\<dots> = nodes (dropped g ?R h) m"
      unfolding st w e by (simp only: nd) (simp add: dropped_def)
    finally show ?thesis .
  qed
  moreover have "execs ?h1 = execs h" "next_eid ?h1 = next_eid h" "events ?h1 = events h"
    "heap.more ?h1 = heap.more h"
    by (simp_all add: flush_parents_def restate_def Let_def upd_node_def)
  ultimately show ?thesis by (simp add: dropped_def fun_eq_iff)
qed


text \<open>
  The loop ends on every finite waiting graph, cyclic ones included, and has this effect.
\<close>

lemma wnb_loop_effect:
  assumes ho: "enumerates ho" and g: "\<And>s. g (g s) = g s"
    and "finite S" and "finite {c. wp_of h c \<noteq> {}}" and "\<And>c. finite (wp_of h c)"
  shows "wnb_loop ho (restate g) S pend h =
    Some (pend - (\<Union>a\<in>reached (wp_of h) S. wp_of h a),
          dropped g (reached (wp_of h) S) h)"
  using assms(3-)
proof (induction "(card {c. wp_of h c \<noteq> {}}, card S)" arbitrary: S pend h
    rule: wf_induct_rule [OF wf_lex_prod [OF wf_less_than wf_less_than]])
  case (1 S h pend)
  show ?case
  proof (cases "ho S")
    case Nil
    then have S: "S = {}" using enumerates_Nil_iff [OF ho 1(2)] by simp
    have "dropped g {} h = h" by (simp add: dropped_def)
    then show ?thesis using S ho by (subst wnb_loop.simps) (simp add: reached_def)
  next
    case (Cons n ns)
    then have nS: "n \<in> S" using enumerates_set [OF ho 1(2)] by auto
    let ?h1 = "flush_parents n (restate g n h)" and ?S1 = "S - {n} \<union> wp_of h n"
    have wp1: "wp_of ?h1 = (wp_of h)(n := {})" by simp
    have wpn: "waiting_parents (nodes (restate g n h) n) = wp_of h n"
      by (simp add: restate_def wp_of_def)
    have fin: "finite ?S1" "finite {c. wp_of ?h1 c \<noteq> {}}" "\<And>c. finite (wp_of ?h1 c)"
      unfolding wp1 using 1(2-4)
      by (auto intro: finite_subset [OF _ 1(3)] split: if_splits)
    have less: "((card {c. wp_of ?h1 c \<noteq> {}}, card ?S1), card {c. wp_of h c \<noteq> {}}, card S)
        \<in> less_than <*lex*> less_than"
    proof (cases "wp_of h n = {}")
      case True
      have "{c. wp_of ?h1 c \<noteq> {}} = {c. wp_of h c \<noteq> {}}" using True unfolding wp1 by auto
      moreover have "card (S - {n}) < card S" using 1(2) nS by (meson card_Diff1_less)
      ultimately show ?thesis using True by simp
    next
      case False
      then have "{c. wp_of ?h1 c \<noteq> {}} \<subset> {c. wp_of h c \<noteq> {}}" unfolding wp1 by auto
      then have "card {c. wp_of ?h1 c \<noteq> {}} < card {c. wp_of h c \<noteq> {}}"
        using 1(3) psubset_card_mono by blast
      then show ?thesis by simp
    qed
    note IH = 1(1) [OF less fin]
    have finR: "finite (reached (wp_of h) S)" by (rule reached_finite) (use 1 in auto)
    let ?R = "reached (wp_of h) S"
    let ?R1 = "reached (wp_of ?h1) ?S1"
    have R: "?R = insert n ?R1" unfolding wp1 by (rule reached_step [OF nS])
    have keep: "(pend - wp_of h n) - (\<Union>a\<in>?R1. wp_of ?h1 a) = pend - (\<Union>a\<in>?R. wp_of h a)"
      unfolding R unfolding wp1 by (auto split: if_splits)
    have step: "dropped g ?R1 ?h1 = dropped g ?R h"
      unfolding wp1 by (rule dropped_step [OF g nS finR])
    show ?thesis
      by (subst wnb_loop.simps) (simp only: Cons list.case wpn Let_def IH keep step)
  qed
qed

text \<open>For the method itself: which nodes leave the pending children, and the new heap.\<close>

lemma reached_pending:
  "pend - set ns - (\<Union>a\<in>reached wp (set ns). wp a) = pend - reached wp (set ns)"
proof -
  have "reached wp (set ns) = set ns \<union> (\<Union>a\<in>reached wp (set ns). wp a)"
  proof
    show "reached wp (set ns) \<subseteq> set ns \<union> (\<Union>a\<in>reached wp (set ns). wp a)"
    proof
      fix b assume "b \<in> reached wp (set ns)"
      then obtain a where "a \<in> set ns" "(a, b) \<in> (waits wp)\<^sup>*" by (auto simp: reached_def)
      then show "b \<in> set ns \<union> (\<Union>a\<in>reached wp (set ns). wp a)"
        by (cases rule: rtranclE [OF \<open>(a, b) \<in> _\<close>]) (auto simp: waits_def reached_def)
    qed
  qed (use reached_self reached_closed in fast)
  then show ?thesis by blast
qed

definition waits_finite :: "heap \<Rightarrow> bool" where
  "waits_finite h \<longleftrightarrow> finite {c. wp_of h c \<noteq> {}} \<and> (\<forall>c. finite (wp_of h c))"

lemma will_not_build_effect:
  assumes "enumerates (cf_ho cfg)" and "\<And>s. g (g s) = g s" and "waits_finite (tm_heap t)"
  shows "will_not_build cfg ns (restate g) t =
    (let R = reached (wp_of (tm_heap t)) (set ns)
     in Some (t\<lparr>pending_children := pending_children t - R, tm_heap := dropped g R (tm_heap t)\<rparr>))"
  using assms wnb_loop_effect [OF assms(1,2), of "set ns" "tm_heap t"]
  by (simp add: will_not_build_def waits_finite_def reached_pending Let_def)

lemma restate_id: "restate (\<lambda>s. s) = (\<lambda>_ h. h)"
  by (simp add: restate_def upd_node_def fun_eq_iff)

lemma restate_const: "restate (\<lambda>_. s) = (\<lambda>n. set_state n s)"
  by (simp add: restate_def set_state_def fun_eq_iff)

lemma no_next_candidate_effect:
  assumes "enumerates (cf_ho cfg)" and "waits_finite (tm_heap t)"
  shows "\<exists>t'. no_next_candidate cfg t = Some t' \<and> candidates t' = [] \<and>
    (\<forall>n. get_state n (tm_heap t') = get_state n (tm_heap t)) \<and>
    original_top t' = original_top t \<and> top_targets_left t' = top_targets_left t"
proof (cases "candidates t = []")
  case True
  then show ?thesis by (subst no_next_candidate.simps) simp
next
  case False
  have "will_not_build cfg (candidates t) (restate (\<lambda>s. s)) (t\<lparr>candidates := []\<rparr>) =
    (let R = reached (wp_of (tm_heap t)) (set (candidates t))
     in Some (t\<lparr>candidates := [], pending_children := pending_children t - R,
                tm_heap := dropped (\<lambda>s. s) R (tm_heap t)\<rparr>))"
    using assms by (subst will_not_build_effect) (simp_all add: Let_def)
  then show ?thesis using False
    by (subst no_next_candidate.simps)
      (simp add: restate_id Let_def no_next_candidate.simps get_state_def dropped_def)
qed


section \<open>The reference counts\<close>

text \<open>
  A node's reference count is the number of nodes it waits for. Every operation of the
  Taskmaster keeps this, and with it the finiteness of the waiting graph.
\<close>

definition refs_ok :: "heap \<Rightarrow> bool" where
  "refs_ok h \<longleftrightarrow> waits_finite h \<and>
     (\<forall>p. ref_count (nodes h p) = int (card {c. p \<in> wp_of h c}))"

lemma waits_finite_into: "waits_finite h \<Longrightarrow> finite {c. p \<in> wp_of h c}"
  by (rule finite_subset [of _ "{c. wp_of h c \<noteq> {}}"]) (auto simp: waits_finite_def)

lemma same_walk_wp: "same_walk h h' \<Longrightarrow> wp_of h' = wp_of h"
  by (rule ext) (simp add: wp_of_def same_walkD)

lemma refs_ok_same_walk: "same_walk h h' \<Longrightarrow> refs_ok h \<Longrightarrow> refs_ok h'"
  by (simp add: refs_ok_def waits_finite_def same_walk_wp same_walkD)

lemma refs_ok_restate: "refs_ok h \<Longrightarrow> refs_ok (restate g n h)"
  by (auto simp: refs_ok_def waits_finite_def) (auto simp: restate_def)

lemma refs_ok_set_state: "refs_ok h \<Longrightarrow> refs_ok (set_state n s h)"
  using refs_ok_restate [of h "\<lambda>_. s" n] by (simp add: restate_const)

lemma refs_ok_wait_s_e: "refs_ok h \<Longrightarrow> refs_ok (add_to_waiting_s_e s n h)"
proof -
  have "wp_of (add_to_waiting_s_e s n h) = wp_of h"
    by (rule ext) (simp add: wp_of_def add_to_waiting_s_e_def)
  then show "refs_ok h \<Longrightarrow> ?thesis"
    by (auto simp: refs_ok_def waits_finite_def) (auto simp: add_to_waiting_s_e_def)
qed

lemma refs_ok_fold:
  "(\<And>x h. refs_ok h \<Longrightarrow> refs_ok (f x h)) \<Longrightarrow> refs_ok h \<Longrightarrow> refs_ok (fold f xs h)"
  by (induction xs arbitrary: h) auto

lemma add_to_waiting_parents_wp:
  "add_to_waiting_parents c n h = (k, h') \<Longrightarrow> wp_of h' = (wp_of h)(c := insert n (wp_of h c))"
  by (rule ext) (auto simp: add_to_waiting_parents_def wp_of_def split: if_splits)

lemma refs_ok_wait_one:
  assumes "refs_ok h" and "add_to_waiting_parents c n h = (k, h')"
  shows "refs_ok (upd_node n (\<lambda>x. x\<lparr>ref_count := ref_count x + k\<rparr>) h')"
proof (cases "n \<in> wp_of h c")
  case True
  then have "h' = h" "k = 0" using assms(2) by (auto simp: add_to_waiting_parents_def wp_of_def)
  then show ?thesis using assms(1) by (simp add: upd_node_def)
next
  case False
  then have k: "k = 1" using assms(2) by (auto simp: add_to_waiting_parents_def wp_of_def)
  have rc: "ref_count (nodes h' p) = ref_count (nodes h p)" for p
    using assms(2) by (auto simp: add_to_waiting_parents_def split: if_splits)
  let ?h = "upd_node n (\<lambda>x. x\<lparr>ref_count := ref_count x + k\<rparr>) h'"
  have wp: "wp_of ?h = (wp_of h)(c := insert n (wp_of h c))"
    using add_to_waiting_parents_wp [OF assms(2)] by (auto simp: wp_of_def fun_eq_iff)
  have fin: "finite {a. p \<in> wp_of h a}" for p
    using assms(1) waits_finite_into by (simp add: refs_ok_def)
  have "{a. p \<in> wp_of ?h a} = (if p = n then insert c {a. n \<in> wp_of h a} else {a. p \<in> wp_of h a})" for p
    using False unfolding wp by auto
  then have "ref_count (nodes ?h p) = int (card {a. p \<in> wp_of ?h a})" for p
    using assms(1) False fin [of n] by (auto simp: refs_ok_def rc k)
  moreover have "finite {a. wp_of ?h a \<noteq> {}}"
  proof (rule finite_subset)
    show "{a. wp_of ?h a \<noteq> {}} \<subseteq> insert c {a. wp_of h a \<noteq> {}}" unfolding wp by (auto split: if_splits)
  qed (use assms(1) in \<open>simp add: refs_ok_def waits_finite_def\<close>)
  moreover have "finite (wp_of ?h a)" for a
    using assms(1) unfolding wp by (simp add: refs_ok_def waits_finite_def)
  ultimately show ?thesis by (simp add: refs_ok_def waits_finite_def)
qed

lemma refs_ok_wait_for: "refs_ok h \<Longrightarrow> refs_ok (wait_for n cs h)"
  by (induction cs arbitrary: h) (auto split: prod.splits intro: refs_ok_wait_one)

lemma refs_ok_dropped:
  assumes "refs_ok h"
  shows "refs_ok (dropped g R h)"
proof -
  have wp: "wp_of (dropped g R h) = (\<lambda>c. if c \<in> R then {} else wp_of h c)"
    by (rule ext) (simp add: wp_of_def dropped_def)
  have fin: "finite {c. p \<in> wp_of h c}" for p
    using assms waits_finite_into by (simp add: refs_ok_def)
  have "ref_count (nodes (dropped g R h) p) = int (card {c. p \<in> wp_of (dropped g R h) c})" for p
  proof -
    let ?A = "{c. p \<in> wp_of h c}" and ?B = "{c \<in> R. p \<in> wp_of h c}"
    have sub: "?B \<subseteq> ?A" by auto
    have "{c. p \<in> wp_of (dropped g R h) c} = ?A - ?B" unfolding wp by auto
    then have "int (card {c. p \<in> wp_of (dropped g R h) c}) = int (card ?A) - int (card ?B)"
      using fin [of p] sub card_mono [OF fin [of p] sub]
      by (simp add: card_Diff_subset [OF finite_subset [OF sub]] of_nat_diff)
    then show ?thesis using assms
      by (simp add: refs_ok_def dropped_def) (simp add: wp_of_def)
  qed
  moreover have "finite {c. wp_of (dropped g R h) c \<noteq> {}}"
    by (rule finite_subset [of _ "{c. wp_of h c \<noteq> {}}"])
      (use assms in \<open>auto simp: wp refs_ok_def waits_finite_def\<close>)
  ultimately show ?thesis using assms by (simp add: refs_ok_def waits_finite_def wp)
qed

lemma consider_refs_ok:
  assumes "refs_ok (tm_heap t)"
  shows "refs_ok (tm_heap (snd (consider_node cfg n t)))"
proof (cases "get_state n (tm_heap t) > PENDING")
  case True
  then show ?thesis using assms by (simp add: consider_node_def)
next
  case False
  let ?h0 = "if get_state n (tm_heap t) = NO_STATE then set_state n PENDING (tm_heap t) else tm_heap t"
  obtain e h1 where g: "get_executor (cf_hk cfg) n ?h0 = (e, h1)" by fastforce
  obtain r h2 where c: "get_all_children (cf_hk cfg) e h1 = (r, h2)" by fastforce
  have "refs_ok ?h0" using assms by (simp add: refs_ok_set_state)
  then have "refs_ok h1"
    using same_walk_get_executor [of ?h0 "cf_hk cfg" n] g by (auto intro: refs_ok_same_walk)
  then have w2: "refs_ok h2"
    using same_walk_get_all_children [of h1 "cf_hk cfg" e] c by (auto intro: refs_ok_same_walk)
  have w3: "refs_ok (snd (get_action_targets (cf_hk cfg) e h2))"
    by (rule refs_ok_same_walk [OF same_walk_get_action_targets w2])
  have w4: "refs_ok (snd (get_action_side_effects (cf_hk cfg) e h2))"
    by (rule refs_ok_same_walk [OF same_walk_get_action_side_effects w2])
  have f: "refs_ok (fold (\<lambda>m. set_state m FAILED) ts h)" if "refs_ok h" for ts h
    using that by (auto intro: refs_ok_fold refs_ok_set_state)
  have s: "refs_ok (wait_side_effects n ses h)" if "refs_ok h" for ses h
    using that by (auto simp: wait_side_effects_def intro: refs_ok_fold refs_ok_wait_s_e)
  show ?thesis
    using False w2 w3 w4 refs_ok_wait_for [OF w2]
    by (auto simp: consider_node_def g c Let_def f s split: sum.split prod.split)
qed

lemma find_next_candidate_heap [simp]:
  "tm_heap (snd (find_next_candidate cfg t)) = tm_heap t"
  by (auto simp: find_next_candidate_def Let_def split: prod.splits)


section \<open>What the walk hands out\<close>

lemma get_state_set_state [simp]: "get_state m (set_state n s h) = (if m = n then s else get_state m h)"
  by (simp add: get_state_def set_state_def)

lemma get_state_same_walk: "same_walk h h' \<Longrightarrow> get_state n h' = get_state n h"
  by (simp add: get_state_def same_walkD)

text \<open>
  The lists \<open>consider_node\<close> has looked at when it hands out a node: the children it
  obtained from the executor, the prerequisites and the side effects of the actions.
\<close>

definition ready_by :: "config \<Rightarrow> nid \<Rightarrow> heap \<Rightarrow> nid list \<Rightarrow> nid list \<Rightarrow> bool" where
  "ready_by cfg n h kids ses \<longleftrightarrow>
     (\<exists>e h0 h1 h2 cs.
        get_executor (cf_hk cfg) n h0 = (e, h1) \<and>
        get_all_children (cf_hk cfg) e h1 = (Inr cs, h2) \<and>
        kids = get_all_prerequisites e h2 @ cs \<and>
        get_action_side_effects (cf_hk cfg) e h2 = (Inr ses, h))"

lemma consider_found:
  assumes "consider_node cfg n t = (Found m, t')" and "ready_exc t' = None"
  shows "m = n \<and> get_state n (tm_heap t') = PENDING \<and>
    (\<exists>kids ses. ready_by cfg n (tm_heap t') kids ses \<and>
       (\<forall>c\<in>set kids. done_state (get_state c (tm_heap t'))) \<and>
       (\<forall>s\<in>set ses. get_state s (tm_heap t') \<noteq> EXECUTING))"
proof -
  let ?h = "tm_heap t"
  let ?start = "if get_state n ?h = NO_STATE then set_state n PENDING ?h else ?h"
  have le: "\<not> get_state n ?h > PENDING" using assms(1) by (auto simp: consider_node_def)
  then have st0: "get_state n ?start = PENDING" using le
    by (cases "get_state n (tm_heap t)") (simp_all add: nstate_order)
  obtain e h1 where g: "get_executor (cf_hk cfg) n ?start = (e, h1)" by fastforce
  obtain r h2 where c: "get_all_children (cf_hk cfg) e h1 = (r, h2)" by fastforce
  obtain q h3 where a: "get_action_side_effects (cf_hk cfg) e h2 = (q, h3)" by fastforce
  have w: "same_walk ?start h1" "same_walk h1 h2" "same_walk h2 h3"
    using same_walk_get_executor [of ?start "cf_hk cfg" n] g same_walk_get_all_children [of h1 "cf_hk cfg" e] c
      same_walk_get_action_side_effects [of h2 "cf_hk cfg" e] a by auto
  note gs = get_state_same_walk [OF w(1)] get_state_same_walk [OF w(2)] get_state_same_walk [OF w(3)]
  obtain cs where r: "r = Inr cs"
    using assms le by (cases r) (auto simp: consider_node_def g c Let_def)
  let ?kids = "get_all_prerequisites e h2 @ cs"
  have nf: "\<not> list_ex (\<lambda>c. get_state c h2 = FAILED) ?kids"
    and nr: "filter (\<lambda>c. get_state c h2 \<le> EXECUTING) ?kids = []"
    using assms le by (auto simp: consider_node_def g c r Let_def split: if_splits sum.splits prod.splits)
  obtain ses where q: "q = Inr ses"
    using assms le nf nr by (cases q) (auto simp: consider_node_def g c r a Let_def)
  have busy: "filter (\<lambda>s. get_state s h3 = EXECUTING) ses = []"
    using assms le nf nr by (auto simp: consider_node_def g c r a q Let_def split: if_splits)
  have res: "m = n" "tm_heap t' = h3"
    using assms le nf nr busy by (auto simp: consider_node_def g c r a q Let_def)
  have "done_state (get_state x h3)" if x: "x \<in> set ?kids" for x
  proof -
    have "get_state x h2 \<noteq> FAILED" "\<not> get_state x h2 \<le> EXECUTING"
      using nf nr x by (auto simp: list_ex_iff filter_empty_conv)
    then show ?thesis unfolding gs(3)
      by (cases "get_state x h2") (auto simp: done_state_def nstate_order)
  qed
  moreover have "get_state x h3 \<noteq> EXECUTING" if "x \<in> set ses" for x
    using busy that by (auto simp: filter_empty_conv)
  moreover have "ready_by cfg n h3 ?kids ses"
    unfolding ready_by_def using g c [unfolded r] a [unfolded q] by blast
  moreover have "get_state n h3 = PENDING" using st0 by (simp only: gs)
  ultimately show ?thesis unfolding res by blast
qed

text \<open>
  The other way out: obtaining the children raised \<open>x\<close>, a \<open>SystemExit\<close> made into the
  \<open>ExplicitExit\<close> of the node, and nothing was checked.
\<close>

definition scan_raised :: "config \<Rightarrow> nid \<Rightarrow> heap \<Rightarrow> exn \<Rightarrow> bool" where
  "scan_raised cfg n h x \<longleftrightarrow>
     (\<exists>e h0 h1 y.
        get_executor (cf_hk cfg) n h0 = (e, h1) \<and>
        get_all_children (cf_hk cfg) e h1 = (Inl y, h) \<and>
        x = (case y of SystemExit c \<Rightarrow> ExplicitExit n c | _ \<Rightarrow> y))"

lemma consider_scan_raised:
  assumes "consider_node cfg n t = (Found m, t')" and "ready_exc t = None" and "ready_exc t' = Some x"
  shows "m = n \<and> get_state n (tm_heap t') = PENDING \<and> scan_raised cfg n (tm_heap t') x"
proof -
  let ?h = "tm_heap t"
  let ?start = "if get_state n ?h = NO_STATE then set_state n PENDING ?h else ?h"
  have le: "\<not> get_state n ?h > PENDING" using assms(1) by (auto simp: consider_node_def)
  then have st0: "get_state n ?start = PENDING"
    by (cases "get_state n (tm_heap t)") (simp_all add: nstate_order)
  obtain e h1 where g: "get_executor (cf_hk cfg) n ?start = (e, h1)" by fastforce
  obtain r h2 where c: "get_all_children (cf_hk cfg) e h1 = (r, h2)" by fastforce
  have w: "same_walk ?start h1" "same_walk h1 h2"
    using same_walk_get_executor [of ?start "cf_hk cfg" n] g same_walk_get_all_children [of h1 "cf_hk cfg" e] c
    by auto
  show ?thesis
  proof (cases r)
    case (Inl y)
    then have res: "m = n" "tm_heap t' = h2" "x = (case y of SystemExit k \<Rightarrow> ExplicitExit n k | _ \<Rightarrow> y)"
      using assms le by (auto simp: consider_node_def g c Let_def)
    moreover have "get_state n h2 = PENDING"
      using st0 get_state_same_walk [OF w(1)] get_state_same_walk [OF w(2)] by simp
    ultimately show ?thesis unfolding scan_raised_def using g c [unfolded Inl] by blast
  next
    case (Inr cs)
    then show ?thesis using assms le
      by (auto simp: consider_node_def g c Let_def split: if_splits sum.splits prod.splits)
  qed
qed

text \<open>What every returning run of the loop keeps, and how it ended.\<close>

definition loop_end :: "config \<Rightarrow> (tm \<Rightarrow> bool) \<Rightarrow> exn + nid option \<Rightarrow> tm \<Rightarrow> bool" where
  "loop_end cfg I r t' \<longleftrightarrow>
     (case r of
        Inl x \<Rightarrow> \<exists>n t1. I t1 \<and> consider_node cfg n t1 = (Raised x, t')
      | Inr None \<Rightarrow> \<exists>t1. I t1 \<and> next_candidate cfg t1 = Some (None, t')
      | Inr (Some m) \<Rightarrow> \<exists>n t1. I t1 \<and> consider_node cfg n t1 = (Found m, t'))"

lemma ready_loop_end:
  assumes "ready_loop cfg t = Some (r, t')" and "I t"
    and next_I: "\<And>t c t1. I t \<Longrightarrow> next_candidate cfg t = Some (c, t1) \<Longrightarrow> I t1"
    and skip_I: "\<And>n t t1. I t \<Longrightarrow> consider_node cfg n t = (Skip, t1) \<Longrightarrow> I t1"
  shows "loop_end cfg I r t'"
proof -
  let ?P = "\<lambda>c0 s q. c0 = cfg \<longrightarrow> I s \<longrightarrow> loop_end cfg I (fst q) (snd q)"
  have "?P cfg t (r, t')"
  proof (rule ready_loop.raw_induct [of ?P, OF _ assms(1)], intro impI)
    fix loop c0 s q
    assume IH: "\<And>c0 s q. loop c0 s = Some q \<Longrightarrow> ?P c0 s q"
      and body: "(case next_candidate c0 s of None \<Rightarrow> None | Some (None, t1) \<Rightarrow> Some (Inr None, t1)
        | Some (Some n, t1) \<Rightarrow> (case consider_node c0 n t1 of (Skip, t2) \<Rightarrow> loop c0 t2
             | (Found m, t2) \<Rightarrow> Some (Inr (Some m), t2) | (Raised x, t2) \<Rightarrow> Some (Inl x, t2))) = Some q"
      and c0: "c0 = cfg" and I: "I s"
    obtain c t1 where c: "next_candidate cfg s = Some (c, t1)"
      using body c0 by (auto split: option.splits)
    have I1: "I t1" by (rule next_I [OF I c])
    show "loop_end cfg I (fst q) (snd q)"
    proof (cases c)
      case None
      then show ?thesis using body c I c0 by (auto simp: loop_end_def)
    next
      case (Some m)
      obtain o2 t2 where o: "consider_node cfg m t1 = (o2, t2)" by fastforce
      have "I t2" if "o2 = Skip" using skip_I [OF I1, of m t2] o that by simp
      moreover have "loop_end cfg I (Inr (Some k)) t2" if "o2 = Found k" for k
        using o I1 that unfolding loop_end_def by simp blast
      moreover have "loop_end cfg I (Inl x) t2" if "o2 = Raised x" for x
        using o I1 that unfolding loop_end_def by simp blast
      ultimately show ?thesis
        using body c Some o c0 IH [of cfg t2 q] by (cases o2) auto
    qed
  qed
  then show ?thesis using assms(2) by simp
qed

lemma ready_loop_inv:
  assumes "ready_loop cfg t = Some (r, t')" and "I t"
    and next_I: "\<And>t c t1. I t \<Longrightarrow> next_candidate cfg t = Some (c, t1) \<Longrightarrow> I t1"
    and step_I: "\<And>n t. I t \<Longrightarrow> I (snd (consider_node cfg n t))"
  shows "I t'"
proof -
  have skip: "I t1" if "I s" and "consider_node cfg n s = (Skip, t1)" for n s t1
    using step_I [OF that(1), of n] that(2) by simp
  have "loop_end cfg I r t'"
    by (rule ready_loop_end [where I = I, OF assms(1,2)]) (erule (1) next_I, erule (1) skip)
  then show ?thesis using next_I step_I
    by (auto simp: loop_end_def split: sum.splits option.splits) (metis snd_conv)+
qed

lemma next_candidate_ready_exc:
  assumes "next_candidate cfg t = Some (c, t')"
  shows "ready_exc t' = ready_exc t"
proof -
  have w: "ready_exc t2 = ready_exc t \<and> candidates t2 = []"
    if "will_not_build cfg ns f (t\<lparr>candidates := []\<rparr>) = Some t2" for ns f t2
    using that by (auto simp: will_not_build_def)
  have "ready_exc t2 = ready_exc t" if run: "no_next_candidate cfg t = Some t2" for t2
  proof (cases "candidates t = []")
    case True
    then show ?thesis using that by (simp add: no_next_candidate.simps)
  next
    case False
    then obtain t3 where t3: "will_not_build cfg (candidates t) (\<lambda>_ h. h) (t\<lparr>candidates := []\<rparr>) = Some t3"
      and "no_next_candidate cfg t3 = Some t2"
      using run by (auto simp: no_next_candidate.simps [of cfg t] split: option.splits)
    then show ?thesis using w [OF t3] by (simp add: no_next_candidate.simps)
  qed
  then show ?thesis using assms
    by (auto simp: next_candidate_def find_next_candidate_def Let_def split: if_splits prod.splits)
qed

lemma consider_skip_ready_exc: "consider_node cfg n t = (Skip, t') \<Longrightarrow> ready_exc t' = ready_exc t"
  by (auto simp: consider_node_def Let_def split: if_splits sum.splits prod.splits)

lemma ready_loop_found:
  assumes "ready_loop cfg t = Some (Inr (Some n), t')" and "ready_exc t = None"
  shows "get_state n (tm_heap t') = PENDING \<and>
    (case ready_exc t' of
       Some x \<Rightarrow> scan_raised cfg n (tm_heap t') x
     | None \<Rightarrow> \<exists>kids ses. ready_by cfg n (tm_heap t') kids ses \<and>
         (\<forall>c\<in>set kids. done_state (get_state c (tm_heap t'))) \<and>
         (\<forall>s\<in>set ses. get_state s (tm_heap t') \<noteq> EXECUTING))"
proof -
  have "loop_end cfg (\<lambda>t. ready_exc t = None) (Inr (Some n)) t'"
    by (rule ready_loop_end [where I = "\<lambda>t. ready_exc t = None", OF assms])
      (auto dest: next_candidate_ready_exc consider_skip_ready_exc)
  then obtain m t1 where "ready_exc t1 = None" and m: "consider_node cfg m t1 = (Found n, t')"
    by (auto simp: loop_end_def)
  then show ?thesis using consider_found [OF m] consider_scan_raised [OF m]
    by (cases "ready_exc t'") auto
qed

section \<open>The walk ends\<close>

text \<open>
  While finitely many nodes have not been visited, the loop returns: a round visits a
  node for the first time, or takes a top-level target, or takes a candidate that was
  visited before and adds only unvisited ones.
\<close>

definition unvisited :: "tm \<Rightarrow> nid set" where
  "unvisited t = {n. get_state n (tm_heap t) = NO_STATE}"

definition old_candidates :: "tm \<Rightarrow> nid list" where
  "old_candidates t = filter (\<lambda>n. n \<notin> unvisited t) (candidates t)"

definition walk_measure :: "tm \<Rightarrow> nat \<times> nat \<times> nat" where
  "walk_measure t = (card (unvisited t), length (top_targets_left t), length (old_candidates t))"

abbreviation walk_less :: "((nat \<times> nat \<times> nat) \<times> (nat \<times> nat \<times> nat)) set" where
  "walk_less \<equiv> less_than <*lex*> less_than <*lex*> less_than"

lemma get_state_wait_for [simp]: "get_state m (wait_for n cs h) = get_state m h"
proof (induction cs arbitrary: h)
  case (Cons c cs)
  have "get_state m (upd_node n (\<lambda>x. x\<lparr>ref_count := ref_count x + k\<rparr>) h') = get_state m h'" for k h'
    by (simp add: get_state_def)
  moreover have "get_state m (snd (add_to_waiting_parents c n h)) = get_state m h"
    by (simp add: get_state_def add_to_waiting_parents_def)
  ultimately show ?case using Cons.IH by (auto split: prod.splits)
qed simp

lemma get_state_wait_side_effects [simp]: "get_state m (wait_side_effects n ses h) = get_state m h"
  unfolding wait_side_effects_def
  by (induction ses arbitrary: h) (auto simp: add_to_waiting_s_e_def get_state_def)

lemma get_state_fold_failed:
  "get_state m (fold (\<lambda>m. set_state m s) ts h) = (if m \<in> set ts then s else get_state m h)"
  by (induction ts arbitrary: h) auto

lemma consider_progress:
  assumes "consider_node cfg n t = (Skip, t')" and ord: "\<And>xs. set (cf_order cfg xs) \<subseteq> set xs"
  shows "top_targets_left t' = top_targets_left t" and "unvisited t' \<subseteq> unvisited t - {n}"
    and "unvisited t' = unvisited t \<Longrightarrow> length (old_candidates t') = length (old_candidates t)"
proof -
  have "top_targets_left t' = top_targets_left t \<and> unvisited t' \<subseteq> unvisited t - {n} \<and>
    (unvisited t' = unvisited t \<longrightarrow> length (old_candidates t') = length (old_candidates t))"
  proof (cases "get_state n (tm_heap t) > PENDING")
    case True
    then show ?thesis using assms(1) by (auto simp: consider_node_def unvisited_def nstate_order)
  next
    case False
    let ?start = "if get_state n (tm_heap t) = NO_STATE then set_state n PENDING (tm_heap t) else tm_heap t"
    obtain e h1 where g: "get_executor (cf_hk cfg) n ?start = (e, h1)" by fastforce
    obtain r h2 where c: "get_all_children (cf_hk cfg) e h1 = (r, h2)" by fastforce
    have w: "same_walk ?start h1" "same_walk h1 h2"
      using same_walk_get_executor [of ?start "cf_hk cfg" n] g
        same_walk_get_all_children [of h1 "cf_hk cfg" e] c by auto
    have st: "get_state m h2 = get_state m ?start" for m
      by (simp only: get_state_same_walk [OF w(1)] get_state_same_walk [OF w(2)])
    have st': "get_state m (snd (get_action_targets (cf_hk cfg) e h2)) = get_state m h2"
      "get_state m (snd (get_action_side_effects (cf_hk cfg) e h2)) = get_state m h2" for m
      by (rule get_state_same_walk [OF same_walk_get_action_targets]
          get_state_same_walk [OF same_walk_get_action_side_effects])+
    obtain cs where r: "r = Inr cs"
      using assms(1) False by (cases r) (auto simp: consider_node_def g c)
    let ?new = "cf_order cfg (rev (filter (\<lambda>c. get_state c h2 = NO_STATE) (get_all_prerequisites e h2 @ cs)))"
    have new: "get_state x ?start = NO_STATE" if "x \<in> set ?new" for x
    proof -
      have "x \<in> set (rev (filter (\<lambda>c. get_state c h2 = NO_STATE) (get_all_prerequisites e h2 @ cs)))"
        using ord that by blast
      then have "get_state x h2 = NO_STATE" by auto
      then show ?thesis by (simp only: st)
    qed
    have res: "candidates t' = candidates t @ ?new" "top_targets_left t' = top_targets_left t"
      "\<And>m. get_state m (tm_heap t') = get_state m h2 \<or> get_state m (tm_heap t') = FAILED"
      using assms(1) False st'
      by (auto simp: consider_node_def g c r Let_def get_state_fold_failed
          split: if_splits sum.splits prod.splits)
    have sub: "unvisited t' \<subseteq> {m. get_state m ?start = NO_STATE}"
    proof
      fix m assume "m \<in> unvisited t'"
      then have "get_state m (tm_heap t') = NO_STATE" by (simp add: unvisited_def)
      then have "get_state m h2 = NO_STATE" using res(3) [of m] by auto
      then show "m \<in> {m. get_state m ?start = NO_STATE}" by (simp only: st mem_Collect_eq)
    qed
    have start: "{m. get_state m ?start = NO_STATE} = unvisited t - {n}"
      by (auto simp: unvisited_def)
    have "filter (\<lambda>x. x \<notin> unvisited t') ?new = []" if "unvisited t' = unvisited t"
    proof -
      have "x \<in> unvisited t" if "x \<in> set ?new" for x using new [OF that] start by blast
      then show ?thesis unfolding that filter_empty_conv by blast
    qed
    then show ?thesis using sub start res(1,2) by (auto simp: old_candidates_def)
  qed
  then show "top_targets_left t' = top_targets_left t" "unvisited t' \<subseteq> unvisited t - {n}"
    "unvisited t' = unvisited t \<Longrightarrow> length (old_candidates t') = length (old_candidates t)" by auto
qed

lemma next_candidate_cases:
  assumes "next_candidate cfg t = Some (Some n, t1)"
  shows "tm_heap t1 = tm_heap t \<and>
    (candidates t = candidates t1 @ [n] \<and> top_targets_left t1 = top_targets_left t \<or>
     length (top_targets_left t1) < length (top_targets_left t))"
  using assms
  by (auto simp: next_candidate_def find_next_candidate_def Let_def split: if_splits prod.splits)

lemma round_less:
  assumes "next_candidate cfg t = Some (Some n, t1)" and "consider_node cfg n t1 = (Skip, t2)"
    and "finite (unvisited t)" and "\<And>xs. set (cf_order cfg xs) \<subseteq> set xs"
  shows "(walk_measure t2, walk_measure t) \<in> walk_less"
proof -
  note p = consider_progress [OF assms(2,4)]
  have u1: "unvisited t1 = unvisited t"
    using next_candidate_cases [OF assms(1)] by (simp add: unvisited_def)
  show ?thesis
  proof (cases "unvisited t2 = unvisited t")
    case False
    then have "card (unvisited t2) < card (unvisited t)"
      using p(2) u1 assms(3) by (intro psubset_card_mono) auto
    then show ?thesis by (simp add: walk_measure_def)
  next
    case True
    then have n: "n \<notin> unvisited t" using p(2) u1 by auto
    have len: "length (old_candidates t2) = length (old_candidates t1)" using p(3) True u1 by simp
    show ?thesis using next_candidate_cases [OF assms(1)] p(1) n len u1 True
      by (auto simp: walk_measure_def old_candidates_def)
  qed
qed

lemma ready_loop_returns:
  assumes ho: "enumerates (cf_ho cfg)" and ord: "\<And>xs. set (cf_order cfg xs) \<subseteq> set xs"
    and "refs_ok (tm_heap t)" and "finite (unvisited t)"
  shows "\<exists>r. ready_loop cfg t = Some r"
  using assms(3,4)
proof (induction "walk_measure t" arbitrary: t
    rule: wf_induct_rule [OF wf_lex_prod [OF wf_less_than wf_lex_prod [OF wf_less_than wf_less_than]]])
  case (1 t)
  have wf: "waits_finite (tm_heap t)" using 1(2) by (simp add: refs_ok_def)
  obtain c t1 where c: "next_candidate cfg t = Some (c, t1)"
    using no_next_candidate_effect [OF ho wf]
    by (cases "stopped t") (auto simp: next_candidate_def intro: prod.exhaust)
  show ?case
  proof (cases c)
    case None
    then show ?thesis using c by (subst ready_loop.simps) simp
  next
    case (Some n)
    obtain o2 t2 where o: "consider_node cfg n t1 = (o2, t2)" by fastforce
    have heap: "tm_heap t1 = tm_heap t" using next_candidate_cases c Some by blast
    show ?thesis
    proof (cases o2)
      case Skip
      have "refs_ok (tm_heap t2)"
        using consider_refs_ok [of t1 cfg n] 1(2) heap o by simp
      moreover have "unvisited t2 \<subseteq> unvisited t"
        using consider_progress(2) [OF o [unfolded Skip] ord] heap by (auto simp: unvisited_def)
      then have "finite (unvisited t2)" using 1(3) finite_subset by blast
      moreover have "(walk_measure t2, walk_measure t) \<in> walk_less"
        using round_less [OF c [unfolded Some] o [unfolded Skip] 1(3) ord] .
      ultimately have "\<exists>r. ready_loop cfg t2 = Some r" by (intro 1(1)) auto
      then show ?thesis using c Some o Skip by (subst ready_loop.simps) simp
    qed (use c Some o in \<open>subst ready_loop.simps, simp\<close>)+
  qed
qed

lemma no_next_candidate_refs_ok:
  assumes "enumerates (cf_ho cfg)" and "refs_ok (tm_heap t)"
    and "no_next_candidate cfg t = Some t'"
  shows "refs_ok (tm_heap t')"
proof (cases "candidates t = []")
  case True
  then show ?thesis using assms by (simp add: no_next_candidate.simps)
next
  case False
  have "will_not_build cfg (candidates t) (\<lambda>_ h. h) (t\<lparr>candidates := []\<rparr>) =
    (let R = reached (wp_of (tm_heap t)) (set (candidates t))
     in Some (t\<lparr>candidates := [], pending_children := pending_children t - R,
                tm_heap := dropped (\<lambda>s. s) R (tm_heap t)\<rparr>))"
    using assms will_not_build_effect [of cfg "\<lambda>s. s" "t\<lparr>candidates := []\<rparr>"]
    by (simp add: restate_id Let_def refs_ok_def)
  then show ?thesis using assms(2,3) False
    by (auto simp: no_next_candidate.simps [of cfg t] no_next_candidate.simps [of cfg "t\<lparr>candidates := [], pending_children := pend, tm_heap := h\<rparr>" for pend h]
        Let_def intro: refs_ok_dropped)
qed

lemma next_candidate_refs_ok:
  assumes "enumerates (cf_ho cfg)" and "refs_ok (tm_heap t)"
    and "next_candidate cfg t = Some (c, t1)"
  shows "refs_ok (tm_heap t1)"
proof (cases "stopped t")
  case True
  then show ?thesis using assms no_next_candidate_refs_ok [OF assms(1,2)]
    by (auto simp: next_candidate_def)
next
  case False
  then have "t1 = snd (find_next_candidate cfg t)" using assms(3) by (auto simp: next_candidate_def)
  then show ?thesis using assms(2) by simp
qed

lemma find_next_ready_refs_ok:
  assumes "enumerates (cf_ho cfg)" and "refs_ok (tm_heap t)"
    and "find_next_ready_node cfg t = Some (r, t')"
  shows "refs_ok (tm_heap t')"
  using ready_loop_inv [of cfg "t\<lparr>ready_exc := None\<rparr>" r t' "\<lambda>t. refs_ok (tm_heap t)"] assms
    consider_refs_ok next_candidate_refs_ok [OF assms(1)]
  by (auto simp: find_next_ready_node_def)

section \<open>Finding cycles\<close>

fun path :: "(nid \<Rightarrow> nid set) \<Rightarrow> nid list \<Rightarrow> bool" where
  "path wp (a # b # xs) \<longleftrightarrow> b \<in> wp a \<and> path wp (b # xs)"
| "path wp xs \<longleftrightarrow> True"

lemma path_snoc: "path wp xs \<Longrightarrow> xs \<noteq> [] \<Longrightarrow> n \<in> wp (last xs) \<Longrightarrow> path wp (xs @ [n])"
  by (induction wp xs rule: path.induct) auto

definition on_cycle :: "(nid \<Rightarrow> nid set) \<Rightarrow> nid list \<Rightarrow> bool" where
  "on_cycle wp c \<longleftrightarrow> length c \<ge> 2 \<and> hd c = last c \<and> path wp c"

lemma find_cycle_sound_gen:
  shows "find_cycle ho wp k stack V = Some (Some c, V') \<Longrightarrow> stack \<noteq> [] \<Longrightarrow> path wp stack \<Longrightarrow>
      (\<And>n. set (ho (wp n)) \<subseteq> wp n) \<Longrightarrow> on_cycle wp c \<and> hd c = hd stack"
    and "cycle_kids ho wp k ns stack V = Some (Some c, V') \<Longrightarrow> stack \<noteq> [] \<Longrightarrow> path wp stack \<Longrightarrow>
      (\<And>n. set (ho (wp n)) \<subseteq> wp n) \<Longrightarrow> set ns \<subseteq> wp (last stack) \<Longrightarrow> on_cycle wp c \<and> hd c = hd stack"
proof (induction ho wp k stack V and ho wp k ns stack V
    arbitrary: c V' and c V' rule: find_cycle_cycle_kids.induct)
  case (2 ho wp k stack V)
  then show ?case by (auto split: if_splits)
next
  case (4 ho wp k n ns stack V)
  show ?case
  proof (cases "hd stack = n")
    case True
    then have c: "c = stack @ [n]" using 4(3) by simp
    have "path wp c" unfolding c using 4(4,5,7) by (intro path_snoc) auto
    then show ?thesis using True 4(4) by (cases stack) (auto simp: c on_cycle_def)
  next
    case False
    obtain r V1 where r: "find_cycle ho wp k (stack @ [n]) V = Some (r, V1)"
      using 4(3) False by (auto split: option.splits)
    have p: "path wp (stack @ [n])" using 4(4,5,7) by (intro path_snoc) auto
    show ?thesis
    proof (cases r)
      case None
      then have "cycle_kids ho wp k ns stack V1 = Some (Some c, V')" using 4(3) False r by simp
      with 4(2) [OF False r refl None this 4(4-6)] 4(7) show ?thesis by simp
    next
      case (Some s)
      then have "s = c" using 4(3) False r by simp
      with 4(1) [OF False, of s V1] 4(4-6) r Some p show ?thesis by auto
    qed
  qed
qed auto

lemma find_cycle_none_gen:
  shows "find_cycle ho wp k stack V = Some (None, V') \<Longrightarrow> stack \<noteq> [] \<Longrightarrow>
      (\<And>n. set (ho (wp n)) = wp n) \<Longrightarrow>
      V \<subseteq> V' \<and> last stack \<in> V' \<and> (\<forall>v\<in>V' - V. wp v \<subseteq> V' \<and> hd stack \<notin> wp v)"
    and "cycle_kids ho wp k ns stack V = Some (None, V') \<Longrightarrow> stack \<noteq> [] \<Longrightarrow>
      (\<And>n. set (ho (wp n)) = wp n) \<Longrightarrow>
      V \<subseteq> V' \<and> set ns \<subseteq> V' \<and> hd stack \<notin> set ns \<and> (\<forall>v\<in>V' - V. wp v \<subseteq> V' \<and> hd stack \<notin> wp v)"
proof (induction ho wp k stack V and ho wp k ns stack V
    arbitrary: V' and V' rule: find_cycle_cycle_kids.induct)
  case (2 ho wp k stack V)
  show ?case
  proof (cases "last stack \<in> V")
    case True
    then show ?thesis using 2(2) by auto
  next
    case False
    have "insert (last stack) V \<subseteq> V' \<and> set (ho (wp (last stack))) \<subseteq> V' \<and>
        hd stack \<notin> set (ho (wp (last stack))) \<and>
        (\<forall>v\<in>V' - insert (last stack) V. wp v \<subseteq> V' \<and> hd stack \<notin> wp v)"
      by (rule 2(1) [OF False]) (use 2 False in auto)
    then show ?thesis using 2(4) by auto
  qed
next
  case (4 ho wp k n ns stack V)
  have ne: "hd stack \<noteq> n" using 4(3) by auto
  obtain V1 where r: "find_cycle ho wp k (stack @ [n]) V = Some (None, V1)"
    and rest: "cycle_kids ho wp k ns stack V1 = Some (None, V')"
    using 4(3) ne by (auto split: option.splits)
  have a: "V \<subseteq> V1 \<and> last (stack @ [n]) \<in> V1 \<and>
      (\<forall>v\<in>V1 - V. wp v \<subseteq> V1 \<and> hd (stack @ [n]) \<notin> wp v)"
    by (rule 4(1) [OF ne r]) (use 4(5) in auto)
  have b: "V1 \<subseteq> V' \<and> set ns \<subseteq> V' \<and> hd stack \<notin> set ns \<and>
      (\<forall>v\<in>V' - V1. wp v \<subseteq> V' \<and> hd stack \<notin> wp v)"
    by (rule 4(2) [OF ne r refl _ rest 4(4,5)]) simp
  have "hd (stack @ [n]) = hd stack" using 4(4) by simp
  then show ?case using a b ne by (auto; blast)
qed auto

lemma path_closed:
  "path wp c \<Longrightarrow> hd c \<in> V \<Longrightarrow> (\<And>v. v \<in> V \<Longrightarrow> wp v \<subseteq> V) \<Longrightarrow> set c \<subseteq> V \<or> c = []"
  by (induction wp c rule: path.induct) auto

lemma on_cycle_pred: "on_cycle wp c \<Longrightarrow> \<exists>v\<in>set c. hd c \<in> wp v"
proof -
  assume c: "on_cycle wp c"
  have "path wp c \<Longrightarrow> length c \<ge> 2 \<Longrightarrow> \<exists>v\<in>set c. last c \<in> wp v" for c
    by (induction wp c rule: path.induct) (auto simp: Suc_le_eq neq_Nil_conv split: if_splits)
  then show ?thesis using c by (auto simp: on_cycle_def)
qed

lemma find_cycle_complete:
  assumes "find_cycle ho wp k [n] {} = Some (None, V)" and "\<And>n. set (ho (wp n)) = wp n"
  shows "\<not> (\<exists>c. on_cycle wp c \<and> hd c = n)"
proof
  assume "\<exists>c. on_cycle wp c \<and> hd c = n"
  then obtain c where c: "on_cycle wp c" "hd c = n" by blast
  have V: "n \<in> V" "\<And>v. v \<in> V \<Longrightarrow> wp v \<subseteq> V \<and> n \<notin> wp v"
    using find_cycle_none_gen(1) [OF assms(1) _ assms(2)] by auto
  have "set c \<subseteq> V" using path_closed [of wp c V] c V by (auto simp: on_cycle_def)
  moreover obtain v where "v \<in> set c" "n \<in> wp v" using on_cycle_pred [OF c(1)] c(2) by blast
  ultimately show False using V(2) by blast
qed

text \<open>The recursion is at most one level deeper than there are nodes to visit.\<close>

lemma find_cycle_mono:
  shows "find_cycle ho wp k stack V = Some (None, V') \<Longrightarrow> V \<subseteq> V'"
    and "cycle_kids ho wp k ns stack V = Some (None, V') \<Longrightarrow> V \<subseteq> V'"
  by (induction ho wp k stack V and ho wp k ns stack V
      arbitrary: V' and V' rule: find_cycle_cycle_kids.induct)
    (auto split: if_splits option.splits; blast)+

lemma find_cycle_returns:
  assumes "finite U" and "\<And>n. n \<in> U \<Longrightarrow> wp n \<subseteq> U" and "\<And>n. set (ho (wp n)) = wp n"
  shows "last stack \<in> U \<Longrightarrow> card (U - V) < k \<Longrightarrow> \<exists>r. find_cycle ho wp k stack V = Some r"
proof (induction k arbitrary: stack V)
  case (Suc k)
  have kids: "\<exists>r. cycle_kids ho wp k ns stack V' = Some r"
    if "set ns \<subseteq> U" "card (U - V') < k" for ns V'
    using that
  proof (induction ns arbitrary: V')
    case (Cons n ns)
    obtain r V1 where r: "find_cycle ho wp k (stack @ [n]) V' = Some (r, V1)"
      using Suc.IH [of "stack @ [n]" V'] Cons.prems by auto
    show ?case
    proof (cases r)
      case None
      have "card (U - V1) < k"
        using find_cycle_mono(1) [OF r [unfolded None]] Cons.prems(2) assms(1)
          card_mono [of "U - V'" "U - V1"] by (auto simp: Diff_mono)
      then show ?thesis using Cons r None by simp
    qed (use r in simp)
  qed simp
  show ?case
  proof (cases "last stack \<in> V")
    case False
    have "U - V = insert (last stack) (U - insert (last stack) V)" using False Suc.prems(1) by auto
    then have "card (U - V) = Suc (card (U - insert (last stack) V))"
      using assms(1) by (metis card_insert_disjoint finite_Diff insertCI Diff_iff)
    then have "card (U - insert (last stack) V) < k" using Suc.prems(2) by simp
    moreover have "set (ho (wp (last stack))) \<subseteq> U" using assms(2,3) Suc.prems(1) by auto
    ultimately show ?thesis using False kids [of "ho (wp (last stack))"] by simp
  qed simp
qed simp

end
