(* ===== verification/Task.thy ===== *)
theory Task
  imports Taskmaster Errors "HOL-Library.AList_Mapping"
begin

text \<open>
  What happens to the node a walk hands out: the node's own steps of
  \<open>SCons/Node/__init__.py\<close> (\<open>prepare\<close>, \<open>build\<close>, \<open>built\<close>, \<open>visited\<close>, \<open>clear\<close>) and the class
  \<open>Task\<close> of \<open>SCons/Taskmaster.py\<close> with its subclasses, up to \<open>Taskmaster.next_task\<close>.
  The lemmas show what a finished or failed task does to the states, the waiting
  parents and the candidates.
\<close>

section \<open>The node's part\<close>

text \<open>
  \<open>Node.prepare\<close>. The build information is kept as a flag here; what it holds is in
  \<open>NodeInfo\<close>.
\<close>

definition dep_message :: "hooks \<Rightarrow> string \<Rightarrow> nid \<Rightarrow> nid \<Rightarrow> string" where
  "dep_message hk kind d n =
     kind @ '' dependency `'' @ hk_name hk d @ [CHR 0x27] @ '' not found, needed by target `'' @
     hk_name hk n @ [CHR 0x27] @ ''.''"

definition node_prepare :: "hooks \<Rightarrow> nid \<Rightarrow> heap \<Rightarrow> (exn + unit) \<times> heap" where
  "node_prepare hk n h =
     (case find (\<lambda>d. missing hk d h) (depends (nodes h n)) of
        Some d \<Rightarrow> (Inl (StopError (dep_message hk ''Explicit'' d n)), h)
      | None \<Rightarrow>
          (case find (\<lambda>d. missing hk d h) (case implicit (nodes h n) of None \<Rightarrow> [] | Some ds \<Rightarrow> ds) of
             Some d \<Rightarrow> (Inl (StopError (dep_message hk ''Implicit'' d n)), h)
           | None \<Rightarrow>
               (let h1 = (if has_binfo (nodes h n) then h else snd (get_executor hk n h))
                in (Inr (), emit (EvPrepare n) (upd_node n (\<lambda>x. x\<lparr>has_binfo := True\<rparr>) h1)))))"

text \<open>\<open>Node.build\<close>: a build error is charged to the node.\<close>

definition node_build :: "hooks \<Rightarrow> nid \<Rightarrow> heap \<Rightarrow> (exn + int) \<times> heap" where
  "node_build hk n h =
     (let (e, h1) = get_executor hk n h in
      case execute_action_list hk e (emit (EvBuild n) h1) of
        (Inl (BuildError _ m), h2) \<Rightarrow> (Inl (BuildError n m), h2)
      | r \<Rightarrow> r)"

definition node_clear :: "nid \<Rightarrow> heap \<Rightarrow> heap" where
  "node_clear n h =
     executor_cleanup n (clear_memoized_values n (upd_node n (\<lambda>x. x\<lparr>has_binfo := False\<rparr>) h))"

text \<open>
  \<open>Node.built\<close>: whoever waits for the node forgets its implicit dependencies, and a
  pseudo target must not exist.
\<close>

definition forget_implicit :: "nid set \<Rightarrow> heap \<Rightarrow> heap" where
  "forget_implicit ps h =
     h\<lparr>nodes := (\<lambda>m. if m \<in> ps then (nodes h m)\<lparr>implicit := None\<rparr> else nodes h m)\<rparr>"

definition node_built :: "hooks \<Rightarrow> nid \<Rightarrow> heap \<Rightarrow> (exn + unit) \<times> heap" where
  "node_built hk n h =
     (let h1 = node_clear n (forget_implicit (waiting_parents (nodes h n)) h)
      in if pseudo (nodes h1 n) \<and> hk_exists hk h1 n
         then (Inl (UserError (''Pseudo target '' @ hk_name hk n @ '' must not exist'')), h1)
         else (Inr (), h1))"

definition node_visited :: "nid \<Rightarrow> heap \<Rightarrow> heap" where
  "node_visited n h =
     (let h1 = emit (EvVisited n) h
      in if has_binfo (nodes h1 n) then emit (EvStoreInfo n) h1 else h1)"

section \<open>Tasks\<close>

record task =
  tk_targets :: "nid list"
  tk_top :: bool
  tk_node :: nid
  tk_out_of_date :: "nid list"
  tk_exc :: "exn option"

text \<open>
  What the interface decides by subclassing \<open>Task\<close>: which \<open>needs_execute\<close> is used,
  whether \<open>make_ready\<close> marks everything (as for \<open>scons -c\<close>), whether \<open>executed\<close> calls
  the nodes back, whether \<open>failed\<close> goes on (\<open>--keep-going\<close>), and whether target
  information is released.
\<close>

datatype needs = Task_needs | AlwaysTask | OutOfDateTask

record policy =
  pol_needs :: needs
  pol_ready_all :: bool
  pol_callbacks :: bool
  pol_keep_going :: bool
  pol_release :: bool

definition task_init :: "nid list \<Rightarrow> bool \<Rightarrow> nid \<Rightarrow> task" where
  "task_init targets is_top n =
     \<lparr>tk_targets = targets, tk_top = is_top, tk_node = n, tk_out_of_date = [], tk_exc = None\<rparr>"

definition exc_clear :: "task \<Rightarrow> task" where
  "exc_clear k = k\<lparr>tk_exc := None\<rparr>"

definition exception_set :: "exn \<Rightarrow> task \<Rightarrow> task" where
  "exception_set x k = k\<lparr>tk_exc := Some x\<rparr>"

definition exception_raise :: "task \<Rightarrow> exn + unit" where
  "exception_raise k = (case tk_exc k of None \<Rightarrow> Inr () | Some x \<Rightarrow> Inl x)"

definition needs_execute :: "policy \<Rightarrow> task \<Rightarrow> heap \<Rightarrow> exn + bool" where
  "needs_execute pol k h =
     (case pol_needs pol of
        Task_needs \<Rightarrow> Inr True
      | AlwaysTask \<Rightarrow> Inr True
      | OutOfDateTask \<Rightarrow>
          (case tk_targets k of
             [] \<Rightarrow> Inl (OtherError ''IndexError'')
           | t # _ \<Rightarrow> Inr (get_state t h = EXECUTING)))"

subsection \<open>Making ready\<close>

text \<open>The targets and their side effects, in the order they are marked.\<close>

definition mark_executing :: "nid list \<Rightarrow> heap \<Rightarrow> heap" where
  "mark_executing targets h =
     fold (\<lambda>t h. fold (\<lambda>s. set_state s EXECUTING) (side_effects (nodes h t)) (set_state t EXECUTING h))
       targets h"

definition make_ready_all :: "task \<Rightarrow> heap \<Rightarrow> task \<times> heap" where
  "make_ready_all k h =
     (k\<lparr>tk_out_of_date := tk_targets k\<rparr>, mark_executing (tk_targets k) h)"

text \<open>The targets that are not current; an OS error becomes a build error of the target.\<close>

fun find_out_of_date :: "hooks \<Rightarrow> nid list \<Rightarrow> heap \<Rightarrow> nid list \<Rightarrow> (exn + nid list) \<times> nid list \<times> heap" where
  "find_out_of_date hk [] h acc = (Inr acc, acc, h)"
| "find_out_of_date hk (t # ts) h acc =
     (case (if \<not> has_builder (nodes h t) then (Inr True, h)
            else if always_build (nodes h t) then (Inr False, h)
            else is_up_to_date hk t h) of
        (Inl x, h') \<Rightarrow>
          (Inl (case x of EnvironmentError m _ \<Rightarrow> BuildError t m | _ \<Rightarrow> x), acc, h')
      | (Inr current, h') \<Rightarrow> find_out_of_date hk ts h' (if current then acc else acc @ [t]))"

definition release :: "policy \<Rightarrow> nid \<Rightarrow> heap \<Rightarrow> heap" where
  "release pol n h = (if pol_release pol then emit (EvRelease n) h else h)"

definition mark_up_to_date :: "policy \<Rightarrow> nid list \<Rightarrow> heap \<Rightarrow> heap" where
  "mark_up_to_date pol targets h =
     fold (\<lambda>t h. release pol t (set_state t UP_TO_DATE (node_visited t h))) targets h"

definition make_ready_current ::
  "hooks \<Rightarrow> policy \<Rightarrow> task \<Rightarrow> heap \<Rightarrow> (exn + unit) \<times> task \<times> heap" where
  "make_ready_current hk pol k h =
     (case find_out_of_date hk (tk_targets k) h [] of
        (Inl x, ood, h1) \<Rightarrow> (Inl x, k\<lparr>tk_out_of_date := ood\<rparr>, h1)
      | (Inr _, ood, h1) \<Rightarrow>
          (Inr (), k\<lparr>tk_out_of_date := ood\<rparr>,
           if ood \<noteq> [] then mark_executing (tk_targets k) h1
           else mark_up_to_date pol (tk_targets k) h1))"

definition make_ready ::
  "hooks \<Rightarrow> policy \<Rightarrow> task \<Rightarrow> heap \<Rightarrow> (exn + unit) \<times> task \<times> heap" where
  "make_ready hk pol k h =
     (if pol_ready_all pol then (let (k', h') = make_ready_all k h in (Inr (), k', h'))
      else make_ready_current hk pol k h)"

text \<open>
  \<open>Taskmaster.next_task\<close>: an exception of the walk or of \<open>make_ready\<close> is recorded
  in the task, to be raised by its \<open>prepare\<close>; the later one wins.
\<close>

definition next_task ::
  "config \<Rightarrow> policy \<Rightarrow> tm \<Rightarrow> ((exn + task option) \<times> tm) option" where
  "next_task cfg pol t =
     (case find_next_ready_node cfg t of
        None \<Rightarrow> None
      | Some (Inl x, t1) \<Rightarrow> Some (Inl x, t1)
      | Some (Inr None, t1) \<Rightarrow> Some (Inr None, t1)
      | Some (Inr (Some n), t1) \<Rightarrow>
          (let (e, h1) = get_executor (cf_hk cfg) n (tm_heap t1);
               k = task_init (get_all_targets (execs h1 e)) (n \<in> set (original_top t1)) n;
               (r, k1, h2) = make_ready (cf_hk cfg) pol k h1;
               exc = (case r of Inl x \<Rightarrow> Some x | Inr _ \<Rightarrow> ready_exc t1)
           in Some (Inr (Some (case exc of None \<Rightarrow> k1 | Some x \<Rightarrow> exception_set x k1)),
                    t1\<lparr>tm_heap := h2, ready_exc := None\<rparr>)))"

subsection \<open>Preparing and executing\<close>

fun prepare_nodes :: "hooks \<Rightarrow> nid list \<Rightarrow> heap \<Rightarrow> (exn + unit) \<times> heap" where
  "prepare_nodes hk [] h = (Inr (), h)"
| "prepare_nodes hk (n # ns) h =
     (case node_prepare hk n h of
        (Inl x, h') \<Rightarrow> (Inl x, h')
      | (Inr _, h') \<Rightarrow> prepare_nodes hk ns h')"

fun prepare_targets :: "hooks \<Rightarrow> nid list \<Rightarrow> heap \<Rightarrow> (exn + unit) \<times> heap" where
  "prepare_targets hk [] h = (Inr (), h)"
| "prepare_targets hk (t # ts) h =
     (case prepare_nodes hk (t # side_effects (nodes h t)) h of
        (Inl x, h') \<Rightarrow> (Inl x, h')
      | (Inr _, h') \<Rightarrow> prepare_targets hk ts h')"

definition task_prepare :: "hooks \<Rightarrow> task \<Rightarrow> tm \<Rightarrow> (exn + unit) \<times> tm" where
  "task_prepare hk k t =
     (case exception_raise k of
        Inl x \<Rightarrow> (Inl x, t)
      | Inr _ \<Rightarrow>
          (let t1 = t\<lparr>message := None\<rparr> in
           case tk_targets k of
             [] \<Rightarrow> (Inl (OtherError ''IndexError''), t1)
           | t0 # _ \<Rightarrow>
               (let (e, h1) = get_executor hk t0 (tm_heap t1) in
                case exec_prepare hk e h1 of
                  Inl x \<Rightarrow> (Inl x, t1\<lparr>tm_heap := h1\<rparr>)
                | Inr _ \<Rightarrow>
                    (case get_action_targets hk e h1 of
                       (Inl x, h2) \<Rightarrow> (Inl x, t1\<lparr>tm_heap := h2\<rparr>)
                     | (Inr ts, h2) \<Rightarrow>
                         (let (r, h3) = prepare_targets hk ts h2 in (r, t1\<lparr>tm_heap := h3\<rparr>))))))"

text \<open>The status \<open>convert_to_BuildError\<close> sees for an exception.\<close>

definition exn_status :: "exn \<Rightarrow> status" where
  "exn_status x =
     (case x of
        UserError m \<Rightarrow> StUserError m
      | StopError m \<Rightarrow> StStopError m
      | BuildError n m \<Rightarrow> StBuildError (build_error_init\<lparr>be_node := Some n, be_errstr := m\<rparr>)
      | ExplicitExit n c \<Rightarrow> StExplicitExit c
      | SystemExit c \<Rightarrow> StExplicitExit c
      | EnvironmentError m f \<Rightarrow> StOSError 0 m (Some f)
      | OtherError m \<Rightarrow> StException m [])"

definition execute_exception :: "nid \<Rightarrow> exn \<Rightarrow> exn" where
  "execute_exception t0 x =
     (case x of
        SystemExit c \<Rightarrow> ExplicitExit t0 c
      | UserError m \<Rightarrow> UserError m
      | BuildError n m \<Rightarrow> BuildError n m
      | _ \<Rightarrow> BuildError t0 (be_errstr (convert_to_BuildError (exn_status x) False)))"

fun retrieve_loop :: "hooks \<Rightarrow> nid list \<Rightarrow> heap \<Rightarrow> (exn + nid list) \<times> heap" where
  "retrieve_loop hk [] h = (Inr [], h)"
| "retrieve_loop hk (t # ts) h =
     (let h1 = emit (EvRetrieve t) h in
      case hk_retrieve hk h1 t of
        Inl x \<Rightarrow> (Inl x, h1)
      | Inr False \<Rightarrow> (Inr [], h1)
      | Inr True \<Rightarrow>
          (case retrieve_loop hk ts h1 of
             (Inl x, h2) \<Rightarrow> (Inl x, h2)
           | (Inr cs, h2) \<Rightarrow> (Inr (t # cs), h2)))"

definition task_execute :: "hooks \<Rightarrow> task \<Rightarrow> heap \<Rightarrow> (exn + unit) \<times> heap" where
  "task_execute hk k h =
     (case retrieve_loop hk (tk_targets k) h of
        (Inl x, h1) \<Rightarrow> (Inl (execute_exception (hd (tk_targets k)) x), h1)
      | (Inr cs, h1) \<Rightarrow>
          if length cs < length (tk_targets k) then
            (case node_build hk (hd (tk_targets k)) (fold (\<lambda>t. emit (EvUnlink t)) cs h1) of
               (Inl x, h2) \<Rightarrow> (Inl (execute_exception (hd (tk_targets k)) x), h2)
             | (Inr _, h2) \<Rightarrow> (Inr (), h2))
          else (Inr (), fold (\<lambda>t. upd_node t (\<lambda>x. x\<lparr>cached := True\<rparr>)) cs h1))"

subsection \<open>After execution\<close>

definition reset_side_effects :: "nid \<Rightarrow> heap \<Rightarrow> heap" where
  "reset_side_effects t h = fold (\<lambda>s. set_state s NO_STATE) (side_effects (nodes h t)) h"

definition executed_without_callbacks :: "task \<Rightarrow> heap \<Rightarrow> heap" where
  "executed_without_callbacks k h =
     fold (\<lambda>t h. if get_state t h = EXECUTING then set_state t EXECUTED (reset_side_effects t h) else h)
       (tk_targets k) h"

fun executed_with_callbacks :: "hooks \<Rightarrow> policy \<Rightarrow> nid list \<Rightarrow> heap \<Rightarrow> (exn + unit) \<times> heap" where
  "executed_with_callbacks hk pol [] h = (Inr (), h)"
| "executed_with_callbacks hk pol (t # ts) h =
     (if get_state t h = EXECUTING then
        (let h1 = set_state t EXECUTED (reset_side_effects t h);
             h2 = (if cached (nodes h1 t) then h1 else emit (EvPush t) h1)
         in case node_built hk t h2 of
              (Inl x, h3) \<Rightarrow> (Inl x, h3)
            | (Inr _, h3) \<Rightarrow> executed_with_callbacks hk pol ts (release pol t (node_visited t h3)))
      else executed_with_callbacks hk pol ts (node_visited t h))"

definition executed :: "hooks \<Rightarrow> policy \<Rightarrow> task \<Rightarrow> heap \<Rightarrow> (exn + unit) \<times> heap" where
  "executed hk pol k h =
     (if pol_callbacks pol then executed_with_callbacks hk pol (tk_targets k) h
      else (Inr (), executed_without_callbacks k h))"

definition fail_continue :: "config \<Rightarrow> task \<Rightarrow> tm \<Rightarrow> tm option" where
  "fail_continue cfg k t = will_not_build cfg (tk_targets k) (\<lambda>n. set_state n FAILED) t"

definition fail_stop :: "config \<Rightarrow> task \<Rightarrow> tm \<Rightarrow> ((exn + task) \<times> tm) option" where
  "fail_stop cfg k t =
     map_option (\<lambda>t1. case current_top (stop t1) of
         None \<Rightarrow> (Inl (OtherError ''AttributeError''), stop t1)
       | Some c \<Rightarrow> (Inr (k\<lparr>tk_targets := [c], tk_top := True\<rparr>), stop t1))
       (will_not_build cfg (tk_targets k) (\<lambda>n. set_state n FAILED) t)"

definition failed :: "config \<Rightarrow> policy \<Rightarrow> task \<Rightarrow> tm \<Rightarrow> ((exn + task) \<times> tm) option" where
  "failed cfg pol k t =
     (if pol_keep_going pol then map_option (Pair (Inr k)) (fail_continue cfg k t)
      else fail_stop cfg k t)"

subsection \<open>Postprocessing\<close>

text \<open>
  \<open>parents\<close> counts, for each node, how many of the finished nodes it waited for. The
  three passes are those of the code; the sets and the dictionary are iterated in the
  order \<open>cf_ho\<close> gives.
\<close>

type_synonym counts = "(nid, int) mapping"

definition add_counts :: "nid list \<Rightarrow> counts \<Rightarrow> counts" where
  "add_counts ps m = fold (\<lambda>p m. Mapping.update p (Mapping.lookup_default 0 m p + 1) m) ps m"

fun count_parents :: "config \<Rightarrow> nid list \<Rightarrow> tm \<Rightarrow> counts \<Rightarrow> tm \<times> counts" where
  "count_parents cfg [] t m = (t, m)"
| "count_parents cfg (x # xs) t m =
     (let ps = waiting_parents (nodes (tm_heap t) x);
          t1 = (if ps \<noteq> {} then t\<lparr>pending_children := pending_children t - {x}\<rparr> else t)
      in count_parents cfg xs t1 (add_counts (cf_ho cfg ps) m))"

fun free_side_effects :: "config \<Rightarrow> nid list \<Rightarrow> tm \<Rightarrow> counts \<Rightarrow> tm \<times> counts" where
  "free_side_effects cfg [] t m = (t, m)"
| "free_side_effects cfg (s # ss) t m =
     (let (h1, m1) =
            (if get_state s (tm_heap t) = EXECUTING
             then (set_state s NO_STATE (tm_heap t),
                   add_counts (cf_ho cfg (waiting_parents (nodes (tm_heap t) s))) m)
             else (tm_heap t, m));
          woken = filter (\<lambda>p. ref_count (nodes h1 p) = 0) (cf_ho cfg (waiting_s_e (nodes h1 s)))
      in free_side_effects cfg ss (t\<lparr>tm_heap := h1, candidates := candidates t @ woken\<rparr>) m1)"

fun subtract_counts :: "nid list \<Rightarrow> counts \<Rightarrow> tm \<Rightarrow> tm" where
  "subtract_counts [] m t = t"
| "subtract_counts (p # ps) m t =
     (let k = Mapping.lookup_default 0 m p;
          h1 = upd_node p (\<lambda>x. x\<lparr>ref_count := ref_count x - k\<rparr>) (tm_heap t)
      in subtract_counts ps m
           (t\<lparr>tm_heap := h1,
              candidates := candidates t @ (if ref_count (nodes h1 p) = 0 then [p] else [])\<rparr>))"

definition task_postprocess :: "config \<Rightarrow> task \<Rightarrow> tm \<Rightarrow> tm" where
  "task_postprocess cfg k t =
     (let ts = cf_ho cfg (set (tk_targets k));
          (t1, m1) = count_parents cfg ts t Mapping.empty;
          (t2, m2) = free_side_effects cfg
                       (concat (map (\<lambda>x. side_effects (nodes (tm_heap t1) x)) ts)) t1 m1;
          t3 = subtract_counts (cf_ho cfg (Mapping.keys m2)) m2 t2
      in t3\<lparr>tm_heap := fold node_postprocess ts (tm_heap t3)\<rparr>)"

section \<open>Making ready decides the state of every target\<close>

lemma fold_set_state:
  "get_state m (fold (\<lambda>s. set_state s v) ss h) = (if m \<in> set ss then v else get_state m h)"
  by (induction ss arbitrary: h) auto

lemma set_state_side_effects [simp]:
  "side_effects (nodes (set_state n v h) m) = side_effects (nodes h m)"
  by (simp add: set_state_def)

lemma fold_set_state_side_effects [simp]:
  "side_effects (nodes (fold (\<lambda>s. set_state s v) ss h) m) = side_effects (nodes h m)"
  by (induction ss arbitrary: h) auto

lemma mark_executing_state:
  "get_state m (mark_executing ts h) =
     (if m \<in> set ts \<or> (\<exists>t\<in>set ts. m \<in> set (side_effects (nodes h t))) then EXECUTING
      else get_state m h)"
  unfolding mark_executing_def
  by (induction ts arbitrary: h) (auto simp: fold_set_state)

lemma get_state_emit [simp]: "get_state m (emit ev h) = get_state m h"
  by (simp add: get_state_def)

lemma get_state_release [simp]: "get_state m (release pol t h) = get_state m h"
  by (simp add: release_def)

lemma get_state_visited [simp]: "get_state m (node_visited t h) = get_state m h"
  by (simp add: node_visited_def Let_def)

lemma mark_up_to_date_state:
  "get_state m (mark_up_to_date pol ts h) = (if m \<in> set ts then UP_TO_DATE else get_state m h)"
  unfolding mark_up_to_date_def
  by (induction ts arbitrary: h) auto

lemma find_out_of_date_sub:
  "find_out_of_date hk ts h acc = (r, ood, h') \<Longrightarrow> set ood \<subseteq> set acc \<union> set ts \<and> same_walk h h'"
proof (induction ts arbitrary: h acc)
  case (Cons t ts)
  obtain q h1 where q: "(if \<not> has_builder (nodes h t) then (Inr True, h)
      else if always_build (nodes h t) then (Inr False, h) else is_up_to_date hk t h) = (q, h1)"
    by fastforce
  have w: "same_walk h h1" using q same_walk_is_up_to_date [of h hk t] by (auto split: if_splits)
  show ?case
  proof (cases q)
    case (Inr b)
    have "set ood \<subseteq> set (if b then acc else acc @ [t]) \<union> set ts \<and> same_walk h1 h'"
      by (rule Cons.IH) (use Cons.prems q Inr in simp)
    then show ?thesis using w same_walk_trans by (auto split: if_splits)
  qed (use Cons.prems q w in auto)
qed simp

lemma make_ready_current_states:
  assumes "make_ready_current hk pol k h = (Inr (), k', h')"
  shows "set (tk_out_of_date k') \<subseteq> set (tk_targets k) \<and> tk_targets k' = tk_targets k \<and>
    (\<forall>t\<in>set (tk_targets k). get_state t h' = (if tk_out_of_date k' \<noteq> [] then EXECUTING else UP_TO_DATE))"
proof -
  obtain r ood h1 where f: "find_out_of_date hk (tk_targets k) h [] = (r, ood, h1)"
    by (cases "find_out_of_date hk (tk_targets k) h []") auto
  show ?thesis
    using assms f find_out_of_date_sub [OF f]
    by (auto simp: make_ready_current_def mark_executing_state mark_up_to_date_state split: sum.splits)
qed

section \<open>After execution no target is executing\<close>

lemma reset_side_effects_state:
  "get_state m (reset_side_effects t h) =
     (if m \<in> set (side_effects (nodes h t)) then NO_STATE else get_state m h)"
  by (simp add: reset_side_effects_def fold_set_state)

lemma get_state_executor_cleanup [simp]: "get_state m (executor_cleanup n h) = get_state m h"
  by (simp add: get_state_def)

lemma get_state_clear [simp]: "get_state m (node_clear t h) = get_state m h"
  by (simp add: node_clear_def clear_memoized_values_def) (simp add: get_state_def)

lemma get_state_built: "node_built hk t h = (r, h') \<Longrightarrow> get_state m h' = get_state m h"
proof -
  have "get_state m (forget_implicit ps h) = get_state m h" for ps
    by (simp add: get_state_def forget_implicit_def)
  then show "node_built hk t h = (r, h') \<Longrightarrow> ?thesis"
    by (auto simp: node_built_def Let_def split: if_splits)
qed

lemma without_callbacks_not_executing:
  "(\<forall>t\<in>set ts. get_state t (fold (\<lambda>t h. if get_state t h = EXECUTING
       then set_state t EXECUTED (reset_side_effects t h) else h) ts h) \<noteq> EXECUTING) \<and>
   (\<forall>m. get_state m h \<noteq> EXECUTING \<longrightarrow>
      get_state m (fold (\<lambda>t h. if get_state t h = EXECUTING
       then set_state t EXECUTED (reset_side_effects t h) else h) ts h) \<noteq> EXECUTING)"
  by (induction ts arbitrary: h) (auto simp: reset_side_effects_state split: if_splits)

lemma with_callbacks_not_executing:
  "executed_with_callbacks hk pol ts h = (Inr (), h') \<Longrightarrow>
   (\<forall>t\<in>set ts. get_state t h' \<noteq> EXECUTING) \<and>
   (\<forall>m. get_state m h \<noteq> EXECUTING \<longrightarrow> get_state m h' \<noteq> EXECUTING)"
proof (induction ts arbitrary: h)
  case (Cons t ts)
  show ?case
  proof (cases "get_state t h = EXECUTING")
    case False
    then show ?thesis using Cons.IH [of "node_visited t h"] Cons.prems by auto
  next
    case True
    let ?h1 = "set_state t EXECUTED (reset_side_effects t h)"
    let ?h2 = "if cached (nodes ?h1 t) then ?h1 else emit (EvPush t) ?h1"
    obtain r h3 where b: "node_built hk t ?h2 = (r, h3)" by fastforce
    have st: "get_state m h3 = get_state m ?h1" for m using get_state_built [OF b, of m] by simp
    let ?h4 = "release pol t (node_visited t h3)"
    have "executed_with_callbacks hk pol ts ?h4 = (Inr (), h')"
      using Cons.prems True b by (auto simp: Let_def split: sum.splits)
    from Cons.IH [OF this] show ?thesis
      by (auto simp: st reset_side_effects_state split: if_splits)
  qed
qed simp

lemma executed_not_executing:
  assumes "executed hk pol k h = (Inr (), h')" and "t \<in> set (tk_targets k)"
  shows "get_state t h' \<noteq> EXECUTING"
  using assms with_callbacks_not_executing [of hk pol "tk_targets k" h h']
    without_callbacks_not_executing [of "tk_targets k" h]
  by (auto simp: executed_def executed_without_callbacks_def split: if_splits)

section \<open>A failed task\<close>

lemma fail_continue_effect:
  assumes "enumerates (cf_ho cfg)" and "waits_finite (tm_heap t)"
  shows "fail_continue cfg k t =
    (let R = reached (wp_of (tm_heap t)) (set (tk_targets k))
     in Some (t\<lparr>pending_children := pending_children t - R,
                tm_heap := dropped (\<lambda>_. FAILED) R (tm_heap t)\<rparr>))"
  unfolding fail_continue_def
  using will_not_build_effect [OF assms(1), of "\<lambda>_. FAILED" t "tk_targets k"] assms(2)
  by (simp add: restate_const)

lemma failed_marks:
  assumes "enumerates (cf_ho cfg)" and "refs_ok (tm_heap t)" and "current_top t \<noteq> None"
  shows "\<exists>k' t'. failed cfg pol k t = Some (Inr k', t') \<and> refs_ok (tm_heap t') \<and>
    stopped t' = (stopped t \<or> \<not> pol_keep_going pol) \<and>
    (\<forall>n. get_state n (tm_heap t') =
       (if n \<in> reached (wp_of (tm_heap t)) (set (tk_targets k)) then FAILED
        else get_state n (tm_heap t)))"
proof -
  have w: "waits_finite (tm_heap t)" using assms(2) by (simp add: refs_ok_def)
  note e = fail_continue_effect [OF assms(1) w, of k, unfolded fail_continue_def]
  let ?h = "dropped (\<lambda>_. FAILED) (reached (wp_of (tm_heap t)) (set (tk_targets k))) (tm_heap t)"
  have r: "refs_ok ?h" by (rule refs_ok_dropped [OF assms(2)])
  have st: "get_state n ?h = (if n \<in> reached (wp_of (tm_heap t)) (set (tk_targets k)) then FAILED
      else get_state n (tm_heap t))" for n by (simp add: get_state_def dropped_def)
  show ?thesis
    using assms(3) r
    by (auto simp: failed_def fail_continue_def fail_stop_def e Let_def stop_def st)
qed

section \<open>Postprocessing keeps the reference counts\<close>

abbreviation cnt :: "counts \<Rightarrow> nid \<Rightarrow> int" where
  "cnt m p \<equiv> Mapping.lookup_default 0 m p"

lemma cnt_add_counts:
  "cnt (add_counts ps m) p = cnt m p + int (count_list ps p)"
  "Mapping.keys (add_counts ps m) = Mapping.keys m \<union> set ps"
proof (induction ps arbitrary: m)
  case (Cons q ps)
  { case 1 show ?case using Cons(1)
      by (simp add: add_counts_def) (simp add: lookup_default_update') }
  { case 2 show ?case using Cons(2) by (simp add: add_counts_def) }
qed (simp_all add: add_counts_def)

lemma count_parents_effect:
  assumes ho: "enumerates (cf_ho cfg)" and "distinct xs" and fin: "\<And>x. finite (wp_of (tm_heap t) x)"
    and "count_parents cfg xs t m = (t', m')"
  shows "tm_heap t' = tm_heap t \<and> candidates t' = candidates t \<and>
    pending_children t' = pending_children t - {x \<in> set xs. wp_of (tm_heap t) x \<noteq> {}} \<and>
    Mapping.keys m' = Mapping.keys m \<union> (\<Union>x\<in>set xs. wp_of (tm_heap t) x) \<and>
    (\<forall>p. cnt m' p = cnt m p + int (card {x \<in> set xs. p \<in> wp_of (tm_heap t) x}))"
  using assms(2,3,4)
proof (induction xs arbitrary: t m)
  case (Cons x xs)
  let ?ps = "wp_of (tm_heap t) x"
  let ?t1 = "if ?ps \<noteq> {} then t\<lparr>pending_children := pending_children t - {x}\<rparr> else t"
  have h: "tm_heap ?t1 = tm_heap t" "candidates ?t1 = candidates t" by simp_all
  have call: "count_parents cfg xs ?t1 (add_counts (cf_ho cfg ?ps) m) = (t', m')"
    using Cons.prems(3) by (simp add: wp_of_def Let_def)
  have d: "distinct xs" "x \<notin> set xs" using Cons.prems(1) by auto
  have f1: "\<And>y. finite (wp_of (tm_heap ?t1) y)" using Cons.prems(2) by simp
  note IH = Cons.IH [OF d(1) f1 call, unfolded h]
  have set_ps: "set (cf_ho cfg ?ps) = ?ps" "distinct (cf_ho cfg ?ps)"
    using ho Cons.prems(2) by auto
  have card: "int (card {y \<in> set (x # xs). p \<in> wp_of (tm_heap t) y}) =
      (if p \<in> ?ps then 1 else 0) + int (card {y \<in> set xs. p \<in> wp_of (tm_heap t) y})" for p
  proof -
    have "{y \<in> set (x # xs). p \<in> wp_of (tm_heap t) y} =
      (if p \<in> ?ps then insert x {y \<in> set xs. p \<in> wp_of (tm_heap t) y}
       else {y \<in> set xs. p \<in> wp_of (tm_heap t) y})" by auto
    then show ?thesis using d(2) by simp
  qed
  show ?case
    using IH card by (auto simp: cnt_add_counts count_list_distinct set_ps)
qed simp

lemma free_side_effects_idle:
  assumes "\<forall>s\<in>set ss. get_state s (tm_heap t) \<noteq> EXECUTING"
    and "free_side_effects cfg ss t m = (t', m')"
  shows "m' = m \<and> tm_heap t' = tm_heap t \<and> pending_children t' = pending_children t \<and>
    set (candidates t) \<subseteq> set (candidates t')"
  using assms
proof (induction ss arbitrary: t)
  case (Cons s ss)
  let ?t1 = "t\<lparr>candidates := candidates t @
      filter (\<lambda>p. ref_count (nodes (tm_heap t) p) = 0) (cf_ho cfg (waiting_s_e (nodes (tm_heap t) s)))\<rparr>"
  have "free_side_effects cfg ss ?t1 m = (t', m')"
    using Cons.prems by (simp add: Let_def)
  from Cons.IH [OF _ this] Cons.prems(1) show ?case by auto
qed simp

text \<open>
  When no side effect of the targets is executing any more, the candidates that postprocessing
  adds are nodes that wait for nothing.
\<close>

lemma free_side_effects_woken:
  assumes "\<forall>s\<in>set ss. get_state s (tm_heap t) \<noteq> EXECUTING"
    and "free_side_effects cfg ss t m = (t', m')" and "p \<in> set (candidates t')" and "p \<notin> set (candidates t)"
  shows "ref_count (nodes (tm_heap t) p) = 0"
  using assms
proof (induction ss arbitrary: t)
  case (Cons s ss)
  let ?w = "filter (\<lambda>p. ref_count (nodes (tm_heap t) p) = 0) (cf_ho cfg (waiting_s_e (nodes (tm_heap t) s)))"
  let ?t1 = "t\<lparr>candidates := candidates t @ ?w\<rparr>"
  have "free_side_effects cfg ss ?t1 m = (t', m')" using Cons.prems by (simp add: Let_def)
  from Cons.IH [OF _ this] Cons.prems show ?case by (cases "p \<in> set ?w") auto
qed simp

lemma subtract_counts_effect:
  assumes "distinct ps"
  shows "ref_count (nodes (tm_heap (subtract_counts ps m t)) p) =
      ref_count (nodes (tm_heap t) p) - (if p \<in> set ps then cnt m p else 0) \<and>
    nodes (tm_heap (subtract_counts ps m t)) p =
      (nodes (tm_heap t) p)\<lparr>ref_count := ref_count (nodes (tm_heap t) p) - (if p \<in> set ps then cnt m p else 0)\<rparr> \<and>
    set (candidates (subtract_counts ps m t)) =
      set (candidates t) \<union> {q \<in> set ps. ref_count (nodes (tm_heap t) q) = cnt m q}"
  using assms
proof (induction ps arbitrary: t)
  case (Cons q ps)
  let ?h1 = "upd_node q (\<lambda>x. x\<lparr>ref_count := ref_count x - cnt m q\<rparr>) (tm_heap t)"
  let ?t1 = "t\<lparr>tm_heap := ?h1, candidates := candidates t @
     (if ref_count (nodes ?h1 q) = 0 then [q] else [])\<rparr>"
  have e: "subtract_counts (q # ps) m t = subtract_counts ps m ?t1"
    by (simp add: Let_def)
  have "{r \<in> set ps. ref_count (nodes ?h1 r) = cnt m r} = {r \<in> set ps. ref_count (nodes (tm_heap t) r) = cnt m r}"
    using Cons.prems by auto
  then show ?case unfolding e using Cons.IH [of ?t1] Cons.prems by auto
qed simp

lemma fold_postprocess_nodes:
  "nodes (fold node_postprocess ts h) m =
     (if m \<in> set ts then (nodes h m)\<lparr>waiting_parents := {}\<rparr> else nodes h m)"
  by (induction ts arbitrary: h) (auto simp: node_postprocess_def)

text \<open>
  When no side effect of the targets is still executing (as after \<open>executed\<close>), the
  nodes lose exactly the references to the targets, and everything that waited for
  nothing else is a candidate again.
\<close>

lemma postprocess_nodes:
  assumes ho: "enumerates (cf_ho cfg)" and rf: "refs_ok (tm_heap t)"
    and idle: "\<forall>x\<in>set (tk_targets k). \<forall>s\<in>set (side_effects (nodes (tm_heap t) x)).
      get_state s (tm_heap t) \<noteq> EXECUTING"
  shows "nodes (tm_heap (task_postprocess cfg k t)) = nodes (dropped (\<lambda>s. s) (set (tk_targets k)) (tm_heap t))"
    and "p \<in> wp_of (tm_heap t) x \<Longrightarrow> x \<in> set (tk_targets k) \<Longrightarrow>
      ref_count (nodes (tm_heap (task_postprocess cfg k t)) p) = 0 \<Longrightarrow>
      p \<in> set (candidates (task_postprocess cfg k t))"
    and "pending_children (task_postprocess cfg k t) \<subseteq> pending_children t"
    and "p \<in> set (candidates (task_postprocess cfg k t)) \<Longrightarrow> p \<notin> set (candidates t) \<Longrightarrow>
      ref_count (nodes (tm_heap t) p) = 0 \<or> ref_count (nodes (tm_heap (task_postprocess cfg k t)) p) = 0"
proof -
  let ?S = "set (tk_targets k)"
  let ?ts = "cf_ho cfg ?S"
  have ts: "set ?ts = ?S" "distinct ?ts" using ho by auto
  obtain t1 m1 where c: "count_parents cfg ?ts t Mapping.empty = (t1, m1)" by fastforce
  let ?ss = "concat (map (\<lambda>x. side_effects (nodes (tm_heap t1) x)) ?ts)"
  obtain t2 m2 where f: "free_side_effects cfg ?ss t1 m1 = (t2, m2)" by fastforce
  have fin: "\<And>x. finite (wp_of (tm_heap t) x)" using rf by (simp add: refs_ok_def waits_finite_def)
  note ce = count_parents_effect [OF ho ts(2) fin c, unfolded ts]
  have "\<forall>s\<in>set ?ss. get_state s (tm_heap t1) \<noteq> EXECUTING" using idle ce ts by auto
  note fe = free_side_effects_idle [OF this f] and fw = free_side_effects_woken [OF this f]
  let ?ps = "cf_ho cfg (Mapping.keys m2)"
  have dom: "Mapping.keys m2 = (\<Union>x\<in>?S. wp_of (tm_heap t) x)" using ce fe by auto
  have "finite (Mapping.keys m2)" unfolding dom using fin by auto
  then have ps: "set ?ps = Mapping.keys m2" "distinct ?ps" using ho by auto
  note se = subtract_counts_effect [OF ps(2), of m2 t2]
  have cn: "cnt m2 p = int (card {x \<in> ?S. p \<in> wp_of (tm_heap t) x})" for p
    using ce fe by (simp add: lookup_default_empty)
  have cz: "cnt m2 p = 0" if "p \<notin> Mapping.keys m2" for p using that by (simp add: lookup_default_def keys_dom_lookup domIff)
  have pp: "task_postprocess cfg k t = (subtract_counts ?ps m2 t2)
      \<lparr>tm_heap := fold node_postprocess ?ts (tm_heap (subtract_counts ?ps m2 t2))\<rparr>"
    by (simp add: task_postprocess_def c f Let_def)
  have sub: "nodes (tm_heap (subtract_counts ?ps m2 t2)) p =
      (nodes (tm_heap t) p)\<lparr>ref_count := ref_count (nodes (tm_heap t) p) - cnt m2 p\<rparr>" for p
    using se [of p] ps(1) cz [of p] ce fe by auto
  show n: "nodes (tm_heap (task_postprocess cfg k t)) = nodes (dropped (\<lambda>s. s) ?S (tm_heap t))"
    by (rule ext) (simp add: pp fold_postprocess_nodes ts(1) sub dropped_def cn wp_of_def)
  have rc: "ref_count (nodes (tm_heap (task_postprocess cfg k t)) p) = ref_count (nodes (tm_heap t) p) - cnt m2 p" for p
    by (simp add: pp fold_postprocess_nodes sub)
  moreover have "p \<in> Mapping.keys m2" if "p \<in> wp_of (tm_heap t) x" "x \<in> ?S" using that dom by auto
  ultimately show "p \<in> wp_of (tm_heap t) x \<Longrightarrow> x \<in> ?S \<Longrightarrow>
      ref_count (nodes (tm_heap (task_postprocess cfg k t)) p) = 0 \<Longrightarrow>
      p \<in> set (candidates (task_postprocess cfg k t))"
    using se [of p] ps(1) ce fe by (simp add: pp)
  have "pending_children (subtract_counts ps m s) = pending_children s" for ps m s
    by (induction ps m s rule: subtract_counts.induct) (simp_all add: Let_def)
  then show "pending_children (task_postprocess cfg k t) \<subseteq> pending_children t"
    using ce fe by (auto simp: pp)
  show "ref_count (nodes (tm_heap t) p) = 0 \<or> ref_count (nodes (tm_heap (task_postprocess cfg k t)) p) = 0"
    if "p \<in> set (candidates (task_postprocess cfg k t))" and "p \<notin> set (candidates t)"
  proof (cases "p \<in> set (candidates t2)")
    case True
    then show ?thesis using fw [of p] that(2) ce by simp
  next
    case False
    then have "ref_count (nodes (tm_heap t2) p) = cnt m2 p"
      using that(1) se [of p] by (simp add: pp)
    then show ?thesis using rc [of p] ce fe by simp
  qed
qed

lemma refs_ok_nodes: "refs_ok h \<Longrightarrow> nodes h' = nodes h \<Longrightarrow> refs_ok h'"
  by (simp add: refs_ok_def waits_finite_def wp_of_def)

lemma postprocess_refs_ok:
  assumes "enumerates (cf_ho cfg)" and "refs_ok (tm_heap t)"
    and "\<forall>x\<in>set (tk_targets k). \<forall>s\<in>set (side_effects (nodes (tm_heap t) x)).
      get_state s (tm_heap t) \<noteq> EXECUTING"
  shows "refs_ok (tm_heap (task_postprocess cfg k t))"
  by (rule refs_ok_nodes [OF refs_ok_dropped [OF assms(2)] postprocess_nodes(1) [OF assms]])

section \<open>A wake-up that is lost\<close>

text \<open>
  What \<open>executed\<close> does to the states and to what the nodes wait for is, with callbacks or
  without, what this step does for each target in turn.
\<close>

abbreviation ended :: "nid \<Rightarrow> heap \<Rightarrow> heap" where
  "ended t h \<equiv> (if get_state t h = EXECUTING then set_state t EXECUTED (reset_side_effects t h) else h)"

lemma same_walk_set_state: "same_walk g h \<Longrightarrow> same_walk (set_state n s g) (set_state n s h)"
  by (simp add: same_walk_def walk_part_def set_state_def)

lemma same_walk_fold_set_state:
  "same_walk g h \<Longrightarrow> same_walk (fold (\<lambda>n. set_state n s) ns g) (fold (\<lambda>n. set_state n s) ns h)"
  by (induction ns arbitrary: g h) (simp_all add: same_walk_set_state)

lemma same_walk_ended: "same_walk g h \<Longrightarrow> same_walk (ended t g) (ended t h)"
  using get_state_same_walk [of g h t] same_walkD(5) [of g h t]
  by (auto simp: reset_side_effects_def intro: same_walk_set_state same_walk_fold_set_state)

lemma same_walk_emits: "same_walk h (emit ev h)" "same_walk h (node_visited t h)" "same_walk h (release pol t h)"
  by (simp_all add: same_walk_def walk_part_def node_visited_def release_def Let_def)

lemma same_walk_built: "node_built hk t h = (r, h') \<Longrightarrow> same_walk h h'"
proof -
  have "same_walk h (node_clear t (forget_implicit ps h))" for ps
    by (auto simp: same_walk_def walk_part_def node_clear_def clear_memoized_values_def forget_implicit_def)
  then show "node_built hk t h = (r, h') \<Longrightarrow> ?thesis"
    by (auto simp: node_built_def Let_def split: if_splits)
qed

lemma with_callbacks_ended:
  "executed_with_callbacks hk pol ts h = (Inr (), h') \<Longrightarrow> same_walk g h \<Longrightarrow> same_walk (fold ended ts g) h'"
proof (induction ts arbitrary: g h)
  case (Cons t ts)
  have e: "same_walk (ended t g) (ended t h)" by (rule same_walk_ended [OF Cons.prems(2)])
  show ?case
  proof (cases "get_state t h = EXECUTING")
    case False
    then have "same_walk (ended t g) (node_visited t h)"
      using same_walk_trans [OF e same_walk_emits(2)] by simp
    from Cons.IH [OF _ this] show ?thesis using Cons.prems(1) False by simp
  next
    case True
    let ?h1 = "set_state t EXECUTED (reset_side_effects t h)"
    let ?h2 = "if cached (nodes ?h1 t) then ?h1 else emit (EvPush t) ?h1"
    obtain r h3 where b: "node_built hk t ?h2 = (r, h3)" by fastforce
    let ?h4 = "release pol t (node_visited t h3)"
    have "same_walk (ended t g) ?h1" using e True by (simp del: if_split)
    moreover have "same_walk ?h1 ?h2" by (simp add: same_walk_emits)
    ultimately have "same_walk (ended t g) ?h2" by (rule same_walk_trans)
    then have "same_walk (ended t g) h3" by (rule same_walk_trans [OF _ same_walk_built [OF b]])
    then have "same_walk (ended t g) ?h4"
      by (rule same_walk_trans [OF same_walk_trans [OF _ same_walk_emits(2)] same_walk_emits(3)])
    moreover have "executed_with_callbacks hk pol ts ?h4 = (Inr (), h')"
      using Cons.prems(1) True b by (auto simp: Let_def split: sum.splits)
    ultimately show ?thesis using Cons.IH by simp
  qed
qed simp

lemma executed_ended:
  assumes "executed hk pol k h = (Inr (), h')"
  shows "same_walk (fold ended (tk_targets k) h) h'"
  using assms with_callbacks_ended [of hk pol "tk_targets k" h h' h]
  by (auto simp: executed_def executed_without_callbacks_def split: if_splits)

lemma wp_of_set_state: "wp_of (set_state n s h) = wp_of h" "ref_count (nodes (set_state n s h) m) = ref_count (nodes h m)"
  by (auto simp: wp_of_def set_state_def fun_eq_iff)

lemma ended_keeps [simp]:
  "wp_of (ended t h) = wp_of h" "ref_count (nodes (ended t h) m) = ref_count (nodes h m)"
  "side_effects (nodes (ended t h) m) = side_effects (nodes h m)"
proof -
  have "wp_of (fold (\<lambda>n. set_state n s) ns g) = wp_of g \<and>
      ref_count (nodes (fold (\<lambda>n. set_state n s) ns g) m) = ref_count (nodes g m)" for s ns g
    by (induction ns arbitrary: g) (simp_all add: wp_of_set_state)
  then show "wp_of (ended t h) = wp_of h" "ref_count (nodes (ended t h) m) = ref_count (nodes h m)"
    "side_effects (nodes (ended t h) m) = side_effects (nodes h m)"
    by (simp_all add: reset_side_effects_def wp_of_set_state)
qed

lemma fold_ended_keeps:
  "wp_of (fold ended ts h) = wp_of h" "ref_count (nodes (fold ended ts h) m) = ref_count (nodes h m)"
  "side_effects (nodes (fold ended ts h) m) = side_effects (nodes h m)"
  by (induction ts arbitrary: h) (simp_all del: if_split)

lemma ended_state:
  "get_state m (ended t h) =
     (if get_state t h = EXECUTING then
        if m = t then EXECUTED
        else if m \<in> set (side_effects (nodes h t)) then NO_STATE else get_state m h
      else get_state m h)"
  by (simp add: reset_side_effects_state)

lemma fold_ended_stays_reset:
  "get_state s h = NO_STATE \<Longrightarrow> s \<notin> set ts \<Longrightarrow> get_state s (fold ended ts h) = NO_STATE"
  by (induction ts arbitrary: h) (simp_all add: reset_side_effects_state)

lemma fold_ended_resets:
  assumes "x \<in> set ts" and "get_state x h = EXECUTING" and "s \<in> set (side_effects (nodes h x))"
    and "s \<notin> set ts" and "\<And>y. y \<in> set ts \<Longrightarrow> x \<notin> set (side_effects (nodes h y))"
  shows "get_state s (fold ended ts h) = NO_STATE"
  using assms
proof (induction ts arbitrary: h)
  case (Cons t ts)
  show ?case
  proof (cases "t = x")
    case True
    then have "get_state s (ended t h) = NO_STATE" using Cons.prems by (auto simp: reset_side_effects_state)
    then show ?thesis using fold_ended_stays_reset Cons.prems(4) by simp
  next
    case False
    have "get_state s (fold ended ts (ended t h)) = NO_STATE"
    proof (rule Cons.IH)
      show "x \<in> set ts" "s \<notin> set ts" using Cons.prems False by auto
      show "get_state x (ended t h) = EXECUTING" using Cons.prems False by (auto simp: reset_side_effects_state)
      show "s \<in> set (side_effects (nodes (ended t h) x))" using Cons.prems(3) by (simp only: ended_keeps)
      show "x \<notin> set (side_effects (nodes (ended t h) y))" if "y \<in> set ts" for y
        using Cons.prems(5) [of y] that by (simp only: ended_keeps) simp
    qed
    then show ?thesis by simp
  qed
qed simp

end
