(* ===== verification/Scenario.thy ===== *)
theory Scenario
  imports Task
begin

text \<open>
  A small build to evaluate the model on: three nodes, where target 1 has the side
  effect 2 and target 3 is made from 2. Nothing is up to date, every action succeeds,
  and sets are iterated in ascending order.
\<close>

definition demo_hooks :: hooks where
  "demo_hooks = \<lparr>hk_up_to_date = (\<lambda>_ _. Inr False), hk_implicit_deps = (\<lambda>_ _. Inr []),
     hk_action_deps = (\<lambda>_. []), hk_has_target_scanner = (\<lambda>_. False),
     hk_stored_implicit = (\<lambda>_. None), hk_implicit_cache = False,
     hk_implicit_deps_changed = False, hk_implicit_deps_unchanged = False,
     hk_exists = (\<lambda>_ _. True), hk_rexists = (\<lambda>_ _. True), hk_retrieve = (\<lambda>_ _. Inr False),
     hk_run_action = (\<lambda>_ _ _. Inr 0), hk_alter_targets = (\<lambda>_. ([], None)),
     hk_name = (\<lambda>n. [char_of (97 + n)]), hk_builder_action = (\<lambda>_. [\<lparr>act_id = 7, act_targets = TARGETS\<rparr>])\<rparr>"

definition demo_cfg :: config where
  "demo_cfg = \<lparr>cf_hk = demo_hooks, cf_order = (\<lambda>l. l), cf_ho = sorted_list_of_set\<rparr>"

definition demo_pol :: policy where
  "demo_pol = \<lparr>pol_needs = OutOfDateTask, pol_ready_all = False, pol_callbacks = True,
     pol_keep_going = False, pol_release = False\<rparr>"

definition demo_heap :: "nat \<Rightarrow> heap" where
  "demo_heap k = \<lparr>nodes = (\<lambda>n. if n = 1 then init_node\<lparr>has_builder := True, side_effects := [2]\<rparr>
         else if n = 2 then init_node\<lparr>side_effect := True, sources := [1], sources_set := {1}\<rparr>
         else if n = 3 then init_node\<lparr>has_builder := True, sources := [2], sources_set := {2}\<rparr>
         else init_node\<lparr>state_of := if n < k then NO_STATE else EXECUTED\<rparr>),
     execs = (\<lambda>_. null_init []), next_eid = 0, events = []\<rparr>"

definition demo_tm :: tm where
  "demo_tm = tm_init [1, 3] (demo_heap 4)"

text \<open>Two nodes that wait for each other.\<close>

definition demo_loop :: "nid \<Rightarrow> nid set" where
  "demo_loop n = (if n = 1 then {2} else if n = 2 then {1} else {})"

text \<open>Node 3 waits for node 1, which has been executed.\<close>

definition demo_waiting :: tm where
  "demo_waiting = tm_init [3] ((demo_heap 4)\<lparr>nodes := (\<lambda>n.
     if n = 1 then init_node\<lparr>state_of := EXECUTED, waiting_parents := {3}\<rparr>
     else if n = 3 then init_node\<lparr>state_of := PENDING, ref_count := 1\<rparr> else init_node)\<rparr>)"

text \<open>Node 1 and its side effect 2 are being built; node 3 waits for 2.\<close>

definition demo_side_effect :: tm where
  "demo_side_effect = tm_init [3] ((demo_heap 4)\<lparr>nodes := (\<lambda>n.
     if n = 1 then init_node\<lparr>has_builder := True, state_of := EXECUTING, side_effects := [2]\<rparr>
     else if n = 2 then init_node\<lparr>side_effect := True, state_of := EXECUTING, waiting_parents := {3}\<rparr>
     else if n = 3 then init_node\<lparr>has_builder := True, state_of := PENDING, ref_count := 1\<rparr>
     else init_node)\<rparr>)"

end
