(* ===== verification/Decisions.thy ===== *)
theory Decisions
  imports NodeInfo Scenario
begin

text \<open>
  The properties of the child lists of a node, of what it records about its build and of
  the decision to rebuild it, with their witnesses on a node with an ignored source.
\<close>

section \<open>A node with an ignored source\<close>

definition small_heap :: heap where
  "small_heap = \<lparr>nodes = (\<lambda>n. if n = 1 then init_node\<lparr>specific_sources := True, sources := [2, 3],
       sources_set := {2, 3}, depends := [4], depends_set := {4}, ignore := [3], ignore_set := {3}\<rparr>
     else init_node), execs = (\<lambda>_. exec_init [] [1] [2]), next_eid = 0, events = []\<rparr>"

lemma small_heap_wf: "heap_wf small_heap"
  by (auto simp: heap_wf_def small_heap_def node_wf_def lists_wf_def init_node_def)

definition small_sigs :: "nat sig_env" where
  "small_sigs = \<lparr>sg_ninfo = (\<lambda>n. 10 * n), sg_exec_str = (\<lambda>_. []), sg_exec_contents = (\<lambda>_. []),
     sg_md5 = (\<lambda>s. s)\<rparr>"

lemma small_children:
  "\<exists>h'. children demo_hooks 1 small_heap = (Inr [2, 4], h') \<and> \<not> has_builder (nodes h' 1)"
  by (simp add: children_def node_scan_def small_heap_def init_node_def children_get_def Let_def
      children_reset_def clear_memoized_values_def executor_cleanup_def pure_children_def raw_children_def)

section \<open>Children\<close>

text \<open>
  C34: The memo of the children is never stale: over a heap whose child lists are well formed,
  \<open>Node.children\<close> returns the list that would be computed from the sources, dependencies and
  implicit dependencies at that moment, without the ignored nodes, and leaves the heap
  well formed. (A rescan after \<open>--implicit-cache\<close> is excluded.)
\<close>

theorem children_are_current:
  assumes "heap_wf h" and "\<not> hk_implicit_cache hk \<or> hk_implicit_deps_unchanged hk"
    and "children hk n h = (Inr cs, h')"
  shows "heap_wf h' \<and> cs = pure_children (nodes h' n)"
  using children_result [OF assms] children_wf [OF assms(1,2), of n] assms(3) by simp

theorem children_are_current_witness:
  "\<exists>h'. children demo_hooks 1 small_heap = (Inr [2, 4], h') \<and> heap_wf h' \<and>
     [2, 4] = pure_children (nodes h' 1)"
  using small_children children_are_current [OF small_heap_wf, of demo_hooks 1 "[2, 4]"]
  by (auto simp: demo_hooks_def)

text \<open>
  The walk sees every child once: the list \<open>Executor.get_all_children\<close> builds from the targets of
  all its batches has no repetition.
\<close>

theorem all_children_distinct:
  assumes "\<not> is_null (execs h e)" and "get_all_children hk e h = (Inr cs, h')"
  shows "distinct cs"
  using assms by (rule get_all_children_distinct)

theorem all_children_distinct_witness:
  "\<exists>cs h'. get_all_children demo_hooks 0 small_heap = (Inr cs, h') \<and> distinct cs"
proof -
  obtain h' where "children demo_hooks 1 small_heap = (Inr [2, 4], h')" using small_children by blast
  then have "get_all_children demo_hooks 0 small_heap = (Inr (ul_view (ul_extend (ul_init []) [2, 4])), h')"
    by (simp add: get_all_children_def small_heap_def exec_init_def get_all_targets_def)
  then show ?thesis using all_children_distinct [of small_heap 0 demo_hooks]
    by (auto simp: small_heap_def exec_init_def)
qed

section \<open>Signatures\<close>

text \<open>
  What a node records is what it will be compared with: for a node with its own source list,
  the signatures \<open>get_binfo\<close> stores are those of the children \<open>changed\<close> looks at, in the same
  order.
\<close>

theorem recorded_signatures_are_the_children:
  assumes "heap_wf h" and "specific_sources (nodes h n)"
  shows "bkidsigs (fst (get_binfo hk sg n h)) = map (sg_ninfo sg) (pure_children (nodes h n))"
  using assms by (rule get_binfo_sigs)

theorem recorded_signatures_are_the_children_witness:
  "bkidsigs (fst (get_binfo demo_hooks small_sigs 1 small_heap)) = [20, 40]"
  using recorded_signatures_are_the_children [OF small_heap_wf, of 1 demo_hooks small_sigs]
  by (simp add: small_heap_def small_sigs_def pure_children_def raw_children_def init_node_def)

text \<open>
  C36: \<open>changed\<close> answers \<open>False\<close> exactly when there are as many recorded signatures as children,
  no decider reports a change against the signature in the same place, and, for a node
  with a builder, the signature of the action is the recorded one.
\<close>

theorem unchanged_iff_all_equal:
  assumes "children hk n h = (Inr cs, h1)" and "get_executor hk n h1 = (e, h2)"
  shows "fst (changed hk sg dec bi n h) = Inr False \<longleftrightarrow>
    list_all2 (\<lambda>c s. \<not> dec c n (Some s)) cs (bkidsigs bi) \<and>
    (has_builder (nodes h2 n) \<longrightarrow> bactsig bi = Some (sg_md5 sg (sg_exec_contents sg e)))"
  using assms by (rule changed_iff)

definition small_binfo :: "nat binfo" where
  "small_binfo = \<lparr>bsources = [2], bdepends = [4], bimplicit = [], bsourcesigs = [20], bdependsigs = [40],
     bimplicitsigs = [], bact = None, bactsig = None\<rparr>"

theorem unchanged_iff_all_equal_witness:
  "fst (changed demo_hooks small_sigs (\<lambda>c _ s. s \<noteq> Some (10 * c)) small_binfo 1 small_heap) = Inr False"
proof -
  obtain h1 where c: "children demo_hooks 1 small_heap = (Inr [2, 4], h1)" "\<not> has_builder (nodes h1 1)"
    using small_children by blast
  obtain e h2 where g: "get_executor demo_hooks 1 h1 = (e, h2)" by fastforce
  have "\<not> has_builder (nodes h2 1)" using get_executor_fields [OF g] c(2) by simp
  then show ?thesis
    by (subst unchanged_iff_all_equal [OF c(1) g]) (simp add: small_binfo_def bkidsigs_def)
qed

text \<open>
  The greatest state of the children decides whether an \<open>Alias\<close> or \<open>Value\<close> node is up to date:
  nothing is known of any child, or some child is up to date and none was executed or
  failed. A node that is always built never is.
\<close>

theorem up_to_date_iff_children:
  assumes "has_binfo (nodes h n)" and "children_get n h = (cs, h1)"
  shows "fst (children_are_up_to_date hk n h) \<longleftrightarrow>
    \<not> always_build (nodes h n) \<and>
    ((\<forall>c\<in>set cs. get_state c h1 = NO_STATE) \<or>
     (\<exists>c\<in>set cs. get_state c h1 = UP_TO_DATE) \<and> (\<forall>c\<in>set cs. get_state c h1 \<le> UP_TO_DATE))"
  using assms by (rule children_are_up_to_date_iff)

theorem up_to_date_iff_children_witness:
  "\<not> fst (children_are_up_to_date demo_hooks 1
     (set_state 4 EXECUTED (upd_node 1 (\<lambda>x. x\<lparr>has_binfo := True\<rparr>) small_heap)))"
proof -
  let ?h = "set_state 4 EXECUTED (upd_node 1 (\<lambda>x. x\<lparr>has_binfo := True\<rparr>) small_heap)"
  obtain cs h1 where c: "children_get 1 ?h = (cs, h1)" by fastforce
  have "cs = [2, 4]" "get_state 4 h1 = EXECUTED"
    using c by (auto simp: children_get_def small_heap_def init_node_def get_state_def set_state_def
        pure_children_def raw_children_def Let_def)
  then show ?thesis
    using up_to_date_iff_children [of ?h 1 cs h1 demo_hooks] c
    by (auto simp: set_state_def nstate_order)
qed

text \<open>
  With a signature for every recorded child, \<open>explain\<close> gives an explanation and raises nothing;
  a child that was recorded although it is ignored, so that its signature is missing, makes
  it raise \<open>KeyError\<close>.
\<close>

theorem explanation_total:
  assumes "length (bkidsigs old) = length (bkids old)"
  shows "(\<exists>ls. explain_lines str rep dec old new = Inr ls) \<and>
    explain_lines str rep dec (old\<lparr>bsources := [], bdepends := [d], bimplicit := [], bsourcesigs := [],
        bdependsigs := [], bimplicitsigs := []\<rparr>)
      (new\<lparr>bsources := [], bdepends := [d], bimplicit := []\<rparr>) = Inl (OtherError ''KeyError'')"
  using explain_lines_total [OF assms] by (simp add: explain_lines_def bkids_def bkidsigs_def)

theorem explanation_total_witness:
  "\<exists>ls. explain_lines (\<lambda>_. []) concat (\<lambda>_ _. False) small_binfo small_binfo = Inr ls"
  using explanation_total [of small_binfo "\<lambda>_. []" concat "\<lambda>_ _. False" small_binfo]
  by (simp add: small_binfo_def bkids_def bkidsigs_def)

end
