(* ===== verification/Jobs.thy ===== *)
theory Jobs
  imports Task
begin

text \<open>
  \<open>SCons/Job.py\<close>: the serial job loop, and the parallel one with its request and
  result queues and worker threads. The serial loop is a function; the parallel build is
  a step relation in which the main thread, the workers and a signal interleave freely.
  The lemmas show that the parallel main thread never waits for a result that cannot
  come, never has more than the allowed number of tasks under way, and leaves no task
  behind.
\<close>

section \<open>One task\<close>

definition interrupt_msg :: string where
  "interrupt_msg = ''Build interrupted.''"

definition set_interrupt :: "bool \<Rightarrow> task \<Rightarrow> exn \<Rightarrow> task" where
  "set_interrupt interrupted k x =
     (if interrupted
      then exception_set (BuildError (case tk_targets k of [] \<Rightarrow> 0 | t # _ \<Rightarrow> t) interrupt_msg) k
      else exception_set x k)"

text \<open>What both loops do with a task that is over: an escaping exception ends the loop.\<close>

definition finish_ok :: "config \<Rightarrow> policy \<Rightarrow> task \<Rightarrow> tm \<Rightarrow> (exn + unit) \<times> tm" where
  "finish_ok cfg pol k t =
     (case executed (cf_hk cfg) pol k (tm_heap t) of
        (Inl x, h) \<Rightarrow> (Inl x, t\<lparr>tm_heap := h\<rparr>)
      | (Inr _, h) \<Rightarrow> (Inr (), task_postprocess cfg k (t\<lparr>tm_heap := h\<rparr>)))"

definition finish_failed :: "config \<Rightarrow> policy \<Rightarrow> task \<Rightarrow> tm \<Rightarrow> ((exn + unit) \<times> tm) option" where
  "finish_failed cfg pol k t =
     map_option (\<lambda>(r, t1). case r of
          Inl x \<Rightarrow> (Inl x, t1)
        | Inr k1 \<Rightarrow> (Inr (), task_postprocess cfg k1 t1))
       (failed cfg pol k t)"

section \<open>The serial loop\<close>

text \<open>
  \<open>Serial.start\<close>. \<open>sig n\<close> says that a signal arrives while the n-th task is handled:
  its handler stops the Taskmaster and sets the interrupted flag.
\<close>

definition serial_task ::
  "config \<Rightarrow> policy \<Rightarrow> bool \<Rightarrow> task \<Rightarrow> tm \<Rightarrow> ((exn + unit) \<times> tm) option" where
  "serial_task cfg pol interrupted k t =
     (case task_prepare (cf_hk cfg) k t of
        (Inl x, t1) \<Rightarrow> finish_failed cfg pol (set_interrupt interrupted k x) t1
      | (Inr _, t1) \<Rightarrow>
          (case needs_execute pol k (tm_heap t1) of
             Inl x \<Rightarrow> finish_failed cfg pol (set_interrupt interrupted k x) t1
           | Inr False \<Rightarrow> Some (finish_ok cfg pol k t1)
           | Inr True \<Rightarrow>
               (case task_execute (cf_hk cfg) k (tm_heap t1) of
                  (Inl x, h) \<Rightarrow>
                    finish_failed cfg pol (set_interrupt interrupted k x) (t1\<lparr>tm_heap := h\<rparr>)
                | (Inr _, h) \<Rightarrow> Some (finish_ok cfg pol k (t1\<lparr>tm_heap := h\<rparr>)))))"

partial_function (option) serial_loop ::
  "config \<Rightarrow> policy \<Rightarrow> nat \<Rightarrow> (nat \<Rightarrow> bool) \<Rightarrow> nat \<Rightarrow> bool \<Rightarrow> tm \<Rightarrow> ((exn + unit) \<times> tm) option" where
  "serial_loop cfg pol fuel sig n interrupted t =
     (case next_task cfg pol t of
        None \<Rightarrow> None
      | Some (Inl x, t1) \<Rightarrow> Some (Inl x, t1)
      | Some (Inr None, t1) \<Rightarrow> map_option (\<lambda>r. (r, t1)) (cleanup cfg fuel t1)
      | Some (Inr (Some k), t1) \<Rightarrow>
          (let intr = interrupted \<or> sig n;
               t2 = (if sig n then stop t1 else t1)
           in case serial_task cfg pol intr k t2 of
                None \<Rightarrow> None
              | Some (Inl x, t3) \<Rightarrow> Some (Inl x, t3)
              | Some (Inr _, t3) \<Rightarrow> serial_loop cfg pol fuel sig (Suc n) intr t3))"

declare serial_loop.simps [code]

definition Serial_start :: "config \<Rightarrow> policy \<Rightarrow> nat \<Rightarrow> (nat \<Rightarrow> bool) \<Rightarrow> tm \<Rightarrow> ((exn + unit) \<times> tm) option" where
  "Serial_start cfg pol fuel sig t = serial_loop cfg pol fuel sig 0 False t"

section \<open>The parallel build\<close>

datatype mode = Filling | Collecting | Finished | Crashed exn

record par =
  par_tm :: tm
  par_jobs :: nat
  par_requests :: "task list"
  par_running :: "task list"
  par_results :: "(task \<times> bool) list"
  par_interrupted :: bool
  par_mode :: mode

definition par_init :: "tm \<Rightarrow> par" where
  "par_init t = \<lparr>par_tm = t, par_jobs = 0, par_requests = [], par_running = [], par_results = [],
     par_interrupted = False, par_mode = Filling\<rparr>"

text \<open>\<open>Jobs.__init__\<close>: the number of jobs used; \<open>threads\<close> says that threads exist.\<close>

definition num_jobs :: "bool \<Rightarrow> int \<Rightarrow> int" where
  "num_jobs threads num = (if num > 1 \<and> threads then num else 1)"

text \<open>An exception that leaves the loop ends the main thread.\<close>

definition after_task :: "mode \<Rightarrow> (exn + unit) \<times> tm \<Rightarrow> par \<Rightarrow> par" where
  "after_task m r s =
     s\<lparr>par_tm := snd r, par_mode := (case fst r of Inl x \<Rightarrow> Crashed x | Inr _ \<Rightarrow> m)\<rparr>"

text \<open>One turn of the inner loop of \<open>Parallel.start\<close> that starts tasks.\<close>

definition fill_step :: "config \<Rightarrow> policy \<Rightarrow> nat \<Rightarrow> par \<Rightarrow> par option" where
  "fill_step cfg pol maxjobs s =
     (if par_jobs s \<ge> maxjobs then Some (s\<lparr>par_mode := Collecting\<rparr>)
      else
        (case next_task cfg pol (par_tm s) of
           None \<Rightarrow> None
         | Some (Inl x, t1) \<Rightarrow> Some (s\<lparr>par_tm := t1, par_mode := Crashed x\<rparr>)
         | Some (Inr None, t1) \<Rightarrow>
             Some (s\<lparr>par_tm := t1, par_mode := (if par_jobs s = 0 then Finished else Collecting)\<rparr>)
         | Some (Inr (Some k), t1) \<Rightarrow>
             (case task_prepare (cf_hk cfg) k t1 of
                (Inl x, t2) \<Rightarrow>
                  map_option (\<lambda>r. after_task Filling r s) (finish_failed cfg pol (exception_set x k) t2)
              | (Inr _, t2) \<Rightarrow>
                  (case needs_execute pol k (tm_heap t2) of
                     Inl x \<Rightarrow> Some (s\<lparr>par_tm := t2, par_mode := Crashed x\<rparr>)
                   | Inr True \<Rightarrow>
                       Some (s\<lparr>par_tm := t2, par_requests := par_requests s @ [k],
                               par_jobs := par_jobs s + 1\<rparr>)
                   | Inr False \<Rightarrow> Some (after_task Filling (finish_ok cfg pol k t2) s)))))"

text \<open>One turn of the loop that collects results; \<open>get\<close> blocks on an empty queue.\<close>

definition collect_step :: "config \<Rightarrow> policy \<Rightarrow> par \<Rightarrow> par option" where
  "collect_step cfg pol s =
     (case par_results s of
        [] \<Rightarrow> None
      | (k, ok) # rest \<Rightarrow>
          (let s1 = s\<lparr>par_results := rest, par_jobs := par_jobs s - 1\<rparr>;
               m = (if rest = [] then Filling else Collecting)
           in if ok then Some (after_task m (finish_ok cfg pol k (par_tm s)) s1)
              else
                (let k1 = (if par_interrupted s
                           then exception_set (BuildError (case tk_targets k of [] \<Rightarrow> 0 | t # _ \<Rightarrow> t)
                                  interrupt_msg) k
                           else k)
                 in map_option (\<lambda>r. after_task m r s1) (finish_failed cfg pol k1 (par_tm s)))))"

text \<open>\<open>Worker.run\<close>: take a task, later execute it (or refuse to, when interrupted).\<close>

definition worker_take :: "par \<Rightarrow> par option" where
  "worker_take s =
     (case par_requests s of
        [] \<Rightarrow> None
      | k # ks \<Rightarrow> Some (s\<lparr>par_requests := ks, par_running := k # par_running s\<rparr>))"

definition worker_run :: "config \<Rightarrow> task \<Rightarrow> par \<Rightarrow> par" where
  "worker_run cfg k s =
     (let (r, h) =
        (if par_interrupted s
         then (Inl (BuildError (case tk_targets k of [] \<Rightarrow> 0 | t # _ \<Rightarrow> t) interrupt_msg),
               tm_heap (par_tm s))
         else task_execute (cf_hk cfg) k (tm_heap (par_tm s)))
      in s\<lparr>par_tm := (par_tm s)\<lparr>tm_heap := h\<rparr>, par_running := remove1 k (par_running s),
           par_results := par_results s @
             [case r of Inl x \<Rightarrow> (exception_set x k, False) | Inr _ \<Rightarrow> (k, True)]\<rparr>)"

definition signal :: "par \<Rightarrow> par" where
  "signal s = s\<lparr>par_tm := stop (par_tm s), par_interrupted := True\<rparr>"

inductive par_step :: "config \<Rightarrow> policy \<Rightarrow> nat \<Rightarrow> par \<Rightarrow> par \<Rightarrow> bool" for cfg pol num where
  fill: "par_mode s = Filling \<Longrightarrow> fill_step cfg pol num s = Some s' \<Longrightarrow> par_step cfg pol num s s'"
| collect: "par_mode s = Collecting \<Longrightarrow> collect_step cfg pol s = Some s' \<Longrightarrow> par_step cfg pol num s s'"
| take: "length (par_running s) < num \<Longrightarrow> worker_take s = Some s' \<Longrightarrow> par_step cfg pol num s s'"
| run: "k \<in> set (par_running s) \<Longrightarrow> s' = worker_run cfg k s \<Longrightarrow> par_step cfg pol num s s'"
| sig: "s' = signal s \<Longrightarrow> par_step cfg pol num s s'"

inductive par_reach :: "config \<Rightarrow> policy \<Rightarrow> nat \<Rightarrow> tm \<Rightarrow> par \<Rightarrow> bool" for cfg pol num t where
  start: "par_reach cfg pol num t (par_init t)"
| step: "par_reach cfg pol num t s \<Longrightarrow> par_step cfg pol num s s' \<Longrightarrow> par_reach cfg pol num t s'"

section \<open>A wake-up that is lost\<close>

text \<open>
  After \<open>executed\<close> the side effects of the targets are in no state, so postprocessing treats them
  as idle and leaves what waits for them alone.
\<close>

lemma finish_ok_keeps_waiting:
  assumes ho: "enumerates (cf_ho cfg)" and refs: "refs_ok (tm_heap t)"
    and fin: "finish_ok cfg pol k t = (Inr (), t')"
    and run: "\<forall>x\<in>set (tk_targets k). get_state x (tm_heap t) = EXECUTING"
    and dis: "\<forall>x\<in>set (tk_targets k). set (side_effects (nodes (tm_heap t) x)) \<inter> set (tk_targets k) = {}"
    and x: "x \<in> set (tk_targets k)" and s: "s \<in> set (side_effects (nodes (tm_heap t) x))"
    and p: "p \<in> waiting_parents (nodes (tm_heap t) s)"
  shows "get_state s (tm_heap t') = NO_STATE \<and> p \<in> waiting_parents (nodes (tm_heap t') s) \<and>
    ref_count (nodes (tm_heap t') p) > 0 \<and> (p \<in> set (candidates t') \<longrightarrow> p \<in> set (candidates t))"
proof -
  let ?S = "set (tk_targets k)"
  obtain h where e: "executed (cf_hk cfg) pol k (tm_heap t) = (Inr (), h)"
    and t': "t' = task_postprocess cfg k (t\<lparr>tm_heap := h\<rparr>)"
    using fin by (auto simp: finish_ok_def split: prod.splits sum.splits)
  let ?t = "t\<lparr>tm_heap := h\<rparr>"
  note w = executed_ended [OF e]
  have se: "side_effects (nodes h m) = side_effects (nodes (tm_heap t) m)" for m
    using same_walkD(5) [OF w, of m] fold_ended_keeps(3) by simp
  have wp: "wp_of h = wp_of (tm_heap t)"
    by (rule ext) (use same_walkD(2) [OF w] fold_ended_keeps(1) in \<open>simp add: wp_of_def fun_eq_iff\<close>)
  have rc: "ref_count (nodes h m) = ref_count (nodes (tm_heap t) m)" for m
    using same_walkD(4) [OF w, of m] fold_ended_keeps(2) by simp
  have reset: "get_state z h = NO_STATE" if "y \<in> ?S" "z \<in> set (side_effects (nodes (tm_heap t) y))" for y z
    unfolding get_state_same_walk [OF w]
    by (rule fold_ended_resets [OF that(1) _ that(2)]) (use run dis that in auto)
  have refs': "refs_ok (tm_heap ?t)" using refs by (simp add: refs_ok_def waits_finite_def wp rc)
  have idle: "\<forall>y\<in>?S. \<forall>z\<in>set (side_effects (nodes (tm_heap ?t) y)). get_state z (tm_heap ?t) \<noteq> EXECUTING"
    using reset by (simp add: se)
  note pn = postprocess_nodes [OF ho refs' idle, folded t']
  have sS: "s \<notin> ?S" using dis x s by auto
  have keep: "p \<in> wp_of (tm_heap t') s" using pn(1) sS p wp by (simp add: wp_of_def dropped_def fun_eq_iff)
  have "refs_ok (tm_heap t')" unfolding t' by (rule postprocess_refs_ok [OF ho refs' idle])
  then have "ref_count (nodes (tm_heap t') p) = int (card {c. p \<in> wp_of (tm_heap t') c})"
    and "finite {c. p \<in> wp_of (tm_heap t') c}"
    using waits_finite_into by (auto simp: refs_ok_def)
  then have pos: "ref_count (nodes (tm_heap t') p) > 0" using keep by (auto simp: card_gt_0_iff)
  have "ref_count (nodes (tm_heap t) p) = int (card {c. p \<in> wp_of (tm_heap t) c})"
    and "finite {c. p \<in> wp_of (tm_heap t) c}"
    using refs waits_finite_into by (auto simp: refs_ok_def)
  then have "ref_count (nodes (tm_heap ?t) p) > 0" using p rc by (auto simp: card_gt_0_iff wp_of_def)
  then have "p \<in> set (candidates t') \<longrightarrow> p \<in> set (candidates t)" using pn(4) [of p] pos by auto
  moreover have "get_state s (tm_heap t') = NO_STATE"
    using reset [OF x s] pn(1) by (simp add: get_state_def dropped_def fun_eq_iff)
  ultimately show ?thesis using keep pos by (simp add: wp_of_def)
qed

section \<open>The queues\<close>

text \<open>
  While the main thread runs, the job count is the number of tasks in the queues and
  with the workers; it only collects when there is one; it ends when there is none.
\<close>

definition under_way :: "par \<Rightarrow> nat" where
  "under_way s = length (par_requests s) + length (par_running s) + length (par_results s)"

definition queues_ok :: "nat \<Rightarrow> par \<Rightarrow> bool" where
  "queues_ok num s \<longleftrightarrow> par_jobs s = under_way s \<and> par_jobs s \<le> num \<and>
     length (par_running s) \<le> num \<and>
     (par_mode s = Collecting \<longrightarrow> par_jobs s > 0) \<and> (par_mode s = Finished \<longrightarrow> par_jobs s = 0)"

lemma after_task_queues [simp]:
  "par_jobs (after_task m r s) = par_jobs s" "par_requests (after_task m r s) = par_requests s"
  "par_running (after_task m r s) = par_running s" "par_results (after_task m r s) = par_results s"
  "par_mode (after_task m r s) = (case fst r of Inl x \<Rightarrow> Crashed x | Inr _ \<Rightarrow> m)"
  by (simp_all add: after_task_def)

lemma fill_step_queues:
  assumes "fill_step cfg pol num s = Some s'" and "queues_ok num s" and "par_mode s = Filling" and "0 < num"
  shows "queues_ok num s'"
proof (cases "par_jobs s \<ge> num")
  case True
  then show ?thesis using assms by (auto simp: fill_step_def queues_ok_def under_way_def)
next
  case False
  show ?thesis using assms False
    by (auto simp: fill_step_def queues_ok_def under_way_def
        split: option.splits prod.splits sum.splits if_splits bool.splits)
qed

lemma collect_step_queues:
  assumes "collect_step cfg pol s = Some s'" and "queues_ok num s" and "par_mode s = Collecting"
  shows "queues_ok num s'"
  using assms
  by (auto simp: collect_step_def queues_ok_def under_way_def Let_def
      split: list.splits if_splits sum.splits)

lemma worker_take_queues:
  assumes "worker_take s = Some s'" and "queues_ok num s" and "length (par_running s) < num"
  shows "queues_ok num s'"
  using assms by (auto simp: worker_take_def queues_ok_def under_way_def split: list.splits)

lemma worker_run_queues:
  assumes "k \<in> set (par_running s)" and "queues_ok num s"
  shows "queues_ok num (worker_run cfg k s)"
proof -
  have l: "length (par_running s) = Suc (length (remove1 k (par_running s)))"
    using assms(1) by (simp add: length_remove1) (metis Suc_pred length_pos_if_in_set)
  then show ?thesis using assms(2)
    by (auto simp: worker_run_def queues_ok_def under_way_def Let_def split: prod.splits)
qed

lemma par_reach_queues:
  assumes "par_reach cfg pol num t s" and "0 < num"
  shows "queues_ok num s"
  using assms(1)
proof induction
  case start
  then show ?case by (simp add: par_init_def queues_ok_def under_way_def)
next
  case (step s s')
  from step.hyps(2) show ?case
  proof (cases rule: par_step.cases)
    case fill then show ?thesis using fill_step_queues step.IH assms(2) by blast
  next
    case collect then show ?thesis using collect_step_queues step.IH by blast
  next
    case take then show ?thesis using worker_take_queues step.IH by blast
  next
    case (run k) then show ?thesis using worker_run_queues step.IH by blast
  next
    case sig then show ?thesis using step.IH by (auto simp: signal_def queues_ok_def under_way_def)
  qed
qed

text \<open>
  A step other than a signal: while the main thread collects, one is always possible.
\<close>

lemma failed_returns:
  assumes "enumerates (cf_ho cfg)" and "waits_finite (tm_heap t)"
  shows "finish_failed cfg pol k t \<noteq> None"
  using fail_continue_effect [OF assms, of k]
  by (simp add: finish_failed_def failed_def fail_stop_def fail_continue_def Let_def)

lemma collecting_progress:
  assumes "enumerates (cf_ho cfg)" and "waits_finite (tm_heap (par_tm s))"
    and "queues_ok num s" and "par_mode s = Collecting"
  shows "(\<exists>s'. collect_step cfg pol s = Some s') \<or> par_running s \<noteq> [] \<or>
    (\<exists>s'. length (par_running s) < num \<and> worker_take s = Some s')"
proof -
  have "under_way s > 0" "under_way s \<le> num" using assms(3,4) by (auto simp: queues_ok_def)
  moreover have "\<exists>s'. collect_step cfg pol s = Some s'" if ne: "par_results s \<noteq> []"
  proof -
    obtain k ok rest where r: "par_results s = (k, ok) # rest"
      using ne by (metis list.exhaust surj_pair)
    show ?thesis using failed_returns [OF assms(1,2)] r
      by (auto simp: collect_step_def Let_def)
  qed
  moreover have "\<exists>s'. worker_take s = Some s'" if "par_requests s \<noteq> []"
    using that by (cases "par_requests s") (auto simp: worker_take_def)
  ultimately show ?thesis by (auto simp: under_way_def)
qed

end
