(* ===== verification/Progress.thy ===== *)
theory Progress
  imports Jobs
begin

text \<open>
  The waiting graph stays finite in every state the build can reach, whatever the tasks
  do: most steps leave each node's \<open>waiting_parents\<close> alone or make it smaller
  (\<open>fewer_waits\<close>), and the walk adds one parent at a time. With it, the parallel main
  thread is never stuck on an empty queue.
\<close>

section \<open>Steps that add no waiting parent\<close>

definition fewer_waits :: "heap \<Rightarrow> heap \<Rightarrow> bool" where
  "fewer_waits h h' \<longleftrightarrow> (\<forall>n. wp_of h' n \<subseteq> wp_of h n)"

lemma fewer_refl [simp]: "fewer_waits h h"
  by (simp add: fewer_waits_def)

lemma fewer_trans: "fewer_waits h h1 \<Longrightarrow> fewer_waits h1 h2 \<Longrightarrow> fewer_waits h h2"
  unfolding fewer_waits_def by blast

lemma fewer_finite: "fewer_waits h h' \<Longrightarrow> waits_finite h \<Longrightarrow> waits_finite h'"
  unfolding fewer_waits_def waits_finite_def
  by (metis (mono_tags, lifting) finite_subset mem_Collect_eq subsetI subset_empty)

lemma fewer_same_walk: "same_walk h h' \<Longrightarrow> fewer_waits h h'"
  by (simp add: fewer_waits_def same_walk_wp)

lemma fewer_upd:
  "(\<And>x. waiting_parents (f x) \<subseteq> waiting_parents x) \<Longrightarrow> fewer_waits h (upd_node n f h)"
  by (simp add: fewer_waits_def wp_of_def)

lemma fewer_set_state: "fewer_waits h (set_state n s h)"
  unfolding set_state_def by (rule fewer_upd) simp

lemma fewer_emit: "fewer_waits h (emit ev h)"
  by (simp add: fewer_waits_def wp_of_def)

lemma fewer_fold:
  assumes "\<And>x h. fewer_waits h (f x h)"
  shows "fewer_waits h (fold f xs h)"
proof (induction xs arbitrary: h)
  case (Cons x xs)
  show ?case using fewer_trans [OF assms [of h x] Cons.IH [of "f x h"]] by simp
qed simp

lemmas fewer_base = fewer_set_state fewer_emit fewer_refl

lemma fewer_mark_executing: "fewer_waits h (mark_executing ts h)"
  unfolding mark_executing_def
  by (rule fewer_fold) (rule fewer_trans [OF fewer_set_state fewer_fold [OF fewer_set_state]])

lemma fewer_release: "fewer_waits h (release pol n h)"
  by (simp add: release_def fewer_emit)

lemma fewer_visited: "fewer_waits h (node_visited n h)"
  by (auto simp: node_visited_def Let_def intro: fewer_emit fewer_trans)

lemma fewer_mark_up_to_date: "fewer_waits h (mark_up_to_date pol ts h)"
  unfolding mark_up_to_date_def
  by (rule fewer_fold) (rule fewer_trans [OF fewer_visited fewer_trans [OF fewer_set_state fewer_release]])

lemma fewer_make_ready:
  assumes "make_ready hk pol k h = (r, k', h')"
  shows "fewer_waits h h'"
proof (cases "pol_ready_all pol")
  case True
  then show ?thesis using assms
    by (auto simp: make_ready_def make_ready_all_def intro: fewer_mark_executing)
next
  case False
  obtain q ood h1 where f: "find_out_of_date hk (tk_targets k) h [] = (q, ood, h1)" by (metis prod_cases3)
  have "fewer_waits h h1" using find_out_of_date_sub [OF f] by (simp add: fewer_same_walk)
  then show ?thesis using assms False f
    by (auto simp: make_ready_def make_ready_current_def split: sum.splits if_splits
        intro: fewer_trans fewer_mark_executing fewer_mark_up_to_date)
qed

lemma fewer_get_executor: "get_executor hk n h = (e, h') \<Longrightarrow> fewer_waits h h'"
  using same_walk_get_executor [of h hk n] by (simp add: fewer_same_walk)

lemma fewer_node_prepare: "fewer_waits h (snd (node_prepare hk n h))"
proof -
  have "fewer_waits h (snd (get_executor hk n h))"
    by (rule fewer_same_walk [OF same_walk_get_executor])
  moreover have "fewer_waits h1 (emit ev (upd_node n (\<lambda>x. x\<lparr>has_binfo := True\<rparr>) h1))" for h1 ev
    by (rule fewer_trans [OF fewer_upd fewer_emit]) simp
  ultimately show ?thesis
    by (auto simp: node_prepare_def Let_def split: option.split intro: fewer_trans)
qed

lemma fewer_prepare_nodes: "fewer_waits h (snd (prepare_nodes hk ns h))"
proof (induction ns arbitrary: h)
  case (Cons n ns)
  show ?case using fewer_node_prepare [of h hk n] Cons.IH
    by (auto split: prod.split sum.split intro: fewer_trans)
qed simp

lemma fewer_prepare_targets: "fewer_waits h (snd (prepare_targets hk ts h))"
proof (induction ts arbitrary: h)
  case (Cons t ts)
  show ?case using fewer_prepare_nodes [of h hk "t # side_effects (nodes h t)"] Cons.IH
    by (auto simp del: prepare_nodes.simps split: prod.split sum.split intro: fewer_trans)
qed simp

lemma fewer_task_prepare:
  assumes "task_prepare hk k t = (r, t')"
  shows "fewer_waits (tm_heap t) (tm_heap t')"
proof (cases "exception_raise k")
  case Inl
  then show ?thesis using assms by (simp add: task_prepare_def)
next
  case Inr
  show ?thesis
  proof (cases "tk_targets k")
    case Nil
    then show ?thesis using assms Inr by (auto simp: task_prepare_def)
  next
    case (Cons t0 ts)
    obtain e h1 where g: "get_executor hk t0 (tm_heap t) = (e, h1)" by fastforce
    obtain q h2 where a: "get_action_targets hk e h1 = (q, h2)" by fastforce
    have f1: "fewer_waits (tm_heap t) h1" by (rule fewer_get_executor [OF g])
    have "fewer_waits h1 h2"
      using same_walk_get_action_targets [of h1 hk e] a by (simp add: fewer_same_walk)
    then have "fewer_waits (tm_heap t) h2" by (rule fewer_trans [OF f1])
    then have "fewer_waits (tm_heap t) (snd (prepare_targets hk us h2))" for us
      using fewer_prepare_targets fewer_trans by blast
    then show ?thesis using assms Inr Cons g a f1 \<open>fewer_waits (tm_heap t) h2\<close>
      by (auto simp: task_prepare_def Let_def split: sum.splits prod.splits) (metis snd_conv)
  qed
qed

lemma fewer_retrieve: "retrieve_loop hk ts h = (r, h') \<Longrightarrow> fewer_waits h h'"
proof (induction ts arbitrary: h r)
  case (Cons t ts)
  then show ?case
    by (auto simp: Let_def fewer_emit split: sum.splits bool.splits prod.splits
        intro: fewer_trans [OF fewer_emit])
qed simp

lemma fewer_run_actions: "run_actions hk ts acts h = (r, h') \<Longrightarrow> fewer_waits h h'"
proof (induction acts arbitrary: h)
  case (Cons a acts)
  then show ?case
    by (auto simp: Let_def fewer_emit split: sum.splits if_splits intro: fewer_trans [OF fewer_emit])
qed simp

lemma fewer_node_build: "fewer_waits h (snd (node_build hk n h))"
proof -
  obtain e h1 where g: "get_executor hk n h = (e, h1)" by fastforce
  obtain r h2 where x: "execute_action_list hk e (emit (EvBuild n) h1) = (r, h2)" by fastforce
  have "fewer_waits (emit (EvBuild n) h1) h2"
    using x by (auto simp: execute_action_list_def fewer_run_actions split: if_splits)
  then have "fewer_waits h h2"
    using fewer_get_executor [OF g] fewer_emit fewer_trans by blast
  then show ?thesis by (auto simp: node_build_def g x split: sum.split exn.split)
qed

lemma fewer_task_execute: "fewer_waits h (snd (task_execute hk k h))"
proof -
  obtain r h1 where rt: "retrieve_loop hk (tk_targets k) h = (r, h1)" by fastforce
  have f1: "fewer_waits h h1" by (rule fewer_retrieve [OF rt])
  have c: "fewer_waits h1 (fold (\<lambda>t. upd_node t (\<lambda>x. x\<lparr>cached := True\<rparr>)) cs h1)" for cs
    by (rule fewer_fold) (rule fewer_upd, simp)
  have u: "fewer_waits h1 (fold (\<lambda>t. emit (EvUnlink t)) cs h1)" for cs
    by (rule fewer_fold) (rule fewer_emit)
  have b: "fewer_waits h1 (snd (node_build hk n (fold (\<lambda>t. emit (EvUnlink t)) cs h1)))" for n cs
    by (rule fewer_trans [OF u fewer_node_build])
  show ?thesis using fewer_trans [OF f1 c] fewer_trans [OF f1 b] f1
    by (auto simp: task_execute_def rt split: sum.split prod.split) (metis snd_conv)+
qed

lemma fewer_reset: "fewer_waits h (reset_side_effects t h)"
  unfolding reset_side_effects_def by (rule fewer_fold) (rule fewer_set_state)

lemma fewer_cleanup: "fewer_waits h (executor_cleanup n h)"
  by (simp add: fewer_waits_def wp_of_def)

lemma fewer_node_built: "node_built hk n h = (r, h') \<Longrightarrow> fewer_waits h h'"
proof -
  have "fewer_waits h (forget_implicit ps h)" for ps
    by (simp add: fewer_waits_def wp_of_def forget_implicit_def)
  moreover have "fewer_waits h (node_clear n h)" for h
    by (auto simp: node_clear_def clear_memoized_values_def
        intro!: fewer_trans [OF _ fewer_cleanup] fewer_trans [OF fewer_upd fewer_upd])
  ultimately have "fewer_waits h (node_clear n (forget_implicit ps h))" for ps
    using fewer_trans by blast
  then show "node_built hk n h = (r, h') \<Longrightarrow> ?thesis"
    by (auto simp: node_built_def Let_def split: if_splits)
qed

lemma fewer_ended: "fewer_waits h (set_state t s (reset_side_effects t h))"
  by (rule fewer_trans [OF fewer_reset fewer_set_state])

lemma fewer_with_callbacks: "executed_with_callbacks hk pol ts h = (r, h') \<Longrightarrow> fewer_waits h h'"
proof (induction ts arbitrary: h)
  case (Cons t ts)
  show ?case
  proof (cases "get_state t h = EXECUTING")
    case False
    then show ?thesis using Cons fewer_trans [OF fewer_visited] by auto
  next
    case True
    let ?h1 = "set_state t EXECUTED (reset_side_effects t h)"
    let ?h2 = "if cached (nodes ?h1 t) then ?h1 else emit (EvPush t) ?h1"
    obtain q h3 where b: "node_built hk t ?h2 = (q, h3)" by fastforce
    have "fewer_waits h ?h2" using fewer_ended fewer_trans [OF fewer_ended fewer_emit] by simp
    then have f3: "fewer_waits h h3" using fewer_node_built [OF b] fewer_trans by blast
    have "fewer_waits h (release pol t (node_visited t h3))"
      by (rule fewer_trans [OF f3 fewer_trans [OF fewer_visited fewer_release]])
    then show ?thesis using Cons True b f3 fewer_trans
      by (auto simp: Let_def split: sum.splits)
  qed
qed simp

lemma fewer_executed: "executed hk pol k h = (r, h') \<Longrightarrow> fewer_waits h h'"
proof (cases "pol_callbacks pol")
  case True
  then show "executed hk pol k h = (r, h') \<Longrightarrow> ?thesis"
    by (simp add: executed_def fewer_with_callbacks)
next
  case False
  have "fewer_waits h (executed_without_callbacks k h)"
    unfolding executed_without_callbacks_def by (rule fewer_fold) (simp add: fewer_ended)
  then show "executed hk pol k h = (r, h') \<Longrightarrow> ?thesis" using False by (auto simp: executed_def)
qed

section \<open>Postprocessing and failure\<close>

lemma fewer_count_parents: "count_parents cfg xs t m = (t', m') \<Longrightarrow> tm_heap t' = tm_heap t"
  by (induction xs arbitrary: t m) (auto simp: Let_def split: if_splits)

lemma fewer_free_side_effects:
  "fewer_waits (tm_heap t) (tm_heap (fst (free_side_effects cfg ss t m)))"
proof (induction ss arbitrary: t m)
  case (Cons s ss)
  have "fewer_waits (tm_heap t) (tm_heap (fst (free_side_effects cfg ss u m')))"
    if "tm_heap u = tm_heap t \<or> tm_heap u = set_state s NO_STATE (tm_heap t)" for u m'
    using that Cons.IH [of u m'] fewer_trans [OF fewer_set_state] by metis
  then show ?case by (simp add: Let_def)
qed simp

lemma fewer_subtract_counts: "fewer_waits (tm_heap t) (tm_heap (subtract_counts ps m t))"
proof (induction ps arbitrary: t)
  case (Cons p ps)
  have "fewer_waits (tm_heap t) (tm_heap (subtract_counts ps m u))"
    if "tm_heap u = upd_node p (\<lambda>x. x\<lparr>ref_count := ref_count x - k\<rparr>) (tm_heap t)" for u k
  proof (rule fewer_trans [OF _ Cons.IH])
    show "fewer_waits (tm_heap t) (tm_heap u)" unfolding that by (rule fewer_upd) simp
  qed
  then show ?case by (simp add: Let_def)
qed simp

lemma fewer_node_postprocess: "fewer_waits h (node_postprocess n h)"
  unfolding node_postprocess_def by (rule fewer_trans [OF fewer_cleanup fewer_upd]) simp

lemma fewer_task_postprocess: "fewer_waits (tm_heap t) (tm_heap (task_postprocess cfg k t))"
proof -
  let ?ts = "cf_ho cfg (set (tk_targets k))"
  obtain t1 m1 where 1: "count_parents cfg ?ts t Mapping.empty = (t1, m1)" by fastforce
  obtain t2 m2 where 2: "free_side_effects cfg
      (concat (map (\<lambda>x. side_effects (nodes (tm_heap t1) x)) ?ts)) t1 m1 = (t2, m2)" by fastforce
  have "fewer_waits (tm_heap t) (tm_heap t2)"
    using fewer_free_side_effects [of t1 cfg _ m1] fewer_count_parents [OF 1] 2 by (metis fst_conv)
  then have "fewer_waits (tm_heap t) (tm_heap (subtract_counts (cf_ho cfg (Mapping.keys m2)) m2 t2))"
    using fewer_subtract_counts fewer_trans by blast
  then show ?thesis
    by (simp add: task_postprocess_def Let_def 1 2 fewer_trans [OF _ fewer_fold [OF fewer_node_postprocess]])
qed

lemma fewer_dropped: "fewer_waits h (dropped g R h)"
  by (simp add: fewer_waits_def wp_of_def dropped_def)

lemma failed_finite:
  assumes "enumerates (cf_ho cfg)" and "waits_finite (tm_heap t)" and "failed cfg pol k t = Some (r, t')"
  shows "waits_finite (tm_heap t')"
proof -
  let ?R = "reached (wp_of (tm_heap t)) (set (tk_targets k))"
  have "waits_finite (dropped (\<lambda>_. FAILED) ?R (tm_heap t))"
    by (rule fewer_finite [OF fewer_dropped assms(2)])
  then show ?thesis
    using fail_continue_effect [OF assms(1,2), of k] assms(3)
    by (auto simp: failed_def fail_stop_def fail_continue_def Let_def stop_def
        split: if_splits option.splits)
qed

section \<open>The walk\<close>

lemma waits_finite_same: "wp_of h' = wp_of h \<Longrightarrow> waits_finite h \<Longrightarrow> waits_finite h'"
  by (simp add: waits_finite_def)

lemma waits_finite_wait_one:
  assumes "waits_finite h" and "add_to_waiting_parents c n h = (k, h')"
  shows "waits_finite (upd_node n (\<lambda>x. x\<lparr>ref_count := ref_count x + k\<rparr>) h')"
proof -
  have wp: "wp_of (upd_node n (\<lambda>x. x\<lparr>ref_count := ref_count x + k\<rparr>) h') =
      (wp_of h)(c := insert n (wp_of h c))"
    using add_to_waiting_parents_wp [OF assms(2)] by (auto simp: wp_of_def fun_eq_iff)
  have "{a. ((wp_of h)(c := insert n (wp_of h c))) a \<noteq> {}} \<subseteq> insert c {a. wp_of h a \<noteq> {}}"
    by (auto split: if_splits)
  moreover have "finite (insert c {a. wp_of h a \<noteq> {}})" and "finite (wp_of h a)" for a
    using assms(1) by (simp_all add: waits_finite_def)
  ultimately show ?thesis unfolding waits_finite_def wp
    by (simp add: finite_subset)
qed

lemma waits_finite_wait_for: "waits_finite h \<Longrightarrow> waits_finite (wait_for n cs h)"
  by (induction cs arbitrary: h) (auto split: prod.splits intro: waits_finite_wait_one)

lemma fewer_wait_side_effects: "fewer_waits h (wait_side_effects n ses h)"
  unfolding wait_side_effects_def
  by (rule fewer_fold) (simp add: add_to_waiting_s_e_def fewer_upd)

lemma consider_finite:
  assumes "waits_finite (tm_heap t)"
  shows "waits_finite (tm_heap (snd (consider_node cfg n t)))"
proof (cases "get_state n (tm_heap t) > PENDING")
  case True
  then show ?thesis using assms by (simp add: consider_node_def)
next
  case False
  let ?h0 = "if get_state n (tm_heap t) = NO_STATE then set_state n PENDING (tm_heap t) else tm_heap t"
  obtain e h1 where g: "get_executor (cf_hk cfg) n ?h0 = (e, h1)" by fastforce
  obtain r h2 where c: "get_all_children (cf_hk cfg) e h1 = (r, h2)" by fastforce
  have "fewer_waits (tm_heap t) ?h0" by (simp add: fewer_set_state)
  then have "fewer_waits (tm_heap t) h1" using fewer_get_executor [OF g] fewer_trans by blast
  then have f2: "fewer_waits (tm_heap t) h2"
    using fewer_trans [of "tm_heap t" h1] fewer_same_walk [OF same_walk_get_all_children [of h1 "cf_hk cfg" e]] c
    by simp
  have f3: "fewer_waits (tm_heap t) (snd (get_action_targets (cf_hk cfg) e h2))"
    by (rule fewer_trans [OF f2 fewer_same_walk [OF same_walk_get_action_targets]])
  have f4: "fewer_waits (tm_heap t) (snd (get_action_side_effects (cf_hk cfg) e h2))"
    by (rule fewer_trans [OF f2 fewer_same_walk [OF same_walk_get_action_side_effects]])
  have w: "waits_finite h" if "fewer_waits (tm_heap t) h" for h
    by (rule fewer_finite [OF that assms])
  have s: "waits_finite (fold (\<lambda>m. set_state m FAILED) ts h)" "waits_finite (wait_side_effects n ses h)"
    if "waits_finite h" for ts ses h
    by (rule fewer_finite [OF fewer_fold [OF fewer_set_state] that],
        rule fewer_finite [OF fewer_wait_side_effects that])
  show ?thesis
    using False w [OF f2] w [OF f3] w [OF f4] waits_finite_wait_for [OF w [OF f2]]
    by (auto simp: consider_node_def g c Let_def s split: sum.split prod.split)
qed

lemma no_next_candidate_finite:
  assumes "enumerates (cf_ho cfg)" and "waits_finite (tm_heap t)"
    and "no_next_candidate cfg t = Some t'"
  shows "waits_finite (tm_heap t')"
proof (cases "candidates t = []")
  case True
  then show ?thesis using assms by (simp add: no_next_candidate.simps)
next
  case False
  have "will_not_build cfg (candidates t) (\<lambda>_ h. h) (t\<lparr>candidates := []\<rparr>) =
    (let R = reached (wp_of (tm_heap t)) (set (candidates t))
     in Some (t\<lparr>candidates := [], pending_children := pending_children t - R,
                tm_heap := dropped (\<lambda>s. s) R (tm_heap t)\<rparr>))"
    using assms will_not_build_effect [of cfg "\<lambda>s. s" "t\<lparr>candidates := []\<rparr>"]
    by (simp add: restate_id Let_def)
  then show ?thesis using assms(2,3) False
    by (auto simp: no_next_candidate.simps [of cfg t] no_next_candidate.simps [of cfg "t\<lparr>candidates := [], pending_children := pend, tm_heap := h\<rparr>" for pend h]
        Let_def intro: fewer_finite [OF fewer_dropped])
qed

lemma next_candidate_finite:
  assumes "enumerates (cf_ho cfg)" and "waits_finite (tm_heap t)"
    and "next_candidate cfg t = Some (c, t1)"
  shows "waits_finite (tm_heap t1)"
proof (cases "stopped t")
  case True
  then show ?thesis using assms no_next_candidate_finite [OF assms(1,2)]
    by (auto simp: next_candidate_def)
next
  case False
  then have "t1 = snd (find_next_candidate cfg t)" using assms(3) by (auto simp: next_candidate_def)
  then show ?thesis using assms(2) by simp
qed

lemma find_next_ready_finite:
  assumes "enumerates (cf_ho cfg)" and "waits_finite (tm_heap t)"
    and "find_next_ready_node cfg t = Some (r, t')"
  shows "waits_finite (tm_heap t')"
  using ready_loop_inv [of cfg "t\<lparr>ready_exc := None\<rparr>" r t' "\<lambda>t. waits_finite (tm_heap t)"] assms
    consider_finite next_candidate_finite [OF assms(1)]
  by (auto simp: find_next_ready_node_def)

lemma next_task_finite:
  assumes "enumerates (cf_ho cfg)" and "waits_finite (tm_heap t)" and "next_task cfg pol t = Some (r, t')"
  shows "waits_finite (tm_heap t')"
proof -
  obtain q t1 where f: "find_next_ready_node cfg t = Some (q, t1)"
    using assms(3) by (auto simp: next_task_def split: option.splits)
  have w1: "waits_finite (tm_heap t1)" by (rule find_next_ready_finite [OF assms(1,2) f])
  show ?thesis
  proof (cases "\<exists>n. q = Inr (Some n)")
    case False
    then show ?thesis using assms(3) f w1 by (auto simp: next_task_def split: sum.splits option.splits)
  next
    case True
    then obtain n where n: "q = Inr (Some n)" by blast
    obtain e h1 where g: "get_executor (cf_hk cfg) n (tm_heap t1) = (e, h1)" by fastforce
    let ?k = "task_init (get_all_targets (execs h1 e)) (n \<in> set (original_top t1)) n"
    obtain r2 k1 h2 where m: "make_ready (cf_hk cfg) pol ?k h1 = (r2, k1, h2)" by (metis prod_cases3)
    have "waits_finite h2"
      by (rule fewer_finite [OF fewer_trans [OF fewer_get_executor [OF g] fewer_make_ready [OF m]] w1])
    then show ?thesis using assms(3) f n g m by (auto simp: next_task_def Let_def)
  qed
qed

section \<open>The parallel build\<close>

lemma finish_ok_finite:
  assumes "waits_finite (tm_heap t)" and "finish_ok cfg pol k t = (r, t')"
  shows "waits_finite (tm_heap t')"
proof -
  obtain q h where e: "executed (cf_hk cfg) pol k (tm_heap t) = (q, h)" by fastforce
  have w: "waits_finite h" by (rule fewer_finite [OF fewer_executed [OF e] assms(1)])
  have "waits_finite (tm_heap (task_postprocess cfg k (t\<lparr>tm_heap := h\<rparr>)))"
    by (rule fewer_finite [OF fewer_task_postprocess]) (simp add: w)
  then show ?thesis using assms(2) e w by (auto simp: finish_ok_def split: sum.splits)
qed

lemma finish_failed_finite:
  assumes "enumerates (cf_ho cfg)" and "waits_finite (tm_heap t)"
    and "finish_failed cfg pol k t = Some (r, t')"
  shows "waits_finite (tm_heap t')"
proof -
  obtain q t1 where f: "failed cfg pol k t = Some (q, t1)"
    using assms(3) by (auto simp: finish_failed_def)
  have w: "waits_finite (tm_heap t1)" by (rule failed_finite [OF assms(1,2) f])
  have "waits_finite (tm_heap (task_postprocess cfg k1 t1))" for k1
    by (rule fewer_finite [OF fewer_task_postprocess w])
  then show ?thesis using assms(3) f w by (auto simp: finish_failed_def split: sum.splits)
qed

lemma after_task_heap [simp]: "par_tm (after_task m r s) = snd r"
  by (simp add: after_task_def)

lemma fill_step_finite:
  assumes ho: "enumerates (cf_ho cfg)" and w: "waits_finite (tm_heap (par_tm s))"
    and st: "fill_step cfg pol num s = Some s'"
  shows "waits_finite (tm_heap (par_tm s'))"
proof (cases "par_jobs s \<ge> num")
  case True
  then show ?thesis using w st by (auto simp: fill_step_def)
next
  case False
  obtain q t1 where n: "next_task cfg pol (par_tm s) = Some (q, t1)"
    using st False by (auto simp: fill_step_def split: option.splits)
  have w1: "waits_finite (tm_heap t1)" by (rule next_task_finite [OF ho w n])
  show ?thesis
  proof (cases "\<exists>k. q = Inr (Some k)")
    case no: False
    then show ?thesis using st False n w1
      by (auto simp: fill_step_def split: sum.splits option.splits)
  next
    case True
    then obtain k where k: "q = Inr (Some k)" by blast
    obtain r t2 where p: "task_prepare (cf_hk cfg) k t1 = (r, t2)" by fastforce
    have w2: "waits_finite (tm_heap t2)" by (rule fewer_finite [OF fewer_task_prepare [OF p] w1])
    show ?thesis using st False n k p w2 finish_failed_finite [OF ho w2]
        finish_ok_finite [OF w2]
      by (auto simp: fill_step_def split: sum.splits bool.splits) (metis prod.collapse)+
  qed
qed

lemma collect_step_finite:
  assumes ho: "enumerates (cf_ho cfg)" and w: "waits_finite (tm_heap (par_tm s))"
    and st: "collect_step cfg pol s = Some s'"
  shows "waits_finite (tm_heap (par_tm s'))"
  using st finish_ok_finite [OF w] finish_failed_finite [OF ho w]
  by (auto simp: collect_step_def Let_def split: list.splits if_splits) (metis prod.collapse)+

lemma par_reach_finite:
  assumes "par_reach cfg pol num t s" and ho: "enumerates (cf_ho cfg)" and "waits_finite (tm_heap t)"
  shows "waits_finite (tm_heap (par_tm s))"
  using assms(1)
proof induction
  case start
  then show ?case using assms(3) by (simp add: par_init_def)
next
  case (step s s')
  from step.hyps(2) show ?case
  proof (cases rule: par_step.cases)
    case fill then show ?thesis using fill_step_finite [OF ho step.IH] by blast
  next
    case collect then show ?thesis using collect_step_finite [OF ho step.IH] by blast
  next
    case take then show ?thesis using step.IH by (auto simp: worker_take_def split: list.splits)
  next
    case (run k)
    have "fewer_waits (tm_heap (par_tm s)) (tm_heap (par_tm s'))"
      using fewer_task_execute [of "tm_heap (par_tm s)" "cf_hk cfg" k] run
      by (auto simp: worker_run_def Let_def split: prod.splits)
    then show ?thesis using step.IH fewer_finite by blast
  next
    case sig then show ?thesis using step.IH by (simp add: signal_def stop_def)
  qed
qed

end
