(* ===== verification/BuildWalk.thy ===== *)
theory BuildWalk
  imports Scenario Progress
begin

text \<open>
  The properties of the dependency walk and of the jobs that drive it: which node
  \<open>Taskmaster._find_next_ready_node\<close> hands out, that it returns, what the failure of a
  node, the execution of a task and its post-processing do to the graph, cycles, and the
  queues of the parallel build. The witnesses evaluate the model on the small build of
  \<open>Scenario\<close>.
\<close>

section \<open>The small build\<close>

lemma demo_enumerates: "enumerates (cf_ho demo_cfg)"
  by (simp add: demo_cfg_def enumerates_sorted_list_of_set)

lemma demo_no_waits: "wp_of (tm_heap demo_tm) = (\<lambda>_. {})"
  by (rule ext) (simp add: wp_of_def demo_tm_def tm_init_def demo_heap_def init_node_def)

lemma demo_refs_ok: "refs_ok (tm_heap demo_tm)"
proof -
  have "ref_count (nodes (tm_heap demo_tm) p) = 0" for p
    by (simp add: demo_tm_def tm_init_def demo_heap_def init_node_def)
  then show ?thesis by (simp add: refs_ok_def waits_finite_def demo_no_waits)
qed

lemma demo_waits_finite: "waits_finite (tm_heap demo_tm)"
  using demo_refs_ok by (simp add: refs_ok_def)

lemma demo_unvisited: "finite (unvisited demo_tm)"
proof -
  have "unvisited demo_tm \<subseteq> {0..<4}"
    by (auto simp: unvisited_def get_state_def demo_tm_def tm_init_def demo_heap_def init_node_def
        split: if_splits)
  then show ?thesis by (rule finite_subset) simp
qed

lemma demo_order: "set (cf_order demo_cfg xs) \<subseteq> set xs"
  by (simp add: demo_cfg_def)

lemma demo_first:
  "\<exists>t'. find_next_ready_node demo_cfg demo_tm = Some (Inr (Some 1), t') \<and> ready_exc t' = None"
proof -
  have "(case find_next_ready_node demo_cfg demo_tm of
      Some (r, t) \<Rightarrow> r = Inr (Some 1) \<and> ready_exc t = None | None \<Rightarrow> False)"
    by code_simp
  then show ?thesis by (auto split: option.splits)
qed

section \<open>The walk\<close>

text \<open>
  C1: A node that \<open>_find_next_ready_node\<close> hands out is pending. Either all the children of its
  executor and its prerequisites are up to date or executed, and none of the side effects of its
  actions is being built by another task; or obtaining its children raised, nothing was checked,
  and \<open>ready_exc\<close> holds the exception, a \<open>SystemExit\<close> as the \<open>ExplicitExit\<close> of the node. Which of
  the two it is can be read off \<open>ready_exc\<close>.
\<close>

theorem walk_hands_out_ready:
  assumes "find_next_ready_node cfg t = Some (Inr (Some n), t')"
  shows "get_state n (tm_heap t') = PENDING \<and>
    (case ready_exc t' of
       Some x \<Rightarrow> scan_raised cfg n (tm_heap t') x
     | None \<Rightarrow> \<exists>kids ses. ready_by cfg n (tm_heap t') kids ses \<and>
         (\<forall>c\<in>set kids. done_state (get_state c (tm_heap t'))) \<and>
         (\<forall>s\<in>set ses. get_state s (tm_heap t') \<noteq> EXECUTING))"
  by (rule ready_loop_found [OF assms [unfolded find_next_ready_node_def]]) simp

theorem walk_hands_out_ready_witness:
  "\<exists>t' kids ses. find_next_ready_node demo_cfg demo_tm = Some (Inr (Some 1), t') \<and>
     get_state 1 (tm_heap t') = PENDING \<and> ready_by demo_cfg 1 (tm_heap t') kids ses"
proof -
  obtain t' where t': "find_next_ready_node demo_cfg demo_tm = Some (Inr (Some 1), t')"
    and n: "ready_exc t' = None" using demo_first by blast
  from walk_hands_out_ready [OF t'] n t' show ?thesis by auto
qed

text \<open>
  C2: The walk always returns: over a graph whose reference counts are right, with finitely many
  nodes not yet visited and an \<open>order\<close> function that invents no node, one call of
  \<open>_find_next_ready_node\<close> ends, with a node, with no node, or with an exception.
\<close>

theorem walk_returns:
  assumes "enumerates (cf_ho cfg)" and "\<And>xs. set (cf_order cfg xs) \<subseteq> set xs"
    and "refs_ok (tm_heap t)" and "finite (unvisited t)"
  shows "\<exists>r t'. find_next_ready_node cfg t = Some (r, t')"
  using ready_loop_returns [OF assms(1,2), of "t\<lparr>ready_exc := None\<rparr>"] assms(3,4)
  by (auto simp: find_next_ready_node_def unvisited_def)

theorem walk_returns_witness: "\<exists>r t'. find_next_ready_node demo_cfg demo_tm = Some (r, t')"
  using walk_returns [OF demo_enumerates demo_order demo_refs_ok demo_unvisited] .

text \<open>
  C5: The walk keeps the reference counts right: after any call of \<open>_find_next_ready_node\<close>,
  the \<open>ref_count\<close> of every node is again the number of nodes that have it among their
  \<open>waiting_parents\<close>.
\<close>

theorem walk_keeps_counts:
  assumes "enumerates (cf_ho cfg)" and "refs_ok (tm_heap t)"
    and "find_next_ready_node cfg t = Some (r, t')"
  shows "ref_count (nodes (tm_heap t') p) = int (card {c. p \<in> waiting_parents (nodes (tm_heap t') c)})"
  using find_next_ready_refs_ok [OF assms] by (simp add: refs_ok_def wp_of_def)

theorem walk_keeps_counts_witness:
  "\<exists>t'. find_next_ready_node demo_cfg demo_tm = Some (Inr (Some 1), t') \<and>
     ref_count (nodes (tm_heap t') 3) = int (card {c. 3 \<in> waiting_parents (nodes (tm_heap t') c)})"
  using demo_first walk_keeps_counts [OF demo_enumerates demo_refs_ok] by blast

text \<open>
  \<open>will_not_build\<close> reaches exactly the nodes that wait, directly or through others, for
  one of the given nodes: it restates them, empties their \<open>waiting_parents\<close>, takes them
  out of \<open>pending_children\<close> and lowers the reference count of each parent by the number of
  its children among them. It always ends, cycles of waiting nodes included.
\<close>

theorem will_not_build_reaches_waiting:
  assumes "enumerates (cf_ho cfg)" and "waits_finite (tm_heap t)"
  shows "will_not_build cfg ns (\<lambda>n. set_state n s) t =
    (let R = reached (wp_of (tm_heap t)) (set ns)
     in Some (t\<lparr>pending_children := pending_children t - R,
                tm_heap := dropped (\<lambda>_. s) R (tm_heap t)\<rparr>))"
  using will_not_build_effect [OF assms(1) _ assms(2), of "\<lambda>_. s" ns] by (simp add: restate_const)

theorem will_not_build_reaches_waiting_witness:
  "\<exists>t'. will_not_build demo_cfg [1] (\<lambda>n. set_state n FAILED) demo_tm = Some t'"
  using will_not_build_reaches_waiting [OF demo_enumerates demo_waits_finite, of "[1]" FAILED]
  by (simp add: Let_def)

text \<open>
  C23: A cycle is found exactly when there is one. With fuel for the number of nodes,
  \<open>find_cycle\<close> returns; the list it returns starts and ends at the node and follows
  \<open>waiting_parents\<close>, and when it returns \<open>None\<close> no such list exists.
\<close>

theorem find_cycle_correct:
  assumes "finite U" and "n \<in> U" and "\<And>n. wp n \<subseteq> U" and "enumerates ho"
  shows "\<exists>r V. find_cycle ho wp (Suc (card U)) [n] {} = Some (r, V) \<and>
    (case r of Some c \<Rightarrow> on_cycle wp c \<and> hd c = n
     | None \<Rightarrow> \<not> (\<exists>c. on_cycle wp c \<and> hd c = n))"
proof -
  have ho: "set (ho (wp m)) = wp m" for m
    using assms(1,3,4) finite_subset [of "wp m" U] by simp
  obtain r V where r: "find_cycle ho wp (Suc (card U)) [n] {} = Some (r, V)"
    using find_cycle_returns [where U=U and wp=wp and ho=ho and stack="[n]" and V="{}" and k="Suc (card U)"]
      assms(1-3) ho by auto
  show ?thesis
    using r find_cycle_sound_gen(1) [of ho wp "Suc (card U)" "[n]" "{}" _ V]
      find_cycle_complete [of ho wp "Suc (card U)" n V] ho
    by (cases r) auto
qed

theorem find_cycle_correct_witness:
  "\<exists>V. find_cycle sorted_list_of_set demo_loop (Suc (card {1, 2::nid})) [1] {} = Some (Some [1, 2, 1], V) \<and>
    on_cycle demo_loop [1, 2, 1] \<and> hd [1, 2, 1::nid] = 1"
proof -
  have "demo_loop n \<subseteq> {1, 2}" for n by (simp add: demo_loop_def)
  then obtain r V where r: "find_cycle sorted_list_of_set demo_loop (Suc (card {1, 2::nid})) [1] {} = Some (r, V)"
    "case r of Some c \<Rightarrow> on_cycle demo_loop c \<and> hd c = 1
     | None \<Rightarrow> \<not> (\<exists>c. on_cycle demo_loop c \<and> hd c = 1)"
    using find_cycle_correct [of "{1, 2}" 1 demo_loop sorted_list_of_set] enumerates_sorted_list_of_set
    by auto
  moreover have "map_option fst (find_cycle sorted_list_of_set demo_loop (Suc (card {1, 2::nid})) [1] {}) =
      Some (Some [1, 2, 1])"
    by (simp add: demo_loop_def)
  ultimately show ?thesis by auto
qed

section \<open>Tasks\<close>

text \<open>
  \<open>Task.make_ready_current\<close> decides for all targets at once: when it returns normally, either
  some target is out of date and every target is \<open>executing\<close>, or none is and every target
  is \<open>up_to_date\<close>.
\<close>

theorem make_ready_all_or_none:
  assumes "make_ready_current hk pol k h = (Inr (), k', h')"
  shows "set (tk_out_of_date k') \<subseteq> set (tk_targets k) \<and> tk_targets k' = tk_targets k \<and>
    (\<forall>t\<in>set (tk_targets k).
       get_state t h' = (if tk_out_of_date k' \<noteq> [] then EXECUTING else UP_TO_DATE))"
  using assms by (rule make_ready_current_states)

theorem make_ready_all_or_none_witness:
  "\<exists>k' h'. make_ready_current demo_hooks demo_pol (task_init [1] True 1) (demo_heap 4) = (Inr (), k', h') \<and>
     get_state 1 h' = EXECUTING"
proof -
  have "(case make_ready_current demo_hooks demo_pol (task_init [1] True 1) (demo_heap 4) of
      (r, k', h') \<Rightarrow> r = Inr () \<and> tk_out_of_date k' = [1])"
    by code_simp
  then obtain k' h' where
    r: "make_ready_current demo_hooks demo_pol (task_init [1] True 1) (demo_heap 4) = (Inr (), k', h')"
    "tk_out_of_date k' = [1]"
    by (auto split: prod.splits)
  then show ?thesis using make_ready_all_or_none [OF r(1)] by (simp add: task_init_def)
qed

text \<open>
  After \<open>Task.executed\<close> returns normally, no target of the task is \<open>executing\<close> any
  more, with or without callbacks.
\<close>

theorem executed_ends_targets:
  assumes "executed hk pol k h = (Inr (), h')" and "t \<in> set (tk_targets k)"
  shows "get_state t h' \<noteq> EXECUTING"
  using assms by (rule executed_not_executing)

theorem executed_ends_targets_witness:
  "\<exists>h'. executed demo_hooks demo_pol (task_init [1] True 1) (set_state 1 EXECUTING (demo_heap 4)) = (Inr (), h') \<and>
     get_state 1 h' \<noteq> EXECUTING"
proof -
  have "fst (executed demo_hooks demo_pol (task_init [1] True 1) (set_state 1 EXECUTING (demo_heap 4))) = Inr ()"
    by code_simp
  then obtain h' where
    "executed demo_hooks demo_pol (task_init [1] True 1) (set_state 1 EXECUTING (demo_heap 4)) = (Inr (), h')"
    by (metis prod.collapse)
  then show ?thesis using executed_ends_targets [of demo_hooks demo_pol "task_init [1] True 1" _ h' 1]
    by (simp add: task_init_def)
qed

text \<open>
  C6: A failed task fails exactly its targets and the nodes that wait for them, directly or
  through others; every other node keeps its state, the reference counts stay right, and the
  Taskmaster is stopped unless \<open>--keep-going\<close> is given.
\<close>

theorem failure_reaches_waiting:
  assumes "enumerates (cf_ho cfg)" and "refs_ok (tm_heap t)" and "current_top t \<noteq> None"
  shows "\<exists>k' t'. failed cfg pol k t = Some (Inr k', t') \<and> refs_ok (tm_heap t') \<and>
    stopped t' = (stopped t \<or> \<not> pol_keep_going pol) \<and>
    (\<forall>n. get_state n (tm_heap t') =
       (if n \<in> reached (wp_of (tm_heap t)) (set (tk_targets k)) then FAILED
        else get_state n (tm_heap t)))"
  using assms by (rule failed_marks)

theorem failure_reaches_waiting_witness:
  "\<exists>k' t'. failed demo_cfg demo_pol (task_init [1] True 1) (demo_tm\<lparr>current_top := Some 1\<rparr>) = Some (Inr k', t') \<and>
     stopped t' \<and> get_state 1 (tm_heap t') = FAILED"
  using failure_reaches_waiting [of demo_cfg "demo_tm\<lparr>current_top := Some 1\<rparr>" demo_pol "task_init [1] True 1"]
    demo_enumerates demo_refs_ok
  by (auto simp: demo_pol_def task_init_def reached_def)

text \<open>
  C7: \<open>Task.postprocess\<close> wakes the parents of the finished targets. When no side effect is
  being built, it empties the \<open>waiting_parents\<close> of the targets, lowers the count of each node
  by the number of targets it waited for, keeps the counts right, and every parent that waits
  for nothing else becomes a candidate.
\<close>

theorem postprocess_wakes_parents:
  assumes "enumerates (cf_ho cfg)" and "refs_ok (tm_heap t)"
    and "\<forall>x\<in>set (tk_targets k). \<forall>s\<in>set (side_effects (nodes (tm_heap t) x)).
      get_state s (tm_heap t) \<noteq> EXECUTING"
  shows "refs_ok (tm_heap (task_postprocess cfg k t)) \<and>
    (\<forall>x\<in>set (tk_targets k). waiting_parents (nodes (tm_heap (task_postprocess cfg k t)) x) = {}) \<and>
    (\<forall>p. ref_count (nodes (tm_heap (task_postprocess cfg k t)) p) =
       ref_count (nodes (tm_heap t) p) -
       int (card {c \<in> set (tk_targets k). p \<in> waiting_parents (nodes (tm_heap t) c)})) \<and>
    (\<forall>x\<in>set (tk_targets k). \<forall>p\<in>waiting_parents (nodes (tm_heap t) x).
       ref_count (nodes (tm_heap (task_postprocess cfg k t)) p) = 0 \<longrightarrow>
       p \<in> set (candidates (task_postprocess cfg k t)))"
  using postprocess_refs_ok [OF assms] postprocess_nodes(1) [OF assms] postprocess_nodes(2) [OF assms]
  by (simp add: dropped_def wp_of_def)

theorem postprocess_wakes_parents_witness:
  "3 \<in> set (candidates (task_postprocess demo_cfg (task_init [1] True 1) demo_waiting))"
proof -
  have wp: "wp_of (tm_heap demo_waiting) = (\<lambda>n. if n = 1 then {3} else {})"
    by (rule ext) (simp add: wp_of_def demo_waiting_def tm_init_def init_node_def)
  have into: "{c. (c = 1 \<longrightarrow> p = 3) \<and> c = (1::nid)} = (if p = (3::nid) then {1} else {})" for p by auto
  have refs: "refs_ok (tm_heap demo_waiting)"
    unfolding refs_ok_def waits_finite_def wp
    by (auto simp: demo_waiting_def tm_init_def init_node_def into)
  show ?thesis
    using postprocess_wakes_parents [OF demo_enumerates refs, of "task_init [1] True 1"]
    by (simp add: demo_waiting_def tm_init_def task_init_def init_node_def)
qed

text \<open>
  C4: A wake-up is lost. A task whose targets are all executing ends (\<open>executed\<close>, then
  \<open>postprocess\<close>), and a node waits for a side effect of one of them that is no target itself. Then
  the node still waits: the side effect is back in \<open>no_state\<close> and keeps the node among its
  \<open>waiting_parents\<close>, the node's reference count stays above zero, and it becomes no candidate.
  \<open>postprocess\<close> means to free the parents of a side effect, but only does so while the side
  effect is \<open>executing\<close>, and \<open>executed\<close> has just reset it.
\<close>

theorem side_effect_wakeup_lost:
  assumes "enumerates (cf_ho cfg)" and "refs_ok (tm_heap t)"
    and "finish_ok cfg pol k t = (Inr (), t')"
    and "\<forall>x\<in>set (tk_targets k). get_state x (tm_heap t) = EXECUTING"
    and "\<forall>x\<in>set (tk_targets k). set (side_effects (nodes (tm_heap t) x)) \<inter> set (tk_targets k) = {}"
    and "x \<in> set (tk_targets k)" and "s \<in> set (side_effects (nodes (tm_heap t) x))"
    and "p \<in> waiting_parents (nodes (tm_heap t) s)"
  shows "get_state s (tm_heap t') = NO_STATE \<and> p \<in> waiting_parents (nodes (tm_heap t') s) \<and>
    ref_count (nodes (tm_heap t') p) > 0 \<and> (p \<in> set (candidates t') \<longrightarrow> p \<in> set (candidates t))"
  using finish_ok_keeps_waiting [OF assms] .

theorem side_effect_wakeup_lost_witness:
  "\<exists>t'. finish_ok demo_cfg demo_pol (task_init [1] True 1) demo_side_effect = (Inr (), t') \<and>
     get_state 2 (tm_heap t') = NO_STATE \<and> 3 \<in> waiting_parents (nodes (tm_heap t') 2) \<and>
     ref_count (nodes (tm_heap t') 3) > 0 \<and> candidates t' = []"
proof -
  have "(case finish_ok demo_cfg demo_pol (task_init [1] True 1) demo_side_effect of
      (Inr _, t) \<Rightarrow> candidates t = [] | _ \<Rightarrow> False)" by code_simp
  then obtain t' where t': "finish_ok demo_cfg demo_pol (task_init [1] True 1) demo_side_effect = (Inr (), t')"
    and c: "candidates t' = []" by (auto split: prod.splits sum.splits)
  have wp: "wp_of (tm_heap demo_side_effect) = (\<lambda>n. if n = 2 then {3} else {})"
    by (rule ext) (simp add: wp_of_def demo_side_effect_def tm_init_def init_node_def)
  have into: "{c. (c = 2 \<longrightarrow> p = 3) \<and> c = (2::nid)} = (if p = (3::nid) then {2} else {})" for p by auto
  have refs: "refs_ok (tm_heap demo_side_effect)"
    unfolding refs_ok_def waits_finite_def wp
    by (auto simp: demo_side_effect_def tm_init_def init_node_def into)
  show ?thesis using side_effect_wakeup_lost [OF demo_enumerates refs t', of 1 2 3] t' c
    by (simp add: demo_side_effect_def tm_init_def task_init_def init_node_def get_state_def)
qed

text \<open>
  In a whole build of the small example, as steps of the parallel machine: the main thread asks for
  work twice, a worker takes the first task and runs it, the main thread collects the result and
  asks again. With two jobs the second request already finds target 3 waiting for the side effect
  2; the build then ends without an error and 3 stays pending. With one job the second turn starts no
  task: the walk goes on with 2, which needs no execution, and 3 is a candidate again.
\<close>

definition demo_turns :: "nat \<Rightarrow> par option" where
  "demo_turns num =
     Option.bind (fill_step demo_cfg demo_pol num (par_init demo_tm)) (\<lambda>s1.
     Option.bind (fill_step demo_cfg demo_pol num s1) (\<lambda>s2.
     Option.bind (worker_take s2) (\<lambda>s3.
     Option.bind (collect_step demo_cfg demo_pol (worker_run demo_cfg (hd (par_running s3)) s3)) (\<lambda>s4.
       if par_mode s1 = Filling \<and> par_mode s3 = Collecting \<and> par_mode s4 = Filling \<and>
          par_running s2 = [] \<and> 0 < num
       then fill_step demo_cfg demo_pol num s4 else None))))"

lemma demo_turns_reach:
  assumes "demo_turns num = Some s"
  shows "par_reach demo_cfg demo_pol num demo_tm s"
proof -
  obtain s1 s2 s3 s4 where f: "fill_step demo_cfg demo_pol num (par_init demo_tm) = Some s1"
      "fill_step demo_cfg demo_pol num s1 = Some s2" "worker_take s2 = Some s3"
      "collect_step demo_cfg demo_pol (worker_run demo_cfg (hd (par_running s3)) s3) = Some s4"
      "fill_step demo_cfg demo_pol num s4 = Some s"
    and m: "par_mode s1 = Filling" "par_mode s3 = Collecting" "par_mode s4 = Filling" "par_running s2 = []" "0 < num"
    using assms by (auto simp: demo_turns_def bind_eq_Some_conv split: if_splits)
  let ?R = "par_reach demo_cfg demo_pol num demo_tm"
  let ?s = "worker_run demo_cfg (hd (par_running s3)) s3"
  have "?R s1" by (rule par_reach.step [OF par_reach.start par_step.fill [OF _ f(1)]]) (simp add: par_init_def)
  then have "?R s2" by (rule par_reach.step [OF _ par_step.fill [OF m(1) f(2)]])
  then have "?R s3" by (rule par_reach.step [OF _ par_step.take [OF _ f(3)]]) (simp add: m)
  moreover have "hd (par_running s3) \<in> set (par_running s3)"
    using f(3) by (auto simp: worker_take_def split: list.splits)
  ultimately have "?R ?s" using par_reach.step par_step.run by blast
  moreover have "par_mode ?s = Collecting" using m(2) by (simp add: worker_run_def split: prod.split)
  ultimately have "?R s4" using par_reach.step par_step.collect f(4) by blast
  then show ?thesis using par_reach.step par_step.fill m(3) f(5) by blast
qed

lemma wakeup_lost_in_build:
  "\<exists>s. par_reach demo_cfg demo_pol 2 demo_tm s \<and> par_mode s = Finished \<and>
     get_state 1 (tm_heap (par_tm s)) = EXECUTED \<and> get_state 2 (tm_heap (par_tm s)) = NO_STATE \<and>
     get_state 3 (tm_heap (par_tm s)) = PENDING \<and> cleanup demo_cfg 5 (par_tm s) = Some (Inr ())"
proof -
  have "(case demo_turns 2 of Some s \<Rightarrow> par_mode s = Finished \<and>
      get_state 1 (tm_heap (par_tm s)) = EXECUTED \<and> get_state 2 (tm_heap (par_tm s)) = NO_STATE \<and>
      get_state 3 (tm_heap (par_tm s)) = PENDING \<and> cleanup demo_cfg 5 (par_tm s) = Some (Inr ())
      | None \<Rightarrow> False)"
    by code_simp
  then show ?thesis using demo_turns_reach by (auto split: option.splits)
qed

lemma wakeup_kept_with_one_job:
  "\<exists>s. par_reach demo_cfg demo_pol 1 demo_tm s \<and> par_mode s = Filling \<and>
     get_state 2 (tm_heap (par_tm s)) = UP_TO_DATE \<and> 3 \<in> set (candidates (par_tm s))"
proof -
  have "(case demo_turns 1 of Some s \<Rightarrow> par_mode s = Filling \<and>
     get_state 2 (tm_heap (par_tm s)) = UP_TO_DATE \<and> 3 \<in> set (candidates (par_tm s)) | None \<Rightarrow> False)" by code_simp
  then show ?thesis using demo_turns_reach by (auto split: option.splits)
qed

section \<open>The parallel build\<close>

text \<open>
  C35: In every state the parallel build can reach, with any interleaving of the main thread, the
  workers and signals: the job count is the number of tasks requested, running and done but not
  collected, it never exceeds the number of jobs, and the main thread only waits for a result
  while there is one to come and only ends when no task is left.
\<close>

theorem parallel_counts_jobs:
  assumes "par_reach cfg pol num t s" and "0 < num"
  shows "par_jobs s = length (par_requests s) + length (par_running s) + length (par_results s) \<and>
    par_jobs s \<le> num \<and> length (par_running s) \<le> num \<and>
    (par_mode s = Collecting \<longrightarrow> par_jobs s > 0) \<and> (par_mode s = Finished \<longrightarrow> par_jobs s = 0)"
  using par_reach_queues [OF assms] unfolding queues_ok_def under_way_def by metis

theorem parallel_counts_jobs_witness:
  "par_jobs (signal (par_init demo_tm)) = 0"
proof -
  have "par_reach demo_cfg demo_pol 2 demo_tm (signal (par_init demo_tm))"
    by (rule par_reach.step [OF par_reach.start par_step.sig [OF refl]])
  from parallel_counts_jobs [OF this] show ?thesis by (simp add: signal_def par_init_def)
qed

text \<open>
  C3: The parallel build does not deadlock: in every reachable state in which the main thread waits
  for a result, a step is possible that is not a signal: the main thread collects a result,
  or a worker finishes its task, or an idle worker takes a request.
\<close>

theorem parallel_never_stuck:
  assumes "enumerates (cf_ho cfg)" and "waits_finite (tm_heap t)"
    and "par_reach cfg pol num t s" and "0 < num" and "par_mode s = Collecting"
  shows "\<exists>s'. par_step cfg pol num s s' \<and>
    (collect_step cfg pol s = Some s' \<or> worker_take s = Some s' \<or>
     (\<exists>k\<in>set (par_running s). s' = worker_run cfg k s))"
proof -
  have "waits_finite (tm_heap (par_tm s))" by (rule par_reach_finite [OF assms(3,1,2)])
  from collecting_progress [where pol = pol, OF assms(1) this par_reach_queues [OF assms(3,4)] assms(5)]
  consider s' where "collect_step cfg pol s = Some s'" | k where "k \<in> set (par_running s)"
    | s' where "length (par_running s) < num" "worker_take s = Some s'"
    by (metis list.set_intros(1) neq_Nil_conv)
  then show ?thesis
  proof cases
    case 1 then show ?thesis using par_step.collect [OF assms(5)] by blast
  next
    case 2 then show ?thesis using par_step.run by blast
  next
    case 3 then show ?thesis using par_step.take by blast
  qed
qed

theorem parallel_never_stuck_witness:
  "\<exists>s s'. par_reach demo_cfg demo_pol 1 demo_tm s \<and> par_mode s = Collecting \<and>
     par_step demo_cfg demo_pol 1 s s'"
proof -
  have "(case fill_step demo_cfg demo_pol 1 (par_init demo_tm) of
      Some s \<Rightarrow> par_mode s = Filling \<and> par_jobs s = 1 | None \<Rightarrow> False)"
    by code_simp
  then obtain s where s: "fill_step demo_cfg demo_pol 1 (par_init demo_tm) = Some s"
    "par_mode s = Filling" "par_jobs s = 1"
    by (auto split: option.splits)
  have "fill_step demo_cfg demo_pol 1 s = Some (s\<lparr>par_mode := Collecting\<rparr>)"
    using s(3) by (simp add: fill_step_def)
  then have "par_reach demo_cfg demo_pol 1 demo_tm (s\<lparr>par_mode := Collecting\<rparr>)"
    using par_reach.start par_reach.step par_step.fill s(1,2)
    by (metis (no_types, lifting) par_init_def par.select_convs(7))
  then show ?thesis
    using parallel_never_stuck [OF demo_enumerates demo_waits_finite] by fastforce
qed

end
