(* ===== verification/MemoryStore.thy ===== *)
theory MemoryStore
  imports Prelude "HOL-Library.Word"
begin

text \<open>
  The graph store in memory: \<open>src/util/status.h\<close>, \<open>src/db/types.h\<close>, \<open>src/db/types.cc\<close>,
  \<open>src/db/memory_store.cc\<close>, without its lock. A failed \<open>invariant\<close> ends the process,
  the result \<open>Die\<close>. The abstract graph behind the interface \<open>graph_store.h\<close> is a locale;
  the store without edge parts implements it.
\<close>

section \<open>Statuses and nodes\<close>

datatype code = SUCCESS | ERROR | NO_ACTION | DOES_NOT_EXIST | INVALID | NO_SPACE
  | WRONG_PARTITION | PARTITION_FAIL

text \<open>\<open>StatusWith\<close>: a code that is not \<open>SUCCESS\<close>, or the result.\<close>

type_synonym 'a status_with = "code + 'a"

definition status_code :: "'a status_with \<Rightarrow> code" where
  "status_code s = (case s of Inl c \<Rightarrow> c | Inr _ \<Rightarrow> SUCCESS)"

datatype 'a run = Die | Ok 'a

type_synonym node_id = "64 word"

text \<open>A node is the set of its edges; its id is its key in the map.\<close>

type_synonym edges = "node_id set"
type_synonym store = "node_id \<rightharpoonup> edges"

definition node_addEdge :: "node_id \<Rightarrow> edges \<Rightarrow> bool \<times> edges" where
  "node_addEdge n e = (n \<notin> e, insert n e)"

definition node_removeEdge :: "node_id \<Rightarrow> edges \<Rightarrow> bool \<times> edges" where
  "node_removeEdge n e = (n \<in> e, e - {n})"

definition node_hasEdge :: "node_id \<Rightarrow> edges \<Rightarrow> bool" where
  "node_hasEdge n e \<longleftrightarrow> n \<in> e"

section \<open>Operations\<close>

definition addNode :: "node_id \<Rightarrow> store \<Rightarrow> code \<times> store" where
  "addNode n m = (if m n = None then (SUCCESS, m(n \<mapsto> {})) else (NO_ACTION, m))"

definition findNode :: "node_id \<Rightarrow> store \<Rightarrow> edges status_with" where
  "findNode n m = (case m n of None \<Rightarrow> Inl DOES_NOT_EXIST | Some e \<Rightarrow> Inr e)"

text \<open>The loop of \<open>removeNode\<close> takes the node out of its neighbours, which must exist.\<close>

definition removeNode :: "node_id \<Rightarrow> store \<Rightarrow> (code \<times> store) run" where
  "removeNode n m =
     (case m n of
        None \<Rightarrow> Ok (DOES_NOT_EXIST, m)
      | Some es \<Rightarrow>
          if \<forall>b\<in>es. m b \<noteq> None
          then Ok (SUCCESS, (\<lambda>k. if k = n then None
                                else if k \<in> es then map_option (\<lambda>e. e - {n}) (m k) else m k))
          else Die)"

definition getEdge :: "node_id \<Rightarrow> node_id \<Rightarrow> store \<Rightarrow> ((edges \<times> edges) status_with) run" where
  "getEdge a b m =
     (if a = b then Ok (Inl INVALID)
      else
        (case findNode a m of
           Inl c \<Rightarrow> Ok (Inl c)
         | Inr ea \<Rightarrow>
             (case findNode b m of
                Inl c \<Rightarrow> Ok (Inl c)
              | Inr eb \<Rightarrow>
                  if node_hasEdge b ea
                  then (if node_hasEdge a eb then Ok (Inr (ea, eb)) else Die)
                  else (if node_hasEdge a eb then Die else Ok (Inl DOES_NOT_EXIST)))))"

definition addEdge :: "node_id \<Rightarrow> node_id \<Rightarrow> store \<Rightarrow> (code \<times> store) run" where
  "addEdge a b m =
     (if a = b then Ok (INVALID, m)
      else
        (case findNode a m of
           Inl c \<Rightarrow> Ok (c, m)
         | Inr ea \<Rightarrow>
             (case findNode b m of
                Inl c \<Rightarrow> Ok (c, m)
              | Inr eb \<Rightarrow>
                  (let (addedA, ea') = node_addEdge b ea; (addedB, eb') = node_addEdge a eb;
                       m' = m(a \<mapsto> ea', b \<mapsto> eb')
                   in if \<not> addedA then (if addedB then Die else Ok (NO_ACTION, m'))
                      else if addedB then Ok (SUCCESS, m') else Die))))"

definition removeEdge :: "node_id \<Rightarrow> node_id \<Rightarrow> store \<Rightarrow> (code \<times> store) run" where
  "removeEdge a b m =
     (case getEdge a b m of
        Die \<Rightarrow> Die
      | Ok (Inl c) \<Rightarrow> Ok (c, m)
      | Ok (Inr (ea, eb)) \<Rightarrow>
          (let (removedA, ea') = node_removeEdge b ea; (removedB, eb') = node_removeEdge a eb;
               m' = m(a \<mapsto> ea', b \<mapsto> eb')
           in if \<not> removedA then (if removedB then Die else Ok (DOES_NOT_EXIST, m'))
              else if removedB then Ok (SUCCESS, m') else Die))"

definition addEdgePart :: "node_id \<Rightarrow> node_id \<Rightarrow> store \<Rightarrow> code \<times> store" where
  "addEdgePart local remote m =
     (if local = remote then (INVALID, m)
      else
        (case findNode local m of
           Inl c \<Rightarrow> (c, m)
         | Inr e \<Rightarrow>
             (let (added, e') = node_addEdge remote e
              in (if added then SUCCESS else NO_ACTION, m(local \<mapsto> e')))))"

definition getEdgePart :: "node_id \<Rightarrow> node_id \<Rightarrow> store \<Rightarrow> code" where
  "getEdgePart local remote m =
     (case findNode local m of
        Inl c \<Rightarrow> c
      | Inr e \<Rightarrow> if node_hasEdge remote e then SUCCESS else DOES_NOT_EXIST)"

definition removeEdgePart :: "node_id \<Rightarrow> node_id \<Rightarrow> store \<Rightarrow> code \<times> store" where
  "removeEdgePart local remote m =
     (if getEdgePart local remote m \<noteq> SUCCESS then (getEdgePart local remote m, m)
      else
        (case findNode local m of
           Inl c \<Rightarrow> (c, m)
         | Inr e \<Rightarrow>
             (let (removed, e') = node_removeEdge remote e
              in (if removed then SUCCESS else DOES_NOT_EXIST, m(local \<mapsto> e')))))"

text \<open>The neighbours come in the iteration order \<open>ho\<close> of the hash set.\<close>

definition getNeighbors :: "(edges \<Rightarrow> node_id list) \<Rightarrow> node_id \<Rightarrow> store \<Rightarrow> (node_id list) status_with" where
  "getNeighbors ho n m = map_sum id ho (findNode n m)"

section \<open>The invariant\<close>

text \<open>
  Edges are symmetric, between different existing nodes, and finitely many. Edge parts
  (half edges to nodes of another partition) are outside it.
\<close>

definition store_ok :: "store \<Rightarrow> bool" where
  "store_ok m \<longleftrightarrow> finite (dom m) \<and>
     (\<forall>a e. m a = Some e \<longrightarrow> finite e \<and> a \<notin> e \<and> (\<forall>b\<in>e. \<exists>e'. m b = Some e' \<and> a \<in> e'))"

definition has_edge :: "store \<Rightarrow> node_id \<Rightarrow> node_id \<Rightarrow> bool" where
  "has_edge m a b \<longleftrightarrow> (\<exists>e. m a = Some e \<and> b \<in> e)"

lemma store_ok_edge:
  "store_ok m \<Longrightarrow> has_edge m a b \<Longrightarrow> has_edge m b a \<and> a \<noteq> b \<and> m a \<noteq> None \<and> m b \<noteq> None"
  by (fastforce simp: store_ok_def has_edge_def)

lemma addNode_ok: "store_ok m \<Longrightarrow> addNode n m = (c, m') \<Longrightarrow> store_ok m'"
  by (fastforce simp: addNode_def store_ok_def split: if_splits)

lemma addNode_edges: "addNode n m = (c, m') \<Longrightarrow> has_edge m' a b = has_edge m a b"
  by (auto simp: addNode_def has_edge_def split: if_splits)

lemma removeNode_effect:
  assumes "store_ok m"
  shows "\<exists>c m'. removeNode n m = Ok (c, m') \<and> store_ok m' \<and>
    c = (if n \<in> dom m then SUCCESS else DOES_NOT_EXIST) \<and> dom m' = dom m - {n} \<and>
    (\<forall>a b. has_edge m' a b \<longleftrightarrow> has_edge m a b \<and> a \<noteq> n \<and> b \<noteq> n)"
proof (cases "m n")
  case None
  have "\<forall>a b. has_edge m a b \<longrightarrow> a \<noteq> n \<and> b \<noteq> n"
  proof (intro allI impI)
    fix a b assume "has_edge m a b"
    then have "m a \<noteq> None" "m b \<noteq> None" using store_ok_edge [OF assms] by auto
    then show "a \<noteq> n \<and> b \<noteq> n" using None by auto
  qed
  then show ?thesis using assms None by (auto simp: removeNode_def)
next
  case (Some es)
  let ?m = "\<lambda>k. if k = n then None else if k \<in> es then map_option (\<lambda>e. e - {n}) (m k) else m k"
  have ex: "\<forall>b\<in>es. m b \<noteq> None" using assms Some by (fastforce simp: store_ok_def)
  have mem: "n \<in> e \<longleftrightarrow> k \<in> es" if "m k = Some e" for k e
    using assms Some that unfolding store_ok_def by (metis option.inject)
  have edge: "has_edge ?m a b \<longleftrightarrow> has_edge m a b \<and> a \<noteq> n \<and> b \<noteq> n" for a b
    using mem [of a] by (auto simp: has_edge_def)
  have dom: "dom ?m = dom m - {n}" by (auto simp: dom_def split: if_splits)
  have "store_ok ?m" unfolding store_ok_def
  proof (intro conjI allI impI)
    show "finite (dom ?m)" using assms unfolding dom by (simp add: store_ok_def)
    fix a e assume a: "?m a = Some e"
    then obtain e0 where e0: "m a = Some e0" "e \<subseteq> e0" by (auto split: if_splits)
    then show "finite e" "a \<notin> e" using assms by (auto simp: store_ok_def intro: finite_subset)
    show "\<forall>b\<in>e. \<exists>e'. ?m b = Some e' \<and> a \<in> e'"
    proof
      fix b assume "b \<in> e"
      then have "has_edge ?m a b" using a by (auto simp: has_edge_def)
      then have "has_edge ?m b a" unfolding edge using store_ok_edge [OF assms] by blast
      then show "\<exists>e'. ?m b = Some e' \<and> a \<in> e'" unfolding has_edge_def .
    qed
  qed
  then show ?thesis using Some ex dom edge by (auto simp: removeNode_def)
qed

lemma addEdge_effect:
  assumes "store_ok m"
  shows "\<exists>c m'. addEdge a b m = Ok (c, m') \<and> store_ok m' \<and> dom m' = dom m \<and>
    c = (if a = b then INVALID else if a \<notin> dom m \<or> b \<notin> dom m then DOES_NOT_EXIST
         else if has_edge m a b then NO_ACTION else SUCCESS) \<and>
    (\<forall>x y. has_edge m' x y \<longleftrightarrow> has_edge m x y \<or>
       (a \<noteq> b \<and> a \<in> dom m \<and> b \<in> dom m \<and> ((x = a \<and> y = b) \<or> (x = b \<and> y = a))))"
proof (cases "a \<noteq> b \<and> a \<in> dom m \<and> b \<in> dom m")
  case False
  then show ?thesis using assms
    by (auto simp: addEdge_def findNode_def split: option.splits)
next
  case True
  then obtain ea eb where e: "m a = Some ea" "m b = Some eb" "a \<noteq> b" by auto
  have sym: "b \<in> ea \<longleftrightarrow> a \<in> eb" using assms e unfolding store_ok_def by (metis option.inject)
  let ?m = "m(a \<mapsto> insert b ea, b \<mapsto> insert a eb)"
  have res: "addEdge a b m = Ok (if has_edge m a b then NO_ACTION else SUCCESS, ?m)"
    using e sym by (auto simp: addEdge_def findNode_def node_addEdge_def has_edge_def)
  have edge: "has_edge ?m x y \<longleftrightarrow> has_edge m x y \<or> (x = a \<and> y = b) \<or> (x = b \<and> y = a)" for x y
    using e by (auto simp: has_edge_def)
  have dom: "dom ?m = dom m" using e by auto
  have "store_ok ?m" unfolding store_ok_def
  proof (intro conjI allI impI)
    show "finite (dom ?m)" using assms unfolding dom by (simp add: store_ok_def)
    fix x ex assume x: "?m x = Some ex"
    show "finite ex" "x \<notin> ex"
      using assms e x by (auto simp: store_ok_def split: if_splits)
    show "\<forall>y\<in>ex. \<exists>e'. ?m y = Some e' \<and> x \<in> e'"
    proof
      fix y assume "y \<in> ex"
      then have "has_edge ?m x y" using x unfolding has_edge_def by blast
      then have "has_edge ?m y x" unfolding edge using store_ok_edge [OF assms] by blast
      then show "\<exists>e'. ?m y = Some e' \<and> x \<in> e'" unfolding has_edge_def .
    qed
  qed
  then show ?thesis using res dom edge True
    by (intro exI [of _ "if has_edge m a b then NO_ACTION else SUCCESS"] exI [of _ "?m"]) auto
qed

lemma removeEdge_effect:
  assumes "store_ok m"
  shows "\<exists>c m'. removeEdge a b m = Ok (c, m') \<and> store_ok m' \<and> dom m' = dom m \<and>
    c = (if a = b then INVALID else if a \<notin> dom m \<or> b \<notin> dom m then DOES_NOT_EXIST
         else if has_edge m a b then SUCCESS else DOES_NOT_EXIST) \<and>
    (\<forall>x y. has_edge m' x y \<longleftrightarrow> has_edge m x y \<and> \<not> ((x = a \<and> y = b) \<or> (x = b \<and> y = a)))"
proof (cases "has_edge m a b")
  case False
  have "\<not> has_edge m b a" using store_ok_edge [OF assms] False by blast
  then show ?thesis using assms False
    by (auto simp: removeEdge_def getEdge_def findNode_def node_hasEdge_def has_edge_def split: option.splits)
next
  case True
  obtain ea eb where e: "m a = Some ea" "m b = Some eb" "a \<noteq> b" "b \<in> ea" "a \<in> eb"
    using True store_ok_edge [OF assms True] by (auto simp: has_edge_def)
  let ?m = "m(a \<mapsto> ea - {b}, b \<mapsto> eb - {a})"
  have res: "removeEdge a b m = Ok (SUCCESS, ?m)"
    using e by (auto simp: removeEdge_def getEdge_def findNode_def node_hasEdge_def node_removeEdge_def)
  have edge: "has_edge ?m x y \<longleftrightarrow> has_edge m x y \<and> \<not> ((x = a \<and> y = b) \<or> (x = b \<and> y = a))" for x y
    using e by (auto simp: has_edge_def)
  have dom: "dom ?m = dom m" using e by auto
  have "store_ok ?m" unfolding store_ok_def
  proof (intro conjI allI impI)
    show "finite (dom ?m)" using assms unfolding dom by (simp add: store_ok_def)
    fix x ex assume x: "?m x = Some ex"
    show "finite ex" "x \<notin> ex"
      using assms e x by (auto simp: store_ok_def split: if_splits)
    show "\<forall>y\<in>ex. \<exists>e'. ?m y = Some e' \<and> x \<in> e'"
    proof
      fix y assume "y \<in> ex"
      then have "has_edge ?m x y" using x unfolding has_edge_def by blast
      then have "has_edge ?m y x" unfolding edge using store_ok_edge [OF assms] by blast
      then show "\<exists>e'. ?m y = Some e' \<and> x \<in> e'" unfolding has_edge_def .
    qed
  qed
  then show ?thesis using res dom edge True e
    by (intro exI [of _ SUCCESS] exI [of _ "?m"]) auto
qed

section \<open>The interface\<close>

text \<open>
  What \<open>graph_store.h\<close> promises: a set of nodes and a symmetric relation between
  different nodes, and how each operation changes them. \<open>ok\<close> is the implementation's
  invariant; an operation never ends the process.
\<close>

locale graph_store =
  fixes ok :: "'s \<Rightarrow> bool"
    and node_set :: "'s \<Rightarrow> node_id set"
    and edge :: "'s \<Rightarrow> node_id \<Rightarrow> node_id \<Rightarrow> bool"
    and add_node :: "node_id \<Rightarrow> 's \<Rightarrow> (code \<times> 's) run"
    and remove_node :: "node_id \<Rightarrow> 's \<Rightarrow> (code \<times> 's) run"
    and add_edge :: "node_id \<Rightarrow> node_id \<Rightarrow> 's \<Rightarrow> (code \<times> 's) run"
    and remove_edge :: "node_id \<Rightarrow> node_id \<Rightarrow> 's \<Rightarrow> (code \<times> 's) run"
  assumes edge_sym: "ok s \<Longrightarrow> edge s a b \<Longrightarrow> edge s b a \<and> a \<noteq> b \<and> a \<in> node_set s \<and> b \<in> node_set s"
    and add_node_law: "ok s \<Longrightarrow> \<exists>c s'. add_node n s = Ok (c, s') \<and> ok s' \<and>
        c = (if n \<in> node_set s then NO_ACTION else SUCCESS) \<and>
        node_set s' = insert n (node_set s) \<and> (\<forall>x y. edge s' x y \<longleftrightarrow> edge s x y)"
    and remove_node_law: "ok s \<Longrightarrow> \<exists>c s'. remove_node n s = Ok (c, s') \<and> ok s' \<and>
        c = (if n \<in> node_set s then SUCCESS else DOES_NOT_EXIST) \<and>
        node_set s' = node_set s - {n} \<and> (\<forall>x y. edge s' x y \<longleftrightarrow> edge s x y \<and> x \<noteq> n \<and> y \<noteq> n)"
    and add_edge_law: "ok s \<Longrightarrow> \<exists>c s'. add_edge a b s = Ok (c, s') \<and> ok s' \<and>
        c = (if a = b then INVALID else if a \<notin> node_set s \<or> b \<notin> node_set s then DOES_NOT_EXIST
             else if edge s a b then NO_ACTION else SUCCESS) \<and>
        node_set s' = node_set s \<and>
        (\<forall>x y. edge s' x y \<longleftrightarrow> edge s x y \<or>
           (a \<noteq> b \<and> a \<in> node_set s \<and> b \<in> node_set s \<and> ((x = a \<and> y = b) \<or> (x = b \<and> y = a))))"
    and remove_edge_law: "ok s \<Longrightarrow> \<exists>c s'. remove_edge a b s = Ok (c, s') \<and> ok s' \<and>
        c = (if a = b then INVALID else if a \<notin> node_set s \<or> b \<notin> node_set s then DOES_NOT_EXIST
             else if edge s a b then SUCCESS else DOES_NOT_EXIST) \<and>
        node_set s' = node_set s \<and>
        (\<forall>x y. edge s' x y \<longleftrightarrow> edge s x y \<and> \<not> ((x = a \<and> y = b) \<or> (x = b \<and> y = a)))"
begin

lemma add_then_remove:
  assumes "ok s" and "n \<notin> node_set s"
  shows "\<exists>s1 s2. add_node n s = Ok (SUCCESS, s1) \<and> remove_node n s1 = Ok (SUCCESS, s2) \<and> ok s2 \<and>
    node_set s2 = node_set s \<and> (\<forall>x y. edge s2 x y \<longleftrightarrow> edge s x y)"
proof -
  obtain s1 where 1: "add_node n s = Ok (SUCCESS, s1)" "ok s1" "node_set s1 = insert n (node_set s)"
    "\<forall>x y. edge s1 x y \<longleftrightarrow> edge s x y"
    using add_node_law [OF assms(1), of n] assms(2) by auto
  obtain s2 where 2: "remove_node n s1 = Ok (SUCCESS, s2)" "ok s2" "node_set s2 = node_set s1 - {n}"
    "\<forall>x y. edge s2 x y \<longleftrightarrow> edge s1 x y \<and> x \<noteq> n \<and> y \<noteq> n"
    using remove_node_law [OF 1(2), of n] 1(3) by auto
  have "x \<noteq> n \<and> y \<noteq> n" if "edge s x y" for x y using edge_sym [OF assms(1) that] assms(2) by auto
  then show ?thesis using 1 2 assms(2) by auto
qed

lemma add_edge_sym:
  assumes "ok s"
  shows "\<exists>c s1 s2. add_edge a b s = Ok (c, s1) \<and> add_edge b a s = Ok (c, s2) \<and>
    (\<forall>x y. edge s1 x y \<longleftrightarrow> edge s2 x y)"
proof -
  have "edge s a b \<longleftrightarrow> edge s b a" using edge_sym [OF assms] by blast
  then show ?thesis using add_edge_law [OF assms, of a b] add_edge_law [OF assms, of b a] by auto
qed

lemma add_remove_edge:
  assumes "ok s" and "a \<noteq> b" and "a \<in> node_set s" and "b \<in> node_set s" and "\<not> edge s a b"
  shows "\<exists>s1 s2. add_edge a b s = Ok (SUCCESS, s1) \<and> remove_edge b a s1 = Ok (SUCCESS, s2) \<and>
    node_set s2 = node_set s \<and> (\<forall>x y. edge s2 x y \<longleftrightarrow> edge s x y)"
proof -
  obtain s1 where 1: "add_edge a b s = Ok (SUCCESS, s1)" "ok s1" "node_set s1 = node_set s"
    "\<forall>x y. edge s1 x y \<longleftrightarrow> edge s x y \<or> ((x = a \<and> y = b) \<or> (x = b \<and> y = a))"
    using add_edge_law [OF assms(1), of a b] assms(2-5) by auto
  obtain s2 where 2: "remove_edge b a s1 = Ok (SUCCESS, s2)" "node_set s2 = node_set s1"
    "\<forall>x y. edge s2 x y \<longleftrightarrow> edge s1 x y \<and> \<not> ((x = b \<and> y = a) \<or> (x = a \<and> y = b))"
    using remove_edge_law [OF 1(2), of b a] 1(3,4) assms(2-4) by auto
  have "\<not> edge s b a" using edge_sym [OF assms(1)] assms(5) by blast
  then show ?thesis using 1 2 assms(5) by auto
qed

end

definition add_node_run :: "node_id \<Rightarrow> store \<Rightarrow> (code \<times> store) run" where
  "add_node_run n m = Ok (addNode n m)"

interpretation ms: graph_store store_ok dom has_edge add_node_run removeNode addEdge removeEdge
proof unfold_locales
  fix s :: store and n a b :: node_id
  assume ok: "store_ok s"
  show "\<exists>c s'. add_node_run n s = Ok (c, s') \<and> store_ok s' \<and>
      c = (if n \<in> dom s then NO_ACTION else SUCCESS) \<and> dom s' = insert n (dom s) \<and>
      (\<forall>x y. has_edge s' x y \<longleftrightarrow> has_edge s x y)"
    using addNode_ok [OF ok, of n] addNode_edges [of n s]
    by (cases "addNode n s") (auto simp: add_node_run_def addNode_def split: if_splits)
  show "\<exists>c s'. removeNode n s = Ok (c, s') \<and> store_ok s' \<and>
      c = (if n \<in> dom s then SUCCESS else DOES_NOT_EXIST) \<and> dom s' = dom s - {n} \<and>
      (\<forall>x y. has_edge s' x y \<longleftrightarrow> has_edge s x y \<and> x \<noteq> n \<and> y \<noteq> n)"
    by (rule removeNode_effect [OF ok])
  show "\<exists>c s'. addEdge a b s = Ok (c, s') \<and> store_ok s' \<and>
      c = (if a = b then INVALID else if a \<notin> dom s \<or> b \<notin> dom s then DOES_NOT_EXIST
           else if has_edge s a b then NO_ACTION else SUCCESS) \<and> dom s' = dom s \<and>
      (\<forall>x y. has_edge s' x y \<longleftrightarrow> has_edge s x y \<or>
         (a \<noteq> b \<and> a \<in> dom s \<and> b \<in> dom s \<and> ((x = a \<and> y = b) \<or> (x = b \<and> y = a))))"
    using addEdge_effect [OF ok, of a b] by blast
  show "\<exists>c s'. removeEdge a b s = Ok (c, s') \<and> store_ok s' \<and>
      c = (if a = b then INVALID else if a \<notin> dom s \<or> b \<notin> dom s then DOES_NOT_EXIST
           else if has_edge s a b then SUCCESS else DOES_NOT_EXIST) \<and> dom s' = dom s \<and>
      (\<forall>x y. has_edge s' x y \<longleftrightarrow> has_edge s x y \<and> \<not> ((x = a \<and> y = b) \<or> (x = b \<and> y = a)))"
    using removeEdge_effect [OF ok, of a b] by blast
  show "has_edge s a b \<Longrightarrow> has_edge s b a \<and> a \<noteq> b \<and> a \<in> dom s \<and> b \<in> dom s"
    using store_ok_edge [OF ok] by blast
qed

end
