(* ===== verification/ShortestPath.thy ===== *)
theory ShortestPath
  imports MemoryStore
begin

text \<open>
  \<open>MemoryStore::shortestPath\<close> of \<open>src/db/memory_store.cc\<close>: a search by levels with the
  list \<open>toSearch\<close> of the level, the list \<open>nextSearch\<close> of the next one and the set \<open>found\<close>
  of the ids met on an edge. The parameter \<open>ho\<close> is the iteration order of a hash set. The
  search returns the least number of edges of a walk, or \<open>NO_ACTION\<close> when there is none.
\<close>

section \<open>The search\<close>

text \<open>The loop over the edges of a node.\<close>

primrec scan_edges :: "store \<Rightarrow> node_id list \<Rightarrow> node_id set \<Rightarrow> node_id list \<Rightarrow>
    (node_id set \<times> node_id list) run" where
  "scan_edges m [] found nxt = Ok (found, nxt)"
| "scan_edges m (e # es) found nxt =
     (if e \<in> found then scan_edges m es found nxt
      else if m e = None then Die
      else scan_edges m es (insert e found) (nxt @ [e]))"

text \<open>The loop over a level: \<open>None\<close> for the node looked for, or the lists of the next one.\<close>

primrec scan_level :: "(edges \<Rightarrow> node_id list) \<Rightarrow> store \<Rightarrow> node_id \<Rightarrow> node_id list \<Rightarrow>
    node_id set \<Rightarrow> node_id list \<Rightarrow> (node_id set \<times> node_id list) option run" where
  "scan_level ho m b [] found nxt = Ok (Some (found, nxt))"
| "scan_level ho m b (n # ns) found nxt =
     (if n = b then Ok None
      else (case m n of
              None \<Rightarrow> Die
            | Some es \<Rightarrow>
                (case scan_edges m (ho es) found nxt of
                   Die \<Rightarrow> Die
                 | Ok (found', nxt') \<Rightarrow> scan_level ho m b ns found' nxt')))"

partial_function (option) search_levels :: "(edges \<Rightarrow> node_id list) \<Rightarrow> store \<Rightarrow> node_id \<Rightarrow>
    64 word \<Rightarrow> node_id list \<Rightarrow> node_id set \<Rightarrow> (64 word status_with) run option" where
  "search_levels ho m b distance toSearch found =
     (if toSearch = [] then Some (Ok (Inl NO_ACTION))
      else (case scan_level ho m b toSearch found [] of
              Die \<Rightarrow> Some Die
            | Ok None \<Rightarrow> Some (Ok (Inr distance))
            | Ok (Some (found', nextSearch)) \<Rightarrow>
                search_levels ho m b (distance + 1) nextSearch found'))"

definition shortestPath :: "(edges \<Rightarrow> node_id list) \<Rightarrow> node_id \<Rightarrow> node_id \<Rightarrow> store \<Rightarrow>
    (64 word status_with) run option" where
  "shortestPath ho a b m =
     (case findNode a m of
        Inl c \<Rightarrow> Some (Ok (Inl c))
      | Inr _ \<Rightarrow>
          (case findNode b m of
             Inl c \<Rightarrow> Some (Ok (Inl DOES_NOT_EXIST))
           | Inr _ \<Rightarrow>
               if a = b then Some (Ok (Inl NO_ACTION))
               else search_levels ho m b 0 [a] {}))"

section \<open>One level\<close>

definition edge_rel :: "store \<Rightarrow> (node_id \<times> node_id) set" where
  "edge_rel m = {(a, b). has_edge m a b}"

lemma scan_edges_ok:
  "set es \<subseteq> dom m \<Longrightarrow> \<exists>nxt'. scan_edges m es found nxt = Ok (found \<union> set es, nxt') \<and>
     set nxt' = set nxt \<union> (set es - found)"
proof (induction es arbitrary: found nxt)
  case (Cons e es)
  show ?case
  proof (cases "e \<in> found")
    case True
    then show ?thesis using Cons.IH [of found nxt] Cons.prems by (auto simp: insert_absorb)
  next
    case False
    then show ?thesis using Cons.IH [of "insert e found" "nxt @ [e]"] Cons.prems by auto
  qed
qed simp

lemma scan_level_ok:
  assumes ok: "store_ok m" and ho: "enumerates ho"
  shows "set ns \<subseteq> dom m \<Longrightarrow> b \<notin> set ns \<Longrightarrow>
    \<exists>nxt'. scan_level ho m b ns found nxt = Ok (Some (found \<union> edge_rel m `` set ns, nxt')) \<and>
      set nxt' = set nxt \<union> (edge_rel m `` set ns - found)"
proof (induction ns arbitrary: found nxt)
  case (Cons n ns)
  obtain es where es: "m n = Some es" using Cons.prems by auto
  have fin: "finite es" and sub: "es \<subseteq> dom m"
    using ok es unfolding store_ok_def by blast+
  have hs: "set (ho es) = es" using ho fin by simp
  have img: "edge_rel m `` {n} = es" using es by (auto simp: edge_rel_def has_edge_def)
  obtain nx where nx: "scan_edges m (ho es) found nxt = Ok (found \<union> es, nx)"
    "set nx = set nxt \<union> (es - found)"
    using scan_edges_ok [of "ho es" m found nxt] hs sub by auto
  have split: "edge_rel m `` set (n # ns) = es \<union> edge_rel m `` set ns" using img by auto
  obtain r where r: "scan_level ho m b ns (found \<union> es) nx = Ok (Some ((found \<union> es) \<union> edge_rel m `` set ns, r))"
    "set r = set nx \<union> (edge_rel m `` set ns - (found \<union> es))"
    using Cons.IH [of "found \<union> es" nx] Cons.prems by auto
  show ?case unfolding split using Cons.prems es nx r by (auto simp: Un_assoc)
qed simp

lemma scan_level_found:
  assumes ok: "store_ok m" and ho: "enumerates ho"
  shows "set ns \<subseteq> dom m \<Longrightarrow> b \<in> set ns \<Longrightarrow> scan_level ho m b ns found nxt = Ok None"
proof (induction ns arbitrary: found nxt)
  case (Cons n ns)
  obtain es where es: "m n = Some es" using Cons.prems by auto
  have "finite es" and sub: "es \<subseteq> dom m"
    using ok es unfolding store_ok_def by blast+
  then have "set (ho es) \<subseteq> dom m" using ho by simp
  then show ?case using Cons scan_edges_ok [of "ho es" m found nxt] es by auto
qed simp

section \<open>Levels\<close>

text \<open>
  \<open>toSearch\<close> at distance \<open>k\<close>: ends of walks of length \<open>k\<close>, all of those that no shorter
  non-empty walk reaches; \<open>found\<close>: the ends of non-empty walks of length at most \<open>k\<close>.
\<close>

definition level :: "store \<Rightarrow> node_id \<Rightarrow> nat \<Rightarrow> node_id set \<Rightarrow> node_id set \<Rightarrow> bool" where
  "level m a k T F \<longleftrightarrow>
     F = {x. \<exists>j. 0 < j \<and> j \<le> k \<and> (a, x) \<in> edge_rel m ^^ j} \<and>
     (\<forall>x\<in>T. (a, x) \<in> edge_rel m ^^ k) \<and>
     (\<forall>x. (a, x) \<in> edge_rel m ^^ k \<longrightarrow> x \<in> T \<or> (\<exists>j. 0 < j \<and> j < k \<and> (a, x) \<in> edge_rel m ^^ j))"

lemma level_0: "level m a 0 {a} {}"
  by (simp add: level_def)

lemma level_image:
  assumes "level m a k T F"
  shows "F \<union> edge_rel m `` T = {x. \<exists>j. 0 < j \<and> j \<le> Suc k \<and> (a, x) \<in> edge_rel m ^^ j}" (is "?L = ?R")
proof
  show "?L \<subseteq> ?R"
  proof
    fix x assume "x \<in> ?L"
    then show "x \<in> ?R"
    proof
      assume "x \<in> F"
      then show ?thesis using assms le_SucI unfolding level_def by blast
    next
      assume "x \<in> edge_rel m `` T"
      then obtain y where "(a, y) \<in> edge_rel m ^^ k" "(y, x) \<in> edge_rel m"
        using assms unfolding level_def by blast
      then have "(a, x) \<in> edge_rel m ^^ Suc k" by (rule relpow_Suc_I)
      then show ?thesis by blast
    qed
  qed
  show "?R \<subseteq> ?L"
  proof
    fix x assume "x \<in> ?R"
    then obtain j where j: "0 < j" "j \<le> Suc k" "(a, x) \<in> edge_rel m ^^ j" by blast
    show "x \<in> ?L"
    proof (cases "j \<le> k")
      case True
      then show ?thesis using j assms unfolding level_def by blast
    next
      case False
      then have "(a, x) \<in> edge_rel m ^^ Suc k" using j by (metis le_SucE)
      then obtain y where y: "(a, y) \<in> edge_rel m ^^ k" "(y, x) \<in> edge_rel m" by (rule relpow_Suc_E)
      then consider "y \<in> T" | i where "0 < i" "i < k" "(a, y) \<in> edge_rel m ^^ i"
        using assms unfolding level_def by blast
      then show ?thesis
      proof cases
        case 1
        then show ?thesis using y by blast
      next
        case 2
        then have "(a, x) \<in> edge_rel m ^^ Suc i" "Suc i \<le> k" using y by (auto intro: relpow_Suc_I)
        then show ?thesis using assms unfolding level_def by blast
      qed
    qed
  qed
qed

lemma level_Suc:
  assumes "level m a k T F"
  shows "level m a (Suc k) (edge_rel m `` T - F) (F \<union> edge_rel m `` T)"
proof -
  let ?R = "{x. \<exists>j. 0 < j \<and> j \<le> Suc k \<and> (a, x) \<in> edge_rel m ^^ j}"
  have img: "F \<union> edge_rel m `` T = ?R" by (rule level_image [OF assms])
  have F: "F = {x. \<exists>j. 0 < j \<and> j \<le> k \<and> (a, x) \<in> edge_rel m ^^ j}"
    using assms unfolding level_def by blast
  have "\<forall>x\<in>edge_rel m `` T - F. (a, x) \<in> edge_rel m ^^ Suc k"
    using assms relpow_Suc_I unfolding level_def by fast
  moreover have "x \<in> edge_rel m `` T - F \<or> (\<exists>j. 0 < j \<and> j < Suc k \<and> (a, x) \<in> edge_rel m ^^ j)"
    if "(a, x) \<in> edge_rel m ^^ Suc k" for x
  proof -
    have "x \<in> F \<union> edge_rel m `` T" unfolding img using that by blast
    then show ?thesis using F less_Suc_eq_le by blast
  qed
  ultimately show ?thesis unfolding level_def img by blast
qed

text \<open>When a level is empty, everything reachable has been met.\<close>

lemma level_empty:
  assumes "level m a k {} F" and "(a, b) \<in> edge_rel m ^^ j" and "0 < k"
  shows "\<exists>i<k. (a, b) \<in> edge_rel m ^^ i"
  using assms(2)
proof (induction j arbitrary: b)
  case 0
  then show ?case using assms(3) by (intro exI [of _ 0]) simp
next
  case (Suc j)
  obtain y where y: "(a, y) \<in> edge_rel m ^^ j" "(y, b) \<in> edge_rel m"
    using Suc.prems by (rule relpow_Suc_E)
  obtain i where i: "i < k" "(a, y) \<in> edge_rel m ^^ i" using Suc.IH [OF y(1)] by blast
  have step: "(a, b) \<in> edge_rel m ^^ Suc i" using i(2) y(2) by (rule relpow_Suc_I)
  show ?case
  proof (cases "Suc i = k")
    case True
    then show ?thesis using step assms(1) unfolding level_def by blast
  next
    case False
    then show ?thesis using step i(1) by (intro exI [of _ "Suc i"]) simp
  qed
qed

section \<open>The distance\<close>

definition least_walk :: "store \<Rightarrow> node_id \<Rightarrow> node_id \<Rightarrow> nat \<Rightarrow> bool" where
  "least_walk m a b d \<longleftrightarrow>
     (a, b) \<in> edge_rel m ^^ d \<and> (\<forall>j<d. (a, b) \<notin> edge_rel m ^^ j)"

definition connected :: "store \<Rightarrow> node_id \<Rightarrow> node_id \<Rightarrow> bool" where
  "connected m a b \<longleftrightarrow> (\<exists>j. (a, b) \<in> edge_rel m ^^ j)"

definition right_answer :: "store \<Rightarrow> node_id \<Rightarrow> node_id \<Rightarrow> 64 word status_with \<Rightarrow> bool" where
  "right_answer m a b r =
     (case r of Inl c \<Rightarrow> c = NO_ACTION \<and> \<not> connected m a b
      | Inr w \<Rightarrow> \<exists>d. w = word_of_nat d \<and> least_walk m a b d)"

lemma connected_rtrancl: "connected m a b \<longleftrightarrow> (a, b) \<in> (edge_rel m)\<^sup>*"
  unfolding connected_def by (metis rtrancl_power)

lemma edge_image_dom: "store_ok m \<Longrightarrow> edge_rel m `` T \<subseteq> dom m"
  using store_ok_edge unfolding edge_rel_def by fastforce

lemma search_levels_right:
  assumes ok: "store_ok m" and ho: "enumerates ho"
  shows "level m a k (set T) F \<Longrightarrow> set T \<subseteq> dom m \<Longrightarrow> F \<subseteq> dom m \<Longrightarrow>
    \<forall>j<k. (a, b) \<notin> edge_rel m ^^ j \<Longrightarrow> T \<noteq> [] \<or> 0 < k \<Longrightarrow>
    \<exists>r. search_levels ho m b (word_of_nat k) T F = Some (Ok r) \<and> right_answer m a b r"
proof (induction "card (dom m - F) + (if T = [] then 0 else 1)" arbitrary: k T F rule: less_induct)
  case less
  have fin: "finite (dom m - F)" using ok by (simp add: store_ok_def)
  show ?case
  proof (cases "T = []")
    case True
    have "\<not> connected m a b"
      using level_empty [of m a k F b] less.prems True unfolding connected_def by auto
    then show ?thesis using True by (subst search_levels.simps) (simp add: right_answer_def)
  next
    case T: False
    show ?thesis
    proof (cases "b \<in> set T")
      case True
      have "(a, b) \<in> edge_rel m ^^ k" using less.prems(1) True unfolding level_def by blast
      then have "right_answer m a b (Inr (word_of_nat k))"
        using less.prems(4) by (auto simp: right_answer_def least_walk_def)
      then show ?thesis using T scan_level_found [OF ok ho less.prems(2) True, of F "[]"]
        by (subst search_levels.simps) simp
    next
      case False
      let ?F = "F \<union> edge_rel m `` set T"
      obtain nxt where nxt: "scan_level ho m b T F [] = Ok (Some (?F, nxt))"
        "set nxt = edge_rel m `` set T - F"
        using scan_level_ok [OF ok ho less.prems(2) False, of F "[]"] by auto
      have lev: "level m a (Suc k) (set nxt) ?F"
        using level_Suc [OF less.prems(1)] nxt(2) by simp
      have "(a, b) \<notin> edge_rel m ^^ k"
        using less.prems(1,4) False unfolding level_def by blast
      then have none: "\<forall>j<Suc k. (a, b) \<notin> edge_rel m ^^ j" using less.prems(4) less_Suc_eq by auto
      have sub: "set nxt \<subseteq> dom m" "?F \<subseteq> dom m"
        using nxt(2) edge_image_dom [OF ok, of "set T"] less.prems(3) by auto
      have "card (dom m - ?F) + (if nxt = [] then 0 else 1) < card (dom m - F) + (if T = [] then 0 else 1)"
      proof (cases "nxt = []")
        case True
        have "card (dom m - ?F) \<le> card (dom m - F)" using fin by (intro card_mono) auto
        then show ?thesis using True T by simp
      next
        case False
        obtain z where z: "z \<in> set nxt" using False by (cases nxt) auto
        then have "z \<in> dom m - F" "z \<notin> dom m - ?F" using nxt(2) sub by auto
        then have "dom m - ?F \<subset> dom m - F" by blast
        then have "card (dom m - ?F) < card (dom m - F)" using fin by (simp add: psubset_card_mono)
        then show ?thesis using T by simp
      qed
      then obtain r where "search_levels ho m b (word_of_nat (Suc k)) nxt ?F = Some (Ok r)"
        "right_answer m a b r"
        using less.hyps [of ?F nxt "Suc k"] lev sub none by auto
      then show ?thesis using T nxt(1)
        by (subst search_levels.simps) (simp add: add.commute)
    qed
  qed
qed

lemma shortestPath_right:
  assumes "store_ok m" and "enumerates ho" and "a \<in> dom m" and "b \<in> dom m" and "a \<noteq> b"
  shows "\<exists>r. shortestPath ho a b m = Some (Ok r) \<and> right_answer m a b r"
  using search_levels_right [OF assms(1,2), of a 0 "[a]" "{}" b] level_0 [of m a] assms(3-5)
  by (auto simp: shortestPath_def findNode_def)

declare search_levels.simps [code]

section \<open>Properties\<close>

text \<open>
  The store is the graph of its interface: on a well-formed store no operation ends the process,
  each keeps the store well formed, reports what happened and changes the symmetric edge
  relation as it promises. Here: removing a node removes exactly its edges.
\<close>

theorem remove_node_removes_edges:
  assumes "store_ok m"
  shows "\<exists>c m'. removeNode n m = Ok (c, m') \<and> store_ok m' \<and>
    c = (if n \<in> dom m then SUCCESS else DOES_NOT_EXIST) \<and> dom m' = dom m - {n} \<and>
    (\<forall>a b. has_edge m' a b \<longleftrightarrow> has_edge m a b \<and> a \<noteq> n \<and> b \<noteq> n)"
  using assms by (rule ms.remove_node_law)

definition small_store :: store where
  "small_store = [1 \<mapsto> {2}, 2 \<mapsto> {1, 3}, 3 \<mapsto> {2}]"

lemma small_store_ok: "store_ok small_store"
  by (auto simp: store_ok_def small_store_def split: if_splits)

theorem remove_node_removes_edges_witness:
  "\<exists>m'. removeNode 2 small_store = Ok (SUCCESS, m') \<and> dom m' = {1, 3} \<and> \<not> has_edge m' 1 2"
  using remove_node_removes_edges [OF small_store_ok, of 2] by (auto simp: small_store_def)

text \<open>
  Adding an edge and removing it, with its ends named in the other order, gives back the graph,
  and both report success.
\<close>

theorem add_remove_edge_round_trip:
  assumes "store_ok m" and "a \<noteq> b" and "a \<in> dom m" and "b \<in> dom m" and "\<not> has_edge m a b"
  shows "\<exists>m1 m2. addEdge a b m = Ok (SUCCESS, m1) \<and> removeEdge b a m1 = Ok (SUCCESS, m2) \<and>
    dom m2 = dom m \<and> (\<forall>x y. has_edge m2 x y \<longleftrightarrow> has_edge m x y)"
  using assms by (rule ms.add_remove_edge)

theorem add_remove_edge_round_trip_witness:
  "\<exists>m1 m2. addEdge 1 3 small_store = Ok (SUCCESS, m1) \<and> removeEdge 3 1 m1 = Ok (SUCCESS, m2) \<and>
     dom m2 = dom small_store"
  using add_remove_edge_round_trip [OF small_store_ok, of 1 3] by (auto simp: small_store_def has_edge_def)

text \<open>
  C9: \<open>shortestPath\<close> is right: between two different nodes of a well-formed store it returns, without
  a failed invariant, the number of edges of a shortest path, or \<open>NO_ACTION\<close> when no path
  joins them, in whatever order the hash sets are iterated.
\<close>

theorem shortest_path_least:
  assumes "store_ok m" and "enumerates ho" and "a \<in> dom m" and "b \<in> dom m" and "a \<noteq> b"
  shows "\<exists>r. shortestPath ho a b m = Some (Ok r) \<and>
    (case r of
       Inl c \<Rightarrow> c = NO_ACTION \<and> (a, b) \<notin> (edge_rel m)\<^sup>*
     | Inr w \<Rightarrow> \<exists>d. w = word_of_nat d \<and> (a, b) \<in> edge_rel m ^^ d \<and>
                    (\<forall>j<d. (a, b) \<notin> edge_rel m ^^ j))"
  using shortestPath_right [OF assms]
  by (auto simp: right_answer_def least_walk_def connected_rtrancl split: sum.splits)

theorem shortest_path_least_witness:
  "\<exists>r. shortestPath sorted_list_of_set 1 3 small_store = Some (Ok r)"
  using shortest_path_least [OF small_store_ok enumerates_sorted_list_of_set, of 1 3]
  by (auto simp: small_store_def)

end
