(* ===== verification/Variables.thy ===== *)
theory Variables
  imports PyPath "HOL-Library.List_Lexorder"
begin

text \<open>
  \<open>SCons/Variables/__init__.py\<close> and the variable kinds beside it (\<open>BoolVariable\<close>,
  \<open>EnumVariable\<close>, \<open>ListVariable\<close>, \<open>PackageVariable\<close>, \<open>PathVariable\<close>): declaring
  configuration variables, and updating an environment from defaults, option files and the
  command line, with conversion and validation. Running an option file, substitution and
  the tests on files are parameters.
\<close>

section \<open>Values and errors\<close>

datatype py_err = UserErr string | ValueErr string | TypeErr | KeyErr string | OtherErr string

text \<open>A \<open>_ListVariable\<close> has its data and the sorted allowed elements.\<close>

datatype vval = VStr string | VBool bool | VNone | VListVar "string list" "string list"

type_synonym venv = "string \<rightharpoonup> vval"

definition vtruth :: "vval \<Rightarrow> bool" where
  "vtruth v = (case v of VStr s \<Rightarrow> s \<noteq> [] | VBool b \<Rightarrow> b | VNone \<Rightarrow> False | VListVar d _ \<Rightarrow> d \<noteq> [])"

text \<open>\<open>__str__\<close> sorts the data in place.\<close>

definition list_str :: "string list \<Rightarrow> string list \<Rightarrow> string" where
  "list_str data allowed =
     (if data = [] then ''none''
      else if sort data = allowed then ''all''
      else join_with '','' (sort data))"

definition vstr :: "vval \<Rightarrow> string" where
  "vstr v = (case v of VStr s \<Rightarrow> s | VBool b \<Rightarrow> if b then ''True'' else ''False'' | VNone \<Rightarrow> ''None''
     | VListVar d al \<Rightarrow> list_str d al)"

text \<open>A converter is called with the value alone, and with the environment after a \<open>TypeError\<close>.\<close>

type_synonym converter = "string \<Rightarrow> venv option \<Rightarrow> py_err + vval"
type_synonym validator = "string \<Rightarrow> string \<Rightarrow> venv \<Rightarrow> py_err + venv"

record variable =
  vr_key :: string
  vr_aliases :: "string list"
  vr_help :: string
  vr_default :: "vval option"
  vr_validator :: "validator option"
  vr_converter :: "converter option"

section \<open>Kinds of variables\<close>

subsection \<open>BoolVariable\<close>

definition true_strings :: "string list" where
  "true_strings = [''y'', ''yes'', ''true'', ''t'', ''1'', ''on'', ''all'']"

definition false_strings :: "string list" where
  "false_strings = [''n'', ''no'', ''false'', ''f'', ''0'', ''off'', ''none'']"

definition text2bool :: converter where
  "text2bool val e =
     (if e \<noteq> None then Inl TypeErr
      else if lower val \<in> set true_strings then Inr (VBool True)
      else if lower val \<in> set false_strings then Inr (VBool False)
      else Inl (ValueErr (''Invalid value for boolean option: '' @ val)))"

definition bool_validator :: validator where
  "bool_validator key val env =
     (case env key of
        None \<Rightarrow> Inl (KeyErr key)
      | Some (VBool b) \<Rightarrow> Inr env
      | Some v \<Rightarrow> Inl (UserErr (''Invalid value for boolean option '' @ key @ '': '' @ vstr v)))"

subsection \<open>EnumVariable\<close>

text \<open>\<open>rep\<close> is the text of a list of strings.\<close>

definition enum_check :: "(string list \<Rightarrow> string) \<Rightarrow> string \<Rightarrow> string \<Rightarrow> venv \<Rightarrow> string list \<Rightarrow> py_err + venv" where
  "enum_check rep key val env vals =
     (if val \<notin> set vals then Inl (UserErr (''Invalid value for option '' @ key @ '': '' @ val @
       ''.  Valid values are: '' @ rep vals))
      else Inr env)"

definition enum_validator :: "(string list \<Rightarrow> string) \<Rightarrow> nat \<Rightarrow> string list \<Rightarrow> validator" where
  "enum_validator rep ignorecase allowed key val env =
     (if ignorecase \<ge> 1 then enum_check rep key (lower val) env allowed
      else enum_check rep key val env allowed)"

definition map_get :: "(string \<rightharpoonup> string) \<Rightarrow> string \<Rightarrow> string \<Rightarrow> string" where
  "map_get m k d = (case m k of Some v \<Rightarrow> v | None \<Rightarrow> d)"

definition enum_converter :: "nat \<Rightarrow> (string \<rightharpoonup> string) \<Rightarrow> converter" where
  "enum_converter ignorecase m val e =
     (if e \<noteq> None then Inl TypeErr
      else Inr (VStr (if ignorecase = 2 then lower (map_get m (lower val) val)
                      else if ignorecase = 1 then map_get m (lower val) val
                      else map_get m val val)))"

subsection \<open>ListVariable\<close>

definition list_variable :: "string list \<Rightarrow> string list \<Rightarrow> vval" where
  "list_variable init allowed = VListVar (filter (\<lambda>s. s \<noteq> []) init) (sort allowed)"

definition list_converter :: "string list \<Rightarrow> (string \<rightharpoonup> string) \<Rightarrow> converter" where
  "list_converter allowed m val e =
     (if e \<noteq> None then Inl TypeErr
      else if val = ''none'' then Inr (list_variable [] allowed)
      else if val = ''all'' then Inr (list_variable allowed allowed)
      else
        (let vs = map (\<lambda>v. map_get m v v) (filter (\<lambda>s. s \<noteq> []) (split_on CHR '','' val));
             bad = filter (\<lambda>v. v \<notin> set allowed) vs
         in if bad \<noteq> [] then Inl (ValueErr (''Invalid value(s) for option: '' @ join_with '','' bad))
            else Inr (list_variable vs allowed)))"

subsection \<open>PackageVariable and PathVariable\<close>

definition enable_strings :: "string list" where
  "enable_strings = [''1'', ''yes'', ''true'', ''on'', ''enable'', ''search'']"

definition disable_strings :: "string list" where
  "disable_strings = [''0'', ''no'', ''false'', ''off'', ''disable'']"

definition package_converter :: converter where
  "package_converter val e =
     (if e \<noteq> None then Inl TypeErr
      else if lower val \<in> set enable_strings then Inr (VBool True)
      else if lower val \<in> set disable_strings then Inr (VBool False)
      else Inr (VStr val))"

definition package_validator ::
  "(string \<Rightarrow> bool) \<Rightarrow> (string \<Rightarrow> string \<Rightarrow> vval) option \<Rightarrow> validator" where
  "package_validator exists searchfunc key val env =
     (case env key of
        None \<Rightarrow> Inl (KeyErr key)
      | Some v \<Rightarrow>
          if v = VBool True then
            (case searchfunc of None \<Rightarrow> Inr env | Some f \<Rightarrow> Inr (env(key \<mapsto> f key val)))
          else if vtruth v \<and> \<not> exists val
            then Inl (UserErr (''Path does not exist for option '' @ key @ '': '' @ val))
          else Inr env)"

text \<open>\<open>isdir\<close> and \<open>isfile\<close> exclude each other; \<open>PathIsDirCreate\<close> makes the directory.\<close>

datatype path_kind = Missing | IsFile | IsDir

definition path_is_dir :: "(string \<Rightarrow> path_kind) \<Rightarrow> validator" where
  "path_is_dir fs key val env =
     (case fs val of
        IsDir \<Rightarrow> Inr env
      | IsFile \<Rightarrow> Inl (UserErr (''Directory path for option '' @ key @ '' is a file: '' @ val))
      | Missing \<Rightarrow> Inl (UserErr (''Directory path for option '' @ key @ '' does not exist: '' @ val)))"

definition path_is_file :: "(string \<Rightarrow> path_kind) \<Rightarrow> validator" where
  "path_is_file fs key val env =
     (case fs val of
        IsFile \<Rightarrow> Inr env
      | IsDir \<Rightarrow> Inl (UserErr (''File path for option '' @ key @ '' is a directory: '' @ val))
      | Missing \<Rightarrow> Inl (UserErr (''File path for option '' @ key @ '' does not exist: '' @ val)))"

definition path_exists :: "(string \<Rightarrow> path_kind) \<Rightarrow> validator" where
  "path_exists fs key val env =
     (if fs val = Missing
      then Inl (UserErr (''Path for option '' @ key @ '' does not exist: '' @ val)) else Inr env)"

definition path_is_dir_create ::
  "(string \<Rightarrow> path_kind) \<Rightarrow> string \<Rightarrow> string \<Rightarrow> py_err + (string \<Rightarrow> path_kind)" where
  "path_is_dir_create fs key val =
     (case fs val of
        IsFile \<Rightarrow> Inl (UserErr (''Path for option '' @ key @ '' is a file, not a directory: '' @ val))
      | IsDir \<Rightarrow> Inr fs
      | Missing \<Rightarrow> Inr (fs(val := IsDir)))"

section \<open>Declaring\<close>

record variables =
  vs_options :: "variable list"
  vs_args :: "(string \<times> vval) list"
  vs_files :: "string list"
  vs_unknown :: "string \<rightharpoonup> vval"

text \<open>
  \<open>__init__\<close> with the class attribute \<open>instance\<close>. With \<open>is_global\<close> it assigns the attribute
  to the local name \<open>self\<close>, and then \<open>self\<close> to the attribute when that is unset.
\<close>

definition variables_init ::
  "string list \<Rightarrow> (string \<times> vval) list \<Rightarrow> bool \<Rightarrow> variables option \<Rightarrow> variables \<times> variables option" where
  "variables_init files args is_global inst =
     (let new = \<lparr>vs_options = [], vs_args = args, vs_files = files, vs_unknown = (\<lambda>_. None)\<rparr>;
          self = (if is_global then inst else Some new)
      in (new, if is_global \<and> inst = None then self else inst))"

datatype key_arg = KeyStr string | KeyList "string list"

type_synonym add_args = "key_arg \<times> string \<times> vval option \<times> validator option \<times> converter option"

text \<open>\<open>_do_add\<close>: a declared name is no longer unknown.\<close>

definition do_add :: "add_args \<Rightarrow> variables \<Rightarrow> py_err + variables" where
  "do_add a vs =
     (case a of (key, help, dflt, val, conv) \<Rightarrow>
        (case (case key of KeyStr k \<Rightarrow> Some (k, [k])
               | KeyList [] \<Rightarrow> None | KeyList (k # ks) \<Rightarrow> Some (k, ks)) of
           None \<Rightarrow> Inl (OtherErr ''IndexError'')
         | Some (k, aliases) \<Rightarrow>
             Inr (vs\<lparr>vs_options := vs_options vs @
                      [\<lparr>vr_key = k, vr_aliases = aliases, vr_help = help, vr_default = dflt,
                        vr_validator = val, vr_converter = conv\<rparr>],
                    vs_unknown := (\<lambda>x. if x \<in> set (aliases @ [k]) then None else vs_unknown vs x)\<rparr>)))"

definition variables_keys :: "variables \<Rightarrow> string list" where
  "variables_keys vs = map vr_key (vs_options vs)"

definition is_valid_construction_var :: "string \<Rightarrow> bool" where
  "is_valid_construction_var s \<longleftrightarrow> is_ident (strip_newline s)"

text \<open>\<open>Add\<close> with a name, and with a list of arguments.\<close>

definition Add :: "add_args \<Rightarrow> variables \<Rightarrow> py_err + variables" where
  "Add a vs =
     (case fst a of
        KeyStr k \<Rightarrow>
          if is_valid_construction_var k then do_add a vs
          else Inl (UserErr (''Illegal Variables.Add() key `'' @ k @ [CHR 0x27]))
      | KeyList _ \<Rightarrow> do_add a vs)"

fun AddVariables :: "add_args list \<Rightarrow> variables \<Rightarrow> (py_err + unit) \<times> variables" where
  "AddVariables [] vs = (Inr (), vs)"
| "AddVariables (a # as) vs =
     (case do_add a vs of Inl x \<Rightarrow> (Inl x, vs) | Inr vs' \<Rightarrow> AddVariables as vs')"

text \<open>
  The functions that make the arguments of \<open>Add\<close>: the help text names the values, and the
  validator and the converter of the kind are filled in. A key of \<open>PathVariable\<close> may be a list.
\<close>

definition key_text :: "key_arg \<Rightarrow> string" where
  "key_text k = (case k of KeyStr s \<Rightarrow> s | KeyList (s # _) \<Rightarrow> s | KeyList [] \<Rightarrow> [])"

definition BoolVariable :: "string \<Rightarrow> string \<Rightarrow> vval option \<Rightarrow> add_args" where
  "BoolVariable key help dflt =
     (KeyStr key, help @ '' (yes|no)'', dflt, Some bool_validator, Some text2bool)"

definition EnumVariable ::
  "(string list \<Rightarrow> string) \<Rightarrow> string \<Rightarrow> string \<Rightarrow> vval option \<Rightarrow> string list \<Rightarrow> (string \<rightharpoonup> string) \<Rightarrow> nat \<Rightarrow> add_args" where
  "EnumVariable rep key help dflt allowed m ignorecase =
     (KeyStr key, help @ '' ('' @ join_with ''|'' allowed @ '')'', dflt,
      Some (enum_validator rep ignorecase allowed), Some (enum_converter ignorecase m))"

definition ListVariable ::
  "string \<Rightarrow> string \<Rightarrow> vval option + string list \<Rightarrow> string list \<Rightarrow> (string \<rightharpoonup> string) \<Rightarrow> add_args" where
  "ListVariable key help dflt names m =
     (KeyStr key,
      join_with (CHR 0x0A # ''    '')
        [help, ''(all|none|comma-separated list of names)'', ''allowed names: '' @ join_with '' '' names],
      case dflt of Inl d \<Rightarrow> d | Inr ws \<Rightarrow> Some (VStr (join_with '','' ws)),
      None, Some (list_converter names m))"

definition PackageVariable ::
  "(string \<Rightarrow> bool) \<Rightarrow> string \<Rightarrow> string \<Rightarrow> vval option \<Rightarrow> (string \<Rightarrow> string \<Rightarrow> vval) option \<Rightarrow> add_args" where
  "PackageVariable exists key help dflt searchfunc =
     (KeyStr key, help @ CHR 0x0A # ''    ( yes | no | /path/to/'' @ key @ '' )'', dflt,
      Some (package_validator exists searchfunc), Some package_converter)"

definition PathVariable ::
  "(string \<Rightarrow> path_kind) \<Rightarrow> key_arg \<Rightarrow> string \<Rightarrow> vval option \<Rightarrow> validator option \<Rightarrow> py_err + add_args" where
  "PathVariable kind key help dflt val =
     (if key = KeyList [] then Inl (OtherErr ''IndexError'')
      else Inr (key, help @ '' ( /path/to/'' @ key_text key @ '' )'', dflt,
                Some (case val of None \<Rightarrow> path_exists kind | Some v \<Rightarrow> v), None))"

definition UnknownVariables :: "variables \<Rightarrow> string \<rightharpoonup> vval" where
  "UnknownVariables vs = vs_unknown vs"

section \<open>Updating an environment\<close>

text \<open>
  The values: the defaults, then what the option files that exist assign, then the command
  line. \<open>run\<close> executes a file on the values, in which \<open>__name__\<close> is set meanwhile; deleting it
  afterwards raises \<open>KeyError\<close> when the file has removed it.
\<close>

type_synonym run_file = "string \<Rightarrow> venv \<Rightarrow> py_err + venv"

definition set_defaults :: "variable list \<Rightarrow> venv \<Rightarrow> venv" where
  "set_defaults opts vals =
     fold (\<lambda>v vals. case vr_default v of None \<Rightarrow> vals | Some x \<Rightarrow> vals(vr_key v \<mapsto> x)) opts vals"

fun run_files :: "(string \<Rightarrow> bool) \<Rightarrow> run_file \<Rightarrow> string list \<Rightarrow> venv \<Rightarrow> py_err + venv" where
  "run_files exists run [] vals = Inr vals"
| "run_files exists run (f # fs) vals =
     (if \<not> exists f then run_files exists run fs vals
      else
        bind_result (run f (vals(''__name__'' \<mapsto> VStr f))) (\<lambda>vals.
          if vals ''__name__'' = None then Inl (KeyErr ''__name__'')
          else run_files exists run fs (vals(''__name__'' := None))))"

definition names_of :: "variable \<Rightarrow> string set" where
  "names_of v = set (vr_aliases v) \<union> {vr_key v}"

fun set_args :: "variable list \<Rightarrow> (string \<times> vval) list \<Rightarrow> venv \<Rightarrow> venv \<Rightarrow> venv \<times> venv" where
  "set_args opts [] vals unknown = (vals, unknown)"
| "set_args opts ((arg, value) # args) vals unknown =
     (let hit = filter (\<lambda>v. arg \<in> names_of v) opts
      in set_args opts args
           (fold (\<lambda>v vals. vals(vr_key v \<mapsto> value)) hit vals)
           (if hit = [] then unknown(arg \<mapsto> value) else unknown))"

definition put_values :: "variable list \<Rightarrow> venv \<Rightarrow> venv \<Rightarrow> venv" where
  "put_values opts vals env =
     fold (\<lambda>v e. case vals (vr_key v) of None \<Rightarrow> e | Some x \<Rightarrow> e(vr_key v \<mapsto> x)) opts env"

text \<open>\<open>subst e k\<close> is \<open>env.subst('${k}')\<close>.\<close>

definition convert_one :: "(venv \<Rightarrow> string \<Rightarrow> string) \<Rightarrow> variable \<Rightarrow> converter \<Rightarrow> venv \<Rightarrow> py_err + venv" where
  "convert_one subst v conv env =
     (let val = subst env (vr_key v);
          r = (case conv val None of Inl TypeErr \<Rightarrow> conv val (Some env) | r \<Rightarrow> r)
      in case r of
           Inr x \<Rightarrow> Inr (env(vr_key v \<mapsto> x))
         | Inl (ValueErr m) \<Rightarrow>
             Inl (UserErr (''Error converting option: '' @ vr_key v @ [CHR 0x0A] @ m))
         | Inl e \<Rightarrow> Inl e)"

fun convert_all :: "(venv \<Rightarrow> string \<Rightarrow> string) \<Rightarrow> variable list \<Rightarrow> venv \<Rightarrow> venv \<Rightarrow> (py_err + unit) \<times> venv" where
  "convert_all subst [] vals env = (Inr (), env)"
| "convert_all subst (v # vs) vals env =
     (case vr_converter v of
        Some conv \<Rightarrow>
          if vals (vr_key v) \<noteq> None then
            (case convert_one subst v conv env of
               Inl x \<Rightarrow> (Inl x, env)
             | Inr env' \<Rightarrow> convert_all subst vs vals env')
          else convert_all subst vs vals env
      | None \<Rightarrow> convert_all subst vs vals env)"

fun validate_all :: "(venv \<Rightarrow> string \<Rightarrow> string) \<Rightarrow> variable list \<Rightarrow> venv \<Rightarrow> venv \<Rightarrow> (py_err + unit) \<times> venv" where
  "validate_all subst [] vals env = (Inr (), env)"
| "validate_all subst (v # vs) vals env =
     (case vr_validator v of
        Some check \<Rightarrow>
          if vals (vr_key v) \<noteq> None then
            (case check (vr_key v) (subst env (vr_key v)) env of
               Inl x \<Rightarrow> (Inl x, env)
             | Inr env' \<Rightarrow> validate_all subst vs vals env')
          else validate_all subst vs vals env
      | None \<Rightarrow> validate_all subst vs vals env)"

definition Update ::
  "(string \<Rightarrow> bool) \<Rightarrow> run_file \<Rightarrow> (venv \<Rightarrow> string \<Rightarrow> string) \<Rightarrow> (string \<times> vval) list option \<Rightarrow>
     venv \<Rightarrow> variables \<Rightarrow> (py_err + unit) \<times> venv \<times> variables" where
  "Update exists run subst args env vs =
     (let opts = vs_options vs in
      case run_files exists run (vs_files vs) (set_defaults opts (\<lambda>_. None)) of
        Inl x \<Rightarrow> (Inl x, env, vs)
      | Inr values0 \<Rightarrow>
          (let (vals, unknown) =
                 set_args opts (case args of None \<Rightarrow> vs_args vs | Some a \<Rightarrow> a) values0 (vs_unknown vs);
               vs' = vs\<lparr>vs_unknown := unknown\<rparr>;
               env1 = put_values opts vals env;
               (r, env2) = convert_all subst opts vals env1
           in case r of
                Inl x \<Rightarrow> (Inl x, env2, vs')
              | Inr _ \<Rightarrow> (let (r2, env3) = validate_all subst opts vals env2 in (r2, env3, vs'))))"

section \<open>Saving and help\<close>

text \<open>
  What \<open>Save\<close> writes: the variables of the environment whose text differs from that of the
  default, which is substituted and converted. \<open>KeyError\<close> skips a variable; \<open>rep\<close> is \<open>repr\<close>,
  \<open>ok\<close> says whether the \<open>repr\<close> of a value can be evaluated, and \<open>substs\<close> is \<open>env.subst\<close> of a text.
\<close>

definition stored_value :: "(vval \<Rightarrow> bool) \<Rightarrow> vval \<Rightarrow> vval" where
  "stored_value ok v =
     (case v of VListVar d al \<Rightarrow> VStr (list_str d al) | _ \<Rightarrow> if ok v then v else VStr (vstr v))"

definition save_one ::
  "(vval \<Rightarrow> bool) \<Rightarrow> (vval \<Rightarrow> string) \<Rightarrow> (venv \<Rightarrow> string \<Rightarrow> string) \<Rightarrow> (venv \<Rightarrow> string \<Rightarrow> string) \<Rightarrow>
     venv \<Rightarrow> variable \<Rightarrow> py_err + string" where
  "save_one ok rep subst substs env v =
     (case env (vr_key v) of
        None \<Rightarrow> Inr []
      | Some x \<Rightarrow>
          (let dv = substs env (case vr_default v of None \<Rightarrow> ''None'' | Some d \<Rightarrow> vstr d);
               dr = (case vr_converter v of None \<Rightarrow> Inr (VStr dv) | Some conv \<Rightarrow> conv dv None)
           in case dr of
                Inl (KeyErr k) \<Rightarrow> Inr []
              | Inl e \<Rightarrow> Inl e
              | Inr d \<Rightarrow>
                  Inr (if subst env (vr_key v) \<noteq> vstr d
                       then vr_key v @ '' = '' @ rep (stored_value ok x) @ [CHR 0x0A] else [])))"

fun Save ::
  "(vval \<Rightarrow> bool) \<Rightarrow> (vval \<Rightarrow> string) \<Rightarrow> (venv \<Rightarrow> string \<Rightarrow> string) \<Rightarrow> (venv \<Rightarrow> string \<Rightarrow> string) \<Rightarrow>
     venv \<Rightarrow> variable list \<Rightarrow> py_err + string" where
  "Save ok rep subst substs env [] = Inr []"
| "Save ok rep subst substs env (v # vs) =
     bind_result (save_one ok rep subst substs env v) (\<lambda>l.
     bind_result (Save ok rep subst substs env vs) (\<lambda>ls. Inr (l @ ls)))"

definition FormatVariableHelpText ::
  "(string list \<Rightarrow> string) \<Rightarrow> string \<Rightarrow> string \<Rightarrow> string \<Rightarrow> string \<Rightarrow> string list \<Rightarrow> string" where
  "FormatVariableHelpText rep key help dflt actual aliases =
     (let al = filter (\<lambda>a. a \<noteq> key) aliases; nl = [CHR 0x0A];
          body = nl @ key @ '': '' @ help @ nl @ ''    default: '' @ dflt @ nl @ ''    actual: '' @ actual @ nl
      in if al = [] then body else body @ ''    aliases: '' @ rep al @ nl)"

definition GenerateHelpText ::
  "(string list \<Rightarrow> string) \<Rightarrow> (venv \<Rightarrow> string \<Rightarrow> string) \<Rightarrow> bool \<Rightarrow> venv \<Rightarrow> variables \<Rightarrow> string" where
  "GenerateHelpText rep subst srt env vs =
     concat (map (\<lambda>v. FormatVariableHelpText rep (vr_key v) (vr_help v)
                   (case vr_default v of None \<Rightarrow> ''None'' | Some d \<Rightarrow> vstr d)
                   (if env (vr_key v) \<noteq> None then subst env (vr_key v) else ''None'') (vr_aliases v))
       (if srt then sort_key vr_key (vs_options vs) else vs_options vs))"

section \<open>Precedence of the values\<close>

definition arg_for :: "variable \<Rightarrow> (string \<times> vval) list \<Rightarrow> vval option" where
  "arg_for v args = map_option snd (find (\<lambda>(a, x). a \<in> names_of v) (rev args))"

lemma find_append: "find P (xs @ ys) = (case find P xs of None \<Rightarrow> find P ys | Some x \<Rightarrow> Some x)"
  by (induction xs) auto

lemma arg_for_Cons:
  "arg_for v ((a, x) # args) =
     (case arg_for v args of Some y \<Rightarrow> Some y | None \<Rightarrow> if a \<in> names_of v then Some x else None)"
  by (auto simp: arg_for_def find_append split: option.splits)

lemma fold_hits:
  "fold (\<lambda>v vals. vals(vr_key v \<mapsto> x)) vs vals k = (if k \<in> vr_key ` set vs then Some x else vals k)"
  by (induction vs arbitrary: vals) auto

lemma set_args_values:
  assumes "distinct (map vr_key opts)" and "v \<in> set opts"
  shows "fst (set_args opts args vals unknown) (vr_key v) =
    (case arg_for v args of Some x \<Rightarrow> Some x | None \<Rightarrow> vals (vr_key v))"
proof (induction args arbitrary: vals unknown)
  case Nil
  then show ?case by (simp add: arg_for_def)
next
  case (Cons p args)
  obtain a x where p: "p = (a, x)" by (cases p)
  have "vr_key v \<in> vr_key ` set (filter (\<lambda>v. a \<in> names_of v) opts) \<longleftrightarrow> a \<in> names_of v"
    using assms by (auto simp: distinct_map dest: inj_onD)
  then show ?case using Cons.IH
    by (auto simp: p Let_def arg_for_Cons fold_hits split: option.splits)
qed

lemma set_args_other:
  "k \<notin> vr_key ` set opts \<Longrightarrow> fst (set_args opts args vals unknown) k = vals k"
proof (induction args arbitrary: vals unknown)
  case (Cons p args)
  obtain a x where p: "p = (a, x)" by (cases p)
  have "k \<notin> vr_key ` set (filter (\<lambda>v. a \<in> names_of v) opts)" using Cons.prems by auto
  then show ?case using Cons by (simp add: p Let_def fold_hits)
qed simp

lemma set_args_unknown:
  "snd (set_args opts args vals unknown) k =
     (if \<exists>v\<in>set opts. k \<in> names_of v then unknown k
      else case map_of (rev args) k of Some x \<Rightarrow> Some x | None \<Rightarrow> unknown k)"
proof (induction args arbitrary: vals unknown)
  case (Cons p args)
  obtain a x where p: "p = (a, x)" by (cases p)
  have "filter (\<lambda>v. a \<in> names_of v) opts = [] \<longleftrightarrow> \<not> (\<exists>v\<in>set opts. a \<in> names_of v)"
    by (auto simp: filter_empty_conv)
  then show ?case using Cons.IH
    by (auto simp: p Let_def map_add_def split: option.splits)
qed simp

lemma put_values_at:
  "put_values opts vals env k =
     (if k \<in> vr_key ` set opts \<and> vals k \<noteq> None then vals k else env k)"
proof (induction opts arbitrary: env)
  case (Cons v opts)
  then show ?case by (auto simp: put_values_def split: option.splits)
qed (simp add: put_values_def)

lemma convert_one_other:
  "convert_one subst v conv env = Inr env' \<Longrightarrow> k \<noteq> vr_key v \<Longrightarrow> env' k = env k"
  by (auto simp: convert_one_def Let_def split: sum.splits py_err.splits)

lemma convert_all_other:
  "convert_all subst opts vals env = (r, env') \<Longrightarrow>
     k \<notin> vr_key ` {v \<in> set opts. vr_converter v \<noteq> None} \<Longrightarrow> env' k = env k"
proof (induction opts arbitrary: env)
  case (Cons v opts)
  have k: "k \<notin> vr_key ` {v \<in> set opts. vr_converter v \<noteq> None}" using Cons.prems(2) by auto
  show ?case
  proof (cases "\<exists>conv. vr_converter v = Some conv \<and> vals (vr_key v) \<noteq> None")
    case False
    then have "convert_all subst opts vals env = (r, env')"
      using Cons.prems(1) by (auto split: option.splits)
    then show ?thesis by (rule Cons.IH [OF _ k])
  next
    case True
    then obtain conv where c: "vr_converter v = Some conv" "vals (vr_key v) \<noteq> None" by blast
    have kv: "k \<noteq> vr_key v" using Cons.prems(2) c(1) by auto
    show ?thesis
    proof (cases "convert_one subst v conv env")
      case (Inl x)
      then show ?thesis using Cons.prems(1) c by simp
    next
      case (Inr e1)
      then have "convert_all subst opts vals e1 = (r, env')" using Cons.prems(1) c by simp
      then have "env' k = e1 k" by (rule Cons.IH [OF _ k])
      then show ?thesis using convert_one_other [OF Inr kv] by simp
    qed
  qed
qed simp

definition checks_only :: "variable list \<Rightarrow> bool" where
  "checks_only opts \<longleftrightarrow>
     (\<forall>v\<in>set opts. \<forall>check k s e e'. vr_validator v = Some check \<longrightarrow> check k s e = Inr e' \<longrightarrow> e' = e)"

lemma validate_all_same:
  "checks_only opts \<Longrightarrow> validate_all subst opts vals env = (r, env') \<Longrightarrow> env' = env"
proof (induction opts arbitrary: env)
  case (Cons v opts)
  have "checks_only opts" using Cons.prems(1) by (simp add: checks_only_def)
  moreover have "e' = e" if "vr_validator v = Some check" "check k s e = Inr e'" for check k s e e'
    using Cons.prems(1) that unfolding checks_only_def by (meson list.set_intros(1))
  ultimately show ?case using Cons.prems(2) Cons.IH
    by (cases "vr_validator v") (auto split: if_splits sum.splits, metis)
qed simp

text \<open>A whole update that succeeds, over checks that change nothing.\<close>

lemma Update_parts:
  assumes "Update exists run subst args env vs = (Inr (), env', vs')" and "checks_only (vs_options vs)"
    and "run_files exists run (vs_files vs) (set_defaults (vs_options vs) (\<lambda>_. None)) = Inr values0"
  shows "\<exists>vals unknown.
    set_args (vs_options vs) (case args of None \<Rightarrow> vs_args vs | Some a \<Rightarrow> a) values0 (vs_unknown vs) =
      (vals, unknown) \<and> vs_unknown vs' = unknown \<and>
    (\<forall>k. k \<notin> vr_key ` {v \<in> set (vs_options vs). vr_converter v \<noteq> None} \<longrightarrow>
       env' k = put_values (vs_options vs) vals env k)"
proof -
  let ?o = "vs_options vs"
  obtain vals unknown where s: "set_args ?o (case args of None \<Rightarrow> vs_args vs | Some a \<Rightarrow> a) values0 (vs_unknown vs) =
      (vals, unknown)" by fastforce
  obtain r env2 where c: "convert_all subst ?o vals (put_values ?o vals env) = (r, env2)" by fastforce
  obtain r2 env3 where v: "validate_all subst ?o vals env2 = (r2, env3)" by fastforce
  have r: "r = Inr ()" "env' = env3" "vs' = vs\<lparr>vs_unknown := unknown\<rparr>"
    using assms(1,3) s c v by (auto simp: Update_def Let_def split: sum.splits)
  have "env3 = env2" by (rule validate_all_same [OF assms(2) v])
  then show ?thesis using s r convert_all_other [OF c] by auto
qed

section \<open>Properties\<close>

text \<open>
  The command line wins over the option files, they win over the defaults, and all win over
  the environment: after a successful update whose checks change nothing, each variable without a
  converter has its last value on the command line under its name or an alias, or else its
  value after the files, or else its old one; no undeclared name is touched, and exactly the
  undeclared arguments are recorded as unknown.
\<close>

theorem update_precedence:
  assumes "Update exists run subst args env vs = (Inr (), env', vs')" and "checks_only (vs_options vs)"
    and "run_files exists run (vs_files vs) (set_defaults (vs_options vs) (\<lambda>_. None)) = Inr values0"
    and "distinct (map vr_key (vs_options vs))"
  shows "(\<forall>v\<in>set (vs_options vs). vr_converter v = None \<longrightarrow> env' (vr_key v) =
      (case arg_for v (case args of None \<Rightarrow> vs_args vs | Some a \<Rightarrow> a) of Some x \<Rightarrow> Some x
       | None \<Rightarrow> (case values0 (vr_key v) of Some x \<Rightarrow> Some x | None \<Rightarrow> env (vr_key v)))) \<and>
    (\<forall>k. k \<notin> set (variables_keys vs) \<longrightarrow> env' k = env k) \<and>
    (\<forall>k. vs_unknown vs' k =
       (if \<exists>v\<in>set (vs_options vs). k \<in> names_of v then vs_unknown vs k
        else case map_of (rev (case args of None \<Rightarrow> vs_args vs | Some a \<Rightarrow> a)) k of
               Some x \<Rightarrow> Some x | None \<Rightarrow> vs_unknown vs k))"
proof -
  let ?o = "vs_options vs" and ?a = "case args of None \<Rightarrow> vs_args vs | Some a \<Rightarrow> a"
  obtain vals unknown where p: "set_args ?o ?a values0 (vs_unknown vs) = (vals, unknown)"
    "vs_unknown vs' = unknown"
    "\<forall>k. k \<notin> vr_key ` {v \<in> set ?o. vr_converter v \<noteq> None} \<longrightarrow> env' k = put_values ?o vals env k"
    using Update_parts [OF assms(1-3)] by blast
  have "env' (vr_key v) = (case arg_for v ?a of Some x \<Rightarrow> Some x
       | None \<Rightarrow> (case values0 (vr_key v) of Some x \<Rightarrow> Some x | None \<Rightarrow> env (vr_key v)))"
    if v: "v \<in> set ?o" "vr_converter v = None" for v
  proof -
    have "w = v" if "w \<in> set ?o" "vr_key w = vr_key v" for w
      using assms(4) v(1) that by (metis distinct_map inj_onD)
    then have "vr_key v \<notin> vr_key ` {v \<in> set ?o. vr_converter v \<noteq> None}" using v(2) by fastforce
    then have "env' (vr_key v) = put_values ?o vals env (vr_key v)" using p(3) by blast
    moreover have "vals (vr_key v) = (case arg_for v ?a of Some x \<Rightarrow> Some x | None \<Rightarrow> values0 (vr_key v))"
      using set_args_values [OF assms(4) v(1), of ?a values0 "vs_unknown vs"] p(1) by simp
    ultimately show ?thesis using v(1) by (auto simp: put_values_at split: option.splits)
  qed
  moreover have "env' k = env k" if "k \<notin> set (variables_keys vs)" for k
    using p(3) that by (auto simp: put_values_at variables_keys_def)
  moreover have "vs_unknown vs' k = (if \<exists>v\<in>set ?o. k \<in> names_of v then vs_unknown vs k
        else case map_of (rev ?a) k of Some x \<Rightarrow> Some x | None \<Rightarrow> vs_unknown vs k)" for k
    using set_args_unknown [of ?o ?a values0 "vs_unknown vs" k] p(1,2) by simp
  ultimately show ?thesis by blast
qed

definition small_variable :: variable where
  "small_variable = \<lparr>vr_key = ''CC'', vr_aliases = [''cc''], vr_help = [], vr_default = Some (VStr ''gcc''),
     vr_validator = None, vr_converter = None\<rparr>"

definition small_variables :: variables where
  "small_variables = \<lparr>vs_options = [small_variable], vs_args = [], vs_files = [], vs_unknown = (\<lambda>_. None)\<rparr>"

theorem update_precedence_witness:
  "\<exists>env' vs'. Update (\<lambda>_. False) (\<lambda>_ e. Inr e) (\<lambda>_ _. []) (Some [(''cc'', VStr ''clang''), (''x'', VStr ''1'')])
       (\<lambda>_. None) small_variables = (Inr (), env', vs') \<and>
     env' ''CC'' = Some (VStr ''clang'') \<and> vs_unknown vs' ''x'' = Some (VStr ''1'')"
proof -
  let ?args = "[(''cc'', VStr ''clang''), (''x'', VStr ''1'')]"
  obtain env' vs' where u: "Update (\<lambda>_. False) (\<lambda>_ e. Inr e) (\<lambda>_ _. []) (Some ?args)
      (\<lambda>_. None) small_variables = (Inr (), env', vs')"
    by (simp add: Update_def Let_def small_variables_def small_variable_def put_values_def names_of_def)
  have c: "checks_only (vs_options small_variables)"
    by (simp add: checks_only_def small_variables_def small_variable_def)
  have f: "run_files (\<lambda>_. False) (\<lambda>_ e. Inr e) (vs_files small_variables)
      (set_defaults (vs_options small_variables) (\<lambda>_. None)) = Inr [''CC'' \<mapsto> VStr ''gcc'']"
    by (simp add: small_variables_def small_variable_def set_defaults_def)
  from update_precedence [OF u c f] u show ?thesis
    by (simp add: small_variables_def small_variable_def arg_for_def names_of_def)
qed

text \<open>
  A list variable survives saving: for allowed names without commas, the text of a list of them
  converts back to a list with the same members and the same text, the empty list as \<open>none\<close> and
  the full one as \<open>all\<close> included.
\<close>

theorem list_variable_round_trip:
  assumes "set data \<subseteq> set allowed" and "\<forall>w\<in>set allowed. w \<noteq> [] \<and> CHR '','' \<notin> set w"
    and "\<forall>w\<in>set data. map_get m w w = w" and "data \<noteq> [''none'']" and "data \<noteq> [''all'']"
  shows "\<exists>d. list_converter allowed m (list_str data (sort allowed)) None = Inr (VListVar d (sort allowed)) \<and>
    set d = set data \<and> list_str d (sort allowed) = list_str data (sort allowed)"
proof (cases "data = [] \<or> sort data = sort allowed")
  case True
  have "filter (\<lambda>s. s \<noteq> []) allowed = allowed" using assms(2) by (simp add: filter_id_conv)
  moreover have "set allowed = set data" if "sort data = sort allowed"
    using that by (metis set_sort)
  ultimately show ?thesis using True
    by (auto simp: list_str_def list_converter_def list_variable_def)
next
  case False
  let ?t = "join_with '','' (sort data)"
  have ne: "sort data \<noteq> []" using False by (metis length_0_conv length_sort)
  have commas: "\<forall>w\<in>set (sort data). CHR '','' \<notin> set w" using assms(1,2) by auto
  have sp: "split_on CHR '','' ?t = sort data" by (rule split_join [OF ne commas])
  have "?t \<noteq> w" if "w = ''none'' \<or> w = ''all''" for w
  proof
    assume "?t = w"
    then have "split_on CHR '','' w = sort data" using sp by simp
    moreover have "split_on CHR '','' w = [w]" using that by auto
    ultimately have "sort data = [w]" by simp
    then have "length data = 1" by (metis length_sort length_Cons list.size(3) One_nat_def)
    then have "data = [w]" using \<open>sort data = [w]\<close>
      by (cases data) auto
    then show False using assms(4,5) that by auto
  qed
  moreover have "filter (\<lambda>s. s \<noteq> []) (sort data) = sort data"
    using assms(1,2) by (auto simp: filter_id_conv)
  moreover have "map (\<lambda>v. map_get m v v) (sort data) = sort data"
    using assms(3) by (intro map_idI) simp
  ultimately have "list_converter allowed m (list_str data (sort allowed)) None =
      Inr (VListVar (sort data) (sort allowed))"
    using False sp assms(1,2) by (auto simp: list_str_def list_converter_def list_variable_def filter_empty_conv Let_def)
  then show ?thesis using ne False by (auto simp: list_str_def sorted_sort_id)
qed

theorem list_variable_round_trip_witness:
  "\<exists>d. list_converter [''x11'', ''gl'', ''qt''] (\<lambda>_. None) (list_str [''qt'', ''gl''] (sort [''x11'', ''gl'', ''qt''])) None =
     Inr (VListVar d (sort [''x11'', ''gl'', ''qt''])) \<and> set d = {''qt'', ''gl''}"
  using list_variable_round_trip [of "[''qt'', ''gl'']" "[''x11'', ''gl'', ''qt'']" "\<lambda>_. None"]
  by (auto simp: map_get_def)

text \<open>
  An enumeration that ignores case rejects every value when its allowed values are not in lower
  case: the check compares the value in lower case with the allowed values as they were given.
\<close>

theorem enum_ignorecase_rejects:
  assumes "ignorecase \<ge> 1" and "\<forall>w\<in>set allowed. lower w \<noteq> w"
  shows "\<exists>msg. enum_validator rep ignorecase allowed key val env = Inl (UserErr msg)"
proof -
  have "to_lower (to_lower c) = to_lower c" for c
    by (auto simp: to_lower_def is_upper_def of_char_of)
  then have "lower (lower val) = lower val" by (simp add: lower_def)
  then have "lower val \<notin> set allowed" using assms(2) by metis
  then show ?thesis using assms(1) by (simp add: enum_validator_def enum_check_def)
qed

theorem enum_ignorecase_rejects_witness:
  "\<exists>msg. enum_validator concat 1 [''Debug''] ''MODE'' ''Debug'' (\<lambda>_. None) = Inl (UserErr msg)"
proof -
  have "lower ''Debug'' \<noteq> ''Debug''" by code_simp
  then show ?thesis using enum_ignorecase_rejects [of 1 "[''Debug'']" concat] by simp
qed

text \<open>
  The singleton is never set: whatever sequence of \<open>Variables\<close> objects is created, with
  \<open>is_global\<close> or without, the class attribute \<open>instance\<close> keeps its first value \<open>None\<close>.
\<close>

theorem singleton_never_set:
  "fold (\<lambda>(files, args, is_global) inst. snd (variables_init files args is_global inst)) calls None = None"
proof (induction calls)
  case (Cons c calls)
  then show ?case by (cases c) (simp add: variables_init_def Let_def)
qed simp

end
