(* ===== verification/CacheDir.thy ===== *)
theory CacheDir
  imports PyPath "HOL-Library.Word" "HOL-Library.Sublist"
begin

unbundle bit_operations_syntax

text \<open>
  \<open>SCons/CacheDir.py\<close>: the derived-file cache. A file system of regular files, links and
  directories is the state; an operation that raises \<open>EnvironmentError\<close> is a left result.
  \<open>push\<close> takes parameters that say which of its file operations fail and which directories can be
  made, so that what a failure leaves behind can be stated; a path names one entry of the file system.
\<close>

section \<open>Files\<close>

type_synonym fmode = "12 word"

datatype fobj = Regular string fmode | Link string | Dir

type_synonym files = "string \<rightharpoonup> fobj"

text \<open>Links are followed as often as the kernel does; a link's text is taken as a path.\<close>

fun follow :: "nat \<Rightarrow> files \<Rightarrow> string \<Rightarrow> string option" where
  "follow 0 fs p = None"
| "follow (Suc k) fs p = (case fs p of Some (Link t) \<Rightarrow> follow k fs t | _ \<Rightarrow> Some p)"

definition real_path :: "files \<Rightarrow> string \<Rightarrow> string option" where
  "real_path fs p = follow 40 fs p"

definition fs_get :: "files \<Rightarrow> string \<Rightarrow> fobj option" where
  "fs_get fs p = (case real_path fs p of None \<Rightarrow> None | Some q \<Rightarrow> fs q)"

definition fs_exists :: "files \<Rightarrow> string \<Rightarrow> bool" where
  "fs_exists fs p \<longleftrightarrow> fs_get fs p \<noteq> None"

definition fs_isdir :: "files \<Rightarrow> string \<Rightarrow> bool" where
  "fs_isdir fs p \<longleftrightarrow> fs_get fs p = Some Dir"

definition fs_islink :: "files \<Rightarrow> string \<Rightarrow> bool" where
  "fs_islink fs p \<longleftrightarrow> (\<exists>t. fs p = Some (Link t))"

lemma fs_islink_code [code]:
  "fs_islink fs p = (case fs p of Some (Link t) \<Rightarrow> True | _ \<Rightarrow> False)"
  by (auto simp: fs_islink_def split: option.splits fobj.splits)

text \<open>The mode of a directory is not kept.\<close>

definition fs_stat :: "files \<Rightarrow> string \<Rightarrow> string + fmode" where
  "fs_stat fs p =
     (case fs_get fs p of Some (Regular _ m) \<Rightarrow> Inr m | Some _ \<Rightarrow> Inr 0x1FF | None \<Rightarrow> Inl p)"

definition fs_readlink :: "files \<Rightarrow> string \<Rightarrow> string" where
  "fs_readlink fs p = (case fs p of Some (Link t) \<Rightarrow> t | _ \<Rightarrow> [])"

definition fs_symlink :: "string \<Rightarrow> string \<Rightarrow> files \<Rightarrow> string + files" where
  "fs_symlink text p fs = (if fs p \<noteq> None then Inl p else Inr (fs(p \<mapsto> Link text)))"

definition base_name :: "string \<Rightarrow> string" where
  "base_name p = snd (path_split p)"

text \<open>\<open>shutil.copy\<close> and \<open>copy2\<close>: contents and mode, into a directory under the same name,
  and never onto the file itself.\<close>

definition fs_copy :: "string \<Rightarrow> string \<Rightarrow> files \<Rightarrow> string + files" where
  "fs_copy src dst fs =
     (case fs_get fs src of
        Some (Regular c m) \<Rightarrow>
          (let d = (if fs_isdir fs dst then path_join dst (base_name src) else dst)
           in case real_path fs d of
                None \<Rightarrow> Inl d
              | Some q \<Rightarrow>
                 if real_path fs src = Some q \<or> fs q = Some Dir then Inl q
                 else Inr (fs(q \<mapsto> Regular c m)))
      | _ \<Rightarrow> Inl src)"

definition fs_rename :: "string \<Rightarrow> string \<Rightarrow> files \<Rightarrow> string + files" where
  "fs_rename p q fs =
     (case fs p of
        None \<Rightarrow> Inl p
      | Some x \<Rightarrow> if fs q = Some Dir then Inl q else Inr ((fs(p := None))(q \<mapsto> x)))"

definition fs_chmod :: "string \<Rightarrow> fmode \<Rightarrow> files \<Rightarrow> string + files" where
  "fs_chmod p m fs =
     (case real_path fs p of
        None \<Rightarrow> Inl p
      | Some q \<Rightarrow> (case fs q of None \<Rightarrow> Inl p | Some (Regular c _) \<Rightarrow> Inr (fs(q \<mapsto> Regular c m)) | Some x \<Rightarrow> Inr fs))"

text \<open>
  \<open>os.mkdir\<close> needs a name that is free and a parent that is a directory; \<open>can\<close> says where the system
  allows it. \<open>os.makedirs\<close> makes the missing ancestors first and takes one that turns out to exist for
  made; the result says how it failed, if it did.
\<close>

datatype errno = EEXIST | EOTHER

definition split_dir :: "string \<Rightarrow> string \<times> string" where
  "split_dir p = (let (h, t) = path_split p in if t = [] then path_split h else (h, t))"

definition fs_mkdir :: "(string \<Rightarrow> bool) \<Rightarrow> string \<Rightarrow> files \<Rightarrow> errno option \<times> files" where
  "fs_mkdir can p fs =
     (if fs p \<noteq> None then (Some EEXIST, fs)
      else if \<not> can p \<or> fst (split_dir p) \<noteq> [] \<and> \<not> fs_isdir fs (fst (split_dir p)) then (Some EOTHER, fs)
      else (None, fs(p \<mapsto> Dir)))"

lemma path_split_prefix: "prefix (fst (path_split p)) p" "snd (path_split p) \<noteq> [] \<Longrightarrow> length (fst (path_split p)) < length p"
proof -
  have r: "prefix (rstrip_sep q) q" for q
    using suffix_dropWhile [of "\<lambda>c. c = sep" "rev q"] by (simp add: rstrip_sep_def suffix_to_prefix)
  let ?i = "nat (rfind_char sep p + 1)"
  have h: "prefix (fst (path_split p)) (take ?i p)"
    using r [of "take ?i p"] by (simp add: path_split_def Let_def)
  then show "prefix (fst (path_split p)) p" using take_is_prefix prefix_order.order_trans by blast
  assume "snd (path_split p) \<noteq> []"
  then have "?i < length p" by (simp add: path_split_def Let_def)
  then show "length (fst (path_split p)) < length p" using prefix_length_le [OF h] by simp
qed

lemma split_dir_prefix: "prefix (fst (split_dir p)) p" "snd (split_dir p) \<noteq> [] \<Longrightarrow> length (fst (split_dir p)) < length p"
proof -
  let ?h = "fst (path_split p)"
  have e: "split_dir p = (if snd (path_split p) = [] then path_split ?h else path_split p)"
    by (simp add: split_dir_def split_beta)
  show "prefix (fst (split_dir p)) p"
    using path_split_prefix(1) [of p] path_split_prefix(1) [of ?h] prefix_order.order_trans by (auto simp: e)
  show "snd (split_dir p) \<noteq> [] \<Longrightarrow> length (fst (split_dir p)) < length p"
    using path_split_prefix(2) [of p] path_split_prefix(2) [of ?h] prefix_length_le [OF path_split_prefix(1) [of p]]
    by (auto simp: e split: if_splits)
qed

function makedirs :: "(string \<Rightarrow> bool) \<Rightarrow> string \<Rightarrow> files \<Rightarrow> errno option \<times> files" where
  "makedirs can p fs =
     (if fst (split_dir p) \<noteq> [] \<and> snd (split_dir p) \<noteq> [] \<and> \<not> fs_exists fs (fst (split_dir p)) then
        (case makedirs can (fst (split_dir p)) fs of
           (Some EOTHER, fs1) \<Rightarrow> (Some EOTHER, fs1)
         | (_, fs1) \<Rightarrow> if snd (split_dir p) = ''.'' then (None, fs1) else fs_mkdir can p fs1)
      else fs_mkdir can p fs)"
  by pat_completeness auto
termination
  by (relation "measure (\<lambda>(_, p, _). length p)") (simp_all add: split_dir_prefix(2))

declare makedirs.simps [simp del]

text \<open>Whether it fails or not, \<open>makedirs\<close> only adds directories, under the name and its ancestors.\<close>

definition dirs_added :: "string \<Rightarrow> files \<Rightarrow> files \<Rightarrow> bool" where
  "dirs_added p fs fs' \<longleftrightarrow> (\<forall>q. fs' q = fs q \<or> fs q = None \<and> fs' q = Some Dir \<and> prefix q p)"

lemma dirs_addedD: "dirs_added p fs fs' \<Longrightarrow> fs q \<noteq> None \<or> \<not> prefix q p \<Longrightarrow> fs' q = fs q"
  unfolding dirs_added_def by metis

lemma dirs_added_refl [simp]: "dirs_added p fs fs"
  by (simp add: dirs_added_def)

lemma dirs_added_trans: "dirs_added q fs fs1 \<Longrightarrow> prefix q p \<Longrightarrow> dirs_added p fs1 fs2 \<Longrightarrow> dirs_added p fs fs2"
  unfolding dirs_added_def by (metis prefix_order.order_trans)

lemma mkdir_added: "dirs_added p fs (snd (fs_mkdir can p fs))"
  by (simp add: fs_mkdir_def dirs_added_def)

lemma makedirs_added: "dirs_added p fs (snd (makedirs can p fs))"
proof (induction can p fs rule: makedirs.induct)
  case (1 can p fs)
  show ?case
  proof (cases "fst (split_dir p) \<noteq> [] \<and> snd (split_dir p) \<noteq> [] \<and> \<not> fs_exists fs (fst (split_dir p))")
    case True
    obtain e fs1 where m: "makedirs can (fst (split_dir p)) fs = (e, fs1)" by fastforce
    have a: "dirs_added (fst (split_dir p)) fs fs1" using 1 [OF True] m by simp
    have "dirs_added p fs fs1" by (rule dirs_added_trans [OF a split_dir_prefix(1)]) simp
    moreover have "dirs_added p fs (snd (fs_mkdir can p fs1))"
      by (rule dirs_added_trans [OF a split_dir_prefix(1) mkdir_added])
    ultimately show ?thesis by (simp add: makedirs.simps [of can p fs] True m split: option.split errno.split)
  next
    case False
    have "makedirs can p fs = fs_mkdir can p fs" by (subst makedirs.simps, rule if_not_P [OF False])
    then show ?thesis by (simp add: mkdir_added)
  qed
qed

definition S_IWRITE :: fmode where "S_IWRITE = 0x80"

section \<open>The cache directory\<close>

text \<open>
  The module's switches and the state of a \<open>CacheDir\<close>; \<open>cd_prefix\<close> is
  \<open>config['prefix_len']\<close>. \<open>cache_debug\<close> is no file, the standard output or a file name.
\<close>

datatype debug = NoDebug | DebugStdout | DebugFile string

record settings =
  cache_enabled :: bool
  cache_debug :: debug
  cache_force :: bool
  cache_show :: bool
  cache_readonly :: bool
  execute_actions :: bool

record cachedir =
  cd_path :: "string option"
  cd_prefix :: "nat option"
  cd_current_debug :: debug
  cd_debugFP :: debug

text \<open>
  What \<open>__init__\<close> does: the directory, with its configuration file, is made when it is missing
  or empty; without a configuration file other contents mean the old layout, and one warning
  for each path. \<open>load\<close> reads a configuration (\<open>None\<close>: not JSON), \<open>dump\<close> writes one; \<open>can_mkdir\<close> says
  where directories can be made and \<open>can_write\<close> that writing works.
\<close>

datatype init_error = EnvErr string

definition config_file :: "string \<Rightarrow> string" where
  "config_file path = path_join path ''config''"

definition has_entries :: "string list \<Rightarrow> bool" where
  "has_entries names \<longleftrightarrow> length names \<noteq> 0"

definition cachedir_init ::
  "bool \<Rightarrow> (string \<Rightarrow> nat option option) \<Rightarrow> (nat \<Rightarrow> string) \<Rightarrow> (string \<Rightarrow> string list) \<Rightarrow> (string \<Rightarrow> bool) \<Rightarrow> bool \<Rightarrow>
     string option \<Rightarrow> string set \<Rightarrow> files \<Rightarrow>
     (init_error + cachedir) \<times> string list \<times> string set \<times> files" where
  "cachedir_init hashlib load dump listdir can_mkdir can_write path0 warned fs =
     (let path = (if hashlib then path0 else None);
          w0 = (if hashlib then [] else [''NoMD5ModuleWarning'']);
          new = \<lparr>cd_path = path, cd_prefix = None, cd_current_debug = NoDebug, cd_debugFP = NoDebug\<rparr>
      in case path of
           None \<Rightarrow> (Inr new, w0, warned, fs)
         | Some p \<Rightarrow>
             (case fs_get fs (config_file p) of
                None \<Rightarrow>
                  if fs_isdir fs p \<and> has_entries (listdir p) then
                    (Inr (new\<lparr>cd_prefix := Some 1\<rparr>),
                     if p \<in> warned then [] else [''CacheVersionWarning''], insert p warned, fs)
                  else
                    (let (e, fs1) = (if fs_isdir fs p then (None, fs) else makedirs can_mkdir p fs) in
                     if e \<noteq> None then
                       (Inl (EnvErr (''Failed to create cache directory '' @ p)), [], warned, fs1)
                     else if \<not> can_write then
                       (Inl (EnvErr (''Failed to write cache configuration for '' @ p)), [], warned, fs1)
                     else (Inr (new\<lparr>cd_prefix := Some 2\<rparr>), [], warned,
                           fs1(config_file p \<mapsto> Regular (dump 2) 0x1A4)))
              | Some (Regular c _) \<Rightarrow>
                  (case load c of
                     None \<Rightarrow> (Inl (EnvErr (''Failed to read cache configuration for '' @ p)), [], warned, fs)
                   | Some n \<Rightarrow> (Inr (new\<lparr>cd_prefix := n\<rparr>), [], warned, fs))
              | Some _ \<Rightarrow> (Inl (EnvErr (config_file p)), [], warned, fs)))"

definition is_enabled :: "settings \<Rightarrow> cachedir \<Rightarrow> bool" where
  "is_enabled s cd \<longleftrightarrow> cache_enabled s \<and> cd_path cd \<noteq> None"

text \<open>\<open>cachepath\<close>: both parts are \<open>None\<close> when disabled; a missing \<open>prefix_len\<close> raises.\<close>

definition cachepath :: "settings \<Rightarrow> cachedir \<Rightarrow> string \<Rightarrow> string + (string \<times> string) option" where
  "cachepath s cd sig =
     (if \<not> is_enabled s cd then Inr None
      else
        (case (cd_path cd, cd_prefix cd) of
           (Some p, Some n) \<Rightarrow>
             (let d = path_join p (map to_upper (take n sig)) in Inr (Some (d, path_join d sig)))
         | _ \<Rightarrow> Inl ''KeyError''))"

text \<open>\<open>CacheDebug\<close> reopens its output when the switch has changed, then writes one line.\<close>

definition CacheDebug :: "settings \<Rightarrow> string \<Rightarrow> cachedir \<Rightarrow> cachedir \<times> (debug \<times> string) list" where
  "CacheDebug s line cd =
     (let cd' = (if cache_debug s \<noteq> cd_current_debug cd
                 then cd\<lparr>cd_debugFP := cache_debug s, cd_current_debug := cache_debug s\<rparr> else cd)
      in (cd', if cd_debugFP cd' \<noteq> NoDebug then [(cd_debugFP cd', line)] else []))"

section \<open>Retrieving\<close>

text \<open>
  \<open>CacheRetrieveFunc\<close> for a target with the given path and cache file: 1 when the cache has no
  such file; otherwise it is copied (or its link is made again) and becomes writable.
\<close>

definition CacheRetrieveFunc :: "settings \<Rightarrow> string \<Rightarrow> string \<Rightarrow> files \<Rightarrow> string + nat \<times> files" where
  "CacheRetrieveFunc s target cachefile fs =
     (if \<not> fs_exists fs cachefile then Inr (1, fs)
      else if \<not> execute_actions s then Inr (0, fs)
      else
        bind_result (if fs_islink fs cachefile then fs_symlink (fs_readlink fs cachefile) target fs
                     else fs_copy cachefile target fs) (\<lambda>fs1.
        bind_result (fs_stat fs1 cachefile) (\<lambda>m.
        bind_result (fs_chmod target (m OR S_IWRITE) fs1) (\<lambda>fs2. Inr (0, fs2)))))"

definition CacheRetrieveString :: "string \<Rightarrow> string \<Rightarrow> files \<Rightarrow> string option" where
  "CacheRetrieveString target cachefile fs =
     (if fs_exists fs cachefile then Some (''Retrieved `'' @ target @ [CHR 0x27] @ '' from cache'') else None)"

text \<open>
  \<open>retrieve\<close>: whether the target was found. With \<open>--cache-show\<close> the actions are shown instead of
  the retrieval (\<open>node.build(presub=0, execute=0)\<close>), the second component.
\<close>

definition cd_retrieve ::
  "settings \<Rightarrow> cachedir \<Rightarrow> string \<Rightarrow> string \<Rightarrow> files \<Rightarrow> string + (bool \<times> bool) \<times> files" where
  "cd_retrieve s cd sig target fs =
     (if \<not> is_enabled s cd then Inr ((False, False), fs)
      else
        bind_result (cachepath s cd sig) (\<lambda>r.
          case r of
            None \<Rightarrow> Inr ((False, False), fs)
          | Some (d, f) \<Rightarrow>
              bind_result (CacheRetrieveFunc s target f fs) (\<lambda>(n, fs').
                Inr ((n = 0, n = 0 \<and> cache_show s), fs'))))"

section \<open>Pushing\<close>

text \<open>
  The steps of \<open>CachePushFunc\<close> that are caught: copy to the temporary name, rename, make
  writable. \<open>fails k\<close> says that step \<open>k\<close> raises; a copy that fails leaves \<open>junk\<close> behind.
\<close>

definition push_steps :: "(nat \<Rightarrow> bool) \<Rightarrow> fobj option \<Rightarrow> string \<Rightarrow> string \<Rightarrow> string \<Rightarrow> files \<Rightarrow> bool \<times> files" where
  "push_steps fails junk target tempfile cachefile fs =
     (case (if fails 0 then Inl target
            else if fs_islink fs target then fs_symlink (fs_readlink fs target) tempfile fs
            else fs_copy target tempfile fs) of
        Inl _ \<Rightarrow> (False, case junk of None \<Rightarrow> fs | Some j \<Rightarrow> fs(tempfile \<mapsto> j))
      | Inr fs1 \<Rightarrow>
          (case (if fails 1 then Inl target else fs_rename tempfile cachefile fs1) of
             Inl _ \<Rightarrow> (False, fs1)
           | Inr fs2 \<Rightarrow>
               (case (if fails 2 then Inl target
                      else bind_result (fs_stat fs2 target) (\<lambda>m. fs_chmod cachefile (m OR S_IWRITE) fs2)) of
                  Inl _ \<Rightarrow> (False, fs2)
                | Inr fs3 \<Rightarrow> (True, fs3))))"

text \<open>
  \<open>CachePushFunc\<close>: the list of warnings, or the error it raises when \<open>makedirs\<close> raises and the
  directory is not there after all, with the files in both cases. \<open>pid\<close> is the text of the process number.
\<close>

definition CachePushFunc ::
  "settings \<Rightarrow> (nat \<Rightarrow> bool) \<Rightarrow> fobj option \<Rightarrow> (string \<Rightarrow> bool) \<Rightarrow> string \<Rightarrow> bool \<Rightarrow> string \<Rightarrow> string \<Rightarrow> string \<Rightarrow>
     files \<Rightarrow> (init_error + string list) \<times> files" where
  "CachePushFunc s fails junk can_mkdir pid nocache target cdir cachefile fs =
     (if cache_readonly s then (Inr [], fs)
      else if nocache then (Inr [], fs)
      else if fs_exists fs cachefile then (Inr [], fs)
      else
        (let (e, fs1) = (if fs_isdir fs cdir then (None, fs) else makedirs can_mkdir cdir fs) in
         if e \<noteq> None \<and> \<not> fs_isdir fs1 cdir then
           (Inl (EnvErr (''Unable to copy '' @ target @ '' to cache. Cache file is '' @ cachefile)), fs1)
         else
           (let (ok, fs2) = push_steps fails junk target (cachefile @ ''.tmp'' @ pid) cachefile fs1
            in (Inr (if ok then [] else [''CacheWriteErrorWarning'']), fs2))))"

definition cd_push ::
  "settings \<Rightarrow> (nat \<Rightarrow> bool) \<Rightarrow> fobj option \<Rightarrow> (string \<Rightarrow> bool) \<Rightarrow> string \<Rightarrow> cachedir \<Rightarrow> bool \<Rightarrow> string \<Rightarrow> string \<Rightarrow>
     files \<Rightarrow> (init_error + string list) \<times> files" where
  "cd_push s fails junk can_mkdir pid cd nocache sig target fs =
     (if cache_readonly s \<or> \<not> is_enabled s cd then (Inr [], fs)
      else if \<not> execute_actions s then (Inr [], fs)
      else
        (case cachepath s cd sig of
           Inl e \<Rightarrow> (Inl (EnvErr e), fs)
         | Inr None \<Rightarrow> (Inr [], fs)
         | Inr (Some (d, f)) \<Rightarrow> CachePushFunc s fails junk can_mkdir pid nocache target d f fs))"

definition push_if_forced ::
  "settings \<Rightarrow> (nat \<Rightarrow> bool) \<Rightarrow> fobj option \<Rightarrow> (string \<Rightarrow> bool) \<Rightarrow> string \<Rightarrow> cachedir \<Rightarrow> bool \<Rightarrow> string \<Rightarrow> string \<Rightarrow>
     files \<Rightarrow> (init_error + string list) \<times> files" where
  "push_if_forced s fails junk can_mkdir pid cd nocache sig target fs =
     (if cache_force s then cd_push s fails junk can_mkdir pid cd nocache sig target fs else (Inr [], fs))"

text \<open>
  What a \<open>File\<close> node does with the cache (\<open>Node/FS.py\<close>): nothing when it has \<open>nocache\<close>; it is
  pushed when it exists, and retrieved when it is derived.
\<close>

definition push_to_cache ::
  "settings \<Rightarrow> (nat \<Rightarrow> bool) \<Rightarrow> fobj option \<Rightarrow> (string \<Rightarrow> bool) \<Rightarrow> string \<Rightarrow> cachedir \<Rightarrow> bool \<Rightarrow> string \<Rightarrow> string \<Rightarrow>
     files \<Rightarrow> (init_error + string list) \<times> files" where
  "push_to_cache s fails junk can_mkdir pid cd nocache sig target fs =
     (if nocache then (Inr [], fs)
      else if fs_exists fs target then cd_push s fails junk can_mkdir pid cd nocache sig target fs
      else (Inr [], fs))"

definition retrieve_from_cache ::
  "settings \<Rightarrow> cachedir \<Rightarrow> bool \<Rightarrow> bool \<Rightarrow> string \<Rightarrow> string \<Rightarrow> files \<Rightarrow> string + (bool \<times> bool) \<times> files" where
  "retrieve_from_cache s cd nocache derived sig target fs =
     (if nocache \<or> \<not> derived then Inr ((False, False), fs) else cd_retrieve s cd sig target fs)"

section \<open>Facts about the file system\<close>

lemma real_path_regular [simp]: "fs p = Some (Regular c m) \<Longrightarrow> real_path fs p = Some p"
  by (simp add: real_path_def numeral_eq_Suc)

lemma real_path_none [simp]: "fs p = None \<Longrightarrow> real_path fs p = Some p"
  by (simp add: real_path_def numeral_eq_Suc)

lemma fs_get_regular [simp]: "fs p = Some (Regular c m) \<Longrightarrow> fs_get fs p = Some (Regular c m)"
  by (simp add: fs_get_def)

lemma fs_get_none [simp]: "fs p = None \<Longrightarrow> fs_get fs p = None"
  by (simp add: fs_get_def)

lemma fs_islink_simps [simp]:
  "fs p = Some (Regular c m) \<Longrightarrow> \<not> fs_islink fs p"
  "fs p = None \<Longrightarrow> \<not> fs_islink fs p"
  by (simp_all add: fs_islink_def)

lemma fs_exists_regular: "fs p = Some (Regular c m) \<Longrightarrow> fs_exists fs p"
  by (simp add: fs_exists_def)

text \<open>Copying a regular file to a new name, and the mode change after it.\<close>

lemma fs_copy_new:
  assumes "fs src = Some (Regular c m)" and "fs dst = None"
  shows "fs_copy src dst fs = Inr (fs(dst \<mapsto> Regular c m))"
proof -
  have "src \<noteq> dst" using assms by auto
  then show ?thesis using assms by (simp add: fs_copy_def fs_isdir_def)
qed

lemma fs_stat_regular: "fs p = Some (Regular c m) \<Longrightarrow> fs_stat fs p = Inr m"
  by (simp add: fs_stat_def)

lemma fs_chmod_regular: "fs p = Some (Regular c m) \<Longrightarrow> fs_chmod p m' fs = Inr (fs(p \<mapsto> Regular c m'))"
  by (simp add: fs_chmod_def)

lemmas regular_file = fs_copy_new fs_stat_regular fs_chmod_regular fs_exists_regular

text \<open>
  The steps of a push of a regular file: nothing but the temporary file changes, or the entry has
  the file's contents. Without failures it ends with the entry.
\<close>

lemma push_steps_outcome:
  assumes t: "fs target = Some (Regular c m)" and tmp: "fs tempfile = None"
    and ne: "cachefile \<noteq> target" "cachefile \<noteq> tempfile"
    and push: "push_steps fails junk target tempfile cachefile fs = (ok, fs')"
  shows "(fs' cachefile = fs cachefile \<or> (\<exists>m'. fs' cachefile = Some (Regular c m'))) \<and>
    (\<forall>p. p \<noteq> cachefile \<and> p \<noteq> tempfile \<longrightarrow> fs' p = fs p) \<and>
    (ok \<longrightarrow> fs' = fs(cachefile \<mapsto> Regular c (m OR S_IWRITE)) \<and> \<not> fails 0 \<and> \<not> fails 1 \<and> \<not> fails 2)"
proof -
  have nt: "tempfile \<noteq> target" using t tmp by auto
  let ?fs1 = "fs(tempfile \<mapsto> Regular c m)" and ?fs2 = "fs(cachefile \<mapsto> Regular c m)"
  have copy: "fs_copy target tempfile fs = Inr ?fs1" by (rule fs_copy_new [OF t tmp])
  have ren: "fs_rename tempfile cachefile ?fs1 = (if fs cachefile = Some Dir then Inl cachefile else Inr ?fs2)"
    using tmp ne by (auto simp: fs_rename_def fun_upd_twist)
  have chmod: "bind_result (fs_stat ?fs2 target) (\<lambda>m. fs_chmod cachefile (m OR S_IWRITE) ?fs2) =
      Inr (fs(cachefile \<mapsto> Regular c (m OR S_IWRITE)))"
    using t ne by (simp add: fs_stat_regular [of _ _ c m] fs_chmod_regular [of _ _ c m])
  show ?thesis using push t nt ne copy ren chmod
    by (auto simp: push_steps_def split: if_splits option.splits)
qed

lemma push_steps_ok:
  assumes t: "fs target = Some (Regular c m)" and tmp: "fs tempfile = None"
    and ne: "cachefile \<noteq> target" "cachefile \<noteq> tempfile" and nodir: "fs cachefile \<noteq> Some Dir"
  shows "push_steps (\<lambda>_. False) junk target tempfile cachefile fs =
    (True, fs(cachefile \<mapsto> Regular c (m OR S_IWRITE)))"
proof -
  have nt: "tempfile \<noteq> target" using t tmp by auto
  let ?fs1 = "fs(tempfile \<mapsto> Regular c m)" and ?fs2 = "fs(cachefile \<mapsto> Regular c m)"
  have copy: "fs_copy target tempfile fs = Inr ?fs1" by (rule fs_copy_new [OF t tmp])
  have ren: "fs_rename tempfile cachefile ?fs1 = Inr ?fs2"
    using tmp ne nodir by (auto simp: fs_rename_def fun_upd_twist)
  have chmod: "bind_result (fs_stat ?fs2 target) (\<lambda>m. fs_chmod cachefile (m OR S_IWRITE) ?fs2) =
      Inr (fs(cachefile \<mapsto> Regular c (m OR S_IWRITE)))"
    using t ne by (simp add: fs_stat_regular [of _ _ c m] fs_chmod_regular [of _ _ c m])
  show ?thesis using t copy ren chmod by (simp add: push_steps_def)
qed

text \<open>The last part of a cache path is the signature.\<close>

lemma last_part_join:
  assumes "CHR ''/'' \<notin> set b"
  shows "takeWhile (\<lambda>c. c \<noteq> CHR ''/'') (rev (path_join a b)) = rev b"
proof -
  have all: "\<forall>c\<in>set (rev b). c \<noteq> CHR ''/''" using assms by auto
  have tw: "takeWhile (\<lambda>c. c \<noteq> CHR ''/'') (rev b @ CHR ''/'' # zs) = rev b" for zs
    using all by (subst takeWhile_append2) auto
  have "takeWhile (\<lambda>c. c \<noteq> CHR ''/'') (rev b @ rev a) = rev b" if "a = [] \<or> last a = CHR ''/''"
    using that all tw by (cases a rule: rev_cases) auto
  then show ?thesis using assms tw by (auto simp: path_join_def sep_def split: if_splits)
qed

lemma cachepath_files:
  assumes "cachepath s cd sig = Inr (Some (d, f))" and "CHR ''/'' \<notin> set sig" and "sig \<noteq> []"
  shows "f = path_join d sig" and "d \<noteq> f" and "d \<noteq> f @ ''.tmp'' @ pid"
proof -
  show f: "f = path_join d sig"
    using assms(1) by (auto simp: cachepath_def Let_def split: if_splits option.splits)
  have "length d < length f" using assms(2,3) by (cases sig) (auto simp: f path_join_def)
  then show "d \<noteq> f" and "d \<noteq> f @ ''.tmp'' @ pid" by auto
qed

section \<open>A small cache\<close>

definition small_settings :: settings where
  "small_settings = \<lparr>cache_enabled = True, cache_debug = NoDebug, cache_force = False, cache_show = False,
     cache_readonly = False, execute_actions = True\<rparr>"

definition small_cache :: cachedir where
  "small_cache = \<lparr>cd_path = Some ''/c'', cd_prefix = Some 2, cd_current_debug = NoDebug, cd_debugFP = NoDebug\<rparr>"

lemma small_path: "cachepath small_settings small_cache ''ab12'' = Inr (Some (''/c/AB'', ''/c/AB/ab12''))"
  by code_simp

section \<open>Properties\<close>

text \<open>
  A push up to the steps that are caught: the directory is there or was made, or the error is raised.
\<close>

lemma cachepath_away:
  assumes "cachepath s cd sig = Inr (Some (d, f))" and "CHR ''/'' \<notin> set sig" and "sig \<noteq> []"
    and "dirs_added d fs fs1"
  shows "fs1 f = fs f" and "fs1 (f @ ''.tmp'' @ pid) = fs (f @ ''.tmp'' @ pid)"
proof -
  have "length d < length f"
    using assms(2,3) cachepath_files(1) [OF assms(1-3)] by (cases sig) (auto simp: path_join_def)
  then have "\<not> prefix f d" "\<not> prefix (f @ ''.tmp'' @ pid) d" by (auto dest: prefix_length_le)
  then show "fs1 f = fs f" "fs1 (f @ ''.tmp'' @ pid) = fs (f @ ''.tmp'' @ pid)"
    using dirs_addedD [OF assms(4)] by blast+
qed

definition pushing :: "settings \<Rightarrow> bool \<Rightarrow> string \<Rightarrow> files \<Rightarrow> bool" where
  "pushing s nocache f fs \<longleftrightarrow> \<not> cache_readonly s \<and> \<not> nocache \<and> execute_actions s \<and> \<not> fs_exists fs f"

lemma not_pushing:
  assumes "cachepath s cd sig = Inr (Some (d, f))" and "\<not> pushing s nocache f fs"
  shows "cd_push s fails junk can_mkdir pid cd nocache sig target fs = (Inr [], fs)"
  using assms by (auto simp: pushing_def cd_push_def CachePushFunc_def)

lemma push_started:
  assumes "cachepath s cd sig = Inr (Some (d, f))" and "pushing s nocache f fs"
    and "(if fs_isdir fs d then (None, fs) else makedirs can_mkdir d fs) = (e, fs1)"
  shows "cd_push s fails junk can_mkdir pid cd nocache sig target fs =
    (if e \<noteq> None \<and> \<not> fs_isdir fs1 d
     then (Inl (EnvErr (''Unable to copy '' @ target @ '' to cache. Cache file is '' @ f)), fs1)
     else let (ok, fs2) = push_steps fails junk target (f @ ''.tmp'' @ pid) f fs1
          in (Inr (if ok then [] else [''CacheWriteErrorWarning'']), fs2))"
proof -
  have "is_enabled s cd" using assms(1) by (auto simp: cachepath_def split: if_splits)
  then show ?thesis using assms by (simp add: pushing_def cd_push_def CachePushFunc_def Let_def)
qed

lemma started_added: "(if fs_isdir fs d then (None, fs) else makedirs can d fs) = (e, fs1) \<Longrightarrow> dirs_added d fs fs1"
  using makedirs_added [of d fs can] by (auto split: if_splits)

text \<open>
  What is pushed can be retrieved: a push of a regular file into an enabled, writable cache
  without that entry succeeds without a warning, and retrieving it later, in any file system that
  still has the entry and lacks the target, gives the contents back, with the mode made writable.
\<close>

theorem push_then_retrieve:
  assumes "cachepath s cd sig = Inr (Some (d, f))" and "sig \<noteq> []" and "CHR ''/'' \<notin> set sig"
    and "execute_actions s" and "\<not> cache_readonly s" and "fs target = Some (Regular c m)"
    and "\<not> fs_exists fs f" and "fs (f @ ''.tmp'' @ pid) = None"
    and "fs_isdir fs d \<or> fst (makedirs can_mkdir d fs) = None"
  shows "\<exists>fs1. cd_push s (\<lambda>_. False) junk can_mkdir pid cd False sig target fs = (Inr [], fs1) \<and>
    (\<forall>gs. gs f = fs1 f \<and> gs target = None \<longrightarrow>
      cd_retrieve s cd sig target gs =
        Inr ((True, cache_show s), gs(target \<mapsto> Regular c (m OR S_IWRITE))))"
proof -
  have en: "is_enabled s cd" using assms(1) by (auto simp: cachepath_def split: if_splits)
  obtain e fs0 where e: "(if fs_isdir fs d then (None, fs) else makedirs can_mkdir d fs) = (e, fs0)" by fastforce
  then have "e = None" using assms(9) by (auto split: if_splits)
  note add = started_added [OF e]
  note same = cachepath_away [OF assms(1,3,2) add]
  have t: "fs0 target = Some (Regular c m)" using dirs_addedD [OF add, of target] assms(6) by simp
  have ft: "f \<noteq> target" using assms(6,7) by (auto dest: fs_exists_regular)
  have fd: "fs f \<noteq> Some Dir" using assms(7) by (auto simp: fs_exists_def fs_get_def real_path_def numeral_eq_Suc)
  have p: "pushing s False f fs" using assms(4,5,7) by (simp add: pushing_def)
  have "push_steps (\<lambda>_. False) junk target (f @ ''.tmp'' @ pid) f fs0 = (True, fs0(f \<mapsto> Regular c (m OR S_IWRITE)))"
    by (rule push_steps_ok) (use t assms(8) same fd ft in auto)
  then have push: "cd_push s (\<lambda>_. False) junk can_mkdir pid cd False sig target fs =
      (Inr [], fs0(f \<mapsto> Regular c (m OR S_IWRITE)))"
    using push_started [OF assms(1) p e] \<open>e = None\<close> by simp
  have "cd_retrieve s cd sig target gs = Inr ((True, cache_show s), gs(target \<mapsto> Regular c (m OR S_IWRITE)))"
    if "gs f = Some (Regular c (m OR S_IWRITE))" and "gs target = None" for gs
  proof -
    have "(m OR S_IWRITE) OR S_IWRITE = m OR S_IWRITE" by (simp add: or.assoc)
    then show ?thesis using that assms(1,4) en ft
      by (simp add: cd_retrieve_def CacheRetrieveFunc_def regular_file [of _ _ c "m OR S_IWRITE"])
  qed
  then show ?thesis using push by auto
qed

definition small_files :: files where
  "small_files = [''/'' \<mapsto> Dir, ''a.o'' \<mapsto> Regular ''code'' 0x124]"

lemma small_facts:
  "small_files ''a.o'' = Some (Regular ''code'' 0x124)" "\<not> fs_exists small_files ''/c/AB/ab12''"
  "small_files (''/c/AB/ab12'' @ ''.tmp'' @ ''7'') = None" "execute_actions small_settings" "\<not> cache_readonly small_settings"
  by code_simp+

theorem push_then_retrieve_witness:
  "\<exists>fs1. cd_push small_settings (\<lambda>_. False) None (\<lambda>_. True) ''7'' small_cache False ''ab12'' ''a.o'' small_files = (Inr [], fs1) \<and>
        (\<forall>gs. gs ''/c/AB/ab12'' = fs1 ''/c/AB/ab12'' \<and> gs ''a.o'' = None \<longrightarrow>
          cd_retrieve small_settings small_cache ''ab12'' ''a.o'' gs =
            Inr ((True, False), gs(''a.o'' \<mapsto> Regular ''code'' 0x1A4)))"
proof -
  have "fst (makedirs (\<lambda>_. True) ''/c/AB'' small_files) = None" by code_simp
  then show ?thesis
    using push_then_retrieve [OF small_path _ _ small_facts(4,5,1,2,3), of "\<lambda>_. True" None]
    by (simp add: small_settings_def S_IWRITE_def)
qed



text \<open>
  Two signatures never share an entry: the cache path determines the signature, for every length
  of the directory prefix.
\<close>

theorem cachepath_injective:
  assumes "cachepath s cd sig = Inr (Some (d, f))" and "cachepath s cd' sig' = Inr (Some (d', f))"
    and "CHR ''/'' \<notin> set sig" and "CHR ''/'' \<notin> set sig'"
  shows "sig = sig'"
proof -
  have "f = path_join d sig" "f = path_join d' sig'"
    using assms(1,2) by (auto simp: cachepath_def Let_def split: if_splits option.splits)
  then have "rev sig = rev sig'" using last_part_join assms(3,4) by metis
  then show ?thesis using small_path by simp
qed

theorem cachepath_injective_witness:
  "cachepath small_settings small_cache ''ab12'' = Inr (Some (''/c/AB'', ''/c/AB/ab12'')) \<and> ''ab12'' = ''ab12''"
proof -
  from cachepath_injective [OF small_path small_path] show ?thesis using small_path by simp
qed

end
