(* ===== verification/Subst.thy ===== *)
theory Subst
  imports PyPath
begin

text \<open>
  \<open>SCons/Subst.py\<close>: the expansion of construction variables. \<open>scons_subst\<close> expands a string,
  \<open>scons_subst_list\<close> a command into lines of words. Python's recursion limit is a number: an
  expansion that is nested deeper ends with the error \<open>TooDeep\<close>.
\<close>

section \<open>Values\<close>

text \<open>
  What a variable can hold: a string, a \<open>CmdStringHolder\<close> with its flag, a \<open>Literal\<close>, a
  \<open>SpecialAttrWrapper\<close> with its text for signatures, a sequence (\<open>Targets_or_Sources\<close> included),
  a \<open>Target_or_Source\<close> with the list behind it, \<open>NullNodesList\<close>, \<open>None\<close>, a callable, and any
  other object.
\<close>

datatype sval = SStr string | SHolder string bool | SLiteral string | SAttr string string
  | SList "sval list" | SFirst "sval list" | SNull | SNone | SFun nat | SObj nat

datatype subst_err = BuildErr string | UserErr string | Raised string string | TooDeep

type_synonym lvars = "string \<rightharpoonup> sval"

text \<open>
  What callables and other objects do. An exception is its class name and its text;
  \<open>it_eval\<close> is \<open>eval\<close> on anything but the name of a variable, \<open>it_proxy\<close> is
  \<open>get_subst_proxy\<close> or the object itself, \<open>it_rfile\<close> is \<open>rfile\<close> or the object itself.
\<close>

record interp =
  it_str :: "nat \<Rightarrow> string"
  it_sig :: "nat \<Rightarrow> string"
  it_lit :: "nat \<Rightarrow> bool"
  it_fstr :: "nat \<Rightarrow> string"
  it_list :: "sval list \<Rightarrow> string"
  it_call :: "nat \<Rightarrow> sval \<Rightarrow> sval \<Rightarrow> bool \<Rightarrow> string \<times> string + sval"
  it_eval :: "string \<Rightarrow> lvars \<Rightarrow> string \<times> string + sval"
  it_proxy :: "sval \<Rightarrow> sval"
  it_rfile :: "sval \<Rightarrow> sval"

fun str_of :: "interp \<Rightarrow> sval \<Rightarrow> string" where
  "str_of it (SStr s) = s"
| "str_of it (SHolder s l) = s"
| "str_of it (SLiteral s) = s"
| "str_of it (SAttr s f) = s"
| "str_of it (SList xs) = it_list it xs"
| "str_of it (SFirst []) = []"
| "str_of it (SFirst (x # xs)) = str_of it x"
| "str_of it SNull = []"
| "str_of it SNone = ''None''"
| "str_of it (SFun n) = it_fstr it n"
| "str_of it (SObj n) = it_str it n"

fun is_string :: "sval \<Rightarrow> bool" where
  "is_string (SStr s) = True"
| "is_string (SHolder s l) = True"
| "is_string v = False"

fun truthy :: "sval \<Rightarrow> bool" where
  "truthy (SStr s) = (s \<noteq> [])"
| "truthy (SHolder s l) = (s \<noteq> [])"
| "truthy (SList xs) = (xs \<noteq> [])"
| "truthy SNull = False"
| "truthy SNone = False"
| "truthy v = True"

fun map_result :: "('a \<Rightarrow> 'e + 'b) \<Rightarrow> 'a list \<Rightarrow> 'e + 'b list" where
  "map_result f [] = Inr []"
| "map_result f (x # xs) = bind_result (f x) (\<lambda>y. bind_result (map_result f xs) (\<lambda>ys. Inr (y # ys)))"

text \<open>
  \<open>Util.to_String_for_subst\<close>. Of a sequence it joins the elements themselves, which must be
  strings; the strings it makes of them before are not used.
\<close>

definition type_error :: subst_err where
  "type_error = Raised ''TypeError'' []"

fun plain_strings :: "sval list \<Rightarrow> string list option" where
  "plain_strings [] = Some []"
| "plain_strings (SStr s # xs) = map_option ((#) s) (plain_strings xs)"
| "plain_strings (x # xs) = None"

fun to_String_for_subst :: "interp \<Rightarrow> sval \<Rightarrow> subst_err + sval" where
  "to_String_for_subst it (SList xs) =
     (case plain_strings xs of Some ws \<Rightarrow> Inr (SStr (join_with '' '' ws)) | None \<Rightarrow> Inl type_error)"
| "to_String_for_subst it s = Inr (SStr (str_of it s))"

text \<open>\<open>Util.to_String_for_signature\<close>: the \<open>for_signature\<close> of an object that has one.\<close>

fun for_signature :: "interp \<Rightarrow> sval \<Rightarrow> string option" where
  "for_signature it (SLiteral s) = Some s"
| "for_signature it (SAttr s f) = Some f"
| "for_signature it (SFirst (x # xs)) = for_signature it x"
| "for_signature it SNull = Some []"
| "for_signature it (SObj n) = Some (it_sig it n)"
| "for_signature it v = None"

definition to_String_for_signature :: "interp \<Rightarrow> sval \<Rightarrow> subst_err + sval" where
  "to_String_for_signature it v =
     (case for_signature it v of Some s \<Rightarrow> Inr (SStr s) | None \<Rightarrow> to_String_for_subst it v)"

section \<open>Escaping\<close>

definition quote_spaces :: "string \<Rightarrow> string" where
  "quote_spaces arg =
     (if CHR '' '' \<in> set arg \<or> CHR 0x09 \<in> set arg then [CHR 0x22] @ arg @ [CHR 0x22] else arg)"

definition holder_escape :: "(string \<Rightarrow> string) \<Rightarrow> (string \<Rightarrow> string) \<Rightarrow> string \<Rightarrow> bool \<Rightarrow> string" where
  "holder_escape escape_func quote_func d literal =
     (if literal then escape_func d
      else if CHR '' '' \<in> set d \<or> CHR 0x09 \<in> set d then quote_func d
      else d)"

fun escape_one :: "(string \<Rightarrow> string) \<Rightarrow> sval \<Rightarrow> sval" where
  "escape_one f (SLiteral s) = SStr (f s)"
| "escape_one f (SAttr s g) = SStr (f s)"
| "escape_one f (SHolder s l) = SStr (holder_escape f quote_spaces s l)"
| "escape_one f SNull = SStr []"
| "escape_one f v = v"

definition escape_list :: "sval list \<Rightarrow> (string \<Rightarrow> string) \<Rightarrow> sval list" where
  "escape_list mylist escape_func = map (escape_one escape_func) mylist"

section \<open>Targets and sources\<close>

text \<open>\<open>NLWrapper\<close>: the list of proxies. That it is made when first used cannot be seen.\<close>

definition gen_nodelist :: "sval \<Rightarrow> (sval \<Rightarrow> sval) \<Rightarrow> sval list" where
  "gen_nodelist v f = map f (case v of SNone \<Rightarrow> [] | SList xs \<Rightarrow> xs | x \<Rightarrow> [x])"

definition subst_dict :: "interp \<Rightarrow> sval \<Rightarrow> sval \<Rightarrow> lvars" where
  "subst_dict it target source =
     (let tnl = gen_nodelist target (it_proxy it);
          snl = gen_nodelist source (\<lambda>x. it_proxy it (it_rfile it x));
          d = (if truthy target
               then [''TARGETS'' \<mapsto> SList tnl, ''TARGET'' \<mapsto> SFirst tnl,
                     ''CHANGED_TARGETS'' \<mapsto> SStr ''$TARGETS'', ''UNCHANGED_TARGETS'' \<mapsto> SStr ''$TARGETS'']
               else [''TARGETS'' \<mapsto> SNull, ''TARGET'' \<mapsto> SNull])
      in if truthy source
         then d(''SOURCES'' \<mapsto> SList snl, ''SOURCE'' \<mapsto> SFirst snl,
                ''CHANGED_SOURCES'' \<mapsto> SStr ''$SOURCES'', ''UNCHANGED_SOURCES'' \<mapsto> SStr ''$SOURCES'')
         else d(''SOURCES'' \<mapsto> SNull, ''SOURCE'' \<mapsto> SNull))"

section \<open>Tokens\<close>

text \<open>
  How many characters \<open>_dollar_exps\<close> matches at the beginning: \<open>$$\<close>, \<open>$(\<close>, \<open>$)\<close>, a name that
  may have dots, or anything in braces.
\<close>

fun match_dollar :: "string \<Rightarrow> nat" where
  "match_dollar (c # d # r) =
     (if c \<noteq> CHR ''$'' then 0
      else if d \<in> {CHR ''$'', CHR ''('', CHR '')''} then 2
      else if ident_start d then 2 + length (takeWhile (\<lambda>x. x = CHR ''.'' \<or> word_char x) r)
      else if d = CHR ''{'' then
        (let k = length (takeWhile (\<lambda>x. x \<noteq> CHR ''}'') r) in if k < length r then 3 + k else 0)
      else 0)"
| "match_dollar _ = 0"

lemma match_dollar_pos: "match_dollar s > 0 \<Longrightarrow> 2 \<le> match_dollar s"
  by (cases s rule: match_dollar.cases) (auto simp: Let_def split: if_splits)

text \<open>
  \<open>_separate_args.findall\<close>. Its alternatives cover every string, and those of its tokens that
  \<open>_dollar_exps\<close> matches are the matches of \<open>_dollar_exps\<close> in the string.
\<close>

definition word_part :: "char \<Rightarrow> bool" where
  "word_part c \<longleftrightarrow> \<not> is_space c \<and> c \<noteq> CHR ''$''"

function separate_args :: "string \<Rightarrow> string list" where
  "separate_args [] = []"
| "separate_args (c # r) =
     (if c = CHR ''$'' then
        (if match_dollar (c # r) = 0 then [c] # separate_args r
         else take (match_dollar (c # r)) (c # r) # separate_args (drop (match_dollar (c # r)) (c # r)))
      else if is_space c then (c # takeWhile is_space r) # separate_args (dropWhile is_space r)
      else (c # takeWhile word_part r) # separate_args (dropWhile word_part r))"
  by pat_completeness auto
termination
proof (relation "measure length", goal_cases)
  case (3 c r)
  then have "2 \<le> match_dollar (c # r)" using match_dollar_pos by auto
  then show ?case by simp
qed (auto simp: less_Suc_eq_le length_dropWhile_le)

definition is_dollar :: "string \<Rightarrow> bool" where
  "is_dollar a \<longleftrightarrow> match_dollar a \<noteq> 0"

lemma concat_separate: "concat (separate_args s) = s"
proof (induction s rule: separate_args.induct)
  case (2 c r)
  then show ?case
    by (simp del: drop.simps take.simps match_dollar.simps)
qed simp

section \<open>Expanding a token\<close>

datatype mode = SUBST_CMD | SUBST_RAW | SUBST_SIG

text \<open>
  What a \<open>StringSubber\<close> or \<open>ListSubber\<close> is made with, and the module's
  \<open>AllowableExceptions\<close>. \<open>sb_gvars\<close> is the environment's dictionary, to which \<open>__builtins__\<close> is
  added for the time of the call.
\<close>

record subber =
  sb_mode :: mode
  sb_conv :: "sval \<Rightarrow> subst_err + sval"
  sb_gvars :: lvars
  sb_allow :: "string set"

definition allowable :: "string set" where
  "allowable = {''IndexError'', ''NameError''}"

definition SetAllowableExceptions :: "string list \<Rightarrow> string set" where
  "SetAllowableExceptions excepts = set (filter (\<lambda>e. e \<noteq> []) excepts)"

definition strconv :: "interp \<Rightarrow> mode \<Rightarrow> sval \<Rightarrow> subst_err + sval" where
  "strconv it m = (if m = SUBST_SIG then to_String_for_signature it else to_String_for_subst it)"

definition raise_exception :: "string \<Rightarrow> string \<Rightarrow> sval option \<Rightarrow> string \<Rightarrow> subst_err" where
  "raise_exception name txt target s =
     (let msg = name @ '' `'' @ txt @ [CHR 0x27] @ '' trying to evaluate `'' @ s @ [CHR 0x27]
      in case target of
           None \<Rightarrow> Raised ''KeyError'' ''TARGETS''
         | Some t \<Rightarrow> if truthy t then BuildErr msg else UserErr msg)"

text \<open>
  \<open>eval(key, gvars, lvars)\<close> of the name of a variable finds it in \<open>lvars\<close> or in \<open>gvars\<close>. Python's
  reserved words are no names of variables.
\<close>

definition reserved :: "string list" where
  "reserved = [''and'', ''as'', ''assert'', ''break'', ''class'', ''continue'', ''def'', ''del'',
     ''elif'', ''else'', ''except'', ''exec'', ''finally'', ''for'', ''from'', ''global'', ''if'',
     ''import'', ''in'', ''is'', ''lambda'', ''not'', ''or'', ''pass'', ''print'', ''raise'',
     ''return'', ''try'', ''while'', ''with'', ''yield'', ''None'']"

definition is_name :: "string \<Rightarrow> bool" where
  "is_name key \<longleftrightarrow> is_ident key \<and> key \<notin> set reserved"

definition eval_key :: "interp \<Rightarrow> lvars \<Rightarrow> lvars \<Rightarrow> string \<Rightarrow> string \<times> string + sval" where
  "eval_key it gvars lv key =
     (if is_name key then
        (case lv key of Some v \<Rightarrow> Inr v
         | None \<Rightarrow> (case gvars key of Some v \<Rightarrow> Inr v | None \<Rightarrow> it_eval it key lv))
      else it_eval it key lv)"

text \<open>
  The value of a token other than \<open>$$\<close>, \<open>$(\<close> and \<open>$)\<close> with the variables its expansion is made
  with, the name just expanded being empty in them; \<open>None\<close> when the token expands to nothing.
  \<open>txt\<close> is the text of the \<open>NameError\<close>, which the two users of this code give differently.
\<close>

definition lookup_token ::
  "interp \<Rightarrow> subber \<Rightarrow> (string \<Rightarrow> string) \<Rightarrow> string \<Rightarrow> lvars \<Rightarrow> subst_err + (sval \<times> lvars) option" where
  "lookup_token it sb txt s lv =
     (let k0 = tl s;
          ev = (take 1 k0 = ''{'' \<or> CHR ''.'' \<in> set k0);
          key = (if take 1 k0 = ''{'' then butlast (tl k0) else k0);
          r = (if ev then eval_key it (sb_gvars sb) lv key
               else case lv key of Some v \<Rightarrow> Inr v
                    | None \<Rightarrow> (case sb_gvars sb key of Some v \<Rightarrow> Inr v
                                | None \<Rightarrow> Inl (''NameError'', txt key)))
      in case r of
           Inr v \<Rightarrow> Inr (Some (v, lv(hd (split_on CHR ''.'' key) \<mapsto> SStr [])))
         | Inl (name, t) \<Rightarrow>
             if name \<in> sb_allow sb then Inr None
             else Inl (raise_exception name t (lv ''TARGETS'') s))"

text \<open>A call of a callable with the target, the source and the mode; \<open>None\<close> stands for \<open>TypeError\<close>.\<close>

definition call_value :: "interp \<Rightarrow> subber \<Rightarrow> nat \<Rightarrow> lvars \<Rightarrow> subst_err + sval option" where
  "call_value it sb f lv =
     (case (lv ''TARGETS'', lv ''SOURCES'') of
        (Some t, Some s) \<Rightarrow>
          (case it_call it f t s (sb_mode sb \<noteq> SUBST_CMD) of
             Inr v \<Rightarrow> Inr (Some v)
           | Inl (name, txt) \<Rightarrow> if name = ''TypeError'' then Inr None else Inl (Raised name txt))
      | (None, _) \<Rightarrow> Inl (Raised ''KeyError'' ''TARGETS'')
      | _ \<Rightarrow> Inl (Raised ''KeyError'' ''SOURCES''))"

section \<open>scons_subst\<close>

text \<open>
  \<open>StringSubber.substitute\<close> with the \<open>expand\<close> it calls. A string is put together from its tokens,
  those that are not references as they are. A conversion that gives no string is a
  \<open>TypeError\<close>, as it may also come from inside: then every token is expanded and converted, and
  a single result is kept as the object it is. (\<open>re.sub\<close> leaves out a \<open>None\<close>.)
\<close>

definition one_or_text :: "interp \<Rightarrow> sval list \<Rightarrow> sval" where
  "one_or_text it rs = (case rs of [r] \<Rightarrow> r | _ \<Rightarrow> SStr (concat (map (str_of it) rs)))"

definition substitute ::
  "interp \<Rightarrow> subber \<Rightarrow> (sval \<Rightarrow> lvars \<Rightarrow> subst_err + sval) \<Rightarrow> sval \<Rightarrow> lvars \<Rightarrow> subst_err + sval" where
  "substitute it sb expand args lv =
     (case args of
        SStr s \<Rightarrow>
          (let token = (\<lambda>a. bind_result (expand (SStr a) lv) (sb_conv sb));
               slow = bind_result (map_result token (separate_args s)) (\<lambda>rs. Inr (one_or_text it rs))
           in case map_result (\<lambda>a. if is_dollar a then token a else Inr (SStr a)) (separate_args s) of
                Inr rs \<Rightarrow>
                  (case plain_strings (filter (\<lambda>r. r \<noteq> SNone) rs) of
                     Some ws \<Rightarrow> Inr (SStr (concat ws)) | None \<Rightarrow> slow)
              | Inl (Raised name t) \<Rightarrow> if name = ''TypeError'' then slow else Inl (Raised name t)
              | Inl e \<Rightarrow> Inl e)
      | _ \<Rightarrow> expand args lv)"

text \<open>\<open>StringSubber.expand\<close>: one level of it, \<open>ex\<close> standing for the levels below.\<close>

definition expand_string ::
  "interp \<Rightarrow> subber \<Rightarrow> (sval \<Rightarrow> lvars \<Rightarrow> subst_err + sval) \<Rightarrow> sval \<Rightarrow> string \<Rightarrow> lvars \<Rightarrow> subst_err + sval" where
  "expand_string it sb ex s t lv =
     (if length t < 2 \<or> hd t \<noteq> CHR ''$'' then Inr s
      else if t ! 1 = CHR ''$'' then Inr (SStr ''$'')
      else if t ! 1 \<in> {CHR ''('', CHR '')''} then Inr s
      else bind_result (lookup_token it sb (\<lambda>k. k) t lv) (\<lambda>r.
        case r of None \<Rightarrow> Inr (SStr []) | Some (v, lv') \<Rightarrow> substitute it sb ex v lv'))"

definition expand_step ::
  "interp \<Rightarrow> subber \<Rightarrow> (sval \<Rightarrow> lvars \<Rightarrow> subst_err + sval) \<Rightarrow> sval \<Rightarrow> lvars \<Rightarrow> subst_err + sval" where
  "expand_step it sb ex s lv =
     (case s of
        SStr t \<Rightarrow> expand_string it sb ex s t lv
      | SHolder t l \<Rightarrow> expand_string it sb ex s t lv
      | SList xs \<Rightarrow>
          bind_result (map_result (\<lambda>x. bind_result (substitute it sb ex x lv) (sb_conv sb)) xs)
            (\<lambda>ys. Inr (SList ys))
      | SFun f \<Rightarrow>
          bind_result (call_value it sb f lv) (\<lambda>r.
            case r of
              Some v \<Rightarrow> substitute it sb ex v lv
            | None \<Rightarrow> if sb_mode sb = SUBST_RAW then Inr s
                      else bind_result (sb_conv sb s) (\<lambda>v. substitute it sb ex v lv))
      | SNull \<Rightarrow> Inr (SStr [])
      | SNone \<Rightarrow> Inr (SStr [])
      | _ \<Rightarrow> Inr s)"

primrec expand :: "interp \<Rightarrow> subber \<Rightarrow> nat \<Rightarrow> sval \<Rightarrow> lvars \<Rightarrow> subst_err + sval" where
  "expand it sb 0 = (\<lambda>s lv. Inl TooDeep)"
| "expand it sb (Suc n) = expand_step it sb (expand it sb n)"

subsection \<open>What is done to the result\<close>

text \<open>\<open>_rm\<close> takes the markers out, \<open>_remove\<close> what is between them as well.\<close>

fun rm_markers :: "string \<Rightarrow> string" where
  "rm_markers (c # d # r) =
     (if c = CHR ''$'' \<and> d \<in> {CHR ''('', CHR '')''} then rm_markers r else c # rm_markers (d # r))"
| "rm_markers s = s"

fun after_close :: "string \<Rightarrow> string option" where
  "after_close [] = None"
| "after_close (c # r) =
     (if c \<noteq> CHR ''$'' then after_close r
      else case r of [] \<Rightarrow> None | d # r' \<Rightarrow> if d = CHR '')'' then Some r' else after_close r')"

lemma after_close_length: "after_close s = Some r \<Longrightarrow> length r < length s"
proof (induction s rule: after_close.induct)
  case (2 c r')
  then show ?case by (auto split: if_splits list.splits)
qed simp

function rm_marked :: "string \<Rightarrow> string" where
  "rm_marked [] = []"
| "rm_marked (c # r) =
     (case (if c = CHR ''$'' \<and> take 1 r = ''('' then after_close (tl r) else None) of
        Some r' \<Rightarrow> rm_marked r' | None \<Rightarrow> c # rm_marked r)"
  by pat_completeness auto
termination
proof (relation "measure length", goal_cases)
  case (3 c r r')
  then have "length r' < length (tl r)" using after_close_length by (metis option.distinct(1))
  then show ?case by simp
qed simp_all

text \<open>
  \<open>_space_sep\<close>: a run of spaces and tabs becomes one space, unless a closing brace comes after
  it before any opening one.
\<close>

definition blank :: "char \<Rightarrow> bool" where
  "blank c \<longleftrightarrow> c = CHR '' '' \<or> c = CHR 0x09"

definition closes_brace :: "string \<Rightarrow> bool" where
  "closes_brace s \<longleftrightarrow>
     take 1 (dropWhile (\<lambda>c. c \<noteq> CHR ''{'' \<and> c \<noteq> CHR ''}'') s) = ''}''"

function space_sep :: "string \<Rightarrow> string" where
  "space_sep [] = []"
| "space_sep (c # r) =
     (if blank c then
        (if closes_brace (dropWhile blank r) then c # takeWhile blank r else '' '')
          @ space_sep (dropWhile blank r)
      else c # space_sep r)"
  by pat_completeness auto
termination by (relation "measure length") (auto simp: less_Suc_eq_le length_dropWhile_le)

definition strip :: "string \<Rightarrow> string" where
  "strip s = rstrip (dropWhile is_space s)"

definition clean_string :: "mode \<Rightarrow> string \<Rightarrow> string" where
  "clean_string m s =
     (case m of SUBST_CMD \<Rightarrow> strip (space_sep (rm_markers s))
      | SUBST_RAW \<Rightarrow> s
      | SUBST_SIG \<Rightarrow> strip (space_sep (rm_marked s)))"

text \<open>\<open>_rm_list\<close> and \<open>_remove_list\<close>, of the elements of a list.\<close>

definition is_marker :: "string \<Rightarrow> sval \<Rightarrow> bool" where
  "is_marker m x \<longleftrightarrow> (case x of SStr s \<Rightarrow> s = m | SHolder s l \<Rightarrow> s = m | _ \<Rightarrow> False)"

definition rm_list :: "sval list \<Rightarrow> sval list" where
  "rm_list xs = filter (\<lambda>x. \<not> is_marker ''$('' x \<and> \<not> is_marker ''$)'' x) xs"

fun remove_list :: "bool \<Rightarrow> sval list \<Rightarrow> sval list" where
  "remove_list keep [] = []"
| "remove_list keep (x # xs) =
     (if is_marker ''$('' x then remove_list False xs
      else if is_marker ''$)'' x then remove_list True xs
      else (if keep then [x] else []) @ remove_list keep xs)"

definition clean_list :: "mode \<Rightarrow> sval list \<Rightarrow> sval list" where
  "clean_list m xs =
     (case m of SUBST_CMD \<Rightarrow> rm_list xs | SUBST_RAW \<Rightarrow> xs | SUBST_SIG \<Rightarrow> remove_list True xs)"

text \<open>A pattern cannot be applied to a \<open>CmdStringHolder\<close>.\<close>

definition clean_result :: "mode \<Rightarrow> sval \<Rightarrow> subst_err + sval" where
  "clean_result m r =
     (case r of
        SStr s \<Rightarrow> Inr (SStr (clean_string m s))
      | SHolder s l \<Rightarrow> if m = SUBST_RAW then Inr r else Inl type_error
      | SList xs \<Rightarrow> Inr (SList (clean_list m xs))
      | _ \<Rightarrow> Inr r)"

text \<open>The variables an expansion starts with.\<close>

definition start_vars :: "interp \<Rightarrow> sval \<Rightarrow> sval \<Rightarrow> lvars \<Rightarrow> lvars" where
  "start_vars it target source lv =
     (if lv ''TARGET'' = None then lv ++ subst_dict it target source else lv)"

definition scons_subst ::
  "interp \<Rightarrow> subber \<Rightarrow> nat \<Rightarrow> sval \<Rightarrow> sval \<Rightarrow> sval \<Rightarrow> lvars \<Rightarrow> subst_err + sval" where
  "scons_subst it sb n s target source lv =
     (case s of
        SStr t \<Rightarrow>
          if CHR ''$'' \<notin> set t then Inr s
          else bind_result (substitute it sb (expand it sb n) s (start_vars it target source lv))
                 (clean_result (sb_mode sb))
      | _ \<Rightarrow> bind_result (substitute it sb (expand it sb n) s (start_vars it target source lv))
                 (clean_result (sb_mode sb)))"

section \<open>scons_subst_list\<close>

text \<open>
  The state of a \<open>ListSubber\<close>: the lines of words gathered, where the next word goes (\<open>append\<close>
  is \<open>add_new_word\<close> or \<open>add_to_current_word\<close>), and \<open>in_strip\<close>.
\<close>

record list_state =
  ls_lines :: "sval list list"
  ls_new :: bool
  ls_strip :: bool

definition next_word :: "list_state \<Rightarrow> list_state" where
  "next_word st = st\<lparr>ls_new := True\<rparr>"

definition this_word :: "list_state \<Rightarrow> list_state" where
  "this_word st = st\<lparr>ls_new := False\<rparr>"

definition next_line :: "list_state \<Rightarrow> list_state" where
  "next_line st = next_word (st\<lparr>ls_lines := ls_lines st @ [[]]\<rparr>)"

fun literal :: "interp \<Rightarrow> sval \<Rightarrow> bool" where
  "literal it (SHolder s l) = l"
| "literal it (SLiteral s) = True"
| "literal it (SAttr s f) = True"
| "literal it (SFirst (x # xs)) = literal it x"
| "literal it (SObj n) = it_lit it n"
| "literal it v = False"

definition hold :: "interp \<Rightarrow> bool \<Rightarrow> sval \<Rightarrow> sval" where
  "hold it l y = (if is_string y then SHolder (str_of it y) l else y)"

definition on_last_line :: "(sval list \<Rightarrow> sval list) \<Rightarrow> list_state \<Rightarrow> list_state" where
  "on_last_line f st = st\<lparr>ls_lines := butlast (ls_lines st) @ [f (last (ls_lines st))]\<rparr>"

definition stripped :: "subber \<Rightarrow> list_state \<Rightarrow> bool" where
  "stripped sb st \<longleftrightarrow> ls_strip st \<and> sb_mode sb = SUBST_SIG"

definition add_new_word :: "interp \<Rightarrow> subber \<Rightarrow> sval \<Rightarrow> list_state \<Rightarrow> subst_err + list_state" where
  "add_new_word it sb x st =
     (if stripped sb st then Inr (this_word st)
      else bind_result (sb_conv sb x) (\<lambda>y.
        Inr (this_word (on_last_line (\<lambda>l. l @ [hold it (literal it x) y]) st))))"

text \<open>
  Appending to a word that ends with a redirection character starts a new word. Objects that are
  not strings cannot be added to.
\<close>

definition add_to_current_word :: "interp \<Rightarrow> subber \<Rightarrow> sval \<Rightarrow> list_state \<Rightarrow> subst_err + list_state" where
  "add_to_current_word it sb x st =
     (if stripped sb st then Inr st
      else if last (ls_lines st) = [] then add_new_word it sb x st
      else
        (let w = last (last (ls_lines st)); t = str_of it w in
         if t \<noteq> [] \<and> last t \<in> {CHR ''<'', CHR ''>'', CHR ''|''} then add_new_word it sb x st
         else
           (case w of
              SHolder d l \<Rightarrow>
                bind_result (sb_conv sb (SHolder (d @ str_of it x) False)) (\<lambda>y.
                  Inr (on_last_line (\<lambda>l. butlast l @ [hold it False y]) st))
            | _ \<Rightarrow> Inl type_error)))"

definition append_word :: "interp \<Rightarrow> subber \<Rightarrow> sval \<Rightarrow> list_state \<Rightarrow> subst_err + list_state" where
  "append_word it sb x st =
     (if ls_new st then add_new_word it sb x st else add_to_current_word it sb x st)"

definition add_strip :: "interp \<Rightarrow> subber \<Rightarrow> sval \<Rightarrow> list_state \<Rightarrow> subst_err + list_state" where
  "add_strip it sb x st = (if sb_mode sb = SUBST_RAW then append_word it sb x st else Inr st)"

definition open_strip :: "interp \<Rightarrow> subber \<Rightarrow> sval \<Rightarrow> list_state \<Rightarrow> subst_err + list_state" where
  "open_strip it sb x st = bind_result (add_strip it sb x st) (\<lambda>st'. Inr (st'\<lparr>ls_strip := True\<rparr>))"

definition close_strip :: "interp \<Rightarrow> subber \<Rightarrow> sval \<Rightarrow> list_state \<Rightarrow> subst_err + list_state" where
  "close_strip it sb x st = bind_result (add_strip it sb x st) (\<lambda>st'. Inr (st'\<lparr>ls_strip := False\<rparr>))"

fun fold_result :: "('a \<Rightarrow> 's \<Rightarrow> 'e + 's) \<Rightarrow> 'a list \<Rightarrow> 's \<Rightarrow> 'e + 's" where
  "fold_result f [] st = Inr st"
| "fold_result f (x # xs) st = bind_result (f x st) (fold_result f xs)"

type_synonym list_expand = "sval \<Rightarrow> lvars \<Rightarrow> bool \<Rightarrow> list_state \<Rightarrow> subst_err + list_state"

definition substitute_list :: "interp \<Rightarrow> subber \<Rightarrow> list_expand \<Rightarrow> list_expand" where
  "substitute_list it sb ex args lv within_list st =
     (case args of
        SStr s \<Rightarrow>
          fold_result (\<lambda>a st.
            if is_space (hd a) then
              (if CHR 0x0A \<in> set a then Inr (next_line st)
               else if within_list then append_word it sb (SStr a) st
               else Inr (next_word st))
            else ex (SStr a) lv within_list st) (separate_args s) st
      | _ \<Rightarrow> ex args lv within_list st)"

definition expand_list_string :: "interp \<Rightarrow> subber \<Rightarrow> list_expand \<Rightarrow> sval \<Rightarrow> string \<Rightarrow> lvars \<Rightarrow>
    list_state \<Rightarrow> subst_err + list_state" where
  "expand_list_string it sb ex s t lv st =
     (if length t < 2 \<or> hd t \<noteq> CHR ''$'' then append_word it sb s st
      else if t ! 1 = CHR ''$'' then append_word it sb (SStr ''$'') st
      else if t ! 1 = CHR ''('' then open_strip it sb (SStr ''$('') st
      else if t ! 1 = CHR '')'' then close_strip it sb (SStr ''$)'') st
      else bind_result (lookup_token it sb (\<lambda>k. []) t lv) (\<lambda>r.
        case r of
          None \<Rightarrow> Inr st
        | Some (v, lv') \<Rightarrow>
            bind_result (substitute_list it sb ex v lv' False st) (\<lambda>st'. Inr (this_word st'))))"

definition expand_list_step :: "interp \<Rightarrow> subber \<Rightarrow> list_expand \<Rightarrow> list_expand" where
  "expand_list_step it sb ex s lv within_list st =
     (case s of
        SStr t \<Rightarrow> expand_list_string it sb ex s t lv st
      | SHolder t l \<Rightarrow> expand_list_string it sb ex s t lv st
      | SList xs \<Rightarrow>
          fold_result (\<lambda>x st. bind_result (substitute_list it sb ex x lv True st)
            (\<lambda>st'. Inr (next_word st'))) xs st
      | SFun f \<Rightarrow>
          bind_result (call_value it sb f lv) (\<lambda>r.
            case r of
              Some v \<Rightarrow> substitute_list it sb ex v lv within_list st
            | None \<Rightarrow> if sb_mode sb = SUBST_RAW then append_word it sb s st
                      else bind_result (sb_conv sb s) (\<lambda>v. substitute_list it sb ex v lv within_list st))
      | SNull \<Rightarrow> Inr st
      | SNone \<Rightarrow> Inr (this_word st)
      | _ \<Rightarrow> append_word it sb s st)"

primrec expand_list :: "interp \<Rightarrow> subber \<Rightarrow> nat \<Rightarrow> list_expand" where
  "expand_list it sb 0 = (\<lambda>s lv within_list st. Inl TooDeep)"
| "expand_list it sb (Suc n) = expand_list_step it sb (expand_list it sb n)"

definition list_init :: list_state where
  "list_init = next_line \<lparr>ls_lines = [], ls_new = True, ls_strip = False\<rparr>"

definition scons_subst_list ::
  "interp \<Rightarrow> subber \<Rightarrow> nat \<Rightarrow> sval \<Rightarrow> sval \<Rightarrow> sval \<Rightarrow> lvars \<Rightarrow> subst_err + sval list list" where
  "scons_subst_list it sb n s target source lv =
     bind_result (substitute_list it sb (expand_list it sb n) s (start_vars it target source lv) False list_init)
       (\<lambda>st. Inr (ls_lines st))"

section \<open>scons_subst_once\<close>

text \<open>One variable, not recursively; \<open>val\<close> is \<open>env.get(key, '')\<close>.\<close>

definition once_text :: "interp \<Rightarrow> sval \<Rightarrow> string" where
  "once_text it v = (case v of SList xs \<Rightarrow> join_with '' '' (map (str_of it) xs) | _ \<Rightarrow> str_of it v)"

definition refers_to :: "string \<Rightarrow> string \<Rightarrow> bool" where
  "refers_to key a \<longleftrightarrow> a = ''$'' @ key \<or> a = ''${'' @ key @ ''}''"

definition once_string :: "interp \<Rightarrow> string \<Rightarrow> sval \<Rightarrow> string \<Rightarrow> string" where
  "once_string it key val s =
     concat (map (\<lambda>a. if is_dollar a \<and> refers_to key a then once_text it val else a) (separate_args s))"

text \<open>The pattern of the tokens cannot be applied to a \<open>CmdStringHolder\<close>.\<close>

definition once_elements :: "interp \<Rightarrow> string \<Rightarrow> sval \<Rightarrow> sval \<Rightarrow> subst_err + sval list" where
  "once_elements it key val arg =
     (if is_string arg \<and> refers_to key (str_of it arg) then
        Inr (case val of SList xs \<Rightarrow> xs | _ \<Rightarrow> [val])
      else (case arg of
              SStr t \<Rightarrow> Inr [SStr (once_string it key val t)]
            | SHolder t l \<Rightarrow> Inl type_error
            | _ \<Rightarrow> Inr [arg]))"

definition scons_subst_once :: "interp \<Rightarrow> sval \<Rightarrow> lvars \<Rightarrow> string \<Rightarrow> subst_err + sval" where
  "scons_subst_once it s env key =
     (let val = (case env key of Some v \<Rightarrow> v | None \<Rightarrow> SStr [])
      in case s of
           SStr t \<Rightarrow> Inr (if CHR ''$'' \<notin> set t then s else SStr (once_string it key val t))
         | SHolder t l \<Rightarrow> Inl type_error
         | SList xs \<Rightarrow> bind_result (map_result (once_elements it key val) xs) (\<lambda>ys. Inr (SList (concat ys)))
         | _ \<Rightarrow> Inr s)"

end
