(* ===== verification/Expansion.thy ===== *)
theory Expansion
  imports Subst
begin

text \<open>
  Properties of \<open>Subst\<close>: an expansion of plain values ends, doubled dollars round-trip, marked
  text does not reach a signature, list values keep their words, and an empty variable glues
  words together.
\<close>

section \<open>Expansions of plain values\<close>

text \<open>
  A token is simple when it is no reference or refers to a variable by its name; a value is plain
  when it has simple tokens only and no callables.
\<close>

definition simple_token :: "string \<Rightarrow> bool" where
  "simple_token a \<longleftrightarrow> length a < 2 \<or> hd a \<noteq> CHR ''$'' \<or> a ! 1 \<in> {CHR ''$'', CHR ''('', CHR '')''} \<or>
     is_ident (tl a) \<or> take 1 (tl a) = ''{'' \<and> is_name (butlast (tl (tl a)))"

fun plain :: "sval \<Rightarrow> bool" where
  "plain (SStr s) = list_all simple_token (separate_args s)"
| "plain (SHolder s l) = simple_token s"
| "plain (SList xs) = list_all plain xs"
| "plain (SFun f) = False"
| "plain v = True"

fun depth :: "sval \<Rightarrow> nat" where
  "depth (SList xs) = Suc (sum_list (map depth xs))"
| "depth v = 0"

lemma depth_elem: "x \<in> set xs \<Longrightarrow> depth x < depth (SList xs)"
  by (simp add: le_imp_less_Suc member_le_sum_list)

text \<open>The value of a variable, and the variables that are not yet empty.\<close>

definition var_value :: "lvars \<Rightarrow> lvars \<Rightarrow> string \<Rightarrow> sval option" where
  "var_value gv lv x = (case lv x of Some v \<Rightarrow> Some v | None \<Rightarrow> gv x)"

definition live :: "lvars \<Rightarrow> lvars \<Rightarrow> string set" where
  "live gv lv = {x. \<exists>v. var_value gv lv x = Some v \<and> v \<noteq> SStr []}"

definition plain_vars :: "nat \<Rightarrow> lvars \<Rightarrow> lvars \<Rightarrow> bool" where
  "plain_vars d gv lv \<longleftrightarrow> (\<forall>x v. var_value gv lv x = Some v \<longrightarrow> plain v \<and> depth v \<le> d)"

lemma plain_vars_blank: "plain_vars d gv lv \<Longrightarrow> plain_vars d gv (lv(x \<mapsto> SStr []))"
  by (auto simp: plain_vars_def var_value_def)

lemma live_blank: "live gv (lv(x \<mapsto> SStr [])) = live gv lv - {x}"
  by (auto simp: live_def var_value_def)

subsection \<open>Where a deep expansion comes from\<close>

lemma bind_too_deep:
  "bind_result r f = Inl TooDeep \<longleftrightarrow> r = Inl TooDeep \<or> (\<exists>x. r = Inr x \<and> f x = Inl TooDeep)"
  by (cases r) auto

lemma map_too_deep: "map_result f xs = Inl TooDeep \<Longrightarrow> \<exists>x\<in>set xs. f x = Inl TooDeep"
  by (induction xs) (auto simp: bind_too_deep)

lemma conv_not_deep [simp]: "strconv it m v \<noteq> Inl TooDeep"
proof -
  have "to_String_for_subst it v \<noteq> Inl TooDeep"
    by (cases v) (auto simp: type_error_def split: option.splits)
  then show ?thesis
    by (auto simp: strconv_def to_String_for_signature_def split: option.splits)
qed

lemma substitute_too_deep:
  assumes "sb_conv sb = strconv it m" and "substitute it sb ex args lv = Inl TooDeep"
  shows "(\<exists>s a. args = SStr s \<and> a \<in> set (separate_args s) \<and> ex (SStr a) lv = Inl TooDeep) \<or>
    (\<nexists>s. args = SStr s) \<and> ex args lv = Inl TooDeep"
proof (cases args)
  case (SStr s)
  let ?token = "\<lambda>a. bind_result (ex (SStr a) lv) (sb_conv sb)"
  have token: "?token a = Inl TooDeep \<Longrightarrow> ex (SStr a) lv = Inl TooDeep" for a
    using assms(1) by (auto simp: bind_too_deep)
  have "map_result ?token (separate_args s) = Inl TooDeep \<or>
      map_result (\<lambda>a. if is_dollar a then ?token a else Inr (SStr a)) (separate_args s) = Inl TooDeep"
    using assms(2) SStr
    by (auto simp: substitute_def bind_too_deep Let_def split: sum.splits option.splits subst_err.splits
        if_splits)
  then obtain a where "a \<in> set (separate_args s)" "?token a = Inl TooDeep"
    by (auto dest!: map_too_deep split: if_splits)
  then show ?thesis using SStr token by blast
qed (use assms(2) in \<open>auto simp: substitute_def\<close>)

lemma ident_no_dot:
  assumes "is_ident k"
  shows "hd (split_on CHR ''.'' k) = k" and "CHR ''.'' \<notin> set k" and "take 1 k \<noteq> ''{''"
proof -
  have "\<not> word_char CHR ''.''" by (simp add: word_char_def ident_start_def)
  then show no: "CHR ''.'' \<notin> set k" using ident_word_chars [OF assms] by metis
  then have "split_on CHR ''.'' k = [k]" using split_join [of "[k]" "CHR ''.''"] by simp
  then show "hd (split_on CHR ''.'' k) = k" by simp
  show "take 1 k \<noteq> ''{''"
    using ident_word_chars [OF assms] not_word_char by (cases k) auto
qed


lemma lookup_not_deep: "lookup_token it sb txt a lv \<noteq> Inl TooDeep"
  by (auto simp: lookup_token_def raise_exception_def Let_def split: option.splits sum.splits if_splits)

subsection \<open>What Python's own names stand for\<close>

text \<open>
  A name that is no variable may be one of Python's own (\<open>len\<close>, \<open>dict\<close>), as \<open>__builtins__\<close> is among
  the globals of \<open>eval\<close>. What such a name stands for is inert: an object or a text without dollars,
  or a callable that refuses the keyword arguments \<open>expand\<close> calls it with or makes an object of them.
\<close>

definition inert :: "interp \<Rightarrow> sval \<Rightarrow> bool" where
  "inert it v \<longleftrightarrow>
     (case v of
        SStr s \<Rightarrow> CHR ''$'' \<notin> set s
      | SFun f \<Rightarrow> CHR ''$'' \<notin> set (it_fstr it f) \<and> (\<forall>t s b w. it_call it f t s b = Inr w \<longrightarrow> (\<exists>n. w = SObj n))
      | SObj n \<Rightarrow> True
      | SNone \<Rightarrow> True
      | _ \<Rightarrow> False)"

definition python_names :: "interp \<Rightarrow> bool" where
  "python_names it \<longleftrightarrow> (\<forall>k lv v. is_name k \<longrightarrow> it_eval it k lv = Inr v \<longrightarrow> inert it v)"

lemma map_result_pure: "(\<And>x. x \<in> set xs \<Longrightarrow> f x = Inr (g x)) \<Longrightarrow> map_result f xs = Inr (map g xs)"
  by (induction xs) auto

lemma plain_strings_map [simp]: "plain_strings (map (\<lambda>a. SStr (t a)) xs) = Some (map t xs)"
  by (induction xs) auto

lemma no_dollar_token: "CHR ''$'' \<notin> set s \<Longrightarrow> a \<in> set (separate_args s) \<Longrightarrow> \<not> is_dollar a"
proof -
  assume s: "CHR ''$'' \<notin> set s" and a: "a \<in> set (separate_args s)"
  have "set a \<subseteq> set s" using a by (metis concat_separate UN_upper set_concat)
  then have "CHR ''$'' \<notin> set a" using s by blast
  then show ?thesis by (cases a rule: match_dollar.cases) (auto simp: is_dollar_def)
qed

lemma substitute_no_dollar:
  assumes "CHR ''$'' \<notin> set s"
  shows "substitute it sb ex (SStr s) lv = Inr (SStr s)"
proof -
  have "map_result (\<lambda>a. if is_dollar a then bind_result (ex (SStr a) lv) (sb_conv sb) else Inr (SStr a)) (separate_args s) =
      Inr (map (\<lambda>a. SStr a) (separate_args s))"
    by (rule map_result_pure) (simp add: no_dollar_token [OF assms])
  moreover have "filter (\<lambda>r. r \<noteq> SNone) (map (\<lambda>a. SStr a) xs) = map (\<lambda>a. SStr a) xs" for xs by (induction xs) auto
  ultimately show ?thesis using plain_strings_map [of "\<lambda>a. a"] concat_separate [of s]
    by (simp add: substitute_def Let_def)
qed

lemma inert_ends:
  assumes conv: "sb_conv sb = strconv it m" and "inert it v"
  shows "substitute it sb (expand it sb (Suc (Suc n))) v lv \<noteq> Inl TooDeep"
proof (cases v)
  case (SStr s)
  then show ?thesis using assms(2) substitute_no_dollar by (simp add: inert_def del: expand.simps)
next
  case (SFun f)
  have shown: "strconv it m (SFun f) = Inr (SStr (it_fstr it f))"
    by (simp add: strconv_def to_String_for_signature_def)
  have obj: "substitute it sb (expand it sb (Suc n)) (SObj k) lv = Inr (SObj k)" for k
    by (simp add: substitute_def expand_step_def)
  have "call_value it sb f lv \<noteq> Inl TooDeep" "call_value it sb f lv = Inr (Some w) \<Longrightarrow> \<exists>k. w = SObj k" for w
    using assms(2) SFun by (auto simp: call_value_def inert_def split: option.splits sum.splits prod.splits if_splits)
  moreover have "substitute it sb (expand it sb (Suc n)) (SStr (it_fstr it f)) lv \<noteq> Inl TooDeep"
    using assms(2) SFun substitute_no_dollar by (simp add: inert_def del: expand.simps)
  moreover have "substitute it sb (expand it sb (Suc (Suc n))) v lv = expand_step it sb (expand it sb (Suc n)) v lv"
    using SFun by (simp add: substitute_def)
  ultimately show ?thesis using obj shown conv SFun
    by (auto simp: expand_step_def bind_too_deep simp del: expand.simps split: option.splits)
qed (use assms(2) in \<open>simp_all add: inert_def substitute_def expand_step_def\<close>)

text \<open>
  A reference by name finds the value of a variable, whose name is empty below, or what Python's own
  name stands for.
\<close>

lemma lookup_simple:
  assumes "simple_token a" and "length a \<ge> 2" and "hd a = CHR ''$''"
    and "a ! 1 \<notin> {CHR ''$'', CHR ''('', CHR '')''}" and names: "python_names it"
    and look: "lookup_token it sb txt a lv = Inr (Some (v, lv'))"
  shows "(\<exists>x. var_value (sb_gvars sb) lv x = Some v \<and> lv' = lv(x \<mapsto> SStr [])) \<or> inert it v"
proof -
  have "is_ident (tl a) \<or> take 1 (tl a) = ''{'' \<and> is_name (butlast (tl (tl a)))"
    using assms(1-4) by (auto simp: simple_token_def)
  then show ?thesis
  proof
    assume id: "is_ident (tl a)"
    then have "var_value (sb_gvars sb) lv (tl a) = Some v \<and> lv' = lv(tl a \<mapsto> SStr [])"
      using look ident_no_dot [OF id]
      by (auto simp: lookup_token_def var_value_def Let_def split: option.splits sum.splits if_splits)
    then show ?thesis by blast
  next
    assume br: "take 1 (tl a) = ''{'' \<and> is_name (butlast (tl (tl a)))"
    let ?k = "butlast (tl (tl a))"
    have id: "is_ident ?k" using br by (simp add: is_name_def)
    have "eval_key it (sb_gvars sb) lv ?k = Inr v \<and> lv' = lv(?k \<mapsto> SStr [])"
      using look br ident_no_dot(1) [OF id] by (auto simp: lookup_token_def Let_def split: sum.splits if_splits)
    moreover have "it_eval it ?k lv = Inr v \<Longrightarrow> inert it v" using names br by (auto simp: python_names_def)
    ultimately show ?thesis using br
      by (auto simp: eval_key_def var_value_def split: option.splits intro: exI [of _ ?k])
  qed
qed

subsection \<open>The bound\<close>

text \<open>What \<open>expand\<close> is called with: a token, or a plain value that is no \<open>str\<close>.\<close>

definition expandable :: "sval \<Rightarrow> bool" where
  "expandable s \<longleftrightarrow> (case s of SStr a \<Rightarrow> simple_token a | _ \<Rightarrow> plain s)"

lemma substitute_bound:
  assumes "sb_conv sb = strconv it m" and "plain args" and "depth args + c < n"
    and ex: "\<And>s. expandable s \<Longrightarrow> depth s + c < n \<Longrightarrow> ex s lv \<noteq> Inl TooDeep"
  shows "substitute it sb ex args lv \<noteq> Inl TooDeep"
proof
  assume "substitute it sb ex args lv = Inl TooDeep"
  from substitute_too_deep [OF assms(1) this] show False
  proof
    assume "\<exists>s a. args = SStr s \<and> a \<in> set (separate_args s) \<and> ex (SStr a) lv = Inl TooDeep"
    then show False using assms(2,3) ex by (fastforce simp: expandable_def list_all_iff)
  next
    assume "(\<nexists>s. args = SStr s) \<and> ex args lv = Inl TooDeep"
    moreover then have "expandable args" using assms(2) by (cases args) (auto simp: expandable_def)
    ultimately show False using assms(3) ex by auto
  qed
qed

lemma expand_bound:
  assumes conv: "sb_conv sb = strconv it m" and names: "python_names it"
  shows "expandable s \<Longrightarrow> plain_vars d (sb_gvars sb) lv \<Longrightarrow> finite (live (sb_gvars sb) lv) \<Longrightarrow>
    depth s + (card (live (sb_gvars sb) lv) * (d + 2) + 2) < n \<Longrightarrow> expand it sb n s lv \<noteq> Inl TooDeep"
proof (induction n arbitrary: s lv)
  case (Suc n)
  let ?live = "live (sb_gvars sb)"
  have below: "substitute it sb (expand it sb n) v lv' \<noteq> Inl TooDeep"
    if "plain v" "plain_vars d (sb_gvars sb) lv'" "finite (?live lv')"
      "depth v + (card (?live lv') * (d + 2) + 2) < n" for v lv'
    by (rule substitute_bound [OF conv that(1,4)]) (use Suc.IH that(2,3) in blast)
  have "2 \<le> n" using Suc.prems(4) by simp
  then obtain k where n: "n = Suc (Suc k)" by (metis add_2_eq_Suc le_Suc_ex)
  have token: "expand_string it sb (expand it sb n) s a lv \<noteq> Inl TooDeep" if sim: "simple_token a" for a
  proof
    assume deep: "expand_string it sb (expand it sb n) s a lv = Inl TooDeep"
    then obtain v lv' where ref: "length a \<ge> 2" "hd a = CHR ''$''" "a ! 1 \<notin> {CHR ''$'', CHR ''('', CHR '')''}"
        and look: "lookup_token it sb (\<lambda>k. k) a lv = Inr (Some (v, lv'))"
        and sub: "substitute it sb (expand it sb n) v lv' = Inl TooDeep"
      using lookup_not_deep by (auto simp: expand_string_def bind_too_deep split: if_splits option.splits)
    have "\<not> inert it v" using inert_ends [OF conv, of v k lv'] sub n by blast
    then obtain x where x: "var_value (sb_gvars sb) lv x = Some v" "lv' = lv(x \<mapsto> SStr [])"
      using lookup_simple [OF sim ref names look] by auto
    show False
    proof (cases "v = SStr []")
      case True
      then show False using sub by (simp add: substitute_def)
    next
      case False
      then have "x \<in> ?live lv" using x by (auto simp: live_def)
      then have "Suc (card (?live lv')) = card (?live lv)"
        unfolding x(2) live_blank using Suc.prems(3) by (intro card_Suc_Diff1)
      then have "card (?live lv) * (d + 2) = d + 2 + card (?live lv') * (d + 2)" by (metis mult_Suc)
      moreover have "plain v" "depth v \<le> d" using Suc.prems(2) x by (auto simp: plain_vars_def)
      ultimately show False
        using below [of v lv'] sub Suc.prems(2-4) by (simp add: x(2) live_blank plain_vars_blank)
    qed
  qed
  show ?case
  proof (cases s)
    case (SList xs)
    have "substitute it sb (expand it sb n) x lv \<noteq> Inl TooDeep" if "x \<in> set xs" for x
      using below [of x lv] that Suc.prems depth_elem [OF that] SList
      by (simp add: expandable_def list_all_iff)
    then show ?thesis using SList conv
      by (auto simp: expand_step_def bind_too_deep dest!: map_too_deep)
  qed (use Suc.prems(1) token in \<open>auto simp: expand_step_def expandable_def\<close>)
qed simp

section \<open>Strings whose tokens have known texts\<close>

text \<open>What a token contributes to the expansion of a string.\<close>

definition token_value :: "interp \<Rightarrow> subber \<Rightarrow> nat \<Rightarrow> lvars \<Rightarrow> string \<Rightarrow> subst_err + sval" where
  "token_value it sb n lv a =
     (if is_dollar a then bind_result (expand it sb n (SStr a) lv) (sb_conv sb) else Inr (SStr a))"

lemma substitute_tokens:
  assumes "\<And>a. a \<in> set (separate_args s) \<Longrightarrow> token_value it sb n lv a = Inr (SStr (t a))"
  shows "substitute it sb (expand it sb n) (SStr s) lv = Inr (SStr (concat (map t (separate_args s))))"
proof -
  have "map_result (token_value it sb n lv) (separate_args s) = Inr (map (\<lambda>a. SStr (t a)) (separate_args s))"
    by (rule map_result_pure) (rule assms)
  moreover have "filter (\<lambda>r. r \<noteq> SNone) (map (\<lambda>a. SStr (t a)) xs) = map (\<lambda>a. SStr (t a)) xs" for xs
    by (induction xs) auto
  moreover have "token_value it sb n lv =
      (\<lambda>a. if is_dollar a then bind_result (expand it sb n (SStr a) lv) (sb_conv sb) else Inr (SStr a))"
    by (rule ext) (simp add: token_value_def)
  ultimately show ?thesis by (simp add: substitute_def Let_def)
qed

lemma match_dollar_none: "c \<noteq> CHR ''$'' \<Longrightarrow> match_dollar (c # r) = 0"
  by (cases r) auto

lemma is_dollar_cons [simp]: "c \<noteq> CHR ''$'' \<Longrightarrow> \<not> is_dollar (c # r)"
  by (simp add: is_dollar_def match_dollar_none)

lemma not_space_dollar [simp]: "\<not> is_space CHR ''$''" "\<not> word_part CHR ''$''"
  by (simp_all add: is_space_def word_part_def)

subsection \<open>Doubled dollars\<close>

definition dollar_escape :: "string \<Rightarrow> string" where
  "dollar_escape s = concat (map (\<lambda>c. if c = CHR ''$'' then ''$$'' else [c]) s)"

lemma dollar_escape_Cons [simp]:
  "dollar_escape [] = []"
  "dollar_escape (c # r) = (if c = CHR ''$'' then ''$$'' else [c]) @ dollar_escape r"
  by (simp_all add: dollar_escape_def)

lemma escape_while:
  assumes "\<not> P CHR ''$''"
  shows "takeWhile P (dollar_escape s) = takeWhile P s"
    and "dropWhile P (dollar_escape s) = dollar_escape (dropWhile P s)"
  using assms by (induction s) auto

lemma escaped_tokens:
  "(\<forall>a\<in>set (separate_args (dollar_escape s)). is_dollar a \<longrightarrow> a = ''$$'') \<and>
   concat (map (\<lambda>a. if is_dollar a then ''$'' else a) (separate_args (dollar_escape s))) = s"
proof (induction s rule: length_induct)
  case (1 s)
  show ?case
  proof (cases s)
    case (Cons c r)
    have two: "is_dollar ''$$''" by (simp add: is_dollar_def)
    consider "c = CHR ''$''" | "c \<noteq> CHR ''$''" "is_space c" | "c \<noteq> CHR ''$''" "\<not> is_space c" by blast
    then show ?thesis
    proof cases
      case 1
      then have "separate_args (dollar_escape s) = ''$$'' # separate_args (dollar_escape r)"
        using Cons by simp
      then show ?thesis using Cons 1 two "1.IH" [rule_format, of r] by simp
    next
      case 2
      then have "separate_args (dollar_escape s) =
          (c # takeWhile is_space r) # separate_args (dollar_escape (dropWhile is_space r))"
        using Cons by (simp add: escape_while)
      moreover have "length (dropWhile is_space r) < length s"
        using Cons by (simp add: le_imp_less_Suc length_dropWhile_le)
      ultimately show ?thesis using Cons 2 "1.IH" [rule_format, of "dropWhile is_space r"] by simp
    next
      case 3
      then have "separate_args (dollar_escape s) =
          (c # takeWhile word_part r) # separate_args (dollar_escape (dropWhile word_part r))"
        using Cons by (simp add: escape_while)
      moreover have "length (dropWhile word_part r) < length s"
        using Cons by (simp add: le_imp_less_Suc length_dropWhile_le)
      ultimately show ?thesis using Cons 3 "1.IH" [rule_format, of "dropWhile word_part r"] by simp
    qed
  qed simp
qed

subsection \<open>Marked text\<close>

lemma after_close_prefix: "CHR ''$'' \<notin> set b \<Longrightarrow> after_close (b @ ''$)'' @ c) = Some c"
  by (induction b) auto

lemma rm_marked_prefix: "CHR ''$'' \<notin> set a \<Longrightarrow> rm_marked (a @ c) = a @ rm_marked c"
  by (induction a) auto

lemma rm_marked_drops:
  assumes "CHR ''$'' \<notin> set a" and "CHR ''$'' \<notin> set b"
  shows "rm_marked (a @ ''$('' @ b @ ''$)'' @ c) = a @ rm_marked c"
  using assms after_close_prefix [OF assms(2), of c] by (simp add: rm_marked_prefix)

section \<open>Words of a command\<close>

abbreviation at_word :: "sval list list \<Rightarrow> sval list \<Rightarrow> bool \<Rightarrow> list_state" where
  "at_word L l new \<equiv> \<lparr>ls_lines = L @ [l], ls_new = new, ls_strip = False\<rparr>"

definition plain_text :: "string \<Rightarrow> bool" where
  "plain_text w \<longleftrightarrow> (\<forall>c\<in>set w. c \<notin> {CHR ''$'', CHR 0x0A, CHR ''<'', CHR ''>'', CHR ''|''})"

lemma plain_text_append [simp]: "plain_text (a @ b) \<longleftrightarrow> plain_text a \<and> plain_text b"
  unfolding plain_text_def set_append by blast

lemma fold_result_cong:
  "(\<And>x st. x \<in> set xs \<Longrightarrow> f x st = g x st) \<Longrightarrow> fold_result f xs st = fold_result g xs st"
proof (induction xs arbitrary: st)
  case (Cons x xs)
  then have "fold_result f xs = fold_result g xs" by (intro ext) simp
  with Cons.prems show ?case by simp
qed simp

lemma conv_text [simp]:
  "strconv it m (SStr a) = Inr (SStr a)" "strconv it m (SHolder a l) = Inr (SStr a)"
  by (simp_all add: strconv_def to_String_for_signature_def)

lemma append_new:
  assumes "sb_conv sb = strconv it m"
  shows "append_word it sb (SStr a) (at_word L l True) = Inr (at_word L (l @ [SHolder a False]) False)"
  using assms by (simp add: append_word_def add_new_word_def stripped_def hold_def on_last_line_def this_word_def)

lemma append_current:
  assumes "sb_conv sb = strconv it m" and "plain_text d"
  shows "append_word it sb (SStr a) (at_word L (l @ [SHolder d False]) False) =
    Inr (at_word L (l @ [SHolder (d @ a) False]) False)"
proof -
  have "d \<noteq> [] \<Longrightarrow> last d \<notin> {CHR ''<'', CHR ''>'', CHR ''|''}"
    using assms(2) by (auto simp: plain_text_def dest: last_in_set)
  then show ?thesis using assms(1)
    by (auto simp: append_word_def add_to_current_word_def stripped_def hold_def on_last_line_def Let_def)
qed

lemma append_all:
  assumes "sb_conv sb = strconv it m" and "\<forall>a\<in>set as. plain_text a" and "plain_text d"
  shows "fold_result (\<lambda>a. append_word it sb (SStr a)) as (at_word L (l @ [SHolder d False]) False) =
    Inr (at_word L (l @ [SHolder (d @ concat as) False]) False)"
  using assms(2,3)
proof (induction as arbitrary: d)
  case (Cons a as)
  have da: "plain_text (d @ a)" using Cons.prems by simp
  have "fold_result (\<lambda>a. append_word it sb (SStr a)) as (at_word L (l @ [SHolder (d @ a) False]) False) =
      Inr (at_word L (l @ [SHolder ((d @ a) @ concat as) False]) False)"
    by (rule Cons.IH [OF _ da]) (use Cons.prems(1) in simp)
  then show ?case by (simp add: append_current [OF assms(1) Cons.prems(2)])
qed simp

lemma substitute_list_seq: "substitute_list it sb ex (SList xs) lv within st = ex (SList xs) lv within st"
  by (simp add: substitute_list_def)

lemma expand_list_seq:
  "expand_list it sb (Suc n) (SList xs) lv within st =
    fold_result (\<lambda>x st. bind_result (substitute_list it sb (expand_list it sb n) x lv True st)
      (\<lambda>st'. Inr (next_word st'))) xs st"
  by (simp add: expand_list_step_def)

lemma fold_result_one: "fold_result f [a] st = f a st"
  by (cases "f a st") simp_all

lemma substitute_list_one:
  assumes "separate_args s = [a]" and "\<not> is_space (hd a)"
  shows "substitute_list it sb ex (SStr s) lv within st = ex (SStr a) lv within st"
  unfolding substitute_list_def sval.case assms(1) fold_result_one using assms(2) by simp

lemma expand_list_text: "a = [] \<or> hd a \<noteq> CHR ''$'' \<Longrightarrow>
    expand_list it sb (Suc n) (SStr a) lv within st = append_word it sb (SStr a) st"
  by (auto simp: expand_list_step_def expand_list_string_def)

lemma separate_nonempty: "a \<in> set (separate_args s) \<Longrightarrow> a \<noteq> []"
proof (induction s rule: separate_args.induct)
  case (2 c r)
  have "take (match_dollar (c # r)) (c # r) \<noteq> []" if "match_dollar (c # r) \<noteq> 0"
    using that by (cases "match_dollar (c # r)") auto
  then show ?case using 2 by (auto split: if_splits)
qed simp

lemma separate_chars: "a \<in> set (separate_args s) \<Longrightarrow> set a \<subseteq> set s"
  by (metis concat_separate UN_upper set_concat)

text \<open>Within a list the blanks of a word without references are kept.\<close>

lemma word_kept:
  assumes "sb_conv sb = strconv it m" and "plain_text w" and "w \<noteq> []"
  shows "substitute_list it sb (expand_list it sb (Suc n)) (SStr w) lv True (at_word L l True) =
    Inr (at_word L (l @ [SHolder w False]) False)"
proof -
  let ?as = "separate_args w"
  have "plain_text a \<and> a \<noteq> []" if "a \<in> set ?as" for a
    using separate_chars [OF that] separate_nonempty [OF that] assms(2) by (auto simp: plain_text_def)
  then have "(if is_space (hd a) then (if CHR 0x0A \<in> set a then Inr (next_line st)
      else if True then append_word it sb (SStr a) st else Inr (next_word st))
      else expand_list it sb (Suc n) (SStr a) lv True st) = append_word it sb (SStr a) st"
    if "a \<in> set ?as" for a st
    using that expand_list_text [of a it sb n lv True st] by (force simp: plain_text_def)
  then have "substitute_list it sb (expand_list it sb (Suc n)) (SStr w) lv True (at_word L l True) =
      fold_result (\<lambda>a. append_word it sb (SStr a)) ?as (at_word L l True)"
    unfolding substitute_list_def sval.case by (rule fold_result_cong)
  also have "\<dots> = Inr (at_word L (l @ [SHolder w False]) False)"
  proof (cases ?as)
    case Nil
    then show ?thesis using assms(3) concat_separate [of w] by simp
  next
    case (Cons a as)
    have texts: "plain_text b" if "b \<in> set (a # as)" for b
      using separate_chars [of b w] that assms(2) by (auto simp: Cons plain_text_def)
    have "fold_result (\<lambda>a. append_word it sb (SStr a)) as (at_word L (l @ [SHolder a False]) False) =
        Inr (at_word L (l @ [SHolder (a @ concat as) False]) False)"
      by (rule append_all [OF assms(1)]) (use texts in auto)
    moreover have "a @ concat as = w" using concat_separate [of w] by (simp add: Cons)
    ultimately show ?thesis by (simp add: Cons append_new [OF assms(1)])
  qed
  finally show ?thesis .
qed

text \<open>The tokens of a reference, alone and in braces.\<close>

lemma ident_while: "is_ident x \<Longrightarrow> takeWhile (\<lambda>c. c = CHR ''.'' \<or> word_char c) (tl x) = tl x"
  using ident_word_chars [of x] by (cases x) (auto simp: takeWhile_eq_all_conv)

lemma separate_ref:
  assumes "is_ident x"
  shows "separate_args (''$'' @ x) = [''$'' @ x]"
proof -
  obtain c r where x: "x = c # r" "ident_start c" using assms by (cases x) (auto simp: is_ident_def)
  have c: "c \<notin> {CHR ''$'', CHR ''('', CHR '')''}" using x(2) by (auto simp: ident_start_def)
  have tw: "takeWhile (\<lambda>x. x = CHR ''.'' \<or> word_char x) r = r"
    using ident_while [OF assms] unfolding x(1) by (simp only: list.sel)
  have "match_dollar (''$'' @ x) = length (''$'' @ x)" using x c by (simp add: tw del: takeWhile_eq_all_conv)
  then show ?thesis by simp
qed

lemma separate_braces:
  assumes "is_ident x"
  shows "separate_args (''${'' @ x @ ''}'' @ v) = (''${'' @ x @ ''}'') # separate_args v"
proof -
  have "\<forall>c\<in>set x. c \<noteq> CHR ''}''" using ident_word_chars [OF assms] not_word_char by auto
  then have "takeWhile (\<lambda>c. c \<noteq> CHR ''}'') (x @ CHR ''}'' # v) = x" by (subst takeWhile_append2) auto
  moreover have "\<not> ident_start CHR ''{''" by (simp add: ident_start_def)
  ultimately have "match_dollar (''${'' @ x @ ''}'' @ v) = length (''${'' @ x @ ''}'')" by simp
  then show ?thesis by simp
qed

lemma is_dollar_braces:
  assumes "is_ident x"
  shows "is_dollar (''${'' @ x @ ''}'')"
proof (rule ccontr)
  assume "\<not> is_dollar (''${'' @ x @ ''}'')"
  then have "separate_args (''${'' @ x @ ''}'') = ''$'' # separate_args (''{'' @ x @ ''}'')"
    by (simp add: is_dollar_def del: match_dollar.simps)
  then show False using separate_braces [OF assms, of "[]"] by simp
qed

lemma separate_word:
  assumes "w \<noteq> []" and "\<forall>c\<in>set w. word_part c" and "v = [] \<or> \<not> word_part (hd v)"
  shows "separate_args (w @ v) = w # separate_args v"
proof -
  obtain c r where w: "w = c # r" using assms(1) by (cases w) auto
  have "takeWhile word_part (r @ v) = r" "dropWhile word_part (r @ v) = v"
    using assms(2,3) w by (auto simp: takeWhile_append dropWhile_append takeWhile_eq_Nil_iff dropWhile_eq_self_iff)
  then show ?thesis using w assms(2) by (simp add: word_part_def)
qed

text \<open>A word, a blank, a reference in braces and a word.\<close>

lemma separate_braced_word:
  assumes "w \<noteq> []" and "\<forall>c\<in>set w. word_part c" and "v \<noteq> []" and "\<forall>c\<in>set v. word_part c" and "is_ident x"
  shows "separate_args (w @ '' ${'' @ x @ ''}'' @ v) = [w, '' '', ''${'' @ x @ ''}'', v]"
proof -
  have "separate_args v = [v]" using separate_word [OF assms(3,4), of "[]"] by simp
  then have "separate_args (''${'' @ x @ ''}'' @ v) = [''${'' @ x @ ''}'', v]"
    by (simp only: separate_braces [OF assms(5)])
  moreover have "separate_args (CHR '' '' # CHR ''$'' # r) = '' '' # separate_args (CHR ''$'' # r)" for r
    by (simp add: is_space_def del: match_dollar.simps)
  ultimately have "separate_args ('' ${'' @ x @ ''}'' @ v) = ['' '', ''${'' @ x @ ''}'', v]" by simp
  moreover have "\<not> word_part (hd ('' ${'' @ x @ ''}'' @ v))" by (simp add: word_part_def is_space_def)
  ultimately show ?thesis using separate_word [OF assms(1,2), of "'' ${'' @ x @ ''}'' @ v"] by simp
qed

lemma lookup_braces:
  assumes "is_name x" and "lv x = Some v"
  shows "lookup_token it sb f (''${'' @ x @ ''}'') lv = Inr (Some (v, lv(x \<mapsto> SStr [])))"
proof -
  have "is_ident x" using assms(1) by (simp add: is_name_def)
  then show ?thesis using assms ident_no_dot [of x] by (simp add: lookup_token_def eval_key_def Let_def)
qed

section \<open>A small environment\<close>

definition small_interp :: interp where
  "small_interp = \<lparr>it_str = (\<lambda>_. []), it_sig = (\<lambda>_. []), it_lit = (\<lambda>_. True), it_fstr = (\<lambda>_. []),
     it_list = (\<lambda>_. []), it_call = (\<lambda>_ _ _ _. Inl (''TypeError'', [])),
     it_eval = (\<lambda>k _. Inl (''NameError'', k)), it_proxy = (\<lambda>v. v), it_rfile = (\<lambda>v. v)\<rparr>"

definition small_subber :: "mode \<Rightarrow> lvars \<Rightarrow> subber" where
  "small_subber m gv = \<lparr>sb_mode = m, sb_conv = strconv small_interp m, sb_gvars = gv, sb_allow = allowable\<rparr>"

definition no_target :: lvars where
  "no_target = [''TARGET'' \<mapsto> SStr [], ''TARGETS'' \<mapsto> SStr []]"

lemma small_subber_simps [simp]:
  "sb_mode (small_subber m gv) = m" "sb_conv (small_subber m gv) = strconv small_interp m"
  "sb_gvars (small_subber m gv) = gv"
  by (simp_all add: small_subber_def)

lemma small_start [simp]: "start_vars it t s no_target = no_target"
  by (simp add: start_vars_def no_target_def)

section \<open>Properties\<close>

text \<open>
  C37: Expansion always ends: with finitely many variables, each a plain value, an expansion needs no
  more levels than its own depth, one round of depth for each variable that is not empty, and two more
  for Python's own names, so definitions that refer to each other in circles are no problem. Plain
  values hold no callables and refer to variables by name only. The names Python itself defines may
  be used (\<open>eval\<close> finds \<open>len\<close> or \<open>dict\<close>), and stand for what \<open>python_names\<close> says: objects and texts
  without dollars, and callables that refuse the arguments they are called with or make an object of them.
\<close>

theorem expansion_ends:
  assumes "sb_conv sb = strconv it (sb_mode sb)" and "python_names it"
    and "plain s" and "plain_vars d (sb_gvars sb) (start_vars it target source lv)"
    and "finite (live (sb_gvars sb) (start_vars it target source lv))"
    and "depth s + (card (live (sb_gvars sb) (start_vars it target source lv)) * (d + 2) + 2) < n"
  shows "scons_subst it sb n s target source lv \<noteq> Inl TooDeep"
proof -
  have "substitute it sb (expand it sb n) s (start_vars it target source lv) \<noteq> Inl TooDeep"
    by (rule substitute_bound [OF assms(1,3,6)]) (rule expand_bound [OF assms(1,2) _ assms(4,5)])
  moreover have "clean_result m r \<noteq> Inl TooDeep" for m r
    by (auto simp: clean_result_def type_error_def split: sval.splits)
  ultimately show ?thesis by (auto simp: scons_subst_def bind_too_deep split: sval.splits)
qed

text \<open>An interpretation in which \<open>len\<close> is Python's function and takes no keyword arguments.\<close>

definition python_interp :: interp where
  "python_interp = small_interp\<lparr>it_fstr := (\<lambda>_. ''<built-in function len>''),
     it_eval := (\<lambda>k _. if k = ''len'' then Inr (SFun 0) else Inl (''NameError'', k))\<rparr>"

lemma python_interp_names: "python_names python_interp"
  by (simp add: python_names_def python_interp_def small_interp_def inert_def)

theorem expansion_ends_witness:
  "scons_subst python_interp ((small_subber SUBST_RAW [''A'' \<mapsto> SStr ''$B x'', ''B'' \<mapsto> SStr ''${A} ${len}''])
      \<lparr>sb_conv := strconv python_interp SUBST_RAW\<rparr>) 7 (SStr ''$A'') SNone SNone no_target \<noteq> Inl TooDeep"
proof -
  let ?gv = "[''A'' \<mapsto> SStr ''$B x'', ''B'' \<mapsto> SStr ''${A} ${len}'']"
  let ?sb = "(small_subber SUBST_RAW ?gv)\<lparr>sb_conv := strconv python_interp SUBST_RAW\<rparr>"
  have tokens: "plain (SStr ''$B x'')" "plain (SStr ''${A} ${len}'')" "plain (SStr ''$A'')" by code_simp+
  have "live ?gv no_target = {''A'', ''B''}"
    by (auto simp: live_def var_value_def no_target_def split: if_splits)
  moreover have "plain_vars 0 ?gv no_target"
    using tokens by (auto simp: plain_vars_def var_value_def no_target_def split: if_splits)
  moreover have "start_vars python_interp SNone SNone no_target = no_target" by (simp add: start_vars_def no_target_def)
  ultimately show ?thesis
    using expansion_ends [of ?sb python_interp "SStr ''$A''" 0 SNone SNone no_target 7]
      tokens(3) python_interp_names by simp
qed

text \<open>
  Doubling every dollar protects a text: it expands to exactly the text it was made from, in any
  environment.
\<close>

theorem dollar_escape_round_trip:
  assumes "sb_mode sb = SUBST_RAW" and "sb_conv sb = strconv it SUBST_RAW" and "0 < n"
  shows "scons_subst it sb n (SStr (dollar_escape s)) target source lv = Inr (SStr s)"
proof -
  let ?t = "\<lambda>a. if is_dollar a then ''$'' else a"
  obtain k where n: "n = Suc k" using assms(3) by (cases n) auto
  have "expand it sb n (SStr ''$$'') lv' = Inr (SStr ''$'')" for lv'
    by (simp add: n expand_step_def expand_string_def)
  then have "token_value it sb n lv' a = Inr (SStr (?t a))"
    if "a \<in> set (separate_args (dollar_escape s))" for a lv'
    using that escaped_tokens [of s] assms(2) by (auto simp: token_value_def)
  then have "substitute it sb (expand it sb n) (SStr (dollar_escape s)) lv' = Inr (SStr s)" for lv'
    using substitute_tokens [of "dollar_escape s" it sb n lv' ?t] escaped_tokens [of s] by simp
  moreover have "dollar_escape s = s" if "CHR ''$'' \<notin> set (dollar_escape s)"
    using that by (induction s) (auto split: if_splits)
  ultimately show ?thesis
    using assms(1) by (auto simp: scons_subst_def clean_result_def clean_string_def)
qed

theorem dollar_escape_round_trip_witness:
  "scons_subst small_interp (small_subber SUBST_RAW [''HOME'' \<mapsto> SStr ''/root'']) 1
     (SStr (dollar_escape ''echo $HOME'')) SNone SNone Map.empty = Inr (SStr ''echo $HOME'')"
  by (rule dollar_escape_round_trip) simp_all

text \<open>
  What is between \<open>$(\<close> and \<open>$)\<close> never reaches a signature: two commands whose tokens differ only
  there have the same signature, whatever those tokens expand to (expansions that hold dollars
  themselves excepted).
\<close>

theorem signature_ignores_marked:
  assumes "sb_mode sb = SUBST_SIG" and "sb_conv sb = strconv it SUBST_SIG" and "0 < n"
    and "separate_args s = A @ ''$('' # B @ ''$)'' # C"
    and "separate_args s' = A @ ''$('' # B' @ ''$)'' # C"
    and "\<forall>a\<in>set (A @ B @ B' @ C). token_value it sb n (start_vars it target source lv) a = Inr (SStr (t a))"
    and "\<forall>a\<in>set (A @ B @ B'). CHR ''$'' \<notin> set (t a)"
  shows "scons_subst it sb n (SStr s) target source lv = scons_subst it sb n (SStr s') target source lv"
proof -
  let ?lv = "start_vars it target source lv" and ?u = "\<lambda>a. if a = ''$('' \<or> a = ''$)'' then a else t a"
  obtain k where n: "n = Suc k" using assms(3) by (cases n) auto
  have marker: "token_value it sb n ?lv a = Inr (SStr a)" if "a = ''$('' \<or> a = ''$)''" for a
    using that assms(2) by (auto simp: n token_value_def expand_step_def expand_string_def)
  have same: "t a = a" if "a = ''$('' \<or> a = ''$)''" "a \<in> set (A @ B @ B' @ C)" for a
    using marker [OF that(1)] assms(6) that(2) by auto
  have texts: "concat (map ?u X) = concat (map t X)" if "set X \<subseteq> set (A @ B @ B' @ C)" for X
    by (rule arg_cong [where f = concat]) (use same that in \<open>auto intro!: map_cong\<close>)
  have main: "scons_subst it sb n (SStr r) target source lv =
      Inr (SStr (strip (space_sep (concat (map t A) @ rm_marked (concat (map t C))))))"
    if sep: "separate_args r = A @ ''$('' # D @ ''$)'' # C" and D: "set D \<subseteq> set (B @ B')" for r D
  proof -
    have "substitute it sb (expand it sb n) (SStr r) ?lv = Inr (SStr (concat (map ?u (separate_args r))))"
      by (rule substitute_tokens) (use sep D assms(6) marker in auto)
    moreover have "rm_marked (concat (map ?u (separate_args r))) = concat (map t A) @ rm_marked (concat (map t C))"
    proof -
      have sub: "set A \<subseteq> set (A @ B @ B' @ C)" "set D \<subseteq> set (A @ B @ B' @ C)" "set C \<subseteq> set (A @ B @ B' @ C)"
        using D by auto
      have eq: "concat (map ?u (separate_args r)) =
          concat (map t A) @ ''$('' @ concat (map t D) @ ''$)'' @ concat (map t C)"
        by (simp add: sep texts [OF sub(1)] texts [OF sub(2)] texts [OF sub(3)])
      have "CHR ''$'' \<notin> set (concat (map t A))" "CHR ''$'' \<notin> set (concat (map t D))"
        using assms(7) D by auto
      then show ?thesis unfolding eq by (rule rm_marked_drops)
    qed
    moreover have "CHR ''$'' \<in> set r"
    proof -
      have "CHR ''$'' \<in> set (concat (separate_args r))" unfolding sep by simp
      then show ?thesis by (simp only: concat_separate)
    qed
    ultimately show ?thesis using assms(1) by (simp add: scons_subst_def clean_result_def clean_string_def)
  qed
  show ?thesis using main [OF assms(4)] main [OF assms(5)] by simp
qed

theorem signature_ignores_marked_witness:
  "scons_subst small_interp (small_subber SUBST_SIG Map.empty) 1 (SStr ''cc $(-j4$) x'') SNone SNone Map.empty =
   scons_subst small_interp (small_subber SUBST_SIG Map.empty) 1 (SStr ''cc $(-j8$) x'') SNone SNone Map.empty"
proof -
  have "separate_args ''cc $(-j4$) x'' = [''cc'', '' ''] @ ''$('' # [''-j4''] @ ''$)'' # ['' '', ''x'']"
    "separate_args ''cc $(-j8$) x'' = [''cc'', '' ''] @ ''$('' # [''-j8''] @ ''$)'' # ['' '', ''x'']"
    by code_simp+
  note signature_ignores_marked [OF _ _ _ this, of "small_subber SUBST_SIG Map.empty" small_interp 1 SNone SNone
    Map.empty "\<lambda>a. a"]
  then show ?thesis by (simp add: token_value_def)
qed

text \<open>
  A list variable gives one word of the command for each element, blanks in the elements
  included (line breaks, dollars and redirection characters excepted).
\<close>

theorem list_values_stay_words:
  assumes "sb_conv sb = strconv it m" and "is_ident x"
    and "start_vars it target source lv x = Some (SList (map SStr ws))"
    and "\<forall>w\<in>set ws. w \<noteq> [] \<and> plain_text w" and "3 \<le> n"
  shows "scons_subst_list it sb n (SStr (''$'' @ x)) target source lv = Inr [map (\<lambda>w. SHolder w False) ws]"
proof -
  obtain k where n: "n = Suc (Suc (Suc k))" using assms(5) by (metis numeral_3_eq_3 le_Suc_ex add_Suc)
  let ?lv = "start_vars it target source lv"
  define lv' where "lv' = ?lv(x \<mapsto> SStr [])"
  obtain c r where x: "x = c # r" "ident_start c" using assms(2) by (cases x) (auto simp: is_ident_def)
  have c: "c \<notin> {CHR ''$'', CHR ''('', CHR '')''}" using x(2) by (auto simp: ident_start_def)
  have look: "lookup_token it sb f (''$'' @ x) ?lv = Inr (Some (SList (map SStr ws), lv'))" for f
    using ident_no_dot [OF assms(2)] assms(3) by (simp add: lookup_token_def Let_def lv'_def)
  have words: "fold_result (\<lambda>w st. bind_result (substitute_list it sb (expand_list it sb (Suc k)) w lv' True st)
      (\<lambda>st'. Inr (next_word st'))) (map SStr vs) (at_word L l True) =
    Inr (at_word L (l @ map (\<lambda>w. SHolder w False) vs) True)" if "set vs \<subseteq> set ws" for vs L l
    using that
  proof (induction vs arbitrary: l)
    case (Cons w vs)
    then have w: "plain_text w" "w \<noteq> []" using assms(4) by auto
    show ?case using Cons by (simp add: word_kept [OF assms(1) w] next_word_def del: expand_list.simps)
  qed simp
  have init: "list_init = at_word [] [] True" by (simp add: list_init_def next_line_def next_word_def)
  have "substitute_list it sb (expand_list it sb (Suc (Suc k))) (SList (map SStr ws)) lv' False (at_word [] [] True) =
      Inr (at_word [] ([] @ map (\<lambda>w. SHolder w False) ws) True)"
    unfolding substitute_list_seq expand_list_seq by (rule words) simp
  then have "expand_list it sb n (SStr (''$'' @ x)) ?lv False list_init =
      Inr (at_word [] (map (\<lambda>w. SHolder w False) ws) False)"
    unfolding n expand_list.simps(2) [of it sb "Suc (Suc k)"] init
    using c x look by (simp add: expand_list_step_def expand_list_string_def this_word_def del: expand_list.simps)
  moreover have "\<not> is_space (hd (''$'' @ x))" by simp
  ultimately have "substitute_list it sb (expand_list it sb n) (SStr (''$'' @ x)) ?lv False list_init =
      Inr (at_word [] (map (\<lambda>w. SHolder w False) ws) False)"
    by (subst substitute_list_one [OF separate_ref [OF assms(2)]])
  then show ?thesis by (simp add: scons_subst_list_def)
qed

theorem list_values_stay_words_witness:
  "scons_subst_list small_interp (small_subber SUBST_CMD Map.empty) 3 (SStr ''$SRC'') SNone SNone
     (no_target(''SRC'' \<mapsto> SList [SStr ''a b.c'', SStr ''d.c''])) =
   Inr [[SHolder ''a b.c'' False, SHolder ''d.c'' False]]"
proof -
  have "is_ident ''SRC''" by code_simp
  moreover have "plain_text ''a b.c''" "plain_text ''d.c''" by code_simp+
  ultimately show ?thesis
    using list_values_stay_words [of "small_subber SUBST_CMD Map.empty" small_interp SUBST_CMD "''SRC''" SNone SNone
      "no_target(''SRC'' \<mapsto> SList [SStr ''a b.c'', SStr ''d.c''])" "[''a b.c'', ''d.c'']" 3]
    by (simp add: start_vars_def no_target_def)
qed

text \<open>
  An empty variable at the beginning of a word glues it to the word before: the string expansion
  keeps the blank, the command expansion makes one word of the two.
\<close>

theorem empty_variable_glues:
  assumes "sb_mode sb = SUBST_RAW" and "sb_conv sb = strconv it SUBST_RAW" and "is_name x"
    and "start_vars it target source lv x = Some (SStr [])"
    and "w \<noteq> []" and "\<forall>c\<in>set w. word_part c" and "plain_text w"
    and "v \<noteq> []" and "\<forall>c\<in>set v. word_part c" and "1 \<le> n"
  shows "scons_subst it sb n (SStr (w @ '' ${'' @ x @ ''}'' @ v)) target source lv = Inr (SStr (w @ '' '' @ v)) \<and>
    scons_subst_list it sb n (SStr (w @ '' ${'' @ x @ ''}'' @ v)) target source lv = Inr [[SHolder (w @ v) False]]"
proof -
  let ?s = "w @ '' ${'' @ x @ ''}'' @ v" and ?r = "''${'' @ x @ ''}''" and ?lv = "start_vars it target source lv"
  obtain k where n: "n = Suc k" using assms(10) by (cases n) auto
  have id: "is_ident x" using assms(3) by (simp add: is_name_def)
  have look: "lookup_token it sb f ?r ?lv = Inr (Some (SStr [], ?lv(x \<mapsto> SStr [])))" for f
    using lookup_braces [OF assms(3), of ?lv] assms(4) by blast
  have words: "hd w \<noteq> CHR ''$''" "\<not> is_space (hd w)" "hd v \<noteq> CHR ''$''" "\<not> is_space (hd v)"
    using assms(5-9) by (auto simp: word_part_def)
  have toks: "separate_args ?s = [w, '' '', ?r, v]"
    by (rule separate_braced_word [OF assms(5,6,8,9) id])
  have "expand it sb n (SStr ?r) ?lv = Inr (SStr [])"
    using look by (simp add: n expand_step_def expand_string_def substitute_def)
  then have "token_value it sb n ?lv a = Inr (SStr (if a = ?r then [] else a))" if "a \<in> {w, '' '', ?r, v}" for a
    using that words assms(2,5,8) is_dollar_braces [OF id] by (auto simp: token_value_def neq_Nil_conv)
  then have "substitute it sb (expand it sb n) (SStr ?s) ?lv =
      Inr (SStr (concat (map (\<lambda>a. if a = ?r then [] else a) [w, '' '', ?r, v])))"
    using substitute_tokens [of ?s it sb n ?lv "\<lambda>a. if a = ?r then [] else a"] unfolding toks by simp
  moreover have "w \<noteq> ?r" "v \<noteq> ?r" using words by auto
  ultimately have string: "scons_subst it sb n (SStr ?s) target source lv = Inr (SStr (w @ '' '' @ v))"
    using assms(1) by (simp add: scons_subst_def clean_result_def clean_string_def)
  have ref: "expand_list it sb n (SStr ?r) ?lv False st = Inr (this_word st)" for st
    using look by (simp add: n expand_list_step_def expand_list_string_def substitute_list_def)
  have "substitute_list it sb (expand_list it sb n) (SStr ?s) ?lv False list_init =
      Inr (at_word [] [SHolder (w @ v) False] False)"
    unfolding substitute_list_def sval.case toks fold_result.simps
    using words ref append_new [OF assms(2), of w "[]" "[]"] append_current [OF assms(2,7), of v "[]" "[]"]
    by (simp add: n expand_list_text list_init_def next_line_def next_word_def this_word_def is_space_def
        del: expand_list.simps)
  then show ?thesis using string by (simp add: scons_subst_list_def)
qed

theorem empty_variable_glues_witness:
  "scons_subst_list small_interp (small_subber SUBST_RAW Map.empty) 1 (SStr ''-o ${DIR}out'') SNone SNone
     (no_target(''DIR'' \<mapsto> SStr [])) = Inr [[SHolder ''-oout'' False]]"
proof -
  have "is_name ''DIR''" "plain_text ''-o''" "\<forall>c\<in>set ''-o''. word_part c" "\<forall>c\<in>set ''out''. word_part c"
    by code_simp+
  then show ?thesis
    using empty_variable_glues [of "small_subber SUBST_RAW Map.empty" small_interp "''DIR''" SNone SNone
      "no_target(''DIR'' \<mapsto> SStr [])" "''-o''" "''out''" 1]
    by (simp add: start_vars_def no_target_def)
qed

end
