(* ===== verification/EnvValue.thy ===== *)
theory EnvValue
  imports Subst
begin

text \<open>
  The values of construction variables and the Python operations \<open>Environment.py\<close> applies to them:
  equality, membership, addition, truth, iteration. Values are not shared: where the code changes
  a list or a dictionary in place, the variable gets the changed value.
\<close>

section \<open>Values\<close>

text \<open>
  Strings, lists, \<open>CLVar\<close> (\<open>Util.py\<close>: a list that splits strings), tuples, dictionaries in the order
  in which they are iterated, \<open>None\<close>, and other objects, which are compared by identity, are true
  and have none of the methods that are asked for.
\<close>

datatype ev = EStr string | EList "ev list" | ECLVar "ev list" | ETuple "ev list"
  | EDict "(ev \<times> ev) list" | ENone | EObj nat

datatype env_err = EnvUser string | EnvType | EnvAttribute | EnvIndex | EnvKey string | EnvName string
  | EnvOther string

fun is_List :: "ev \<Rightarrow> bool" where
  "is_List (EList xs) = True" | "is_List (ECLVar xs) = True" | "is_List v = False"

fun is_Tuple :: "ev \<Rightarrow> bool" where
  "is_Tuple (ETuple xs) = True" | "is_Tuple v = False"

fun is_Dict :: "ev \<Rightarrow> bool" where
  "is_Dict (EDict d) = True" | "is_Dict v = False"

fun is_String :: "ev \<Rightarrow> bool" where
  "is_String (EStr s) = True" | "is_String v = False"

fun truth :: "ev \<Rightarrow> bool" where
  "truth (EStr s) = (s \<noteq> [])"
| "truth (EList xs) = (xs \<noteq> [])"
| "truth (ECLVar xs) = (xs \<noteq> [])"
| "truth (ETuple xs) = (xs \<noteq> [])"
| "truth (EDict d) = (d \<noteq> [])"
| "truth ENone = False"
| "truth (EObj n) = True"

text \<open>Equality: a list equals a \<open>CLVar\<close> with equal elements; dictionaries ignore the order.\<close>

fun ev_eq :: "ev \<Rightarrow> ev \<Rightarrow> bool" where
  "ev_eq (EStr s) v = (v = EStr s)"
| "ev_eq (EList xs) v =
     (case v of EList ys \<Rightarrow> list_all2 ev_eq xs ys | ECLVar ys \<Rightarrow> list_all2 ev_eq xs ys | _ \<Rightarrow> False)"
| "ev_eq (ECLVar xs) v =
     (case v of EList ys \<Rightarrow> list_all2 ev_eq xs ys | ECLVar ys \<Rightarrow> list_all2 ev_eq xs ys | _ \<Rightarrow> False)"
| "ev_eq (ETuple xs) v = (case v of ETuple ys \<Rightarrow> list_all2 ev_eq xs ys | _ \<Rightarrow> False)"
| "ev_eq (EDict d) v =
     (case v of
        EDict e \<Rightarrow> length d = length e \<and>
          (\<forall>i\<in>set d. \<exists>j\<in>set e. ev_eq (fst i) (fst j) \<and> ev_eq (snd i) (snd j))
      | _ \<Rightarrow> False)"
| "ev_eq ENone v = (v = ENone)"
| "ev_eq (EObj n) v = (v = EObj n)"

definition mem :: "ev \<Rightarrow> ev list \<Rightarrow> bool" where
  "mem x ys = list_ex (\<lambda>y. ev_eq y x) ys"

text \<open>What can be a key of a dictionary, and the dictionary operations.\<close>

fun hashable :: "ev \<Rightarrow> bool" where
  "hashable (EList xs) = False"
| "hashable (ECLVar xs) = False"
| "hashable (EDict d) = False"
| "hashable (ETuple xs) = list_all hashable xs"
| "hashable v = True"

fun dict_set :: "ev \<Rightarrow> ev \<Rightarrow> (ev \<times> ev) list \<Rightarrow> (ev \<times> ev) list" where
  "dict_set k v [] = [(k, v)]"
| "dict_set k v ((l, w) # d) = (if ev_eq l k then (l, v) # d else (l, w) # dict_set k v d)"

definition dict_put :: "ev \<Rightarrow> ev \<Rightarrow> (ev \<times> ev) list \<Rightarrow> env_err + (ev \<times> ev) list" where
  "dict_put k v d = (if hashable k then Inr (dict_set k v d) else Inl EnvType)"

text \<open>\<open>substring\<close>: \<open>in\<close> between strings.\<close>

fun substring :: "string \<Rightarrow> string \<Rightarrow> bool" where
  "substring t [] = (t = [])"
| "substring t (c # s) = (take (length t) (c # s) = t \<or> substring t s)"

definition py_in :: "ev \<Rightarrow> ev \<Rightarrow> env_err + bool" where
  "py_in x c =
     (case c of
        EStr s \<Rightarrow> (case x of EStr t \<Rightarrow> Inr (substring t s) | _ \<Rightarrow> Inl EnvType)
      | EList ys \<Rightarrow> Inr (mem x ys)
      | ECLVar ys \<Rightarrow> Inr (mem x ys)
      | ETuple ys \<Rightarrow> Inr (mem x ys)
      | EDict d \<Rightarrow> if hashable x then Inr (mem x (map fst d)) else Inl EnvType
      | _ \<Rightarrow> Inl EnvType)"

definition py_iter :: "ev \<Rightarrow> env_err + ev list" where
  "py_iter v =
     (case v of
        EStr s \<Rightarrow> Inr (map (\<lambda>c. EStr [c]) s)
      | EList xs \<Rightarrow> Inr xs | ECLVar xs \<Rightarrow> Inr xs | ETuple xs \<Rightarrow> Inr xs
      | EDict d \<Rightarrow> Inr (map fst d)
      | _ \<Rightarrow> Inl EnvType)"

text \<open>\<open>Util.Split\<close> and the elements of \<open>CLVar(v)\<close>.\<close>

definition clvar :: "ev \<Rightarrow> ev list" where
  "clvar v =
     (case v of
        EList xs \<Rightarrow> xs | ECLVar xs \<Rightarrow> xs | ETuple xs \<Rightarrow> xs
      | EStr s \<Rightarrow> map EStr (words_of [] s)
      | _ \<Rightarrow> [v])"

text \<open>\<open>a + b\<close>, where a \<open>CLVar\<close> on either side takes the other one in.\<close>

definition py_add :: "ev \<Rightarrow> ev \<Rightarrow> env_err + ev" where
  "py_add a b =
     (case (a, b) of
        (ECLVar xs, _) \<Rightarrow> Inr (ECLVar (xs @ clvar b))
      | (_, ECLVar ys) \<Rightarrow> Inr (ECLVar (clvar a @ ys))
      | (EStr s, EStr t) \<Rightarrow> Inr (EStr (s @ t))
      | (EList xs, EList ys) \<Rightarrow> Inr (EList (xs @ ys))
      | (ETuple xs, ETuple ys) \<Rightarrow> Inr (ETuple (xs @ ys))
      | _ \<Rightarrow> Inl EnvType)"

text \<open>\<open>filter_result\<close>: a list comprehension whose condition may raise.\<close>

fun filter_result :: "(ev \<Rightarrow> env_err + bool) \<Rightarrow> ev list \<Rightarrow> env_err + ev list" where
  "filter_result p [] = Inr []"
| "filter_result p (x # xs) =
     bind_result (p x) (\<lambda>b. bind_result (filter_result p xs) (\<lambda>ys. Inr (if b then x # ys else ys)))"

definition not_in :: "ev \<Rightarrow> ev \<Rightarrow> env_err + bool" where
  "not_in c x = bind_result (py_in x c) (\<lambda>b. Inr (\<not> b))"

fun map_env :: "(ev \<Rightarrow> env_err + ev) \<Rightarrow> ev list \<Rightarrow> env_err + ev list" where
  "map_env f [] = Inr []"
| "map_env f (x # xs) = bind_result (f x) (\<lambda>y. bind_result (map_env f xs) (\<lambda>ys. Inr (y # ys)))"

section \<open>Removing duplicates\<close>

text \<open>\<open>_delete_duplicates\<close>: an element that cannot be hashed is always kept.\<close>

fun delete_first :: "ev list \<Rightarrow> ev list \<Rightarrow> ev list" where
  "delete_first seen [] = []"
| "delete_first seen (x # xs) =
     (if \<not> hashable x then x # delete_first seen xs
      else if mem x seen then delete_first seen xs
      else x # delete_first (x # seen) xs)"

definition delete_duplicates :: "ev list \<Rightarrow> bool \<Rightarrow> ev list" where
  "delete_duplicates l keep_last =
     (if keep_last then rev (delete_first [] (rev l)) else delete_first [] l)"

section \<open>Facts\<close>

lemma mem_strings [simp]: "mem (EStr s) (map EStr ws) \<longleftrightarrow> s \<in> set ws"
  by (induction ws) (auto simp: mem_def)

lemma delete_first_strings: "delete_first (map EStr seen) (map EStr ws) = map EStr (dedup_by (\<lambda>x. x) (set seen) ws)"
proof (induction ws arbitrary: seen)
  case (Cons w ws)
  show ?case using Cons [of seen] Cons [of "w # seen"] by simp
qed simp

lemma filter_result_pure:
  "(\<And>x. x \<in> set xs \<Longrightarrow> p x = Inr (q x)) \<Longrightarrow> filter_result p xs = Inr (filter q xs)"
  by (induction xs) auto

lemma filter_not_in_strings:
  "filter_result (not_in (EList (map EStr vs))) (map EStr ws) = Inr (map EStr (filter (\<lambda>w. w \<notin> set vs) ws))"
  by (induction ws) (auto simp: not_in_def py_in_def)

end
