(* ===== verification/Environment.thy ===== *)
theory Environment
  imports EnvValue
begin

text \<open>
  \<open>SCons/Environment.py\<close>: construction environments. A base environment is its dictionary with
  the memoized scanner map; an override environment is a dictionary on top of another one.
  Methods that an override environment inherits work on the dictionary of the base.
\<close>

type_synonym edict = "string \<rightharpoonup> ev"
type_synonym kws = "(string \<times> ev) list"

record env_state =
  ed_dict :: edict
  ed_gsm :: "edict option"

section \<open>Reserved variables\<close>

definition reserved_names :: "string list" where
  "reserved_names = [''CHANGED_SOURCES'', ''CHANGED_TARGETS'', ''SOURCE'', ''SOURCES'', ''TARGET'',
     ''TARGETS'', ''UNCHANGED_SOURCES'', ''UNCHANGED_TARGETS'']"

definition copy_non_reserved_keywords :: "kws \<Rightarrow> kws" where
  "copy_non_reserved_keywords kw = filter (\<lambda>(k, v). k \<notin> set reserved_names) kw"

definition valid_var :: "string \<Rightarrow> bool" where
  "valid_var key \<longleftrightarrow> is_ident (strip_newline key)"

section \<open>The scanner map\<close>

text \<open>
  \<open>_gsm\<close>: earlier scanners win. \<open>skeys\<close> are the keys of a scanner; on Windows keys are lower case.
\<close>

definition on_windows :: "edict \<Rightarrow> bool" where
  "on_windows d \<longleftrightarrow> d ''PLATFORM'' = Some (EStr ''win32'')"

definition gsm_keys :: "(ev \<Rightarrow> string list) \<Rightarrow> edict \<Rightarrow> ev \<Rightarrow> string list" where
  "gsm_keys skeys d scanner =
     map (\<lambda>k. if k \<noteq> [] \<and> on_windows d then lower k else k) (skeys scanner)"

definition scanner_list :: "edict \<Rightarrow> ev list" where
  "scanner_list d =
     (case d ''SCANNERS'' of None \<Rightarrow> []
      | Some (EList xs) \<Rightarrow> xs | Some (ECLVar xs) \<Rightarrow> xs | Some v \<Rightarrow> [v])"

definition build_gsm :: "(ev \<Rightarrow> string list) \<Rightarrow> edict \<Rightarrow> edict" where
  "build_gsm skeys d =
     fold (\<lambda>scanner m. fold (\<lambda>k m. m(k \<mapsto> scanner)) (gsm_keys skeys d scanner) m)
       (rev (scanner_list d)) (\<lambda>_. None)"

definition gsm :: "(ev \<Rightarrow> string list) \<Rightarrow> env_state \<Rightarrow> edict \<times> env_state" where
  "gsm skeys st =
     (case ed_gsm st of
        Some m \<Rightarrow> (m, st)
      | None \<Rightarrow> (let m = build_gsm skeys (ed_dict st) in (m, st\<lparr>ed_gsm := Some m\<rparr>)))"

definition get_scanner :: "(ev \<Rightarrow> string list) \<Rightarrow> string \<Rightarrow> env_state \<Rightarrow> ev option \<times> env_state" where
  "get_scanner skeys skey st =
     (let k = (if skey \<noteq> [] \<and> on_windows (ed_dict st) then lower skey else skey);
          (m, st') = gsm skeys st
      in (m k, st'))"

definition scanner_map_delete :: "env_state \<Rightarrow> env_state" where
  "scanner_map_delete st = st\<lparr>ed_gsm := None\<rparr>"

section \<open>Items\<close>

text \<open>
  \<open>_set_BUILDERS\<close> empties the dictionary of builders before it looks at the new ones. Without one
  it uses a name that is not defined.
\<close>

definition set_BUILDERS :: "(ev \<Rightarrow> bool) \<Rightarrow> ev \<Rightarrow> env_state \<Rightarrow> env_err option \<times> env_state" where
  "set_BUILDERS is_builder value st =
     (case ed_dict st ''BUILDERS'' of
        None \<Rightarrow> (Some (EnvName ''kwbd''), st)
      | Some (EDict bd) \<Rightarrow>
          (let st0 = st\<lparr>ed_dict := (ed_dict st)(''BUILDERS'' \<mapsto> EDict [])\<rparr>
           in case value of
                EDict new \<Rightarrow>
                  if list_all (\<lambda>(k, v). is_builder v) new
                  then (None, st\<lparr>ed_dict := (ed_dict st)(''BUILDERS'' \<mapsto> EDict new)\<rparr>)
                  else (Some (EnvUser ''not a Builder''), st0)
              | _ \<Rightarrow> (Some EnvAttribute, st0))
      | Some _ \<Rightarrow> (Some EnvAttribute, st))"

definition set_item :: "(ev \<Rightarrow> bool) \<Rightarrow> string \<Rightarrow> ev \<Rightarrow> env_state \<Rightarrow> env_err option \<times> env_state" where
  "set_item is_builder key value st =
     (if key \<in> set reserved_names then (None, st)
      else if key = ''BUILDERS'' then set_BUILDERS is_builder value st
      else if key = ''SCANNERS'' then
        (None, scanner_map_delete (st\<lparr>ed_dict := (ed_dict st)(key \<mapsto> value)\<rparr>))
      else if ed_dict st key = None \<and> \<not> valid_var key then
        (Some (EnvUser (''Illegal construction variable `'' @ key @ [CHR 0x27])), st)
      else (None, st\<lparr>ed_dict := (ed_dict st)(key \<mapsto> value)\<rparr>))"

definition del_item :: "string \<Rightarrow> env_state \<Rightarrow> env_err option \<times> env_state" where
  "del_item key st =
     (if ed_dict st key = None then (Some (EnvKey key), st)
      else
        (let st' = st\<lparr>ed_dict := (ed_dict st)(key := None)\<rparr>
         in (None, if key = ''SCANNERS'' then scanner_map_delete st' else st')))"

section \<open>Appending and prepending\<close>

text \<open>
  What a method does to one variable: its value before, if any, and after; an error may come with
  a changed value. The methods do the keywords one after the other and delete the scanner map at the
  end, which an error prevents.
\<close>

type_synonym var_step = "string \<Rightarrow> ev \<Rightarrow> ev option \<Rightarrow> env_err option \<times> ev option"

fun each_key :: "var_step \<Rightarrow> kws \<Rightarrow> env_state \<Rightarrow> env_err option \<times> env_state" where
  "each_key step [] st = (None, scanner_map_delete st)"
| "each_key step ((key, val) # kw) st =
     (let (e, v) = step key val (ed_dict st key); st' = st\<lparr>ed_dict := (ed_dict st)(key := v)\<rparr>
      in case e of Some x \<Rightarrow> (Some x, st') | None \<Rightarrow> each_key step kw st')"

text \<open>
  \<open>dict.update\<close>: from a dictionary, or from a sequence whose elements are pairs; what was set
  before an element that is no pair stays.
\<close>

fun pairs_update :: "ev list \<Rightarrow> (ev \<times> ev) list \<Rightarrow> bool \<times> (ev \<times> ev) list" where
  "pairs_update [] d = (True, d)"
| "pairs_update (x # xs) d =
     (case py_iter x of
        Inr [k, v] \<Rightarrow> (case dict_put k v d of Inr d' \<Rightarrow> pairs_update xs d' | Inl _ \<Rightarrow> (False, d))
      | _ \<Rightarrow> (False, d))"

definition dict_update :: "ev \<Rightarrow> (ev \<times> ev) list \<Rightarrow> bool \<times> (ev \<times> ev) list" where
  "dict_update val d =
     (case val of
        EDict e \<Rightarrow> (True, fold (\<lambda>(k, v). dict_set k v) e d)
      | _ \<Rightarrow> (case py_iter val of Inr xs \<Rightarrow> pairs_update xs d | Inl _ \<Rightarrow> (False, d)))"

fun put_all_none :: "ev list \<Rightarrow> (ev \<times> ev) list \<Rightarrow> env_err option \<times> (ev \<times> ev) list" where
  "put_all_none [] d = (None, d)"
| "put_all_none (v # vs) d =
     (case dict_put v ENone d of Inl e \<Rightarrow> (Some e, d) | Inr d' \<Rightarrow> put_all_none vs d')"

text \<open>The entries of a dictionary of defines as tuples, and how \<open>AppendUnique\<close> sees an entry of a list.\<close>

definition define_tuples :: "(ev \<times> ev) list \<Rightarrow> ev list" where
  "define_tuples d = map (\<lambda>(k, v). if v \<noteq> ENone then ETuple [k, v] else ETuple [k]) d"

definition define_tuple :: "ev \<Rightarrow> env_err + ev" where
  "define_tuple i =
     (if is_List i then
        (case clvar i of
           [] \<Rightarrow> Inl EnvIndex
         | [k] \<Rightarrow> Inr (ETuple [k])
         | k # v # _ \<Rightarrow> Inr (ETuple [k, v]))
      else if is_Tuple i then Inr i
      else Inr (ETuple [i]))"

text \<open>A dictionary that takes the value in.\<close>

definition update_value :: "ev \<Rightarrow> (ev \<times> ev) list \<Rightarrow> env_err option \<times> ev option" where
  "update_value val d =
     (let (ok, d') = dict_update val d in
      if ok then (None, Some (EDict d'))
      else (case dict_put val ENone d' of
              Inr d'' \<Rightarrow> (None, Some (EDict d'')) | Inl e \<Rightarrow> (Some e, Some (EDict d'))))"

definition none_entries :: "ev \<Rightarrow> (ev \<times> ev) list \<Rightarrow> env_err option \<times> ev option" where
  "none_entries val d = (let (e, d') = put_all_none (clvar val) d in (e, Some (EDict d')))"

definition append_value :: var_step where
  "append_value key val cur =
     (let cur' = (case cur of
                    Some (EStr s) \<Rightarrow> if key = ''CPPDEFINES'' then Some (EList [EStr s]) else cur
                  | _ \<Rightarrow> cur)
      in case cur' of
           None \<Rightarrow> (None, Some (if key = ''CPPDEFINES'' \<and> is_String val then EList [val] else val))
         | Some (EDict d) \<Rightarrow>
             if is_List val then
               (if key = ''CPPDEFINES'' then (None, Some (EList (define_tuples d @ clvar val)))
                else none_entries val d)
             else update_value val d
         | Some orig \<Rightarrow>
             (case py_add orig val of
                Inr v \<Rightarrow> (None, Some v)
              | Inl _ \<Rightarrow>
                  (case orig of
                     EList xs \<Rightarrow> (None, Some (if truth val then EList (xs @ [val]) else orig))
                   | _ \<Rightarrow>
                       if \<not> truth orig then (None, Some val)
                       else (case val of
                               EList ys \<Rightarrow> (None, Some (EList (orig # ys)))
                             | ECLVar ys \<Rightarrow> (None, Some (ECLVar (orig # ys)))
                             | _ \<Rightarrow> (Some EnvAttribute, Some orig)))))"

definition Append :: "kws \<Rightarrow> env_state \<Rightarrow> env_err option \<times> env_state" where
  "Append kw = each_key append_value (copy_non_reserved_keywords kw)"

definition prepend_value :: var_step where
  "prepend_value key val cur =
     (case cur of
        None \<Rightarrow> (None, Some val)
      | Some (EDict d) \<Rightarrow> if is_List val then none_entries val d else update_value val d
      | Some orig \<Rightarrow>
          (case py_add val orig of
             Inr v \<Rightarrow> (None, Some v)
           | Inl _ \<Rightarrow>
               (case val of
                  EList ys \<Rightarrow> (None, Some (if truth orig then EList (ys @ [orig]) else val))
                | _ \<Rightarrow>
                    if \<not> truth val then (None, Some orig)
                    else (case orig of
                            EList xs \<Rightarrow> (None, Some (EList (val # xs)))
                          | _ \<Rightarrow> (Some EnvAttribute, Some orig)))))"

definition Prepend :: "kws \<Rightarrow> env_state \<Rightarrow> env_err option \<times> env_state" where
  "Prepend kw = each_key prepend_value (copy_non_reserved_keywords kw)"

subsection \<open>Unique values\<close>

definition step_of :: "ev option \<Rightarrow> env_err + ev \<Rightarrow> env_err option \<times> ev option" where
  "step_of cur r = (case r of Inl e \<Rightarrow> (Some e, cur) | Inr v \<Rightarrow> (None, Some v))"

definition unset :: "ev option \<Rightarrow> bool" where
  "unset cur \<longleftrightarrow> cur = None \<or> cur = Some (EStr []) \<or> cur = Some ENone"

definition unlist :: "ev \<Rightarrow> ev list" where
  "unlist v = (if is_List v then clvar v else [v])"

text \<open>\<open>CPPDEFINES\<close> as a list of tuples, when the new value is a list.\<close>

definition defines_of :: "ev \<Rightarrow> env_err + ev list" where
  "defines_of dk =
     (case dk of
        EDict d \<Rightarrow> Inr (define_tuples d)
      | EStr s \<Rightarrow> Inr [ETuple [dk]]
      | _ \<Rightarrow> bind_result (py_iter dk) (map_env define_tuple))"

definition unique_list :: "bool \<Rightarrow> string \<Rightarrow> ev list \<Rightarrow> ev \<Rightarrow> env_err + ev" where
  "unique_list delete_existing key vs dk =
     bind_result (if key = ''CPPDEFINES''
                  then bind_result (map_env define_tuple vs) (\<lambda>vs'.
                       bind_result (defines_of dk) (\<lambda>ds. Inr (vs', EList ds)))
                  else Inr (vs, if is_List dk then dk else EList [dk])) (\<lambda>(vs', dk').
       if delete_existing then
         bind_result (filter_result (not_in (EList vs')) (clvar dk')) (\<lambda>ds. py_add (EList ds) (EList vs'))
       else
         bind_result (filter_result (not_in dk') vs') (\<lambda>ws. py_add dk' (EList ws)))"

text \<open>The variable is a list and the new value is not.\<close>

definition unique_item :: "bool \<Rightarrow> string \<Rightarrow> ev \<Rightarrow> ev \<Rightarrow> env_err + ev" where
  "unique_item delete_existing key val dk =
     (if key = ''CPPDEFINES'' then
        (let val' = (case val of
                       EDict d \<Rightarrow> EList (define_tuples d) | EStr s \<Rightarrow> EList [ETuple [val]] | _ \<Rightarrow> val)
         in bind_result (map_env define_tuple (clvar dk)) (\<lambda>ds.
            bind_result (filter_result (not_in val') ds) (\<lambda>ds'. py_add (EList ds') val')))
      else if delete_existing then
        bind_result (filter_result (not_in val) (clvar dk)) (\<lambda>ds. Inr (EList (ds @ [val])))
      else if mem val (clvar dk) then Inr dk
      else py_add dk (EList [val]))"

text \<open>Neither is a list.\<close>

definition unique_other :: "bool \<Rightarrow> string \<Rightarrow> ev \<Rightarrow> ev \<Rightarrow> env_err + ev" where
  "unique_other delete_existing key val dk =
     bind_result (if key = ''CPPDEFINES'' then
          (let dk' = (case dk of
                        EStr s \<Rightarrow> EList [dk] | EDict d \<Rightarrow> EList (define_tuples d) | _ \<Rightarrow> dk)
           in case val of
                EStr s \<Rightarrow> bind_result (py_in val dk') (\<lambda>b. Inr (if b then EList [] else EList [val], dk'))
              | EDict d \<Rightarrow> Inr (EList (map (\<lambda>(i, j). if j \<noteq> ENone then ETuple [i, j] else i) d), dk')
              | _ \<Rightarrow> Inr (val, dk'))
        else Inr (val, dk)) (\<lambda>(val', dk').
       if delete_existing then
         bind_result (py_iter dk') (\<lambda>xs.
         bind_result (filter_result (not_in val') xs) (\<lambda>ds. py_add (EList ds) val'))
       else py_add dk' val')"

definition append_unique_value :: "bool \<Rightarrow> var_step" where
  "append_unique_value delete_existing key val0 cur =
     (let val = (if is_List val0 then EList (delete_duplicates (clvar val0) delete_existing) else val0)
      in if unset cur then (None, Some val)
         else
           (case cur of
              None \<Rightarrow> (None, Some val)
            | Some dk \<Rightarrow>
                (case (dk, val) of
                   (EDict d, EDict e) \<Rightarrow> (None, Some (EDict (snd (dict_update val d))))
                 | _ \<Rightarrow>
                     step_of cur
                       (if is_List val then unique_list delete_existing key (clvar val) dk
                        else if is_List dk then unique_item delete_existing key val dk
                        else unique_other delete_existing key val dk))))"

definition AppendUnique :: "bool \<Rightarrow> kws \<Rightarrow> env_state \<Rightarrow> env_err option \<times> env_state" where
  "AppendUnique delete_existing kw =
     each_key (append_unique_value delete_existing) (copy_non_reserved_keywords kw)"

definition prepend_unique_value :: "bool \<Rightarrow> var_step" where
  "prepend_unique_value delete_existing key val0 cur =
     (let val = (if is_List val0 then EList (delete_duplicates (clvar val0) (\<not> delete_existing)) else val0)
      in if unset cur then (None, Some val)
         else
           (case cur of
              None \<Rightarrow> (None, Some val)
            | Some dk \<Rightarrow>
                (case (dk, val) of
                   (EDict d, EDict e) \<Rightarrow> (None, Some (EDict (snd (dict_update val d))))
                 | _ \<Rightarrow>
                     step_of cur
                       (if is_List val then
                          (let dk' = (if is_List dk then dk else EList [dk]) in
                           if delete_existing then
                             bind_result (filter_result (not_in val) (clvar dk')) (\<lambda>ds. py_add val (EList ds))
                           else
                             bind_result (filter_result (not_in dk') (clvar val)) (\<lambda>vs. py_add (EList vs) dk'))
                        else if is_List dk then
                          (if delete_existing then
                             bind_result (filter_result (not_in val) (clvar dk)) (\<lambda>ds. Inr (EList (val # ds)))
                           else if mem val (clvar dk) then Inr dk
                           else py_add (EList [val]) dk)
                        else if delete_existing then
                          bind_result (py_iter dk) (\<lambda>xs.
                          bind_result (filter_result (not_in val) xs) (\<lambda>ds. py_add val (EList ds)))
                        else py_add val dk))))"

definition PrependUnique :: "bool \<Rightarrow> kws \<Rightarrow> env_state \<Rightarrow> env_err option \<times> env_state" where
  "PrependUnique delete_existing kw =
     each_key (prepend_unique_value delete_existing) (copy_non_reserved_keywords kw)"

section \<open>Replacing\<close>

text \<open>
  \<open>Replace\<close> gives \<open>BUILDERS\<close> to \<open>__setitem__\<close> and puts the others in without its checks.
\<close>

definition put_all :: "kws \<Rightarrow> edict \<Rightarrow> edict" where
  "put_all kw d = fold (\<lambda>(k, v) d. d(k \<mapsto> v)) kw d"

definition Replace :: "(ev \<Rightarrow> bool) \<Rightarrow> kws \<Rightarrow> env_state \<Rightarrow> env_err option \<times> env_state" where
  "Replace is_builder kw st =
     (let (e, st1) = (case map_of kw ''BUILDERS'' of
                        None \<Rightarrow> (None, st) | Some b \<Rightarrow> set_item is_builder ''BUILDERS'' b st);
          rest = copy_non_reserved_keywords (filter (\<lambda>(k, v). k \<noteq> ''BUILDERS'') kw)
      in case e of
           Some x \<Rightarrow> (Some x, st1)
         | None \<Rightarrow> (None, scanner_map_delete (st1\<lparr>ed_dict := put_all rest (ed_dict st1)\<rparr>)))"

definition SetDefault :: "(ev \<Rightarrow> bool) \<Rightarrow> kws \<Rightarrow> env_state \<Rightarrow> env_err option \<times> env_state" where
  "SetDefault is_builder kw st = Replace is_builder (filter (\<lambda>(k, v). ed_dict st k = None) kw) st"

section \<open>Search paths of the execution environment\<close>

text \<open>
  \<open>AppendENVPath\<close> and \<open>PrependENVPath\<close> with \<open>AppendPath\<close> and \<open>PrependPath\<close> of \<open>PyPath\<close>. A list of
  strings and a string are the values they take.
\<close>

fun ev_strings :: "ev list \<Rightarrow> string list option" where
  "ev_strings [] = Some []"
| "ev_strings (EStr s # xs) = map_option ((#) s) (ev_strings xs)"
| "ev_strings (x # xs) = None"

definition to_pathval :: "ev \<Rightarrow> pathval option" where
  "to_pathval v =
     (case v of
        EStr s \<Rightarrow> Some (PathStr s)
      | EList xs \<Rightarrow> map_option PathList (ev_strings xs)
      | ECLVar xs \<Rightarrow> map_option PathList (ev_strings xs)
      | ETuple xs \<Rightarrow> map_option PathList (ev_strings xs)
      | _ \<Rightarrow> None)"

definition of_pathval :: "pathval \<Rightarrow> ev" where
  "of_pathval p = (case p of PathStr s \<Rightarrow> EStr s | PathList xs \<Rightarrow> EList (map EStr xs))"

definition env_path ::
  "(pathval \<Rightarrow> pathval \<Rightarrow> pathval) \<Rightarrow> string \<Rightarrow> ev \<Rightarrow> string \<Rightarrow> env_state \<Rightarrow> env_err option \<times> env_state" where
  "env_path join name newpath envname st =
     (let vars = (case ed_dict st envname of None \<Rightarrow> Inr [] | Some (EDict d) \<Rightarrow> Inr d | Some _ \<Rightarrow> Inl EnvType)
      in case vars of
           Inl e \<Rightarrow> (Some e, st)
         | Inr d \<Rightarrow>
             (let orig = (case List.find (\<lambda>(k, v). k = EStr name) d of None \<Rightarrow> EStr [] | Some (k, v) \<Rightarrow> v)
              in case (to_pathval orig, to_pathval newpath) of
                   (Some o1, Some n1) \<Rightarrow>
                     (None, st\<lparr>ed_dict := (ed_dict st)(envname \<mapsto>
                        EDict (dict_set (EStr name) (of_pathval (join o1 n1)) d))\<rparr>)
                 | _ \<Rightarrow> (Some EnvAttribute, st)))"

definition canonicalize :: "(string \<Rightarrow> string) \<Rightarrow> string \<Rightarrow> string" where
  "canonicalize top_dir path = (if take 1 path = ''#'' then top_dir path else path)"

definition AppendENVPath ::
  "(string \<Rightarrow> string) \<Rightarrow> string \<Rightarrow> ev \<Rightarrow> string \<Rightarrow> char \<Rightarrow> bool \<Rightarrow> env_state \<Rightarrow> env_err option \<times> env_state" where
  "AppendENVPath top_dir name newpath envname pathsep delete_existing =
     env_path (\<lambda>old new. AppendPath old new pathsep delete_existing (Some (canonicalize top_dir))) name newpath envname"

definition PrependENVPath ::
  "(string \<Rightarrow> string) \<Rightarrow> string \<Rightarrow> ev \<Rightarrow> string \<Rightarrow> char \<Rightarrow> bool \<Rightarrow> env_state \<Rightarrow> env_err option \<times> env_state" where
  "PrependENVPath top_dir name newpath envname pathsep delete_existing =
     env_path (\<lambda>old new. fst (PrependPath old new pathsep delete_existing (Some (canonicalize top_dir)))) name newpath envname"

section \<open>Flags\<close>

text \<open>
  \<open>ParseFlags\<close>: the flags gathered for every variable and the variable the next word belongs to.
  Splitting a command line into words, running a command, and \<open>fs.File\<close> are parameters.
\<close>

type_synonym flags = "string \<Rightarrow> ev list"

definition add_flag :: "string \<Rightarrow> ev \<Rightarrow> flags \<Rightarrow> flags" where
  "add_flag key v fl = fl(key := fl key @ [v])"

definition append_define :: "string \<Rightarrow> flags \<Rightarrow> flags" where
  "append_define name fl =
     (let t = split_on CHR ''='' name in
      add_flag ''CPPDEFINES''
        (if length t = 1 then EStr name else EList [EStr (hd t), EStr (join_with ''='' (tl t))]) fl)"

definition starts :: "string \<Rightarrow> string \<Rightarrow> bool" where
  "starts p arg \<longleftrightarrow> take (length p) arg = p"

definition pending_word :: "(string \<Rightarrow> ev) \<Rightarrow> string \<Rightarrow> string \<Rightarrow> flags \<Rightarrow> flags" where
  "pending_word mkfile p arg fl =
     (if p = ''CPPDEFINES'' then append_define arg fl
      else if p = ''-include'' then add_flag ''CCFLAGS'' (ETuple [EStr ''-include'', mkfile arg]) fl
      else if p = ''-isysroot'' then
        (let t = ETuple [EStr ''-isysroot'', EStr arg] in add_flag ''LINKFLAGS'' t (add_flag ''CCFLAGS'' t fl))
      else if p = ''-isystem'' then add_flag ''CCFLAGS'' (ETuple [EStr ''-isystem'', EStr arg]) fl
      else if p = ''-arch'' then
        (let t = ETuple [EStr ''-arch'', EStr arg] in add_flag ''LINKFLAGS'' t (add_flag ''CCFLAGS'' t fl))
      else add_flag p (EStr arg) fl)"

text \<open>A flag whose argument may be the next word.\<close>

definition joined_or_next :: "string \<Rightarrow> string \<Rightarrow> flags \<Rightarrow> string option \<times> flags" where
  "joined_or_next key arg fl =
     (if drop 2 arg \<noteq> [] then (None, add_flag key (EStr (drop 2 arg)) fl) else (Some key, fl))"

definition both_flags :: "string \<Rightarrow> flags \<Rightarrow> string option \<times> flags" where
  "both_flags arg fl = (None, add_flag ''LINKFLAGS'' (EStr arg) (add_flag ''CCFLAGS'' (EStr arg) fl))"

definition linker_word :: "string \<Rightarrow> flags \<Rightarrow> flags" where
  "linker_word arg fl =
     (if starts ''-Wl,-rpath='' arg then add_flag ''RPATH'' (EStr (drop 11 arg)) fl
      else if starts ''-Wl,-R,'' arg then add_flag ''RPATH'' (EStr (drop 7 arg)) fl
      else if starts ''-Wl,-R'' arg then add_flag ''RPATH'' (EStr (drop 6 arg)) fl
      else add_flag ''LINKFLAGS'' (EStr arg) fl)"

definition has_plus_plus :: "string \<Rightarrow> bool" where
  "has_plus_plus s = substring ''++'' s"

definition parse_word ::
  "(string \<Rightarrow> ev) \<Rightarrow> string \<Rightarrow> string option \<times> flags \<Rightarrow> env_err + string option \<times> flags" where
  "parse_word mkfile arg st =
     (case st of
        (Some p, fl) \<Rightarrow> Inr (None, pending_word mkfile p arg fl)
      | (None, fl) \<Rightarrow>
          if arg = [] then Inl EnvIndex
          else if hd arg \<noteq> CHR ''-'' \<and> hd arg \<noteq> CHR ''+'' then Inr (None, add_flag ''LIBS'' (mkfile arg) fl)
          else if arg = ''-dylib_file'' then Inr (Some ''LINKFLAGS'', add_flag ''LINKFLAGS'' (EStr arg) fl)
          else if starts ''-L'' arg then Inr (joined_or_next ''LIBPATH'' arg fl)
          else if starts ''-l'' arg then Inr (joined_or_next ''LIBS'' arg fl)
          else if starts ''-I'' arg then Inr (joined_or_next ''CPPPATH'' arg fl)
          else if starts ''-Wa,'' arg then
            Inr (None, add_flag ''CCFLAGS'' (EStr arg) (add_flag ''ASFLAGS'' (EStr (drop 4 arg)) fl))
          else if starts ''-Wl,'' arg then Inr (None, linker_word arg fl)
          else if starts ''-Wp,'' arg then Inr (None, add_flag ''CPPFLAGS'' (EStr arg) fl)
          else if starts ''-D'' arg then
            Inr (if drop 2 arg \<noteq> [] then (None, append_define (drop 2 arg) fl) else (Some ''CPPDEFINES'', fl))
          else if arg = ''-framework'' then Inr (Some ''FRAMEWORKS'', fl)
          else if starts ''-frameworkdir='' arg then Inr (None, add_flag ''FRAMEWORKPATH'' (EStr (drop 14 arg)) fl)
          else if starts ''-F'' arg then Inr (joined_or_next ''FRAMEWORKPATH'' arg fl)
          else if arg \<in> {''-mno-cygwin'', ''-pthread'', ''-openmp'', ''-fopenmp''} then Inr (both_flags arg fl)
          else if arg = ''-mwindows'' then Inr (None, add_flag ''LINKFLAGS'' (EStr arg) fl)
          else if starts ''-std='' arg then
            Inr (None, add_flag (if has_plus_plus (drop 5 arg) then ''CXXFLAGS'' else ''CFLAGS'') (EStr arg) fl)
          else if hd arg = CHR ''+'' then Inr (both_flags arg fl)
          else if arg \<in> {''-include'', ''-isysroot'', ''-isystem'', ''-arch''} then Inr (Some arg, fl)
          else Inr (None, add_flag ''CCFLAGS'' (EStr arg) fl))"

fun parse_words ::
  "(string \<Rightarrow> ev) \<Rightarrow> string list \<Rightarrow> string option \<times> flags \<Rightarrow> env_err + string option \<times> flags" where
  "parse_words mkfile [] st = Inr st"
| "parse_words mkfile (w # ws) st = bind_result (parse_word mkfile w st) (parse_words mkfile ws)"

text \<open>\<open>do_parse\<close>: sequences are parsed element by element, a bang runs a command.\<close>

definition parse_string :: "(string \<Rightarrow> ev) \<Rightarrow> (string \<Rightarrow> env_err + string list) \<Rightarrow>
    (string \<Rightarrow> env_err + string) \<Rightarrow> string \<Rightarrow> flags \<Rightarrow> env_err + flags" where
  "parse_string mkfile shlex backtick s fl =
     (if s = [] then Inr fl
      else
        bind_result (if hd s = CHR ''!'' then backtick (tl s) else Inr s) (\<lambda>line.
        bind_result (shlex line) (\<lambda>ws.
        bind_result (parse_words mkfile ws (None, fl)) (\<lambda>(p, fl'). Inr fl'))))"

fun do_parse :: "(string \<Rightarrow> flags \<Rightarrow> env_err + flags) \<Rightarrow> ev \<Rightarrow> flags \<Rightarrow> env_err + flags"
  and do_parse_all :: "(string \<Rightarrow> flags \<Rightarrow> env_err + flags) \<Rightarrow> ev list \<Rightarrow> flags \<Rightarrow> env_err + flags"
  and do_parse_keys :: "(string \<Rightarrow> flags \<Rightarrow> env_err + flags) \<Rightarrow> (ev \<times> ev) list \<Rightarrow> flags \<Rightarrow> env_err + flags" where
  "do_parse p (EStr s) fl = p s fl"
| "do_parse p (EList xs) fl = do_parse_all p xs fl"
| "do_parse p (ECLVar xs) fl = do_parse_all p xs fl"
| "do_parse p (ETuple xs) fl = do_parse_all p xs fl"
| "do_parse p (EDict d) fl = do_parse_keys p d fl"
| "do_parse p ENone fl = Inr fl"
| "do_parse p (EObj n) fl = Inl EnvType"
| "do_parse_all p [] fl = Inr fl"
| "do_parse_all p (x # xs) fl = bind_result (do_parse p x fl) (do_parse_all p xs)"
| "do_parse_keys p [] fl = Inr fl"
| "do_parse_keys p ((k, v) # d) fl = bind_result (do_parse p k fl) (do_parse_keys p d)"

definition flag_lists :: "string list" where
  "flag_lists = [''CPPDEFINES'', ''CPPPATH'', ''LIBPATH'', ''LIBS'', ''RPATH'']"

definition flag_clvars :: "string list" where
  "flag_clvars = [''ASFLAGS'', ''CFLAGS'', ''CCFLAGS'', ''CXXFLAGS'', ''CPPFLAGS'', ''FRAMEWORKPATH'',
     ''FRAMEWORKS'', ''LINKFLAGS'']"

definition flag_dict :: "flags \<Rightarrow> kws" where
  "flag_dict fl = map (\<lambda>k. (k, ECLVar (fl k))) flag_clvars @ map (\<lambda>k. (k, EList (fl k))) flag_lists"

definition ParseFlags :: "(string \<Rightarrow> flags \<Rightarrow> env_err + flags) \<Rightarrow> ev list \<Rightarrow> env_err + kws" where
  "ParseFlags p args = bind_result (do_parse_all p args (\<lambda>_. [])) (\<lambda>fl. Inr (flag_dict fl))"

section \<open>Override environments\<close>

datatype env = Base env_state | Override env edict

text \<open>
  The inherited methods reach \<open>_dict\<close> and \<open>_memo\<close> through \<open>__getattr__\<close>, so they work on the base.
\<close>

fun base_of :: "env \<Rightarrow> env_state" where
  "base_of (Base st) = st"
| "base_of (Override e o1) = base_of e"

fun with_base :: "env_state \<Rightarrow> env \<Rightarrow> env" where
  "with_base st (Base st0) = Base st"
| "with_base st (Override e o1) = Override (with_base st e) o1"

definition on_base :: "(env_state \<Rightarrow> env_err option \<times> env_state) \<Rightarrow> env \<Rightarrow> env_err option \<times> env" where
  "on_base f e = (let (x, st) = f (base_of e) in (x, with_base st e))"

fun env_get :: "env \<Rightarrow> string \<Rightarrow> ev option" where
  "env_get (Base st) key = ed_dict st key"
| "env_get (Override e o1) key = (case o1 key of Some v \<Rightarrow> Some v | None \<Rightarrow> env_get e key)"

definition env_contains :: "env \<Rightarrow> string \<Rightarrow> bool" where
  "env_contains e key \<longleftrightarrow> env_get e key \<noteq> None"

fun env_set :: "(ev \<Rightarrow> bool) \<Rightarrow> string \<Rightarrow> ev \<Rightarrow> env \<Rightarrow> env_err option \<times> env" where
  "env_set is_builder key value (Base st) = (let (e, st') = set_item is_builder key value st in (e, Base st'))"
| "env_set is_builder key value (Override e o1) =
     (if valid_var key then (None, Override e (o1(key \<mapsto> value)))
      else (Some (EnvUser (''Illegal construction variable `'' @ key @ [CHR 0x27])), Override e o1))"

fun env_del :: "string \<Rightarrow> env \<Rightarrow> env_err option \<times> env" where
  "env_del key (Base st) = (let (e, st') = del_item key st in (e, Base st'))"
| "env_del key (Override e o1) =
     (let (x, e') = env_del key e in
      (case x of Some (EnvKey k) \<Rightarrow> if o1 key = None then x else None | _ \<Rightarrow> x,
       Override e' (o1(key := None))))"

fun env_Dictionary :: "env \<Rightarrow> edict" where
  "env_Dictionary (Base st) = ed_dict st"
| "env_Dictionary (Override e o1) = env_Dictionary e ++ o1"

fun env_lvars :: "env \<Rightarrow> edict" where
  "env_lvars (Base st) = (\<lambda>_. None)"
| "env_lvars (Override e o1) = env_lvars e ++ o1"

fun env_gvars :: "env \<Rightarrow> edict" where
  "env_gvars (Base st) = ed_dict st"
| "env_gvars (Override e o1) = env_gvars e"

fun env_Replace :: "(ev \<Rightarrow> bool) \<Rightarrow> kws \<Rightarrow> env \<Rightarrow> env_err option \<times> env" where
  "env_Replace is_builder kw (Base st) = (let (e, st') = Replace is_builder kw st in (e, Base st'))"
| "env_Replace is_builder kw (Override e o1) =
     (None, Override e (put_all (copy_non_reserved_keywords kw) o1))"

definition env_Append :: "kws \<Rightarrow> env \<Rightarrow> env_err option \<times> env" where
  "env_Append kw = on_base (Append kw)"

section \<open>Merging flags\<close>

text \<open>
  The value \<open>MergeFlags\<close> makes of the one there is and a new one: their sum, as \<open>Append\<close> would make it,
  without duplicates, the first one kept of a path and the last one of anything else. The reversal
  asks for a list.
\<close>

fun keep_first :: "ev list \<Rightarrow> ev list \<Rightarrow> ev list" where
  "keep_first t [] = t"
| "keep_first t (v # vs) = keep_first (if mem v t then t else t @ [v]) vs"

fun keep_last :: "ev list \<Rightarrow> ev list \<Rightarrow> ev list" where
  "keep_last t [] = t"
| "keep_last t (v # vs) = keep_last (if mem v t then t else v # t) vs"

definition is_path_var :: "string \<Rightarrow> bool" where
  "is_path_var key \<longleftrightarrow> drop (length key - 4) key = ''PATH''"

definition merged_sum :: "ev option \<Rightarrow> ev \<Rightarrow> env_err + ev" where
  "merged_sum cur value =
     (case cur of
        None \<Rightarrow> Inr value
      | Some orig \<Rightarrow>
          if \<not> truth orig then Inr value
          else
            (case py_add orig value of
               Inr v \<Rightarrow> Inr v
             | Inl _ \<Rightarrow>
                 (case orig of
                    EList xs \<Rightarrow> Inr (EList (xs @ [value]))
                  | _ \<Rightarrow>
                      (case value of EList ys \<Rightarrow> Inr (EList (orig # ys)) | _ \<Rightarrow> Inl EnvAttribute))))"

definition merged_value :: "string \<Rightarrow> ev option \<Rightarrow> ev \<Rightarrow> env_err + ev" where
  "merged_value key cur value =
     bind_result (merged_sum cur value) (\<lambda>orig.
       if is_path_var key then bind_result (py_iter orig) (\<lambda>vs. Inr (EList (keep_first [] vs)))
       else if is_List orig then Inr (EList (keep_last [] (rev (clvar orig))))
       else Inl EnvAttribute)"

fun merge_all :: "(ev \<Rightarrow> bool) \<Rightarrow> kws \<Rightarrow> env \<Rightarrow> env_err option \<times> env" where
  "merge_all is_builder [] e = (None, e)"
| "merge_all is_builder ((key, value) # kw) e =
     (if \<not> truth value then merge_all is_builder kw e
      else
        (case merged_value key (env_get e key) value of
           Inl x \<Rightarrow> (Some x, e)
         | Inr v \<Rightarrow>
             (case env_set is_builder key v e of
                (Some x, e') \<Rightarrow> (Some x, e') | (None, e') \<Rightarrow> merge_all is_builder kw e')))"

text \<open>The flags as a dictionary of keywords, or as anything to parse.\<close>

definition MergeFlags :: "(ev \<Rightarrow> bool) \<Rightarrow> (string \<Rightarrow> flags \<Rightarrow> env_err + flags) \<Rightarrow> kws + ev \<Rightarrow> bool \<Rightarrow> env \<Rightarrow>
    env_err option \<times> env" where
  "MergeFlags is_builder p args uniq e =
     (case (case args of Inl kw \<Rightarrow> Inr kw | Inr v \<Rightarrow> ParseFlags p [v]) of
        Inl x \<Rightarrow> (Some x, e)
      | Inr kw \<Rightarrow> if uniq then merge_all is_builder kw e else env_Append kw e)"

section \<open>Overriding and cloning\<close>

text \<open>
  \<open>scons_subst_once\<close> of a value given to a variable: a reference to the variable itself stands for
  the value it has. \<open>str\<close> is Python's conversion to a string.
\<close>

definition once_value_text :: "(ev \<Rightarrow> string) \<Rightarrow> ev \<Rightarrow> string" where
  "once_value_text str v =
     (case v of
        EList xs \<Rightarrow> join_with '' '' (map str xs) | ECLVar xs \<Rightarrow> join_with '' '' (map str xs)
      | ETuple xs \<Rightarrow> join_with '' '' (map str xs) | EStr s \<Rightarrow> s | _ \<Rightarrow> str v)"

definition once_env_string :: "(ev \<Rightarrow> string) \<Rightarrow> string \<Rightarrow> ev \<Rightarrow> string \<Rightarrow> string" where
  "once_env_string str key val s =
     concat (map (\<lambda>a. if is_dollar a \<and> refers_to key a then once_value_text str val else a) (separate_args s))"

definition once_env_element :: "(ev \<Rightarrow> string) \<Rightarrow> string \<Rightarrow> ev \<Rightarrow> ev \<Rightarrow> ev list" where
  "once_env_element str key val arg =
     (case arg of
        EStr s \<Rightarrow>
          if refers_to key s
          then (case val of EList xs \<Rightarrow> xs | ECLVar xs \<Rightarrow> xs | ETuple xs \<Rightarrow> xs | _ \<Rightarrow> [val])
          else [EStr (once_env_string str key val s)]
      | _ \<Rightarrow> [arg])"

definition once_env :: "(ev \<Rightarrow> string) \<Rightarrow> env \<Rightarrow> string \<Rightarrow> ev \<Rightarrow> ev" where
  "once_env str e key v =
     (let val = (case env_get e key of Some x \<Rightarrow> x | None \<Rightarrow> EStr [])
      in case v of
           EStr s \<Rightarrow> EStr (once_env_string str key val s)
         | EList xs \<Rightarrow> EList (concat (map (once_env_element str key val) xs))
         | ECLVar xs \<Rightarrow> EList (concat (map (once_env_element str key val) xs))
         | ETuple xs \<Rightarrow> EList (concat (map (once_env_element str key val) xs))
         | _ \<Rightarrow> v)"

text \<open>The entries of a dictionary whose keys are strings.\<close>

definition dict_kws :: "(ev \<times> ev) list \<Rightarrow> kws" where
  "dict_kws d = concat (map (\<lambda>(k, v). case k of EStr s \<Rightarrow> [(s, v)] | _ \<Rightarrow> []) d)"

text \<open>\<open>Override\<close>: \<open>parse_flags\<close> is merged into the new environment.\<close>

definition env_Override :: "(ev \<Rightarrow> bool) \<Rightarrow> (string \<Rightarrow> flags \<Rightarrow> env_err + flags) \<Rightarrow> (ev \<Rightarrow> string) \<Rightarrow> kws \<Rightarrow> env \<Rightarrow>
    env_err option \<times> env" where
  "env_Override is_builder p str kw e =
     (let o1 = copy_non_reserved_keywords kw in
      if o1 = [] then (None, e)
      else
        (let vars = filter (\<lambda>(k, v). k \<noteq> ''parse_flags'') o1;
             new = Override e (put_all (map (\<lambda>(k, v). (k, once_env str e k v)) vars) (\<lambda>_. None))
         in case map_of o1 ''parse_flags'' of
              Some m \<Rightarrow>
                if truth m then
                  MergeFlags is_builder p (case m of EDict d \<Rightarrow> Inl (dict_kws d) | _ \<Rightarrow> Inr m) True new
                else (None, new)
            | None \<Rightarrow> (None, new)))"

text \<open>
  \<open>Clone\<close>: the passed variables are put in before the tools run, so that these can use them, and again
  afterwards. \<open>run_tools\<close> is what applying the tools does.
\<close>

definition merge_flags_in ::
  "(ev \<Rightarrow> bool) \<Rightarrow> (string \<Rightarrow> flags \<Rightarrow> env_err + flags) \<Rightarrow> (kws + ev) option \<Rightarrow> env_state \<Rightarrow> env_err option \<times> env_state" where
  "merge_flags_in is_builder p parse_flags st =
     (case parse_flags of
        None \<Rightarrow> (None, st)
      | Some a \<Rightarrow> (let (x, e) = MergeFlags is_builder p a True (Base st) in (x, base_of e)))"

definition env_Clone :: "(ev \<Rightarrow> bool) \<Rightarrow> (string \<Rightarrow> flags \<Rightarrow> env_err + flags) \<Rightarrow> (ev \<Rightarrow> string) \<Rightarrow>
    (env_state \<Rightarrow> env_state) \<Rightarrow> (kws + ev) option \<Rightarrow> kws \<Rightarrow> env_state \<Rightarrow> env_err option \<times> env_state" where
  "env_Clone is_builder p str run_tools parse_flags kw st =
     (let clone = st\<lparr>ed_gsm := None\<rparr>;
          new = map (\<lambda>(k, v). (k, once_env str (Base st) k v)) (copy_non_reserved_keywords kw);
          (e, st1) = Replace is_builder new clone
      in case e of
           Some x \<Rightarrow> (Some x, st1)
         | None \<Rightarrow>
             (let (e2, st2) = Replace is_builder new (run_tools st1) in
              case e2 of Some x \<Rightarrow> (Some x, st2) | None \<Rightarrow> merge_flags_in is_builder p parse_flags st2))"

text \<open>
  The construction of an environment: the defaults, the platform, the passed variables, the option
  variables, the tools, and again the variables that were passed or declared as options.
\<close>

definition passed_values :: "string list \<Rightarrow> edict \<Rightarrow> edict" where
  "passed_values keys d = (\<lambda>k. if k \<in> set keys then d k else None)"

definition env_init :: "(ev \<Rightarrow> bool) \<Rightarrow> (string \<Rightarrow> flags \<Rightarrow> env_err + flags) \<Rightarrow> edict \<Rightarrow> (env_state \<Rightarrow> env_state) \<Rightarrow>
    (env_state \<Rightarrow> env_state) \<Rightarrow> string list \<Rightarrow> (env_state \<Rightarrow> env_state) \<Rightarrow> (kws + ev) option \<Rightarrow> kws \<Rightarrow>
    env_err option \<times> env_state" where
  "env_init is_builder p defaults platform update_variables option_keys run_tools parse_flags kw =
     (let st0 = platform \<lparr>ed_dict = defaults, ed_gsm = None\<rparr>;
          none_of = (\<lambda>d. foldr (\<lambda>k d. if d k = None then d(k \<mapsto> ENone) else d)
                        [''HOST_OS'', ''HOST_ARCH'', ''TARGET_OS'', ''TARGET_ARCH''] d);
          st1 = st0\<lparr>ed_dict := none_of (ed_dict st0)\<rparr>;
          (e, st2) = Replace is_builder kw st1
      in case e of
           Some x \<Rightarrow> (Some x, st2)
         | None \<Rightarrow>
             (let st3 = update_variables st2;
                  save = passed_values (map fst kw @ option_keys) (ed_dict st3);
                  st4 = run_tools st3
              in merge_flags_in is_builder p parse_flags (st4\<lparr>ed_dict := ed_dict st4 ++ save\<rparr>)))"

section \<open>Reading dependencies and names\<close>

text \<open>
  \<open>ParseDepends\<close>: the targets and dependencies of a file of lines; \<open>split\<close> breaks at blanks. An empty
  line of the file keeps its newline, so every line has a first character.
\<close>

definition depends_of :: "string list \<Rightarrow> (string list \<times> string list) list" where
  "depends_of lines =
     map (\<lambda>l. let t = takeWhile (\<lambda>c. c \<noteq> CHR '':'') l in (words_of [] t, words_of [] (drop (length t + 1) l)))
       (filter (\<lambda>l. CHR '':'' \<in> set l) (filter (\<lambda>l. take 1 l \<noteq> ''#'') lines))"

definition ParseDepends ::
  "string option \<Rightarrow> bool \<Rightarrow> bool \<Rightarrow> (string \<Rightarrow> string list) \<Rightarrow> env_err + (string list \<times> string list) list" where
  "ParseDepends contents must_exist only_one physical_lines =
     (case contents of
        None \<Rightarrow> if must_exist then Inl (EnvOther ''IOError'') else Inr []
      | Some text \<Rightarrow>
          (let td = depends_of (logical_lines (physical_lines text)) in
           if only_one \<and> length (concat (map fst td)) > 1
           then Inl (EnvUser ''More than one dependency target found'')
           else Inr td))"

text \<open>\<open>FindIxes\<close> and \<open>ReplaceIxes\<close>, of the names of the paths; \<open>s[-0:]\<close> is all of \<open>s\<close>.\<close>

definition last_chars :: "nat \<Rightarrow> string \<Rightarrow> string" where
  "last_chars n s = (if n = 0 then s else drop (length s - n) s)"

definition has_ixes :: "string \<Rightarrow> string \<Rightarrow> string \<Rightarrow> bool" where
  "has_ixes prefix suffix path =
     (let name = snd (path_split path)
      in take (length prefix) name = prefix \<and> last_chars (length suffix) name = suffix)"

definition FindIxes :: "(string \<Rightarrow> string) \<Rightarrow> string list \<Rightarrow> string \<Rightarrow> string \<Rightarrow> string option" where
  "FindIxes subst paths prefix suffix =
     List.find (has_ixes (subst (''$'' @ prefix)) (subst (''$'' @ suffix))) paths"

definition drop_last_chars :: "nat \<Rightarrow> string \<Rightarrow> string" where
  "drop_last_chars n s = (if n = 0 then [] else take (length s - n) s)"

definition ReplaceIxes ::
  "(string \<Rightarrow> string) \<Rightarrow> string \<Rightarrow> string \<Rightarrow> string \<Rightarrow> string \<Rightarrow> string \<Rightarrow> string" where
  "ReplaceIxes subst path old_prefix old_suffix new_prefix new_suffix =
     (let op = subst (''$'' @ old_prefix); os = subst (''$'' @ old_suffix);
          (dir, name) = path_split path;
          n1 = (if take (length op) name = op then drop (length op) name else name);
          n2 = (if last_chars (length os) n1 = os then drop_last_chars (length os) n1 else n1)
      in path_join dir (subst (''$'' @ new_prefix) @ n2 @ subst (''$'' @ new_suffix)))"

end
