(* ===== verification/EnvProps.thy ===== *)
theory EnvProps
  imports Environment
begin

text \<open>
  Properties of \<open>Environment\<close>: what appending and merging keep, unique values, reserved variables, the
  scanner map, override environments, and the variables passed to a new environment.
\<close>

section \<open>Single variables\<close>

lemma each_key_one:
  "each_key step [(key, val)] st =
    (case step key val (ed_dict st key) of
       (None, v) \<Rightarrow> (None, scanner_map_delete (st\<lparr>ed_dict := (ed_dict st)(key := v)\<rparr>))
     | (Some e, v) \<Rightarrow> (Some e, st\<lparr>ed_dict := (ed_dict st)(key := v)\<rparr>))"
  by (auto split: prod.splits option.splits)

lemma each_key_other:
  "k \<notin> fst ` set kw \<Longrightarrow> ed_dict (snd (each_key step kw st)) k = ed_dict st k"
proof (induction step kw st rule: each_key.induct)
  case (2 step key val kw st)
  obtain e v where ev: "step key val (ed_dict st key) = (e, v)" by fastforce
  show ?case using 2 ev by (cases e) (auto simp: Let_def)
qed (simp add: scanner_map_delete_def)

lemma non_reserved_keys: "k \<in> set reserved_names \<Longrightarrow> k \<notin> fst ` set (copy_non_reserved_keywords kw)"
  by (auto simp: copy_non_reserved_keywords_def)

lemma copy_one [simp]: "key \<notin> set reserved_names \<Longrightarrow> copy_non_reserved_keywords [(key, val)] = [(key, val)]"
  by (simp add: copy_non_reserved_keywords_def)

lemma scanner_map_delete_dict [simp]: "ed_dict (scanner_map_delete st) = ed_dict st"
  by (simp add: scanner_map_delete_def)

lemma put_all_other: "k \<notin> fst ` set kw \<Longrightarrow> put_all kw d k = d k"
  by (induction kw arbitrary: d) (auto simp: put_all_def)

lemma put_all_passed: "distinct (map fst kw) \<Longrightarrow> (k, v) \<in> set kw \<Longrightarrow> put_all kw d k = Some v"
proof (induction kw arbitrary: d)
  case (Cons x kw)
  then show ?case
  proof (cases "x = (k, v)")
    case True
    then show ?thesis using Cons.prems(1) put_all_other [of k kw "d(k \<mapsto> v)"] by (simp add: put_all_def)
  next
    case False
    then have kw: "(k, v) \<in> set kw" "distinct (map fst kw)" using Cons.prems by auto
    obtain a b where x: "x = (a, b)" by fastforce
    have "put_all (x # kw) d = put_all kw (d(a \<mapsto> b))" by (simp add: put_all_def x)
    then show ?thesis using Cons.IH [OF kw(2,1)] by simp
  qed
qed simp

lemma set_item_other: "k \<noteq> key \<Longrightarrow> ed_dict (snd (set_item b key v st)) k = ed_dict st k"
  by (auto simp: set_item_def set_BUILDERS_def Let_def split: option.splits ev.splits)

lemma reserved_not_special: "k \<in> set reserved_names \<Longrightarrow> k \<noteq> ''BUILDERS'' \<and> k \<noteq> ''SCANNERS''"
  by (auto simp: reserved_names_def)

lemma Replace_other:
  assumes "k \<notin> fst ` set kw \<or> k \<in> set reserved_names" and "k \<noteq> ''BUILDERS''"
  shows "ed_dict (snd (Replace b kw st)) k = ed_dict st k"
proof -
  have "k \<notin> fst ` set (copy_non_reserved_keywords (filter (\<lambda>(k, v). k \<noteq> ''BUILDERS'') kw))"
    using assms(1) by (auto simp: copy_non_reserved_keywords_def)
  moreover have "ed_dict (snd (set_item b ''BUILDERS'' x st)) k = ed_dict st k" for x
    by (rule set_item_other [OF assms(2)])
  ultimately show ?thesis
    by (auto simp: Replace_def put_all_other Let_def split: prod.splits option.splits; metis snd_conv)
qed

lemma Replace_dict:
  "Replace b kw st = (None, st') \<Longrightarrow>
    \<exists>d. ed_dict st' = put_all (copy_non_reserved_keywords (filter (\<lambda>(k, v). k \<noteq> ''BUILDERS'') kw)) d"
  unfolding Replace_def Let_def by (auto split: prod.splits option.splits intro!: exI)

section \<open>Strings\<close>

lemma unset_strings [simp]: "unset (Some (EList xs)) = False"
  by (simp add: unset_def)

lemma delete_duplicates_strings:
  "delete_duplicates (map EStr vs) keep = map EStr (if keep then rev (dedup (rev vs)) else dedup vs)"
  using delete_first_strings [of "[]" vs] delete_first_strings [of "[]" "rev vs"]
  by (simp add: delete_duplicates_def rev_map)

lemma clvar_list [simp]: "clvar (EList xs) = xs" "is_List (EList xs)"
  by (simp_all add: clvar_def)

lemma py_add_lists [simp]: "py_add (EList xs) (EList ys) = Inr (EList (xs @ ys))"
  by (simp add: py_add_def)

lemma filter_substrings:
  "filter_result (not_in (EStr v)) (map EStr ws) = Inr (map EStr (filter (\<lambda>w. \<not> substring w v) ws))"
  by (induction ws) (auto simp: not_in_def py_in_def)

lemma keep_first_strings:
  "keep_first (map EStr t) (map EStr vs) = map EStr (t @ dedup_by (\<lambda>x. x) (set t) vs)"
proof (induction vs arbitrary: t)
  case (Cons v vs)
  show ?case using Cons [of t] Cons [of "t @ [v]"] by simp
qed simp

lemma keep_last_strings:
  "keep_last (map EStr t) (map EStr vs) = map EStr (rev (dedup_by (\<lambda>x. x) (set t) vs) @ t)"
proof (induction vs arbitrary: t)
  case (Cons v vs)
  show ?case using Cons [of t] Cons [of "v # t"] by simp
qed simp

section \<open>Looking up\<close>

lemma env_Dictionary_get: "env_Dictionary e k = env_get e k"
  by (induction e) (auto simp: map_add_def split: option.splits)

lemma env_vars_get: "(env_gvars e ++ env_lvars e) k = env_get e k"
proof (induction e)
  case (Override e o1)
  then show ?case by (auto simp: map_add_def split: option.splits)
qed simp

lemma base_with_base [simp]: "base_of (with_base st e) = st"
  by (induction e) simp_all

section \<open>The scanner map\<close>

definition gsm_ok :: "(ev \<Rightarrow> string list) \<Rightarrow> env_state \<Rightarrow> bool" where
  "gsm_ok skeys st \<longleftrightarrow> (\<forall>m. ed_gsm st = Some m \<longrightarrow> m = build_gsm skeys (ed_dict st))"

lemma build_gsm_cong:
  assumes "d ''SCANNERS'' = d' ''SCANNERS''" and "d ''PLATFORM'' = d' ''PLATFORM''"
  shows "build_gsm skeys d = build_gsm skeys d'"
proof -
  have "scanner_list d = scanner_list d'" using assms(1) by (simp add: scanner_list_def)
  moreover have "gsm_keys skeys d = gsm_keys skeys d'"
    using assms(2) by (simp add: gsm_keys_def [abs_def] on_windows_def)
  ultimately show ?thesis by (simp add: build_gsm_def)
qed

lemma gsm_ok_delete [simp]: "gsm_ok skeys (scanner_map_delete st)"
  by (simp add: gsm_ok_def scanner_map_delete_def)

lemma gsm_ok_each_key: "fst (each_key step kw st) = None \<Longrightarrow> gsm_ok skeys (snd (each_key step kw st))"
proof (induction step kw st rule: each_key.induct)
  case (2 step key val kw st)
  obtain e v where ev: "step key val (ed_dict st key) = (e, v)" by fastforce
  show ?case using 2 ev by (cases e) (auto simp: Let_def)
qed simp

lemma gsm_ok_same:
  assumes "gsm_ok skeys st" and "ed_gsm st' = ed_gsm st"
    and "ed_dict st' ''SCANNERS'' = ed_dict st ''SCANNERS''" and "ed_dict st' ''PLATFORM'' = ed_dict st ''PLATFORM''"
  shows "gsm_ok skeys st'"
  using assms build_gsm_cong [OF assms(3,4)] by (simp add: gsm_ok_def)

text \<open>Earlier scanners overwrite later ones.\<close>

lemma fold_keys: "fold (\<lambda>k m. m(k \<mapsto> s)) ks m k = (if k \<in> set ks then Some s else m k)"
  by (induction ks arbitrary: m) auto

lemma fold_scanners:
  "fold (\<lambda>s m. fold (\<lambda>k m. m(k \<mapsto> s)) (keys s) m) (rev ss) (\<lambda>_. None) k =
    List.find (\<lambda>s. k \<in> set (keys s)) ss"
  by (induction ss) (simp_all add: fold_keys del: fun_upd_apply)

lemma build_gsm_find: "build_gsm skeys d k = List.find (\<lambda>s. k \<in> set (gsm_keys skeys d s)) (scanner_list d)"
  unfolding build_gsm_def by (rule fold_scanners)

lemma get_scanner_ok:
  assumes "gsm_ok skeys st"
  shows "gsm_ok skeys (snd (get_scanner skeys k st))"
    and "fst (get_scanner skeys k st) =
      build_gsm skeys (ed_dict st) (if k \<noteq> [] \<and> on_windows (ed_dict st) then lower k else k)"
  using assms by (auto simp: get_scanner_def gsm_def gsm_ok_def Let_def split: option.splits)

section \<open>Flags\<close>

lemma parse_words_append:
  "parse_words f (xs @ ys) st = bind_result (parse_words f xs st) (parse_words f ys)"
proof (induction xs arbitrary: st)
  case (Cons x xs)
  then show ?case by (cases "parse_word f x st") auto
qed simp

lemma parse_prefixed:
  assumes "\<And>w fl. w \<in> set ws \<Longrightarrow> parse_word f (pre @ w) (None, fl) = Inr (None, add_flag key (EStr w) fl)"
  shows "parse_words f (map ((@) pre) ws) (None, fl) = Inr (None, fl(key := fl key @ map EStr ws))"
  using assms
proof (induction ws arbitrary: fl)
  case (Cons w ws)
  have "parse_words f (map ((@) pre) ws) (None, g) = Inr (None, g(key := g key @ map EStr ws))" for g
    by (rule Cons.IH) (rule Cons.prems, simp)
  then show ?case using Cons.prems [of w fl] by (simp add: add_flag_def fun_upd_def cong: if_cong)
qed simp

lemma parse_simple_words:
  assumes "w \<noteq> []"
  shows "parse_word f (''-L'' @ w) (None, fl) = Inr (None, add_flag ''LIBPATH'' (EStr w) fl)"
    and "parse_word f (''-l'' @ w) (None, fl) = Inr (None, add_flag ''LIBS'' (EStr w) fl)"
    and "parse_word f (''-I'' @ w) (None, fl) = Inr (None, add_flag ''CPPPATH'' (EStr w) fl)"
    and "CHR ''='' \<notin> set w \<Longrightarrow>
      parse_word f (''-D'' @ w) (None, fl) = Inr (None, add_flag ''CPPDEFINES'' (EStr w) fl)"
proof -
  show "parse_word f (''-L'' @ w) (None, fl) = Inr (None, add_flag ''LIBPATH'' (EStr w) fl)"
    using assms by (simp add: parse_word_def starts_def joined_or_next_def)
  show "parse_word f (''-l'' @ w) (None, fl) = Inr (None, add_flag ''LIBS'' (EStr w) fl)"
    using assms by (simp add: parse_word_def starts_def joined_or_next_def)
  show "parse_word f (''-I'' @ w) (None, fl) = Inr (None, add_flag ''CPPPATH'' (EStr w) fl)"
    using assms by (simp add: parse_word_def starts_def joined_or_next_def)
  assume "CHR ''='' \<notin> set w"
  then have "split_on CHR ''='' w = [w]" using split_join [of "[w]" "CHR ''=''"] by simp
  then show "parse_word f (''-D'' @ w) (None, fl) = Inr (None, add_flag ''CPPDEFINES'' (EStr w) fl)"
    using assms by (simp add: parse_word_def starts_def append_define_def)
qed

section \<open>Properties\<close>

text \<open>
  \<open>AppendUnique\<close> of strings to a list of strings: what was there stays in its place and the new
  strings follow in order, each once; with \<open>delete_existing\<close> the new strings, each at its last place,
  come after what is left of the old ones.
\<close>

theorem append_unique_strings:
  assumes "ed_dict st key = Some (EList (map EStr dk))" and "key \<notin> set reserved_names" and "key \<noteq> ''CPPDEFINES''"
  shows "AppendUnique delete_existing [(key, EList (map EStr vs))] st =
    (None, scanner_map_delete (st\<lparr>ed_dict := (ed_dict st)(key \<mapsto> EList (map EStr
       (if delete_existing then filter (\<lambda>w. w \<notin> set vs) dk @ rev (dedup (rev vs))
        else dk @ filter (\<lambda>w. w \<notin> set dk) (dedup vs))))\<rparr>))"
proof (cases delete_existing)
  case True
  have "set (rev (dedup (rev vs))) = set vs" using key_set_dedup_by [of "\<lambda>x. x" "{}" "rev vs"] by simp
  then have "append_unique_value delete_existing key (EList (map EStr vs)) (ed_dict st key) =
      (None, Some (EList (map EStr (filter (\<lambda>w. w \<notin> set vs) dk @ rev (dedup (rev vs))))))"
    using True assms(1,3) filter_not_in_strings [of "rev (dedup (rev vs))" dk]
    by (simp add: append_unique_value_def delete_duplicates_strings unique_list_def step_of_def del: set_rev)
  then show ?thesis using True assms(2) by (simp add: AppendUnique_def each_key_one del: each_key.simps)
next
  case False
  have "append_unique_value delete_existing key (EList (map EStr vs)) (ed_dict st key) =
      (None, Some (EList (map EStr (dk @ filter (\<lambda>w. w \<notin> set dk) (dedup vs)))))"
    using False assms(1,3)
    by (simp add: append_unique_value_def delete_duplicates_strings unique_list_def step_of_def filter_not_in_strings)
  then show ?thesis using False assms(2) by (simp add: AppendUnique_def each_key_one del: each_key.simps)
qed

theorem append_unique_strings_witness:
  "ed_dict (snd (AppendUnique False [(''LIBS'', EList [EStr ''z'', EStr ''m'', EStr ''z''])]
     \<lparr>ed_dict = [''LIBS'' \<mapsto> EList [EStr ''m'']], ed_gsm = None\<rparr>)) ''LIBS'' = Some (EList [EStr ''m'', EStr ''z''])"
  using append_unique_strings [of "\<lparr>ed_dict = [''LIBS'' \<mapsto> EList [EStr ''m'']], ed_gsm = None\<rparr>" "''LIBS''" "[''m'']"
    False "[''z'', ''m'', ''z'']"] by (simp add: reserved_names_def)

text \<open>
  Appending a string uniquely to a list, with \<open>delete_existing\<close>, deletes every element that is a
  part of the string, not only those equal to it.
\<close>

theorem append_unique_deletes_substrings:
  assumes "ed_dict st key = Some (EList (map EStr dk))" and "key \<notin> set reserved_names" and "key \<noteq> ''CPPDEFINES''"
  shows "AppendUnique True [(key, EStr v)] st =
    (None, scanner_map_delete (st\<lparr>ed_dict := (ed_dict st)(key \<mapsto>
       EList (map EStr (filter (\<lambda>w. \<not> substring w v) dk @ [v])))\<rparr>))"
proof -
  have "append_unique_value True key (EStr v) (ed_dict st key) =
      (None, Some (EList (map EStr (filter (\<lambda>w. \<not> substring w v) dk @ [v]))))"
    using assms(1,3) by (simp add: append_unique_value_def unique_item_def step_of_def filter_substrings)
  then show ?thesis using assms(2) by (simp add: AppendUnique_def each_key_one del: each_key.simps)
qed

theorem append_unique_deletes_substrings_witness:
  "ed_dict (snd (AppendUnique True [(''LIBS'', EStr ''xyz'')]
     \<lparr>ed_dict = [''LIBS'' \<mapsto> EList [EStr ''y'', EStr ''m'']], ed_gsm = None\<rparr>)) ''LIBS'' =
   Some (EList [EStr ''m'', EStr ''xyz''])"
  using append_unique_deletes_substrings [of "\<lparr>ed_dict = [''LIBS'' \<mapsto> EList [EStr ''y'', EStr ''m'']], ed_gsm = None\<rparr>"
    "''LIBS''" "[''y'', ''m'']" "''xyz''"] by (simp add: reserved_names_def)

text \<open>
  Appending and prepending lose nothing: whatever is added to a list, the variable is a list
  afterwards that begins, or ends, with the elements it had, and no error is raised.
\<close>

theorem append_keeps_old:
  assumes "ed_dict st key = Some (EList xs)" and "key \<notin> set reserved_names"
  shows "\<exists>st1 st2 v1 v2 new1 new2.
    Append [(key, val)] st = (None, st1) \<and> ed_dict st1 key = Some v1 \<and> is_List v1 \<and> clvar v1 = xs @ new1 \<and>
    Prepend [(key, val)] st = (None, st2) \<and> ed_dict st2 key = Some v2 \<and> is_List v2 \<and> clvar v2 = new2 @ xs"
proof -
  have "\<exists>v new. append_value key val (Some (EList xs)) = (None, Some v) \<and> is_List v \<and> clvar v = xs @ new"
    by (cases val) (auto simp: append_value_def py_add_def clvar_def)
  moreover have "\<exists>v new. prepend_value key val (Some (EList xs)) = (None, Some v) \<and> is_List v \<and> clvar v = new @ xs"
    by (cases val) (auto simp: prepend_value_def py_add_def clvar_def)
  ultimately obtain v1 new1 v2 new2 where
    a: "append_value key val (Some (EList xs)) = (None, Some v1)" "is_List v1" "clvar v1 = xs @ new1" and
    b: "prepend_value key val (Some (EList xs)) = (None, Some v2)" "is_List v2" "clvar v2 = new2 @ xs" by metis
  have "Append [(key, val)] st = (None, scanner_map_delete (st\<lparr>ed_dict := (ed_dict st)(key \<mapsto> v1)\<rparr>))"
    "Prepend [(key, val)] st = (None, scanner_map_delete (st\<lparr>ed_dict := (ed_dict st)(key \<mapsto> v2)\<rparr>))"
    using a b assms by (simp_all add: Append_def Prepend_def each_key_one del: each_key.simps)
  then show ?thesis using a b by fastforce
qed

theorem append_keeps_old_witness:
  "\<exists>st1 v1 new1. Append [(''CCFLAGS'', ETuple [EStr ''-O2''])]
     \<lparr>ed_dict = [''CCFLAGS'' \<mapsto> EList [EStr ''-g'']], ed_gsm = None\<rparr> = (None, st1) \<and>
     ed_dict st1 ''CCFLAGS'' = Some v1 \<and> clvar v1 = EStr ''-g'' # new1"
  using append_keeps_old [of "\<lparr>ed_dict = [''CCFLAGS'' \<mapsto> EList [EStr ''-g'']], ed_gsm = None\<rparr>" "''CCFLAGS''"
    "[EStr ''-g'']" "ETuple [EStr ''-O2'']"] by (auto simp: reserved_names_def)

text \<open>
  \<open>MergeFlags\<close> leaves each flag once: of a path variable the first occurrence in the old and the new
  flags, of any other the last.
\<close>

theorem merge_flags_unique:
  assumes "ed_dict st key = Some (EList (map EStr xs))" and "ys \<noteq> []"
    and "key \<notin> set reserved_names \<union> {''BUILDERS'', ''SCANNERS''}"
  shows "MergeFlags is_builder p (Inl [(key, EList (map EStr ys))]) True (Base st) =
    (None, Base (st\<lparr>ed_dict := (ed_dict st)(key \<mapsto> EList (map EStr
       (if is_path_var key then dedup (xs @ ys) else rev (dedup (rev (xs @ ys))))))\<rparr>))"
proof -
  have "merged_sum (Some (EList (map EStr xs))) (EList (map EStr ys)) = Inr (EList (map EStr (xs @ ys)))"
    by (simp add: merged_sum_def)
  then have "merged_value key (Some (EList (map EStr xs))) (EList (map EStr ys)) = Inr (EList (map EStr
      (if is_path_var key then dedup (xs @ ys) else rev (dedup (rev (xs @ ys))))))"
    using keep_first_strings [of "[]" "xs @ ys"] keep_last_strings [of "[]" "rev (xs @ ys)"]
    by (simp add: merged_value_def py_iter_def rev_map)
  then show ?thesis using assms by (simp add: MergeFlags_def set_item_def)
qed

theorem merge_flags_unique_witness:
  "snd (MergeFlags (\<lambda>_. False) (\<lambda>_ fl. Inr fl) (Inl [(''CCFLAGS'', EList (map EStr [''-g'', ''-m'']))]) True
     (Base \<lparr>ed_dict = [''CCFLAGS'' \<mapsto> EList (map EStr [''-g'', ''-O''])], ed_gsm = None\<rparr>)) =
   Base \<lparr>ed_dict = [''CCFLAGS'' \<mapsto> EList (map EStr [''-O'', ''-g'', ''-m''])], ed_gsm = None\<rparr>"
  using merge_flags_unique [of "\<lparr>ed_dict = [''CCFLAGS'' \<mapsto> EList (map EStr [''-g'', ''-O''])], ed_gsm = None\<rparr>"
    "''CCFLAGS''" "[''-g'', ''-O'']" "[''-g'', ''-m'']" "\<lambda>_. False" "\<lambda>_ fl. Inr fl"]
  by (simp add: reserved_names_def is_path_var_def)

text \<open>
  Search paths, libraries and defines on a command line come back in order: words with the
  prefixes \<open>-I\<close>, \<open>-L\<close>, \<open>-l\<close> and \<open>-D\<close> are parsed into exactly the lists they were made from.
\<close>

theorem parse_flags_round_trip:
  assumes "[] \<notin> set incs \<union> set dirs \<union> set libs \<union> set defs" and "\<forall>d\<in>set defs. CHR ''='' \<notin> set d"
  shows "parse_words mkfile (map ((@) ''-I'') incs @ map ((@) ''-L'') dirs @ map ((@) ''-l'') libs @
      map ((@) ''-D'') defs) (None, \<lambda>_. []) =
    Inr (None, (\<lambda>_. [])(''CPPPATH'' := map EStr incs, ''LIBPATH'' := map EStr dirs, ''LIBS'' := map EStr libs,
      ''CPPDEFINES'' := map EStr defs))"
proof -
  have "parse_words mkfile (map ((@) ''-I'') incs) (None, fl) = Inr (None, fl(''CPPPATH'' := fl ''CPPPATH'' @ map EStr incs))"
    "parse_words mkfile (map ((@) ''-L'') dirs) (None, fl) = Inr (None, fl(''LIBPATH'' := fl ''LIBPATH'' @ map EStr dirs))"
    "parse_words mkfile (map ((@) ''-l'') libs) (None, fl) = Inr (None, fl(''LIBS'' := fl ''LIBS'' @ map EStr libs))"
    "parse_words mkfile (map ((@) ''-D'') defs) (None, fl) =
      Inr (None, fl(''CPPDEFINES'' := fl ''CPPDEFINES'' @ map EStr defs))" for fl
    by (rule parse_prefixed, rule parse_simple_words, use assms in auto)+
  then show ?thesis by (simp add: parse_words_append)
qed

theorem parse_flags_round_trip_witness:
  "parse_words EStr [''-Iinc'', ''-lm'', ''-DX''] (None, \<lambda>_. []) =
    Inr (None, (\<lambda>_. [])(''CPPPATH'' := [EStr ''inc''], ''LIBPATH'' := [], ''LIBS'' := [EStr ''m''],
      ''CPPDEFINES'' := [EStr ''X'']))"
  using parse_flags_round_trip [of "[''inc'']" "[]" "[''m'']" "[''X'']" EStr] by simp

text \<open>
  Appending through an override environment misses its target: the environment keeps every value
  it overrides, the append changes the environment below instead, exactly as if it had been called
  there.
\<close>

theorem override_append_leaks:
  assumes "o1 key = Some v"
  shows "env_Append [(key, val)] (Override e o1) =
      (fst (env_Append [(key, val)] e), Override (snd (env_Append [(key, val)] e)) o1) \<and>
    env_get (snd (env_Append [(key, val)] (Override e o1))) key = Some v"
  using assms by (simp add: env_Append_def on_base_def split: prod.splits)

theorem override_append_leaks_witness:
  "let e = Override (Base \<lparr>ed_dict = [''LIBS'' \<mapsto> EList []], ed_gsm = None\<rparr>) [''LIBS'' \<mapsto> EList [EStr ''m'']]
   in env_get (snd (env_Append [(''LIBS'', EList [EStr ''z''])] e)) ''LIBS'' = Some (EList [EStr ''m''])"
  using override_append_leaks [of "[''LIBS'' \<mapsto> EList [EStr ''m'']]" "''LIBS''" "EList [EStr ''m'']"
    "EList [EStr ''z'']" "Base \<lparr>ed_dict = [''LIBS'' \<mapsto> EList []], ed_gsm = None\<rparr>"]
  by (simp only: Let_def) (simp add: fun_upd_same)

text \<open>
  An override environment looks the same from every side: indexing it, its \<open>Dictionary\<close>, and the
  variables substitution is given, local ones before global ones, agree on every name.
\<close>

theorem override_views_agree:
  "env_Dictionary e k = env_get e k \<and> (env_gvars e ++ env_lvars e) k = env_get e k"
  by (simp add: env_Dictionary_get env_vars_get)

text \<open>
  Setting an item or replacing variables of an override environment changes that name for it and
  leaves the environment below as it is.
\<close>

theorem override_is_isolated:
  assumes "valid_var key" and "key \<notin> set reserved_names"
  shows "\<exists>o2. env_set is_builder key v (Override e o1) = (None, Override e o2) \<and>
    env_Replace is_builder [(key, v)] (Override e o1) = (None, Override e o2) \<and>
    env_get (Override e o2) key = Some v \<and> (\<forall>k. k \<noteq> key \<longrightarrow> env_get (Override e o2) k = env_get (Override e o1) k)"
  using assms by (intro exI [of _ "o1(key \<mapsto> v)"]) (simp add: put_all_def)

theorem override_is_isolated_witness:
  "\<exists>o2. env_set (\<lambda>_. False) ''CC'' (EStr ''gcc'') (Override (Base \<lparr>ed_dict = Map.empty, ed_gsm = None\<rparr>) Map.empty) =
    (None, Override (Base \<lparr>ed_dict = Map.empty, ed_gsm = None\<rparr>) o2) \<and> o2 ''CC'' = Some (EStr ''gcc'')"
proof -
  have "valid_var ''CC''" "''CC'' \<notin> set reserved_names" by code_simp+
  from override_is_isolated [OF this, of "\<lambda>_. False" "EStr ''gcc''" "Base \<lparr>ed_dict = Map.empty, ed_gsm = None\<rparr>" Map.empty]
  show ?thesis by (auto split: option.splits)
qed

text \<open>
  The memoized scanner map is always the one that would be built now, after every operation that
  succeeds (changes of \<open>PLATFORM\<close> excepted), so \<open>get_scanner\<close> gives the first scanner of the list that
  has the key.
\<close>

theorem scanner_map_current:
  assumes "gsm_ok skeys st" and "key \<noteq> ''PLATFORM''"
  shows "gsm_ok skeys (snd (set_item b key v st)) \<and> gsm_ok skeys (snd (del_item key st)) \<and>
    (fst (Append kw st) = None \<longrightarrow> gsm_ok skeys (snd (Append kw st))) \<and>
    (fst (Prepend kw st) = None \<longrightarrow> gsm_ok skeys (snd (Prepend kw st))) \<and>
    (fst (AppendUnique u kw st) = None \<longrightarrow> gsm_ok skeys (snd (AppendUnique u kw st))) \<and>
    (fst (PrependUnique u kw st) = None \<longrightarrow> gsm_ok skeys (snd (PrependUnique u kw st))) \<and>
    (fst (Replace b kw st) = None \<longrightarrow> gsm_ok skeys (snd (Replace b kw st))) \<and>
    gsm_ok skeys (snd (get_scanner skeys k st)) \<and>
    fst (get_scanner skeys k st) =
      List.find (\<lambda>s. (if k \<noteq> [] \<and> on_windows (ed_dict st) then lower k else k) \<in>
        set (gsm_keys skeys (ed_dict st) s)) (scanner_list (ed_dict st))"
proof -
  have plain: "gsm_ok skeys (st\<lparr>ed_dict := (ed_dict st)(x := y)\<rparr>)" if "x \<noteq> ''PLATFORM''" "x \<noteq> ''SCANNERS''" for x y
    by (rule gsm_ok_same [OF assms(1)]) (use that in auto)
  have set_ok: "gsm_ok skeys (snd (set_item b key v st))"
    using plain [of key] plain [of "''BUILDERS''"] assms
    by (auto simp: set_item_def set_BUILDERS_def Let_def split: option.splits ev.splits)
  have del_ok: "gsm_ok skeys (snd (del_item key st))"
    using plain [of key] assms by (auto simp: del_item_def Let_def)
  have "fst (Replace b kw st) = None \<longrightarrow> gsm_ok skeys (snd (Replace b kw st))"
    by (auto simp: Replace_def Let_def split: prod.splits option.splits)
  moreover have "fst (Append kw st) = None \<longrightarrow> gsm_ok skeys (snd (Append kw st))"
    "fst (Prepend kw st) = None \<longrightarrow> gsm_ok skeys (snd (Prepend kw st))"
    "fst (AppendUnique u kw st) = None \<longrightarrow> gsm_ok skeys (snd (AppendUnique u kw st))"
    "fst (PrependUnique u kw st) = None \<longrightarrow> gsm_ok skeys (snd (PrependUnique u kw st))"
    by (simp_all add: Append_def Prepend_def AppendUnique_def PrependUnique_def gsm_ok_each_key)
  ultimately show ?thesis
    using set_ok del_ok get_scanner_ok [OF assms(1), of k] unfolding build_gsm_find by blast
qed

theorem scanner_map_current_witness:
  "fst (get_scanner (\<lambda>s. [''.c'']) ''.c'' \<lparr>ed_dict = [''SCANNERS'' \<mapsto> EList [EObj 1, EObj 2]], ed_gsm = None\<rparr>) = Some (EObj 1)"
proof -
  have "gsm_ok (\<lambda>s. [''.c'']) \<lparr>ed_dict = [''SCANNERS'' \<mapsto> EList [EObj 1, EObj 2]], ed_gsm = None\<rparr>"
    by (simp add: gsm_ok_def)
  from scanner_map_current [OF this, of "''CC''" "\<lambda>_. False" ENone "[]" False "''.c''"]
  show ?thesis by (simp add: scanner_list_def gsm_keys_def on_windows_def)
qed

text \<open>
  What is passed to \<open>Clone\<close> wins over the tools: whatever these do, a passed variable has the value
  it was given, references to itself replaced by its old value.
\<close>

theorem clone_keeps_passed:
  assumes "env_Clone is_builder p str run_tools None kw st = (None, st')"
    and "distinct (map fst kw)" and "(k, v) \<in> set kw" and "k \<notin> set reserved_names \<union> {''BUILDERS''}"
  shows "ed_dict st' k = Some (once_env str (Base st) k v)"
proof -
  let ?new = "map (\<lambda>(k, v). (k, once_env str (Base st) k v)) (copy_non_reserved_keywords kw)"
  let ?rest = "copy_non_reserved_keywords (filter (\<lambda>(k, v). k \<noteq> ''BUILDERS'') ?new)"
  have new: "(k, once_env str (Base st) k v) \<in> set ?rest"
    using assms(3,4) by (force simp: copy_non_reserved_keywords_def)
  have dist: "distinct (map fst ?rest)"
    using assms(2) by (simp add: copy_non_reserved_keywords_def distinct_map_filter o_def case_prod_unfold)
  obtain st1 where "Replace is_builder ?new st1 = (None, st')"
    using assms(1) by (auto simp: env_Clone_def merge_flags_in_def Let_def split: prod.splits option.splits)
  then obtain d where "ed_dict st' = put_all ?rest d" using Replace_dict by blast
  then show ?thesis using put_all_passed [OF dist new] by simp
qed

theorem clone_keeps_passed_witness:
  "let st = \<lparr>ed_dict = [''CC'' \<mapsto> EStr ''gcc''], ed_gsm = None\<rparr>;
       tools = (\<lambda>st. st\<lparr>ed_dict := (ed_dict st)(''CC'' \<mapsto> EStr ''cl'')\<rparr>)
   in ed_dict (snd (env_Clone (\<lambda>_. False) (\<lambda>_ fl. Inr fl) (\<lambda>_. []) tools None [(''CC'', EStr ''clang'')] st)) ''CC'' =
        Some (EStr ''clang'')"
proof -
  let ?st = "\<lparr>ed_dict = [''CC'' \<mapsto> EStr ''gcc''], ed_gsm = None\<rparr>"
  let ?tools = "\<lambda>st. st\<lparr>ed_dict := (ed_dict st)(''CC'' \<mapsto> EStr ''cl'')\<rparr>"
  let ?r = "env_Clone (\<lambda>_. False) (\<lambda>_ fl. Inr fl) (\<lambda>_. []) ?tools None [(''CC'', EStr ''clang'')] ?st"
  have "once_env (\<lambda>_. []) (Base ?st) ''CC'' (EStr ''clang'') = EStr ''clang''" by code_simp
  moreover have "fst ?r = None" by code_simp
  then have "?r = (None, snd ?r)" by (intro prod_eqI) simp_all
  note clone_keeps_passed [OF this, of "''CC''" "EStr ''clang''"]
  ultimately show ?thesis by (simp add: reserved_names_def Let_def)
qed

text \<open>No method sets a reserved variable, whatever keywords it is given and whether it succeeds or not.\<close>

theorem reserved_never_set:
  assumes "k \<in> set reserved_names"
  shows "ed_dict (snd (set_item b key v st)) k = ed_dict st k \<and>
    ed_dict (snd (Append kw st)) k = ed_dict st k \<and> ed_dict (snd (Prepend kw st)) k = ed_dict st k \<and>
    ed_dict (snd (AppendUnique u kw st)) k = ed_dict st k \<and>
    ed_dict (snd (PrependUnique u kw st)) k = ed_dict st k \<and>
    ed_dict (snd (Replace b kw st)) k = ed_dict st k \<and> ed_dict (snd (SetDefault b kw st)) k = ed_dict st k"
proof -
  have "ed_dict (snd (set_item b key v st)) k = ed_dict st k"
  proof (cases "key = k")
    case True
    then show ?thesis using assms by (simp add: set_item_def)
  next
    case False
    then show ?thesis using set_item_other [of k key] by simp
  qed
  then show ?thesis
    using assms reserved_not_special [OF assms] each_key_other [OF non_reserved_keys [OF assms]]
    by (simp add: Append_def Prepend_def AppendUnique_def PrependUnique_def SetDefault_def Replace_other)
qed

theorem reserved_never_set_witness:
  "ed_dict (snd (Append [(''TARGET'', EStr ''x'')] \<lparr>ed_dict = Map.empty, ed_gsm = None\<rparr>)) ''TARGET'' = None"
  using reserved_never_set [of "''TARGET''" "\<lambda>_. False" "''TARGET''" ENone "\<lparr>ed_dict = Map.empty, ed_gsm = None\<rparr>"
    "[(''TARGET'', EStr ''x'')]" False] by (simp add: reserved_names_def)

end
