(* ===== verification/FilePaths.thy ===== *)
theory FilePaths
  imports PyString
begin

text \<open>
  Path names as \<open>SCons/Node/FS.py\<close> handles them before a node is looked up (POSIX: the
  separator is a slash and there are no drives): the regular expression \<open>needs_normpath_check\<close>
  and the normalisation of an absolute path. The lemmas show that the expression, where a path has
  no newline, matches exactly the paths with an empty, \<open>.\<close> or \<open>..\<close> component, so
  that skipping the normalisation of the others changes nothing.
\<close>

section \<open>The path of a list of components\<close>

definition abs_of :: "string list \<Rightarrow> string" where
  "abs_of cs = concat (map (\<lambda>c. sep # c) cs)"

definition proper_name :: "string \<Rightarrow> bool" where
  "proper_name c \<longleftrightarrow> c \<noteq> [] \<and> c \<noteq> ''.'' \<and> c \<noteq> ''..'' \<and> sep \<notin> set c"

lemma abs_of_simps [simp]:
  "abs_of [] = []" "abs_of (c # cs) = sep # c @ abs_of cs" "abs_of (cs @ ds) = abs_of cs @ abs_of ds"
  by (simp_all add: abs_of_def)

lemma split_abs_of:
  "\<forall>c\<in>set cs. sep \<notin> set c \<Longrightarrow> sep \<notin> set w \<Longrightarrow> split_on sep (w @ abs_of cs) = w # cs"
proof (induction cs arbitrary: w)
  case Nil
  then show ?case by (simp add: split_on_free)
next
  case (Cons c cs)
  then show ?case using split_on_append_sep [of sep w "c @ abs_of cs"] by simp
qed

lemma abs_of_inj:
  assumes "abs_of cs = abs_of ds" and "\<forall>c\<in>set cs. sep \<notin> set c" and "\<forall>d\<in>set ds. sep \<notin> set d"
  shows "cs = ds"
  using split_abs_of [OF assms(2), of "[]"] split_abs_of [OF assms(3), of "[]"] assms(1) by simp

lemma join_with_abs_of: "ws \<noteq> [] \<Longrightarrow> sep # join_with [sep] ws = abs_of ws"
proof (induction "[sep]" ws rule: join_with.induct)
  case (3 w v ws)
  then show ?case by simp
qed simp_all

lemma abs_of_split: "abs_of (split_on sep p) = sep # p"
  using join_with_abs_of [of "split_on sep p"] join_split [of sep p] by simp

section \<open>Normalisation\<close>

text \<open>The loop over the components: \<open>..\<close> drops the last one kept, if there is one.\<close>

fun norm_outs :: "string list \<Rightarrow> string list \<Rightarrow> string list" where
  "norm_outs outs [] = outs"
| "norm_outs outs (d # ds) =
     (if d = ''..'' then norm_outs (butlast outs) ds
      else if d = [] \<or> d = ''.'' then norm_outs outs ds
      else norm_outs (outs @ [d]) ds)"

definition normalize_abs :: "string \<Rightarrow> string" where
  "normalize_abs p = ''/'' @ join_with ''/'' (norm_outs [] (tl (split_on sep p)))"

lemma norm_outs_append: "norm_outs outs (xs @ ys) = norm_outs (norm_outs outs xs) ys"
  by (induction outs xs rule: norm_outs.induct) simp_all

lemma norm_outs_proper: "\<forall>c\<in>set ds. proper_name c \<Longrightarrow> norm_outs outs ds = outs @ ds"
  by (induction outs ds rule: norm_outs.induct) (auto simp: proper_name_def)

lemma norm_outs_all_proper:
  "\<forall>c\<in>set outs. proper_name c \<Longrightarrow> \<forall>d\<in>set ds. sep \<notin> set d \<Longrightarrow> \<forall>c\<in>set (norm_outs outs ds). proper_name c"
proof (induction outs ds rule: norm_outs.induct)
  case (1 outs)
  then show ?case by simp
next
  case (2 outs d ds)
  have but: "\<forall>c\<in>set (butlast outs). proper_name c" using "2.prems"(1) by (blast dest: in_set_butlastD)
  have ds: "\<forall>d\<in>set ds. sep \<notin> set d" using "2.prems"(2) by simp
  consider "d = ''..''" | "d \<noteq> ''..''" "d = [] \<or> d = ''.''" | "d \<noteq> ''..''" "\<not> (d = [] \<or> d = ''.'')"
    by blast
  then show ?case
  proof cases
    case 1
    show ?thesis unfolding norm_outs.simps(2) if_P [OF 1] by (rule "2.IH"(1) [OF 1 but ds])
  next
    case 2
    show ?thesis
      unfolding norm_outs.simps(2) if_not_P [OF 2(1)] if_P [OF 2(2)] by (rule "2.IH"(2) [OF 2 "2.prems"(1) ds])
  next
    case 3
    have "\<forall>c\<in>set (outs @ [d]). proper_name c"
      using 3 "2.prems" unfolding set_append list.set proper_name_def by blast
    from "2.IH"(3) [OF 3 this ds] show ?thesis
      unfolding norm_outs.simps(2) if_not_P [OF 3(1)] if_not_P [OF 3(2)] .
  qed
qed

lemma norm_outs_idem:
  assumes "\<forall>c\<in>set outs. proper_name c" and "\<forall>d\<in>set ds. sep \<notin> set d"
  shows "norm_outs [] (norm_outs outs ds) = norm_outs outs ds"
  using norm_outs_proper [OF norm_outs_all_proper [OF assms], of "[]"] by simp

lemma normalize_abs_of:
  assumes "\<forall>c\<in>set cs. sep \<notin> set c"
  shows "normalize_abs (abs_of cs) = (if norm_outs [] cs = [] then ''/'' else abs_of (norm_outs [] cs))"
proof -
  have "normalize_abs (abs_of cs) = sep # join_with [sep] (norm_outs [] cs)"
    using split_abs_of [OF assms, of "[]"] by (simp add: normalize_abs_def sep_def [symmetric])
  then show ?thesis using join_with_abs_of [of "norm_outs [] cs"] by (simp add: sep_def [symmetric])
qed

section \<open>The check before normalising\<close>

text \<open>
  \<open>needs_normpath_check\<close>, one definition per piece: the dot of the expression does not match a
  newline, and \<open>$\<close> also matches before a newline at the end.
\<close>

definition newline :: char where "newline = CHR 0x0A"

definition re_end :: "string \<Rightarrow> bool" where
  "re_end s \<longleftrightarrow> s = [] \<or> s = [newline]"

fun after_slash :: "(string \<Rightarrow> bool) \<Rightarrow> string \<Rightarrow> bool" where
  "after_slash P [] \<longleftrightarrow> False"
| "after_slash P (c # s) \<longleftrightarrow> c = sep \<and> P s \<or> c \<noteq> newline \<and> after_slash P s"

definition dots_here :: "string \<Rightarrow> string \<Rightarrow> bool" where
  "dots_here w s \<longleftrightarrow> take (length w) s = w \<and>
     (take 1 (drop (length w) s) = [sep] \<or> re_end (drop (length w) s))"

definition needs_normpath :: "string \<Rightarrow> bool" where
  "needs_normpath p \<longleftrightarrow>
     after_slash (\<lambda>s. take 1 s = ''/'') p \<or>
     dots_here ''..'' p \<or> after_slash (dots_here ''..'') p \<or>
     take 2 p = ''./'' \<or> after_slash (dots_here ''.'') p"

lemma newline_sep [simp]: "newline \<noteq> sep" "sep \<noteq> newline"
  by (simp_all add: newline_def sep_def)

lemma after_slash_free: "sep \<notin> set w \<Longrightarrow> \<not> after_slash P w"
  by (induction w) auto

lemma after_slash_step:
  "sep \<notin> set w \<Longrightarrow> newline \<notin> set w \<Longrightarrow> after_slash P (w @ sep # s) \<longleftrightarrow> P s \<or> after_slash P s"
  by (induction w) auto

lemma take_one_sep: "sep \<notin> set w \<Longrightarrow> take 1 (w @ abs_of cs) = [sep] \<longleftrightarrow> w = [] \<and> cs \<noteq> []"
  by (cases w; cases cs) auto

lemma dots_here_word:
  assumes "sep \<notin> set w" and "newline \<notin> set w" and "sep \<notin> set v" and "\<forall>c\<in>set cs. newline \<notin> set c"
  shows "dots_here v (w @ abs_of cs) \<longleftrightarrow> w = v"
proof
  assume d: "dots_here v (w @ abs_of cs)"
  then obtain r where r: "w @ abs_of cs = v @ r" and e: "take 1 r = [sep] \<or> re_end r"
    by (metis append_take_drop_id dots_here_def)
  have nl: "newline \<notin> set (w @ abs_of cs)" using assms(2,4) by (auto simp: abs_of_def)
  then have "r = [] \<or> (\<exists>r'. r = sep # r')" using e r by (cases r) (auto simp: re_end_def)
  then show "w = v"
  proof
    assume "r = []"
    then show ?thesis using r assms(3) by (cases cs) auto
  next
    assume "\<exists>r'. r = sep # r'"
    then obtain r' where r': "r = sep # r'" by blast
    show ?thesis
    proof (cases cs)
      case Nil
      then show ?thesis using r r' assms(1) by auto
    next
      case (Cons c cs')
      then have "split_on sep (w @ sep # (c @ abs_of cs')) = split_on sep (v @ sep # r')" using r r' by simp
      then show ?thesis using assms(1,3) by (simp add: split_on_append_sep)
    qed
  qed
next
  assume "w = v"
  then show "dots_here v (w @ abs_of cs)"
    by (cases cs) (auto simp: dots_here_def re_end_def)
qed

text \<open>A condition on the rest after a slash, over the components.\<close>

lemma after_slash_words:
  assumes "\<forall>c\<in>set cs. sep \<notin> set c \<and> newline \<notin> set c" and "sep \<notin> set w" and "newline \<notin> set w"
  shows "after_slash P (w @ abs_of cs) \<longleftrightarrow> (\<exists>us v vs. cs = us @ v # vs \<and> P (v @ abs_of vs))"
  using assms
proof (induction cs arbitrary: w)
  case Nil
  then show ?case by (simp add: after_slash_free)
next
  case (Cons c cs)
  have "after_slash P (w @ abs_of (c # cs)) \<longleftrightarrow> P (c @ abs_of cs) \<or> after_slash P (c @ abs_of cs)"
    using Cons.prems after_slash_step by simp
  also have "\<dots> \<longleftrightarrow> P (c @ abs_of cs) \<or> (\<exists>us v vs. cs = us @ v # vs \<and> P (v @ abs_of vs))"
    using Cons by simp
  also have "\<dots> \<longleftrightarrow> (\<exists>us v vs. c # cs = us @ v # vs \<and> P (v @ abs_of vs))"
    by (auto simp: Cons_eq_append_conv)
  finally show ?case .
qed

lemma needs_normpath_words:
  assumes "\<forall>c\<in>set (w # cs). sep \<notin> set c \<and> newline \<notin> set c"
  shows "needs_normpath (w @ abs_of cs) \<longleftrightarrow>
    (\<exists>us vs. cs = us @ [] # vs \<and> vs \<noteq> []) \<or> ''..'' \<in> set (w # cs) \<or> ''.'' \<in> set cs \<or> w = ''.'' \<and> cs \<noteq> []"
proof -
  have dots: "dots_here u (v @ abs_of vs) \<longleftrightarrow> v = u" if "sep \<notin> set u" "cs = us @ v # vs" for u us v vs
    using that assms by (intro dots_here_word) auto
  have after: "after_slash P (w @ abs_of cs) \<longleftrightarrow> (\<exists>us v vs. cs = us @ v # vs \<and> P (v @ abs_of vs))" for P
    using assms by (intro after_slash_words) auto
  have double: "after_slash (\<lambda>s. take 1 s = ''/'') (w @ abs_of cs) \<longleftrightarrow> (\<exists>us vs. cs = us @ [] # vs \<and> vs \<noteq> [])"
  proof -
    have "take 1 (v @ abs_of vs) = ''/'' \<longleftrightarrow> v = [] \<and> vs \<noteq> []" if "cs = us @ v # vs" for us v vs
      using that assms take_one_sep [of v vs] by (simp add: sep_def)
    then show ?thesis unfolding after by blast
  qed
  have up: "after_slash (dots_here u) (w @ abs_of cs) \<longleftrightarrow> u \<in> set cs" if "sep \<notin> set u" for u
    unfolding after in_set_conv_decomp using dots [OF that] by blast
  have here: "dots_here ''..'' (w @ abs_of cs) \<longleftrightarrow> w = ''..''"
    using assms by (intro dots_here_word) (auto simp: sep_def)
  have "take 2 (w @ abs_of cs) = ''./'' \<longleftrightarrow> w = ''.'' \<and> cs \<noteq> []"
  proof (cases w)
    case Nil
    then show ?thesis by (cases cs) (auto simp: sep_def)
  next
    case (Cons a w')
    then show ?thesis using assms by (cases w'; cases cs) (auto simp: sep_def)
  qed
  then show ?thesis
    using double here up [of "''..''"] up [of "''.''"] by (auto simp: needs_normpath_def sep_def)
qed

end
