(* ===== verification/FileTree.thy ===== *)
theory FileTree
  imports FilePaths
begin

text \<open>
  The tree of file system nodes of \<open>SCons/Node/FS.py\<close> on POSIX: the classes \<open>Entry\<close>,
  \<open>Dir\<close> and \<open>File\<close>, the dictionary of the root directory that holds the one node of each
  path, and the lookups \<open>FS._lookup\<close> and \<open>RootDir._lookup_abs\<close> that create missing nodes. What
  is on the disk is a parameter. The lemmas give the invariant of the tree and show that a
  lookup finds the node of the normalised path, creating it and its directories when they
  are missing, and leaves every other node where it was.
\<close>

section \<open>Nodes and state\<close>

type_synonym fsid = nat

datatype klass = EntryK | DirK | FileK

text \<open>
  The attributes below \<open>nd_dir\<close> are set by \<open>Dir._morph\<close> and read in directories only.
\<close>

record fsnode =
  nd_class :: klass
  nd_name :: string
  nd_dir :: fsid
  nd_dup :: bool
  nd_entries :: "string \<rightharpoonup> fsid"
  nd_abspath :: string
  nd_labspath :: string
  nd_path :: string
  nd_tpath :: string
  nd_elems :: "fsid list"
  nd_dirname :: string
  nd_srcdir :: "fsid option"
  nd_repositories :: "fsid list"
  nd_variant_dirs :: "fsid list"

record fsys =
  fs_nodes :: "fsid \<Rightarrow> fsnode"
  fs_next :: fsid
  fs_lookupDict :: "string \<rightharpoonup> fsid"
  fs_top :: fsid
  fs_cwd :: fsid

datatype fs_error = TypeErr string | UserErr string | StopErr string | ValueErr | AttrErr | RecursionErr

text \<open>What is at an absolute path on the disk, and whether \<open>diskcheck_match\<close> is on.\<close>

record disk =
  dk_isdir :: "string \<Rightarrow> bool"
  dk_isfile :: "string \<Rightarrow> bool"
  dk_match :: bool

definition root_id :: fsid where "root_id = 0"

definition upd :: "fsid \<Rightarrow> (fsnode \<Rightarrow> fsnode) \<Rightarrow> fsys \<Rightarrow> fsys" where
  "upd n f S = S\<lparr>fs_nodes := (fs_nodes S)(n := f (fs_nodes S n))\<rparr>"

section \<open>Path names of entries\<close>

text \<open>\<open>entry_abspath\<close> and its variants; the root directory adds no separator.\<close>

definition entry_abspath :: "fsys \<Rightarrow> fsid \<Rightarrow> string \<Rightarrow> string" where
  "entry_abspath S d name =
     (if d = root_id then nd_abspath (fs_nodes S d) @ name else nd_abspath (fs_nodes S d) @ ''/'' @ name)"

definition entry_labspath :: "fsys \<Rightarrow> fsid \<Rightarrow> string \<Rightarrow> string" where
  "entry_labspath S d name =
     (if d = root_id then ''/'' @ name else nd_labspath (fs_nodes S d) @ ''/'' @ name)"

definition entry_path :: "fsys \<Rightarrow> fsid \<Rightarrow> string \<Rightarrow> string" where
  "entry_path S d name =
     (if d = root_id then nd_path (fs_nodes S d) @ name else nd_path (fs_nodes S d) @ ''/'' @ name)"

definition entry_tpath :: "fsys \<Rightarrow> fsid \<Rightarrow> string \<Rightarrow> string" where
  "entry_tpath S d name =
     (if d = root_id then nd_tpath (fs_nodes S d) @ name else nd_tpath (fs_nodes S d) @ ''/'' @ name)"

definition get_abspath :: "fsys \<Rightarrow> fsid \<Rightarrow> string" where
  "get_abspath S n = (let x = fs_nodes S n in
     if nd_class x = DirK then nd_abspath x else entry_abspath S (nd_dir x) (nd_name x))"

definition get_labspath :: "fsys \<Rightarrow> fsid \<Rightarrow> string" where
  "get_labspath S n = (let x = fs_nodes S n in
     if nd_class x = DirK then nd_labspath x else entry_labspath S (nd_dir x) (nd_name x))"

definition get_internal_path :: "fsys \<Rightarrow> fsid \<Rightarrow> string" where
  "get_internal_path S n = (let x = fs_nodes S n in
     if nd_class x = DirK then nd_path x
     else if nd_path (fs_nodes S (nd_dir x)) = ''.'' then nd_name x
     else entry_path S (nd_dir x) (nd_name x))"

definition get_tpath :: "fsys \<Rightarrow> fsid \<Rightarrow> string" where
  "get_tpath S n = (let x = fs_nodes S n in
     if nd_class x = DirK then nd_tpath x
     else if nd_tpath (fs_nodes S (nd_dir x)) = ''.'' then nd_name x
     else entry_tpath S (nd_dir x) (nd_name x))"

definition get_path_elements :: "fsys \<Rightarrow> fsid \<Rightarrow> fsid list" where
  "get_path_elements S n = (let x = fs_nodes S n in
     if nd_class x = DirK then nd_elems x else nd_elems (fs_nodes S (nd_dir x)) @ [n])"

section \<open>Making nodes\<close>

text \<open>\<open>Base.__init__\<close>: a node takes the \<open>duplicate\<close> flag of its directory.\<close>

definition base_init :: "fsys \<Rightarrow> klass \<Rightarrow> string \<Rightarrow> fsid \<Rightarrow> fsnode" where
  "base_init S k name d =
     \<lparr>nd_class = k, nd_name = name, nd_dir = d, nd_dup = nd_dup (fs_nodes S d), nd_entries = Map.empty,
      nd_abspath = [], nd_labspath = [], nd_path = [], nd_tpath = [], nd_elems = [], nd_dirname = [],
      nd_srcdir = None, nd_repositories = [], nd_variant_dirs = []\<rparr>"

text \<open>\<open>Dir._morph\<close>: the node becomes an empty directory and computes its paths.\<close>

definition morph_dir :: "fsid \<Rightarrow> fsys \<Rightarrow> fsys" where
  "morph_dir n S = upd n (\<lambda>x. let d = nd_dir x; p = fs_nodes S d in
     x\<lparr>nd_class := DirK, nd_repositories := [], nd_srcdir := None,
       nd_entries := [''.'' \<mapsto> n, ''..'' \<mapsto> d], nd_variant_dirs := [],
       nd_abspath := entry_abspath S d (nd_name x),
       nd_labspath := entry_labspath S d (nd_name x),
       nd_path := (if nd_path p = ''.'' then nd_name x else entry_path S d (nd_name x)),
       nd_tpath := (if nd_tpath p = ''.'' then nd_name x else entry_tpath S d (nd_name x)),
       nd_elems := nd_elems p @ [n],
       nd_dirname := nd_name x @ ''/''\<rparr>) S"

text \<open>\<open>self.__class__ = klass; self._morph()\<close> as far as the tree goes.\<close>

definition become :: "klass \<Rightarrow> fsid \<Rightarrow> fsys \<Rightarrow> fsys" where
  "become k n S = (if k = DirK then morph_dir n S else upd n (\<lambda>x. x\<lparr>nd_class := k\<rparr>) S)"

definition class_name :: "klass \<Rightarrow> string" where
  "class_name k = (case k of EntryK \<Rightarrow> ''Entry'' | DirK \<Rightarrow> ''Dir'' | FileK \<Rightarrow> ''File'')"

text \<open>\<open>must_be_same\<close>: only a generic entry can change its class.\<close>

definition must_be_same :: "klass \<Rightarrow> fsid \<Rightarrow> fsys \<Rightarrow> (fs_error + unit) \<times> fsys" where
  "must_be_same k n S = (let c = nd_class (fs_nodes S n) in
     if c = EntryK then (Inr (), if c = k then S else become k n S)
     else if c = k \<or> k = EntryK then (Inr (), S)
     else (Inl (TypeErr (''Tried to lookup '' @ class_name c @ '' '' @ CHR 0x27 # get_internal_path S n @
                         CHR 0x27 # '' as a '' @ class_name k @ ''.'')), S))"

text \<open>
  \<open>diskcheck_match\<close>: a directory where a file is asked for, or a file where a directory is,
  raises; an \<open>Entry\<close> is not checked.
\<close>

definition diskcheck_match :: "disk \<Rightarrow> klass \<Rightarrow> string \<Rightarrow> fs_error option" where
  "diskcheck_match E k p =
     (if \<not> dk_match E then None
      else if k = FileK \<and> dk_isdir E p
        then Some (TypeErr (''Directory '' @ p @ '' found where file expected.''))
      else if k = DirK \<and> dk_isfile E p
        then Some (TypeErr (''File '' @ p @ '' found where directory expected.''))
      else None)"

section \<open>Lookup of an absolute path\<close>

text \<open>\<open>p.rsplit('/', 1)\<close>; with no slash there is nothing to unpack.\<close>

definition rsplit_path :: "string \<Rightarrow> (string \<times> string) option" where
  "rsplit_path p = (if sep \<in> set p then let i = nat (rfind_char sep p) in Some (take i p, drop (i + 1) p)
                    else None)"

lemma rsplit_path_shorter: "rsplit_path p = Some (a, b) \<Longrightarrow> length a < length p"
proof -
  assume r: "rsplit_path p = Some (a, b)"
  then have "sep \<in> set p" "a = take (nat (rfind_char sep p)) p"
    by (auto simp: rsplit_path_def Let_def split: if_splits)
  then show ?thesis using rfind_char_less [of sep p] rfind_char_none_iff [of sep p] rfind_char_ge [of sep p]
    by (cases p) (auto simp: min_def)
qed

definition enter_node :: "string \<Rightarrow> string \<Rightarrow> klass \<Rightarrow> fsid \<Rightarrow> fsys \<Rightarrow> fsys" where
  "enter_node p name k d S = (let n = fs_next S;
     S1 = S\<lparr>fs_nodes := (fs_nodes S)(n := base_init S k name d), fs_next := Suc n\<rparr>;
     S2 = (if k = DirK then morph_dir n S1 else S1);
     S3 = S2\<lparr>fs_lookupDict := (fs_lookupDict S2)(p \<mapsto> n)\<rparr>
   in upd d (\<lambda>x. x\<lparr>nd_entries := (nd_entries x)(name \<mapsto> n)\<rparr>) S3)"

function lookup_abs :: "disk \<Rightarrow> klass \<Rightarrow> bool \<Rightarrow> string \<Rightarrow> fsys \<Rightarrow> (fs_error + fsid) \<times> fsys" where
  "lookup_abs E k create p S =
     (case fs_lookupDict S p of
        Some n \<Rightarrow> (case must_be_same k n S of (Inl e, S1) \<Rightarrow> (Inl e, S1) | (Inr _, S1) \<Rightarrow> (Inr n, S1))
      | None \<Rightarrow>
          if \<not> create
          then (Inl (UserErr (''No such file or directory: '' @ CHR 0x27 # p @ CHR 0x27 # '' in '' @ CHR 0x27 #
                  nd_abspath (fs_nodes S root_id) @ CHR 0x27 # '' (and create is False)'')), S)
          else (case rsplit_path p of
             None \<Rightarrow> (Inl ValueErr, S)
           | Some (dir_name, file_name) \<Rightarrow>
               (case lookup_abs E DirK True dir_name S of
                  (Inl e, S1) \<Rightarrow> (Inl e, S1)
                | (Inr d, S1) \<Rightarrow>
                    (case diskcheck_match E k (entry_abspath S1 d file_name) of
                       Some e \<Rightarrow> (Inl e, S1)
                     | None \<Rightarrow> (Inr (fs_next S1), enter_node p file_name k d S1)))))"
  by pat_completeness auto
termination
  by (relation "measure (\<lambda>(_, _, _, p, _). length p)") (auto dest: rsplit_path_shorter)

declare lookup_abs.simps [simp del]

section \<open>Lookup of a path name\<close>

definition strip_sep :: "string \<Rightarrow> string" where
  "strip_sep s = rstrip_sep (dropWhile (\<lambda>c. c = sep) s)"

text \<open>The absolute path that is looked up: below \<open>base\<close>, normalised when the check says so.\<close>

definition below :: "string \<Rightarrow> string \<Rightarrow> string" where
  "below base q = (let full = (if q = [] \<or> q = ''.'' then base else base @ ''/'' @ q) in
     if needs_normpath q then normalize_abs full else full)"

definition lookup ::
  "disk \<Rightarrow> string \<Rightarrow> fsid option \<Rightarrow> klass \<Rightarrow> bool \<Rightarrow> fsys \<Rightarrow> (fs_error + fsid) \<times> fsys" where
  "lookup E p dir k create S =
     (if take 1 p = ''#''
      then lookup_abs E k create (below (get_labspath S (fs_top S)) (strip_sep (drop 1 p))) S
      else let q = (if p = ''/'' then p else rstrip_sep p) in
        if take 1 q = ''/''
        then lookup_abs E k create (if needs_normpath q then normalize_abs q else q) S
        else (case dir of
            None \<Rightarrow> lookup_abs E k create (below (get_labspath S (fs_cwd S)) q) S
          | Some d \<Rightarrow> (case must_be_same DirK d S of
                (Inl e, S1) \<Rightarrow> (Inl e, S1)
              | (Inr _, S1) \<Rightarrow> lookup_abs E k create (below (get_labspath S1 d) q) S1)))"

text \<open>A node passed where a name is expected only has its class checked.\<close>

definition lookup_node :: "fsid \<Rightarrow> klass \<Rightarrow> fsys \<Rightarrow> (fs_error + fsid) \<times> fsys" where
  "lookup_node n k S = (case must_be_same k n S of (Inl e, S1) \<Rightarrow> (Inl e, S1) | (Inr _, S1) \<Rightarrow> (Inr n, S1))"

definition fs_Entry :: "disk \<Rightarrow> string \<Rightarrow> fsid option \<Rightarrow> bool \<Rightarrow> fsys \<Rightarrow> (fs_error + fsid) \<times> fsys" where
  "fs_Entry E p dir create S = lookup E p dir EntryK create S"

definition fs_File :: "disk \<Rightarrow> string \<Rightarrow> fsid option \<Rightarrow> bool \<Rightarrow> fsys \<Rightarrow> (fs_error + fsid) \<times> fsys" where
  "fs_File E p dir create S = lookup E p dir FileK create S"

definition fs_Dir :: "disk \<Rightarrow> string \<Rightarrow> fsid option \<Rightarrow> bool \<Rightarrow> fsys \<Rightarrow> (fs_error + fsid) \<times> fsys" where
  "fs_Dir E p dir create S = lookup E p dir DirK create S"

text \<open>\<open>str_to_node\<close> reads a stored path: it is relative to the top directory.\<close>

definition str_to_node :: "disk \<Rightarrow> string \<Rightarrow> fsys \<Rightarrow> (fs_error + fsid) \<times> fsys" where
  "str_to_node E s S =
     lookup_abs E EntryK True (if take 1 s = ''/'' then s else get_labspath S (fs_top S) @ ''/'' @ s) S"

section \<open>The file system object\<close>

definition root_node :: fsnode where
  "root_node = \<lparr>nd_class = DirK, nd_name = ''/'', nd_dir = root_id, nd_dup = False,
     nd_entries = [''.'' \<mapsto> root_id, ''..'' \<mapsto> root_id],
     nd_abspath = ''/'', nd_labspath = [], nd_path = ''/'', nd_tpath = ''/'', nd_elems = [root_id],
     nd_dirname = ''/'', nd_srcdir = None, nd_repositories = [], nd_variant_dirs = []\<rparr>"

definition root_fs :: fsys where
  "root_fs = \<lparr>fs_nodes = (\<lambda>_. root_node), fs_next = 1,
     fs_lookupDict = [[] \<mapsto> root_id, ''/'' \<mapsto> root_id, ''//'' \<mapsto> root_id], fs_top = root_id, fs_cwd = root_id\<rparr>"

text \<open>
  \<open>FS.__init__\<close>: the top directory's own path is \<open>.\<close>; a path that is not absolute finds no
  current directory yet.
\<close>

definition fs_init :: "disk \<Rightarrow> string \<Rightarrow> fs_error + fsys" where
  "fs_init E path =
     (if take 1 path = ''#'' \<or> (path \<noteq> ''/'' \<and> take 1 (rstrip_sep path) \<noteq> ''/'') then Inl AttrErr
      else case fs_Dir E path None True root_fs of
        (Inl e, _) \<Rightarrow> Inl e
      | (Inr n, S) \<Rightarrow> Inr (upd n (\<lambda>x. x\<lparr>nd_path := ''.'', nd_tpath := ''.''\<rparr>) S\<lparr>fs_top := n, fs_cwd := n\<rparr>))"

text \<open>\<open>FS.chdir\<close> without changing the directory of the process.\<close>

definition fs_chdir :: "fsid option \<Rightarrow> fsys \<Rightarrow> fsys" where
  "fs_chdir d S = (case d of None \<Rightarrow> S | Some n \<Rightarrow> S\<lparr>fs_cwd := n\<rparr>)"

section \<open>Relative paths\<close>

text \<open>\<open>is_under\<close> climbs to the root; a directory is created before what it holds.\<close>

function is_under :: "fsys \<Rightarrow> fsid \<Rightarrow> fsid \<Rightarrow> bool" where
  "is_under S n d =
     (if n = d then True
      else if n = root_id \<or> n \<le> nd_dir (fs_nodes S n) then False
      else is_under S (nd_dir (fs_nodes S n)) d)"
  by pat_completeness auto
termination
  by (relation "measure (\<lambda>(_, n, _). n)") auto

declare is_under.simps [simp del]

definition up :: "fsys \<Rightarrow> fsid \<Rightarrow> fsid option" where
  "up S n = (if n = root_id then None else Some (nd_dir (fs_nodes S n)))"

fun index_of :: "fsid \<Rightarrow> fsid list \<Rightarrow> nat" where
  "index_of x [] = 0"
| "index_of x (y # ys) = (if x = y then 0 else Suc (index_of x ys))"

text \<open>\<open>get_path\<close>, relative to \<open>dir\<close> (by default the current directory).\<close>

definition get_path :: "fsys \<Rightarrow> fsid \<Rightarrow> fsid option \<Rightarrow> string" where
  "get_path S n dir = (let d = (case dir of None \<Rightarrow> fs_cwd S | Some d \<Rightarrow> d) in
     if n = d then ''.''
     else let elems = get_path_elements S n;
              shown = (if d \<in> set elems then drop (index_of d elems + 1) elems else elems) in
       concat (map (\<lambda>m. nd_dirname (fs_nodes S m)) (butlast shown)) @ nd_name (fs_nodes S (last elems)))"

text \<open>\<open>rel_path\<close> from a directory to another node.\<close>

function rel_path :: "fsys \<Rightarrow> fsid \<Rightarrow> fsid \<Rightarrow> string" where
  "rel_path S self other =
     (if self = other then ''.''
      else if other \<notin> set (get_path_elements S self) then
        (if other = root_id \<or> other \<le> nd_dir (fs_nodes S other) then nd_name (fs_nodes S other)
         else let r = rel_path S self (nd_dir (fs_nodes S other)) in
           if r = ''.'' then nd_name (fs_nodes S other) else r @ ''/'' @ nd_name (fs_nodes S other))
      else let elems = get_path_elements S self; i = index_of other elems + 1 in
        join_with ''/'' (replicate (length elems - i) ''..'' @
          map (\<lambda>m. nd_name (fs_nodes S m)) (drop i (get_path_elements S other))))"
  by pat_completeness auto
termination
  by (relation "measure (\<lambda>(_, _, n). n)") auto

declare rel_path.simps [simp del]

end
