(* ===== verification/TreeInv.thy ===== *)
theory TreeInv
  imports FileTree
begin

text \<open>
  The invariant of the tree of file system nodes and its preservation by every lookup: the
  dictionary of the root directory holds exactly the path of each node, directories are created
  before what they hold, and the paths a directory stores are the ones its names spell. From it:
  there is one node for each normalised path.
\<close>

section \<open>Where a node is\<close>

function comps :: "fsys \<Rightarrow> fsid \<Rightarrow> string list" where
  "comps S n =
     (if n = root_id \<or> n \<le> nd_dir (fs_nodes S n) then []
      else comps S (nd_dir (fs_nodes S n)) @ [nd_name (fs_nodes S n)])"
  by pat_completeness auto
termination
  by (relation "measure (\<lambda>(_, n). n)") auto

function elems_of :: "fsys \<Rightarrow> fsid \<Rightarrow> fsid list" where
  "elems_of S n =
     (if n = root_id \<or> n \<le> nd_dir (fs_nodes S n) then [root_id]
      else elems_of S (nd_dir (fs_nodes S n)) @ [n])"
  by pat_completeness auto
termination
  by (relation "measure (\<lambda>(_, n). n)") auto

declare comps.simps [simp del] elems_of.simps [simp del]

definition node_ok :: "fsys \<Rightarrow> fsid \<Rightarrow> bool" where
  "node_ok S n \<longleftrightarrow> (let x = fs_nodes S n in
     (n \<noteq> root_id \<longrightarrow> nd_dir x < n \<and> nd_class (fs_nodes S (nd_dir x)) = DirK \<and> proper_name (nd_name x) \<and>
        nd_entries (fs_nodes S (nd_dir x)) (nd_name x) = Some n) \<and>
     (nd_class x = DirK \<longrightarrow> nd_labspath x = abs_of (comps S n) \<and> nd_elems x = elems_of S n \<and>
        nd_abspath x = (if n = root_id then ''/'' else abs_of (comps S n)) \<and>
        nd_dirname x = (if n = root_id then ''/'' else nd_name x @ ''/'')))"

definition root_keys :: "string set" where
  "root_keys = {''/'', ''//''}"

definition tree_ok :: "fsys \<Rightarrow> bool" where
  "tree_ok S \<longleftrightarrow> root_id < fs_next S \<and>
     nd_class (fs_nodes S root_id) = DirK \<and> nd_name (fs_nodes S root_id) = ''/'' \<and>
     nd_dir (fs_nodes S root_id) = root_id \<and>
     (\<forall>n<fs_next S. node_ok S n) \<and>
     (\<forall>k n. fs_lookupDict S k = Some n \<longleftrightarrow>
        n < fs_next S \<and> (k = abs_of (comps S n) \<or> n = root_id \<and> k \<in> root_keys)) \<and>
     (\<forall>d<fs_next S. nd_class (fs_nodes S d) = DirK \<longrightarrow> (\<forall>k n. k \<noteq> ''.'' \<longrightarrow> k \<noteq> ''..'' \<longrightarrow>
        nd_entries (fs_nodes S d) k = Some n \<longrightarrow>
          n < fs_next S \<and> n \<noteq> root_id \<and> nd_dir (fs_nodes S n) = d \<and> nd_name (fs_nodes S n) = k)) \<and>
     fs_top S < fs_next S \<and> nd_class (fs_nodes S (fs_top S)) = DirK \<and>
     fs_cwd S < fs_next S \<and> nd_class (fs_nodes S (fs_cwd S)) = DirK"

text \<open>What a later state keeps: no node moves, and only a generic entry changes its class.\<close>

definition grown :: "fsys \<Rightarrow> fsys \<Rightarrow> bool" where
  "grown S S' \<longleftrightarrow> fs_next S \<le> fs_next S' \<and> fs_top S' = fs_top S \<and> fs_cwd S' = fs_cwd S \<and>
     (\<forall>n<fs_next S. nd_name (fs_nodes S' n) = nd_name (fs_nodes S n) \<and>
        nd_dir (fs_nodes S' n) = nd_dir (fs_nodes S n) \<and>
        (nd_class (fs_nodes S n) \<noteq> EntryK \<longrightarrow> nd_class (fs_nodes S' n) = nd_class (fs_nodes S n)))"

lemma grown_refl [simp]: "grown S S"
  by (simp add: grown_def)

lemma grown_trans: "grown S1 S2 \<Longrightarrow> grown S2 S3 \<Longrightarrow> grown S1 S3"
  unfolding grown_def by (metis order_trans order_less_le_trans)

section \<open>Consequences of the invariant\<close>

lemma tree_okD:
  assumes "tree_ok S"
  shows "root_id < fs_next S" "nd_class (fs_nodes S root_id) = DirK" "nd_name (fs_nodes S root_id) = ''/''"
    "nd_dir (fs_nodes S root_id) = root_id"
    "n < fs_next S \<Longrightarrow> node_ok S n"
    "fs_lookupDict S k = Some n \<longleftrightarrow> n < fs_next S \<and> (k = abs_of (comps S n) \<or> n = root_id \<and> k \<in> root_keys)"
    "fs_top S < fs_next S" "nd_class (fs_nodes S (fs_top S)) = DirK"
    "fs_cwd S < fs_next S" "nd_class (fs_nodes S (fs_cwd S)) = DirK"
  using assms by (auto simp: tree_ok_def)

lemma tree_ok_entries:
  assumes "tree_ok S" and "d < fs_next S" and "nd_class (fs_nodes S d) = DirK"
    and "nd_entries (fs_nodes S d) k = Some n" and "k \<noteq> ''.''" and "k \<noteq> ''..''"
  shows "n < fs_next S \<and> n \<noteq> root_id \<and> nd_dir (fs_nodes S n) = d \<and> nd_name (fs_nodes S n) = k"
  using assms unfolding tree_ok_def by blast

lemma tree_ok_parent:
  assumes "tree_ok S" and "n < fs_next S" and "n \<noteq> root_id"
  shows "nd_dir (fs_nodes S n) < n" "nd_dir (fs_nodes S n) < fs_next S"
    "nd_class (fs_nodes S (nd_dir (fs_nodes S n))) = DirK" "proper_name (nd_name (fs_nodes S n))"
    "nd_entries (fs_nodes S (nd_dir (fs_nodes S n))) (nd_name (fs_nodes S n)) = Some n"
  using tree_okD(5) [OF assms(1,2)] assms(2,3) by (auto simp: node_ok_def Let_def)

lemma comps_root [simp]: "comps S root_id = []"
  by (simp add: comps.simps)

lemma elems_of_root [simp]: "elems_of S root_id = [root_id]"
  by (simp add: elems_of.simps)

lemma comps_step:
  "tree_ok S \<Longrightarrow> n < fs_next S \<Longrightarrow> n \<noteq> root_id \<Longrightarrow>
     comps S n = comps S (nd_dir (fs_nodes S n)) @ [nd_name (fs_nodes S n)]"
  using tree_ok_parent(1) [of S n] by (subst comps.simps) simp

lemma elems_of_step:
  "tree_ok S \<Longrightarrow> n < fs_next S \<Longrightarrow> n \<noteq> root_id \<Longrightarrow> elems_of S n = elems_of S (nd_dir (fs_nodes S n)) @ [n]"
  using tree_ok_parent(1) [of S n] by (subst elems_of.simps) simp

lemma comps_proper:
  assumes "tree_ok S" and "n < fs_next S"
  shows "\<forall>c\<in>set (comps S n). proper_name c"
  using assms(2)
proof (induction n rule: less_induct)
  case (less n)
  show ?case
  proof (cases "n = root_id")
    case False
    note p = tree_ok_parent [OF assms(1) less.prems False]
    from less.IH [OF p(1,2)] p(4) show ?thesis
      unfolding comps_step [OF assms(1) less.prems False] set_append list.set by blast
  qed simp
qed

lemma comps_no_sep: "tree_ok S \<Longrightarrow> n < fs_next S \<Longrightarrow> \<forall>c\<in>set (comps S n). sep \<notin> set c"
  using comps_proper [of S n] unfolding proper_name_def by blast

text \<open>One node for each path.\<close>

lemma comps_inj:
  assumes "tree_ok S" and "n < fs_next S" and "m < fs_next S" and "comps S n = comps S m"
  shows "n = m"
proof -
  have "fs_lookupDict S (abs_of (comps S n)) = Some n" "fs_lookupDict S (abs_of (comps S m)) = Some m"
    using assms(2,3) by (simp_all add: tree_okD(6) [OF assms(1)])
  from this(1) [unfolded assms(4)] this(2) show ?thesis by (rule option.inject [THEN iffD1, OF trans [OF sym]])
qed

lemma get_labspath_comps:
  assumes "tree_ok S" and "n < fs_next S"
  shows "get_labspath S n = abs_of (comps S n)"
proof (cases "nd_class (fs_nodes S n) = DirK")
  case True
  then show ?thesis using tree_okD(5) [OF assms] by (simp add: get_labspath_def node_ok_def Let_def)
next
  case False
  then have n: "n \<noteq> root_id" using tree_okD(2) [OF assms(1)] by metis
  note p = tree_ok_parent [OF assms n]
  have "nd_labspath (fs_nodes S (nd_dir (fs_nodes S n))) = abs_of (comps S (nd_dir (fs_nodes S n)))"
    using tree_okD(5) [OF assms(1) p(2)] p(3) by (simp add: node_ok_def Let_def)
  then show ?thesis using False comps_step [OF assms n] p
    by (auto simp: get_labspath_def entry_labspath_def Let_def sep_def)
qed

lemma comps_cong:
  assumes "\<forall>m\<le>n. nd_name (fs_nodes S' m) = nd_name (fs_nodes S m) \<and> nd_dir (fs_nodes S' m) = nd_dir (fs_nodes S m)"
  shows "comps S' n = comps S n \<and> elems_of S' n = elems_of S n"
  using assms
proof (induction n rule: less_induct)
  case (less n)
  show ?case
  proof (cases "n = root_id \<or> n \<le> nd_dir (fs_nodes S n)")
    case True
    then show ?thesis using less.prems by (simp add: comps.simps [of _ n] elems_of.simps [of _ n])
  next
    case False
    then have "comps S' (nd_dir (fs_nodes S n)) = comps S (nd_dir (fs_nodes S n)) \<and>
        elems_of S' (nd_dir (fs_nodes S n)) = elems_of S (nd_dir (fs_nodes S n))"
      using less by simp
    then show ?thesis using False less.prems by (simp add: comps.simps [of _ n] elems_of.simps [of _ n])
  qed
qed

lemma grown_comps: "grown S S' \<Longrightarrow> n < fs_next S \<Longrightarrow> comps S' n = comps S n"
  using comps_cong [of n S' S] by (simp add: grown_def)

lemma grown_less: "grown S S' \<Longrightarrow> n < fs_next S \<Longrightarrow> n < fs_next S'"
  by (simp add: grown_def)

section \<open>Changing the class of an entry\<close>

lemma upd_same [simp]:
  "fs_nodes (upd n f S) n = f (fs_nodes S n)" "m \<noteq> n \<Longrightarrow> fs_nodes (upd n f S) m = fs_nodes S m"
  "fs_next (upd n f S) = fs_next S" "fs_lookupDict (upd n f S) = fs_lookupDict S"
  "fs_top (upd n f S) = fs_top S" "fs_cwd (upd n f S) = fs_cwd S"
  by (simp_all add: upd_def)

text \<open>
  A lemma for all updates that keep names and parents: the invariant only has to be checked for
  the class, the entries and the stored paths.
\<close>

lemma upd_comps:
  assumes "nd_name (f (fs_nodes S n)) = nd_name (fs_nodes S n)" and "nd_dir (f (fs_nodes S n)) = nd_dir (fs_nodes S n)"
  shows "comps (upd n f S) m = comps S m" "elems_of (upd n f S) m = elems_of S m"
proof -
  have "nd_name (fs_nodes (upd n f S) k) = nd_name (fs_nodes S k) \<and>
      nd_dir (fs_nodes (upd n f S) k) = nd_dir (fs_nodes S k)" for k
    using assms by (cases "k = n") auto
  then show "comps (upd n f S) m = comps S m" "elems_of (upd n f S) m = elems_of S m"
    using comps_cong [of m "upd n f S" S] by auto
qed

text \<open>The entries of a directory as a set of the nodes below it, and of a fresh one.\<close>

lemma entry_no_children:
  assumes "tree_ok S" and "n < fs_next S" and "nd_class (fs_nodes S n) \<noteq> DirK" and "m < fs_next S" "m \<noteq> root_id"
  shows "nd_dir (fs_nodes S m) \<noteq> n"
  using tree_ok_parent(3) [OF assms(1,4,5)] assms(3) by auto

lemma morph_dir_paths:
  assumes "tree_ok S" and "n < fs_next S" and "n \<noteq> root_id"
  defines "d \<equiv> nd_dir (fs_nodes S n)"
  shows "entry_abspath S d (nd_name (fs_nodes S n)) = abs_of (comps S n)"
    and "entry_labspath S d (nd_name (fs_nodes S n)) = abs_of (comps S n)"
    and "nd_elems (fs_nodes S d) @ [n] = elems_of S n"
proof -
  note p = tree_ok_parent [OF assms(1-3)]
  have "node_ok S d" using tree_okD(5) [OF assms(1)] p(2) by (simp add: d_def)
  then have d: "nd_labspath (fs_nodes S d) = abs_of (comps S d)" "nd_elems (fs_nodes S d) = elems_of S d"
      "nd_abspath (fs_nodes S d) = (if d = root_id then ''/'' else abs_of (comps S d))"
    using p(3) by (simp_all add: node_ok_def Let_def d_def)
  have c: "comps S n = comps S d @ [nd_name (fs_nodes S n)]" using comps_step [OF assms(1-3)] by (simp add: d_def)
  show "entry_abspath S d (nd_name (fs_nodes S n)) = abs_of (comps S n)"
    and "entry_labspath S d (nd_name (fs_nodes S n)) = abs_of (comps S n)"
    unfolding c entry_abspath_def entry_labspath_def using d by (auto simp: sep_def)
  show "nd_elems (fs_nodes S d) @ [n] = elems_of S n"
    using d elems_of_step [OF assms(1-3)] by (simp add: d_def)
qed

lemma become_nodes:
  "fs_next (become k n S) = fs_next S" "fs_lookupDict (become k n S) = fs_lookupDict S"
  "fs_top (become k n S) = fs_top S" "fs_cwd (become k n S) = fs_cwd S"
  "m \<noteq> n \<Longrightarrow> fs_nodes (become k n S) m = fs_nodes S m"
  "nd_name (fs_nodes (become k n S) n) = nd_name (fs_nodes S n)"
  "nd_dir (fs_nodes (become k n S) n) = nd_dir (fs_nodes S n)"
  "nd_class (fs_nodes (become k n S) n) = k"
  by (simp_all add: become_def morph_dir_def Let_def)

lemma become_fields:
  "nd_name (fs_nodes (become k n S) m) = nd_name (fs_nodes S m)"
  "nd_dir (fs_nodes (become k n S) m) = nd_dir (fs_nodes S m)"
  by (cases "m = n"; simp add: become_nodes)+

lemma become_comps: "comps (become k n S) m = comps S m" "elems_of (become k n S) m = elems_of S m"
  using comps_cong [of m "become k n S" S] by (auto simp: become_fields)

lemma become_dir_fields:
  assumes "tree_ok S" and "n < fs_next S" and "n \<noteq> root_id"
  shows "nd_labspath (fs_nodes (become DirK n S) n) = abs_of (comps S n)"
    "nd_abspath (fs_nodes (become DirK n S) n) = abs_of (comps S n)"
    "nd_elems (fs_nodes (become DirK n S) n) = elems_of S n"
    "nd_dirname (fs_nodes (become DirK n S) n) = nd_name (fs_nodes S n) @ ''/''"
    "nd_entries (fs_nodes (become DirK n S) n) = [''.'' \<mapsto> n, ''..'' \<mapsto> nd_dir (fs_nodes S n)]"
  using morph_dir_paths [OF assms] by (simp_all add: become_def morph_dir_def Let_def)

lemma become_ok:
  assumes "tree_ok S" and "n < fs_next S" and "nd_class (fs_nodes S n) = EntryK"
  shows "tree_ok (become k n S)" and "grown S (become k n S)"
proof -
  let ?S = "become k n S"
  have nr: "n \<noteq> root_id" using assms tree_okD(2) by force
  have par: "nd_dir (fs_nodes S m) \<noteq> n" if "m < fs_next S" "m \<noteq> root_id" for m
    using entry_no_children [OF assms(1,2) _ that] assms(3) by simp
  have ok: "node_ok ?S m" if m: "m < fs_next S" for m
  proof (cases "m = n")
    case True
    note p = tree_ok_parent [OF assms(1,2) nr]
    have "nd_dir (fs_nodes S n) \<noteq> n" using p(1) by simp
    then show ?thesis
      using p True nr become_dir_fields [OF assms(1,2) nr]
      by (cases "k = DirK") (auto simp: node_ok_def Let_def become_nodes become_comps)
  next
    case False
    then show ?thesis using tree_okD(5) [OF assms(1) m] par [OF m]
      by (simp add: node_ok_def Let_def become_nodes become_comps)
  qed
  have ent: "m < fs_next S \<and> m \<noteq> root_id \<and> nd_dir (fs_nodes S m) = d \<and> nd_name (fs_nodes S m) = j"
    if "d < fs_next S" "nd_class (fs_nodes ?S d) = DirK" "j \<noteq> ''.''" "j \<noteq> ''..''"
      "nd_entries (fs_nodes ?S d) j = Some m" for d j m
  proof (cases "d = n")
    case True
    then have "k = DirK" using that(2) by (simp add: become_nodes)
    then show ?thesis using that(3-5) True become_dir_fields(5) [OF assms(1,2) nr] by simp
  next
    case False
    then show ?thesis using that tree_ok_entries [OF assms(1)] by (simp add: become_nodes)
  qed
  have cls: "nd_class (fs_nodes ?S m) = DirK" if "nd_class (fs_nodes S m) = DirK" for m
    using that assms(3) become_nodes(5) [of m n k S] by (cases "m = n") auto
  show "tree_ok ?S"
    unfolding tree_ok_def
    using tree_okD [OF assms(1)] ok ent cls by (simp add: become_nodes become_fields become_comps)
  show "grown S ?S"
  proof -
    have "nd_class (fs_nodes ?S m) = nd_class (fs_nodes S m)" if "nd_class (fs_nodes S m) \<noteq> EntryK" for m
      using that assms(3) become_nodes(5) [of m n k S] by (cases "m = n") auto
    then show ?thesis unfolding grown_def by (simp add: become_nodes(1-4) become_fields)
  qed
qed

lemma must_be_same_ok:
  assumes "tree_ok S" and "n < fs_next S" and "must_be_same k n S = (r, S')"
  shows "tree_ok S' \<and> grown S S' \<and>
    (r = Inr () \<longrightarrow> (nd_class (fs_nodes S' n) = k \<or> k = EntryK))"
proof (cases "nd_class (fs_nodes S n) = EntryK \<and> k \<noteq> EntryK")
  case True
  then have "S' = become k n S" "r = Inr ()" using assms(3) by (auto simp: must_be_same_def Let_def)
  then show ?thesis using become_ok [OF assms(1,2)] True become_nodes(8) by simp
next
  case False
  then have "S' = S \<and> (r = Inr () \<longrightarrow> nd_class (fs_nodes S n) = k \<or> k = EntryK)"
    using assms(3) by (auto simp: must_be_same_def Let_def split: if_splits)
  then show ?thesis using assms(1) by auto
qed

end
