(* ===== verification/TreeLookup.thy ===== *)
theory TreeLookup
  imports TreeInv
begin

text \<open>
  Every lookup of the tree of file system nodes keeps its invariant and, when it returns, gives
  the node of the normalised path; the lookups of a relative path a directory printed give back the
  node it was printed for.
\<close>

section \<open>A new node\<close>

lemma no_node_at:
  assumes "tree_ok S" and "fs_lookupDict S (abs_of cs) = None" and "m < fs_next S"
  shows "comps S m \<noteq> cs"
  using assms(2,3) tree_okD(6) [OF assms(1), of "abs_of (comps S m)" m] by auto

lemma rsplit_abs_of:
  assumes "sep \<notin> set c"
  shows "rsplit_path (abs_of (cs @ [c])) = Some (abs_of cs, c)"
proof -
  have r: "rfind_char sep (u @ sep # c) = int (length u)" for u
    using assms rfind_char_none_iff [of sep c] by (induction u) auto
  show ?thesis using r [of "abs_of cs"] by (simp add: rsplit_path_def Let_def)
qed

lemma enter_node_become:
  assumes "d \<noteq> fs_next S"
  shows "enter_node p name k d S =
    (if k = EntryK then enter_node p name k d S else become k (fs_next S) (enter_node p name EntryK d S))"
  using assms
  by (auto simp: enter_node_def become_def morph_dir_def upd_def base_init_def Let_def fun_upd_twist
      entry_abspath_def entry_labspath_def entry_path_def entry_tpath_def intro: ext)

lemma enter_entry_fields:
  assumes "d \<noteq> fs_next S"
  shows "fs_next (enter_node p name EntryK d S) = Suc (fs_next S)"
    "fs_lookupDict (enter_node p name EntryK d S) = (fs_lookupDict S)(p \<mapsto> fs_next S)"
    "fs_top (enter_node p name EntryK d S) = fs_top S" "fs_cwd (enter_node p name EntryK d S) = fs_cwd S"
    "fs_nodes (enter_node p name EntryK d S) (fs_next S) = base_init S EntryK name d"
    "fs_nodes (enter_node p name EntryK d S) d =
       (fs_nodes S d)\<lparr>nd_entries := (nd_entries (fs_nodes S d))(name \<mapsto> fs_next S)\<rparr>"
    "m \<noteq> d \<Longrightarrow> m \<noteq> fs_next S \<Longrightarrow> fs_nodes (enter_node p name EntryK d S) m = fs_nodes S m"
  using assms by (auto simp: enter_node_def upd_def Let_def)

lemma enter_entry_same:
  assumes "d \<noteq> fs_next S" and "m \<noteq> fs_next S"
  shows "nd_name (fs_nodes (enter_node p name EntryK d S) m) = nd_name (fs_nodes S m)"
    "nd_dir (fs_nodes (enter_node p name EntryK d S) m) = nd_dir (fs_nodes S m)"
    "nd_class (fs_nodes (enter_node p name EntryK d S) m) = nd_class (fs_nodes S m)"
    "nd_labspath (fs_nodes (enter_node p name EntryK d S) m) = nd_labspath (fs_nodes S m)"
    "nd_abspath (fs_nodes (enter_node p name EntryK d S) m) = nd_abspath (fs_nodes S m)"
    "nd_elems (fs_nodes (enter_node p name EntryK d S) m) = nd_elems (fs_nodes S m)"
    "nd_dirname (fs_nodes (enter_node p name EntryK d S) m) = nd_dirname (fs_nodes S m)"
  using enter_entry_fields(6,7) [OF assms(1)] assms(2) by (cases "m = d"; simp)+

lemma enter_entry_comps:
  assumes "m < fs_next S" and "d < fs_next S"
  shows "comps (enter_node p name EntryK d S) m = comps S m" "elems_of (enter_node p name EntryK d S) m = elems_of S m"
  using comps_cong [of m "enter_node p name EntryK d S" S] enter_entry_same [of d S] assms by auto

lemma enter_entry_ok:
  assumes t: "tree_ok S" and d: "d < fs_next S" "nd_class (fs_nodes S d) = DirK" and nm: "proper_name name"
    and p: "p = abs_of (comps S d @ [name])" and new: "fs_lookupDict S p = None"
  defines "S' \<equiv> enter_node p name EntryK d S"
  shows "tree_ok S'" and "grown S S'" and "comps S' (fs_next S) = comps S d @ [name]"
    and "fs_next S' = Suc (fs_next S)"
proof -
  have dn: "d \<noteq> fs_next S" using d by simp
  have root: "fs_next S \<noteq> root_id" "root_id \<noteq> fs_next S" using tree_okD(1) [OF t] by auto
  note f = enter_entry_fields [OF dn, where p = p and name = name, folded S'_def]
  note same = enter_entry_same [OF dn, where p = p and name = name, folded S'_def]
  note cmp = enter_entry_comps [where S = S and d = d and p = p and name = name, folded S'_def]
  have newnode: "nd_name (fs_nodes S' (fs_next S)) = name" "nd_dir (fs_nodes S' (fs_next S)) = d"
      "nd_class (fs_nodes S' (fs_next S)) = EntryK"
    by (simp_all add: f base_init_def)
  show cn: "comps S' (fs_next S) = comps S d @ [name]"
    using newnode d root cmp(1) [OF d(1) d(1)] by (simp add: comps.simps [of _ "fs_next S"])
  show nx: "fs_next S' = Suc (fs_next S)" by (rule f(1))
  show gr: "grown S S'"
    unfolding grown_def using same f by simp
  have fresh: "\<not> (nd_dir (fs_nodes S m) = d \<and> nd_name (fs_nodes S m) = name)" if "m < fs_next S" "m \<noteq> root_id" for m
    using comps_step [OF t that] no_node_at [OF t, of "comps S d @ [name]" m] new p that by auto
  have entd: "nd_entries (fs_nodes S' d) = (nd_entries (fs_nodes S d))(name \<mapsto> fs_next S)"
    by (simp add: f)
  have ents: "nd_entries (fs_nodes S' m) = nd_entries (fs_nodes S m)" if "m \<noteq> d" "m \<noteq> fs_next S" for m
    using f(7) [OF that] by simp
  have ok: "node_ok S' m" if m: "m < Suc (fs_next S)" for m
  proof (cases "m = fs_next S")
    case True
    then show ?thesis using newnode d nm root entd same(3) [OF dn] by (simp add: node_ok_def Let_def)
  next
    case False
    then have m': "m < fs_next S" using m by simp
    have par: "nd_entries (fs_nodes S' (nd_dir (fs_nodes S m))) (nd_name (fs_nodes S m)) = Some m" if "m \<noteq> root_id"
      using tree_ok_parent [OF t m' that] fresh [OF m' that] entd ents [of "nd_dir (fs_nodes S m)"]
      by (cases "nd_dir (fs_nodes S m) = d") auto
    have "nd_class (fs_nodes S' (nd_dir (fs_nodes S m))) = DirK" if "m \<noteq> root_id"
      using tree_ok_parent [OF t m' that] same(3) [of "nd_dir (fs_nodes S m)"] by simp
    then show ?thesis
      using tree_okD(5) [OF t m'] par same [OF False] cmp [OF m' d(1)]
      unfolding node_ok_def Let_def by simp
  qed
  have lk: "fs_lookupDict S' k = Some n \<longleftrightarrow>
      n < Suc (fs_next S) \<and> (k = abs_of (comps S' n) \<or> n = root_id \<and> k \<in> root_keys)" for k n
  proof (cases "n = fs_next S")
    case True
    have "fs_lookupDict S k \<noteq> Some (fs_next S)" using tree_okD(6) [OF t, of k "fs_next S"] by simp
    then show ?thesis using True root p by (simp add: f(2) cn)
  next
    case False
    have "k = p \<Longrightarrow> \<not> (n < fs_next S \<and> (k = abs_of (comps S n) \<or> n = root_id \<and> k \<in> root_keys))"
      using new tree_okD(6) [OF t, of k n] by auto
    then show ?thesis
      using False tree_okD(6) [OF t, of k n] cmp(1) [OF _ d(1), of n] by (cases "n < fs_next S") (auto simp: f(2))
  qed
  have ent: "n < Suc (fs_next S) \<and> n \<noteq> root_id \<and> nd_dir (fs_nodes S' n) = e \<and> nd_name (fs_nodes S' n) = k"
    if "e < Suc (fs_next S)" "nd_class (fs_nodes S' e) = DirK" "k \<noteq> ''.''" "k \<noteq> ''..''"
      "nd_entries (fs_nodes S' e) k = Some n" for e k n
  proof -
    have e: "e \<noteq> fs_next S" using that(2) newnode by auto
    then have e': "e < fs_next S" "nd_class (fs_nodes S e) = DirK" using that(1,2) same(3) [OF e] by auto
    show ?thesis
    proof (cases "e = d \<and> k = name")
      case True
      then have "n = fs_next S" using that(5) entd by simp
      then show ?thesis using True newnode root by simp
    next
      case False
      then have "nd_entries (fs_nodes S e) k = Some n"
        using that(5) entd ents [OF _ e] by (cases "e = d") auto
      then have "n < fs_next S \<and> n \<noteq> root_id \<and> nd_dir (fs_nodes S n) = e \<and> nd_name (fs_nodes S n) = k"
        using tree_ok_entries [OF t e'] that(3,4) by blast
      then show ?thesis using same(1,2) [of n] by auto
    qed
  qed
  show "tree_ok S'"
    unfolding tree_ok_def nx
    using tree_okD(1-4,7-10) [OF t] ok lk ent same root f(3,4) by (simp add: less_SucI)
qed

lemma enter_node_ok:
  assumes t: "tree_ok S" and d: "d < fs_next S" "nd_class (fs_nodes S d) = DirK" and nm: "proper_name name"
    and p: "p = abs_of (comps S d @ [name])" and new: "fs_lookupDict S p = None"
    and S'_def: "S' = enter_node p name k d S"
  shows "tree_ok S' \<and> grown S S' \<and> comps S' (fs_next S) = comps S d @ [name] \<and>
    fs_next S < fs_next S' \<and> nd_class (fs_nodes S' (fs_next S)) = k"
proof -
  let ?E = "enter_node p name EntryK d S"
  note e = enter_entry_ok [OF assms(1-6)]
  have dn: "d \<noteq> fs_next S" using d by simp
  have c: "nd_class (fs_nodes ?E (fs_next S)) = EntryK"
    using enter_entry_fields(5) [OF dn] by (simp add: base_init_def)
  show ?thesis
  proof (cases "k = EntryK")
    case True
    then show ?thesis using e c unfolding S'_def by simp
  next
    case False
    then have S': "S' = become k (fs_next S) ?E" using enter_node_become [OF dn, of p name k] S'_def by simp
    have "tree_ok S'" "grown ?E S'" using become_ok [OF e(1) _ c, of k] e(4) S' by auto
    then show ?thesis
      using e grown_trans [OF e(2)] become_nodes(8) [of k "fs_next S" ?E] grown_comps [of ?E S' "fs_next S"]
        grown_less [of ?E S' "fs_next S"] S' by simp
  qed
qed

section \<open>Lookup of a normalised path\<close>

lemma lookup_abs_hit:
  "fs_lookupDict S p = Some n \<Longrightarrow> lookup_abs E k create p S = lookup_node n k S"
  by (subst lookup_abs.simps) (simp add: lookup_node_def)

lemma lookup_abs_miss:
  assumes "fs_lookupDict S p = None" and "rsplit_path p = Some (a, b)" and "lookup_abs E DirK True a S = (rd, S1)"
  shows "create \<Longrightarrow> rd = Inr d \<Longrightarrow> diskcheck_match E k (entry_abspath S1 d b) = None \<Longrightarrow>
      lookup_abs E k create p S = (Inr (fs_next S1), enter_node p b k d S1)"
    and "\<not> (create \<and> (\<exists>d. rd = Inr d \<and> diskcheck_match E k (entry_abspath S1 d b) = None)) \<Longrightarrow>
      \<exists>e. lookup_abs E k create p S = (Inl e, if create then S1 else S)"
proof -
  have eq: "lookup_abs E k create p S =
      (if \<not> create then (Inl (UserErr (''No such file or directory: '' @ CHR 0x27 # p @ CHR 0x27 # '' in '' @ CHR 0x27 #
                  nd_abspath (fs_nodes S root_id) @ CHR 0x27 # '' (and create is False)'')), S)
       else (case rd of Inl e \<Rightarrow> (Inl e, S1)
         | Inr d \<Rightarrow> (case diskcheck_match E k (entry_abspath S1 d b) of Some e \<Rightarrow> (Inl e, S1)
            | None \<Rightarrow> (Inr (fs_next S1), enter_node p b k d S1))))"
    by (subst lookup_abs.simps) (simp add: assms)
  show "create \<Longrightarrow> rd = Inr d \<Longrightarrow> diskcheck_match E k (entry_abspath S1 d b) = None \<Longrightarrow>
      lookup_abs E k create p S = (Inr (fs_next S1), enter_node p b k d S1)"
    unfolding eq by simp
  show "\<not> (create \<and> (\<exists>d. rd = Inr d \<and> diskcheck_match E k (entry_abspath S1 d b) = None)) \<Longrightarrow>
      \<exists>e. lookup_abs E k create p S = (Inl e, if create then S1 else S)"
    unfolding eq by (auto split: sum.splits option.splits)
qed

lemma must_be_same_dict: "must_be_same k n S = (r, S') \<Longrightarrow> fs_lookupDict S' = fs_lookupDict S"
  by (auto simp: must_be_same_def become_nodes Let_def split: if_splits)

lemma lookup_node_ok:
  assumes "tree_ok S" and "n < fs_next S" and "lookup_node n k S = (r, S')"
  shows "tree_ok S' \<and> grown S S' \<and> fs_lookupDict S' = fs_lookupDict S \<and>
    (\<forall>m. r = Inr m \<longrightarrow> m = n \<and> (nd_class (fs_nodes S' n) = k \<or> k = EntryK))"
proof -
  obtain r' S1 where m: "must_be_same k n S = (r', S1)" by fastforce
  then have "S' = S1" "r = (case r' of Inl e \<Rightarrow> Inl e | Inr _ \<Rightarrow> Inr n)"
    using assms(3) by (auto simp: lookup_node_def split: sum.splits)
  then show ?thesis
    using must_be_same_ok [OF assms(1,2) m] must_be_same_dict [OF m] by (auto split: sum.splits)
qed

lemma enter_node_dict:
  "fs_lookupDict (enter_node p name k d S) = (fs_lookupDict S)(p \<mapsto> fs_next S)"
  by (simp add: enter_node_def upd_def morph_dir_def Let_def)

text \<open>A lookup enters no path longer than its own.\<close>

lemma lookup_abs_longer:
  "lookup_abs E k create p S = (r, S') \<Longrightarrow> length p < length q \<Longrightarrow> fs_lookupDict S' q = fs_lookupDict S q"
proof (induction E k create p S arbitrary: r S' rule: lookup_abs.induct)
  case (1 E k create p S)
  show ?case
  proof (cases "fs_lookupDict S p")
    case (Some n)
    then show ?thesis using "1.prems"(1) must_be_same_dict
      by (auto simp: lookup_abs_hit lookup_node_def split: prod.splits sum.splits)
  next
    case None
    show ?thesis
    proof (cases "\<not> create \<or> rsplit_path p = None")
      case True
      then show ?thesis using None "1.prems"(1) by (auto simp: lookup_abs.simps [of _ _ _ p] split: if_splits)
    next
      case False
      then obtain a b where ab: "rsplit_path p = Some (a, b)" by auto
      obtain rd S1 where l: "lookup_abs E DirK True a S = (rd, S1)" by fastforce
      have "fs_lookupDict S1 q = fs_lookupDict S q"
        using "1.IH" [OF None _ ab refl l] False rsplit_path_shorter [OF ab] "1.prems"(2) by simp
      moreover have "S' = S1 \<or> (\<exists>d. S' = enter_node p b k d S1)"
        using lookup_abs_miss(1) [OF None ab l, where create = create and k = k]
          lookup_abs_miss(2) [OF None ab l, where create = create and k = k] False "1.prems"(1)
        by (cases "create \<and> (\<exists>d. rd = Inr d \<and> diskcheck_match E k (entry_abspath S1 d b) = None)") auto
      ultimately show ?thesis using "1.prems"(2) by (auto simp: enter_node_dict)
    qed
  qed
qed

lemma lookup_abs_ok:
  assumes "tree_ok S" and "\<forall>c\<in>set cs. proper_name c" and "p = abs_of cs \<or> cs = [] \<and> p \<in> root_keys"
    and "lookup_abs E k create p S = (r, S')"
  shows "tree_ok S' \<and> grown S S' \<and>
    (\<forall>n. r = Inr n \<longrightarrow> n < fs_next S' \<and> comps S' n = cs \<and> (nd_class (fs_nodes S' n) = k \<or> k = EntryK))"
  using assms
proof (induction cs arbitrary: k create p r S' rule: rev_induct)
  case Nil
  then have lk: "fs_lookupDict S p = Some root_id" using tree_okD(1,6) [OF Nil.prems(1)] by auto
  then show ?case
    using Nil.prems(4) lookup_node_ok [OF Nil.prems(1) tree_okD(1) [OF Nil.prems(1)], of k r S']
      tree_okD(1) [OF Nil.prems(1)] grown_less by (auto simp: lookup_abs_hit)
next
  case (snoc c cs)
  have p: "p = abs_of (cs @ [c])" using snoc.prems(3) by simp
  have nm: "proper_name c" and cs: "\<forall>c\<in>set cs. proper_name c" using snoc.prems(2) by auto
  show ?case
  proof (cases "fs_lookupDict S p")
    case (Some n)
    have n: "n < fs_next S" "comps S n = cs @ [c]"
    proof -
      show "n < fs_next S" using Some tree_okD(6) [OF snoc.prems(1)] by simp
      moreover have "p \<notin> root_keys" using p nm by (cases cs; cases c; auto simp: root_keys_def proper_name_def sep_def)
      ultimately have "abs_of (comps S n) = abs_of (cs @ [c])"
        using Some tree_okD(6) [OF snoc.prems(1), of p n] p by simp
      then show "comps S n = cs @ [c]"
        using abs_of_inj comps_no_sep [OF snoc.prems(1) \<open>n < fs_next S\<close>] snoc.prems(2) by (simp add: proper_name_def)
    qed
    then show ?thesis
      using Some snoc.prems(4) lookup_node_ok [OF snoc.prems(1) n(1), of k r S'] grown_less [OF _ n(1)]
        grown_comps [OF _ n(1)] n(2)
      by (auto simp: lookup_abs_hit)
  next
    case None
    obtain rd S1 where l: "lookup_abs E DirK True (abs_of cs) S = (rd, S1)" by fastforce
    have s: "sep \<notin> set c" using nm by (simp add: proper_name_def)
    have rs: "rsplit_path p = Some (abs_of cs, c)" unfolding p by (rule rsplit_abs_of [OF s])
    note ih = snoc.IH [OF snoc.prems(1) cs disjI1 [OF refl] l]
    show ?thesis
    proof (cases "create \<and> (\<exists>d. rd = Inr d \<and> diskcheck_match E k (entry_abspath S1 d c) = None)")
      case False
      then have "S' = S \<or> S' = S1" "\<exists>e. r = Inl e"
        using snoc.prems(4) lookup_abs_miss(2) [OF None rs l False] by (auto split: if_splits)
      then show ?thesis using ih snoc.prems(1) by auto
    next
      case True
      then obtain d where d: "rd = Inr d" "diskcheck_match E k (entry_abspath S1 d c) = None" by blast
      then have r: "r = Inr (fs_next S1)" "S' = enter_node p c k d S1"
        using snoc.prems(4) lookup_abs_miss(1) [OF None rs l _ d] True by auto
      have i: "tree_ok S1" "grown S S1" "d < fs_next S1" "comps S1 d = cs" "nd_class (fs_nodes S1 d) = DirK"
        using ih d(1) by auto
      have "fs_lookupDict S1 p = None"
      proof (rule ccontr)
        assume "fs_lookupDict S1 p \<noteq> None"
        then obtain m where m: "fs_lookupDict S1 p = Some m" by blast
        then show False using lookup_abs_longer [OF l, of p] None p by simp
      qed
      then show ?thesis
        using enter_node_ok [OF i(1,3,5) nm _ _ r(2)] p i(2,4) grown_trans [of S S1] r by auto
    qed
  qed
qed

section \<open>Lookup of a path name\<close>

lemma split_on_cons_words: "\<exists>w cs. split_on sep q = w # cs \<and> q = w @ abs_of cs"
proof -
  obtain w cs where s: "split_on sep q = w # cs" by (cases "split_on sep q") auto
  then have "sep # q = abs_of (w # cs)" using abs_of_split [of q] by simp
  then show ?thesis using s by auto
qed

lemma norm_outs_replicate [simp]: "norm_outs outs (replicate k []) = outs"
  by (induction k) simp_all

lemma split_on_append_seps: "split_on sep (q @ replicate k sep) = split_on sep q @ replicate k []"
proof (induction q)
  case Nil
  then show ?case by (induction k) auto
next
  case (Cons c q)
  then show ?case by (auto split: list.splits)
qed

lemma rstrip_sep_append: "\<exists>k. p = rstrip_sep p @ replicate k sep"
proof -
  have "takeWhile (\<lambda>c. c = sep) xs = replicate (length (takeWhile (\<lambda>c. c = sep) xs)) sep" for xs
    by (induction xs) auto
  moreover have "rev p = takeWhile (\<lambda>c. c = sep) (rev p) @ dropWhile (\<lambda>c. c = sep) (rev p)" by simp
  ultimately obtain k where "rev p = replicate k sep @ dropWhile (\<lambda>c. c = sep) (rev p)" by metis
  then have "rev (rev p) = rstrip_sep p @ replicate k sep" unfolding rstrip_sep_def by (metis rev_append rev_replicate)
  then show ?thesis by auto
qed

lemma norm_outs_rstrip: "norm_outs outs (split_on sep (rstrip_sep p)) = norm_outs outs (split_on sep p)"
proof -
  obtain k where k: "p = rstrip_sep p @ replicate k sep" using rstrip_sep_append by blast
  then have "split_on sep p = split_on sep (rstrip_sep p) @ replicate k []" by (metis split_on_append_seps)
  then show ?thesis by (simp add: norm_outs_append)
qed

lemma norm_outs_lstrip:
  "norm_outs outs (split_on sep (dropWhile (\<lambda>c. c = sep) p)) = norm_outs outs (split_on sep p)"
  by (induction p) auto

lemma norm_outs_strip: "norm_outs outs (split_on sep (strip_sep p)) = norm_outs outs (split_on sep p)"
  by (simp add: strip_sep_def norm_outs_rstrip norm_outs_lstrip)

lemma rstrip_sep_Nil [simp]: "rstrip_sep [] = []"
  by (simp add: rstrip_sep_def)

lemma last_rstrip: "rstrip_sep p \<noteq> [] \<Longrightarrow> last (rstrip_sep p) \<noteq> sep"
  using hd_dropWhile [of "\<lambda>c. c = sep" "rev p"] unfolding rstrip_sep_def last_rev by simp

lemma hd_rstrip: "rstrip_sep p \<noteq> [] \<Longrightarrow> hd (rstrip_sep p) = hd p"
  using rstrip_sep_append [of p] by (metis hd_append2)

lemma set_rstrip: "set (rstrip_sep p) \<subseteq> set p"
  using rstrip_sep_append [of p] by (metis Un_upper1 set_append)

lemma strip_sep_ends:
  assumes "strip_sep p \<noteq> []"
  shows "hd (strip_sep p) \<noteq> sep" and "last (strip_sep p) \<noteq> sep"
proof -
  have "dropWhile (\<lambda>c. c = sep) p \<noteq> []" using assms unfolding strip_sep_def by (metis rstrip_sep_Nil)
  then have "hd (dropWhile (\<lambda>c. c = sep) p) \<noteq> sep" by (rule hd_dropWhile)
  then show "hd (strip_sep p) \<noteq> sep"
    unfolding strip_sep_def hd_rstrip [OF assms [unfolded strip_sep_def]] .
  show "last (strip_sep p) \<noteq> sep" using assms last_rstrip unfolding strip_sep_def by blast
qed

lemma set_strip: "set (strip_sep p) \<subseteq> set p"
  unfolding strip_sep_def using set_rstrip set_dropWhileD by fast

text \<open>A path the check lets through has only proper components after its first one.\<close>

lemma unneeded_proper:
  assumes "\<not> needs_normpath (w @ abs_of cs)" and "\<forall>c\<in>set (w # cs). sep \<notin> set c \<and> newline \<notin> set c"
    and "cs \<noteq> [] \<longrightarrow> last cs \<noteq> []" and "c \<in> set cs"
  shows "proper_name c"
proof -
  have n: "\<not> (\<exists>us vs. cs = us @ [] # vs \<and> vs \<noteq> [])" "''..'' \<notin> set cs" "''.'' \<notin> set cs"
    using assms(1) needs_normpath_words [OF assms(2)] by auto
  have "c \<noteq> []"
  proof
    assume "c = []"
    then obtain us vs where d: "cs = us @ [] # vs" using assms(4) by (metis in_set_conv_decomp)
    then have "vs = []" using n(1) by blast
    then show False using d assms(3) by simp
  qed
  moreover have "c \<noteq> ''.''" "c \<noteq> ''..''" using n(2,3) assms(4) by blast+
  moreover have "sep \<notin> set c" using assms(2,4) by simp
  ultimately show ?thesis by (simp add: proper_name_def)
qed

lemma last_abs_of: "cs \<noteq> [] \<Longrightarrow> last (w @ abs_of cs) = (if last cs = [] then sep else last (last cs))"
proof (induction cs arbitrary: w)
  case (Cons c cs)
  then show ?case using Cons.IH [of "w @ sep # c"] by (cases "cs = []") auto
qed simp

definition spells :: "string \<Rightarrow> string list \<Rightarrow> bool" where
  "spells p cs \<longleftrightarrow> p = abs_of cs \<or> cs = [] \<and> p \<in> root_keys"

lemma spells_normalize:
  assumes "\<forall>c\<in>set cs. sep \<notin> set c"
  shows "spells (normalize_abs (abs_of cs)) (norm_outs [] cs)"
  unfolding normalize_abs_of [OF assms] by (simp add: spells_def root_keys_def)

lemma words_no_newline:
  assumes "split_on sep q = w # cs" and "newline \<notin> set q"
  shows "\<forall>c\<in>set (w # cs). sep \<notin> set c \<and> newline \<notin> set c"
proof
  fix c
  assume c: "c \<in> set (w # cs)"
  then obtain us vs where d: "w # cs = us @ c # vs" by (meson split_list)
  have "sep # q = abs_of (us @ c # vs)" using abs_of_split [of q] assms(1) d by simp
  then have "set c \<subseteq> set (sep # q)" by (simp only: abs_of_simps set_append list.set) blast
  then show "sep \<notin> set c \<and> newline \<notin> set c"
    using assms c split_on_no_sep [of c sep q] newline_sep by auto
qed

lemma spells_below:
  assumes bs: "\<forall>b\<in>set bs. proper_name b" and nl: "newline \<notin> set q"
    and ends: "q \<noteq> [] \<longrightarrow> hd q \<noteq> sep \<and> last q \<noteq> sep"
  shows "spells (below (abs_of bs) q) (norm_outs bs (split_on sep q))"
proof -
  have nd: "\<not> needs_normpath []" "\<not> needs_normpath ''.''" by code_simp+
  obtain w cs where s: "split_on sep q = w # cs" and q: "q = w @ abs_of cs" using split_on_cons_words by blast
  note words = words_no_newline [OF s nl]
  have base: "norm_outs bs (split_on sep q) = norm_outs [] (bs @ w # cs)"
    using norm_outs_proper [OF bs, of "[]"] s by (simp only: norm_outs_append append_Nil)
  consider "q = [] \<or> q = ''.''" | "q \<noteq> []" "q \<noteq> ''.''" "needs_normpath q" | "q \<noteq> []" "q \<noteq> ''.''" "\<not> needs_normpath q"
    by blast
  then show ?thesis
  proof cases
    case 1
    then have "norm_outs bs (split_on sep q) = bs" by (auto simp: sep_def)
    then show ?thesis using 1 nd by (auto simp: below_def Let_def spells_def)
  next
    case 2
    then have "below (abs_of bs) q = normalize_abs (abs_of (bs @ w # cs))"
    proof -
      have "below (abs_of bs) q = normalize_abs (abs_of bs @ ''/'' @ q)"
        using 2 unfolding below_def Let_def by (simp only: if_True if_False simp_thms)
      then show ?thesis using q by (simp add: sep_def)
    qed
    moreover have "\<forall>c\<in>set (bs @ w # cs). sep \<notin> set c" using bs words by (auto simp: proper_name_def)
    ultimately show ?thesis using spells_normalize base by metis
  next
    case 3
    have w: "w \<noteq> []" using ends 3(1) q by (cases cs) auto
    have "cs \<noteq> [] \<longrightarrow> last cs \<noteq> []" using ends 3(1) q last_abs_of [of cs w] by auto
    then have "\<forall>c\<in>set cs. proper_name c" using unneeded_proper [OF _ words] 3(3) q by blast
    moreover have "proper_name w"
      using w 3 q words needs_normpath_words [OF words] by (cases "cs = []") (auto simp: proper_name_def)
    ultimately have "norm_outs bs (w # cs) = bs @ w # cs" by (intro norm_outs_proper) simp
    moreover have "below (abs_of bs) q = abs_of (bs @ w # cs)"
      using 3 q by (simp add: below_def Let_def sep_def)
    ultimately show ?thesis using s by (simp add: spells_def)
  qed
qed

lemma spells_absolute:
  assumes nl: "newline \<notin> set q" and q: "take 1 q = ''/''" and ends: "q = ''/'' \<or> last q \<noteq> sep"
  shows "spells (if needs_normpath q then normalize_abs q else q) (norm_outs [] (split_on sep q))"
proof (cases "q = ''/''")
  case True
  have "\<not> needs_normpath ''/''" "norm_outs [] (split_on sep ''/'') = []" by code_simp+
  then show ?thesis using True by (simp add: spells_def root_keys_def)
next
  case False
  have h: "\<exists>r. q = sep # r" using q by (cases q) (auto simp: sep_def)
  obtain w cs where s: "split_on sep q = w # cs" and qs: "q = w @ abs_of cs" using split_on_cons_words by blast
  then have w: "w = []" using h by (cases "split_on sep q") auto
  note words = words_no_newline [OF s nl]
  have c: "cs \<noteq> []" using qs w h by auto
  then have l: "last cs \<noteq> []" using ends False qs last_abs_of [OF c, of w] by auto
  show ?thesis
  proof (cases "needs_normpath q")
    case True
    have "\<forall>c\<in>set cs. sep \<notin> set c" using words by simp
    then show ?thesis using True spells_normalize [of cs] qs w s by simp
  next
    case False
    then have "\<forall>c\<in>set cs. proper_name c" using unneeded_proper [OF _ words] l qs by blast
    then have "norm_outs [] cs = cs" using norm_outs_proper [of cs "[]"] by simp
    then show ?thesis using False qs w s by (simp add: spells_def)
  qed
qed

text \<open>
  The path a lookup stands for: from the top directory after a hash sign, from the root when it
  is absolute (a path of two or more slashes only is not), otherwise from the given directory.
\<close>

definition lookup_comps :: "fsys \<Rightarrow> fsid option \<Rightarrow> string \<Rightarrow> string list" where
  "lookup_comps S dir p =
     (if take 1 p = ''#'' then norm_outs (comps S (fs_top S)) (split_on sep (drop 1 p))
      else if p = ''/'' \<or> take 1 p = ''/'' \<and> rstrip_sep p \<noteq> [] then norm_outs [] (split_on sep p)
      else norm_outs (comps S (case dir of None \<Rightarrow> fs_cwd S | Some d \<Rightarrow> d)) (split_on sep p))"

lemma comps_all_proper:
  assumes "tree_ok S" and "n < fs_next S"
  shows "\<forall>c\<in>set (norm_outs (comps S n) (split_on sep p)). proper_name c"
  using norm_outs_all_proper [OF comps_proper [OF assms]] split_on_no_sep by blast

definition is_relative :: "string \<Rightarrow> bool" where
  "is_relative p \<longleftrightarrow> take 1 p \<noteq> ''#'' \<and> take 1 (if p = ''/'' then p else rstrip_sep p) \<noteq> ''/''"

lemma is_relative_cases:
  assumes "is_relative p"
  shows "lookup_comps S dir p = norm_outs (comps S (case dir of None \<Rightarrow> fs_cwd S | Some d \<Rightarrow> d)) (split_on sep p)"
    and "rstrip_sep p \<noteq> [] \<longrightarrow> hd (rstrip_sep p) \<noteq> sep \<and> last (rstrip_sep p) \<noteq> sep"
    and "p \<noteq> ''/''"
proof -
  show "p \<noteq> ''/''" using assms by (auto simp: is_relative_def)
  then have r: "take 1 (rstrip_sep p) \<noteq> ''/''" using assms by (simp add: is_relative_def)
  then show "rstrip_sep p \<noteq> [] \<longrightarrow> hd (rstrip_sep p) \<noteq> sep \<and> last (rstrip_sep p) \<noteq> sep"
    using last_rstrip [of p] by (cases "rstrip_sep p") (auto simp: sep_def)
  then have "\<not> (p = ''/'' \<or> take 1 p = ''/'' \<and> rstrip_sep p \<noteq> [])"
    using \<open>p \<noteq> ''/''\<close> hd_rstrip [of p] by (cases p) (auto simp: sep_def)
  moreover have "take 1 p \<noteq> ''#''" using assms by (simp add: is_relative_def)
  ultimately show "lookup_comps S dir p =
      norm_outs (comps S (case dir of None \<Rightarrow> fs_cwd S | Some d \<Rightarrow> d)) (split_on sep p)"
    unfolding lookup_comps_def by (simp only: if_False)
qed

lemma lookup_not_relative:
  assumes "\<not> is_relative p"
  shows "lookup E p dir k create S = lookup E p None k create S" "lookup_comps S dir p = lookup_comps S None p"
proof -
  consider "take 1 p = ''#''" | "take 1 p \<noteq> ''#''" "take 1 (if p = ''/'' then p else rstrip_sep p) = ''/''"
    using assms by (auto simp: is_relative_def)
  then show "lookup E p dir k create S = lookup E p None k create S"
  proof cases
    case 1
    then show ?thesis unfolding lookup_def by simp
  next
    case 2
    show ?thesis unfolding lookup_def Let_def if_not_P [OF 2(1)] if_P [OF 2(2)] ..
  qed
  have "p = ''/'' \<or> take 1 p = ''/'' \<and> rstrip_sep p \<noteq> []" if "take 1 p \<noteq> ''#''"
    using that assms hd_rstrip [of p] unfolding is_relative_def
    by (cases p; cases "rstrip_sep p") (auto split: if_splits)
  then show "lookup_comps S dir p = lookup_comps S None p" unfolding lookup_comps_def by auto
qed

lemma lookup_relative:
  assumes "is_relative p"
  shows "lookup E p None k create S = lookup_abs E k create (below (get_labspath S (fs_cwd S)) (rstrip_sep p)) S"
    and "lookup E p (Some d) k create S =
      (case must_be_same DirK d S of (Inl e, S1) \<Rightarrow> (Inl e, S1)
       | (Inr _, S1) \<Rightarrow> lookup_abs E k create (below (get_labspath S1 d) (rstrip_sep p)) S1)"
proof -
  have p: "p \<noteq> ''/''" "take 1 p \<noteq> ''#''" "take 1 (rstrip_sep p) \<noteq> ''/''"
    using is_relative_cases(3) [OF assms] assms by (auto simp: is_relative_def)
  show "lookup E p None k create S = lookup_abs E k create (below (get_labspath S (fs_cwd S)) (rstrip_sep p)) S"
    unfolding lookup_def Let_def if_not_P [OF p(1)] if_not_P [OF p(2)] if_not_P [OF p(3)] by simp
  show "lookup E p (Some d) k create S =
      (case must_be_same DirK d S of (Inl e, S1) \<Rightarrow> (Inl e, S1)
       | (Inr _, S1) \<Rightarrow> lookup_abs E k create (below (get_labspath S1 d) (rstrip_sep p)) S1)"
    unfolding lookup_def Let_def if_not_P [OF p(1)] if_not_P [OF p(2)] if_not_P [OF p(3)] by simp
qed

text \<open>
  With directories to start from, a lookup is the lookup of one string, which spells the path it
  stands for.
\<close>

lemma spells_relative:
  assumes "tree_ok S" and "newline \<notin> set p" and "is_relative p" and "d < fs_next S"
  shows "spells (below (get_labspath S d) (rstrip_sep p)) (norm_outs (comps S d) (split_on sep p))"
proof -
  have "newline \<notin> set (rstrip_sep p)" using assms(2) set_rstrip [of p] by auto
  then have "spells (below (get_labspath S d) (rstrip_sep p)) (norm_outs (comps S d) (split_on sep (rstrip_sep p)))"
    unfolding get_labspath_comps [OF assms(1,4)]
    using is_relative_cases(2) [OF assms(3)] by (intro spells_below comps_proper assms(1,4))
  then show ?thesis unfolding norm_outs_rstrip .
qed

lemma lookup_string:
  assumes t: "tree_ok S" and nl: "newline \<notin> set p"
    and dir: "\<forall>d\<in>set_option dir. d < fs_next S \<and> nd_class (fs_nodes S d) = DirK"
  shows "\<exists>s. spells s (lookup_comps S dir p) \<and> (\<forall>E k create. lookup E p dir k create S = lookup_abs E k create s S)"
proof -
  define q where "q = (if p = ''/'' then p else rstrip_sep p)"
  have qn: "norm_outs outs (split_on sep q) = norm_outs outs (split_on sep p)" for outs
    by (simp add: q_def norm_outs_rstrip)
  consider (top) "take 1 p = ''#''" | (abs) "take 1 p \<noteq> ''#''" "take 1 q = ''/''" | (rel) "is_relative p"
    by (auto simp: is_relative_def q_def)
  then show ?thesis
  proof cases
    case top
    let ?q = "strip_sep (drop 1 p)"
    have "newline \<notin> set ?q" using nl set_strip [of "drop 1 p"] set_drop_subset [of 1 p] by blast
    then have "spells (below (get_labspath S (fs_top S)) ?q) (norm_outs (comps S (fs_top S)) (split_on sep ?q))"
      unfolding get_labspath_comps [OF t tree_okD(7) [OF t]]
      using strip_sep_ends by (intro spells_below comps_proper t tree_okD(7)) auto
    then show ?thesis unfolding norm_outs_strip lookup_def lookup_comps_def if_P [OF top] by blast
  next
    case abs
    have e: "q = ''/'' \<or> last q \<noteq> sep"
      using last_rstrip [of p] abs(2) by (cases "rstrip_sep p = []") (auto simp: q_def split: if_splits)
    have qnl: "newline \<notin> set q" using nl set_rstrip [of p] by (auto simp: q_def)
    have p: "p = ''/'' \<or> take 1 p = ''/'' \<and> rstrip_sep p \<noteq> []"
      using abs(2) hd_rstrip [of p] by (cases p; cases "rstrip_sep p") (auto simp: q_def split: if_splits)
    have "lookup E p dir k create S = lookup_abs E k create (if needs_normpath q then normalize_abs q else q) S"
      for E k create
      unfolding lookup_def Let_def q_def [symmetric] if_not_P [OF abs(1)] if_P [OF abs(2)] ..
    moreover have "lookup_comps S dir p = norm_outs [] (split_on sep q)"
      unfolding lookup_comps_def if_not_P [OF abs(1)] if_P [OF p] by (simp add: qn)
    ultimately show ?thesis using spells_absolute [OF qnl abs(2) e] by metis
  next
    case rel
    note lc = is_relative_cases(1) [OF rel, of S dir]
    show ?thesis
    proof (cases dir)
      case None
      then show ?thesis
        using spells_relative [OF t nl rel tree_okD(9) [OF t]] lookup_relative(1) [OF rel] lc by auto
    next
      case (Some d)
      then have d: "d < fs_next S" "must_be_same DirK d S = (Inr (), S)"
        using dir by (auto simp: must_be_same_def Let_def)
      then show ?thesis
        using spells_relative [OF t nl rel d(1)] lookup_relative(2) [OF rel, of _ d] lc Some by auto
    qed
  qed
qed

definition found_at :: "klass \<Rightarrow> string list \<Rightarrow> fsys \<Rightarrow> fs_error + fsid \<Rightarrow> fsys \<Rightarrow> bool" where
  "found_at k cs S r S' \<longleftrightarrow> tree_ok S' \<and> grown S S' \<and>
    (\<forall>n. r = Inr n \<longrightarrow> n < fs_next S' \<and> comps S' n = cs \<and> (nd_class (fs_nodes S' n) = k \<or> k = EntryK))"

lemma lookup_comps_proper:
  assumes "tree_ok S" and "\<forall>d\<in>set_option dir. d < fs_next S"
  shows "\<forall>c\<in>set (lookup_comps S dir p). proper_name c"
proof -
  have "(case dir of None \<Rightarrow> fs_cwd S | Some d \<Rightarrow> d) < fs_next S"
    using assms tree_okD(9) [OF assms(1)] by (cases dir) auto
  then have "\<forall>c\<in>set (norm_outs (comps S (case dir of None \<Rightarrow> fs_cwd S | Some d \<Rightarrow> d)) (split_on sep s)). proper_name c"
      "\<forall>c\<in>set (norm_outs (comps S (fs_top S)) (split_on sep s)). proper_name c"
      "\<forall>c\<in>set (norm_outs [] (split_on sep s)). proper_name c" for s
    using comps_all_proper [OF assms(1)] tree_okD(7) [OF assms(1)] norm_outs_all_proper [of "[]" "split_on sep s"]
      split_on_no_sep [of _ sep s] by (blast, blast, auto)
  then show ?thesis unfolding lookup_comps_def by (simp split: if_split)
qed

lemma lookup_ok:
  assumes t: "tree_ok S" and nl: "newline \<notin> set p" and dir: "\<forall>d\<in>set_option dir. d < fs_next S"
    and l: "lookup E p dir k create S = (r, S')"
  shows "found_at k (lookup_comps S dir p) S r S'"
proof -
  have main: "found_at k (lookup_comps S0 dir p) S0 r S'"
    if S0: "tree_ok S0" and dirs: "\<forall>d\<in>set_option dir. d < fs_next S0 \<and> nd_class (fs_nodes S0 d) = DirK"
      and eq: "lookup E p dir k create S0 = (r, S')" for S0 dir
  proof -
    obtain s where s: "spells s (lookup_comps S0 dir p)" "lookup_abs E k create s S0 = (r, S')"
      using lookup_string [OF S0 nl dirs] eq by metis
    have "\<forall>c\<in>set (lookup_comps S0 dir p). proper_name c" using S0 dirs by (intro lookup_comps_proper) auto
    from lookup_abs_ok [OF S0 this s(1) [unfolded spells_def] s(2)] show ?thesis
      unfolding found_at_def .
  qed
  show ?thesis
  proof (cases "is_relative p \<and> dir \<noteq> None")
    case False
    then consider "dir = None" | "\<not> is_relative p" by blast
    then have "lookup E p None k create S = (r, S') \<and> lookup_comps S dir p = lookup_comps S None p"
    proof cases
      case 2
      then show ?thesis using l lookup_not_relative(1) [OF 2, of E dir] lookup_not_relative(2) [OF 2, of S dir] by metis
    qed (use l in simp)
    then show ?thesis using main [OF t, of None] by simp
  next
    case True
    then obtain d where d: "dir = Some d" "d < fs_next S" and rel: "is_relative p" using dir by auto
    obtain m S1 where m: "must_be_same DirK d S = (m, S1)" by fastforce
    note mok = must_be_same_ok [OF t d(2) m]
    show ?thesis
    proof (cases m)
      case (Inl e)
      then have "S' = S1 \<and> r = Inl e" using l lookup_relative(2) [OF rel] d(1) m by simp
      then show ?thesis using mok by (simp add: found_at_def)
    next
      case (Inr u)
      then have d1: "d < fs_next S1" "nd_class (fs_nodes S1 d) = DirK" "comps S1 d = comps S d"
        using mok grown_less [OF _ d(2), of S1] grown_comps [OF _ d(2), of S1] by auto
      then have "must_be_same DirK d S1 = (Inr (), S1)" by (simp add: must_be_same_def Let_def)
      then have "lookup E p dir k create S1 = (r, S')"
        using l lookup_relative(2) [OF rel] d(1) m Inr by simp
      moreover have "lookup_comps S1 dir p = lookup_comps S dir p"
        using is_relative_cases(1) [OF rel] d(1) d1(3) by simp
      ultimately show ?thesis
        using main [of S1 dir] mok d d1 grown_trans [of S S1 S'] unfolding found_at_def by auto
    qed
  qed
qed

end
