(* ===== verification/TreeProps.thy ===== *)
theory TreeProps
  imports TreeLookup
begin

text \<open>
  What the tree of file system nodes promises its clients: one node for each normalised path
  however it is spelled, relative paths that are looked up to the node they were printed for, and
  where this fails (names that begin with a hash sign, paths of slashes only, paths with a
  newline), with witnesses on a small tree.
\<close>

section \<open>Nodes that are there\<close>

lemma lookup_existing:
  assumes t: "tree_ok S" and nl: "newline \<notin> set p"
    and dir: "\<forall>d\<in>set_option dir. d < fs_next S \<and> nd_class (fs_nodes S d) = DirK"
    and n: "n < fs_next S" "lookup_comps S dir p = comps S n" and k: "nd_class (fs_nodes S n) = k \<or> k = EntryK"
  shows "lookup E p dir k create S = (Inr n, S)"
proof -
  obtain s where s: "spells s (comps S n)" "lookup E p dir k create S = lookup_abs E k create s S"
    using lookup_string [OF t nl dir] n(2) by metis
  have "n = root_id" if "comps S n = []"
    using comps_inj [OF t n(1) tree_okD(1) [OF t]] that by simp
  then have "fs_lookupDict S s = Some n"
    using s(1) n(1) tree_okD(6) [OF t, of s n] by (auto simp: spells_def)
  moreover have "must_be_same k n S = (Inr (), S)" using k by (auto simp: must_be_same_def Let_def)
  ultimately show ?thesis using s(2) by (simp add: lookup_abs_hit lookup_node_def)
qed

lemma root_fs_ok: "tree_ok root_fs"
proof -
  have n0: "n < fs_next root_fs \<longleftrightarrow> n = root_id" for n by (auto simp: root_fs_def root_id_def)
  have c: "fs_nodes root_fs n = root_node" for n by (simp add: root_fs_def)
  have "node_ok root_fs root_id" by (simp add: node_ok_def c root_node_def)
  moreover have "fs_lookupDict root_fs k = Some n \<longleftrightarrow>
      n = root_id \<and> (k = abs_of (comps root_fs n) \<or> n = root_id \<and> k \<in> root_keys)" for k n
    by (auto simp: root_fs_def root_keys_def)
  ultimately show ?thesis
    unfolding tree_ok_def n0 c by (auto simp: root_node_def n0 c root_fs_def)
qed

lemma tree_ok_moved:
  assumes t: "tree_ok S" and n: "n < fs_next S" "nd_class (fs_nodes S n) = DirK"
  shows "tree_ok (upd n (\<lambda>x. x\<lparr>nd_path := a, nd_tpath := b\<rparr>) S\<lparr>fs_top := n, fs_cwd := n\<rparr>)"
proof -
  let ?S = "upd n (\<lambda>x. x\<lparr>nd_path := a, nd_tpath := b\<rparr>) S\<lparr>fs_top := n, fs_cwd := n\<rparr>"
  have f: "nd_name (fs_nodes ?S m) = nd_name (fs_nodes S m)" "nd_dir (fs_nodes ?S m) = nd_dir (fs_nodes S m)"
    "nd_class (fs_nodes ?S m) = nd_class (fs_nodes S m)" "nd_entries (fs_nodes ?S m) = nd_entries (fs_nodes S m)"
    "nd_labspath (fs_nodes ?S m) = nd_labspath (fs_nodes S m)" "nd_abspath (fs_nodes ?S m) = nd_abspath (fs_nodes S m)"
    "nd_elems (fs_nodes ?S m) = nd_elems (fs_nodes S m)" "nd_dirname (fs_nodes ?S m) = nd_dirname (fs_nodes S m)" for m
    by (simp_all add: upd_def)
  have c: "comps ?S m = comps S m" "elems_of ?S m = elems_of S m" for m
    using comps_cong [of m ?S S] f by auto
  have g: "fs_next ?S = fs_next S" "fs_lookupDict ?S = fs_lookupDict S" "fs_top ?S = n" "fs_cwd ?S = n"
    by (simp_all add: upd_def)
  show ?thesis
    using t n unfolding tree_ok_def node_ok_def Let_def g f c
    by (elim conjE) (intro conjI; assumption)
qed

text \<open>The tree \<open>FS.__init__\<close> makes.\<close>

lemma fs_init_ok:
  assumes "fs_init E path = Inr S" and "newline \<notin> set path"
  shows "tree_ok S \<and> comps S (fs_top S) = norm_outs [] (split_on sep path) \<and> fs_cwd S = fs_top S"
proof -
  have c: "\<not> (take 1 path = ''#'' \<or> (path \<noteq> ''/'' \<and> take 1 (rstrip_sep path) \<noteq> ''/''))"
    using assms(1) by (auto simp: fs_init_def split: if_splits)
  obtain n S1 where l: "lookup E path None DirK True root_fs = (Inr n, S1)"
    and S: "S = upd n (\<lambda>x. x\<lparr>nd_path := ''.'', nd_tpath := ''.''\<rparr>) S1\<lparr>fs_top := n, fs_cwd := n\<rparr>"
    using assms(1) c unfolding fs_init_def fs_Dir_def if_not_P [OF c] by (auto split: sum.splits prod.splits)
  have f: "tree_ok S1" "n < fs_next S1" "comps S1 n = lookup_comps root_fs None path" "nd_class (fs_nodes S1 n) = DirK"
    using lookup_ok [OF root_fs_ok assms(2) _ l] by (auto simp: found_at_def)
  have p: "path = ''/'' \<or> take 1 path = ''/'' \<and> rstrip_sep path \<noteq> []"
    using c hd_rstrip [of path] by (cases path; cases "rstrip_sep path") auto
  have "lookup_comps root_fs None path = norm_outs [] (split_on sep path)"
    using c unfolding lookup_comps_def if_P [OF p] by auto
  moreover have "comps S n = comps S1 n" using comps_cong [of n S S1] S by (simp add: upd_def)
  ultimately show ?thesis using tree_ok_moved [OF f(1,2,4)] f(3) S by simp
qed

section \<open>Printed paths\<close>

lemma elems_dir:
  assumes "tree_ok S" and "n < fs_next S" and "nd_class (fs_nodes S n) = DirK"
  shows "get_path_elements S n = elems_of S n"
  using tree_okD(5) [OF assms(1,2)] assms(3) by (simp add: get_path_elements_def node_ok_def Let_def)

lemma get_path_elements_ok:
  assumes t: "tree_ok S" and n: "n < fs_next S"
  shows "get_path_elements S n = elems_of S n"
proof (cases "nd_class (fs_nodes S n) = DirK")
  case False
  then have nr: "n \<noteq> root_id" using tree_okD(2) [OF t] by metis
  note p = tree_ok_parent [OF t n nr]
  have "nd_elems (fs_nodes S (nd_dir (fs_nodes S n))) = elems_of S (nd_dir (fs_nodes S n))"
    using tree_okD(5) [OF t p(2)] p(3) by (simp add: node_ok_def Let_def)
  then show ?thesis using False elems_of_step [OF t n nr] by (simp add: get_path_elements_def Let_def)
qed (rule elems_dir [OF t n])

lemma elems_of_le: "tree_ok S \<Longrightarrow> n < fs_next S \<Longrightarrow> m \<in> set (elems_of S n) \<Longrightarrow> m \<le> n \<and> m < fs_next S"
proof (induction n rule: less_induct)
  case (less n)
  show ?case
  proof (cases "n = root_id")
    case True
    then show ?thesis using less.prems by simp
  next
    case False
    note p = tree_ok_parent [OF less.prems(1,2) False]
    have "m \<in> set (elems_of S (nd_dir (fs_nodes S n))) \<or> m = n"
      using less.prems(3) elems_of_step [OF less.prems(1,2) False] by auto
    then show ?thesis using less.IH [OF p(1) less.prems(1) p(2)] p(1) less.prems(2) by auto
  qed
qed

lemma elems_of_root_in: "root_id \<in> set (elems_of S n)"
proof (induction n rule: less_induct)
  case (less n)
  then show ?case by (cases "n = root_id \<or> n \<le> nd_dir (fs_nodes S n)") (simp_all add: elems_of.simps [of S n])
qed

text \<open>The elements of a path are distinct; those above one of them are the elements of its path.\<close>

lemma elems_of_above:
  assumes t: "tree_ok S" and "n < fs_next S" and "m \<in> set (elems_of S n)"
  shows "\<exists>rest. elems_of S n = elems_of S m @ rest \<and>
    comps S n = comps S m @ map (\<lambda>j. nd_name (fs_nodes S j)) rest \<and> m \<notin> set rest \<and>
    (\<forall>j\<in>set rest. j < fs_next S \<and> j \<noteq> root_id) \<and>
    (\<forall>j\<in>set (butlast rest). nd_class (fs_nodes S j) = DirK) \<and> (rest \<noteq> [] \<longrightarrow> last rest = n)"
  using assms(2,3)
proof (induction n rule: less_induct)
  case (less n)
  show ?case
  proof (cases "m = n")
    case True
    then show ?thesis by simp
  next
    case False
    then have nr: "n \<noteq> root_id" using less.prems(2) by auto
    let ?d = "nd_dir (fs_nodes S n)"
    note p = tree_ok_parent [OF t less.prems(1) nr]
    have "m \<in> set (elems_of S ?d)"
      using less.prems(2) False elems_of_step [OF t less.prems(1) nr] by simp
    from less.IH [OF p(1,2) this] obtain rest where r: "elems_of S ?d = elems_of S m @ rest"
      "comps S ?d = comps S m @ map (\<lambda>j. nd_name (fs_nodes S j)) rest" "m \<notin> set rest"
      "\<forall>j\<in>set rest. j < fs_next S \<and> j \<noteq> root_id" "\<forall>j\<in>set (butlast rest). nd_class (fs_nodes S j) = DirK"
      "rest \<noteq> [] \<longrightarrow> last rest = ?d"
      by blast
    have "\<forall>j\<in>set rest. nd_class (fs_nodes S j) = DirK"
      using r(5,6) p(3) by (cases rest rule: rev_cases) auto
    then show ?thesis
      using r False nr less.prems(1) elems_of_step [OF t less.prems(1) nr] comps_step [OF t less.prems(1) nr]
      by (intro exI [of _ "rest @ [n]"]) simp
  qed
qed

lemma elems_of_last: "tree_ok S \<Longrightarrow> n < fs_next S \<Longrightarrow> last (elems_of S n) = n"
  by (cases "n = root_id") (simp_all add: elems_of_step)

lemma elems_of_length: "tree_ok S \<Longrightarrow> n < fs_next S \<Longrightarrow> length (elems_of S n) = Suc (length (comps S n))"
  using elems_of_above [of S n root_id] elems_of_root_in [of S n] by auto

lemma index_of_append: "x \<notin> set ys \<Longrightarrow> index_of x (ys @ x # zs) = length ys"
  by (induction ys) auto

lemma index_in_elems:
  assumes t: "tree_ok S" and n: "n < fs_next S" and m: "m \<in> set (elems_of S n)"
  shows "index_of m (elems_of S n) + 1 = length (elems_of S m)"
proof -
  obtain rest where r: "elems_of S n = elems_of S m @ rest" using elems_of_above [OF assms] by blast
  have m': "m < fs_next S" using elems_of_le [OF assms] by simp
  have "\<exists>us. elems_of S m = us @ [m] \<and> m \<notin> set us"
  proof (cases "m = root_id")
    case False
    note p = tree_ok_parent [OF t m' False]
    have "m \<notin> set (elems_of S (nd_dir (fs_nodes S m)))" using elems_of_le [OF t p(2)] p(1) by force
    then show ?thesis using elems_of_step [OF t m' False] by simp
  qed simp
  then obtain us where "elems_of S m = us @ [m]" "m \<notin> set us" by blast
  then show ?thesis using r index_of_append [of m us rest] by simp
qed

lemma norm_outs_ups: "norm_outs outs (replicate k ''..'') = take (length outs - k) outs"
proof (induction k arbitrary: outs)
  case (Suc k)
  then show ?case by (simp add: butlast_conv_take min_def)
qed simp

lemma split_on_append_word:
  assumes "sep \<notin> set c"
  shows "split_on sep (r @ sep # c) = split_on sep r @ [c]"
proof (induction r)
  case Nil
  then show ?case using split_on_free [OF assms] by simp
next
  case (Cons x r)
  then show ?case by (auto split: list.splits)
qed

lemma rel_path_norm:
  assumes t: "tree_ok S" and a: "a < fs_next S" "nd_class (fs_nodes S a) = DirK"
  shows "b < fs_next S \<Longrightarrow> norm_outs (comps S a) (split_on sep (rel_path S a b)) = comps S b"
proof (induction b rule: less_induct)
  case (less b)
  consider (same) "a = b" | (above) "a \<noteq> b" "b \<in> set (elems_of S a)" | (other) "a \<noteq> b" "b \<notin> set (elems_of S a)"
    by blast
  then show ?case
  proof cases
    case same
    then have "rel_path S a b = ''.''" by (simp add: rel_path.simps)
    then show ?thesis using same by (simp add: sep_def)
  next
    case above
    obtain rest where r: "elems_of S a = elems_of S b @ rest"
      "comps S a = comps S b @ map (\<lambda>j. nd_name (fs_nodes S j)) rest"
      using elems_of_above [OF t a(1) above(2)] by blast
    have rest: "rest \<noteq> []" using r(1) elems_of_last [OF t a(1)] elems_of_last [OF t less.prems] above(1) by auto
    note i = index_in_elems [OF t a(1) above(2)]
    have "rel_path S a b = join_with [sep] (replicate (length rest) ''..'')"
      using above i r(1)
      by (simp add: rel_path.simps [of S a b] get_path_elements_ok [OF t a(1)] get_path_elements_ok [OF t less.prems]
          Let_def sep_def)
    moreover have "split_on sep (join_with [sep] (replicate (length rest) ''..'')) = replicate (length rest) ''..''"
      using rest by (intro split_join) (auto simp: sep_def)
    ultimately show ?thesis using r(2) by (simp add: norm_outs_ups)
  next
    case other
    then have br: "b \<noteq> root_id" using elems_of_root_in by metis
    note p = tree_ok_parent [OF t less.prems br]
    let ?d = "nd_dir (fs_nodes S b)"
    note ih = less.IH [OF p(1,2)]
    have nm: "sep \<notin> set (nd_name (fs_nodes S b))" "proper_name (nd_name (fs_nodes S b))"
      using p(4) by (auto simp: proper_name_def)
    have cb: "comps S b = comps S ?d @ [nd_name (fs_nodes S b)]" by (rule comps_step [OF t less.prems br])
    have one: "norm_outs cs [nd_name (fs_nodes S b)] = cs @ [nd_name (fs_nodes S b)]" for cs
      using nm(2) by (intro norm_outs_proper) simp
    have rp: "rel_path S a b = (if rel_path S a ?d = ''.'' then nd_name (fs_nodes S b)
        else rel_path S a ?d @ sep # nd_name (fs_nodes S b))"
      using other br p(1)
      by (simp add: rel_path.simps [of S a b] get_path_elements_ok [OF t a(1)] Let_def sep_def)
    show ?thesis
    proof (cases "rel_path S a ?d = ''.''")
      case True
      then have "comps S a = comps S ?d" using ih by (simp add: sep_def)
      then show ?thesis using True rp cb one split_on_free [OF nm(1)] by simp
    next
      case False
      then show ?thesis using rp cb one ih split_on_append_word [OF nm(1)] by (simp add: norm_outs_append)
    qed
  qed
qed

text \<open>Names without a newline, so that the paths they spell have none.\<close>

definition plain_names :: "fsys \<Rightarrow> bool" where
  "plain_names S \<longleftrightarrow> (\<forall>n<fs_next S. newline \<notin> set (nd_name (fs_nodes S n)))"

lemma join_with_set: "set (join_with s ws) \<subseteq> set s \<union> \<Union>(set ` set ws)"
  by (induction s ws rule: join_with.induct) auto

lemma rel_path_chars:
  assumes t: "tree_ok S" and pn: "plain_names S" and a: "a < fs_next S"
  shows "b < fs_next S \<Longrightarrow> newline \<notin> set (rel_path S a b) \<and> rel_path S a b \<noteq> [] \<and> hd (rel_path S a b) \<noteq> sep"
proof (induction b rule: less_induct)
  case (less b)
  have nb: "newline \<notin> set (nd_name (fs_nodes S b))" using pn less.prems by (simp add: plain_names_def)
  consider (same) "a = b" | (above) "a \<noteq> b" "b \<in> set (elems_of S a)" | (other) "a \<noteq> b" "b \<notin> set (elems_of S a)"
    by blast
  then show ?case
  proof cases
    case same
    then show ?thesis by (simp add: rel_path.simps newline_def sep_def)
  next
    case above
    have i: "index_of b (elems_of S a) + 1 = length (elems_of S b)" by (rule index_in_elems [OF t a above(2)])
    obtain rest where r: "elems_of S a = elems_of S b @ rest" using elems_of_above [OF t a above(2)] by blast
    have rest: "rest \<noteq> []" using r elems_of_last [OF t a] elems_of_last [OF t less.prems] above(1) by auto
    have e: "rel_path S a b = join_with ''/'' (replicate (length rest) ''..'')"
      using above i r
      by (simp add: rel_path.simps [of S a b] get_path_elements_ok [OF t a] get_path_elements_ok [OF t less.prems] Let_def)
    have "set (rel_path S a b) \<subseteq> {CHR ''/'', CHR ''.''}"
    proof -
      have "(\<Union>w\<in>set (replicate (length rest) ''..''). set w) \<subseteq> {CHR ''.''}" by (auto simp: set_replicate_conv_if)
      then show ?thesis unfolding e using join_with_set [of "''/''" "replicate (length rest) ''..''"] by auto
    qed
    moreover have "\<exists>r. rel_path S a b = CHR ''.'' # r"
      unfolding e using rest by (cases rest; cases "tl rest") auto
    ultimately show ?thesis by (auto simp: newline_def sep_def)
  next
    case other
    then have br: "b \<noteq> root_id" using elems_of_root_in by metis
    note p = tree_ok_parent [OF t less.prems br]
    have rp: "rel_path S a b = (if rel_path S a (nd_dir (fs_nodes S b)) = ''.'' then nd_name (fs_nodes S b)
        else rel_path S a (nd_dir (fs_nodes S b)) @ sep # nd_name (fs_nodes S b))"
      using other br p(1) by (simp add: rel_path.simps [of S a b] get_path_elements_ok [OF t a] Let_def sep_def)
    have "nd_name (fs_nodes S b) \<noteq> []" "sep \<notin> set (nd_name (fs_nodes S b))" using p(4) by (auto simp: proper_name_def)
    then show ?thesis using less.IH [OF p(1,2)] rp nb by (cases "nd_name (fs_nodes S b)") auto
  qed
qed

lemma split_on_names:
  assumes "\<forall>x\<in>set xs. sep \<notin> set (f x)"
  shows "split_on sep (concat (map (\<lambda>x. f x @ ''/'') xs) @ w) = map f xs @ split_on sep w"
  using assms
proof (induction xs)
  case (Cons x xs)
  then show ?case using split_on_append_sep [of sep "f x"] by (simp add: sep_def)
qed simp

text \<open>The names of a list of nodes with a slash between them.\<close>

definition joined :: "(fsid \<Rightarrow> string) \<Rightarrow> fsid list \<Rightarrow> string" where
  "joined f xs = concat (map (\<lambda>x. f x @ ''/'') (butlast xs)) @ f (last xs)"

definition names_ok :: "(fsid \<Rightarrow> string) \<Rightarrow> fsid list \<Rightarrow> bool" where
  "names_ok f xs \<longleftrightarrow> xs \<noteq> [] \<and> (\<forall>x\<in>set xs. proper_name (f x) \<and> newline \<notin> set (f x))"

lemma names_okD:
  assumes "names_ok f xs" and "x \<in> set xs"
  shows "proper_name (f x)" "f x \<noteq> []" "sep \<notin> set (f x)" "newline \<notin> set (f x)" "hd (f x) \<noteq> sep" "last (f x) \<noteq> sep"
proof -
  show p: "proper_name (f x)" "newline \<notin> set (f x)" using assms by (auto simp: names_ok_def)
  then show q: "f x \<noteq> []" "sep \<notin> set (f x)" by (auto simp: proper_name_def)
  then show "hd (f x) \<noteq> sep" "last (f x) \<noteq> sep" using hd_in_set [of "f x"] last_in_set [of "f x"] by metis+
qed

lemma joined_chars:
  assumes "names_ok f xs"
  shows "newline \<notin> set (joined f xs)" "joined f xs \<noteq> []" "hd (joined f xs) \<noteq> sep" "last (joined f xs) \<noteq> sep"
proof -
  obtain ys y where xs: "xs = ys @ [y]" using assms by (cases xs rule: rev_cases) (auto simp: names_ok_def)
  note n = names_okD [OF assms]
  have y: "y \<in> set xs" using xs by simp
  show "newline \<notin> set (joined f xs)" using n(4) xs by (auto simp: joined_def newline_def)
  show "joined f xs \<noteq> []" using n(2) [OF y] xs by (simp add: joined_def)
  show "last (joined f xs) \<noteq> sep" using n(2,6) [OF y] xs by (simp add: joined_def)
  show "hd (joined f xs) \<noteq> sep" using n(2,5) xs by (cases ys) (auto simp: joined_def)
qed

lemma split_joined:
  assumes "names_ok f xs"
  shows "split_on sep (joined f xs) = map f xs"
proof -
  obtain ys y where xs: "xs = ys @ [y]" using assms by (cases xs rule: rev_cases) (auto simp: names_ok_def)
  have "\<forall>x\<in>set xs. sep \<notin> set (f x)" using names_okD(3) [OF assms] by blast
  then show ?thesis using split_on_names [of ys f] split_on_free [of sep "f y"] xs by (simp add: joined_def)
qed

lemma norm_outs_joined:
  "names_ok f xs \<Longrightarrow> norm_outs outs (split_on sep (joined f xs)) = outs @ map f xs"
  unfolding split_joined using names_okD(1) by (intro norm_outs_proper) auto

lemma rest_names:
  assumes t: "tree_ok S" and pn: "plain_names S" and r: "\<forall>j\<in>set rest. j < fs_next S \<and> j \<noteq> root_id" "rest \<noteq> []"
  shows "names_ok (\<lambda>j. nd_name (fs_nodes S j)) rest"
  using tree_ok_parent(4) [OF t] pn r by (auto simp: plain_names_def names_ok_def)

lemma dirnames:
  assumes t: "tree_ok S" and "\<forall>j\<in>set xs. j < fs_next S \<and> j \<noteq> root_id \<and> nd_class (fs_nodes S j) = DirK"
  shows "concat (map (\<lambda>j. nd_dirname (fs_nodes S j)) xs) = concat (map (\<lambda>j. nd_name (fs_nodes S j) @ ''/'') xs)"
proof -
  have "map (\<lambda>j. nd_dirname (fs_nodes S j)) xs = map (\<lambda>j. nd_name (fs_nodes S j) @ ''/'') xs"
    using assms(2) tree_okD(5) [OF t] by (auto simp: node_ok_def Let_def)
  then show ?thesis by (rule arg_cong)
qed

text \<open>\<open>get_path\<close> as names below the given directory, or below the root.\<close>

lemma get_path_below:
  assumes t: "tree_ok S" and pn: "plain_names S" and n: "n < fs_next S" and m: "m \<in> set (elems_of S n)" and mn: "m \<noteq> n"
  shows "\<exists>rest. elems_of S n = elems_of S m @ rest \<and> rest \<noteq> [] \<and>
    comps S n = comps S m @ map (\<lambda>j. nd_name (fs_nodes S j)) rest \<and>
    names_ok (\<lambda>j. nd_name (fs_nodes S j)) rest \<and>
    concat (map (\<lambda>j. nd_dirname (fs_nodes S j)) (butlast rest)) @ nd_name (fs_nodes S n) =
      joined (\<lambda>j. nd_name (fs_nodes S j)) rest"
proof -
  obtain rest where r: "elems_of S n = elems_of S m @ rest"
    "comps S n = comps S m @ map (\<lambda>j. nd_name (fs_nodes S j)) rest" "\<forall>j\<in>set rest. j < fs_next S \<and> j \<noteq> root_id"
    "\<forall>j\<in>set (butlast rest). nd_class (fs_nodes S j) = DirK" "rest \<noteq> [] \<longrightarrow> last rest = n"
    using elems_of_above [OF t n m] by blast
  have m': "m < fs_next S" using elems_of_le [OF t n m] by simp
  have rest: "rest \<noteq> []" using r(1) elems_of_last [OF t n] elems_of_last [OF t m'] mn by auto
  have "\<forall>j\<in>set (butlast rest). j < fs_next S \<and> j \<noteq> root_id \<and> nd_class (fs_nodes S j) = DirK"
    using r(3,4) by (blast dest: in_set_butlastD)
  from dirnames [OF t this] show ?thesis
    using r rest rest_names [OF t pn r(3) rest] by (intro exI [of _ rest]) (simp add: joined_def)
qed

lemma rstrip_nonempty: "p \<noteq> [] \<Longrightarrow> last p \<noteq> sep \<Longrightarrow> rstrip_sep p = p"
  by (cases p rule: rev_cases) (auto simp: rstrip_sep_def)

lemma get_path_norm:
  assumes t: "tree_ok S" and pn: "plain_names S" and n: "n < fs_next S" and h: "take 1 (get_path S n None) \<noteq> ''#''"
  shows "newline \<notin> set (get_path S n None) \<and> lookup_comps S None (get_path S n None) = comps S n"
proof -
  let ?d = "fs_cwd S" and ?nm = "\<lambda>j. nd_name (fs_nodes S j)"
  note el = get_path_elements_ok [OF t n] and la = elems_of_last [OF t n]
  consider (same) "n = ?d" | (under) "n \<noteq> ?d" "?d \<in> set (elems_of S n)"
    | (root) "n \<noteq> ?d" "?d \<notin> set (elems_of S n)" "n = root_id"
    | (outside) "n \<noteq> ?d" "?d \<notin> set (elems_of S n)" "root_id \<noteq> n"
    by metis
  then show ?thesis
  proof cases
    case same
    then have "get_path S n None = ''.''" by (simp add: get_path_def Let_def)
    then show ?thesis using same by (simp add: lookup_comps_def sep_def newline_def)
  next
    case under
    obtain rest where r: "elems_of S n = elems_of S ?d @ rest" "rest \<noteq> []" "comps S n = comps S ?d @ map ?nm rest"
      "names_ok ?nm rest"
      "concat (map (\<lambda>j. nd_dirname (fs_nodes S j)) (butlast rest)) @ ?nm n = joined ?nm rest"
      using get_path_below [OF t pn n under(2)] under(1) by metis
    have p: "get_path S n None = joined ?nm rest"
      using under index_in_elems [OF t n under(2)] r(1,2,5) la by (simp add: get_path_def Let_def el)
    note ch = joined_chars [OF r(4)]
    have "joined ?nm rest \<noteq> ''/''" "take 1 (joined ?nm rest) \<noteq> ''/''"
      using ch(2,3) by (cases "joined ?nm rest"; auto simp: sep_def)+
    then show ?thesis
      using h ch(1) norm_outs_joined [OF r(4)] r(3) unfolding p lookup_comps_def by simp
  next
    case root
    then have "get_path S n None = ''/''"
      using tree_okD(3) [OF t] el by (simp add: get_path_def Let_def)
    then show ?thesis using root(3) by (simp add: lookup_comps_def newline_def sep_def)
  next
    case outside
    obtain rest where r: "elems_of S n = elems_of S root_id @ rest" "rest \<noteq> []"
      "comps S n = comps S root_id @ map ?nm rest" "names_ok ?nm rest"
      "concat (map (\<lambda>j. nd_dirname (fs_nodes S j)) (butlast rest)) @ ?nm n = joined ?nm rest"
      using get_path_below [OF t pn n elems_of_root_in] outside(3) by metis
    have "nd_dirname (fs_nodes S root_id) = ''/''"
      using tree_okD(5) [OF t tree_okD(1) [OF t]] tree_okD(2) [OF t] by (simp add: node_ok_def Let_def)
    then have p: "get_path S n None = sep # joined ?nm rest"
      using outside(1,2) r(1,2) r(5) [symmetric] la by (simp add: get_path_def Let_def el sep_def)
    note ch = joined_chars [OF r(4)]
    have "rstrip_sep (sep # joined ?nm rest) \<noteq> []" using rstrip_nonempty ch(2,4) by simp
    moreover have "norm_outs [] (split_on sep (sep # joined ?nm rest)) = comps S n"
      using norm_outs_joined [OF r(4)] r(3) by simp
    moreover have "take 1 (sep # joined ?nm rest) = ''/''" by (simp add: sep_def)
    ultimately show ?thesis
      using h ch(1) unfolding p lookup_comps_def by (simp del: split_on.simps)
  qed
qed

section \<open>Later trees\<close>

text \<open>What a sequence of lookups makes of a tree, returning or raising.\<close>

inductive later :: "fsys \<Rightarrow> fsys \<Rightarrow> bool" where
  now: "later S S"
| step: "later S S1 \<Longrightarrow> lookup E p dir k create S1 = (r, S2) \<Longrightarrow> newline \<notin> set p \<Longrightarrow>
    \<forall>d\<in>set_option dir. d < fs_next S1 \<Longrightarrow> later S S2"

lemma later_ok: "later S S' \<Longrightarrow> tree_ok S \<Longrightarrow> tree_ok S' \<and> grown S S'"
proof (induction rule: later.induct)
  case (step S S1 E p dir k create r S2)
  then have "found_at k (lookup_comps S1 dir p) S1 r S2" using lookup_ok by blast
  then show ?case using step grown_trans [of S S1 S2] by (auto simp: found_at_def)
qed simp

section \<open>A small tree\<close>

definition no_disk :: disk where
  "no_disk = \<lparr>dk_isdir = (\<lambda>_. False), dk_isfile = (\<lambda>p. p = ''/w/f''), dk_match = True\<rparr>"

definition small_tree :: fsys where
  "small_tree = (case fs_init no_disk ''/w'' of Inr S \<Rightarrow> snd (fs_File no_disk ''a/b.c'' None True S) | Inl _ \<Rightarrow> root_fs)"

lemma small_init: "\<exists>S. fs_init no_disk ''/w'' = Inr S \<and> small_tree = snd (fs_File no_disk ''a/b.c'' None True S)"
proof -
  have "(case fs_init no_disk ''/w'' of Inl _ \<Rightarrow> False | Inr _ \<Rightarrow> True)" by code_simp
  then show ?thesis by (auto simp: small_tree_def split: sum.splits)
qed

lemma small_tree_ok: "tree_ok small_tree"
proof -
  obtain S where S: "fs_init no_disk ''/w'' = Inr S" "small_tree = snd (lookup no_disk ''a/b.c'' None FileK True S)"
    using small_init by (auto simp: fs_File_def)
  obtain r S' where l: "lookup no_disk ''a/b.c'' None FileK True S = (r, S')" by fastforce
  have "tree_ok S" using fs_init_ok [OF S(1)] by (simp add: newline_def)
  from lookup_ok [OF this _ _ l] S(2) l show ?thesis by (simp add: found_at_def newline_def)
qed

lemma small_tree_facts:
  "fs_next small_tree = 4" "fs_cwd small_tree = 1" "fs_top small_tree = 1"
  "nd_name (fs_nodes small_tree 0) = ''/''" "nd_name (fs_nodes small_tree 1) = ''w''"
  "nd_name (fs_nodes small_tree 2) = ''a''" "nd_name (fs_nodes small_tree 3) = ''b.c''"
  "nd_class (fs_nodes small_tree 1) = DirK" "nd_class (fs_nodes small_tree 2) = DirK"
  by code_simp+

lemma small_tree_plain: "plain_names small_tree"
  unfolding plain_names_def small_tree_facts(1)
  by (auto simp: numeral_nat less_Suc_eq small_tree_facts [unfolded numeral_nat One_nat_def] newline_def)

section \<open>Properties\<close>

text \<open>
  C24: A lookup keeps the tree consistent whatever it does, and when it returns, the node is the one
  of the normalised path: from the top directory after a hash sign, from the root for an
  absolute path, from the given or the current directory otherwise, each \<open>..\<close> dropping a
  component. No other node moves, and the node has the class asked for unless any would do.
  Paths with a newline are left out: the pattern that decides whether a path is normalised does not look past one.
\<close>

theorem lookup_finds_normal_path:
  assumes "tree_ok S" and "newline \<notin> set p" and "\<forall>d\<in>set_option dir. d < fs_next S"
    and "lookup E p dir k create S = (r, S')"
  shows "tree_ok S' \<and> grown S S' \<and> (\<forall>n. r = Inr n \<longrightarrow>
    n < fs_next S' \<and> comps S' n = lookup_comps S dir p \<and> (nd_class (fs_nodes S' n) = k \<or> k = EntryK))"
  using lookup_ok [OF assms] unfolding found_at_def .

theorem lookup_finds_normal_path_witness:
  "\<exists>n S'. lookup no_disk ''../x/./y//..'' (Some 2) DirK True small_tree = (Inr n, S') \<and> tree_ok S' \<and>
     comps S' n = [''w'', ''x'']"
proof -
  obtain r S' where l: "lookup no_disk ''../x/./y//..'' (Some 2) DirK True small_tree = (r, S')" by fastforce
  have "(case fst (lookup no_disk ''../x/./y//..'' (Some 2) DirK True small_tree) of Inr _ \<Rightarrow> True | Inl _ \<Rightarrow> False)"
    by code_simp
  then obtain n where n: "r = Inr n" using l by (auto split: sum.splits)
  have "lookup_comps small_tree (Some 2) ''../x/./y//..'' = [''w'', ''x'']" by code_simp
  then show ?thesis
    using lookup_finds_normal_path [OF small_tree_ok _ _ l] l n small_tree_facts(1) by (auto simp: newline_def)
qed

text \<open>
  C25: There is one node for each path: two lookups that return, with any other lookups between
  them, give the same node when their paths are the same after normalisation, from whatever
  directories and however they are spelled (paths with a newline left out, as above).
\<close>

theorem one_node_per_path:
  assumes "tree_ok S" and "newline \<notin> set p" and "\<forall>d\<in>set_option dir. d < fs_next S"
    and "lookup E p dir k create S = (Inr n, S1)" and "later S1 S2"
    and "newline \<notin> set q" and "\<forall>d\<in>set_option dir2. d < fs_next S2"
    and "lookup E2 q dir2 k2 create2 S2 = (Inr m, S3)" and "lookup_comps S2 dir2 q = lookup_comps S dir p"
  shows "m = n"
proof -
  have 1: "tree_ok S1" "n < fs_next S1" "comps S1 n = lookup_comps S dir p"
    using lookup_ok [OF assms(1-4)] by (auto simp: found_at_def)
  have 2: "tree_ok S2" "grown S1 S2" using later_ok [OF assms(5) 1(1)] by auto
  have 3: "tree_ok S3" "grown S2 S3" "m < fs_next S3" "comps S3 m = lookup_comps S2 dir2 q"
    using lookup_ok [OF 2(1) assms(6-8)] by (auto simp: found_at_def)
  have "comps S3 n = comps S1 n" "n < fs_next S3"
    using grown_comps [OF grown_trans [OF 2(2) 3(2)] 1(2)] grown_less [OF grown_trans [OF 2(2) 3(2)] 1(2)] by auto
  then show ?thesis using comps_inj [OF 3(1,3)] 3(4) 1(3) assms(9) by simp
qed

theorem one_node_per_path_witness:
  "\<exists>n S1 m S3. lookup no_disk ''#a/d'' None DirK True small_tree = (Inr n, S1) \<and>
     lookup no_disk ''../w/a//d/'' (Some 1) EntryK False S1 = (Inr m, S3) \<and> m = n"
proof -
  let ?l1 = "lookup no_disk ''#a/d'' None DirK True small_tree"
  let ?l2 = "lookup no_disk ''../w/a//d/'' (Some 1) EntryK False (snd ?l1)"
  have "(case fst ?l1 of Inr _ \<Rightarrow> True | Inl _ \<Rightarrow> False)" "(case fst ?l2 of Inr _ \<Rightarrow> True | Inl _ \<Rightarrow> False)"
    by code_simp+
  then obtain n S1 m S3 where l: "?l1 = (Inr n, S1)" "lookup no_disk ''../w/a//d/'' (Some 1) EntryK False S1 = (Inr m, S3)"
    by (metis prod.collapse sum.case_eq_if sum.collapse(2))
  have c: "lookup_comps (snd ?l1) (Some 1) ''../w/a//d/'' = [''w'', ''a'', ''d'']" "1 < fs_next (snd ?l1)"
      "lookup_comps small_tree None ''#a/d'' = [''w'', ''a'', ''d'']"
    by code_simp+
  have "m = n"
    by (rule one_node_per_path [OF small_tree_ok _ _ l(1) later.now _ _ l(2)])
      (use c l(1) in \<open>auto simp: newline_def\<close>)
  then show ?thesis using l by blast
qed

text \<open>
  C26: The path \<open>rel_path\<close> prints from a directory to a node is looked up from that directory to
  the node itself, and nothing is created on the way, unless the path begins with a hash sign.
\<close>

theorem rel_path_round_trip:
  assumes "tree_ok S" and "plain_names S" and "a < fs_next S" and "nd_class (fs_nodes S a) = DirK" and "b < fs_next S"
    and "take 1 (rel_path S a b) \<noteq> ''#''"
  shows "lookup E (rel_path S a b) (Some a) EntryK create S = (Inr b, S)"
proof (rule lookup_existing [OF assms(1) _ _ assms(5)])
  note ch = rel_path_chars [OF assms(1-3,5)]
  show "newline \<notin> set (rel_path S a b)" using ch by simp
  show "\<forall>d\<in>set_option (Some a). d < fs_next S \<and> nd_class (fs_nodes S d) = DirK" using assms(3,4) by simp
  have "rel_path S a b \<noteq> ''/''" "take 1 (rel_path S a b) \<noteq> ''/''"
    using ch by (cases "rel_path S a b"; auto simp: sep_def)+
  then show "lookup_comps S (Some a) (rel_path S a b) = comps S b"
    using rel_path_norm [OF assms(1,3,4,5)] assms(6) unfolding lookup_comps_def by simp
qed simp

theorem rel_path_round_trip_witness:
  "rel_path small_tree 2 1 = ''..'' \<and> lookup no_disk (rel_path small_tree 2 1) (Some 2) EntryK False small_tree = (Inr 1, small_tree)"
proof -
  have r: "rel_path small_tree 2 1 = ''..''" by code_simp
  then show ?thesis
    using rel_path_round_trip [OF small_tree_ok small_tree_plain, of 2 1 no_disk False] small_tree_facts by simp
qed

text \<open>
  The path of a node as \<open>get_path\<close> prints it is looked up to the node itself as long as the
  current directory is the same, whether the node is below it (a relative path) or not (an absolute
  one), unless the path begins with a hash sign.
\<close>

theorem get_path_round_trip:
  assumes "tree_ok S" and "plain_names S" and "n < fs_next S" and "take 1 (get_path S n None) \<noteq> ''#''"
  shows "lookup E (get_path S n None) None EntryK create S = (Inr n, S)"
  using get_path_norm [OF assms] by (intro lookup_existing [OF assms(1)]) (simp_all add: assms(3))

theorem get_path_round_trip_witness:
  "get_path small_tree 3 None = ''a/b.c'' \<and>
   lookup no_disk (get_path small_tree 3 None) None EntryK False small_tree = (Inr 3, small_tree)"
proof -
  have r: "get_path small_tree 3 None = ''a/b.c''" by code_simp
  then show ?thesis
    using get_path_round_trip [OF small_tree_ok small_tree_plain, of 3 no_disk False] small_tree_facts by simp
qed

text \<open>
  A path of two or more slashes is not the root, as the entry for \<open>//\<close> in the root's dictionary
  means it to be: the trailing slashes are stripped first, and what is left is the current
  directory.
\<close>

theorem slashes_are_relative:
  assumes "tree_ok S"
  shows "lookup E (replicate (Suc (Suc k)) sep) None EntryK create S = (Inr (fs_cwd S), S)"
proof -
  have r: "rstrip_sep (replicate (Suc (Suc k)) sep) = []" by (simp add: rstrip_sep_def)
  have "norm_outs cs (split_on sep (replicate j sep)) = cs" for cs j
    using split_on_append_seps [of "[]" j] by (simp add: norm_outs_append)
  then have "lookup_comps S None (replicate (Suc (Suc k)) sep) = comps S (fs_cwd S)"
    using r unfolding lookup_comps_def by (simp add: sep_def)
  then show ?thesis
    using tree_okD(9) [OF assms] by (intro lookup_existing [OF assms]) (auto simp: newline_def sep_def)
qed

text \<open>The check for paths to normalise does not look past a newline.\<close>

theorem newline_escapes_check:
  "\<not> needs_normpath (''a'' @ [newline] @ ''//b'') \<and> needs_normpath ''a//b''"
  by code_simp

lemma entry_in_dir:
  assumes "tree_ok S" and "d < fs_next S" and "nd_class (fs_nodes S d) = DirK" and "sep \<notin> set c"
  shows "\<exists>m S2. lookup_abs E EntryK True (abs_of (comps S d @ [c])) S = (Inr m, S2)"
proof (cases "fs_lookupDict S (abs_of (comps S d @ [c]))")
  case None
  have d: "fs_lookupDict S (abs_of (comps S d)) = Some d" using assms(2) by (simp add: tree_okD(6) [OF assms(1)])
  have "lookup_abs E DirK True (abs_of (comps S d)) S = (Inr d, S)"
    unfolding lookup_abs_hit [OF d] using assms(3) by (simp add: lookup_node_def must_be_same_def)
  from lookup_abs_miss(1) [OF None rsplit_abs_of [OF assms(4)] this _ refl, of True EntryK] show ?thesis
    by (auto simp: diskcheck_match_def)
next
  case (Some m)
  then show ?thesis by (auto simp: lookup_abs_hit lookup_node_def must_be_same_def Let_def split: sum.splits prod.splits)
qed

text \<open>
  A file whose name begins with a hash sign is printed as a path that leads to another node: the
  one of the rest of the name in the top directory.
\<close>

theorem hash_name_leads_astray:
  "\<exists>n S'. lookup no_disk ''./#x'' (Some 2) FileK True small_tree = (Inr n, S') \<and> rel_path S' 2 n = ''#x'' \<and>
     (\<exists>m S2. lookup no_disk (rel_path S' 2 n) (Some 2) EntryK True S' = (Inr m, S2) \<and> m \<noteq> n)"
proof -
  let ?l1 = "lookup no_disk ''./#x'' (Some 2) FileK True small_tree"
  have 1: "fst ?l1 = Inr 4" by code_simp
  have l: "?l1 = (Inr 4, snd ?l1)" using 1 by (metis prod.collapse)
  have c: "lookup_comps small_tree (Some 2) ''./#x'' = [''w'', ''a'', ''#x'']" "comps small_tree 2 = [''w'', ''a'']"
    by code_simp+
  have f: "tree_ok (snd ?l1)" "grown small_tree (snd ?l1)" "4 < fs_next (snd ?l1)"
      "comps (snd ?l1) 4 = [''w'', ''a'', ''#x'']"
    using lookup_ok [OF small_tree_ok _ _ l] c small_tree_facts(1) by (auto simp: found_at_def newline_def)
  have two: "2 < fs_next (snd ?l1)" "comps (snd ?l1) 2 = [''w'', ''a'']"
  proof -
    have s: "2 < fs_next small_tree" by (simp add: small_tree_facts(1))
    show "2 < fs_next (snd ?l1)" by (rule grown_less [OF f(2) s])
    show "comps (snd ?l1) 2 = [''w'', ''a'']" unfolding grown_comps [OF f(2) s] by (rule c(2))
  qed
  have r4: "(4::fsid) \<noteq> root_id" by (simp add: root_id_def)
  have el: "nd_dir (fs_nodes (snd ?l1) 4) = 2" "nd_name (fs_nodes (snd ?l1) 4) = ''#x''"
  proof -
    have s: "comps (snd ?l1) (nd_dir (fs_nodes (snd ?l1) 4)) @ [nd_name (fs_nodes (snd ?l1) 4)] =
        [''w'', ''a''] @ [''#x'']"
      using comps_step [OF f(1,3) r4] unfolding f(4) by simp
    then have "comps (snd ?l1) (nd_dir (fs_nodes (snd ?l1) 4)) = comps (snd ?l1) 2"
      unfolding two(2) by (rule append_eq_append_conv [THEN iffD1, THEN conjunct1, rotated]) simp
    from comps_inj [OF f(1) tree_ok_parent(2) [OF f(1,3) r4] two(1) this]
    show "nd_dir (fs_nodes (snd ?l1) 4) = 2" .
    show "nd_name (fs_nodes (snd ?l1) 4) = ''#x''" using s unfolding append_eq_append_conv2 by (auto simp: Cons_eq_append_conv append_eq_Cons_conv)
  qed
  have 2: "rel_path (snd ?l1) 2 4 = ''#x''"
  proof -
    have "4 \<notin> set (elems_of (snd ?l1) 2)" using elems_of_le [OF f(1) two(1), of 4] by auto
    then show ?thesis
      using r4 by (simp add: rel_path.simps [of _ 2] get_path_elements_ok [OF f(1) two(1)] el)
  qed
  let ?S = "snd ?l1"
  have top: "fs_top ?S = 1" "comps ?S 1 = [''w'']" "1 < fs_next ?S" "nd_class (fs_nodes ?S 1) = DirK"
  proof -
    have s: "1 < fs_next small_tree" by (simp add: small_tree_facts(1))
    have c1: "comps small_tree 1 = [''w'']" by code_simp
    show "fs_top ?S = 1" using f(2) small_tree_facts(3) by (simp only: grown_def)
    show "1 < fs_next ?S" by (rule grown_less [OF f(2) s])
    show "comps ?S 1 = [''w'']" unfolding grown_comps [OF f(2) s] by (rule c1)
    show "nd_class (fs_nodes ?S 1) = DirK" using f(2) s small_tree_facts(8) unfolding grown_def by force
  qed
  have q: "\<forall>d\<in>set_option (None::fsid option). d < fs_next ?S \<and> nd_class (fs_nodes ?S d) = DirK" by simp
  have lc: "lookup_comps ?S dir ''#x'' = comps ?S 1 @ [''x'']" for dir
    by (simp add: lookup_comps_def top sep_def)
  obtain s where s: "spells s (comps ?S 1 @ [''x''])" "lookup no_disk ''#x'' None EntryK True ?S = lookup_abs no_disk EntryK True s ?S"
    using lookup_string [OF f(1) _ q, of "''#x''"] unfolding lc by (auto simp: newline_def)
  then obtain m S2 where m: "lookup no_disk ''#x'' None EntryK True ?S = (Inr m, S2)"
    using entry_in_dir [OF f(1) top(3,4), of "''x''" no_disk] by (auto simp: spells_def sep_def)
  have nr: "\<not> is_relative ''#x''" by (simp add: is_relative_def)
  have "comps S2 m = [''w'', ''x'']" "grown ?S S2"
    using lookup_ok [OF f(1) _ _ m] lc top(2) by (auto simp: found_at_def newline_def)
  then have "m \<noteq> 4" using grown_comps [OF _ f(3), of S2] f(4) by auto
  moreover have "lookup no_disk (rel_path ?S 2 4) (Some 2) EntryK True ?S = (Inr m, S2)"
    unfolding 2 lookup_not_relative(1) [OF nr, of _ "Some 2"] by (rule m)
  ultimately show ?thesis using 2 l by blast
qed

end
