(* ===== verification/FileSig.thy ===== *)
theory FileSig
  imports PyPath
begin

text \<open>
  Signatures of files and the decision whether a file changed: the signature and decision
  subsystems of class \<open>File\<close> of \<open>SCons/Node/FS.py\<close>, \<open>MD5signature\<close> and \<open>MD5filesignature\<close> of
  \<open>Util.py\<close>, the deciders of \<open>Environment.py\<close> and of \<open>Node/__init__.py\<close>. The disk, the stored
  information and the digest of \<open>hashlib\<close> are parameters; the disk does not change while they are
  asked, so the memos of what is read from it are left out, and the signature kept in
  \<open>ninfo\<close>, which decisions change, is the state. The lemmas show when a signature is the
  digest of the contents and compare the deciders.
\<close>

section \<open>Digests\<close>

text \<open>
  \<open>MD5filesignature\<close>: a file is read in blocks until a read is empty; \<open>m.update\<close> of the blocks is
  \<open>m.update\<close> of what they join to, as \<open>hashlib\<close> documents.
\<close>

fun read_blocks :: "nat \<Rightarrow> string \<Rightarrow> string \<Rightarrow> string" where
  "read_blocks chunk read s =
     (if take chunk s = [] then read else read_blocks chunk (read @ take chunk s) (drop chunk s))"

declare read_blocks.simps [simp del]

definition MD5signature :: "(string \<Rightarrow> string) \<Rightarrow> string \<Rightarrow> string" where
  "MD5signature digest s = digest s"

definition MD5filesignature :: "(string \<Rightarrow> string) \<Rightarrow> nat \<Rightarrow> string \<Rightarrow> string" where
  "MD5filesignature digest chunk s = digest (read_blocks chunk [] s)"

lemma read_blocks_all: "0 < chunk \<Longrightarrow> read_blocks chunk read s = read @ s"
proof (induction chunk read s rule: read_blocks.induct)
  case (1 chunk read s)
  show ?case
  proof (cases "take chunk s = []")
    case True
    then have "s = []" using "1.prems" by (cases s) auto
    then show ?thesis by (simp add: read_blocks.simps [of chunk read "[]"])
  next
    case False
    then show ?thesis using 1 by (simp add: read_blocks.simps [of chunk read s])
  qed
qed

text \<open>Reading a file in blocks of any size digests the whole file.\<close>

lemma filesignature_signature: "0 < chunk \<Longrightarrow> MD5filesignature digest chunk s = MD5signature digest s"
  by (simp add: MD5filesignature_def MD5signature_def read_blocks_all)

section \<open>State\<close>

type_synonym fid = nat

text \<open>The slots of a \<open>FileNodeInfo\<close> (or an \<open>AliasNodeInfo\<close>): an attribute may be missing.\<close>

record fninfo =
  fi_csig :: "string option"
  fi_timestamp :: "int option"
  fi_size :: "int option"

definition new_ninfo :: fninfo where
  "new_ninfo = \<lparr>fi_csig = None, fi_timestamp = None, fi_size = None\<rparr>"

text \<open>
  The disk (contents of a regular file, \<open>None\<close> where opening raises \<open>IOError\<close>), what the
  repositories hold of a name, in order, with whether it is a file or an entry and whether it is
  derived, and the stored information.
\<close>

record world =
  w_exists :: "fid \<Rightarrow> bool"
  w_contents :: "fid \<Rightarrow> string option"
  w_mtime :: "fid \<Rightarrow> int"
  w_size :: "fid \<Rightarrow> int"
  w_candidates :: "fid \<Rightarrow> (fid \<times> bool \<times> bool) list"
  w_stored :: "fid \<Rightarrow> fninfo"
  w_now :: int
  w_max_drift :: int
  w_digest :: "string \<Rightarrow> string"

datatype sig_error = UnboundName | NotImplemented | Reraise | Unknown string | TooDeep

type_synonym ninfos = "fid \<Rightarrow> fninfo"

definition set_csig :: "fid \<Rightarrow> string \<Rightarrow> ninfos \<Rightarrow> ninfos" where
  "set_csig n c s = s(n := (s n)\<lparr>fi_csig := Some c\<rparr>)"

section \<open>Files in repositories\<close>

fun first_candidate :: "world \<Rightarrow> (fid \<times> bool \<times> bool) list \<Rightarrow> fid option" where
  "first_candidate W [] = None"
| "first_candidate W ((m, fileish, derived) # cs) =
     (if w_exists W m \<and> (fileish \<or> \<not> derived) then Some m else first_candidate W cs)"

definition rfile :: "world \<Rightarrow> fid \<Rightarrow> fid" where
  "rfile W n = (if w_exists W n then n
                else case first_candidate W (w_candidates W n) of None \<Rightarrow> n | Some m \<Rightarrow> m)"

definition rexists :: "world \<Rightarrow> fid \<Rightarrow> bool" where
  "rexists W n = w_exists W (rfile W n)"

definition get_timestamp :: "world \<Rightarrow> fid \<Rightarrow> int" where
  "get_timestamp W n = (if rexists W n then w_mtime W (rfile W n) else 0)"

definition get_size :: "world \<Rightarrow> fid \<Rightarrow> int" where
  "get_size W n = (if rexists W n then w_size W (rfile W n) else 0)"

definition get_contents :: "world \<Rightarrow> fid \<Rightarrow> string option" where
  "get_contents W n = (if rexists W n then w_contents W (rfile W n) else Some [])"

definition md5_chunksize :: nat where "md5_chunksize = 64"

definition get_content_hash :: "world \<Rightarrow> fid \<Rightarrow> string option" where
  "get_content_hash W n =
     (if \<not> rexists W n then Some (MD5signature (w_digest W) [])
      else case w_contents W (rfile W n) of None \<Rightarrow> None
        | Some c \<Rightarrow> Some (MD5filesignature (w_digest W) (md5_chunksize * 1024) c))"

section \<open>The content signature\<close>

text \<open>
  \<open>get_max_drift_csig\<close>: the stored signature of a file that has not been touched for longer
  than \<open>max_drift\<close> and has the stored time, or with \<open>max_drift\<close> 0 of any file. A time of 0 and
  an empty signature are false.
\<close>

definition get_max_drift_csig :: "world \<Rightarrow> fid \<Rightarrow> string option" where
  "get_max_drift_csig W n =
     (let old = w_stored W n; mtime = get_timestamp W n in
      if w_max_drift W > 0 then
        (if w_now W - mtime > w_max_drift W then
           (case (fi_timestamp old, fi_csig old) of
              (Some t, Some c) \<Rightarrow> if t \<noteq> 0 \<and> c \<noteq> [] \<and> t = mtime then Some c else None
            | _ \<Rightarrow> None)
         else None)
      else if w_max_drift W = 0 then fi_csig old
      else None)"

text \<open>
  Small files are read at once, others in blocks; where the file cannot be read the signature is
  empty. An empty digest of a large file would leave \<open>contents\<close> unbound.
\<close>

definition compute_csig :: "world \<Rightarrow> fid \<Rightarrow> sig_error + string" where
  "compute_csig W n =
     (if get_size W n < int md5_chunksize then
        (case get_contents W n of None \<Rightarrow> Inr [] | Some c \<Rightarrow> Inr (MD5signature (w_digest W) c))
      else
        (case get_content_hash W n of None \<Rightarrow> Inr []
         | Some h \<Rightarrow> if h = [] then Inl UnboundName else Inr h))"

definition get_csig :: "world \<Rightarrow> fid \<Rightarrow> ninfos \<Rightarrow> (sig_error + string) \<times> ninfos" where
  "get_csig W n s =
     (case fi_csig (s n) of
        Some c \<Rightarrow> (Inr c, s)
      | None \<Rightarrow>
          (case (case get_max_drift_csig W n of Some c \<Rightarrow> Inr c | None \<Rightarrow> compute_csig W n) of
             Inl e \<Rightarrow> (Inl e, s)
           | Inr c \<Rightarrow> (Inr c, set_csig n c s)))"

text \<open>\<open>visited\<close>: what is known of the file once it has been built or looked at.\<close>

definition visited_ninfo :: "world \<Rightarrow> fid \<Rightarrow> ninfos \<Rightarrow> ninfos" where
  "visited_ninfo W n s =
     (let s1 = (case get_max_drift_csig W n of
                  Some c \<Rightarrow> if c \<noteq> [] then set_csig n c s else s | None \<Rightarrow> s)
      in s1(n := (s1 n)\<lparr>fi_timestamp := Some (get_timestamp W n), fi_size := Some (get_size W n)\<rparr>))"

section \<open>Deciding\<close>

text \<open>
  \<open>prev_ni\<close> is \<open>None\<close> for a child that was not there at the last build; reading an attribute
  that is missing means that the file changed.
\<close>

definition prev_attr :: "(fninfo \<Rightarrow> 'a option) \<Rightarrow> fninfo option \<Rightarrow> 'a option" where
  "prev_attr f prev = (case prev of None \<Rightarrow> None | Some i \<Rightarrow> f i)"

definition changed_content :: "world \<Rightarrow> fid \<Rightarrow> fninfo option \<Rightarrow> ninfos \<Rightarrow> (sig_error + bool) \<times> ninfos" where
  "changed_content W n prev s =
     (case get_csig W n s of
        (Inl e, s1) \<Rightarrow> (Inl e, s1)
      | (Inr c, s1) \<Rightarrow> (Inr (case prev_attr fi_csig prev of None \<Rightarrow> True | Some p \<Rightarrow> c \<noteq> p), s1))"

definition changed_timestamp_match :: "world \<Rightarrow> fid \<Rightarrow> fninfo option \<Rightarrow> bool" where
  "changed_timestamp_match W n prev =
     (case prev_attr fi_timestamp prev of None \<Rightarrow> True | Some t \<Rightarrow> get_timestamp W n \<noteq> t)"

text \<open>The target of a dependency may be a node without a time.\<close>

definition changed_timestamp_newer :: "world \<Rightarrow> fid \<Rightarrow> fid option \<Rightarrow> bool" where
  "changed_timestamp_newer W n target =
     (case target of None \<Rightarrow> True | Some t \<Rightarrow> get_timestamp W n > get_timestamp W t)"

definition changed_timestamp_then_content ::
  "world \<Rightarrow> fid \<Rightarrow> fninfo option \<Rightarrow> ninfos \<Rightarrow> (sig_error + bool) \<times> ninfos" where
  "changed_timestamp_then_content W n prev s =
     (if \<not> changed_timestamp_match W n prev
      then (Inr False, case prev_attr fi_csig prev of None \<Rightarrow> s | Some c \<Rightarrow> set_csig n c s)
      else changed_content W n prev s)"

section \<open>Deciders of environments\<close>

datatype decider =
    ByContent | ByTimestampThenContent | ByNewer | ByMatch | ByBuild nat | BySource | ByUser nat

datatype copier = Copy2 | Copy

text \<open>The attributes of an environment that have to do with decisions; \<open>None\<close> when missing.\<close>

record env_dec =
  ed_source :: decider
  ed_target :: decider
  ed_copy :: copier
  ed_src_type :: "string option"
  ed_tgt_type :: "string option"

datatype decider_arg = Named string | Callable nat

text \<open>\<open>Decider\<close>; the string a message shows is \<open>repr\<close> of the argument.\<close>

definition env_Decider :: "bool \<Rightarrow> decider_arg \<Rightarrow> env_dec \<Rightarrow> string + env_dec" where
  "env_Decider md5 f e =
     (let put = (\<lambda>d c. Inr (e\<lparr>ed_target := d, ed_source := d, ed_copy := c\<rparr>)) in
      case f of
        Callable u \<Rightarrow> put (ByUser u) Copy2
      | Named s \<Rightarrow>
          if s = ''MD5'' \<or> s = ''content'' then
            (if \<not> md5 then Inl ''MD5 signatures are not available in this version of Python.''
             else put ByContent Copy2)
          else if s = ''MD5-timestamp'' then put ByTimestampThenContent Copy2
          else if s = ''timestamp-newer'' \<or> s = ''make'' then put ByNewer Copy
          else if s = ''timestamp-match'' then put ByMatch Copy2
          else Inl (''Unknown Decider value '' @ CHR 0x27 # s @ [CHR 0x27]))"

text \<open>The deprecated methods; the warning is left out. The type is set before it is checked.\<close>

definition SourceSignatures :: "bool \<Rightarrow> string \<Rightarrow> env_dec \<Rightarrow> (string + unit) \<times> env_dec" where
  "SourceSignatures md5 t e =
     (let e1 = e\<lparr>ed_src_type := Some t\<rparr> in
      if t = ''MD5'' then
        (if \<not> md5 then (Inl ''MD5 signatures are not available in this version of Python.'', e1)
         else (Inr (), e1\<lparr>ed_source := ByContent\<rparr>))
      else if t = ''timestamp'' then (Inr (), e1\<lparr>ed_source := ByMatch\<rparr>)
      else (Inl (''Unknown source signature type '' @ CHR 0x27 # t @ [CHR 0x27]), e1))"

definition TargetSignatures :: "bool \<Rightarrow> nat \<Rightarrow> string \<Rightarrow> env_dec \<Rightarrow> (string + unit) \<times> env_dec" where
  "TargetSignatures md5 self t e =
     (let e1 = e\<lparr>ed_tgt_type := Some t\<rparr> in
      if t = ''MD5'' \<or> t = ''content'' then
        (if \<not> md5 then (Inl ''MD5 signatures are not available in this version of Python.'', e1)
         else (Inr (), e1\<lparr>ed_target := ByContent\<rparr>))
      else if t = ''timestamp'' then (Inr (), e1\<lparr>ed_target := ByMatch\<rparr>)
      else if t = ''build'' then (Inr (), e1\<lparr>ed_target := ByBuild self\<rparr>)
      else if t = ''source'' then (Inr (), e1\<lparr>ed_target := BySource\<rparr>)
      else (Inl (''Unknown target signature type '' @ CHR 0x27 # t @ [CHR 0x27]), e1))"

text \<open>
  What a decision asks about: the environments, the one each node is built with, whether a node's
  state is not up to date, what a decider of the user's answers, and the default type.
\<close>

record dec_context =
  cx_env :: "nat \<Rightarrow> env_dec"
  cx_build_env :: "fid \<Rightarrow> nat"
  cx_not_current :: "fid \<Rightarrow> bool"
  cx_user :: "nat \<Rightarrow> fid \<Rightarrow> fid option \<Rightarrow> fninfo option \<Rightarrow> bool"
  cx_default_type :: "string option"

definition get_tgt_sig_type :: "dec_context \<Rightarrow> nat \<Rightarrow> string option" where
  "get_tgt_sig_type X e = (case ed_tgt_type (cx_env X e) of None \<Rightarrow> cx_default_type X | Some t \<Rightarrow> Some t)"

text \<open>
  One decider; the first argument bounds the calls of one decider by another. A decider set by
  \<open>TargetSignatures('build')\<close> is bound to its environment.
\<close>

fun decide ::
  "nat \<Rightarrow> world \<Rightarrow> dec_context \<Rightarrow> decider \<Rightarrow> fid \<Rightarrow> fid option \<Rightarrow> fninfo option \<Rightarrow> ninfos \<Rightarrow>
     (sig_error + bool) \<times> ninfos" where
  "decide depth W X ByContent n target prev s = changed_content W n prev s"
| "decide depth W X ByTimestampThenContent n target prev s = changed_timestamp_then_content W n prev s"
| "decide depth W X ByNewer n target prev s = (Inr (changed_timestamp_newer W n target), s)"
| "decide depth W X ByMatch n target prev s = (Inr (changed_timestamp_match W n prev), s)"
| "decide depth W X (ByUser u) n target prev s = (Inr (cx_user X u n target prev), s)"
| "decide 0 W X d n target prev s = (Inl TooDeep, s)"
| "decide (Suc depth) W X (ByBuild e) n target prev s =
     (if cx_not_current X n then (Inr True, s)
      else decide depth W X (ed_source (cx_env X e)) n target prev s)"
| "decide (Suc depth) W X BySource n target prev s =
     (let e = cx_env X (cx_build_env X n) in
      decide depth W X (if get_tgt_sig_type X (cx_build_env X n) = Some ''source'' then ed_source e else ed_target e)
        n target prev s)"

text \<open>
  The table of deciders of nodes; \<open>decide_source\<close> and \<open>decide_target\<close> go to the environment of the
  target. An entry becomes what is on the disk and asks again.
\<close>

fun changed_since_last_build ::
  "nat \<Rightarrow> world \<Rightarrow> dec_context \<Rightarrow> (fid \<Rightarrow> nat) \<Rightarrow> nat \<Rightarrow> fid \<Rightarrow> nat \<Rightarrow> fid option \<Rightarrow> fninfo option \<Rightarrow> ninfos \<Rightarrow>
     (sig_error + bool) \<times> ninfos" where
  "changed_since_last_build depth W X entry_index i n target_env target prev s =
     (if i = 1 \<or> i = 6 then changed_content W n prev s
      else if i = 2 then
        (case depth of 0 \<Rightarrow> (Inl TooDeep, s)
         | Suc depth' \<Rightarrow> changed_since_last_build depth' W X entry_index (entry_index n) n target_env target prev s)
      else if i = 3 then (Inr (cx_not_current X n), s)
      else if i = 4 then decide depth W X (ed_source (cx_env X target_env)) n target prev s
      else if i = 5 then decide depth W X (ed_target (cx_env X target_env)) n target prev s
      else (Inl NotImplemented, s))"

declare changed_since_last_build.simps [simp del]

section \<open>Up to date\<close>

datatype file_event = LocalCopied fid fid | InfoStored fid

text \<open>
  \<open>File.changed\<close>: \<open>Node.changed\<close> is the parameter \<open>ch\<close>, of the node whose build information is
  asked for; with \<open>allowcache\<close> its answer is kept, and only read without a node.
\<close>

definition file_changed :: "(fid \<Rightarrow> bool) \<Rightarrow> fid \<Rightarrow> fid option \<Rightarrow> bool \<Rightarrow> bool option \<Rightarrow> bool \<times> bool option" where
  "file_changed ch self node allowcache memo =
     (case (node, memo) of
        (None, Some r) \<Rightarrow> (r, memo)
      | _ \<Rightarrow> let r = ch (case node of None \<Rightarrow> self | Some m \<Rightarrow> m) in (r, if allowcache then Some r else memo))"

text \<open>
  \<open>is_up_to_date\<close>. When making the local copy fails, \<open>raise\<close> without an exception is reached.
\<close>

definition is_up_to_date ::
  "world \<Rightarrow> (fid \<Rightarrow> bool) \<Rightarrow> bool \<Rightarrow> bool \<Rightarrow> bool option \<Rightarrow> fid \<Rightarrow> (sig_error + bool) \<times> file_event list" where
  "is_up_to_date W ch want_local copy_ok memo n =
     (if \<not> w_exists W n then
        (let r = rfile W n in
         if r \<noteq> n \<and> \<not> fst (file_changed ch n (Some r) False memo) then
           (if want_local then
              (if \<not> copy_ok then (Inl Reraise, []) else (Inr True, [LocalCopied n r, InfoStored n]))
            else (Inr True, []))
         else (Inr False, []))
      else (Inr (\<not> fst (file_changed ch n None False memo)), []))"

section \<open>Signatures for the cache\<close>

text \<open>\<open>get_cachedir_csig\<close>: the file in the cache stands for one that is not there.\<close>

definition get_cachedir_csig ::
  "world \<Rightarrow> (fid \<Rightarrow> string option) \<Rightarrow> fid \<Rightarrow> ninfos \<Rightarrow> (sig_error + string) \<times> ninfos" where
  "get_cachedir_csig W cached n s =
     (case cached n of
        Some c \<Rightarrow> if \<not> w_exists W n
                  then (Inr (MD5filesignature (w_digest W) (md5_chunksize * 1024) c), s)
                  else get_csig W n s
      | None \<Rightarrow> get_csig W n s)"

definition get_contents_sig :: "world \<Rightarrow> string \<Rightarrow> string" where
  "get_contents_sig W action_contents = MD5signature (w_digest W) action_contents"

fun child_csigs :: "world \<Rightarrow> (fid \<Rightarrow> string option) \<Rightarrow> fid list \<Rightarrow> ninfos \<Rightarrow> (sig_error + string list) \<times> ninfos" where
  "child_csigs W cached [] s = (Inr [], s)"
| "child_csigs W cached (n # ns) s =
     (case get_cachedir_csig W cached n s of
        (Inl e, s1) \<Rightarrow> (Inl e, s1)
      | (Inr c, s1) \<Rightarrow>
          (case child_csigs W cached ns s1 of
             (Inl e, s2) \<Rightarrow> (Inl e, s2) | (Inr cs, s2) \<Rightarrow> (Inr (c # cs), s2)))"

text \<open>\<open>get_cachedir_bsig\<close>: the children, the action and the path.\<close>

definition get_cachedir_bsig ::
  "world \<Rightarrow> (fid \<Rightarrow> string option) \<Rightarrow> fid list \<Rightarrow> string \<Rightarrow> string \<Rightarrow> ninfos \<Rightarrow> (sig_error + string) \<times> ninfos" where
  "get_cachedir_bsig W cached children action_contents path s =
     (case child_csigs W cached children s of
        (Inl e, s1) \<Rightarrow> (Inl e, s1)
      | (Inr cs, s1) \<Rightarrow>
          (Inr (MD5collect (w_digest W) (cs @ [get_contents_sig W action_contents, path])), s1))"

end
