(* ===== verification/SConsign.thy ===== *)
theory SConsign
  imports FileSig
begin

text \<open>
  \<open>SCons/SConsign.py\<close>, the storage of signatures between builds, and the methods of \<open>File\<close> that
  read and store them. An entry is an object: the dictionary of a directory and the memo of a
  node may hold the same one, so entries live in a heap. Pickling, the conversion of
  nodes to path names and the database modules are parameters. \<open>DirFile.write\<close> is modelled as
  file operations that may fail.
\<close>

section \<open>Entries\<close>

text \<open>
  The attributes of a \<open>SConsignEntry\<close>; the build information is a map from attributes to values.
  The entries of configuration nodes have no \<open>ninfo\<close>.
\<close>

record 'v sentry =
  se_binfo :: "string \<rightharpoonup> 'v"
  se_ninfo :: "fninfo option"

definition new_entry :: "'v sentry" where
  "new_entry = \<lparr>se_binfo = Map.empty, se_ninfo = Some new_ninfo\<rparr>"

text \<open>\<open>merge\<close>: the attributes the other object has overwrite.\<close>

definition merge_attr :: "'a option \<Rightarrow> 'a option \<Rightarrow> 'a option" where
  "merge_attr old new = (case new of None \<Rightarrow> old | Some x \<Rightarrow> Some x)"

definition ninfo_merge :: "fninfo \<Rightarrow> fninfo \<Rightarrow> fninfo" where
  "ninfo_merge i j = \<lparr>fi_csig = merge_attr (fi_csig i) (fi_csig j),
     fi_timestamp = merge_attr (fi_timestamp i) (fi_timestamp j), fi_size = merge_attr (fi_size i) (fi_size j)\<rparr>"

definition binfo_merge :: "(string \<rightharpoonup> 'v) \<Rightarrow> (string \<rightharpoonup> 'v) \<Rightarrow> (string \<rightharpoonup> 'v)" where
  "binfo_merge b c = b ++ c"

section \<open>The entries of a directory\<close>

type_synonym address = nat

text \<open>
  One directory: the heap of entries, \<open>entries\<close>, \<open>dirty\<close>, \<open>to_be_merged\<close>, whether the setters were
  replaced by the ones that do nothing, and the memos of \<open>get_stored_info\<close> of its nodes.
\<close>

record 'v sconsign =
  sc_heap :: "address \<Rightarrow> 'v sentry"
  sc_next :: address
  sc_entries :: "string \<rightharpoonup> address"
  sc_dirty :: bool
  sc_to_merge :: "(string \<times> fid) list"
  sc_readonly :: bool
  sc_memo :: "fid \<rightharpoonup> address"

definition sconsign_init :: "'v sconsign" where
  "sconsign_init = \<lparr>sc_heap = (\<lambda>_. new_entry), sc_next = 0, sc_entries = Map.empty, sc_dirty = False,
     sc_to_merge = [], sc_readonly = False, sc_memo = Map.empty\<rparr>"

definition get_entry :: "string \<Rightarrow> 'v sconsign \<Rightarrow> address option" where
  "get_entry filename C = sc_entries C filename"

definition set_entry :: "string \<Rightarrow> address \<Rightarrow> 'v sconsign \<Rightarrow> 'v sconsign" where
  "set_entry filename a C =
     (if sc_readonly C then C else C\<lparr>sc_entries := (sc_entries C)(filename \<mapsto> a), sc_dirty := True\<rparr>)"

text \<open>\<open>File.get_stored_info\<close>: the entry of the directory, or a new one that only the node has.\<close>

definition get_stored_info :: "string \<Rightarrow> fid \<Rightarrow> 'v sconsign \<Rightarrow> address \<times> 'v sconsign" where
  "get_stored_info name n C =
     (case sc_memo C n of
        Some a \<Rightarrow> (a, C)
      | None \<Rightarrow>
          (case get_entry name C of
             Some a \<Rightarrow> (a, C\<lparr>sc_memo := (sc_memo C)(n \<mapsto> a)\<rparr>)
           | None \<Rightarrow> let a = sc_next C in
               (a, C\<lparr>sc_heap := (sc_heap C)(a := new_entry), sc_next := Suc a, sc_memo := (sc_memo C)(n \<mapsto> a)\<rparr>)))"

definition put_pending :: "string \<Rightarrow> fid \<Rightarrow> (string \<times> fid) list \<Rightarrow> (string \<times> fid) list" where
  "put_pending name n ps =
     (if name \<in> fst ` set ps then map (\<lambda>(k, m). if k = name then (k, n) else (k, m)) ps else ps @ [(name, n)])"

text \<open>\<open>Base.store_info\<close>; \<open>binfo\<close> is what \<open>node.get_binfo()\<close> gives.\<close>

definition store_info :: "string \<Rightarrow> fid \<Rightarrow> (string \<rightharpoonup> 'v) \<Rightarrow> 'v sconsign \<Rightarrow> 'v sconsign" where
  "store_info name n binfo C =
     (if sc_readonly C then C
      else let (a, C1) = get_stored_info name n C;
               e = sc_heap C1 a in
        C1\<lparr>sc_heap := (sc_heap C1)(a := e\<lparr>se_binfo := binfo_merge (se_binfo e) binfo\<rparr>),
           sc_to_merge := put_pending name n (sc_to_merge C1), sc_dirty := True\<rparr>)"

text \<open>\<open>Base.merge\<close>: the signatures as they are now, \<open>infos\<close> being \<open>node.get_ninfo()\<close>.\<close>

definition merge_one :: "ninfos \<Rightarrow> string \<times> fid \<Rightarrow> 'v sconsign \<Rightarrow> 'v sconsign" where
  "merge_one infos p C =
     (let (name, n) = p;
          (a, C1) = get_stored_info name n C;
          e = sc_heap C1 a;
          e1 = (case se_ninfo e of None \<Rightarrow> e | Some i \<Rightarrow> e\<lparr>se_ninfo := Some (ninfo_merge i (infos n))\<rparr>)
      in C1\<lparr>sc_heap := (sc_heap C1)(a := e1), sc_entries := (sc_entries C1)(name \<mapsto> a)\<rparr>)"

definition sc_merge :: "ninfos \<Rightarrow> 'v sconsign \<Rightarrow> 'v sconsign" where
  "sc_merge infos C = (fold (merge_one infos) (sc_to_merge C) C)\<lparr>sc_to_merge := []\<rparr>"

section \<open>Databases\<close>

text \<open>
  What is pickled is the dictionary with its entries by value. \<open>to_file\<close> converts the nodes of an
  entry to path names.
\<close>

type_synonym 'v saved = "string \<rightharpoonup> 'v sentry"

definition entries_of :: "('v sentry \<Rightarrow> 'v sentry) \<Rightarrow> 'v sconsign \<Rightarrow> 'v saved" where
  "entries_of to_file C = (\<lambda>k. map_option (\<lambda>a. to_file (sc_heap C a)) (sc_entries C k))"

text \<open>
  \<open>DB.write\<close> into the database \<open>db\<close>: nothing is written when nothing changed. The build
  information in memory, which the conversion changes too, is not read after the final write.
\<close>

definition db_write ::
  "('v saved \<Rightarrow> 'b) \<Rightarrow> ('v sentry \<Rightarrow> 'v sentry) \<Rightarrow> ninfos \<Rightarrow> string \<Rightarrow> 'v sconsign \<Rightarrow> (string \<rightharpoonup> 'b) \<Rightarrow>
     'v sconsign \<times> (string \<rightharpoonup> 'b)" where
  "db_write dumps to_file infos path C db =
     (if \<not> sc_dirty C then (C, db)
      else let C1 = sc_merge infos C in (C1, db(path \<mapsto> dumps (entries_of to_file C1))))"

text \<open>
  \<open>DB.__init__\<close>: what was pickled for the path, or nothing when it is missing or corrupt
  (\<open>loads\<close> gives \<open>None\<close> for what raises or is not a dictionary, and a warning is given). The heap is
  filled with the entries, in the order \<open>names\<close> of the dictionary.
\<close>

fun load_entries :: "'v saved \<Rightarrow> string list \<Rightarrow> 'v sconsign \<Rightarrow> 'v sconsign" where
  "load_entries sv [] C = C"
| "load_entries sv (k # ks) C =
     (case sv k of None \<Rightarrow> load_entries sv ks C
      | Some e \<Rightarrow> load_entries sv ks
          (C\<lparr>sc_heap := (sc_heap C)(sc_next C := e), sc_entries := (sc_entries C)(k \<mapsto> sc_next C),
             sc_next := Suc (sc_next C)\<rparr>))"

definition db_init ::
  "('b \<Rightarrow> 'v saved option) \<Rightarrow> (string set \<Rightarrow> string list) \<Rightarrow> string \<Rightarrow> bool \<Rightarrow> (string \<rightharpoonup> 'b) \<Rightarrow> bool \<times> 'v sconsign" where
  "db_init loads names path readonly db =
     (case db path of
        None \<Rightarrow> (False, sconsign_init\<lparr>sc_readonly := readonly\<rparr>)
      | Some raw \<Rightarrow>
          (case loads raw of
             None \<Rightarrow> (True, sconsign_init\<lparr>sc_readonly := readonly\<rparr>)
           | Some sv \<Rightarrow> (False, (load_entries sv (names (dom sv)) sconsign_init)\<lparr>sc_readonly := readonly\<rparr>)))"

text \<open>
  \<open>Get_DataBase\<close>: with a relative name and repositories, the first database of a directory above
  that can be opened; only the first, the top directory's, is writable. \<open>opens\<close> gives a handle
  or raises.
\<close>

record 'h databases =
  db_of :: "fid \<rightharpoonup> 'h"
  db_sync_list :: "'h list"

fun search_databases ::
  "(string \<Rightarrow> bool \<Rightarrow> 'h option) \<Rightarrow> (fid \<Rightarrow> bool) \<Rightarrow> (fid \<Rightarrow> string) \<Rightarrow> bool \<Rightarrow> fid list \<Rightarrow> 'h databases \<Rightarrow>
     ('h \<times> bool) option \<times> 'h databases" where
  "search_databases opens is_above path writable [] D = (None, D)"
| "search_databases opens is_above path writable (d # ds) D =
     (if is_above d then
        (case db_of D d of
           Some h \<Rightarrow> (Some (h, writable), D)
         | None \<Rightarrow>
             (case opens (path d) writable of
                None \<Rightarrow> search_databases opens is_above path False ds D
              | Some h \<Rightarrow> (Some (h, writable),
                  D\<lparr>db_of := (db_of D)(d \<mapsto> h),
                    db_sync_list := (if writable then db_sync_list D @ [h] else db_sync_list D)\<rparr>)))
      else search_databases opens is_above path False ds D)"

definition Get_DataBase ::
  "(string \<Rightarrow> bool \<Rightarrow> 'h option) \<Rightarrow> (fid \<Rightarrow> bool) \<Rightarrow> (fid \<Rightarrow> string) \<Rightarrow> string \<Rightarrow> fid \<Rightarrow> fid list \<Rightarrow>
     'h databases \<Rightarrow> ('h \<times> bool) option \<times> 'h databases" where
  "Get_DataBase opens is_above path name top_dir repos D =
     (let own = (case db_of D top_dir of
            Some h \<Rightarrow> (Some (h, True), D)
          | None \<Rightarrow> (case opens name True of
               None \<Rightarrow> (None, D)
             | Some h \<Rightarrow> (Some (h, True),
                 D\<lparr>db_of := (db_of D)(top_dir \<mapsto> h), db_sync_list := db_sync_list D @ [h]\<rparr>)))
      in if take 1 name \<noteq> ''/'' \<and> repos \<noteq> [] then
           (case search_databases opens is_above path True (top_dir # repos) D of
              (Some r, D1) \<Rightarrow> (Some r, D1)
            | (None, D1) \<Rightarrow> own)
         else own)"

section \<open>A file for each directory\<close>

text \<open>
  \<open>DirFile.write\<close>: which of the operations succeed, and the files by name with their modes.
\<close>

record write_steps =
  ok_open_temp :: bool
  ok_open_sconsign :: bool
  ok_chmod :: bool
  ok_unlink :: bool
  ok_rename :: bool
  ok_write_over :: bool
  ok_unlink_temp :: bool

type_synonym dir_files = "string \<rightharpoonup> string \<times> nat"

datatype write_error = WriteIOError | UnboundMode

definition put_data :: "string \<Rightarrow> string \<Rightarrow> dir_files \<Rightarrow> dir_files" where
  "put_data name data F = F(name \<mapsto> (data, case F name of None \<Rightarrow> 0x1B6 | Some (_, m) \<Rightarrow> m))"

definition dirfile_write ::
  "write_steps \<Rightarrow> string \<Rightarrow> string \<Rightarrow> string \<Rightarrow> dir_files \<Rightarrow> write_error option \<times> dir_files" where
  "dirfile_write ok temp sconsign data F =
     (if ok_open_temp ok then
        let F1 = put_data temp data F;
            mode = map_option snd (F1 sconsign);
            F2 = (case F1 sconsign of None \<Rightarrow> F1
                  | Some (d, m) \<Rightarrow>
                      if \<not> ok_chmod ok then F1
                      else if \<not> ok_unlink ok then F1(sconsign \<mapsto> (d, 0x1B6))
                      else F1(sconsign := None));
            done = (\<lambda>G. (None, if ok_unlink_temp ok then G(temp := None) else G))
        in if ok_rename ok then done (F2(sconsign := F2 temp, temp := None))
           else if \<not> ok_write_over ok then (Some WriteIOError, F2)
           else let F3 = put_data sconsign data F2 in
             (case mode of None \<Rightarrow> (Some UnboundMode, F3)
              | Some m \<Rightarrow> done (F3(sconsign \<mapsto> (data, m))))
      else if ok_open_sconsign ok then
        (None, let F1 = put_data sconsign data F in if ok_unlink_temp ok then F1(temp := None) else F1)
      else (None, F))"

end
