(* ===== verification/SigProps.thy ===== *)
theory SigProps
  imports SConsign "HOL-Library.List_Lexorder" "HOL-Library.Char_ord"
begin

text \<open>
  Properties of signatures, decisions and their storage: when the signature of a file is the digest
  of its contents, how the deciders compare, that what was stored is what the next build reads, and
  that a file that was visited and has not changed is unchanged in the next build.
\<close>

section \<open>Signatures\<close>

text \<open>
  The stored information of a file can be trusted: a signature that \<open>get_max_drift_csig\<close> may use is the
  one that would be computed.
\<close>

definition honest :: "world \<Rightarrow> fid \<Rightarrow> bool" where
  "honest W n \<longleftrightarrow> (\<forall>c. get_max_drift_csig W n = Some c \<longrightarrow> compute_csig W n = Inr c)"

lemma honest_by_time:
  assumes "w_max_drift W \<noteq> 0"
    and "\<And>c. fi_csig (w_stored W n) = Some c \<Longrightarrow> fi_timestamp (w_stored W n) = Some (get_timestamp W n) \<Longrightarrow>
      compute_csig W n = Inr c"
  shows "honest W n"
  using assms by (auto simp: honest_def get_max_drift_csig_def Let_def split: option.splits if_splits)

lemma get_csig_computed:
  assumes "honest W n" and "fi_csig (s n) = None" and "compute_csig W n = Inr c"
  shows "get_csig W n s = (Inr c, set_csig n c s)"
  using assms by (auto simp: get_csig_def honest_def split: option.splits)

text \<open>The computed signature is the digest of the contents, whatever the size.\<close>

lemma compute_csig_digest:
  assumes "\<forall>x. w_digest W x \<noteq> []" and "get_contents W n = Some c"
  shows "compute_csig W n = Inr (w_digest W c)"
proof (cases "rexists W n")
  case True
  then have "w_contents W (rfile W n) = Some c" using assms(2) by (simp add: get_contents_def)
  then show ?thesis
    using assms True filesignature_signature [of "md5_chunksize * 1024" "w_digest W" c]
    by (simp add: compute_csig_def get_content_hash_def MD5signature_def md5_chunksize_def)
next
  case False
  then have "c = []" using assms(2) by (simp add: get_contents_def)
  then show ?thesis
    using assms False by (simp add: compute_csig_def get_content_hash_def MD5signature_def)
qed

lemma compute_csig_unreadable:
  assumes "get_contents W n = None"
  shows "compute_csig W n = Inr []"
  using assms by (auto simp: compute_csig_def get_content_hash_def get_contents_def split: if_splits)

section \<open>Storage\<close>

lemma merge_attr_simps [simp]: "merge_attr a None = a" "merge_attr a (Some x) = Some x"
  by (simp_all add: merge_attr_def)

text \<open>
  The state of a directory is consistent, for the names \<open>nm\<close> of its nodes: names and nodes do not
  share entries, but a node and its own name do as soon as both have one, and each pending node has
  its entry in its memo.
\<close>

definition linked :: "(fid \<Rightarrow> string) \<Rightarrow> address \<Rightarrow> (string \<rightharpoonup> address) \<Rightarrow> (fid \<rightharpoonup> address) \<Rightarrow> bool" where
  "linked nm nx en me \<longleftrightarrow>
     (\<forall>k a. en k = Some a \<longrightarrow> a < nx) \<and> (\<forall>n a. me n = Some a \<longrightarrow> a < nx) \<and>
     (\<forall>k k' a. en k = Some a \<longrightarrow> en k' = Some a \<longrightarrow> k = k') \<and>
     (\<forall>n n' a. me n = Some a \<longrightarrow> me n' = Some a \<longrightarrow> n = n') \<and>
     (\<forall>n a k. me n = Some a \<longrightarrow> en k = Some a \<longrightarrow> k = nm n) \<and>
     (\<forall>n a b. me n = Some a \<longrightarrow> en (nm n) = Some b \<longrightarrow> a = b)"

definition pending_ok :: "(fid \<Rightarrow> string) \<Rightarrow> (string \<times> fid) list \<Rightarrow> (fid \<rightharpoonup> address) \<Rightarrow> bool" where
  "pending_ok nm ps me \<longleftrightarrow> (\<forall>k n. (k, n) \<in> set ps \<longrightarrow> k = nm n \<and> me n \<noteq> None) \<and> distinct (map fst ps)"

definition sc_ok :: "(fid \<Rightarrow> string) \<Rightarrow> 'v sconsign \<Rightarrow> bool" where
  "sc_ok nm C \<longleftrightarrow> linked nm (sc_next C) (sc_entries C) (sc_memo C) \<and> pending_ok nm (sc_to_merge C) (sc_memo C)"

lemma sc_okD:
  assumes "sc_ok nm C"
  shows "sc_entries C k = Some a \<Longrightarrow> a < sc_next C" "sc_memo C n = Some a \<Longrightarrow> a < sc_next C"
    "sc_entries C k = Some a \<Longrightarrow> sc_entries C k' = Some a \<Longrightarrow> k = k'"
    "sc_memo C n = Some a \<Longrightarrow> sc_memo C n' = Some a \<Longrightarrow> n = n'"
    "sc_memo C n = Some a \<Longrightarrow> sc_entries C k = Some a \<Longrightarrow> k = nm n"
    "sc_memo C n = Some a \<Longrightarrow> sc_entries C (nm n) = Some b \<Longrightarrow> a = b"
    "(k, n) \<in> set (sc_to_merge C) \<Longrightarrow> k = nm n \<and> sc_memo C n \<noteq> None" "distinct (map fst (sc_to_merge C))"
  using assms unfolding sc_ok_def linked_def pending_ok_def by blast+

lemma sc_okI:
  assumes "\<And>k a. sc_entries C k = Some a \<Longrightarrow> a < sc_next C" "\<And>n a. sc_memo C n = Some a \<Longrightarrow> a < sc_next C"
    "\<And>k k' a. sc_entries C k = Some a \<Longrightarrow> sc_entries C k' = Some a \<Longrightarrow> k = k'"
    "\<And>n n' a. sc_memo C n = Some a \<Longrightarrow> sc_memo C n' = Some a \<Longrightarrow> n = n'"
    "\<And>n a k. sc_memo C n = Some a \<Longrightarrow> sc_entries C k = Some a \<Longrightarrow> k = nm n"
    "\<And>n a b. sc_memo C n = Some a \<Longrightarrow> sc_entries C (nm n) = Some b \<Longrightarrow> a = b"
    "\<And>k n. (k, n) \<in> set (sc_to_merge C) \<Longrightarrow> k = nm n \<and> sc_memo C n \<noteq> None" "distinct (map fst (sc_to_merge C))"
  shows "sc_ok nm C"
  unfolding sc_ok_def linked_def pending_ok_def using assms by blast

lemma sconsign_init_ok: "sc_ok nm sconsign_init"
  by (simp add: sc_ok_def linked_def pending_ok_def sconsign_init_def)

lemma load_entries_ok:
  "sc_ok nm C \<Longrightarrow> sc_memo C = Map.empty \<Longrightarrow> sc_to_merge C = [] \<Longrightarrow>
   sc_ok nm (load_entries sv ks C) \<and> sc_memo (load_entries sv ks C) = Map.empty \<and>
   sc_to_merge (load_entries sv ks C) = []"
proof (induction ks arbitrary: C)
  case (Cons k ks)
  show ?case
  proof (cases "sv k")
    case (Some e)
    let ?C = "C\<lparr>sc_heap := (sc_heap C)(sc_next C := e), sc_entries := (sc_entries C)(k \<mapsto> sc_next C),
      sc_next := Suc (sc_next C)\<rparr>"
    have "sc_entries C j \<noteq> Some (sc_next C)" for j using sc_okD(1) [OF Cons.prems(1), of j "sc_next C"] by auto
    then have "sc_ok nm ?C"
      using Cons.prems sc_okD(1,3) [OF Cons.prems(1)] unfolding sc_ok_def linked_def pending_ok_def by (auto simp: less_Suc_eq split: if_splits)
    then show ?thesis using Cons.IH [of ?C] Cons.prems(2,3) Some by simp
  qed (use Cons in simp)
qed simp

text \<open>What a name stands for in a directory.\<close>

definition entry_at :: "'v sconsign \<Rightarrow> string \<Rightarrow> 'v sentry option" where
  "entry_at C k = map_option (sc_heap C) (sc_entries C k)"

lemma load_entries_at:
  assumes "sc_ok nm C" and "sc_memo C = Map.empty" and "sc_to_merge C = []"
  shows "entry_at (load_entries sv ks C) k = (if k \<in> set ks \<and> sv k \<noteq> None then sv k else entry_at C k)"
  using assms
proof (induction ks arbitrary: C)
  case (Cons j ks)
  show ?case
  proof (cases "sv j")
    case None
    then show ?thesis using Cons by auto
  next
    case (Some e)
    let ?C = "C\<lparr>sc_heap := (sc_heap C)(sc_next C := e), sc_entries := (sc_entries C)(j \<mapsto> sc_next C),
      sc_next := Suc (sc_next C)\<rparr>"
    have ok: "sc_ok nm ?C" "sc_memo ?C = Map.empty" "sc_to_merge ?C = []"
      using load_entries_ok [OF Cons.prems, of sv "[j]"] Some Cons.prems(2,3) by simp_all
    have "entry_at ?C k = (if k = j then Some e else entry_at C k)"
      using sc_okD(1) [OF Cons.prems(1)] by (force simp: entry_at_def map_option_case split: option.splits)
    then show ?thesis using Cons.IH [OF ok] Some by auto
  qed
qed simp

lemma init_fields: "sc_memo sconsign_init = Map.empty" "sc_to_merge sconsign_init = []" "entry_at sconsign_init k = None"
  by (simp_all add: sconsign_init_def entry_at_def)

lemma db_init_at:
  assumes "db path = Some raw" and "loads raw = Some sv" and "enumerates names" and "finite (dom sv)"
  shows "entry_at (snd (db_init loads names path ro db)) k = sv k"
    and "sc_ok nm (snd (db_init loads names path ro db))"
    and "sc_memo (snd (db_init loads names path ro db)) = Map.empty"
    and "sc_to_merge (snd (db_init loads names path ro db)) = []"
    and "sc_readonly (snd (db_init loads names path ro db)) = ro"
proof -
  let ?L = "load_entries sv (names (dom sv)) sconsign_init"
  have d: "snd (db_init loads names path ro db) = ?L\<lparr>sc_readonly := ro\<rparr>"
    using assms(1,2) by (simp add: db_init_def)
  have "entry_at ?L k = sv k"
    using load_entries_at [OF sconsign_init_ok init_fields(1,2), of sv "names (dom sv)" k] assms(3,4)
    by (cases "sv k") (auto simp: init_fields(3))
  then show "entry_at (snd (db_init loads names path ro db)) k = sv k" unfolding d by (simp add: entry_at_def)
  note l = load_entries_ok [OF sconsign_init_ok [of nm] init_fields(1,2), of sv "names (dom sv)"]
  from l [THEN conjunct1] show "sc_ok nm (snd (db_init loads names path ro db))" unfolding d by (simp add: sc_ok_def)
  show "sc_memo (snd (db_init loads names path ro db)) = Map.empty"
    "sc_to_merge (snd (db_init loads names path ro db)) = []"
    "sc_readonly (snd (db_init loads names path ro db)) = ro"
    unfolding d using l by simp_all
qed

text \<open>What a node sees as its stored entry.\<close>

definition stored_of :: "(fid \<Rightarrow> string) \<Rightarrow> 'v sconsign \<Rightarrow> fid \<Rightarrow> 'v sentry" where
  "stored_of nm C n =
     (case sc_memo C n of Some a \<Rightarrow> sc_heap C a
      | None \<Rightarrow> (case sc_entries C (nm n) of Some a \<Rightarrow> sc_heap C a | None \<Rightarrow> new_entry))"

lemma stored_of_fields [simp]:
  "stored_of nm (C\<lparr>sc_to_merge := x, sc_dirty := y\<rparr>) n = stored_of nm C n"
  "stored_of nm (C\<lparr>sc_readonly := z\<rparr>) n = stored_of nm C n"
  by (simp_all add: stored_of_def cong: option.case_cong)

lemma get_stored_info_ok:
  assumes ok: "sc_ok nm C" and inj: "inj nm" and g: "get_stored_info (nm n) n C = (a, C')"
  shows "sc_ok nm C'" "sc_memo C' n = Some a" "sc_entries C' = sc_entries C" "sc_to_merge C' = sc_to_merge C"
    "stored_of nm C' m = stored_of nm C m" "sc_heap C' a = stored_of nm C n" "sc_readonly C' = sc_readonly C"
    "entry_at C' k = entry_at C k"
proof -
  note o = sc_okD [OF ok]
  have "sc_ok nm C' \<and> sc_memo C' n = Some a \<and> sc_entries C' = sc_entries C \<and> sc_to_merge C' = sc_to_merge C \<and>
    stored_of nm C' m = stored_of nm C m \<and> sc_heap C' a = stored_of nm C n \<and> sc_readonly C' = sc_readonly C \<and>
    entry_at C' k = entry_at C k"
  proof (cases "sc_memo C n")
    case (Some b)
    then show ?thesis using g ok by (auto simp: get_stored_info_def stored_of_def)
  next
    case None
    show ?thesis
    proof (cases "sc_entries C (nm n)")
      case (Some b)
      have C': "a = b" "C' = C\<lparr>sc_memo := (sc_memo C)(n \<mapsto> b)\<rparr>"
        using g None Some by (auto simp: get_stored_info_def get_entry_def)
      have n: "sc_memo C m \<noteq> Some b" if "m \<noteq> n" for m
        using o(5) [of m b "nm n"] Some that inj by (auto simp: inj_eq)
      have "sc_ok nm C'"
      proof (rule sc_okI)
        fix i a assume m: "sc_memo C' i = Some a"
        show "a < sc_next C'" using m o(1) [OF Some] o(2) [of i a] unfolding C' by (auto split: if_splits)
        show "k = nm i" if "sc_entries C' k = Some a" for k
          using m that o(5) [of i a k] o(3) [of k a "nm n"] Some unfolding C' by (auto split: if_splits)
        show "a = c" if "sc_entries C' (nm i) = Some c" for c
          using m that o(6) [of i a c] Some unfolding C' by (auto split: if_splits)
        show "i = j" if "sc_memo C' j = Some a" for j
          using m that o(4) [of i a j] n [of i] n [of j] unfolding C' by (auto split: if_splits)
      qed (use o(1,3,7,8) in \<open>auto simp: C'\<close>)
      then show ?thesis unfolding C' using None Some by (auto simp: stored_of_def entry_at_def split: option.splits)
    next
      case N: None
      let ?a = "sc_next C"
      have C': "a = ?a" "C' = C\<lparr>sc_heap := (sc_heap C)(?a := new_entry), sc_next := Suc ?a, sc_memo := (sc_memo C)(n \<mapsto> ?a)\<rparr>"
        using g None N by (auto simp: get_stored_info_def get_entry_def Let_def)
      have f: "sc_memo C m \<noteq> Some ?a" "sc_entries C j \<noteq> Some ?a" for m j
        using o(1) [of j ?a] o(2) [of m ?a] by auto
      have "sc_ok nm C'"
      proof (rule sc_okI)
        fix i a assume m: "sc_memo C' i = Some a"
        show "a < sc_next C'" using m o(2) [of i a] unfolding C' by (auto split: if_splits)
        show "k = nm i" if "sc_entries C' k = Some a" for k
          using m that o(5) [of i a k] f(2) [of k] unfolding C' by (auto split: if_splits)
        show "a = c" if "sc_entries C' (nm i) = Some c" for c
          using m that o(6) [of i a c] N unfolding C' by (auto split: if_splits)
        show "i = j" if "sc_memo C' j = Some a" for j
          using m that o(4) [of i a j] f(1) [of i] f(1) [of j] unfolding C' by (auto split: if_splits)
      next
        show "a < sc_next C'" if "sc_entries C' k = Some a" for k a using o(1) [of k a] that unfolding C' by simp
      qed (use o(3,7,8) in \<open>auto simp: C'\<close>)
      moreover have "stored_of nm C' m = stored_of nm C m" for m
        unfolding C' stored_of_def using f None N by (auto split: option.splits)
      moreover have "entry_at C' k = entry_at C k"
        unfolding C' entry_at_def using f by (auto simp: map_option_case split: option.splits)
      moreover have "stored_of nm C n = new_entry" using None N by (simp add: stored_of_def)
      ultimately show ?thesis using C' by simp
    qed
  qed
  then show "sc_ok nm C'" "sc_memo C' n = Some a" "sc_entries C' = sc_entries C" "sc_to_merge C' = sc_to_merge C"
    "stored_of nm C' m = stored_of nm C m" "sc_heap C' a = stored_of nm C n" "sc_readonly C' = sc_readonly C"
    "entry_at C' k = entry_at C k" by auto
qed

text \<open>Changing the entry a node has in its memo changes what this node and its name stand for.\<close>

lemma upd_heap_ok:
  assumes ok: "sc_ok nm C" and inj: "inj nm" and a: "sc_memo C n = Some a"
    and C': "C' = C\<lparr>sc_heap := (sc_heap C)(a := e)\<rparr>"
  shows "sc_ok nm C'" "stored_of nm C' m = (if m = n then e else stored_of nm C m)"
    "k \<noteq> nm n \<Longrightarrow> entry_at C' k = entry_at C k"
proof -
  note o = sc_okD [OF ok]
  show "sc_ok nm C'" using ok by (simp add: sc_ok_def C')
  have ne: "sc_entries C (nm m) \<noteq> Some a" if "m \<noteq> n"
  proof
    assume "sc_entries C (nm m) = Some a"
    then have "nm m = nm n" by (rule o(5) [OF a])
    then show False using that injD [OF inj] by blast
  qed
  show "stored_of nm C' m = (if m = n then e else stored_of nm C m)"
  proof (cases "m = n")
    case True
    then show ?thesis using a by (simp add: stored_of_def C')
  next
    case False
    have "sc_memo C m \<noteq> Some a" using o(4) [OF _ a, of m] False by blast
    then show ?thesis using ne [OF False] False by (auto simp: stored_of_def C' split: option.split)
  qed
  show "entry_at C' k = entry_at C k" if "k \<noteq> nm n"
  proof -
    have "sc_entries C k \<noteq> Some a" using o(5) [OF a, of k] that by blast
    then show ?thesis by (auto simp: entry_at_def C' map_option_case split: option.split)
  qed
qed

lemma set_put_pending: "set (put_pending k n ps) = {p \<in> set ps. fst p \<noteq> k} \<union> {(k, n)}"
proof (cases "k \<in> fst ` set ps")
  case True
  have "(\<lambda>(j, m). if j = k then (j, n) else (j, m)) ` set ps = {p \<in> set ps. fst p \<noteq> k} \<union> {(k, n)}" (is "?f ` _ = _")
  proof (intro equalityI subsetI)
    fix p assume "p \<in> {p \<in> set ps. fst p \<noteq> k} \<union> {(k, n)}"
    moreover obtain m where "(k, m) \<in> set ps" using True by auto
    ultimately show "p \<in> ?f ` set ps" by (cases p) (force simp: image_iff)
  qed (auto split: if_splits)
  then show ?thesis using True by (simp add: put_pending_def)
qed (auto simp: put_pending_def)

lemma keys_put_pending: "distinct (map fst ps) \<Longrightarrow> distinct (map fst (put_pending k n ps))"
proof -
  assume d: "distinct (map fst ps)"
  have "map fst (map (\<lambda>(j, m). if j = k then (j, n) else (j, m)) ps) = map fst ps" by auto
  then show ?thesis using d unfolding put_pending_def by (cases "k \<in> fst ` set ps") (simp_all del: map_map)
qed

lemma store_info_ok:
  assumes ok: "sc_ok nm C" and inj: "inj nm" and rw: "\<not> sc_readonly C"
    and C': "C' = store_info (nm n) n b C"
  shows "sc_ok nm C'" "sc_entries C' = sc_entries C" "\<not> sc_readonly C'" "sc_dirty C'"
    "set (sc_to_merge C') = set (sc_to_merge C) \<union> {(nm n, n)}"
    "stored_of nm C' m = (if m = n then (stored_of nm C n)\<lparr>se_binfo := se_binfo (stored_of nm C n) ++ b\<rparr>
       else stored_of nm C m)"
    "k \<noteq> nm n \<Longrightarrow> entry_at C' k = entry_at C k"
proof -
  obtain a C1 where g: "get_stored_info (nm n) n C = (a, C1)" by fastforce
  note g1 = get_stored_info_ok [OF ok inj g]
  let ?e = "(sc_heap C1 a)\<lparr>se_binfo := binfo_merge (se_binfo (sc_heap C1 a)) b\<rparr>"
  define C2 where "C2 = C1\<lparr>sc_heap := (sc_heap C1)(a := ?e)\<rparr>"
  have C2: "C' = C2\<lparr>sc_to_merge := put_pending (nm n) n (sc_to_merge C2), sc_dirty := True\<rparr>"
    using C' rw g by (simp add: store_info_def C2_def Let_def)
  note u = upd_heap_ok [OF g1(1) inj g1(2) C2_def]
  note o = sc_okD [OF u(1)]
  have m2: "sc_memo C2 n = Some a" "sc_to_merge C2 = sc_to_merge C" "sc_entries C2 = sc_entries C" "sc_readonly C2 = sc_readonly C"
    using g1(2-4,7) by (simp_all add: C2_def)
  have pend: "(j, i) \<in> set (sc_to_merge C2) \<Longrightarrow> j = nm i \<and> sc_memo C2 i \<noteq> None" for j i by (rule o(7))
  have set: "set (put_pending (nm n) n (sc_to_merge C2)) = set (sc_to_merge C2) \<union> {(nm n, n)}"
  proof -
    have "i = n" if "(nm n, i) \<in> set (sc_to_merge C2)" for i
      using pend [OF that] injD [OF inj, of n i] by simp
    then show ?thesis unfolding set_put_pending by auto
  qed
  have "pending_ok nm (put_pending (nm n) n (sc_to_merge C2)) (sc_memo C2)"
    unfolding pending_ok_def set using pend m2(1) keys_put_pending [OF o(8)] by auto
  then show "sc_ok nm C'" using u(1) unfolding C2 by (simp add: sc_ok_def)
  show "sc_entries C' = sc_entries C" "\<not> sc_readonly C'" "sc_dirty C'" "set (sc_to_merge C') = set (sc_to_merge C) \<union> {(nm n, n)}"
    using rw set m2 unfolding C2 by auto
  show "stored_of nm C' m = (if m = n then (stored_of nm C n)\<lparr>se_binfo := se_binfo (stored_of nm C n) ++ b\<rparr>
       else stored_of nm C m)"
    using u(2) [of m] g1(5) [of m] g1(6) unfolding C2 stored_of_fields binfo_merge_def by simp
  show "entry_at C' k = entry_at C k" if "k \<noteq> nm n"
    using u(3) [OF that] g1(8) unfolding C2 by (simp add: entry_at_def)
qed

text \<open>The entry of a node with its signatures merged in.\<close>

definition with_ninfo :: "fninfo \<Rightarrow> 'v sentry \<Rightarrow> 'v sentry" where
  "with_ninfo j e = e\<lparr>se_ninfo := map_option (\<lambda>i. ninfo_merge i j) (se_ninfo e)\<rparr>"

lemma with_ninfo_None: "se_ninfo e = None \<Longrightarrow> with_ninfo j e = e"
  by (cases e) (simp add: with_ninfo_def)

lemma merge_one_ok:
  assumes ok: "sc_ok nm C" and inj: "inj nm" and C': "C' = merge_one infos (nm n, n) C"
  shows "sc_ok nm C'" "sc_to_merge C' = sc_to_merge C"
    "stored_of nm C' m = (if m = n then with_ninfo (infos n) (stored_of nm C n) else stored_of nm C m)"
    "entry_at C' k = (if k = nm n then Some (with_ninfo (infos n) (stored_of nm C n)) else entry_at C k)"
proof -
  obtain a C1 where g: "get_stored_info (nm n) n C = (a, C1)" by fastforce
  note g1 = get_stored_info_ok [OF ok inj g]
  let ?e = "with_ninfo (infos n) (sc_heap C1 a)"
  define C2 where "C2 = C1\<lparr>sc_heap := (sc_heap C1)(a := ?e)\<rparr>"
  have C2: "C' = C2\<lparr>sc_entries := (sc_entries C2)(nm n \<mapsto> a)\<rparr>"
  proof -
    have "(case se_ninfo e of None \<Rightarrow> e | Some i \<Rightarrow> e\<lparr>se_ninfo := Some (ninfo_merge i (infos n))\<rparr>) = with_ninfo (infos n) e"
      for e :: "'a sentry"
      using with_ninfo_None [of e] by (cases "se_ninfo e") (auto simp: with_ninfo_def)
    then show ?thesis using C' g by (simp add: merge_one_def C2_def Let_def)
  qed
  note u = upd_heap_ok [OF g1(1) inj g1(2) C2_def]
  note o = sc_okD [OF u(1)]
  have m2: "sc_memo C2 n = Some a" "sc_heap C2 a = ?e" "sc_to_merge C2 = sc_to_merge C" using g1(2,4) by (simp_all add: C2_def)
  have old: "sc_entries C2 (nm n) = Some b \<Longrightarrow> b = a" for b using o(6) [OF m2(1)] by simp
  show "sc_ok nm C'"
    unfolding C2
  proof (rule sc_okI)
    fix k j assume "sc_entries (C2\<lparr>sc_entries := (sc_entries C2)(nm n \<mapsto> a)\<rparr>) k = Some j"
    then have k: "k = nm n \<and> j = a \<or> sc_entries C2 k = Some j" by (auto split: if_splits)
    show "j < sc_next (C2\<lparr>sc_entries := (sc_entries C2)(nm n \<mapsto> a)\<rparr>)" using k o(1) [of k j] o(2) [OF m2(1)] by auto
    show "k = k'" if "sc_entries (C2\<lparr>sc_entries := (sc_entries C2)(nm n \<mapsto> a)\<rparr>) k' = Some j" for k'
      using that k o(3) [of k j k'] o(5) [OF m2(1), of k] o(5) [OF m2(1), of k'] by (auto split: if_splits)
    show "k = nm i" if "sc_memo (C2\<lparr>sc_entries := (sc_entries C2)(nm n \<mapsto> a)\<rparr>) i = Some j" for i
      using that k o(4) [OF m2(1), of i] o(5) [of i j k] by auto
  next
    fix i j b
    assume "sc_memo (C2\<lparr>sc_entries := (sc_entries C2)(nm n \<mapsto> a)\<rparr>) i = Some j"
      and "sc_entries (C2\<lparr>sc_entries := (sc_entries C2)(nm n \<mapsto> a)\<rparr>) (nm i) = Some b"
    then show "j = b" using o(6) [of i j b] m2(1) inj by (auto simp: inj_eq split: if_splits)
  qed (use o(2,4,7,8) in auto)
  show "sc_to_merge C' = sc_to_merge C" using m2(3) unfolding C2 by simp
  have st: "stored_of nm C' m = stored_of nm C2 m" for m
    unfolding C2 stored_of_def using m2(1) inj by (auto simp: inj_eq split: option.splits)
  show "stored_of nm C' m = (if m = n then with_ninfo (infos n) (stored_of nm C n) else stored_of nm C m)"
    using st u(2) [of m] g1(5,6) by simp
  show "entry_at C' k = (if k = nm n then Some (with_ninfo (infos n) (stored_of nm C n)) else entry_at C k)"
    using u(3) [of k] g1(6,8) m2(2) unfolding C2 by (simp add: entry_at_def)
qed

lemma merge_fold_ok:
  assumes "sc_ok nm C" and inj: "inj nm" and "\<forall>(k, n)\<in>set ps. k = nm n" and "distinct (map fst ps)"
  shows "entry_at (fold (merge_one infos) ps C) k =
    (case map_of ps k of Some n \<Rightarrow> Some (with_ninfo (infos n) (stored_of nm C n)) | None \<Rightarrow> entry_at C k)"
  using assms(1,3,4)
proof (induction ps arbitrary: C)
  case (Cons p ps)
  obtain n where p: "p = (nm n, n)" using Cons.prems(2) by (cases p) auto
  note m = merge_one_ok [OF Cons.prems(1) inj refl, of infos n]
  have ih: "entry_at (fold (merge_one infos) (p # ps) C) k =
      (case map_of ps k of Some i \<Rightarrow> Some (with_ninfo (infos i) (stored_of nm (merge_one infos p C) i))
       | None \<Rightarrow> entry_at (merge_one infos p C) k)"
    using Cons.IH [of "merge_one infos p C"] Cons.prems(2,3) m(1) p by simp
  have "i \<noteq> n" if "map_of ps k = Some i" for i
  proof -
    have "(k, i) \<in> set ps" using that by (rule map_of_SomeD)
    moreover have "nm n \<notin> fst ` set ps" using Cons.prems(3) p by simp
    ultimately show ?thesis using Cons.prems(2) by force
  qed
  moreover have "map_of ps (nm n) = None" using Cons.prems(3) p by (auto simp: map_of_eq_None_iff)
  ultimately show ?case using ih m(3,4) unfolding p by (auto split: option.splits)
qed simp

section \<open>A build's worth of signatures\<close>

definition store_all :: "(fid \<Rightarrow> string) \<Rightarrow> (fid \<times> (string \<rightharpoonup> 'v)) list \<Rightarrow> 'v sconsign \<Rightarrow> 'v sconsign" where
  "store_all nm stores C = fold (\<lambda>(n, b). store_info (nm n) n b) stores C"

text \<open>The build information of a node after these.\<close>

definition add_binfos :: "fid \<Rightarrow> (fid \<times> (string \<rightharpoonup> 'v)) list \<Rightarrow> 'v sentry \<Rightarrow> 'v sentry" where
  "add_binfos m stores e =
     e\<lparr>se_binfo := fold (\<lambda>(n, b) acc. if n = m then acc ++ b else acc) stores (se_binfo e)\<rparr>"

lemma store_all_ok:
  assumes "sc_ok nm C" and inj: "inj nm" and "\<not> sc_readonly C"
  shows "sc_ok nm (store_all nm stores C) \<and> \<not> sc_readonly (store_all nm stores C) \<and>
    sc_entries (store_all nm stores C) = sc_entries C \<and>
    (stores \<noteq> [] \<longrightarrow> sc_dirty (store_all nm stores C)) \<and>
    set (sc_to_merge (store_all nm stores C)) = set (sc_to_merge C) \<union> (\<lambda>n. (nm n, n)) ` fst ` set stores \<and>
    stored_of nm (store_all nm stores C) m = add_binfos m stores (stored_of nm C m) \<and>
    (k \<notin> nm ` fst ` set stores \<longrightarrow> entry_at (store_all nm stores C) k = entry_at C k)"
  using assms(1,3)
proof (induction stores arbitrary: C)
  case Nil
  then show ?case by (simp add: store_all_def add_binfos_def)
next
  case (Cons p stores)
  obtain n b where p: "p = (n, b)" by (cases p)
  note s = store_info_ok [OF Cons.prems(1) inj Cons.prems(2) refl, where n = n and b = b]
  have st: "store_all nm (p # stores) C = store_all nm stores (store_info (nm n) n b C)"
    by (simp add: store_all_def p)
  note ih = Cons.IH [OF s(1,3)]
  have d: "sc_dirty (store_all nm stores (store_info (nm n) n b C))"
    using ih s(4) by (cases stores) (auto simp: store_all_def)
  have "add_binfos m stores (stored_of nm (store_info (nm n) n b C) m) = add_binfos m (p # stores) (stored_of nm C m)"
    using s(6) [of m] by (simp add: add_binfos_def p)
  then show ?case
    unfolding st using ih d s(2,5,7) by (auto simp: p)
qed

lemma entries_of_at: "entries_of to_file C k = map_option to_file (entry_at C k)"
  by (simp add: entries_of_def entry_at_def option.map_comp comp_def)

text \<open>
  What a directory holds at the end: for each stored node its entry as it was, with the build
  information of the stores merged in their order and the node's last signatures; every other
  entry as it was.
\<close>

lemma sc_merge_at:
  assumes ok: "sc_ok nm C" and inj: "inj nm"
  shows "(nm n, n) \<in> set (sc_to_merge C) \<Longrightarrow> entry_at (sc_merge infos C) (nm n) = Some (with_ninfo (infos n) (stored_of nm C n))"
    and "k \<notin> fst ` set (sc_to_merge C) \<Longrightarrow> entry_at (sc_merge infos C) k = entry_at C k"
proof -
  note o = sc_okD [OF ok]
  have ps: "\<forall>(k, n)\<in>set (sc_to_merge C). k = nm n" using o(7) by blast
  have e: "entry_at (sc_merge infos C) k = entry_at (fold (merge_one infos) (sc_to_merge C) C) k" for k
    by (simp add: sc_merge_def entry_at_def)
  note f = merge_fold_ok [OF ok inj ps o(8), of infos]
  show "entry_at (sc_merge infos C) (nm n) = Some (with_ninfo (infos n) (stored_of nm C n))"
    if "(nm n, n) \<in> set (sc_to_merge C)"
    unfolding e f using o(8) that by simp
  show "entry_at (sc_merge infos C) k = entry_at C k" if "k \<notin> fst ` set (sc_to_merge C)"
  proof -
    have "map_of (sc_to_merge C) k = None" using that by (simp add: map_of_eq_None_iff)
    then show ?thesis unfolding e f by simp
  qed
qed

definition saved_or_new :: "'v saved \<Rightarrow> string \<Rightarrow> 'v sentry" where
  "saved_or_new sv k = (case sv k of None \<Rightarrow> new_entry | Some e \<Rightarrow> e)"

text \<open>The files of a directory as a build leaves them, from what was saved before.\<close>

definition after_build ::
  "('v sentry \<Rightarrow> 'v sentry) \<Rightarrow> (fid \<Rightarrow> string) \<Rightarrow> (fid \<times> (string \<rightharpoonup> 'v)) list \<Rightarrow> ninfos \<Rightarrow> 'v saved \<Rightarrow> 'v saved \<Rightarrow> bool" where
  "after_build to_file nm stores infos old now \<longleftrightarrow>
     (\<forall>n\<in>fst ` set stores. now (nm n) =
        Some (to_file (with_ninfo (infos n) (add_binfos n stores (saved_or_new old (nm n)))))) \<and>
     (\<forall>k. k \<notin> nm ` fst ` set stores \<longrightarrow> now k = map_option to_file (old k))"

lemma write_after_build:
  assumes inj: "inj nm" and ok: "sc_ok nm C" and memo: "sc_memo C = Map.empty" and tm: "sc_to_merge C = []"
    and rw: "\<not> sc_readonly C" and old: "\<And>k. entry_at C k = old k" and st: "stores \<noteq> []"
    and w: "db_write dumps to_file infos path (store_all nm stores C) db = (C2, db2)"
  shows "\<exists>sv. db2 = db(path \<mapsto> dumps sv) \<and> after_build to_file nm stores infos old sv"
proof -
  let ?C = "store_all nm stores C"
  note s = store_all_ok [OF ok inj rw, of stores]
  have sv: "stored_of nm C n = saved_or_new old (nm n)" for n
    using old [of "nm n"] memo by (auto simp: stored_of_def saved_or_new_def entry_at_def split: option.splits)
  have pend: "set (sc_to_merge ?C) = (\<lambda>n. (nm n, n)) ` fst ` set stores" using s tm by simp
  have db2: "db2 = db(path \<mapsto> dumps (entries_of to_file (sc_merge infos ?C)))"
    using w s st by (auto simp: db_write_def Let_def)
  have ok': "sc_ok nm ?C" using s by blast
  have "entries_of to_file (sc_merge infos ?C) (nm n) =
      Some (to_file (with_ninfo (infos n) (add_binfos n stores (saved_or_new old (nm n)))))" if "n \<in> fst ` set stores" for n
  proof -
    have "(nm n, n) \<in> set (sc_to_merge ?C)" unfolding pend using that by blast
    moreover have "stored_of nm ?C n = add_binfos n stores (saved_or_new old (nm n))" using s [of n] sv by simp
    ultimately show ?thesis unfolding entries_of_at using sc_merge_at(1) [OF ok' inj] by simp
  qed
  moreover have "entries_of to_file (sc_merge infos ?C) k = map_option to_file (old k)"
    if "k \<notin> nm ` fst ` set stores" for k
  proof -
    have "k \<notin> fst ` set (sc_to_merge ?C)" unfolding pend using that by (simp add: image_image)
    then show ?thesis
      unfolding entries_of_at using sc_merge_at(2) [OF ok' inj] store_all_ok [OF ok inj rw, of stores undefined k] that old by simp
  qed
  ultimately show ?thesis using db2 unfolding after_build_def by blast
qed

section \<open>The next build\<close>

text \<open>The disk a node looks at is the same in both builds.\<close>

definition same_disk :: "world \<Rightarrow> world \<Rightarrow> bool" where
  "same_disk W W' \<longleftrightarrow> w_exists W' = w_exists W \<and> w_contents W' = w_contents W \<and> w_mtime W' = w_mtime W \<and>
     w_size W' = w_size W \<and> w_candidates W' = w_candidates W \<and> w_digest W' = w_digest W"

lemma same_disk_reads:
  assumes "same_disk W W'"
  shows "rfile W' n = rfile W n" "rexists W' n = rexists W n" "get_timestamp W' n = get_timestamp W n"
    "compute_csig W' n = compute_csig W n"
proof -
  have c: "first_candidate W' cs = first_candidate W cs" for cs
    using assms by (induction cs rule: first_candidate.induct) (auto simp: same_disk_def)
  show r: "rfile W' n = rfile W n" using assms c by (simp add: rfile_def same_disk_def)
  then show x: "rexists W' n = rexists W n" using assms by (simp add: rexists_def same_disk_def)
  show "get_timestamp W' n = get_timestamp W n" using assms r x by (simp add: get_timestamp_def same_disk_def)
  show "compute_csig W' n = compute_csig W n"
    using assms r x
    by (simp add: compute_csig_def get_size_def get_contents_def get_content_hash_def same_disk_def
        cong: option.case_cong)
qed

lemma visited_fields:
  "fi_timestamp (visited_ninfo W n s n) = Some (get_timestamp W n)"
  "fi_csig (s n) = Some c \<Longrightarrow> honest W n \<Longrightarrow> compute_csig W n = Inr c \<Longrightarrow> fi_csig (visited_ninfo W n s n) = Some c"
  by (auto simp: visited_ninfo_def set_csig_def Let_def honest_def split: option.splits)

lemma honest_next:
  assumes "same_disk W W'" and "compute_csig W n = Inr c" and "fi_csig (w_stored W' n) = Some c"
  shows "honest W' n"
  using assms same_disk_reads(4) [OF assms(1), of n]
  by (auto simp: honest_def get_max_drift_csig_def Let_def split: option.splits if_splits)

section \<open>Properties\<close>

definition hash_world :: world where
  "hash_world = \<lparr>w_exists = (\<lambda>n. n < 3), w_contents = (\<lambda>n. Some (replicate (70 * n) CHR ''x'')), w_mtime = (\<lambda>n. 100 + int n),
     w_size = (\<lambda>n. 70 * int n), w_candidates = (\<lambda>_. []), w_stored = (\<lambda>_. new_ninfo), w_now = 1000, w_max_drift = 10,
     w_digest = (\<lambda>s. CHR ''#'' # s)\<rparr>"

definition no_infos :: ninfos where "no_infos = (\<lambda>_. new_ninfo)"

lemma hash_world_honest: "honest hash_world n"
  by (simp add: honest_def get_max_drift_csig_def hash_world_def new_ninfo_def Let_def)

text \<open>
  C33: The content signature of a file whose signature is not known yet is the digest of its contents,
  whether it is read at once or in blocks, provided a stored signature that \<open>--max-drift\<close> lets the
  code use instead is the right one; and it is remembered.
\<close>

theorem csig_is_digest:
  assumes "honest W n" and "\<forall>x. w_digest W x \<noteq> []" and "get_contents W n = Some c" and "fi_csig (s n) = None"
  shows "get_csig W n s = (Inr (w_digest W c), set_csig n (w_digest W c) s)"
  using get_csig_computed [where s = s] assms(1,4) compute_csig_digest [OF assms(2,3)] .

theorem csig_is_digest_witness:
  "fst (get_csig hash_world 2 no_infos) = Inr (CHR ''#'' # replicate 140 CHR ''x'')"
  using csig_is_digest [OF hash_world_honest, of 2 "replicate 140 CHR ''x''" no_infos]
  by (simp add: hash_world_def get_contents_def rexists_def rfile_def no_infos_def new_ninfo_def)

text \<open>
  Where equal times mean equal signatures, the decider \<open>MD5-timestamp\<close> answers what \<open>MD5\<close> answers,
  and leaves the same signature behind, without reading a file whose time is the recorded one.
\<close>

theorem md5_timestamp_is_md5:
  assumes "honest W n" and "fi_csig (s n) = None" and "compute_csig W n = Inr c"
    and "fi_csig prev = Some p" and "fi_timestamp prev = Some (get_timestamp W n) \<Longrightarrow> p = c"
  shows "decide depth W X ByTimestampThenContent n target (Some prev) s = decide depth W X ByContent n target (Some prev) s"
  using get_csig_computed [where s = s, OF assms(1-3)] assms(4,5)
  by (auto simp: changed_timestamp_then_content_def changed_content_def changed_timestamp_match_def prev_attr_def
      split: option.splits)

definition no_envs :: dec_context where
  "no_envs = \<lparr>cx_env = (\<lambda>_. \<lparr>ed_source = ByContent, ed_target = ByContent, ed_copy = Copy2, ed_src_type = None, ed_tgt_type = None\<rparr>),
     cx_build_env = (\<lambda>_. 0), cx_not_current = (\<lambda>_. False), cx_user = (\<lambda>_ _ _ _. True), cx_default_type = None\<rparr>"

theorem md5_timestamp_is_md5_witness:
  "fst (decide 0 hash_world no_envs ByTimestampThenContent 0 None
     (Some \<lparr>fi_csig = Some ''#'', fi_timestamp = Some 100, fi_size = None\<rparr>) no_infos) = Inr False \<and>
   decide 0 hash_world no_envs ByTimestampThenContent 0 None
     (Some \<lparr>fi_csig = Some ''#'', fi_timestamp = Some 100, fi_size = None\<rparr>) no_infos =
   decide 0 hash_world no_envs ByContent 0 None
     (Some \<lparr>fi_csig = Some ''#'', fi_timestamp = Some 100, fi_size = None\<rparr>) no_infos"
proof -
  have c: "compute_csig hash_world 0 = Inr ''#''" by code_simp
  let ?p = "\<lparr>fi_csig = Some ''#'', fi_timestamp = Some 100, fi_size = None\<rparr>"
  have "fst (decide 0 hash_world no_envs ByTimestampThenContent 0 None (Some ?p) no_infos) = Inr False"
    by (simp add: changed_timestamp_then_content_def changed_timestamp_match_def prev_attr_def
        get_timestamp_def rexists_def rfile_def hash_world_def)
  moreover have "decide 0 hash_world no_envs ByTimestampThenContent 0 None (Some ?p) no_infos =
      decide 0 hash_world no_envs ByContent 0 None (Some ?p) no_infos"
    by (rule md5_timestamp_is_md5 [OF hash_world_honest _ c]) (simp_all add: no_infos_def new_ninfo_def)
  ultimately show ?thesis by simp
qed

text \<open>
  C32: What a file records when it has been looked at is what the next build compares it with: if the
  disk is the same, the deciders \<open>MD5\<close>, \<open>MD5-timestamp\<close> and \<open>timestamp-match\<close> all answer that it did not
  change, and the stored signature stays trustworthy.
\<close>

theorem unchanged_in_next_build:
  assumes "honest W n" and "fi_csig (s n) = None" and "compute_csig W n = Inr c"
    and "get_csig W n s = (r, s1)" and "rec = visited_ninfo W n s1 n"
    and "same_disk W W'" and "w_stored W' n = ninfo_merge (w_stored W n) rec" and "fi_csig (s' n) = None"
    and "d \<in> {ByContent, ByTimestampThenContent, ByMatch}"
  shows "fst (decide depth W' X d n target (Some rec) s') = Inr False \<and> honest W' n"
proof -
  have s1: "s1 = set_csig n c s" using get_csig_computed [where s = s, OF assms(1-3)] assms(4) by simp
  have rec: "fi_csig rec = Some c" "fi_timestamp rec = Some (get_timestamp W n)"
    using visited_fields [where s = s1] assms(1,3,5) s1 by (auto simp: set_csig_def)
  have h: "honest W' n" using honest_next [OF assms(6,3)] assms(7) rec(1) by (simp add: ninfo_merge_def)
  have t: "get_timestamp W' n = get_timestamp W n" and c: "compute_csig W' n = Inr c"
    using same_disk_reads [OF assms(6)] assms(3) by auto
  note g = get_csig_computed [where s = s', OF h assms(8) c]
  show ?thesis using assms(9) h rec g t
    by (auto simp: changed_content_def changed_timestamp_then_content_def changed_timestamp_match_def prev_attr_def)
qed

theorem unchanged_in_next_build_witness:
  "fst (decide 0 (hash_world\<lparr>w_now := 2000, w_stored := (\<lambda>_. visited_ninfo hash_world 1 (snd (get_csig hash_world 1 no_infos)) 1)\<rparr>)
     no_envs ByContent 1 None (Some (visited_ninfo hash_world 1 (snd (get_csig hash_world 1 no_infos)) 1)) no_infos) = Inr False"
proof -
  have c: "compute_csig hash_world 1 = Inr (w_digest hash_world (replicate 70 CHR ''x''))"
    by (rule compute_csig_digest) (simp_all add: hash_world_def get_contents_def rexists_def rfile_def)
  obtain r s1 where g: "get_csig hash_world 1 no_infos = (r, s1)" by fastforce
  let ?r = "visited_ninfo hash_world 1 s1 1"
  have m: "ninfo_merge (w_stored hash_world 1) ?r = ?r"
    by (cases ?r) (simp add: hash_world_def new_ninfo_def ninfo_merge_def merge_attr_def split: option.split)
  have n: "fi_csig (no_infos 1) = None" by (simp add: no_infos_def new_ninfo_def)
  show ?thesis
    using unchanged_in_next_build [OF hash_world_honest n c g refl, of "hash_world\<lparr>w_now := 2000, w_stored := (\<lambda>_. ?r)\<rparr>"
        no_infos ByContent 0 no_envs None] n m g
    by (simp add: same_disk_def)
qed

text \<open>
  With \<open>--max-drift=0\<close> a stored signature is used for any file: no change of the contents, whatever
  the time of the file, is seen by the deciders \<open>MD5\<close> and \<open>MD5-timestamp\<close>, compared with what was stored.
\<close>

theorem max_drift_zero_hides_changes:
  assumes "w_max_drift W = 0" and "fi_csig (w_stored W n) = Some c" and "fi_csig (s n) = None"
    and "d \<in> {ByContent, ByTimestampThenContent}"
  shows "fst (decide depth (W\<lparr>w_contents := contents, w_size := sizes, w_mtime := mtime\<rparr>) X d n target
    (Some (w_stored W n)) s) = Inr False"
  using assms by (auto simp: changed_timestamp_then_content_def changed_content_def get_csig_def get_max_drift_csig_def
      prev_attr_def set_csig_def Let_def)

theorem max_drift_zero_hides_changes_witness:
  "fst (decide 0 ((hash_world\<lparr>w_max_drift := 0, w_stored := (\<lambda>_. new_ninfo\<lparr>fi_csig := Some ''#''\<rparr>)\<rparr>)
     \<lparr>w_contents := (\<lambda>_. Some ''new''), w_size := (\<lambda>_. 3), w_mtime := (\<lambda>_. 999)\<rparr>) no_envs ByContent 0 None
     (Some (new_ninfo\<lparr>fi_csig := Some ''#''\<rparr>)) no_infos) = Inr False"
  using max_drift_zero_hides_changes [of "hash_world\<lparr>w_max_drift := 0, w_stored := (\<lambda>_. new_ninfo\<lparr>fi_csig := Some ''#''\<rparr>)\<rparr>"
      0 "''#''" no_infos ByContent 0, where contents = "\<lambda>_. Some ''new''" and sizes = "\<lambda>_. 3" and mtime = "\<lambda>_. 999"
      and X = no_envs and target = None]
  by (simp add: no_infos_def new_ninfo_def)

text \<open>
  C31: What a build stores of a directory is what the next build reads: for each node whose information
  was stored, the entry saved before (or a new one) with the build information of all the stores
  merged in their order and the node's last signatures; for every other name what was saved before,
  as it is written; and no other directory of the database changes.
\<close>

theorem stored_is_read_back:
  assumes "inj nm" and "\<And>sv. loads (dumps sv) = Some sv" and "enumerates names" and "finite (dom old)"
    and "db path = Some (dumps old)" and "stores \<noteq> []"
    and "db_write dumps to_file infos path (store_all nm stores (snd (db_init loads names path False db))) db = (C, db2)"
  shows "after_build to_file nm stores infos old (entry_at (snd (db_init loads names path ro db2))) \<and>
    (\<forall>q. q \<noteq> path \<longrightarrow> db2 q = db q)"
proof -
  note i = db_init_at [where loads = loads and db = db, OF assms(5) assms(2) assms(3,4)]
  obtain sv where sv: "db2 = db(path \<mapsto> dumps sv)" "after_build to_file nm stores infos old sv"
    using write_after_build [OF assms(1) i(2-4) _ i(1) assms(6,7)] i(5) by auto
  have "dom sv \<subseteq> nm ` fst ` set stores \<union> dom old"
    using sv(2) unfolding after_build_def by (auto simp: dom_def)
  then have fin: "finite (dom sv)" using assms(4) by (auto intro: finite_subset)
  have "db2 path = Some (dumps sv)" using sv(1) by simp
  from db_init_at(1) [where loads = loads and db = db2, OF this assms(2) assms(3) fin]
  have "entry_at (snd (db_init loads names path ro db2)) = sv" by blast
  then show ?thesis using sv by simp
qed

definition one_store :: "(fid \<times> (string \<rightharpoonup> nat)) list" where
  "one_store = [(2, [''bact'' \<mapsto> 7])]"

definition two_names :: "fid \<Rightarrow> string" where
  "two_names n = replicate n CHR ''n''"

theorem stored_is_read_back_witness:
  "\<exists>C db2. db_write (\<lambda>sv. sv) (\<lambda>e. e) no_infos ''d'' (store_all two_names one_store
       (snd (db_init Some (\<lambda>S. sorted_list_of_set S) ''d'' False [''d'' \<mapsto> Map.empty]))) [''d'' \<mapsto> Map.empty] = (C, db2) \<and>
     map_option (\<lambda>e. se_binfo e ''bact'')
       (entry_at (snd (db_init Some (\<lambda>S. sorted_list_of_set S) ''d'' True db2)) ''nn'') = Some (Some 7)"
proof -
  let ?n = "\<lambda>S :: string set. sorted_list_of_set S"
  obtain C db2 where w: "db_write (\<lambda>sv. sv) (\<lambda>e. e) no_infos ''d'' (store_all two_names one_store
       (snd (db_init Some ?n ''d'' False [''d'' \<mapsto> Map.empty]))) [''d'' \<mapsto> Map.empty] = (C, db2)"
    by fastforce
  have "inj two_names" by (rule injI) (metis two_names_def length_replicate)
  then have "after_build (\<lambda>e. e) two_names one_store no_infos Map.empty (entry_at (snd (db_init Some ?n ''d'' True db2)))"
    using stored_is_read_back [OF _ _ enumerates_sorted_list_of_set _ _ _ w] by (simp add: one_store_def)
  then have "entry_at (snd (db_init Some ?n ''d'' True db2)) (two_names 2) =
      Some (with_ninfo (no_infos 2) (add_binfos 2 one_store new_entry))"
    by (simp add: after_build_def one_store_def saved_or_new_def)
  then show ?thesis
    using w by (auto simp: two_names_def numeral_2_eq_2 with_ninfo_def add_binfos_def one_store_def new_entry_def)
qed

text \<open>
  What the methods of an environment make of its deciders, as long as they do not raise: decisions
  about sources never ask another decider, and the one that asks for the type of the signature is
  only set along with the type.
\<close>

inductive set_up :: "env_dec \<Rightarrow> bool" where
  start: "src \<in> {ByContent, ByTimestampThenContent, ByNewer, ByMatch} \<Longrightarrow> tgt = src \<Longrightarrow>
    set_up \<lparr>ed_source = src, ed_target = tgt, ed_copy = c, ed_src_type = None, ed_tgt_type = None\<rparr>"
| decider: "set_up e \<Longrightarrow> env_Decider md5 f e = Inr e' \<Longrightarrow> set_up e'"
| source: "set_up e \<Longrightarrow> SourceSignatures md5 t e = (Inr u, e') \<Longrightarrow> set_up e'"
| target: "set_up e \<Longrightarrow> TargetSignatures md5 i t e = (Inr u, e') \<Longrightarrow> set_up e'"

definition plain_decider :: "decider \<Rightarrow> bool" where
  "plain_decider d \<longleftrightarrow> d \<noteq> BySource \<and> (\<forall>e. d \<noteq> ByBuild e)"

lemma plain_deciders [simp]:
  "plain_decider ByContent" "plain_decider ByTimestampThenContent" "plain_decider ByNewer" "plain_decider ByMatch"
  "plain_decider (ByUser u)" "\<not> plain_decider BySource" "\<not> plain_decider (ByBuild i)"
  by (simp_all add: plain_decider_def)

lemma env_Decider_plain:
  assumes "env_Decider md5 f e = Inr e'"
  shows "plain_decider (ed_source e') \<and> plain_decider (ed_target e')"
proof (cases f)
  case (Named s)
  show ?thesis using assms unfolding env_Decider_def Named Let_def decider_arg.case
    by (clarsimp split: if_split_asm)
next
  case (Callable u)
  show ?thesis using assms unfolding env_Decider_def Callable Let_def by clarsimp
qed

lemma set_up_plain:
  "set_up e \<Longrightarrow> plain_decider (ed_source e) \<and> (ed_target e = BySource \<longrightarrow> ed_tgt_type e = Some ''source'')"
proof (induction rule: set_up.induct)
  case (decider e md5 f e')
  then show ?case using env_Decider_plain [OF decider.hyps(2)] by auto
next
  case (source e md5 t u e')
  then show ?case by (auto simp: SourceSignatures_def Let_def split: if_splits)
next
  case (target e md5 i t u e')
  then show ?case by (auto simp: TargetSignatures_def Let_def split: if_splits)
qed auto

lemma compute_csig_returns: "\<forall>x. w_digest W x \<noteq> [] \<Longrightarrow> \<exists>c. compute_csig W n = Inr c"
  by (auto simp: compute_csig_def get_content_hash_def MD5filesignature_def MD5signature_def split: option.splits)

lemma changed_content_returns:
  assumes "\<forall>x. w_digest W x \<noteq> []"
  shows "\<exists>b s'. changed_content W n prev s = (Inr b, s')"
  using compute_csig_returns [OF assms, of n]
  by (auto simp: changed_content_def get_csig_def split: option.splits)

lemma decide_plain:
  assumes "plain_decider d" and "\<forall>x. w_digest W x \<noteq> []"
  shows "\<exists>b s'. decide depth W X d n target prev s = (Inr b, s')"
  using assms(1) changed_content_returns [OF assms(2)]
  by (cases d) (auto simp: plain_decider_def changed_timestamp_then_content_def)

text \<open>
  A decision always ends and answers, with at most two deciders asking another one, in
  environments set up by \<open>Decider\<close>, \<open>SourceSignatures\<close> and \<open>TargetSignatures\<close> calls that return.
\<close>

theorem decisions_end:
  assumes "\<forall>e. set_up (cx_env X e)" and "\<forall>x. w_digest W x \<noteq> []" and "2 \<le> depth"
  shows "\<exists>b s'. decide depth W X (ed_target (cx_env X e)) n target prev s = (Inr b, s')"
proof -
  note pl = decide_plain [OF _ assms(2)]
  have src: "plain_decider (ed_source (cx_env X e))" for e using set_up_plain assms(1) by blast
  have build: "\<exists>b s'. decide (Suc k) W X (ByBuild i) n target prev s = (Inr b, s')" for k i
    by (cases "cx_not_current X n") (use pl [OF src] in auto)
  obtain k where k: "depth = Suc (Suc k)" using assms(3) by (cases depth; cases "depth - 1") auto
  show ?thesis
  proof (cases "ed_target (cx_env X e) = BySource")
    case False
    then consider "plain_decider (ed_target (cx_env X e))" | i where "ed_target (cx_env X e) = ByBuild i"
      by (auto simp: plain_decider_def)
    then show ?thesis by cases (use pl build k in auto)
  next
    case True
    let ?e = "cx_build_env X n"
    let ?d = "if get_tgt_sig_type X ?e = Some ''source'' then ed_source (cx_env X ?e) else ed_target (cx_env X ?e)"
    have "ed_target (cx_env X ?e) = BySource \<Longrightarrow> get_tgt_sig_type X ?e = Some ''source''"
      using set_up_plain [of "cx_env X ?e"] assms(1) by (simp add: get_tgt_sig_type_def)
    then have "?d \<noteq> BySource" using src [of ?e] by (auto simp: plain_decider_def)
    then consider "plain_decider ?d" | i where "?d = ByBuild i" by (auto simp: plain_decider_def)
    then have "\<exists>b s'. decide (Suc k) W X ?d n target prev s = (Inr b, s')"
      by cases (use pl build in auto)
    then show ?thesis using True k by (simp add: Let_def)
  qed
qed

theorem decisions_end_witness:
  "\<exists>b s'. decide 2 hash_world no_envs (ed_target (cx_env no_envs 0)) 1 None None no_infos = (Inr b, s')"
proof (rule decisions_end)
  show "\<forall>e. set_up (cx_env no_envs e)" using set_up.start [of ByContent] by (simp add: no_envs_def)
  show "\<forall>x. w_digest hash_world x \<noteq> []" by (simp add: hash_world_def)
qed simp

text \<open>
  A failed \<open>TargetSignatures\<close> has already set the type: after \<open>source\<close> and then an unknown type the
  decisions about targets call themselves without end.
\<close>

theorem failed_target_signatures_loop:
  assumes "TargetSignatures md5 0 ''source'' e0 = (Inr u, e1)" and "TargetSignatures md5 0 ''other'' e1 = (Inl m, e2)"
    and "cx_env X = (\<lambda>_. e2)"
  shows "fst (decide depth W X (ed_target e2) n target prev s) = Inl TooDeep"
proof -
  have e2: "ed_target e2 = BySource" "ed_tgt_type e2 = Some ''other''"
    using assms(1,2) by (auto simp: TargetSignatures_def Let_def)
  show ?thesis
  proof (induction depth)
    case (Suc depth)
    then show ?case using e2 assms(3) by (simp add: get_tgt_sig_type_def Let_def)
  qed (simp add: e2)
qed

theorem failed_target_signatures_loop_witness:
  "fst (decide 5 hash_world (no_envs\<lparr>cx_env := (\<lambda>_. snd (TargetSignatures True 0 ''other''
     (snd (TargetSignatures True 0 ''source'' (cx_env no_envs 0)))))\<rparr>) BySource 0 None None no_infos) = Inl TooDeep"
proof -
  obtain u e1 where 1: "TargetSignatures True 0 ''source'' (cx_env no_envs 0) = (Inr u, e1)"
    by (simp add: TargetSignatures_def Let_def)
  obtain m e2 where 2: "TargetSignatures True 0 ''other'' e1 = (Inl m, e2)"
    by (simp add: TargetSignatures_def Let_def)
  have "ed_target e2 = BySource" using 1 2 by (auto simp: TargetSignatures_def Let_def)
  then show ?thesis using failed_target_signatures_loop [OF 1 2, of "no_envs\<lparr>cx_env := (\<lambda>_. e2)\<rparr>" 5] 1 2 by simp
qed

section \<open>Files of directories\<close>

text \<open>
  \<open>DirFile.write\<close> never loses the signatures: whichever of its operations fail, afterwards the new
  entries are in the \<open>.sconsign\<close> file, or they are in the temporary file, or the \<open>.sconsign\<close> file is as
  it was; and no other file changes.
\<close>

theorem dirfile_write_keeps_data:
  assumes "temp \<noteq> sconsign" and "dirfile_write ok temp sconsign data F = (r, F')"
  shows "(map_option fst (F' sconsign) = Some data \<or> map_option fst (F' temp) = Some data \<or> F' sconsign = F sconsign) \<and>
    (\<forall>f. f \<noteq> temp \<longrightarrow> f \<noteq> sconsign \<longrightarrow> F' f = F f)"
  using assms by (auto simp: dirfile_write_def put_data_def Let_def split: if_splits option.splits prod.splits)

theorem dirfile_write_keeps_data_witness:
  "\<exists>r F'. dirfile_write \<lparr>ok_open_temp = True, ok_open_sconsign = True, ok_chmod = True, ok_unlink = True, ok_rename = False,
     ok_write_over = False, ok_unlink_temp = True\<rparr> ''t'' ''s'' ''new'' [''s'' \<mapsto> (''old'', 0)] = (r, F') \<and>
   (map_option fst (F' ''s'') = Some ''new'' \<or> map_option fst (F' ''t'') = Some ''new'' \<or> F' ''s'' = Some (''old'', 0))"
proof -
  obtain r F' where w: "dirfile_write \<lparr>ok_open_temp = True, ok_open_sconsign = True, ok_chmod = True, ok_unlink = True, ok_rename = False,
     ok_write_over = False, ok_unlink_temp = True\<rparr> ''t'' ''s'' ''new'' [''s'' \<mapsto> (''old'', 0)] = (r, F')"
    by fastforce
  show ?thesis using dirfile_write_keeps_data [OF _ w] w by auto
qed

text \<open>
  When there was no \<open>.sconsign\<close> file and the temporary file cannot be renamed, the entries are written
  over it, and then \<open>mode\<close> is read, which was never set.
\<close>

theorem dirfile_mode_unbound:
  assumes "F sconsign = None" and "temp \<noteq> sconsign" and "ok_open_temp ok" and "\<not> ok_rename ok" and "ok_write_over ok"
  shows "fst (dirfile_write ok temp sconsign data F) = Some UnboundMode"
  using assms by (simp add: dirfile_write_def put_data_def Let_def)

end
