(* ===== verification/FileLinks.thy ===== *)
theory FileLinks
  imports FileTree PyPath
begin

text \<open>
  Variant directories and repositories of \<open>SCons/Node/FS.py\<close>: \<open>VariantDir\<close>, \<open>Repository\<close> and the
  links they make between directories, the directories that stand for a directory
  (\<open>get_all_rdirs\<close>, \<open>srcdir_list\<close>, \<open>srcnode\<close>), the search for files through them
  (\<open>srcdir_find_file\<close>, \<open>find_file\<close>, \<open>rfile\<close>) and the duplication of sources into variant directories.
  The memos the code keeps of what it found are part of the state, as \<open>__clearRepositoryCache\<close>
  clears them.
\<close>

section \<open>State\<close>

text \<open>
  The tree, the memos of directories and of the one \<open>FileFinder\<close>, the names each directory was seen to hold on the disk
  (\<open>on_disk_entries\<close>, which is never cleared), the files that were duplicated, and the disk.
\<close>

record linked =
  lk_fs :: fsys
  lk_rdirs :: "fsid \<rightharpoonup> fsid list"
  lk_srcdirs :: "fsid \<rightharpoonup> fsid list"
  lk_srcfile :: "fsid \<Rightarrow> string \<rightharpoonup> (fsid \<times> fsid) option"
  lk_rfind :: "fsid \<Rightarrow> (fsid + string) list \<rightharpoonup> fsid list"
  lk_found :: "string \<times> fsid list \<rightharpoonup> fsid option"
  lk_listed :: "fsid \<rightharpoonup> (string \<Rightarrow> bool)"
  lk_dups :: "fsid list"
  lk_disk :: disk

definition then_do :: "('e + 'a) \<times> 's \<Rightarrow> ('a \<Rightarrow> 's \<Rightarrow> ('e + 'b) \<times> 's) \<Rightarrow> ('e + 'b) \<times> 's" where
  "then_do r f = (case r of (Inl e, s) \<Rightarrow> (Inl e, s) | (Inr a, s) \<Rightarrow> f a s)"

lemma then_do_simps [simp]: "then_do (Inl e, s) f = (Inl e, s)" "then_do (Inr a, s) f = f a s"
  by (simp_all add: then_do_def)

lemma then_do_Inr:
  "then_do r f = (Inr b, s') \<longleftrightarrow> (\<exists>a s. r = (Inr a, s) \<and> f a s = (Inr b, s'))"
  by (cases r; cases "fst r") (auto simp: then_do_def split: sum.splits)

definition in_fs :: "(fsys \<Rightarrow> (fs_error + 'a) \<times> fsys) \<Rightarrow> linked \<Rightarrow> (fs_error + 'a) \<times> linked" where
  "in_fs f L = (case f (lk_fs L) of (r, S) \<Rightarrow> (r, L\<lparr>lk_fs := S\<rparr>))"

abbreviation node_of :: "linked \<Rightarrow> fsid \<Rightarrow> fsnode" where
  "node_of L n \<equiv> fs_nodes (lk_fs L) n"

definition dir_Dir :: "fsid \<Rightarrow> string \<Rightarrow> linked \<Rightarrow> (fs_error + fsid) \<times> linked" where
  "dir_Dir d name L = in_fs (fs_Dir (lk_disk L) name (Some d) True) L"

definition dir_Entry :: "fsid \<Rightarrow> string \<Rightarrow> linked \<Rightarrow> (fs_error + fsid) \<times> linked" where
  "dir_Entry d name L = in_fs (fs_Entry (lk_disk L) name (Some d) True) L"

definition dir_File :: "fsid \<Rightarrow> string \<Rightarrow> linked \<Rightarrow> (fs_error + fsid) \<times> linked" where
  "dir_File d name L = in_fs (fs_File (lk_disk L) name (Some d) True) L"

text \<open>A directory and the ones above it, as \<open>while dir: ... dir = dir.up()\<close> goes through them.\<close>

function chain :: "fsys \<Rightarrow> fsid \<Rightarrow> fsid list" where
  "chain S n = n # (if n = root_id \<or> n \<le> nd_dir (fs_nodes S n) then [] else chain S (nd_dir (fs_nodes S n)))"
  by pat_completeness auto
termination
  by (relation "measure (\<lambda>(_, n). n)") auto

declare chain.simps [simp del]

section \<open>Clearing what is remembered\<close>

text \<open>The nodes in \<open>entries\<close> but for the two of the dots.\<close>

definition kids :: "fsys \<Rightarrow> fsid \<Rightarrow> fsid list" where
  "kids S d = filter (\<lambda>n. d < n \<and> nd_dir (fs_nodes S n) = d \<and> nd_entries (fs_nodes S d) (nd_name (fs_nodes S n)) = Some n)
     [0..<fs_next S]"

lemma kids_later: "n \<in> set (kids S d) \<Longrightarrow> d < n \<and> n < fs_next S"
  by (auto simp: kids_def)

text \<open>
  \<open>__clearRepositoryCache\<close>: directories recursively, other nodes and, by its entry for the dot, the
  directory itself; the root directory, whose parent it is, skips itself.
\<close>

function cleared_nodes :: "fsys \<Rightarrow> fsid \<Rightarrow> fsid list" where
  "cleared_nodes S d =
     concat (map (\<lambda>n. if nd_class (fs_nodes S n) = DirK then cleared_nodes S n else [n]) (kids S d)) @
     (if nd_dir (fs_nodes S d) = d then [] else [d])"
  by pat_completeness auto
termination
  by (relation "measure (\<lambda>(S, d). fs_next S - d)") (auto dest: kids_later)

declare cleared_nodes.simps [simp del]

definition clear_node :: "bool option \<Rightarrow> fsid \<Rightarrow> linked \<Rightarrow> linked" where
  "clear_node dup n L =
     L\<lparr>lk_fs := (case dup of None \<Rightarrow> lk_fs L | Some b \<Rightarrow> upd n (\<lambda>x. x\<lparr>nd_dup := b\<rparr>) (lk_fs L)),
       lk_rdirs := (lk_rdirs L)(n := None), lk_srcdirs := (lk_srcdirs L)(n := None),
       lk_srcfile := (lk_srcfile L)(n := Map.empty), lk_rfind := (lk_rfind L)(n := Map.empty)\<rparr>"

definition clear_repository_cache :: "bool option \<Rightarrow> fsid \<Rightarrow> linked \<Rightarrow> linked" where
  "clear_repository_cache dup d L = fold (clear_node dup) (cleared_nodes (lk_fs L) d) L"

section \<open>Linking directories\<close>

definition on_node :: "fsid \<Rightarrow> (fsnode \<Rightarrow> fsnode) \<Rightarrow> linked \<Rightarrow> linked" where
  "on_node n f L = L\<lparr>lk_fs := upd n f (lk_fs L)\<rparr>"

definition dir_link :: "fsid \<Rightarrow> fsid \<Rightarrow> bool \<Rightarrow> linked \<Rightarrow> linked" where
  "dir_link d srcdir dup L =
     on_node srcdir (\<lambda>x. x\<lparr>nd_variant_dirs := nd_variant_dirs x @ [d]\<rparr>)
       (clear_repository_cache (Some dup) d (on_node d (\<lambda>x. x\<lparr>nd_srcdir := Some srcdir, nd_dup := dup\<rparr>) L))"

datatype link_error = SourceUnderVariant | HasSource fsid fsid | LookupFailed fs_error

definition variant_dir_nodes :: "fsid \<Rightarrow> fsid \<Rightarrow> bool \<Rightarrow> linked \<Rightarrow> (link_error + unit) \<times> linked" where
  "variant_dir_nodes variant src dup L =
     (if is_under (lk_fs L) src variant then (Inl SourceUnderVariant, L)
      else case nd_srcdir (node_of L variant) of
        Some s \<Rightarrow> (if s = src then Inr () else Inl (HasSource variant s), L)
      | None \<Rightarrow> (Inr (), dir_link variant src dup L))"

text \<open>\<open>FS.VariantDir\<close> with two path names; the source is looked up first.\<close>

definition VariantDir :: "string \<Rightarrow> string \<Rightarrow> bool \<Rightarrow> linked \<Rightarrow> (link_error + unit) \<times> linked" where
  "VariantDir variant src dup L =
     (case in_fs (fs_Dir (lk_disk L) src None True) L of
        (Inl e, L1) \<Rightarrow> (Inl (LookupFailed e), L1)
      | (Inr s, L1) \<Rightarrow>
          (case in_fs (fs_Dir (lk_disk L1) variant None True) L1 of
             (Inl e, L2) \<Rightarrow> (Inl (LookupFailed e), L2)
           | (Inr v, L2) \<Rightarrow> variant_dir_nodes v s dup L2))"

definition addRepository :: "fsid \<Rightarrow> fsid \<Rightarrow> linked \<Rightarrow> linked" where
  "addRepository self d L =
     (if d \<noteq> self \<and> d \<notin> set (nd_repositories (node_of L self))
      then clear_repository_cache None self
        (on_node d (\<lambda>x. x\<lparr>nd_tpath := ''.''\<rparr>) (on_node self (\<lambda>x. x\<lparr>nd_repositories := nd_repositories x @ [d]\<rparr>) L))
      else L)"

fun fs_Repository :: "string list \<Rightarrow> linked \<Rightarrow> (fs_error + unit) \<times> linked" where
  "fs_Repository [] L = (Inr (), L)"
| "fs_Repository (p # ps) L =
     then_do (in_fs (fs_Dir (lk_disk L) p None True) L)
       (\<lambda>d L1. fs_Repository ps (addRepository (fs_top (lk_fs L1)) d L1))"

section \<open>The directories a directory stands for\<close>

type_synonym dirs_of = "fsid \<Rightarrow> linked \<Rightarrow> (fs_error + fsid list) \<times> linked"

text \<open>
  \<open>getRepositories\<close> of a variant directory without duplication asks for all directories its source
  directory stands for; \<open>get\<close> is \<open>get_all_rdirs\<close>.
\<close>

definition getRepositories :: "dirs_of \<Rightarrow> dirs_of" where
  "getRepositories get d L = (let x = node_of L d in
     case nd_srcdir x of
       Some s \<Rightarrow> if \<not> nd_dup x then then_do (get s L) (\<lambda>rs L1. (Inr (rs @ nd_repositories x), L1))
                 else (Inr (nd_repositories x), L)
     | None \<Rightarrow> (Inr (nd_repositories x), L))"

fun reps_dirs :: "string \<Rightarrow> fsid list \<Rightarrow> linked \<Rightarrow> (fs_error + fsid list) \<times> linked" where
  "reps_dirs fname [] L = (Inr [], L)"
| "reps_dirs fname (r # rs) L =
     then_do (dir_Dir r fname L) (\<lambda>d L1. then_do (reps_dirs fname rs L1) (\<lambda>ds L2. (Inr (d # ds), L2)))"

fun rdirs_loop :: "dirs_of \<Rightarrow> string \<Rightarrow> fsid list \<Rightarrow> linked \<Rightarrow> (fs_error + fsid list) \<times> linked" where
  "rdirs_loop get fname [] L = (Inr [], L)"
| "rdirs_loop get fname (d # ds) L =
     then_do (getRepositories get d L) (\<lambda>reps L1.
       then_do (reps_dirs fname reps L1) (\<lambda>rs L2.
         then_do (rdirs_loop get (if fname = ''.'' then nd_name (node_of L2 d) else nd_name (node_of L2 d) @ ''/'' @ fname) ds L2)
           (\<lambda>more L3. (Inr (rs @ more), L3))))"

text \<open>The number bounds the nested calls, as Python's recursion limit does.\<close>

fun get_all_rdirs :: "nat \<Rightarrow> dirs_of" where
  "get_all_rdirs 0 d L = (case lk_rdirs L d of Some r \<Rightarrow> (Inr r, L) | None \<Rightarrow> (Inl RecursionErr, L))"
| "get_all_rdirs (Suc depth) d L =
     (case lk_rdirs L d of
        Some r \<Rightarrow> (Inr r, L)
      | None \<Rightarrow> then_do (rdirs_loop (get_all_rdirs depth) ''.'' (chain (lk_fs L) d) L)
          (\<lambda>rs L1. (Inr (d # rs), L1\<lparr>lk_rdirs := (lk_rdirs L1)(d \<mapsto> d # rs)\<rparr>)))"

fun srcdirs_loop :: "string \<Rightarrow> fsid list \<Rightarrow> linked \<Rightarrow> (fs_error + fsid list) \<times> linked" where
  "srcdirs_loop dirname [] L = (Inr [], L)"
| "srcdirs_loop dirname (d # ds) L =
     then_do (case nd_srcdir (node_of L d) of None \<Rightarrow> (Inr [], L)
              | Some s \<Rightarrow> then_do (dir_Dir s dirname L) (\<lambda>m L1. (Inr [m], L1)))
       (\<lambda>rs L1. then_do (srcdirs_loop (nd_name (node_of L1 d) @ ''/'' @ dirname) ds L1)
          (\<lambda>more L2. (Inr (rs @ more), L2)))"

definition srcdir_list :: "fsid \<Rightarrow> linked \<Rightarrow> (fs_error + fsid list) \<times> linked" where
  "srcdir_list d L =
     (case lk_srcdirs L d of
        Some r \<Rightarrow> (Inr r, L)
      | None \<Rightarrow> then_do (srcdirs_loop ''.'' (chain (lk_fs L) d) L)
          (\<lambda>rs L1. (Inr rs, L1\<lparr>lk_srcdirs := (lk_srcdirs L1)(d \<mapsto> rs)\<rparr>)))"

definition base_srcnode :: "fsid \<Rightarrow> linked \<Rightarrow> (fs_error + fsid) \<times> linked" where
  "base_srcnode n L =
     then_do (srcdir_list (nd_dir (node_of L n)) L) (\<lambda>ss L1.
       case ss of [] \<Rightarrow> (Inr n, L1)
       | s # _ \<Rightarrow> then_do (dir_Entry s (nd_name (node_of L1 n)) L1) (\<lambda>m L2.
           then_do (in_fs (must_be_same (nd_class (node_of L2 n)) m) L2) (\<lambda>_ L3. (Inr m, L3))))"

text \<open>\<open>srcnode\<close>; the source of a variant directory itself is its source directory.\<close>

definition node_srcnode :: "fsid \<Rightarrow> linked \<Rightarrow> (fs_error + fsid) \<times> linked" where
  "node_srcnode n L =
     (case nd_srcdir (node_of L n) of
        Some s \<Rightarrow> if nd_class (node_of L n) = DirK then (Inr s, L) else base_srcnode n L
      | None \<Rightarrow> base_srcnode n L)"

section \<open>Targets in variant directories\<close>

datatype climbed = Reflected | Targets "fsid list"

text \<open>The variant directories of one directory, in order.\<close>

fun climb_variants :: "fsid \<Rightarrow> string list \<Rightarrow> fsid list \<Rightarrow> linked \<Rightarrow> (fs_error + climbed) \<times> linked" where
  "climb_variants start tail [] L = (Inr (Targets []), L)"
| "climb_variants start tail (b # bs) L =
     (if is_under (lk_fs L) start b then (Inr Reflected, L)
      else then_do (in_fs (fs_Entry (lk_disk L) (foldl path_join (nd_path (node_of L b)) tail) None True) L) (\<lambda>t L1.
        then_do (climb_variants start tail bs L1) (\<lambda>c L2.
          (Inr (case c of Reflected \<Rightarrow> Reflected | Targets ts \<Rightarrow> Targets (t # ts)), L2))))"

fun climb_loop :: "fsid \<Rightarrow> string list \<Rightarrow> fsid list \<Rightarrow> linked \<Rightarrow> (fs_error + climbed) \<times> linked" where
  "climb_loop start tail [] L = (Inr (Targets []), L)"
| "climb_loop start tail (d # ds) L =
     then_do (climb_variants start tail (nd_variant_dirs (node_of L d)) L) (\<lambda>c L1.
       case c of Reflected \<Rightarrow> (Inr Reflected, L1)
       | Targets ts \<Rightarrow> then_do (climb_loop start (nd_name (node_of L1 d) # tail) ds L1) (\<lambda>c2 L2.
           (Inr (case c2 of Reflected \<Rightarrow> Reflected | Targets us \<Rightarrow> Targets (ts @ us)), L2)))"

text \<open>
  \<open>variant_dir_target_climb\<close>; the message that goes with the targets is left out. A node that is
  in a variant directory already is its own target.
\<close>

definition variant_dir_target_climb :: "fsid \<Rightarrow> fsid \<Rightarrow> string list \<Rightarrow> linked \<Rightarrow> (fs_error + fsid list) \<times> linked" where
  "variant_dir_target_climb orig d tail L =
     then_do (climb_loop d tail (chain (lk_fs L) d) L)
       (\<lambda>c L1. (Inr (case c of Reflected \<Rightarrow> [orig] | Targets ts \<Rightarrow> ts), L1))"

text \<open>\<open>alter_targets\<close> of a directory and of a file that is not derived; other nodes have none.\<close>

definition alter_targets :: "bool \<Rightarrow> fsid \<Rightarrow> linked \<Rightarrow> (fs_error + fsid list) \<times> linked" where
  "alter_targets derived n L =
     (if nd_class (node_of L n) = DirK then variant_dir_target_climb n n [] L
      else if nd_class (node_of L n) = EntryK \<or> derived then (Inr [], L)
      else variant_dir_target_climb n (nd_dir (node_of L n)) [nd_name (node_of L n)] L)"

end
