(* ===== verification/LinkInv.thy ===== *)
theory LinkInv
  imports FileLinks TreeProps
begin

text \<open>
  What lookups leave alone, and the invariant of variant directories: each lookup is a sequence of
  two kinds of steps, and the links between directories survive both. The memo of the source
  directories is never stale.
\<close>

section \<open>Lookups as steps\<close>

text \<open>A lookup makes entries into what is asked for and adds entries whose names satisfy \<open>P\<close>.\<close>

inductive tree_step :: "(string \<Rightarrow> bool) \<Rightarrow> fsys \<Rightarrow> fsys \<Rightarrow> bool" for P where
  becomes: "n < fs_next S \<Longrightarrow> nd_class (fs_nodes S n) = EntryK \<Longrightarrow> tree_step P S (become k n S)"
| enters: "d < fs_next S \<Longrightarrow> nd_class (fs_nodes S d) = DirK \<Longrightarrow> proper_name c \<Longrightarrow> P c \<Longrightarrow>
    p = abs_of (comps S d @ [c]) \<Longrightarrow> fs_lookupDict S p = None \<Longrightarrow> tree_step P S (enter_node p c EntryK d S)"

definition tree_steps :: "(string \<Rightarrow> bool) \<Rightarrow> fsys \<Rightarrow> fsys \<Rightarrow> bool" where
  "tree_steps P = (tree_step P)\<^sup>*\<^sup>*"

lemma tree_steps_refl [simp]: "tree_steps P S S"
  by (simp add: tree_steps_def)

lemma tree_steps_trans: "tree_steps P S1 S2 \<Longrightarrow> tree_steps P S2 S3 \<Longrightarrow> tree_steps P S1 S3"
  unfolding tree_steps_def by (rule rtranclp_trans)

lemma tree_steps_one: "tree_step P S S' \<Longrightarrow> tree_steps P S S'"
  unfolding tree_steps_def by (rule r_into_rtranclp)

lemma tree_step_ok: "tree_step P S S' \<Longrightarrow> tree_ok S \<Longrightarrow> tree_ok S' \<and> grown S S'"
  by (induction rule: tree_step.induct) (auto intro: become_ok enter_entry_ok)

lemma tree_steps_induct:
  assumes "tree_steps P S S'" and "Q S"
    and "\<And>S1 S2. tree_step P S1 S2 \<Longrightarrow> Q S1 \<Longrightarrow> Q S2"
  shows "Q S'"
  using assms(1) unfolding tree_steps_def by (induction rule: rtranclp_induct) (use assms(2,3) in auto)

lemma must_be_same_steps:
  "n < fs_next S \<Longrightarrow> must_be_same k n S = (r, S') \<Longrightarrow> tree_steps P S S'"
  by (auto simp: must_be_same_def Let_def split: if_splits intro: tree_steps_one becomes)

lemma lookup_node_steps:
  "n < fs_next S \<Longrightarrow> lookup_node n k S = (r, S') \<Longrightarrow> tree_steps P S S'"
  by (auto simp: lookup_node_def split: prod.splits sum.splits intro: must_be_same_steps)

lemma enter_node_steps:
  assumes "d < fs_next S" and "nd_class (fs_nodes S d) = DirK" and "proper_name c" and "P c"
    and "p = abs_of (comps S d @ [c])" and "fs_lookupDict S p = None"
  shows "tree_steps P S (enter_node p c k d S)"
proof -
  let ?E = "enter_node p c EntryK d S"
  have e: "tree_step P S ?E" by (rule enters [where P = P, OF assms(1-4,5,6)])
  have dn: "d \<noteq> fs_next S" using assms(1) by simp
  show ?thesis
  proof (cases "k = EntryK")
    case True
    then show ?thesis using tree_steps_one [OF e] by simp
  next
    case False
    then have eq: "enter_node p c k d S = become k (fs_next S) ?E" using enter_node_become [OF dn, of p c k] by simp
    have "tree_step P ?E (become k (fs_next S) ?E)"
      by (rule becomes) (simp_all add: enter_entry_fields [OF dn] base_init_def)
    then show ?thesis unfolding eq by (rule tree_steps_trans [OF tree_steps_one [OF e] tree_steps_one])
  qed
qed

lemma lookup_abs_steps:
  assumes "tree_ok S" and "\<forall>c\<in>set cs. proper_name c \<and> P c" and "p = abs_of cs \<or> cs = [] \<and> p \<in> root_keys"
    and "lookup_abs E k create p S = (r, S')"
  shows "tree_steps P S S'"
  using assms
proof (induction cs arbitrary: k create p r S' rule: rev_induct)
  case Nil
  then have lk: "fs_lookupDict S p = Some root_id" using tree_okD(1,6) [OF Nil.prems(1)] by auto
  then show ?case using Nil.prems(4) lookup_node_steps [OF tree_okD(1) [OF Nil.prems(1)]] by (simp add: lookup_abs_hit)
next
  case (snoc c cs)
  have p: "p = abs_of (cs @ [c])" using snoc.prems(3) by simp
  have nm: "proper_name c" "P c" and cs: "\<forall>c\<in>set cs. proper_name c \<and> P c" using snoc.prems(2) by auto
  show ?case
  proof (cases "fs_lookupDict S p")
    case (Some n)
    then have "n < fs_next S" using tree_okD(6) [OF snoc.prems(1)] by simp
    then show ?thesis using Some snoc.prems(4) lookup_node_steps by (simp add: lookup_abs_hit)
  next
    case None
    obtain rd S1 where l: "lookup_abs E DirK True (abs_of cs) S = (rd, S1)" by fastforce
    have rs: "rsplit_path p = Some (abs_of cs, c)"
      unfolding p by (rule rsplit_abs_of) (use nm in \<open>simp add: proper_name_def\<close>)
    have st: "tree_steps P S S1" by (rule snoc.IH [OF snoc.prems(1) cs disjI1 [OF refl] l])
    have cp: "\<forall>c\<in>set cs. proper_name c" using cs by blast
    note i = lookup_abs_ok [OF snoc.prems(1) cp disjI1 [OF refl] l]
    show ?thesis
    proof (cases "create \<and> (\<exists>d. rd = Inr d \<and> diskcheck_match E k (entry_abspath S1 d c) = None)")
      case False
      then have "S' = S \<or> S' = S1" using snoc.prems(4) lookup_abs_miss(2) [OF None rs l False] by (auto split: if_splits)
      then show ?thesis using st by auto
    next
      case True
      then obtain d where d: "rd = Inr d" "diskcheck_match E k (entry_abspath S1 d c) = None" by blast
      then have r: "S' = enter_node p c k d S1"
        using snoc.prems(4) lookup_abs_miss(1) [OF None rs l _ d] True by auto
      have "fs_lookupDict S1 p = None" using lookup_abs_longer [OF l, of p] None p by simp
      then show ?thesis
        unfolding r using enter_node_steps [of d S1 c P p k] i d(1) nm p by (intro tree_steps_trans [OF st]) auto
    qed
  qed
qed

lemma lookup_steps:
  assumes t: "tree_ok S" and nl: "newline \<notin> set p" and dir: "\<forall>d\<in>set_option dir. d < fs_next S"
    and P: "\<forall>c\<in>set (lookup_comps S dir p). P c" and l: "lookup E p dir k create S = (r, S')"
  shows "tree_steps P S S'"
proof -
  have main: "tree_steps P S0 S'"
    if S0: "tree_ok S0" and dirs: "\<forall>d\<in>set_option dir. d < fs_next S0 \<and> nd_class (fs_nodes S0 d) = DirK"
      and eq: "lookup E p dir k create S0 = (r, S')" and P: "\<forall>c\<in>set (lookup_comps S0 dir p). P c" for S0 dir
  proof -
    obtain s where s: "spells s (lookup_comps S0 dir p)" "lookup_abs E k create s S0 = (r, S')"
      using lookup_string [OF S0 nl dirs] eq by metis
    have "\<forall>c\<in>set (lookup_comps S0 dir p). proper_name c" using S0 dirs by (intro lookup_comps_proper) auto
    then show ?thesis using lookup_abs_steps [OF S0 _ s(1) [unfolded spells_def] s(2)] P by blast
  qed
  show ?thesis
  proof (cases "is_relative p \<and> dir \<noteq> None")
    case False
    then have "lookup E p None k create S = (r, S') \<and> lookup_comps S dir p = lookup_comps S None p"
      using l lookup_not_relative [of p] by metis
    then show ?thesis using main [OF t, of None] P by simp
  next
    case True
    then obtain d where d: "dir = Some d" "d < fs_next S" and rel: "is_relative p" using dir by auto
    obtain m S1 where m: "must_be_same DirK d S = (m, S1)" by fastforce
    note mok = must_be_same_ok [OF t d(2) m]
    have st: "tree_steps P S S1" by (rule must_be_same_steps [OF d(2) m])
    show ?thesis
    proof (cases m)
      case (Inl e)
      then show ?thesis using l lookup_relative(2) [OF rel] d(1) m st by simp
    next
      case (Inr u)
      then have d1: "d < fs_next S1" "nd_class (fs_nodes S1 d) = DirK" "comps S1 d = comps S d"
        using mok grown_less [OF _ d(2), of S1] grown_comps [OF _ d(2), of S1] by auto
      then have "must_be_same DirK d S1 = (Inr (), S1)" by (simp add: must_be_same_def Let_def)
      then have "lookup E p dir k create S1 = (r, S')" using l lookup_relative(2) [OF rel] d(1) m Inr by simp
      moreover have "lookup_comps S1 dir p = lookup_comps S dir p"
        using is_relative_cases(1) [OF rel] d(1) d1(3) by simp
      ultimately show ?thesis using main [of S1 dir] mok d d1 P by (intro tree_steps_trans [OF st]) auto
    qed
  qed
qed

section \<open>Links survive lookups\<close>

definition same_links :: "fsys \<Rightarrow> fsys \<Rightarrow> bool" where
  "same_links S S' \<longleftrightarrow> (\<forall>n. nd_srcdir (fs_nodes S' n) = nd_srcdir (fs_nodes S n) \<and>
     nd_variant_dirs (fs_nodes S' n) = nd_variant_dirs (fs_nodes S n) \<and>
     nd_repositories (fs_nodes S' n) = nd_repositories (fs_nodes S n))"

text \<open>Only directories that are there have links.\<close>

definition lone :: "fsys \<Rightarrow> bool" where
  "lone S \<longleftrightarrow> (\<forall>n. fs_next S \<le> n \<or> nd_class (fs_nodes S n) \<noteq> DirK \<longrightarrow>
     nd_srcdir (fs_nodes S n) = None \<and> nd_variant_dirs (fs_nodes S n) = [] \<and> nd_repositories (fs_nodes S n) = [])"

lemma loneD:
  "lone S \<Longrightarrow> fs_next S \<le> n \<or> nd_class (fs_nodes S n) \<noteq> DirK \<Longrightarrow>
     nd_srcdir (fs_nodes S n) = None \<and> nd_variant_dirs (fs_nodes S n) = [] \<and> nd_repositories (fs_nodes S n) = []"
  unfolding lone_def by blast

lemma become_links:
  assumes "lone S" and "nd_class (fs_nodes S n) = EntryK"
  shows "same_links S (become k n S)"
proof -
  have "nd_srcdir (fs_nodes S n) = None" "nd_variant_dirs (fs_nodes S n) = []" "nd_repositories (fs_nodes S n) = []"
    using loneD [OF assms(1), of n] assms(2) by auto
  then show ?thesis by (auto simp: same_links_def become_def morph_dir_def upd_def Let_def)
qed

lemma become_lone:
  assumes "lone S" and "n < fs_next S" and "nd_class (fs_nodes S n) = EntryK"
  shows "lone (become k n S)"
proof -
  have s: "same_links S (become k n S)" by (rule become_links [OF assms(1,3)])
  have "fs_next S \<le> m \<or> nd_class (fs_nodes S m) \<noteq> DirK"
    if "fs_next S \<le> m \<or> nd_class (fs_nodes (become k n S) m) \<noteq> DirK" for m
    using that assms(3) become_nodes(1) [of k n S] become_nodes(5) [where m = m and n = n and k = k and S = S] by (cases "m = n") auto
  then show ?thesis
    using loneD [OF assms(1)] s unfolding lone_def same_links_def by (metis become_nodes(1))
qed

lemma enter_links:
  assumes "lone S" and "d < fs_next S" and "nd_class (fs_nodes S d) = DirK"
  shows "same_links S (enter_node p c EntryK d S) \<and> lone (enter_node p c EntryK d S)"
proof -
  let ?S = "enter_node p c EntryK d S"
  have dn: "d \<noteq> fs_next S" using assms(2) by simp
  note f = enter_entry_fields [OF dn, where p = p and name = c]
  have new: "nd_srcdir (fs_nodes S (fs_next S)) = None \<and> nd_variant_dirs (fs_nodes S (fs_next S)) = [] \<and>
      nd_repositories (fs_nodes S (fs_next S)) = []"
    using loneD [OF assms(1), of "fs_next S"] by simp
  have fields: "nd_srcdir (fs_nodes ?S n) = nd_srcdir (fs_nodes S n) \<and>
     nd_variant_dirs (fs_nodes ?S n) = nd_variant_dirs (fs_nodes S n) \<and>
     nd_repositories (fs_nodes ?S n) = nd_repositories (fs_nodes S n)" for n
    by (cases "n = fs_next S"; cases "n = d") (use f new dn in \<open>auto simp: base_init_def\<close>)
  have "fs_next S \<le> n \<or> nd_class (fs_nodes S n) \<noteq> DirK"
    if "fs_next ?S \<le> n \<or> nd_class (fs_nodes ?S n) \<noteq> DirK" for n
    using that f(1) enter_entry_same(3) [OF dn, of n p c] by (cases "n = fs_next S") auto
  then have "lone ?S" unfolding lone_def using loneD [OF assms(1)] fields by metis
  then show ?thesis using fields by (simp add: same_links_def)
qed

lemma same_links_refl [simp]: "same_links S S" by (simp add: same_links_def)

lemma same_links_trans: "same_links S1 S2 \<Longrightarrow> same_links S2 S3 \<Longrightarrow> same_links S1 S3"
  by (simp add: same_links_def)

lemma steps_links:
  assumes "tree_steps P S S'" and "lone S"
  shows "lone S' \<and> same_links S S'"
proof (rule tree_steps_induct [OF assms(1), where Q = "\<lambda>S'. lone S' \<and> same_links S S'"])
  show "lone S2 \<and> same_links S S2" if "tree_step P S1 S2" "lone S1 \<and> same_links S S1" for S1 S2
    using that(1)
  proof cases
    case (becomes n k)
    then show ?thesis
      using become_lone [of S1 n k] become_links [of S1 n k] that(2) same_links_trans [of S S1] by auto
  next
    case (enters d c p)
    then show ?thesis using enter_links [of S1 d p c] that(2) same_links_trans [of S S1] by auto
  qed
qed (use assms(2) in simp)

lemma steps_ok:
  assumes "tree_steps P S S'" and "tree_ok S"
  shows "tree_ok S' \<and> grown S S'"
proof (rule tree_steps_induct [OF assms(1), where Q = "\<lambda>S'. tree_ok S' \<and> grown S S'"])
  show "tree_ok S2 \<and> grown S S2" if "tree_step P S1 S2" "tree_ok S1 \<and> grown S S1" for S1 S2
    using tree_step_ok [OF that(1)] that(2) grown_trans [of S S1 S2] by auto
qed (use assms(2) in simp)

section \<open>Names that read as names\<close>

text \<open>A name with a hash sign at its front or a newline in it does not name an entry of a directory.\<close>

definition tidy :: "string \<Rightarrow> bool" where
  "tidy c \<longleftrightarrow> newline \<notin> set c \<and> take 1 c \<noteq> ''#''"

definition tidy_names :: "fsys \<Rightarrow> bool" where
  "tidy_names S \<longleftrightarrow> (\<forall>n<fs_next S. tidy (nd_name (fs_nodes S n)))"

lemma steps_tidy:
  assumes "tree_steps tidy S S'" and "tidy_names S"
  shows "tidy_names S'"
proof (rule tree_steps_induct [OF assms(1), where Q = tidy_names])
  show "tidy_names S2" if "tree_step tidy S1 S2" "tidy_names S1" for S1 S2
    using that(1)
  proof cases
    case (becomes n k)
    then show ?thesis using that(2) by (simp add: tidy_names_def become_nodes(1) become_fields)
  next
    case (enters d c p)
    then have dn: "d \<noteq> fs_next S1" by simp
    have "tidy (nd_name (fs_nodes S2 n))" if "n < Suc (fs_next S1)" for n
      using \<open>tidy_names S1\<close> enters enter_entry_fields(5) [OF dn, of p c] enter_entry_same(1) [OF dn, of n p c] that
      by (cases "n = fs_next S1") (auto simp: tidy_names_def base_init_def)
    then show ?thesis using enters enter_entry_fields(1) [OF dn] by (simp add: tidy_names_def)
  qed
qed (rule assms(2))

lemma comps_tidy:
  assumes "tree_ok S" and "tidy_names S" and "n < fs_next S"
  shows "\<forall>c\<in>set (comps S n). tidy c"
  using assms(3)
proof (induction n rule: less_induct)
  case (less n)
  show ?case
  proof (cases "n = root_id")
    case False
    then show ?thesis
      using comps_step [OF assms(1) less.prems False] less.IH tree_ok_parent(1,2) [OF assms(1) less.prems False]
        assms(2) less.prems by (auto simp: tidy_names_def)
  qed simp
qed

end
