(* ===== verification/LinkProps.thy ===== *)
theory LinkProps
  imports LinkInv
begin

text \<open>
  Properties of variant directories: the links stay consistent, the memo of the source directories is
  never stale, the targets in variant directories lead back to their source, and two variant
  directories that are each other's source make the search endless.
\<close>

section \<open>Above and below\<close>

lemma chain_elems: "tree_ok S \<Longrightarrow> n < fs_next S \<Longrightarrow> chain S n = rev (elems_of S n)"
proof (induction n rule: less_induct)
  case (less n)
  show ?case
  proof (cases "n = root_id")
    case True
    then show ?thesis by (subst chain.simps) simp
  next
    case False
    note p = tree_ok_parent [OF less.prems False]
    then have "chain S n = n # chain S (nd_dir (fs_nodes S n))" using False by (subst chain.simps) simp
    then show ?thesis using less.IH [OF p(1) less.prems(1) p(2)] elems_of_step [OF less.prems False] by simp
  qed
qed

lemma is_under_elems: "tree_ok S \<Longrightarrow> n < fs_next S \<Longrightarrow> is_under S n d \<longleftrightarrow> d \<in> set (elems_of S n)"
proof (induction n rule: less_induct)
  case (less n)
  show ?case
  proof (cases "n = root_id")
    case True
    then show ?thesis by (subst is_under.simps) auto
  next
    case False
    note p = tree_ok_parent [OF less.prems False]
    then have "is_under S n d \<longleftrightarrow> n = d \<or> is_under S (nd_dir (fs_nodes S n)) d"
      using False by (subst is_under.simps) simp
    then show ?thesis using less.IH [OF p(1) less.prems(1) p(2)] elems_of_step [OF less.prems False] by auto
  qed
qed

lemma grown_elems: "grown S S' \<Longrightarrow> n < fs_next S \<Longrightarrow> elems_of S' n = elems_of S n"
  using comps_cong [of n S' S] by (simp add: grown_def)

lemma in_own_elems: "tree_ok S \<Longrightarrow> n < fs_next S \<Longrightarrow> n \<in> set (elems_of S n)"
  using elems_of_last [of S n] elems_of_root_in [of S n] last_in_set [of "elems_of S n"] by force

section \<open>Clearing\<close>

lemma kids_in:
  assumes "tree_ok S" and "n < fs_next S" and "n \<noteq> root_id"
  shows "n \<in> set (kids S (nd_dir (fs_nodes S n)))"
  using tree_ok_parent [OF assms] assms(2) by (simp add: kids_def)

lemma cleared_self: "nd_dir (fs_nodes S d) \<noteq> d \<Longrightarrow> d \<in> set (cleared_nodes S d)"
  by (subst cleared_nodes.simps) simp

lemma cleared_kid:
  assumes "p \<in> set (cleared_nodes S d)" and "nd_class (fs_nodes S p) = DirK" and "n \<in> set (kids S p)"
  shows "n \<in> set (cleared_nodes S d)"
  using assms
proof (induction S d rule: cleared_nodes.induct)
  case (1 S d)
  have n: "nd_dir (fs_nodes S n) \<noteq> n" using kids_later [OF 1(4)] 1(4) by (auto simp: kids_def)
  consider "p = d" | k where "k \<in> set (kids S d)" "nd_class (fs_nodes S k) = DirK" "p \<in> set (cleared_nodes S k)"
    using 1(2,3) by (subst (asm) cleared_nodes.simps) (auto split: if_splits)
  then show ?case
  proof cases
    case 1
    then have "n \<in> set (kids S d)" using \<open>n \<in> set (kids S p)\<close> by simp
    then show ?thesis using cleared_self [OF n] by (subst cleared_nodes.simps) auto
  next
    case 2
    then have "n \<in> set (cleared_nodes S k)" using "1.IH" 1(3,4) by blast
    then show ?thesis using 2(1,2) by (subst cleared_nodes.simps) auto
  qed
qed

lemma cleared_below:
  assumes t: "tree_ok S" and d: "d < fs_next S" "d \<noteq> root_id" "n < fs_next S" "d \<in> set (elems_of S n)"
  shows "n \<in> set (cleared_nodes S d)"
  using d(3,4)
proof (induction n rule: less_induct)
  case (less n)
  show ?case
  proof (cases "n = d")
    case True
    then show ?thesis using tree_ok_parent(1) [OF t d(1,2)] cleared_self [of S d] by simp
  next
    case False
    have nr: "n \<noteq> root_id" using less.prems(2) d(2) by auto
    note p = tree_ok_parent [OF t less.prems(1) nr]
    have "d \<in> set (elems_of S (nd_dir (fs_nodes S n)))"
      using less.prems(2) False elems_of_step [OF t less.prems(1) nr] by simp
    from cleared_kid [OF less.IH [OF p(1,2) this] p(3) kids_in [OF t less.prems(1) nr]] show ?thesis .
  qed
qed

text \<open>Changes that touch neither places, names nor classes.\<close>

definition same_tree :: "fsys \<Rightarrow> fsys \<Rightarrow> bool" where
  "same_tree S S' \<longleftrightarrow> fs_next S' = fs_next S \<and> fs_lookupDict S' = fs_lookupDict S \<and>
     fs_top S' = fs_top S \<and> fs_cwd S' = fs_cwd S \<and>
     (\<forall>n. nd_name (fs_nodes S' n) = nd_name (fs_nodes S n) \<and> nd_dir (fs_nodes S' n) = nd_dir (fs_nodes S n) \<and>
        nd_class (fs_nodes S' n) = nd_class (fs_nodes S n) \<and> nd_entries (fs_nodes S' n) = nd_entries (fs_nodes S n) \<and>
        nd_abspath (fs_nodes S' n) = nd_abspath (fs_nodes S n) \<and> nd_labspath (fs_nodes S' n) = nd_labspath (fs_nodes S n) \<and>
        nd_elems (fs_nodes S' n) = nd_elems (fs_nodes S n) \<and> nd_dirname (fs_nodes S' n) = nd_dirname (fs_nodes S n) \<and>
        nd_path (fs_nodes S' n) = nd_path (fs_nodes S n))"

lemma same_tree_refl [simp]: "same_tree S S" by (simp add: same_tree_def)

lemma same_tree_trans: "same_tree S1 S2 \<Longrightarrow> same_tree S2 S3 \<Longrightarrow> same_tree S1 S3"
  unfolding same_tree_def by simp

lemma same_tree_comps: "same_tree S S' \<Longrightarrow> comps S' n = comps S n \<and> elems_of S' n = elems_of S n"
  by (rule comps_cong) (simp add: same_tree_def)

lemma same_tree_chain: "same_tree S S' \<Longrightarrow> chain S' n = chain S n"
proof (induction n rule: less_induct)
  case (less n)
  then have d: "nd_dir (fs_nodes S' n) = nd_dir (fs_nodes S n)" by (simp add: same_tree_def)
  show ?case
  proof (cases "n = root_id \<or> n \<le> nd_dir (fs_nodes S n)")
    case True
    then show ?thesis using d by (subst (1 2) chain.simps) simp
  next
    case False
    then show ?thesis using d less.IH [OF _ less.prems] by (subst (1 2) chain.simps) simp
  qed
qed

lemma same_tree_ok:
  assumes "same_tree S S'" and "tree_ok S"
  shows "tree_ok S'" and "grown S S'"
proof -
  note c = same_tree_comps [OF assms(1)]
  have "node_ok S' n \<longleftrightarrow> node_ok S n" for n
    using assms(1) c by (simp add: node_ok_def same_tree_def Let_def)
  then show "tree_ok S'" using assms c unfolding tree_ok_def same_tree_def by simp
  show "grown S S'" using assms(1) unfolding grown_def same_tree_def by simp
qed

lemma upd_same_tree:
  assumes "\<And>x. f x = x\<lparr>nd_dup := nd_dup (f x), nd_srcdir := nd_srcdir (f x), nd_variant_dirs := nd_variant_dirs (f x),
      nd_repositories := nd_repositories (f x), nd_tpath := nd_tpath (f x)\<rparr>"
  shows "same_tree S (upd n f S)"
proof -
  have "nd_name (f x) = nd_name x \<and> nd_dir (f x) = nd_dir x \<and> nd_class (f x) = nd_class x \<and> nd_entries (f x) = nd_entries x \<and>
      nd_abspath (f x) = nd_abspath x \<and> nd_labspath (f x) = nd_labspath x \<and> nd_elems (f x) = nd_elems x \<and>
      nd_dirname (f x) = nd_dirname x \<and> nd_path (f x) = nd_path x" for x
    by (subst assms, simp)+
  then show ?thesis by (simp add: same_tree_def upd_def)
qed

lemma clear_node_tree:
  "same_tree (lk_fs L) (lk_fs (clear_node dup n L)) \<and> same_links (lk_fs L) (lk_fs (clear_node dup n L))"
  by (cases dup) (auto simp: clear_node_def upd_def same_tree_def same_links_def)

lemma clear_fold:
  "same_tree (lk_fs L) (lk_fs (fold (clear_node dup) ns L)) \<and> same_links (lk_fs L) (lk_fs (fold (clear_node dup) ns L)) \<and>
   lk_srcdirs (fold (clear_node dup) ns L) = (\<lambda>n. if n \<in> set ns then None else lk_srcdirs L n)"
proof (induction ns arbitrary: L)
  case (Cons n ns)
  show ?case
    using Cons.IH [of "clear_node dup n L"] clear_node_tree [of L dup n] same_tree_trans same_links_trans
    by (auto simp: clear_node_def fun_eq_iff)
qed auto

section \<open>The invariant\<close>

definition links_ok :: "fsys \<Rightarrow> bool" where
  "links_ok S \<longleftrightarrow> lone S \<and>
     (\<forall>d s. nd_srcdir (fs_nodes S d) = Some s \<longrightarrow> s < fs_next S \<and> nd_class (fs_nodes S s) = DirK \<and>
        d \<in> set (nd_variant_dirs (fs_nodes S s)) \<and> d \<notin> set (elems_of S s)) \<and>
     (\<forall>s. distinct (nd_variant_dirs (fs_nodes S s))) \<and>
     (\<forall>s d. d \<in> set (nd_variant_dirs (fs_nodes S s)) \<longrightarrow> d < fs_next S \<and> nd_srcdir (fs_nodes S d) = Some s)"

lemma links_okD:
  assumes "links_ok S"
  shows "lone S" "nd_srcdir (fs_nodes S d) = Some s \<Longrightarrow> s < fs_next S"
    "nd_srcdir (fs_nodes S d) = Some s \<Longrightarrow> nd_class (fs_nodes S s) = DirK"
    "nd_srcdir (fs_nodes S d) = Some s \<Longrightarrow> d \<in> set (nd_variant_dirs (fs_nodes S s))"
    "nd_srcdir (fs_nodes S d) = Some s \<Longrightarrow> d \<notin> set (elems_of S s)"
    "distinct (nd_variant_dirs (fs_nodes S s))"
    "d \<in> set (nd_variant_dirs (fs_nodes S s)) \<Longrightarrow> d < fs_next S \<and> nd_srcdir (fs_nodes S d) = Some s"
  using assms unfolding links_ok_def by blast+

text \<open>
  The directories \<open>srcdir_list\<close> should give, by their components: for each directory above, itself
  included, that has a source, the same place below the source.
\<close>

definition srcs_from :: "fsys \<Rightarrow> fsid \<Rightarrow> string list \<Rightarrow> string list list" where
  "srcs_from S a cs = concat (map (\<lambda>b. case nd_srcdir (fs_nodes S b) of None \<Rightarrow> []
     | Some s \<Rightarrow> [comps S s @ drop (length (comps S b)) cs]) (chain S a))"

definition srcs_spec :: "fsys \<Rightarrow> fsid \<Rightarrow> string list list" where
  "srcs_spec S d = srcs_from S d (comps S d)"

definition dirs_at :: "fsys \<Rightarrow> fsid list \<Rightarrow> string list list \<Rightarrow> bool" where
  "dirs_at S rs css \<longleftrightarrow> map (comps S) rs = css \<and> (\<forall>m\<in>set rs. m < fs_next S \<and> nd_class (fs_nodes S m) = DirK)"

definition srcs_current :: "linked \<Rightarrow> bool" where
  "srcs_current L \<longleftrightarrow> (\<forall>d r. lk_srcdirs L d = Some r \<longrightarrow>
     d < fs_next (lk_fs L) \<and> dirs_at (lk_fs L) r (srcs_spec (lk_fs L) d))"

definition vd_ok :: "linked \<Rightarrow> bool" where
  "vd_ok L \<longleftrightarrow> tree_ok (lk_fs L) \<and> tidy_names (lk_fs L) \<and> links_ok (lk_fs L) \<and> srcs_current L"

lemma vd_okD:
  assumes "vd_ok L"
  shows "tree_ok (lk_fs L)" "tidy_names (lk_fs L)" "links_ok (lk_fs L)" "srcs_current L"
  using assms by (simp_all add: vd_ok_def)

lemma vd_ok_src:
  assumes "vd_ok L" and "lk_srcdirs L d = Some r"
  shows "d < fs_next (lk_fs L)" and "dirs_at (lk_fs L) r (srcs_spec (lk_fs L) d)"
  using vd_okD(4) [OF assms(1)] assms(2) unfolding srcs_current_def by blast+

lemma dirs_at_grown:
  assumes "grown S S'" and "dirs_at S rs css"
  shows "dirs_at S' rs css"
proof -
  have "comps S' m = comps S m \<and> m < fs_next S' \<and> nd_class (fs_nodes S' m) = DirK" if "m \<in> set rs" for m
  proof -
    have m: "m < fs_next S" "nd_class (fs_nodes S m) = DirK" using assms(2) that by (auto simp: dirs_at_def)
    then show ?thesis using assms(1) grown_comps [OF assms(1) m(1)] grown_less [OF assms(1) m(1)]
      by (auto simp: grown_def)
  qed
  then show ?thesis using assms(2) by (auto simp: dirs_at_def)
qed

lemma srcs_from_grown:
  assumes "tree_ok S" and "tree_ok S'" and "grown S S'" and "same_links S S'" and "links_ok S" and "d < fs_next S"
  shows "srcs_from S' d cs = srcs_from S d cs"
proof -
  have ch: "chain S' d = chain S d"
    using chain_elems [OF assms(1,6)] chain_elems [OF assms(2) grown_less [OF assms(3,6)]] grown_elems [OF assms(3,6)] by simp
  have "(case nd_srcdir (fs_nodes S' a) of None \<Rightarrow> [] | Some s \<Rightarrow> [comps S' s @ drop (length (comps S' a)) cs]) =
      (case nd_srcdir (fs_nodes S a) of None \<Rightarrow> [] | Some s \<Rightarrow> [comps S s @ drop (length (comps S a)) cs])"
    if "a \<in> set (chain S d)" for a
  proof -
    have "a < fs_next S" using that chain_elems [OF assms(1,6)] elems_of_le [OF assms(1,6)] by simp
    then show ?thesis
      using assms(4) links_okD(2) [OF assms(5), of a] grown_comps [OF assms(3)] assms(6)
      by (auto simp: same_links_def split: option.split)
  qed
  then show ?thesis unfolding srcs_from_def ch by (simp cong: map_cong)
qed

lemma srcs_spec_grown:
  assumes "tree_ok S" and "tree_ok S'" and "grown S S'" and "same_links S S'" and "links_ok S" and "d < fs_next S"
  shows "srcs_spec S' d = srcs_spec S d"
  using srcs_from_grown [OF assms] grown_comps [OF assms(3,6)] by (simp add: srcs_spec_def)

lemma links_ok_steps:
  assumes "tree_ok S" and "links_ok S" and "tree_steps P S S'"
  shows "links_ok S' \<and> same_links S S'"
proof -
  have g: "tree_ok S'" "grown S S'" using steps_ok [OF assms(3,1)] by auto
  have l: "lone S'" "same_links S S'" using steps_links [OF assms(3) links_okD(1) [OF assms(2)]] by auto
  have sd: "nd_srcdir (fs_nodes S' d) = nd_srcdir (fs_nodes S d)" and
    vd: "nd_variant_dirs (fs_nodes S' d) = nd_variant_dirs (fs_nodes S d)" for d
    using l(2) by (simp_all add: same_links_def)
  have "s < fs_next S' \<and> nd_class (fs_nodes S' s) = DirK \<and> d \<notin> set (elems_of S' s)"
    if "nd_srcdir (fs_nodes S d) = Some s" for d s
  proof -
    note k = links_okD(2-5) [OF assms(2) that]
    show ?thesis using k g(2) grown_less [OF g(2) k(1)] grown_elems [OF g(2) k(1)] by (auto simp: grown_def)
  qed
  then show ?thesis
    using l links_okD(4,6,7) [OF assms(2)] grown_less [OF g(2)] unfolding links_ok_def sd vd by blast
qed

text \<open>An operation that only looks nodes up keeps the invariant.\<close>

definition looks :: "linked \<Rightarrow> linked \<Rightarrow> bool" where
  "looks L L' \<longleftrightarrow> tree_steps tidy (lk_fs L) (lk_fs L') \<and> L' = L\<lparr>lk_fs := lk_fs L'\<rparr>"

lemma looks_refl [simp]: "looks L L" by (simp add: looks_def)

lemma looks_trans: "looks L1 L2 \<Longrightarrow> looks L2 L3 \<Longrightarrow> looks L1 L3"
  unfolding looks_def by (metis tree_steps_trans linked.update_convs(1) linked.surjective linked.ext_inject)

lemma vd_ok_steps:
  assumes "vd_ok L" and "tree_steps tidy (lk_fs L) (lk_fs L')" and "lk_srcdirs L' = lk_srcdirs L"
  shows "vd_ok L'" and "grown (lk_fs L) (lk_fs L')" and "same_links (lk_fs L) (lk_fs L')"
proof -
  note v = vd_okD [OF assms(1)]
  have g: "tree_ok (lk_fs L')" "grown (lk_fs L) (lk_fs L')" using steps_ok [OF assms(2) v(1)] by auto
  have l: "links_ok (lk_fs L')" "same_links (lk_fs L) (lk_fs L')" using links_ok_steps [OF v(1,3) assms(2)] by auto
  have "srcs_current L'"
    unfolding srcs_current_def assms(3)
    using vd_ok_src [OF assms(1)] dirs_at_grown [OF g(2)] grown_less [OF g(2)]
      srcs_spec_grown [OF v(1) g(1,2) l(2) v(3)] by fastforce
  then show "vd_ok L'" using g l steps_tidy [OF assms(2) v(2)] by (simp add: vd_ok_def)
  show "grown (lk_fs L) (lk_fs L')" "same_links (lk_fs L) (lk_fs L')" by (rule g(2), rule l(2))
qed

lemma looks_ok:
  assumes "vd_ok L" and "looks L L'"
  shows "vd_ok L'" and "grown (lk_fs L) (lk_fs L')" and "same_links (lk_fs L) (lk_fs L')" and "lk_srcdirs L' = lk_srcdirs L"
proof -
  show s: "lk_srcdirs L' = lk_srcdirs L" using assms(2) unfolding looks_def
    by (metis linked.select_convs(3) linked.surjective linked.update_convs(1))
  show "vd_ok L'" "grown (lk_fs L) (lk_fs L')" "same_links (lk_fs L) (lk_fs L')"
    using vd_ok_steps [OF assms(1) _ s] assms(2) by (simp_all add: looks_def)
qed

section \<open>Looking up the source directories\<close>

lemma in_lookup:
  assumes v: "vd_ok L" and nl: "newline \<notin> set p" and d: "\<forall>d\<in>set_option dir. d < fs_next (lk_fs L)"
    and td: "\<forall>c\<in>set (lookup_comps (lk_fs L) dir p). tidy c" and eq: "in_fs (lookup E p dir k True) L = (r, L')"
  shows "looks L L'"
    and "r = Inr n \<Longrightarrow> n < fs_next (lk_fs L') \<and> comps (lk_fs L') n = lookup_comps (lk_fs L) dir p \<and>
      (nd_class (fs_nodes (lk_fs L') n) = k \<or> k = EntryK)"
proof -
  obtain S' where l: "lookup E p dir k True (lk_fs L) = (r, S')" "L' = L\<lparr>lk_fs := S'\<rparr>"
    using eq by (auto simp: in_fs_def split: prod.splits)
  show "looks L L'" using lookup_steps [OF vd_okD(1) [OF v] nl d td l(1)] l(2) by (simp add: looks_def)
  show "r = Inr n \<Longrightarrow> n < fs_next (lk_fs L') \<and> comps (lk_fs L') n = lookup_comps (lk_fs L) dir p \<and>
      (nd_class (fs_nodes (lk_fs L') n) = k \<or> k = EntryK)"
    using lookup_ok [OF vd_okD(1) [OF v] nl d l(1)] l(2) by (simp add: found_at_def)
qed

lemma in_must_be_same:
  assumes n: "n < fs_next (lk_fs L)" and eq: "in_fs (must_be_same k n) L = (r, L')"
  shows "looks L L'"
proof -
  obtain S' where l: "must_be_same k n (lk_fs L) = (r, S')" "L' = L\<lparr>lk_fs := S'\<rparr>"
    using eq by (auto simp: in_fs_def split: prod.splits)
  show "looks L L'" using must_be_same_steps [OF n l(1)] l(2) by (simp add: looks_def)
qed

lemma fs_class_lookup:
  "fs_Dir E p dir c = lookup E p dir DirK c" "fs_Entry E p dir c = lookup E p dir EntryK c" "fs_File E p dir c = lookup E p dir FileK c"
  by (simp_all add: fs_Dir_def fs_Entry_def fs_File_def fun_eq_iff)

text \<open>The relative paths \<open>srcdir_list\<close> makes, and a single name.\<close>

definition dots :: "string list \<Rightarrow> string" where
  "dots cs = concat (map (\<lambda>c. c @ ''/'') cs) @ ''.''"

lemma dots_simps [simp]: "dots [] = ''.''" "dots (c # cs) = c @ ''/'' @ dots cs"
  by (simp_all add: dots_def)

definition good_names :: "string list \<Rightarrow> bool" where
  "good_names cs \<longleftrightarrow> (\<forall>c\<in>set cs. proper_name c \<and> tidy c)"

lemma good_names_simps [simp]:
  "good_names []" "good_names (c # cs) \<longleftrightarrow> proper_name c \<and> tidy c \<and> good_names cs"
  "good_names (cs @ ds) \<longleftrightarrow> good_names cs \<and> good_names ds"
  by (auto simp: good_names_def)

lemma split_dots: "good_names cs \<Longrightarrow> split_on sep (dots cs) = cs @ [''.'']"
proof (induction cs)
  case Nil
  then show ?case by (simp add: sep_def)
next
  case (Cons c cs)
  then have "sep \<notin> set c" by (simp add: proper_name_def)
  then show ?case using Cons split_on_append_sep [of sep c "dots cs"] by (simp add: sep_def)
qed

lemma good_head:
  assumes "proper_name c" and "tidy c"
  shows "take 1 (c @ w) \<noteq> ''#''" and "take 1 (c @ w) \<noteq> ''/''" and "newline \<notin> set c"
  using assms by (cases c; auto simp: proper_name_def tidy_def sep_def)+

lemma dots_chars:
  assumes "good_names cs"
  shows "take 1 (dots cs) \<noteq> ''#''" and "take 1 (dots cs) \<noteq> ''/''" and "newline \<notin> set (dots cs)"
proof -
  show "take 1 (dots cs) \<noteq> ''#''" "take 1 (dots cs) \<noteq> ''/''" using assms good_head by (cases cs; simp)+
  show "newline \<notin> set (dots cs)" using assms by (induction cs) (auto simp: tidy_def newline_def)
qed

lemma dots_comps:
  assumes "good_names cs"
  shows "lookup_comps S (Some d) (dots cs) = comps S d @ cs"
proof -
  have "norm_outs (comps S d) (split_on sep (dots cs)) = comps S d @ cs"
    using norm_outs_proper [of cs "comps S d"] assms
    unfolding split_dots [OF assms] norm_outs_append by (simp add: good_names_def)
  then show ?thesis using dots_chars [OF assms] by (auto simp: lookup_comps_def)
qed

lemma name_comps:
  assumes "proper_name c" and "tidy c"
  shows "lookup_comps S (Some d) c = comps S d @ [c]"
proof -
  have "split_on sep c = [c]" using assms(1) by (intro split_on_free) (simp add: proper_name_def)
  then show ?thesis using good_head(1,2) [OF assms, of "[]"] norm_outs_proper [of "[c]" "comps S d"] assms(1)
    by (auto simp: lookup_comps_def)
qed

lemma comps_good: "vd_ok L \<Longrightarrow> n < fs_next (lk_fs L) \<Longrightarrow> good_names (comps (lk_fs L) n)"
  using comps_proper comps_tidy vd_okD(1,2) unfolding good_names_def by blast

lemma name_good:
  assumes "vd_ok L" and "n < fs_next (lk_fs L)" and "n \<noteq> root_id"
  shows "proper_name (nd_name (node_of L n)) \<and> tidy (nd_name (node_of L n))"
  using tree_ok_parent(4) [OF vd_okD(1) [OF assms(1)] assms(2,3)] vd_okD(2) [OF assms(1)] assms(2)
  by (simp add: tidy_names_def)

lemma srcs_from_step:
  assumes "tree_ok S" and "a < fs_next S" and "a \<noteq> root_id"
  shows "srcs_from S a cs = (case nd_srcdir (fs_nodes S a) of None \<Rightarrow> []
     | Some s \<Rightarrow> [comps S s @ drop (length (comps S a)) cs]) @ srcs_from S (nd_dir (fs_nodes S a)) cs"
  using tree_ok_parent(1) [OF assms] assms(3) unfolding srcs_from_def by (subst chain.simps) auto

lemma dir_Dir_dots:
  assumes v: "vd_ok L" and d: "d < fs_next (lk_fs L)" and cs: "good_names cs" and eq: "dir_Dir d (dots cs) L = (r, L')"
  shows "looks L L'" and "r = Inr n \<Longrightarrow> dirs_at (lk_fs L') [n] [comps (lk_fs L) d @ cs]"
proof -
  have c: "lookup_comps (lk_fs L) (Some d) (dots cs) = comps (lk_fs L) d @ cs" by (rule dots_comps [OF cs])
  have td: "\<forall>c\<in>set (lookup_comps (lk_fs L) (Some d) (dots cs)). tidy c"
    unfolding c using comps_good [OF v d] cs by (auto simp: good_names_def)
  note k = in_lookup [OF v dots_chars(3) [OF cs] _ td eq [unfolded dir_Dir_def fs_Dir_def]]
  show "looks L L'" by (rule k(1)) (use d in simp)
  show "r = Inr n \<Longrightarrow> dirs_at (lk_fs L') [n] [comps (lk_fs L) d @ cs]"
    using k(2) [of n] d c by (simp add: dirs_at_def)
qed

lemma dirs_at_append: "dirs_at S rs css \<Longrightarrow> dirs_at S ss dss \<Longrightarrow> dirs_at S (rs @ ss) (css @ dss)"
  by (auto simp: dirs_at_def)

lemma srcdirs_loop_ok:
  assumes "vd_ok L" and "a < fs_next (lk_fs L)" and "good_names cs"
    and "srcdirs_loop (dots cs) (chain (lk_fs L) a) L = (r, L')"
  shows "looks L L' \<and> (\<forall>rs. r = Inr rs \<longrightarrow> dirs_at (lk_fs L') rs (srcs_from (lk_fs L) a (comps (lk_fs L) a @ cs)))"
  using assms
proof (induction a arbitrary: L cs r L' rule: less_induct)
  case (less a)
  let ?S = "lk_fs L"
  let ?m = "case nd_srcdir (fs_nodes ?S a) of None \<Rightarrow> (Inr [], L)
      | Some s \<Rightarrow> then_do (dir_Dir s (dots cs) L) (\<lambda>m L1. (Inr [m], L1))"
  let ?here = "case nd_srcdir (fs_nodes ?S a) of None \<Rightarrow> [] | Some s \<Rightarrow> [comps ?S s @ cs]"
  obtain r1 L1 where m: "?m = (r1, L1)" by fastforce
  have one: "looks L L1 \<and> (\<forall>rs. r1 = Inr rs \<longrightarrow> dirs_at (lk_fs L1) rs ?here)"
  proof (cases "nd_srcdir (fs_nodes ?S a)")
    case None
    then show ?thesis using m by (auto simp: dirs_at_def)
  next
    case (Some s)
    obtain r2 L2 where d: "dir_Dir s (dots cs) L = (r2, L2)" by fastforce
    note k = dir_Dir_dots [OF less.prems(1) links_okD(2) [OF vd_okD(3) [OF less.prems(1)] Some] less.prems(3) d]
    have "L1 = L2" "r1 = (case r2 of Inl e \<Rightarrow> Inl e | Inr n \<Rightarrow> Inr [n])"
      using m d Some by (auto simp: then_do_def split: sum.splits)
    then show ?thesis using k Some by (auto split: sum.splits)
  qed
  note o = looks_ok [OF less.prems(1) conjunct1 [OF one]]
  define rest where "rest = (if a = root_id then [] else chain ?S (nd_dir (fs_nodes ?S a)))"
  have ch: "chain ?S a = a # rest"
    using tree_ok_parent(1) [OF vd_okD(1) [OF less.prems(1)] less.prems(2)] by (subst chain.simps) (auto simp: rest_def)
  have sf: "srcs_from ?S a (comps ?S a @ cs) = ?here @
      (if a = root_id then [] else srcs_from ?S (nd_dir (fs_nodes ?S a)) (comps ?S a @ cs))"
  proof (cases "a = root_id")
    case True
    then show ?thesis using ch by (simp add: srcs_from_def rest_def split: option.split)
  next
    case False
    then show ?thesis using srcs_from_step [OF vd_okD(1) [OF less.prems(1)] less.prems(2) False] by (simp split: option.split)
  qed
  show ?case
  proof (cases r1)
    case (Inl e)
    then have "L' = L1 \<and> r = Inl e" using less.prems(4) m unfolding ch by simp
    then show ?thesis using one by simp
  next
    case (Inr rs1)
    let ?name = "nd_name (fs_nodes (lk_fs L1) a)"
    obtain r2 L2 where l2: "srcdirs_loop (?name @ ''/'' @ dots cs) rest L1 = (r2, L2)" by fastforce
    have r: "L' = L2" "r = (case r2 of Inl e \<Rightarrow> Inl e | Inr qs \<Rightarrow> Inr (rs1 @ qs))"
      using less.prems(4) m Inr l2 unfolding ch by (auto simp: then_do_def split: sum.splits)
    have name: "?name = nd_name (fs_nodes ?S a)" using o(2) less.prems(2) by (simp add: grown_def)
    show ?thesis
    proof (cases "a = root_id")
      case True
      then have "L2 = L1 \<and> r2 = Inr []" using l2 by (simp add: rest_def)
      then show ?thesis using r one Inr sf True by auto
    next
      case False
      let ?p = "nd_dir (fs_nodes ?S a)"
      note p = tree_ok_parent [OF vd_okD(1) [OF less.prems(1)] less.prems(2) False]
      have pn: "?p < fs_next (lk_fs L1)" using grown_less [OF o(2) p(2)] .
      have rest1: "rest = chain (lk_fs L1) ?p"
        using False chain_elems [OF vd_okD(1) [OF less.prems(1)] p(2)] chain_elems [OF vd_okD(1) [OF o(1)] pn]
          grown_elems [OF o(2) p(2)] by (simp add: rest_def)
      have gn: "good_names (?name # cs)" unfolding name using name_good [OF less.prems(1,2) False] less.prems(3) by simp
      have "srcdirs_loop (dots (?name # cs)) (chain (lk_fs L1) ?p) L1 = (r2, L2)" using l2 rest1 by simp
      note ih = less.IH [OF p(1) o(1) pn gn this]
      have cc: "comps (lk_fs L1) ?p @ ?name # cs = comps ?S a @ cs"
        unfolding name grown_comps [OF o(2) p(2)] comps_step [OF vd_okD(1) [OF less.prems(1)] less.prems(2) False] by simp
      have sfp: "srcs_from (lk_fs L1) ?p (comps ?S a @ cs) = srcs_from ?S ?p (comps ?S a @ cs)"
        by (rule srcs_from_grown [OF vd_okD(1) [OF less.prems(1)] vd_okD(1) [OF o(1)] o(2,3) vd_okD(3) [OF less.prems(1)] p(2)])
      have g2: "grown (lk_fs L1) (lk_fs L2)" using looks_ok(2) [OF o(1)] ih by blast
      have "dirs_at (lk_fs L2) (rs1 @ qs) (srcs_from ?S a (comps ?S a @ cs))" if "r2 = Inr qs" for qs
        using dirs_at_append [OF dirs_at_grown [OF g2]] one Inr ih that False unfolding sf cc sfp by auto
      then show ?thesis using r ih one looks_trans by (auto split: sum.splits)
    qed
  qed
qed

lemma srcdir_list_ok:
  assumes "vd_ok L" and "d < fs_next (lk_fs L)" and "srcdir_list d L = (r, L')"
  shows "vd_ok L' \<and> tree_steps tidy (lk_fs L) (lk_fs L') \<and>
    (\<forall>rs. r = Inr rs \<longrightarrow> dirs_at (lk_fs L') rs (srcs_spec (lk_fs L) d))"
proof (cases "lk_srcdirs L d")
  case (Some rs)
  then show ?thesis using assms(1,3) vd_ok_src(2) [OF assms(1) Some] by (auto simp: srcdir_list_def)
next
  case None
  obtain r1 L1 where l: "srcdirs_loop (dots []) (chain (lk_fs L) d) L = (r1, L1)" by fastforce
  have k: "looks L L1" "\<And>rs. r1 = Inr rs \<Longrightarrow> dirs_at (lk_fs L1) rs (srcs_spec (lk_fs L) d)"
    using srcdirs_loop_ok [OF assms(1,2) _ l] by (auto simp: srcs_spec_def)
  note o = looks_ok [OF assms(1) k(1)]
  show ?thesis
  proof (cases r1)
    case (Inl e)
    then show ?thesis using assms(3) None l o(1) k(1) by (auto simp: srcdir_list_def looks_def)
  next
    case (Inr rs)
    then have e: "r = Inr rs" "L' = L1\<lparr>lk_srcdirs := (lk_srcdirs L1)(d \<mapsto> rs)\<rparr>"
      using assms(3) None l by (auto simp: srcdir_list_def)
    have "dirs_at (lk_fs L1) rs (srcs_spec (lk_fs L1) d)"
      using k(2) [OF Inr] srcs_spec_grown [OF vd_okD(1) [OF assms(1)] vd_okD(1) [OF o(1)] o(2,3) vd_okD(3) [OF assms(1)] assms(2)]
      by simp
    then have "srcs_current L'"
      using vd_okD(4) [OF o(1)] grown_less [OF o(2) assms(2)] unfolding e(2) srcs_current_def by simp
    then show ?thesis using o(1) e k Inr by (auto simp: vd_ok_def looks_def)
  qed
qed

section \<open>Linking keeps the invariant\<close>

lemma on_node_tree:
  assumes "\<And>x. f x = x\<lparr>nd_dup := nd_dup (f x), nd_srcdir := nd_srcdir (f x), nd_variant_dirs := nd_variant_dirs (f x),
      nd_repositories := nd_repositories (f x), nd_tpath := nd_tpath (f x)\<rparr>"
  shows "same_tree (lk_fs L) (lk_fs (on_node n f L))"
  using upd_same_tree [OF assms] by (simp add: on_node_def)

lemma dir_link_state:
  fixes d s dup L
  defines "L' \<equiv> dir_link d s dup L"
  shows "same_tree (lk_fs L) (lk_fs L')"
    and "nd_srcdir (node_of L' n) = (if n = d then Some s else nd_srcdir (node_of L n))"
    and "nd_variant_dirs (node_of L' n) = (if n = s then nd_variant_dirs (node_of L n) @ [d] else nd_variant_dirs (node_of L n))"
    and "nd_repositories (node_of L' n) = nd_repositories (node_of L n)"
    and "tree_ok (lk_fs L) \<Longrightarrow> d < fs_next (lk_fs L) \<Longrightarrow> d \<noteq> root_id \<Longrightarrow> n < fs_next (lk_fs L) \<Longrightarrow>
      d \<in> set (elems_of (lk_fs L) n) \<Longrightarrow> lk_srcdirs L' n = None"
    and "lk_srcdirs L' n = Some r \<Longrightarrow> lk_srcdirs L n = Some r"
proof -
  define L1 where "L1 = on_node d (\<lambda>x. x\<lparr>nd_srcdir := Some s, nd_dup := dup\<rparr>) L"
  define L2 where "L2 = clear_repository_cache (Some dup) d L1"
  have L': "L' = on_node s (\<lambda>x. x\<lparr>nd_variant_dirs := nd_variant_dirs x @ [d]\<rparr>) L2"
    by (simp add: L'_def dir_link_def L2_def L1_def)
  have t1: "same_tree (lk_fs L) (lk_fs L1)" unfolding L1_def by (rule on_node_tree) simp
  have c: "same_tree (lk_fs L1) (lk_fs L2)" "same_links (lk_fs L1) (lk_fs L2)"
      "lk_srcdirs L2 = (\<lambda>n. if n \<in> set (cleared_nodes (lk_fs L1) d) then None else lk_srcdirs L1 n)"
    using clear_fold [of L1 "Some dup" "cleared_nodes (lk_fs L1) d"] by (simp_all add: L2_def clear_repository_cache_def)
  have t3: "same_tree (lk_fs L2) (lk_fs L')" unfolding L' by (rule on_node_tree) simp
  show "same_tree (lk_fs L) (lk_fs L')" using same_tree_trans [OF same_tree_trans [OF t1 c(1)] t3] .
  have s1: "nd_srcdir (node_of L1 m) = (if m = d then Some s else nd_srcdir (node_of L m))"
      "nd_variant_dirs (node_of L1 m) = nd_variant_dirs (node_of L m)"
      "nd_repositories (node_of L1 m) = nd_repositories (node_of L m)" for m
    by (auto simp: L1_def on_node_def upd_def)
  show "nd_srcdir (node_of L' n) = (if n = d then Some s else nd_srcdir (node_of L n))"
    "nd_variant_dirs (node_of L' n) = (if n = s then nd_variant_dirs (node_of L n) @ [d] else nd_variant_dirs (node_of L n))"
    "nd_repositories (node_of L' n) = nd_repositories (node_of L n)"
    using c(2) s1 [of n] by (auto simp: L' on_node_def upd_def same_links_def)
  have sd: "lk_srcdirs L' = lk_srcdirs L2" "lk_srcdirs L1 = lk_srcdirs L" by (simp_all add: L' L1_def on_node_def)
  show "tree_ok (lk_fs L) \<Longrightarrow> d < fs_next (lk_fs L) \<Longrightarrow> d \<noteq> root_id \<Longrightarrow> n < fs_next (lk_fs L) \<Longrightarrow>
      d \<in> set (elems_of (lk_fs L) n) \<Longrightarrow> lk_srcdirs L' n = None"
    using cleared_below [OF same_tree_ok(1) [OF t1], of d n] t1 same_tree_comps [OF t1] unfolding sd c(3)
    by (simp add: same_tree_def)
  show "lk_srcdirs L' n = Some r \<Longrightarrow> lk_srcdirs L n = Some r" unfolding sd c(3) by (simp split: if_splits)
qed

text \<open>A change of the links that leaves every directory above alone changes nothing for a directory.\<close>

lemma same_tree_comps_eq: "same_tree S S' \<Longrightarrow> comps S' = comps S"
  using same_tree_comps by blast

lemma srcs_spec_same_tree:
  assumes "same_tree S S'" and "\<And>a. a \<in> set (chain S n) \<Longrightarrow> nd_srcdir (fs_nodes S' a) = nd_srcdir (fs_nodes S a)"
  shows "srcs_spec S' n = srcs_spec S n"
  using assms(2) unfolding srcs_spec_def srcs_from_def same_tree_chain [OF assms(1)] same_tree_comps_eq [OF assms(1)]
  by (simp cong: map_cong)

lemma dirs_at_same_tree: "same_tree S S' \<Longrightarrow> dirs_at S' rs css = dirs_at S rs css"
  using same_tree_comps_eq [of S S'] by (simp add: dirs_at_def same_tree_def)

lemma dir_link_ok:
  assumes v: "vd_ok L" and d: "d < fs_next (lk_fs L)" "nd_class (node_of L d) = DirK" "nd_srcdir (node_of L d) = None"
    and s: "s < fs_next (lk_fs L)" "nd_class (node_of L s) = DirK" "d \<notin> set (elems_of (lk_fs L) s)"
  shows "vd_ok (dir_link d s dup L)"
proof -
  let ?L = "dir_link d s dup L" and ?S = "lk_fs L"
  note st = dir_link_state [where d = d and s = s and dup = dup and L = L]
  note t = vd_okD(1) [OF v] and lo = vd_okD(3) [OF v]
  have dr: "d \<noteq> root_id" using s(3) elems_of_root_in by auto
  have same: "fs_next (lk_fs ?L) = fs_next ?S" "nd_class (node_of ?L n) = nd_class (node_of L n)"
      "nd_name (node_of ?L n) = nd_name (node_of L n)" "elems_of (lk_fs ?L) n = elems_of ?S n" for n
    using st(1) same_tree_comps [OF st(1)] by (simp_all add: same_tree_def)
  have nv: "d \<notin> set (nd_variant_dirs (node_of L n))" for n using links_okD(7) [OF lo] d(3) by fastforce
  have "lone (lk_fs ?L)"
    using loneD [OF links_okD(1) [OF lo]] d(1,2) s(1,2) unfolding lone_def same st(2,3,4) by (metis not_le)
  moreover have "b < fs_next ?S \<and> nd_class (node_of L b) = DirK \<and> a \<in> set (nd_variant_dirs (node_of ?L b)) \<and>
      a \<notin> set (elems_of ?S b)" if "nd_srcdir (node_of ?L a) = Some b" for a b
  proof (cases "a = d")
    case True
    then show ?thesis using that s unfolding st(2,3) by simp
  next
    case False
    then show ?thesis using that links_okD(2-5) [OF lo, of a b] unfolding st(2,3) by auto
  qed
  moreover have "distinct (nd_variant_dirs (node_of ?L a))" for a
    using links_okD(6) [OF lo, of a] nv [of a] unfolding st(3) by auto
  moreover have "b < fs_next ?S \<and> nd_srcdir (node_of ?L b) = Some a" if "b \<in> set (nd_variant_dirs (node_of ?L a))" for a b
  proof (cases "b = d")
    case True
    then have "a = s" using that nv [of a] unfolding st(3) by (simp split: if_splits)
    then show ?thesis using True d(1) unfolding st(2) by simp
  next
    case False
    then have "b \<in> set (nd_variant_dirs (node_of L a))" using that unfolding st(3) by (simp split: if_splits)
    then show ?thesis using links_okD(7) [OF lo] False unfolding st(2) by simp
  qed
  ultimately have l: "links_ok (lk_fs ?L)" unfolding links_ok_def same by blast
  have "srcs_current ?L" unfolding srcs_current_def same
  proof (intro allI impI)
    fix n r
    assume m: "lk_srcdirs ?L n = Some r"
    note old = vd_ok_src [OF v st(6) [OF m]]
    have "d \<notin> set (elems_of ?S n)" using st(5) [OF t d(1) dr old(1)] m by auto
    then have "nd_srcdir (node_of ?L a) = nd_srcdir (node_of L a)" if "a \<in> set (chain ?S n)" for a
      using that chain_elems [OF t old(1)] unfolding st(2) by auto
    then show "n < fs_next ?S \<and> dirs_at (lk_fs ?L) r (srcs_spec (lk_fs ?L) n)"
      using old srcs_spec_same_tree [OF st(1)] dirs_at_same_tree [OF st(1)] by simp
  qed
  then show ?thesis using same_tree_ok(1) [OF st(1) t] vd_okD(2) [OF v] l by (simp add: vd_ok_def tidy_names_def same)
qed

lemma variant_dir_nodes_ok:
  assumes "vd_ok L" and "v < fs_next (lk_fs L)" "nd_class (node_of L v) = DirK"
    and "s < fs_next (lk_fs L)" "nd_class (node_of L s) = DirK" and "variant_dir_nodes v s dup L = (r, L')"
  shows "vd_ok L'" and "grown (lk_fs L) (lk_fs L')"
    and "r = Inr () \<Longrightarrow> nd_srcdir (node_of L' v) = Some s"
proof -
  have u: "is_under (lk_fs L) s v \<longleftrightarrow> v \<in> set (elems_of (lk_fs L) s)" by (rule is_under_elems [OF vd_okD(1) [OF assms(1)] assms(4)])
  note st = dir_link_state [where d = v and s = s and dup = dup and L = L]
  consider "L' = L" "r = Inr () \<longrightarrow> nd_srcdir (node_of L v) = Some s"
    | "L' = dir_link v s dup L" "nd_srcdir (node_of L v) = None" "v \<notin> set (elems_of (lk_fs L) s)"
    using assms(6) u by (auto simp: variant_dir_nodes_def split: if_splits option.splits)
  then have "vd_ok L' \<and> grown (lk_fs L) (lk_fs L') \<and> (r = Inr () \<longrightarrow> nd_srcdir (node_of L' v) = Some s)"
  proof cases
    case 2
    then show ?thesis
      using dir_link_ok [OF assms(1-3) 2(2) assms(4,5) 2(3)] same_tree_ok(2) [OF st(1) vd_okD(1) [OF assms(1)]] st(2) by simp
  qed (use assms(1) in simp)
  then show "vd_ok L'" "grown (lk_fs L) (lk_fs L')" "r = Inr () \<Longrightarrow> nd_srcdir (node_of L' v) = Some s" by auto
qed

text \<open>A path all of whose names are tidy.\<close>

definition tidy_path :: "string \<Rightarrow> bool" where
  "tidy_path p \<longleftrightarrow> newline \<notin> set p \<and> (\<forall>c\<in>set (split_on sep (if take 1 p = ''#'' then drop 1 p else p)). tidy c)"

lemma norm_outs_set: "set (norm_outs outs ds) \<subseteq> set outs \<union> set ds"
  by (induction outs ds rule: norm_outs.induct) (auto dest: in_set_butlastD)

lemma tidy_path_comps:
  assumes "vd_ok L" and "tidy_path p" and "\<forall>d\<in>set_option dir. d < fs_next (lk_fs L)"
  shows "\<forall>c\<in>set (lookup_comps (lk_fs L) dir p). tidy c"
proof -
  let ?S = "lk_fs L"
  have b: "\<forall>c\<in>set (comps ?S (case dir of None \<Rightarrow> fs_cwd ?S | Some d \<Rightarrow> d)). tidy c" "\<forall>c\<in>set (comps ?S (fs_top ?S)). tidy c"
    using comps_tidy [OF vd_okD(1,2) [OF assms(1)]] assms(3) tree_okD(7,9) [OF vd_okD(1) [OF assms(1)]]
    by (auto split: option.split)
  have n: "newline \<notin> set p" and w: "\<forall>c\<in>set (split_on sep (if take 1 p = ''#'' then drop 1 p else p)). tidy c"
    using assms(2) by (auto simp: tidy_path_def)
  have main: "\<forall>c\<in>set (norm_outs bs ws). tidy c" if "\<forall>c\<in>set bs. tidy c" "\<forall>c\<in>set ws. tidy c" for bs ws
    using that norm_outs_set [of bs ws] by blast
  show ?thesis
  proof (cases "take 1 p = ''#''")
    case True
    then show ?thesis using main [OF b(2)] w unfolding lookup_comps_def by simp
  next
    case False
    then have e: "lookup_comps (lk_fs L) dir p = norm_outs (if p = ''/'' \<or> take 1 p = ''/'' \<and> rstrip_sep p \<noteq> [] then []
        else comps ?S (case dir of None \<Rightarrow> fs_cwd ?S | Some d \<Rightarrow> d)) (split_on sep p)"
      by (simp add: lookup_comps_def)
    show ?thesis unfolding e by (rule main) (use b(1) w False in auto)
  qed
qed

lemma VariantDir_ok:
  assumes "vd_ok L" and "tidy_path variant" and "tidy_path src" and "VariantDir variant src dup L = (r, L')"
  shows "vd_ok L'" and "grown (lk_fs L) (lk_fs L')"
    and "r = Inr () \<Longrightarrow> \<exists>v s. v < fs_next (lk_fs L') \<and> nd_srcdir (node_of L' v) = Some s \<and>
      comps (lk_fs L') v = lookup_comps (lk_fs L) None variant \<and> comps (lk_fs L') s = lookup_comps (lk_fs L) None src"
proof -
  obtain r1 L1 where 1: "in_fs (lookup (lk_disk L) src None DirK True) L = (r1, L1)" by fastforce
  have n: "newline \<notin> set src" "newline \<notin> set variant" using assms(2,3) by (auto simp: tidy_path_def)
  note k1 = in_lookup [OF assms(1) n(1) _ tidy_path_comps [OF assms(1,3)] 1]
  have lk1: "looks L L1" by (rule k1(1)) simp_all
  note o1 = looks_ok [OF assms(1) lk1]
  obtain r2 L2 where 2: "in_fs (lookup (lk_disk L1) variant None DirK True) L1 = (r2, L2)" by fastforce
  note k2 = in_lookup [OF o1(1) n(2) _ tidy_path_comps [OF o1(1) assms(2)] 2]
  have lk2: "looks L1 L2" by (rule k2(1)) simp_all
  note o2 = looks_ok [OF o1(1) lk2]
  have main: "vd_ok L' \<and> grown (lk_fs L) (lk_fs L') \<and> (r = Inr () \<longrightarrow> (\<exists>v s. v < fs_next (lk_fs L') \<and>
      nd_srcdir (node_of L' v) = Some s \<and> comps (lk_fs L') v = lookup_comps (lk_fs L) None variant \<and>
      comps (lk_fs L') s = lookup_comps (lk_fs L) None src))"
  proof (cases r1)
    case (Inl e)
    then have "L' = L1 \<and> r \<noteq> Inr ()" using assms(4) 1 by (auto simp: VariantDir_def fs_class_lookup)
    then show ?thesis using o1 by simp
  next
    case (Inr s)
    have s: "s < fs_next (lk_fs L1)" "comps (lk_fs L1) s = lookup_comps (lk_fs L) None src" "nd_class (node_of L1 s) = DirK"
      using k1(2) [OF _ _ Inr] by simp_all
    show ?thesis
    proof (cases r2)
      case (Inl e)
      then have "L' = L2 \<and> r \<noteq> Inr ()" using assms(4) 1 2 \<open>r1 = Inr s\<close> by (auto simp: VariantDir_def fs_class_lookup)
      then show ?thesis using o2 grown_trans [OF o1(2) o2(2)] by simp
    next
      case (Inr v)
      have v: "v < fs_next (lk_fs L2)" "comps (lk_fs L2) v = lookup_comps (lk_fs L1) None variant" "nd_class (node_of L2 v) = DirK"
        using k2(2) [OF _ _ Inr] by simp_all
      have lc: "lookup_comps (lk_fs L1) None variant = lookup_comps (lk_fs L) None variant"
        using o1(2) grown_comps [OF o1(2)] tree_okD(7,9) [OF vd_okD(1) [OF assms(1)]] by (simp add: lookup_comps_def grown_def)
      have s2: "s < fs_next (lk_fs L2)" "nd_class (node_of L2 s) = DirK" "comps (lk_fs L2) s = lookup_comps (lk_fs L) None src"
        using s o2(2) grown_less [OF o2(2) s(1)] grown_comps [OF o2(2) s(1)] by (auto simp: grown_def)
      have e: "variant_dir_nodes v s dup L2 = (r, L')"
        using assms(4) 1 2 Inr \<open>r1 = Inr s\<close> by (simp add: VariantDir_def fs_class_lookup)
      note k = variant_dir_nodes_ok [OF o2(1) v(1,3) s2(1,2) e]
      have g: "comps (lk_fs L') v = lookup_comps (lk_fs L) None variant" "comps (lk_fs L') s = lookup_comps (lk_fs L) None src"
          "v < fs_next (lk_fs L')"
        using grown_comps [OF k(2) v(1)] grown_comps [OF k(2) s2(1)] grown_less [OF k(2) v(1)] v(2) lc s2(3) by simp_all
      show ?thesis using k g grown_trans [OF grown_trans [OF o1(2) o2(2)] k(2)] by blast
    qed
  qed
  then show "vd_ok L'" "grown (lk_fs L) (lk_fs L')" "r = Inr () \<Longrightarrow> \<exists>v s. v < fs_next (lk_fs L') \<and>
      nd_srcdir (node_of L' v) = Some s \<and> comps (lk_fs L') v = lookup_comps (lk_fs L) None variant \<and>
      comps (lk_fs L') s = lookup_comps (lk_fs L) None src"
    by blast+
qed

lemma addRepository_ok:
  assumes v: "vd_ok L" and s: "s < fs_next (lk_fs L)" "nd_class (node_of L s) = DirK"
  shows "vd_ok (addRepository s d L)" and "grown (lk_fs L) (lk_fs (addRepository s d L))"
proof -
  define L1 where "L1 = on_node d (\<lambda>x. x\<lparr>nd_tpath := ''.''\<rparr>) (on_node s (\<lambda>x. x\<lparr>nd_repositories := nd_repositories x @ [d]\<rparr>) L)"
  have both: "vd_ok (addRepository s d L) \<and> grown (lk_fs L) (lk_fs (addRepository s d L))"
  proof (cases "d \<noteq> s \<and> d \<notin> set (nd_repositories (node_of L s))")
    case True
    let ?L = "addRepository s d L"
    have L: "?L = clear_repository_cache None s L1" using True by (simp add: addRepository_def L1_def)
    have "same_tree (lk_fs L) (lk_fs (on_node s (\<lambda>x. x\<lparr>nd_repositories := nd_repositories x @ [d]\<rparr>) L))"
      by (rule on_node_tree) simp
    moreover have "same_tree (lk_fs (on_node s (\<lambda>x. x\<lparr>nd_repositories := nd_repositories x @ [d]\<rparr>) L)) (lk_fs L1)"
      unfolding L1_def by (rule on_node_tree) simp
    ultimately have t1: "same_tree (lk_fs L) (lk_fs L1)" by (rule same_tree_trans)
    note c = clear_fold [of L1 None "cleared_nodes (lk_fs L1) s", folded clear_repository_cache_def L]
    have t: "same_tree (lk_fs L) (lk_fs ?L)" using same_tree_trans [OF t1] c by blast
    have f: "nd_srcdir (node_of ?L n) = nd_srcdir (node_of L n)" "nd_variant_dirs (node_of ?L n) = nd_variant_dirs (node_of L n)"
        "n \<noteq> s \<Longrightarrow> nd_repositories (node_of ?L n) = nd_repositories (node_of L n)" for n
      using c by (auto simp: same_links_def L1_def on_node_def upd_def)
    have sd: "lk_srcdirs ?L n = Some r \<Longrightarrow> lk_srcdirs L n = Some r" for n r
      using c by (auto simp: L1_def on_node_def split: if_splits)
    have same: "fs_next (lk_fs ?L) = fs_next (lk_fs L)" "nd_class (node_of ?L n) = nd_class (node_of L n)"
        "nd_name (node_of ?L n) = nd_name (node_of L n)" "elems_of (lk_fs ?L) n = elems_of (lk_fs L) n" for n
      using t same_tree_comps [OF t] by (simp_all add: same_tree_def)
    have "lone (lk_fs ?L)" unfolding lone_def same f(1,2)
      using loneD [OF links_okD(1) [OF vd_okD(3) [OF v]]] s f(3) by (metis not_le)
    then have "links_ok (lk_fs ?L)" using vd_okD(3) [OF v] unfolding links_ok_def same f(1,2) by blast
    moreover have "srcs_current ?L" unfolding srcs_current_def same
    proof (intro allI impI)
      fix n r
      assume "lk_srcdirs ?L n = Some r"
      note old = vd_ok_src [OF v sd [OF this]]
      show "n < fs_next (lk_fs L) \<and> dirs_at (lk_fs ?L) r (srcs_spec (lk_fs ?L) n)"
        using old srcs_spec_same_tree [OF t f(1)] dirs_at_same_tree [OF t] by simp
    qed
    ultimately show ?thesis
      using same_tree_ok [OF t vd_okD(1) [OF v]] vd_okD(2) [OF v] by (simp add: vd_ok_def tidy_names_def same)
  next
    case False
    then have "addRepository s d L = L" by (auto simp: addRepository_def)
    then show ?thesis using v by simp
  qed
  then show "vd_ok (addRepository s d L)" "grown (lk_fs L) (lk_fs (addRepository s d L))" by auto
qed

lemma fs_Repository_ok:
  assumes "vd_ok L" and "\<forall>p\<in>set ps. tidy_path p" and "fs_Repository ps L = (r, L')"
  shows "vd_ok L' \<and> grown (lk_fs L) (lk_fs L')"
  using assms
proof (induction ps arbitrary: L)
  case (Cons p ps)
  obtain r1 L1 where 1: "in_fs (lookup (lk_disk L) p None DirK True) L = (r1, L1)" by fastforce
  have n: "newline \<notin> set p" "tidy_path p" using Cons.prems(2) by (auto simp: tidy_path_def)
  note k1 = in_lookup [OF Cons.prems(1) n(1) _ tidy_path_comps [OF Cons.prems(1) n(2)] 1]
  have lk1: "looks L L1" by (rule k1(1)) simp_all
  note o1 = looks_ok [OF Cons.prems(1) lk1]
  show ?case
  proof (cases r1)
    case (Inl e)
    then show ?thesis using Cons.prems(3) 1 o1 by (simp add: fs_class_lookup)
  next
    case (Inr d)
    note top = tree_okD(7,8) [OF vd_okD(1) [OF o1(1)]]
    note a = addRepository_ok [OF o1(1) top, where d = d]
    have "fs_Repository ps (addRepository (fs_top (lk_fs L1)) d L1) = (r, L')"
      using Cons.prems(3) 1 Inr by (simp add: fs_class_lookup)
    then show ?thesis
      using Cons.IH [OF a(1)] Cons.prems(2) grown_trans [OF grown_trans [OF o1(2) a(2)]] by auto
  qed
qed simp

end
