(* ===== verification/VariantPaths.thy ===== *)
theory VariantPaths
  imports LinkProps
begin

text \<open>
  The source of a node and the targets in variant directories: both are at the places the links
  between the directories say, whatever is looked up on the way. For this the relative paths that
  directories keep have to be right, which lookups preserve.
\<close>

section \<open>The source of a node\<close>

lemma base_srcnode_ok:
  assumes "vd_ok L" and "n < fs_next (lk_fs L)" and "n \<noteq> root_id" and "base_srcnode n L = (r, L')"
  shows "vd_ok L' \<and> grown (lk_fs L) (lk_fs L') \<and> same_links (lk_fs L) (lk_fs L') \<and>
    (\<forall>m. r = Inr m \<longrightarrow> m < fs_next (lk_fs L') \<and> comps (lk_fs L') m =
       (case srcs_spec (lk_fs L) (nd_dir (node_of L n)) of [] \<Rightarrow> comps (lk_fs L) n | cs # _ \<Rightarrow> cs @ [nd_name (node_of L n)]))"
proof -
  note p = tree_ok_parent [OF vd_okD(1) [OF assms(1)] assms(2,3)]
  obtain r1 L1 where 1: "srcdir_list (nd_dir (node_of L n)) L = (r1, L1)" by fastforce
  note k1 = srcdir_list_ok [OF assms(1) p(2) 1]
  have g1: "grown (lk_fs L) (lk_fs L1)" "same_links (lk_fs L) (lk_fs L1)"
    using steps_ok [of tidy "lk_fs L" "lk_fs L1"] steps_links [of tidy "lk_fs L" "lk_fs L1"] k1 vd_okD(1,3) [OF assms(1)]
      links_okD(1) by blast+
  show ?thesis
  proof (cases r1)
    case (Inl e)
    then show ?thesis using assms(4) 1 k1 g1 by (auto simp: base_srcnode_def)
  next
    case (Inr rs)
    have at: "dirs_at (lk_fs L1) rs (srcs_spec (lk_fs L) (nd_dir (node_of L n)))" using k1 Inr by simp
    show ?thesis
    proof (cases rs)
      case Nil
      then have "srcs_spec (lk_fs L) (nd_dir (node_of L n)) = []" using at by (simp add: dirs_at_def)
      then show ?thesis
        using assms(2,4) 1 k1 g1 Inr Nil grown_less [OF g1(1)] grown_comps [OF g1(1)] by (auto simp: base_srcnode_def)
    next
      case (Cons s ss)
      let ?name = "nd_name (node_of L1 n)"
      have nm: "?name = nd_name (node_of L n)" using g1(1) assms(2) by (simp add: grown_def)
      define cs where "cs = comps (lk_fs L1) s"
      have sp: "srcs_spec (lk_fs L) (nd_dir (node_of L n)) = cs # map (comps (lk_fs L1)) ss" "comps (lk_fs L1) s = cs"
          "s < fs_next (lk_fs L1)"
        using at Cons by (auto simp: dirs_at_def cs_def)
      have good: "proper_name ?name" "tidy ?name" unfolding nm using name_good [OF assms(1-3)] by auto
      obtain r2 L2 where 2: "dir_Entry s ?name L1 = (r2, L2)" by fastforce
      have v1: "vd_ok L1" using k1 by simp
      have lc: "lookup_comps (lk_fs L1) (Some s) ?name = cs @ [?name]" using name_comps [OF good] sp(2) by simp
      have "newline \<notin> set ?name" using good(2) by (simp add: tidy_def)
      moreover have "\<forall>c\<in>set (lookup_comps (lk_fs L1) (Some s) ?name). tidy c"
        unfolding lc using comps_good [OF v1 sp(3)] sp(2) good by (auto simp: good_names_def)
      moreover have "\<forall>d\<in>set_option (Some s). d < fs_next (lk_fs L1)" using sp(3) by simp
      ultimately have k2: "looks L1 L2" "\<And>m. r2 = Inr m \<Longrightarrow> m < fs_next (lk_fs L2) \<and> comps (lk_fs L2) m = cs @ [?name]"
        using in_lookup [OF v1 _ _ _ 2 [unfolded dir_Entry_def fs_class_lookup]] lc by auto
      note o2 = looks_ok [OF v1 k2(1)]
      note g2 = grown_trans [OF g1(1) o2(2)] same_links_trans [OF g1(2) o2(3)]
      show ?thesis
      proof (cases r2)
        case (Inl e)
        then show ?thesis using assms(4) 1 2 \<open>r1 = Inr rs\<close> Cons o2(1) g2 by (auto simp: base_srcnode_def)
      next
        case (Inr m)
        note m = k2(2) [OF Inr]
        obtain r3 L3 where 3: "in_fs (must_be_same (nd_class (node_of L2 n)) m) L2 = (r3, L3)" by fastforce
        note o3 = looks_ok [OF o2(1) in_must_be_same [OF conjunct1 [OF m] 3]]
        have "L' = L3" "r = (case r3 of Inl e \<Rightarrow> Inl e | Inr _ \<Rightarrow> Inr m)"
          using assms(4) 1 2 3 \<open>r1 = Inr rs\<close> Cons Inr by (auto simp: base_srcnode_def then_do_def split: sum.splits)
        then show ?thesis
          using o3(1) grown_trans [OF g2(1) o3(2)] same_links_trans [OF g2(2) o3(3)] m sp(1) nm
            grown_less [OF o3(2) conjunct1 [OF m]] grown_comps [OF o3(2) conjunct1 [OF m]] by (auto split: sum.splits)
      qed
    qed
  qed
qed

section \<open>Sequences of operations\<close>

inductive linking :: "linked \<Rightarrow> linked \<Rightarrow> bool" where
  none: "linking L L"
| looked: "linking L L1 \<Longrightarrow> in_fs (lookup E p dir k True) L1 = (r, L2) \<Longrightarrow> tidy_path p \<Longrightarrow>
    \<forall>d\<in>set_option dir. d < fs_next (lk_fs L1) \<Longrightarrow> linking L L2"
| variant: "linking L L1 \<Longrightarrow> VariantDir v s dup L1 = (rv, L2) \<Longrightarrow> tidy_path v \<Longrightarrow> tidy_path s \<Longrightarrow> linking L L2"
| repository: "linking L L1 \<Longrightarrow> fs_Repository ps L1 = (rr, L2) \<Longrightarrow> \<forall>p\<in>set ps. tidy_path p \<Longrightarrow> linking L L2"
| sources: "linking L L1 \<Longrightarrow> srcdir_list d L1 = (rs, L2) \<Longrightarrow> d < fs_next (lk_fs L1) \<Longrightarrow> linking L L2"
| source: "linking L L1 \<Longrightarrow> base_srcnode n L1 = (rn, L2) \<Longrightarrow> n < fs_next (lk_fs L1) \<Longrightarrow> n \<noteq> root_id \<Longrightarrow> linking L L2"

lemma linking_ok: "linking L L' \<Longrightarrow> vd_ok L \<Longrightarrow> vd_ok L'"
proof (induction rule: linking.induct)
  case (looked L L1 E p dir k r L2)
  then have v: "vd_ok L1" by simp
  have "newline \<notin> set p" using looked.hyps(3) by (simp add: tidy_path_def)
  then have "looks L1 L2"
    using in_lookup(1) [OF v _ looked.hyps(4) tidy_path_comps [OF v looked.hyps(3,4)] looked.hyps(2)] by simp
  then show ?case using looks_ok(1) [OF v] by simp
next
  case (variant L L1 v s dup rv L2)
  then show ?case using VariantDir_ok(1) by blast
next
  case (repository L L1 ps rr L2)
  then show ?case using fs_Repository_ok by blast
next
  case (sources L L1 d rs L2)
  then show ?case using srcdir_list_ok by blast
next
  case (source L L1 n rn L2)
  then show ?case using base_srcnode_ok by blast
qed simp

section \<open>The paths directories keep\<close>

text \<open>\<open>_path\<close> is relative below the top directory and absolute elsewhere.\<close>

definition shown_path :: "fsys \<Rightarrow> fsid \<Rightarrow> string" where
  "shown_path S n =
     (if n = fs_top S then ''.''
      else if fs_top S \<in> set (elems_of S n) then join_with ''/'' (drop (length (comps S (fs_top S))) (comps S n))
      else if n = root_id then ''/'' else abs_of (comps S n))"

definition paths_ok :: "fsys \<Rightarrow> bool" where
  "paths_ok S \<longleftrightarrow> (\<forall>n<fs_next S. nd_class (fs_nodes S n) = DirK \<longrightarrow> nd_path (fs_nodes S n) = shown_path S n)"

lemma below_top:
  assumes "tree_ok S" and "n < fs_next S" and "fs_top S \<in> set (elems_of S n)" and "n \<noteq> fs_top S"
  shows "\<exists>ws. comps S n = comps S (fs_top S) @ ws \<and> ws \<noteq> []"
proof -
  obtain rest where r: "elems_of S n = elems_of S (fs_top S) @ rest"
      "comps S n = comps S (fs_top S) @ map (\<lambda>j. nd_name (fs_nodes S j)) rest" "rest \<noteq> [] \<longrightarrow> last rest = n"
    using elems_of_above [OF assms(1-3)] by blast
  have "rest \<noteq> []"
    using r(1) elems_of_last [OF assms(1,2)] elems_of_last [OF assms(1) tree_okD(7) [OF assms(1)]] assms(4) by auto
  then show ?thesis using r(2) by blast
qed

lemma join_with_snoc: "ws \<noteq> [] \<Longrightarrow> join_with s (ws @ [w]) = join_with s ws @ s @ w"
  by (induction s ws rule: join_with.induct) auto

lemma join_proper_not_dot:
  assumes "\<forall>w\<in>set ws. proper_name w" and "ws \<noteq> []"
  shows "join_with ''/'' ws \<noteq> ''.''"
proof (cases ws)
  case (Cons w vs)
  have "length w \<ge> 1 \<and> w \<noteq> ''.''" using assms(1) Cons by (cases w) (auto simp: proper_name_def)
  then show ?thesis using Cons by (cases vs; cases w) auto
qed (use assms(2) in simp)

text \<open>What becomes a directory gets the path it should have.\<close>

lemma shown_path_step:
  assumes t: "tree_ok S" and n: "n < fs_next S" "n \<noteq> root_id" "n \<noteq> fs_top S"
    and p: "nd_path (fs_nodes S (nd_dir (fs_nodes S n))) = shown_path S (nd_dir (fs_nodes S n))"
  shows "(if nd_path (fs_nodes S (nd_dir (fs_nodes S n))) = ''.'' then nd_name (fs_nodes S n)
          else entry_path S (nd_dir (fs_nodes S n)) (nd_name (fs_nodes S n))) = shown_path S n"
proof -
  let ?d = "nd_dir (fs_nodes S n)" and ?name = "nd_name (fs_nodes S n)" and ?t = "fs_top S"
  note q = tree_ok_parent [OF t n(1,2)]
  note cs = comps_step [OF t n(1,2)] and es = elems_of_step [OF t n(1,2)]
  consider "?d = ?t" | "?d \<noteq> ?t" "?t \<in> set (elems_of S ?d)" | "?t \<notin> set (elems_of S ?d)" by blast
  then show ?thesis
  proof cases
    case 1
    have "?t \<in> set (elems_of S n)" using es 1 in_own_elems [OF t q(2)] by simp
    then show ?thesis using p 1 n(3) cs by (simp add: shown_path_def)
  next
    case 2
    obtain ws where ws: "comps S ?d = comps S ?t @ ws" "ws \<noteq> []" using below_top [OF t q(2) 2(2,1)] by blast
    have "\<forall>w\<in>set ws. proper_name w" using comps_proper [OF t q(2)] ws(1) by simp
    then have nd: "join_with ''/'' ws \<noteq> ''.''" using join_proper_not_dot ws(2) by blast
    have dr: "?d \<noteq> root_id" using 2 by auto
    have "nd_path (fs_nodes S ?d) = join_with ''/'' ws" using p 2 ws(1) by (simp add: shown_path_def)
    then show ?thesis
      using nd dr es 2(2) n(3) cs ws join_with_snoc [OF ws(2), of "''/''" ?name] by (simp add: shown_path_def entry_path_def)
  next
    case 3
    then have nt: "?d \<noteq> ?t" "?t \<notin> set (elems_of S n)" using es n(3) in_own_elems [OF t q(2)] by auto
    then have "nd_path (fs_nodes S ?d) = (if ?d = root_id then ''/'' else abs_of (comps S ?d))"
      using p 3 by (simp add: shown_path_def)
    moreover have "abs_of (comps S ?d) \<noteq> ''.''" by (cases "comps S ?d") (auto simp: sep_def)
    ultimately show ?thesis using nt n cs by (auto simp: shown_path_def entry_path_def sep_def)
  qed
qed

lemma paths_step:
  assumes "tree_step P S S'" and t: "tree_ok S" and ok: "paths_ok S"
  shows "paths_ok S'"
  using assms(1)
proof cases
  case (becomes n k)
  have nr: "n \<noteq> root_id" "n \<noteq> fs_top S" using becomes(3) tree_okD(2,8) [OF t] by force+
  note q = tree_ok_parent [OF t becomes(2) nr(1)]
  have sp: "shown_path S' m = shown_path S m" for m by (simp add: shown_path_def becomes(1) become_nodes(3) become_comps)
  have path_n: "nd_path (fs_nodes S' n) = shown_path S n" if "nd_class (fs_nodes S' n) = DirK"
  proof -
    have "k = DirK" using that becomes(1) become_nodes(8) [of k n S] by simp
    then have "nd_path (fs_nodes S' n) = (if nd_path (fs_nodes S (nd_dir (fs_nodes S n))) = ''.'' then nd_name (fs_nodes S n)
          else entry_path S (nd_dir (fs_nodes S n)) (nd_name (fs_nodes S n)))"
      by (simp add: becomes(1) become_def morph_dir_def Let_def)
    then show ?thesis using shown_path_step [OF t becomes(2) nr] ok q(2,3) by (simp add: paths_ok_def)
  qed
  show ?thesis unfolding paths_ok_def sp
  proof (intro allI impI)
    fix m
    assume m: "m < fs_next S'" "nd_class (fs_nodes S' m) = DirK"
    show "nd_path (fs_nodes S' m) = shown_path S m"
    proof (cases "m = n")
      case True
      then show ?thesis using path_n m(2) by simp
    next
      case False
      then have "fs_nodes S' m = fs_nodes S m" unfolding becomes(1) by (rule become_nodes(5))
      then show ?thesis using m ok by (simp add: paths_ok_def becomes(1) become_nodes(1))
    qed
  qed
next
  case (enters d c p)
  have dn: "d \<noteq> fs_next S" using enters(2) by simp
  note f = enter_entry_fields [OF dn, where p = p and name = c, folded enters(1)]
  have top: "fs_top S < fs_next S" by (rule tree_okD(7) [OF t])
  have sp: "shown_path S' m = shown_path S m" if "m < fs_next S" for m
    using enter_entry_comps [OF that enters(2), of p c] enter_entry_comps [OF top enters(2), of p c] f(3)
    unfolding enters(1) by (simp add: shown_path_def)
  show ?thesis unfolding paths_ok_def
  proof (intro allI impI)
    fix m
    assume m: "m < fs_next S'" "nd_class (fs_nodes S' m) = DirK"
    have "m \<noteq> fs_next S" using m(2) f(5) by (auto simp: base_init_def)
    moreover have "nd_path (fs_nodes S' m) = nd_path (fs_nodes S m)" "nd_class (fs_nodes S' m) = nd_class (fs_nodes S m)"
      using f(6,7) calculation by (cases "m = d"; simp)+
    ultimately show "nd_path (fs_nodes S' m) = shown_path S' m" using m ok sp f(1) by (simp add: paths_ok_def)
  qed
qed

lemma paths_steps:
  assumes "tree_steps P S S'" and "tree_ok S" and "paths_ok S"
  shows "paths_ok S'"
proof -
  have "tree_ok S' \<and> paths_ok S'"
    by (rule tree_steps_induct [OF assms(1), where Q = "\<lambda>S. tree_ok S \<and> paths_ok S"])
      (use assms(2,3) tree_step_ok paths_step in blast)+
  then show ?thesis by simp
qed

text \<open>The path of a directory with names joined to it is looked up from the top directory to what it says.\<close>

lemma proper_last: "proper_name c \<Longrightarrow> last c \<noteq> sep"
  unfolding proper_name_def by (metis last_in_set)

lemma fold_path_join:
  assumes "good_names cs" and "q \<noteq> []" and "last q \<noteq> sep"
  shows "foldl path_join q cs = q @ abs_of cs"
  using assms
proof (induction cs arbitrary: q)
  case (Cons c cs)
  have c: "c \<noteq> []" "sep \<notin> set c" using Cons.prems(1) by (auto simp: proper_name_def)
  have "last c \<noteq> sep" using Cons.prems(1) by (simp add: proper_last)
  moreover have "take 1 c \<noteq> ''/''" using good_head(2) [of c "[]"] Cons.prems(1) by simp
  ultimately show ?case using Cons.IH [of "q @ ''/'' @ c"] Cons.prems c by (simp add: path_join_def sep_def)
qed simp

lemma split_append_words: "\<forall>c\<in>set cs. sep \<notin> set c \<Longrightarrow> split_on sep (q @ abs_of cs) = split_on sep q @ cs"
proof (induction cs rule: rev_induct)
  case (snoc c cs)
  then show ?case using split_on_append_word [of c "q @ abs_of cs"] by simp
qed simp

lemma good_seps: "good_names cs \<Longrightarrow> \<forall>c\<in>set cs. sep \<notin> set c \<and> newline \<notin> set c \<and> proper_name c"
  by (auto simp: good_names_def proper_name_def tidy_def)

lemma rstrip_sep_id: "p \<noteq> [] \<Longrightarrow> last p \<noteq> sep \<Longrightarrow> rstrip_sep p = p"
  by (cases p rule: rev_cases) (simp_all add: rstrip_sep_def)

lemma abs_of_chars:
  assumes "good_names cs"
  shows "newline \<notin> set (abs_of cs)" and "cs \<noteq> [] \<Longrightarrow> last (abs_of cs) \<noteq> sep" and "cs \<noteq> [] \<Longrightarrow> rstrip_sep (abs_of cs) \<noteq> []"
proof -
  show "newline \<notin> set (abs_of cs)" using assms by (induction cs) (auto simp: tidy_def newline_def sep_def)
  show l: "last (abs_of cs) \<noteq> sep" if "cs \<noteq> []"
    using last_abs_of [OF that, of "[]"] good_seps [OF assms] that last_in_set [OF that]
    by (metis last_in_set append_Nil proper_name_def)
  show "rstrip_sep (abs_of cs) \<noteq> []" if "cs \<noteq> []"
    using l [OF that] that rstrip_sep_id [of "abs_of cs"] by (cases cs) auto
qed

lemma shown_path_comps:
  assumes v: "vd_ok L" and cwd: "fs_cwd (lk_fs L) = fs_top (lk_fs L)" and b: "b < fs_next (lk_fs L)" and ts: "good_names ts"
  defines "p \<equiv> foldl path_join (shown_path (lk_fs L) b) ts"
  shows "lookup_comps (lk_fs L) None p = comps (lk_fs L) b @ ts" and "newline \<notin> set p"
proof -
  let ?S = "lk_fs L" and ?t = "fs_top (lk_fs L)"
  note t = vd_okD(1) [OF v]
  have gb: "good_names (comps ?S b)" by (rule comps_good [OF v b])
  have sp: "\<forall>c\<in>set ts. sep \<notin> set c" using good_seps [OF ts] by blast
  have norm: "norm_outs bs (ws @ ts) = norm_outs bs ws @ ts" for bs ws
    using norm_outs_proper [of ts "norm_outs bs ws"] good_seps [OF ts] by (simp add: norm_outs_append)
  have rel: "lookup_comps ?S None (q @ abs_of ts) = norm_outs (comps ?S ?t) (split_on sep q) @ ts"
    if "q \<noteq> []" "take 1 q \<noteq> ''#''" "take 1 q \<noteq> ''/''" for q
    using that cwd norm split_append_words [OF sp, of q] by (cases q) (auto simp: lookup_comps_def)
  have abs: "lookup_comps ?S None (abs_of cs) = cs" if "cs \<noteq> []" "good_names cs" for cs
  proof -
    have "split_on sep (abs_of cs) = [] # cs" using split_abs_of [of cs "[]"] good_seps [OF that(2)] by simp
    moreover have "norm_outs [] cs = cs" using norm_outs_proper [of cs "[]"] good_seps [OF that(2)] by simp
    moreover have "take 1 (abs_of cs) = ''/''" using that(1) by (cases cs) (simp_all add: sep_def)
    ultimately show ?thesis using abs_of_chars(3) [OF that(2,1)] by (simp add: lookup_comps_def)
  qed
  consider "b = ?t" | "b \<noteq> ?t" "?t \<in> set (elems_of ?S b)" | "?t \<notin> set (elems_of ?S b)" "b = root_id"
    | "?t \<notin> set (elems_of ?S b)" "b \<noteq> root_id" by blast
  then have "lookup_comps ?S None p = comps ?S b @ ts \<and> newline \<notin> set p"
  proof cases
    case 1
    have "p = ''.'' @ abs_of ts" unfolding p_def using 1 fold_path_join [OF ts, of "''.''"] by (simp add: shown_path_def sep_def)
    moreover have "split_on sep ''.'' = [''.'']" by (simp add: sep_def)
    ultimately show ?thesis using rel [of "''.''"] 1 abs_of_chars(1) [OF ts] by (simp add: newline_def)
  next
    case 2
    obtain ws where ws: "comps ?S b = comps ?S ?t @ ws" "ws \<noteq> []" using below_top [OF t b 2(2,1)] by blast
    define q where "q = join_with ''/'' ws"
    have gw: "good_names ws" using gb ws(1) by simp
    have q: "sep # q = abs_of ws" using join_with_abs_of [OF ws(2)] by (simp add: q_def sep_def)
    have "split_on sep (sep # q) = [] # ws" using split_abs_of [of ws "[]"] good_seps [OF gw] unfolding q by simp
    moreover have "split_on sep (sep # q) = [] # split_on sep q" by (cases "split_on sep q") simp_all
    ultimately have sq: "split_on sep q = ws" by simp
    obtain w vs where w: "ws = w # vs" using ws(2) by (cases ws) auto
    then have qw: "q = w @ abs_of vs" using q by simp
    have pw: "proper_name w" "tidy w" using gw w by simp_all
    have "newline \<notin> set (sep # q)" using abs_of_chars(1) [OF gw] unfolding q .
    then have h: "q \<noteq> []" "take 1 q \<noteq> ''#''" "take 1 q \<noteq> ''/''" "newline \<notin> set q"
      using good_head(1,2) [OF pw, of "abs_of vs"] pw(1) unfolding qw by (simp_all add: proper_name_def)
    have "last (sep # q) = last q" using h(1) by simp
    then have "last q \<noteq> sep" using abs_of_chars(2) [OF gw ws(2)] unfolding q [symmetric] by simp
    then have "p = q @ abs_of ts" unfolding p_def using 2 ws(1) fold_path_join [OF ts h(1)] by (simp add: shown_path_def q_def)
    moreover have "norm_outs (comps ?S ?t) ws = comps ?S ?t @ ws" using norm_outs_proper [of ws] good_seps [OF gw] by blast
    ultimately show ?thesis using rel [OF h(1-3)] sq ws(1) h(4) abs_of_chars(1) [OF ts] by simp
  next
    case 3
    have sh: "shown_path ?S b = ''/''" using 3 elems_of_root_in by (auto simp: shown_path_def)
    show ?thesis
    proof (cases ts)
      case Nil
      have "norm_outs [] (split_on sep ''/'') = []" by code_simp
      then show ?thesis using Nil sh 3 by (simp add: p_def lookup_comps_def newline_def del: split_on.simps)
    next
      case (Cons c cs)
      have g: "good_names cs" "c \<noteq> []" "take 1 c \<noteq> ''/''" "last c \<noteq> sep"
        using ts Cons good_head(2) [of c "[]"] proper_last [of c] by (auto simp: proper_name_def)
      then have "path_join ''/'' c = sep # c" by (simp add: path_join_def sep_def)
      then have "p = abs_of ts" unfolding p_def sh Cons using fold_path_join [OF g(1), of "sep # c"] g(2,4) by simp
      then show ?thesis using abs [of ts] ts Cons 3 abs_of_chars(1) [OF ts] by simp
    qed
  next
    case 4
    have ne: "comps ?S b \<noteq> []" using comps_step [OF t b 4(2)] by simp
    have "b \<noteq> ?t" using 4 in_own_elems [OF t b] by auto
    then have sh: "shown_path ?S b = abs_of (comps ?S b)" using 4 by (simp add: shown_path_def)
    have "abs_of (comps ?S b) \<noteq> []" using ne by (cases "comps ?S b") auto
    then have "p = abs_of (comps ?S b @ ts)"
      unfolding p_def sh using fold_path_join [OF ts] abs_of_chars(2) [OF gb ne] by simp
    then show ?thesis using abs [of "comps ?S b @ ts"] ne gb ts abs_of_chars(1) [of "comps ?S b @ ts"] by simp
  qed
  then show "lookup_comps ?S None p = comps ?S b @ ts" "newline \<notin> set p" by auto
qed

section \<open>Targets in variant directories\<close>

definition climb_from :: "fsys \<Rightarrow> fsid \<Rightarrow> string list \<Rightarrow> string list list" where
  "climb_from S a cs = concat (map (\<lambda>b. map (\<lambda>v. comps S v @ drop (length (comps S b)) cs) (nd_variant_dirs (fs_nodes S b)))
     (chain S a))"

definition at :: "fsys \<Rightarrow> fsid list \<Rightarrow> string list list \<Rightarrow> bool" where
  "at S ns css \<longleftrightarrow> map (comps S) ns = css \<and> (\<forall>n\<in>set ns. n < fs_next S)"

lemma at_grown:
  assumes "grown S S'" and "at S ns css"
  shows "at S' ns css"
proof -
  have "comps S' n = comps S n \<and> n < fs_next S'" if "n \<in> set ns" for n
    using assms(2) that grown_comps [OF assms(1), of n] grown_less [OF assms(1), of n] by (auto simp: at_def)
  then show ?thesis using assms(2) by (auto simp: at_def)
qed

lemma at_append: "at S ms css \<Longrightarrow> at S ns dss \<Longrightarrow> at S (ms @ ns) (css @ dss)"
  by (auto simp: at_def)

text \<open>Paths stay right, and the current directory is the top one, as long as nodes are only looked up.\<close>

definition at_top :: "linked \<Rightarrow> bool" where
  "at_top L \<longleftrightarrow> vd_ok L \<and> paths_ok (lk_fs L) \<and> fs_cwd (lk_fs L) = fs_top (lk_fs L)"

lemma at_top_looks: "at_top L \<Longrightarrow> looks L L' \<Longrightarrow> at_top L'"
  using looks_ok(1,2) [of L L'] paths_steps [of tidy "lk_fs L" "lk_fs L'"] vd_okD(1) [of L]
  by (auto simp: at_top_def looks_def grown_def)

lemma variant_entry:
  assumes a: "at_top L" and b: "b < fs_next (lk_fs L)" "nd_class (node_of L b) = DirK" and ts: "good_names ts"
    and e: "in_fs (fs_Entry (lk_disk L) (foldl path_join (nd_path (node_of L b)) ts) None True) L = (r, L')"
  shows "looks L L' \<and> (\<forall>n. r = Inr n \<longrightarrow> at (lk_fs L') [n] [comps (lk_fs L) b @ ts])"
proof -
  have v: "vd_ok L" and p: "nd_path (node_of L b) = shown_path (lk_fs L) b" using a b by (auto simp: at_top_def paths_ok_def)
  have cwd: "fs_cwd (lk_fs L) = fs_top (lk_fs L)" using a by (simp add: at_top_def)
  note sc = shown_path_comps [OF v cwd b(1) ts]
  have "\<forall>c\<in>set (comps (lk_fs L) b @ ts). tidy c" using comps_good [OF v b(1)] ts by (auto simp: good_names_def)
  then show ?thesis
    using in_lookup [OF v sc(2) _ _ e [unfolded p fs_class_lookup]] sc(1) by (simp add: at_def)
qed

text \<open>Where the climb stops: a variant directory it meets holds the directory it started from.\<close>

definition reflects :: "fsys \<Rightarrow> fsid \<Rightarrow> fsid \<Rightarrow> bool" where
  "reflects S start a \<longleftrightarrow> (\<exists>b\<in>set (chain S a). \<exists>v\<in>set (nd_variant_dirs (fs_nodes S b)). is_under S start v)"

lemma under_looks:
  assumes "vd_ok L" and "looks L L'" and "n < fs_next (lk_fs L)"
  shows "is_under (lk_fs L') n d = is_under (lk_fs L) n d"
  using is_under_elems [OF vd_okD(1) [OF assms(1)] assms(3)]
    is_under_elems [OF vd_okD(1) [OF looks_ok(1) [OF assms(1,2)]] grown_less [OF looks_ok(2) [OF assms(1,2)] assms(3)]]
    grown_elems [OF looks_ok(2) [OF assms(1,2)] assms(3)]
  by simp

lemma reflects_looks:
  assumes "vd_ok L" and "looks L L'" and "n < fs_next (lk_fs L)" and "a < fs_next (lk_fs L)"
  shows "reflects (lk_fs L') n a = reflects (lk_fs L) n a"
proof -
  note o = looks_ok [OF assms(1,2)]
  have "chain (lk_fs L') a = chain (lk_fs L) a"
    using chain_elems [OF vd_okD(1) [OF assms(1)] assms(4)] chain_elems [OF vd_okD(1) [OF o(1)] grown_less [OF o(2) assms(4)]]
      grown_elems [OF o(2) assms(4)] by simp
  then show ?thesis using o(3) under_looks [OF assms(1-3)] by (simp add: reflects_def same_links_def)
qed

lemma climb_variants_ok:
  assumes "at_top L" and "\<forall>b\<in>set bs. b < fs_next (lk_fs L) \<and> nd_class (node_of L b) = DirK" and "good_names ts"
    and "climb_variants start ts bs L = (r, L')" and "start < fs_next (lk_fs L)"
  shows "looks L L' \<and> (\<forall>ns. r = Inr (Targets ns) \<longrightarrow> at (lk_fs L') ns (map (\<lambda>b. comps (lk_fs L) b @ ts) bs)) \<and>
    (\<forall>c. r = Inr c \<longrightarrow> (c = Reflected \<longleftrightarrow> (\<exists>b\<in>set bs. is_under (lk_fs L) start b)))"
  using assms
proof (induction bs arbitrary: L r L')
  case (Cons b bs)
  show ?case
  proof (cases "is_under (lk_fs L) start b")
    case True
    then have "r = Inr Reflected \<and> L' = L" using Cons.prems(4) by simp
    then show ?thesis using True by simp
  next
    case False
    obtain r1 L1 where 1: "in_fs (fs_Entry (lk_disk L) (foldl path_join (nd_path (node_of L b)) ts) None True) L = (r1, L1)"
      by fastforce
    have b: "b < fs_next (lk_fs L)" "nd_class (node_of L b) = DirK" using Cons.prems(2) by auto
    note k1 = variant_entry [OF Cons.prems(1) b Cons.prems(3) 1]
    have a1: "at_top L1" using at_top_looks [OF Cons.prems(1)] k1 by blast
    have g1: "grown (lk_fs L) (lk_fs L1)" using looks_ok(2) k1 Cons.prems(1) by (auto simp: at_top_def)
    obtain r2 L2 where 2: "climb_variants start ts bs L1 = (r2, L2)" by fastforce
    have bs1: "\<forall>b\<in>set bs. b < fs_next (lk_fs L1) \<and> nd_class (node_of L1 b) = DirK"
      using Cons.prems(2) grown_less [OF g1] g1 by (auto simp: grown_def)
    have vL: "vd_ok L" using Cons.prems(1) by (simp add: at_top_def)
    have l1: "looks L L1" using k1 by blast
    note k2 = Cons.IH [OF a1 bs1 Cons.prems(3) 2 grown_less [OF g1 Cons.prems(5)], unfolded under_looks [OF vL l1 Cons.prems(5)]]
    have g2: "grown (lk_fs L1) (lk_fs L2)" using looks_ok(2) k2 a1 by (auto simp: at_top_def)
    have c1: "map (\<lambda>b. comps (lk_fs L1) b @ ts) bs = map (\<lambda>b. comps (lk_fs L) b @ ts) bs"
      using Cons.prems(2) grown_comps [OF g1] by simp
    show ?thesis
    proof (cases r1)
      case (Inl e)
      then show ?thesis using Cons.prems(4) False 1 k1 by auto
    next
      case (Inr t)
      have r: "L' = L2" "r = (case r2 of Inl e \<Rightarrow> Inl e
          | Inr c \<Rightarrow> Inr (case c of Reflected \<Rightarrow> Reflected | Targets ts \<Rightarrow> Targets (t # ts)))"
        using Cons.prems(4) False 1 2 Inr by (auto simp: then_do_def split: sum.splits)
      have t: "at (lk_fs L2) [t] [comps (lk_fs L) b @ ts]" using k1 Inr at_grown [OF g2] by blast
      have "at (lk_fs L2) (t # ns) (map (\<lambda>b. comps (lk_fs L) b @ ts) (b # bs))" if "r2 = Inr (Targets ns)" for ns
        using at_append [OF t, of ns] k2 that c1 by simp
      moreover have "c = Reflected \<longleftrightarrow> (\<exists>b\<in>set (b # bs). is_under (lk_fs L) start b)" if "r2 = Inr c" for c
        using k2 that False by auto
      moreover have "looks L L2" using k1 k2 looks_trans by blast
      ultimately show ?thesis unfolding r by (auto split: sum.splits climbed.splits)
    qed
  qed
qed (auto simp: at_def)

lemma variant_is_dir:
  assumes "vd_ok L" and "b \<in> set (nd_variant_dirs (node_of L a))"
  shows "b < fs_next (lk_fs L) \<and> nd_class (node_of L b) = DirK \<and> nd_srcdir (node_of L b) = Some a"
proof -
  note k = links_okD(7) [OF vd_okD(3) [OF assms(1)] assms(2)]
  then have "nd_class (node_of L b) = DirK" using loneD [OF links_okD(1) [OF vd_okD(3) [OF assms(1)]], of b] by auto
  then show ?thesis using k by simp
qed

lemma climb_from_grown:
  assumes "tree_ok S" and "tree_ok S'" and "grown S S'" and "same_links S S'" and "links_ok S" and "d < fs_next S"
  shows "climb_from S' d cs = climb_from S d cs"
proof -
  have ch: "chain S' d = chain S d"
    using chain_elems [OF assms(1,6)] chain_elems [OF assms(2) grown_less [OF assms(3,6)]] grown_elems [OF assms(3,6)] by simp
  have "map (\<lambda>v. comps S' v @ drop (length (comps S' a)) cs) (nd_variant_dirs (fs_nodes S' a)) =
      map (\<lambda>v. comps S v @ drop (length (comps S a)) cs) (nd_variant_dirs (fs_nodes S a))" if "a \<in> set (chain S d)" for a
  proof -
    have "a < fs_next S" using that chain_elems [OF assms(1,6)] elems_of_le [OF assms(1,6)] by simp
    then show ?thesis
      using assms(4) links_okD(7) [OF assms(5)] grown_comps [OF assms(3)] by (auto simp: same_links_def)
  qed
  then show ?thesis unfolding climb_from_def ch by (simp cong: map_cong)
qed

lemma climb_loop_ok:
  assumes "at_top L" and "a < fs_next (lk_fs L)" and "good_names ts"
    and "climb_loop start ts (chain (lk_fs L) a) L = (r, L')" and "start < fs_next (lk_fs L)"
  shows "looks L L' \<and> (\<forall>ns. r = Inr (Targets ns) \<longrightarrow> at (lk_fs L') ns (climb_from (lk_fs L) a (comps (lk_fs L) a @ ts))) \<and>
    (\<forall>c. r = Inr c \<longrightarrow> (c = Reflected \<longleftrightarrow> reflects (lk_fs L) start a))"
  using assms
proof (induction a arbitrary: L ts r L' rule: less_induct)
  case (less a)
  let ?S = "lk_fs L"
  have v: "vd_ok L" using less.prems(1) by (simp add: at_top_def)
  let ?here = "map (\<lambda>b. comps ?S b @ ts) (nd_variant_dirs (fs_nodes ?S a))"
  obtain r1 L1 where 1: "climb_variants start ts (nd_variant_dirs (fs_nodes ?S a)) L = (r1, L1)" by fastforce
  have k1: "looks L L1" "r1 = Inr (Targets ns) \<Longrightarrow> at (lk_fs L1) ns ?here"
      "r1 = Inr c \<Longrightarrow> c = Reflected \<longleftrightarrow> (\<exists>b\<in>set (nd_variant_dirs (fs_nodes ?S a)). is_under ?S start b)" for ns c
    using climb_variants_ok [OF less.prems(1) _ less.prems(3) 1 less.prems(5)] variant_is_dir [OF v] by blast+
  note o = looks_ok [OF v k1(1)]
  define rest where "rest = (if a = root_id then [] else chain ?S (nd_dir (fs_nodes ?S a)))"
  have ch: "chain ?S a = a # rest"
    using tree_ok_parent(1) [OF vd_okD(1) [OF v] less.prems(2)] by (subst chain.simps) (auto simp: rest_def)
  have sf: "climb_from ?S a (comps ?S a @ ts) = ?here @
      (if a = root_id then [] else climb_from ?S (nd_dir (fs_nodes ?S a)) (comps ?S a @ ts))"
    unfolding climb_from_def ch by (simp add: rest_def)
  have rf: "reflects ?S start a \<longleftrightarrow> (\<exists>b\<in>set (nd_variant_dirs (fs_nodes ?S a)). is_under ?S start b) \<or>
      a \<noteq> root_id \<and> reflects ?S start (nd_dir (fs_nodes ?S a))"
    unfolding reflects_def ch by (simp add: rest_def)
  show ?case
  proof (cases r1)
    case (Inl e)
    then have "L' = L1 \<and> r = Inl e" using less.prems(4) 1 unfolding ch by simp
    then show ?thesis using k1(1) by simp
  next
    case (Inr c)
    show ?thesis
    proof (cases c)
      case Reflected
      then have "L' = L1 \<and> r = Inr Reflected" using less.prems(4) 1 Inr unfolding ch by simp
      then show ?thesis using k1(1,3) Inr Reflected rf by simp
    next
      case (Targets ns)
      have none: "\<not> (\<exists>b\<in>set (nd_variant_dirs (fs_nodes ?S a)). is_under ?S start b)"
        using k1(3) Inr Targets by simp
      let ?name = "nd_name (fs_nodes (lk_fs L1) a)"
      obtain r2 L2 where l2: "climb_loop start (?name # ts) rest L1 = (r2, L2)" by fastforce
      have r: "L' = L2" "r = (case r2 of Inl e \<Rightarrow> Inl e
          | Inr c \<Rightarrow> Inr (case c of Reflected \<Rightarrow> Reflected | Targets us \<Rightarrow> Targets (ns @ us)))"
        using less.prems(4) 1 Inr Targets l2 unfolding ch by (auto simp: then_do_def split: sum.splits)
      have name: "?name = nd_name (fs_nodes ?S a)" using o(2) less.prems(2) by (simp add: grown_def)
      show ?thesis
      proof (cases "a = root_id")
        case True
        then have "L2 = L1 \<and> r2 = Inr (Targets [])" using l2 by (simp add: rest_def)
        then show ?thesis using r k1(1,2) Inr Targets sf True rf none by simp
      next
        case False
        let ?p = "nd_dir (fs_nodes ?S a)"
        note p = tree_ok_parent [OF vd_okD(1) [OF v] less.prems(2) False]
        have pn: "?p < fs_next (lk_fs L1)" using grown_less [OF o(2) p(2)] .
        have rest1: "rest = chain (lk_fs L1) ?p"
          using False chain_elems [OF vd_okD(1) [OF v] p(2)] chain_elems [OF vd_okD(1) [OF o(1)] pn]
            grown_elems [OF o(2) p(2)] by (simp add: rest_def)
        have gn: "good_names (?name # ts)" unfolding name using name_good [OF v less.prems(2) False] less.prems(3) by simp
        note ih = less.IH [OF p(1) at_top_looks [OF less.prems(1) k1(1)] pn gn l2 [unfolded rest1] grown_less [OF o(2) less.prems(5)]]
        have cc: "comps (lk_fs L1) ?p @ ?name # ts = comps ?S a @ ts"
          unfolding name grown_comps [OF o(2) p(2)] comps_step [OF vd_okD(1) [OF v] less.prems(2) False] by simp
        have sfp: "climb_from (lk_fs L1) ?p (comps ?S a @ ts) = climb_from ?S ?p (comps ?S a @ ts)"
          by (rule climb_from_grown [OF vd_okD(1) [OF v] vd_okD(1) [OF o(1)] o(2,3) vd_okD(3) [OF v] p(2)])
        have g2: "grown (lk_fs L1) (lk_fs L2)" using looks_ok(2) [OF o(1)] ih by blast
        have "at (lk_fs L2) (ns @ us) (climb_from ?S a (comps ?S a @ ts))" if "r2 = Inr (Targets us)" for us
          using at_append [OF at_grown [OF g2]] k1(2) Inr Targets ih that False unfolding sf cc sfp by auto
        moreover have "c = Reflected \<longleftrightarrow> reflects ?S start a" if "r2 = Inr c" for c
          using ih that reflects_looks [OF v k1(1) less.prems(5) p(2)] rf none False by simp
        moreover have "looks L L2" using ih k1(1) looks_trans by blast
        ultimately show ?thesis unfolding r by (auto split: sum.splits climbed.splits)
      qed
    qed
  qed
qed

end
