(* ===== verification/VariantProps.thy ===== *)
theory VariantProps
  imports VariantPaths
begin

text \<open>
  What variant directories promise: from the first state on the source directories are never
  stale, the targets the climb finds lead back to the node it started from, and where the promise
  fails (two variant directories that are each other's source), with witnesses on a small tree.
\<close>

section \<open>The first state\<close>

definition fresh :: "disk \<Rightarrow> fsys \<Rightarrow> linked" where
  "fresh D S = \<lparr>lk_fs = S, lk_rdirs = Map.empty, lk_srcdirs = Map.empty, lk_srcfile = (\<lambda>_. Map.empty),
     lk_rfind = (\<lambda>_. Map.empty), lk_found = Map.empty, lk_listed = Map.empty, lk_dups = [], lk_disk = D\<rparr>"

definition unlinked :: "fsys \<Rightarrow> bool" where
  "unlinked S \<longleftrightarrow> (\<forall>n. nd_srcdir (fs_nodes S n) = None \<and> nd_variant_dirs (fs_nodes S n) = [] \<and> nd_repositories (fs_nodes S n) = [])"

lemma unlinked_ok: "unlinked S \<Longrightarrow> links_ok S"
  by (simp add: unlinked_def links_ok_def lone_def)

lemma unlinked_steps: "tree_steps P S S' \<Longrightarrow> unlinked S \<Longrightarrow> unlinked S'"
  using steps_links [of P S S'] by (simp add: unlinked_def lone_def same_links_def)

text \<open>Before there is a top directory, all paths are absolute.\<close>

definition abs_paths :: "fsys \<Rightarrow> bool" where
  "abs_paths S \<longleftrightarrow> (\<forall>n<fs_next S. nd_class (fs_nodes S n) = DirK \<longrightarrow>
     nd_path (fs_nodes S n) = (if n = root_id then ''/'' else abs_of (comps S n)))"

lemma abs_paths_step:
  assumes "tree_step P S S'" and t: "tree_ok S" and ok: "abs_paths S"
  shows "abs_paths S'"
  using assms(1)
proof cases
  case (becomes n k)
  have nr: "n \<noteq> root_id" using becomes(3) tree_okD(2) [OF t] by force
  note q = tree_ok_parent [OF t becomes(2) nr]
  let ?d = "nd_dir (fs_nodes S n)"
  have pd: "nd_path (fs_nodes S ?d) = (if ?d = root_id then ''/'' else abs_of (comps S ?d))" using ok q(2,3) by (simp add: abs_paths_def)
  have nd: "abs_of cs \<noteq> ''.''" for cs by (cases cs) (auto simp: sep_def)
  have "nd_path (fs_nodes S' n) = abs_of (comps S n)" if "nd_class (fs_nodes S' n) = DirK"
  proof -
    have "k = DirK" using that becomes(1) become_nodes(8) [of k n S] by simp
    then show ?thesis using pd nd comps_step [OF t becomes(2) nr]
      by (auto simp: becomes(1) become_def morph_dir_def Let_def entry_path_def sep_def)
  qed
  moreover have "m < fs_next S' \<Longrightarrow> m \<noteq> n \<Longrightarrow> nd_class (fs_nodes S' m) = DirK \<Longrightarrow>
      nd_path (fs_nodes S' m) = (if m = root_id then ''/'' else abs_of (comps S m))" for m
    using become_nodes(5) [of m n k S] ok becomes(1) by (simp add: abs_paths_def become_nodes(1))
  ultimately show ?thesis unfolding abs_paths_def becomes(1) become_comps using nr by metis
next
  case (enters d c p)
  have dn: "d \<noteq> fs_next S" using enters(2) by simp
  note f = enter_entry_fields [OF dn, where p = p and name = c, folded enters(1)]
  show ?thesis unfolding abs_paths_def
  proof (intro allI impI)
    fix m
    assume m: "m < fs_next S'" "nd_class (fs_nodes S' m) = DirK"
    have ne: "m \<noteq> fs_next S" using m(2) f(5) by (auto simp: base_init_def)
    then have "m < fs_next S" using m(1) f(1) by simp
    moreover have "nd_path (fs_nodes S' m) = nd_path (fs_nodes S m)" "nd_class (fs_nodes S' m) = nd_class (fs_nodes S m)"
      using f(6,7) ne by (cases "m = d"; simp)+
    ultimately show "nd_path (fs_nodes S' m) = (if m = root_id then ''/'' else abs_of (comps S' m))"
      using m ok enter_entry_comps(1) [OF _ enters(2), of m p c] enters(1) by (simp add: abs_paths_def)
  qed
qed

lemma abs_paths_steps:
  assumes "tree_steps P S S'" and "tree_ok S" and "abs_paths S"
  shows "abs_paths S'"
proof -
  have "tree_ok S' \<and> abs_paths S'"
    by (rule tree_steps_induct [OF assms(1), where Q = "\<lambda>S. tree_ok S \<and> abs_paths S"])
      (use assms(2,3) tree_step_ok abs_paths_step in blast)+
  then show ?thesis by simp
qed

text \<open>The first lookup gives the newest node.\<close>

lemma first_lookup_newest:
  assumes "lookup_abs E DirK True p root_fs = (Inr n, S)"
  shows "Suc n = fs_next S"
proof (cases "fs_lookupDict root_fs p")
  case (Some m)
  then have "m = root_id" by (auto simp: root_fs_def split: if_splits)
  moreover have "must_be_same DirK root_id root_fs = (Inr (), root_fs)"
    by (simp add: must_be_same_def root_fs_def root_node_def Let_def)
  ultimately have "n = root_id \<and> S = root_fs" using assms Some by (simp add: lookup_abs_hit lookup_node_def)
  then show ?thesis by (simp add: root_fs_def root_id_def)
next
  case None
  then obtain a b where ab: "rsplit_path p = Some (a, b)"
    using assms by (cases "rsplit_path p") (auto simp: lookup_abs.simps [of E DirK True p])
  obtain rd S1 where l: "lookup_abs E DirK True a root_fs = (rd, S1)" by fastforce
  have ok: "\<exists>d. rd = Inr d \<and> diskcheck_match E DirK (entry_abspath S1 d b) = None"
  proof (rule ccontr)
    assume "\<not> ?thesis"
    then have "\<exists>e. lookup_abs E DirK True p root_fs = (Inl e, S1)"
      using lookup_abs_miss(2) [OF None ab l, of True DirK] by simp
    then show False using assms by simp
  qed
  then obtain d where "n = fs_next S1" "S = enter_node p b DirK d S1"
    using lookup_abs_miss(1) [OF None ab l, of True _ DirK] assms by auto
  then show ?thesis by (simp add: enter_node_def morph_dir_def Let_def)
qed

lemma fs_init_at_top:
  assumes i: "fs_init E path = Inr S" and p: "tidy_path path"
  shows "at_top (fresh D S) \<and> unlinked S"
proof -
  have c: "\<not> (take 1 path = ''#'' \<or> (path \<noteq> ''/'' \<and> take 1 (rstrip_sep path) \<noteq> ''/''))"
    using i by (auto simp: fs_init_def split: if_splits)
  obtain n S0 where l: "lookup E path None DirK True root_fs = (Inr n, S0)"
      and S: "S = upd n (\<lambda>x. x\<lparr>nd_path := ''.'', nd_tpath := ''.''\<rparr>) S0\<lparr>fs_top := n, fs_cwd := n\<rparr>"
    using i c by (auto simp: fs_init_def fs_Dir_def split: sum.splits prod.splits)
  have nl: "newline \<notin> set path" using p by (simp add: tidy_path_def)
  have td: "\<forall>c\<in>set (lookup_comps root_fs None path). tidy c"
  proof -
    have "vd_ok (fresh D root_fs)"
      using root_fs_ok unlinked_ok [of root_fs]
      by (auto simp: vd_ok_def fresh_def tidy_names_def root_fs_def root_node_def unlinked_def srcs_current_def tidy_def newline_def)
    from tidy_path_comps [OF this p, of None] show ?thesis by (simp add: fresh_def)
  qed
  have st: "tree_steps tidy root_fs S0" by (rule lookup_steps [OF root_fs_ok nl _ td l]) simp
  have f0: "tree_ok S0" "n < fs_next S0" "nd_class (fs_nodes S0 n) = DirK"
    using lookup_ok [OF root_fs_ok nl _ l] by (auto simp: found_at_def)
  have un: "unlinked S0" by (rule unlinked_steps [OF st]) (simp add: unlinked_def root_fs_def root_node_def)
  have tn: "tidy_names S0" by (rule steps_tidy [OF st]) (simp add: tidy_names_def root_fs_def root_node_def tidy_def newline_def)
  have ap: "abs_paths S0" by (rule abs_paths_steps [OF st root_fs_ok]) (simp add: abs_paths_def root_fs_def root_node_def root_id_def)
  have tr: "tree_ok S" unfolding S by (rule tree_ok_moved [OF f0])
  obtain s where s: "lookup E path None DirK True root_fs = lookup_abs E DirK True s root_fs"
    using lookup_string [OF root_fs_ok nl, of None] by auto
  have new: "Suc n = fs_next S0" using first_lookup_newest l unfolding s by blast
  have f: "nd_name (fs_nodes S m) = nd_name (fs_nodes S0 m)" "nd_dir (fs_nodes S m) = nd_dir (fs_nodes S0 m)"
      "nd_class (fs_nodes S m) = nd_class (fs_nodes S0 m)" "fs_next S = fs_next S0"
      "nd_path (fs_nodes S m) = (if m = n then ''.'' else nd_path (fs_nodes S0 m))" "fs_top S = n" "fs_cwd S = n"
      "nd_srcdir (fs_nodes S m) = nd_srcdir (fs_nodes S0 m)" "nd_variant_dirs (fs_nodes S m) = nd_variant_dirs (fs_nodes S0 m)"
      "nd_repositories (fs_nodes S m) = nd_repositories (fs_nodes S0 m)" for m
    by (cases "m = n"; simp add: S upd_def)+
  have cm: "comps S m = comps S0 m" for m using comps_cong [of m S S0] f(1,2) by simp
  have "nd_path (fs_nodes S m) = shown_path S m" if m: "m < fs_next S" "nd_class (fs_nodes S m) = DirK" for m
  proof (cases "m = n")
    case True
    then show ?thesis using f(5,6) by (simp add: shown_path_def)
  next
    case False
    then have "n \<notin> set (elems_of S m)" using elems_of_le [OF tr m(1), of n] m(1) new f(4) by force
    then show ?thesis using False m ap f(3-6) cm by (simp add: shown_path_def abs_paths_def)
  qed
  then have po: "paths_ok S" by (simp add: paths_ok_def)
  have us: "unlinked S" using un f(8-10) by (simp add: unlinked_def)
  then show ?thesis
    using tr tn po unlinked_ok [OF us] f(1,4,6,7)
    by (simp add: at_top_def vd_ok_def fresh_def tidy_names_def srcs_current_def)
qed

text \<open>Entering one more node.\<close>

lemma plant:
  fixes k :: klass
  assumes a: "at_top (fresh D S)" and u: "unlinked S" and d: "d < fs_next S" "nd_class (fs_nodes S d) = DirK"
    and c: "proper_name c" "tidy c" and p: "p = abs_of (comps S d @ [c])" "fs_lookupDict S p = None"
  defines "S' \<equiv> enter_node p c k d S"
  shows "at_top (fresh D S')" and "unlinked S'" and "grown S S'" and "fs_next S' = Suc (fs_next S)"
    and "comps S' (fs_next S) = comps S d @ [c]" and "nd_class (fs_nodes S' (fs_next S)) = k"
    and "nd_name (fs_nodes S' (fs_next S)) = c" and "nd_dir (fs_nodes S' (fs_next S)) = d"
proof -
  have t: "tree_ok S" using a by (simp add: at_top_def vd_ok_def fresh_def)
  have st: "tree_steps tidy S S'" unfolding S'_def by (rule enter_node_steps [where P = tidy, OF d c p])
  then have "looks (fresh D S) (fresh D S')" by (simp add: looks_def fresh_def)
  then show "at_top (fresh D S')" by (rule at_top_looks [OF a])
  show "unlinked S'" by (rule unlinked_steps [OF st u])
  show nx: "fs_next S' = Suc (fs_next S)" by (simp add: S'_def enter_node_def morph_dir_def Let_def)
  have e: "tree_ok S' \<and> grown S S' \<and> comps S' (fs_next S) = comps S d @ [c] \<and>
      fs_next S < fs_next S' \<and> nd_class (fs_nodes S' (fs_next S)) = k"
    by (rule enter_node_ok [OF t d c(1) p]) (simp add: S'_def)
  then show g: "grown S S'" "comps S' (fs_next S) = comps S d @ [c]" "nd_class (fs_nodes S' (fs_next S)) = k" by auto
  have nr: "fs_next S \<noteq> root_id" using tree_okD(1) [OF t] by simp
  have s: "comps S' (nd_dir (fs_nodes S' (fs_next S))) @ [nd_name (fs_nodes S' (fs_next S))] = comps S d @ [c]"
    using comps_step [of S' "fs_next S"] e nr by simp
  then show "nd_name (fs_nodes S' (fs_next S)) = c" by simp
  have "comps S' (nd_dir (fs_nodes S' (fs_next S))) = comps S' d" using s grown_comps [OF g(1) d(1)] by simp
  then show "nd_dir (fs_nodes S' (fs_next S)) = d"
    using comps_inj [of S' "nd_dir (fs_nodes S' (fs_next S))" d] e tree_ok_parent(2) [of S' "fs_next S"] nr
      grown_less [OF g(1) d(1)] by simp
qed

lemma no_entry: "tree_ok S \<Longrightarrow> (\<And>n. n < fs_next S \<Longrightarrow> p \<noteq> abs_of (comps S n)) \<Longrightarrow> p \<notin> root_keys \<Longrightarrow> fs_lookupDict S p = None"
  using tree_okD(6) [of S p] by (cases "fs_lookupDict S p") auto

section \<open>A small tree\<close>

lemma small_tree_at_top: "at_top (fresh no_disk small_tree) \<and> unlinked small_tree"
proof -
  obtain S where S: "fs_init no_disk ''/w'' = Inr S" "small_tree = snd (lookup no_disk ''a/b.c'' None FileK True S)"
    using small_init by (auto simp: fs_File_def)
  have p: "tidy_path ''/w''" "tidy_path ''a/b.c''" by code_simp+
  note i = fs_init_at_top [OF S(1) p(1), of no_disk]
  have v: "vd_ok (fresh no_disk S)" using i by (simp add: at_top_def)
  obtain r L where l: "in_fs (lookup no_disk ''a/b.c'' None FileK True) (fresh no_disk S) = (r, L)" by fastforce
  have L: "L = fresh no_disk small_tree" using l S(2) by (auto simp: in_fs_def fresh_def split: prod.splits)
  have "newline \<notin> set ''a/b.c''" by (simp add: newline_def)
  then have k: "looks (fresh no_disk S) L"
    using in_lookup(1) [OF v _ _ tidy_path_comps [OF v p(2)] l] by simp
  have "tree_steps tidy S small_tree" using k L by (simp add: looks_def fresh_def)
  then show ?thesis using at_top_looks [OF conjunct1 [OF i] k] L unlinked_steps i by auto
qed

text \<open>Beside \<open>/w/a/b.c\<close> the directory \<open>/w/v\<close> and its entry of the same name.\<close>

definition sprout :: fsys where
  "sprout = enter_node ''/w/v'' ''v'' DirK 1 small_tree"

definition twig :: fsys where
  "twig = enter_node ''/w/v/b.c'' ''b.c'' EntryK 4 sprout"

lemma small_comps: "comps small_tree 0 = []" "comps small_tree 1 = [''w'']" "comps small_tree 2 = [''w'', ''a'']"
  "comps small_tree 3 = [''w'', ''a'', ''b.c'']" "nd_class (fs_nodes small_tree 3) = FileK" "nd_dir (fs_nodes small_tree 3) = 2"
  by code_simp+

lemmas small_comps' = small_comps [unfolded One_nat_def]

lemma less_4: "n < (4::nat) \<longleftrightarrow> n = 0 \<or> n = 1 \<or> n = 2 \<or> n = 3" by arith

lemma less_5: "n < (5::nat) \<longleftrightarrow> n = 0 \<or> n = 1 \<or> n = 2 \<or> n = 3 \<or> n = 4" by arith

lemma sprout_facts:
  "at_top (fresh no_disk sprout)" "unlinked sprout" "grown small_tree sprout" "fs_next sprout = 5"
  "comps sprout 4 = [''w'', ''v'']" "nd_class (fs_nodes sprout 4) = DirK" "nd_name (fs_nodes sprout 4) = ''v''"
  "nd_dir (fs_nodes sprout 4) = 1"
proof -
  have p: "''/w/v'' = abs_of (comps small_tree 1 @ [''v''])" by (simp add: small_comps' sep_def)
  have none: "fs_lookupDict small_tree ''/w/v'' = None"
    by (rule no_entry [OF small_tree_ok]) (auto simp: small_tree_facts(1) less_4 small_comps' root_keys_def sep_def)
  have one: "1 < fs_next small_tree" by (simp add: small_tree_facts(1))
  have c: "proper_name ''v''" "tidy ''v''" by code_simp+
  note f = plant [OF conjunct1 [OF small_tree_at_top] conjunct2 [OF small_tree_at_top] one small_tree_facts(8) c p none,
      where k = DirK, folded sprout_def, unfolded small_tree_facts(1)]
  show "at_top (fresh no_disk sprout)" "unlinked sprout" "grown small_tree sprout" "fs_next sprout = 5"
    "comps sprout 4 = [''w'', ''v'']" "nd_class (fs_nodes sprout 4) = DirK" "nd_name (fs_nodes sprout 4) = ''v''"
    "nd_dir (fs_nodes sprout 4) = 1"
    using f small_comps' by simp_all
qed

lemma sprout_comps:
  "comps sprout 0 = []" "comps sprout (Suc 0) = [''w'']" "comps sprout 2 = [''w'', ''a'']" "comps sprout 3 = [''w'', ''a'', ''b.c'']"
  using grown_comps [OF sprout_facts(3)] small_comps' small_tree_facts(1) by simp_all

lemma twig_planted:
  "at_top (fresh no_disk twig)" "unlinked twig" "grown sprout twig" "fs_next twig = 6"
  "comps twig 5 = [''w'', ''v'', ''b.c'']" "nd_class (fs_nodes twig 5) = EntryK" "nd_name (fs_nodes twig 5) = ''b.c''"
  "nd_dir (fs_nodes twig 5) = 4"
proof -
  have p: "''/w/v/b.c'' = abs_of (comps sprout 4 @ [''b.c''])" by (simp add: sprout_facts sep_def)
  have t: "tree_ok sprout" using sprout_facts(1) by (simp add: at_top_def vd_ok_def fresh_def)
  have none: "fs_lookupDict sprout ''/w/v/b.c'' = None"
    by (rule no_entry [OF t]) (auto simp: sprout_facts less_5 sprout_comps root_keys_def sep_def)
  have d: "4 < fs_next sprout" by (simp add: sprout_facts)
  have c: "proper_name ''b.c''" "tidy ''b.c''" by code_simp+
  note f = plant [OF sprout_facts(1,2) d sprout_facts(6) c p none, where k = EntryK, folded twig_def, unfolded sprout_facts(4,5)]
  show "at_top (fresh no_disk twig)" "unlinked twig" "grown sprout twig" "fs_next twig = 6"
    "comps twig 5 = [''w'', ''v'', ''b.c'']" "nd_class (fs_nodes twig 5) = EntryK" "nd_name (fs_nodes twig 5) = ''b.c''"
    "nd_dir (fs_nodes twig 5) = 4"
    using f by simp_all
qed

lemma twig_grown: "grown small_tree twig"
  by (rule grown_trans [OF sprout_facts(3) twig_planted(3)])

lemma twig_facts:
  "tree_ok twig" "vd_ok (fresh no_disk twig)" "comps twig 0 = []" "comps twig (Suc 0) = [''w'']" "comps twig 2 = [''w'', ''a'']"
  "comps twig 3 = [''w'', ''a'', ''b.c'']" "comps twig 4 = [''w'', ''v'']"
  "nd_class (fs_nodes twig 2) = DirK" "nd_class (fs_nodes twig 3) = FileK" "nd_class (fs_nodes twig 4) = DirK"
  "nd_dir (fs_nodes twig 3) = 2" "nd_dir (fs_nodes twig 4) = Suc 0" "nd_name (fs_nodes twig 3) = ''b.c''" "fs_top twig = Suc 0"
  "nd_dir (fs_nodes twig 2) = Suc 0" "nd_dir (fs_nodes twig (Suc 0)) = 0" "fs_cwd twig = Suc 0"
proof -
  show t: "tree_ok twig" "vd_ok (fresh no_disk twig)" using twig_planted(1) by (simp_all add: at_top_def vd_ok_def fresh_def)
  show "comps twig 0 = []" "comps twig (Suc 0) = [''w'']" "comps twig 2 = [''w'', ''a'']" "comps twig 3 = [''w'', ''a'', ''b.c'']"
    "comps twig 4 = [''w'', ''v'']"
    using grown_comps [OF twig_planted(3)] sprout_comps sprout_facts(4,5) by simp_all
  have d: "nd_dir (fs_nodes small_tree 2) = Suc 0" "nd_dir (fs_nodes small_tree (Suc 0)) = 0" by code_simp+
  show "nd_class (fs_nodes twig 2) = DirK" "nd_class (fs_nodes twig 3) = FileK" "nd_dir (fs_nodes twig 3) = 2"
    "nd_name (fs_nodes twig 3) = ''b.c''" "fs_top twig = Suc 0" "nd_dir (fs_nodes twig 2) = Suc 0" "nd_dir (fs_nodes twig (Suc 0)) = 0"
    "fs_cwd twig = Suc 0"
    using twig_grown small_comps'(5,6) small_tree_facts d by (auto simp: grown_def)
  show "nd_class (fs_nodes twig 4) = DirK" "nd_dir (fs_nodes twig 4) = Suc 0"
    using twig_planted(3) sprout_facts(4,6,8) by (auto simp: grown_def)
qed

lemma twig_elems: "elems_of twig 0 = [0]" "elems_of twig (Suc 0) = [0, Suc 0]" "elems_of twig 2 = [0, Suc 0, 2]" "elems_of twig 4 = [0, Suc 0, 4]"
  "elems_of twig 3 = [0, Suc 0, 2, 3]"
proof -
  note e = elems_of_step [OF twig_facts(1)]
  show 0: "elems_of twig 0 = [0]" using elems_of_root [of twig] by (simp add: root_id_def)
  show 1: "elems_of twig (Suc 0) = [0, Suc 0]" using e [of "Suc 0"] 0 by (simp add: twig_planted twig_facts root_id_def)
  show 2: "elems_of twig 2 = [0, Suc 0, 2]" using e [of 2] 1 by (simp add: twig_planted twig_facts root_id_def)
  show "elems_of twig 4 = [0, Suc 0, 4]" using e [of 4] 1 by (simp add: twig_planted twig_facts root_id_def)
  show "elems_of twig 3 = [0, Suc 0, 2, 3]" using e [of 3] 2 by (simp add: twig_planted twig_facts root_id_def)
qed

text \<open>There \<open>/w/v\<close> is made a variant directory of \<open>/w/a\<close>, without duplication.\<close>

definition twig_linked :: linked where
  "twig_linked = dir_link 4 2 False (fresh no_disk twig)"

lemma twig_link: "variant_dir_nodes 4 2 False (fresh no_disk twig) = (Inr (), twig_linked)"
proof -
  have "\<not> is_under twig 2 4" using is_under_elems [OF twig_facts(1), of 2 4] by (simp add: twig_elems twig_planted)
  moreover have "nd_srcdir (fs_nodes twig 4) = None" using twig_planted(2) by (simp add: unlinked_def)
  ultimately show ?thesis by (simp add: variant_dir_nodes_def twig_linked_def fresh_def)
qed

lemma twig_linked_ok:
  "vd_ok twig_linked" "same_tree twig (lk_fs twig_linked)" "at_top twig_linked"
  "nd_srcdir (node_of twig_linked n) = (if n = 4 then Some 2 else None)"
  "nd_variant_dirs (node_of twig_linked n) = (if n = 2 then [4] else [])" "lk_srcdirs twig_linked = Map.empty"
proof -
  have f: "lk_fs (fresh no_disk twig) = twig" "lk_srcdirs (fresh no_disk twig) = Map.empty" by (simp_all add: fresh_def)
  note st = dir_link_state [where d = 4 and s = 2 and dup = False and L = "fresh no_disk twig", folded twig_linked_def, unfolded f]
  have "4 < fs_next twig" "2 < fs_next twig" by (simp_all add: twig_planted)
  then show v: "vd_ok twig_linked"
    using variant_dir_nodes_ok(1) [OF twig_facts(2) _ _ _ _ twig_link] by (simp add: f twig_facts)
  show s: "same_tree twig (lk_fs twig_linked)" using st(1) by simp
  have "shown_path (lk_fs twig_linked) m = shown_path twig m" for m
    using s same_tree_comps [OF s] by (simp add: shown_path_def same_tree_def)
  then show "at_top twig_linked"
    using v twig_planted(1) s unfolding at_top_def paths_ok_def by (simp add: same_tree_def f)
  show "nd_srcdir (node_of twig_linked n) = (if n = 4 then Some 2 else None)"
    "nd_variant_dirs (node_of twig_linked n) = (if n = 2 then [4] else [])"
    using st(2,3) twig_planted(2) by (auto simp: unlinked_def)
  have "lk_srcdirs twig_linked m = None" for m using st(6) [of m] by (cases "lk_srcdirs twig_linked m") auto
  then show "lk_srcdirs twig_linked = Map.empty" by (simp add: fun_eq_iff)
qed

section \<open>Variant directories not inside each other\<close>

definition flat :: "fsys \<Rightarrow> bool" where
  "flat S \<longleftrightarrow> (\<forall>b e. nd_srcdir (fs_nodes S b) \<noteq> None \<longrightarrow> nd_srcdir (fs_nodes S e) \<noteq> None \<longrightarrow> e < fs_next S \<longrightarrow>
     b \<in> set (elems_of S e) \<longrightarrow> b = e)"

lemma prefix_elems: "tree_ok S \<Longrightarrow> n < fs_next S \<Longrightarrow> v < fs_next S \<Longrightarrow> comps S n = comps S v @ x \<Longrightarrow> v \<in> set (elems_of S n)"
proof (induction n arbitrary: x rule: less_induct)
  case (less n)
  show ?case
  proof (cases x rule: rev_cases)
    case Nil
    then show ?thesis using comps_inj [OF less.prems(1-3)] less.prems(4) in_own_elems [OF less.prems(1,2)] by simp
  next
    case (snoc y c)
    then have nr: "n \<noteq> root_id" using less.prems(4) by auto
    note p = tree_ok_parent [OF less.prems(1,2) nr]
    have "comps S (nd_dir (fs_nodes S n)) = comps S v @ y"
      using comps_step [OF less.prems(1,2) nr] less.prems(4) snoc by simp
    from less.IH [OF p(1) less.prems(1) p(2) less.prems(3) this] show ?thesis
      using elems_of_step [OF less.prems(1,2) nr] by simp
  qed
qed

lemma elems_distinct: "tree_ok S \<Longrightarrow> n < fs_next S \<Longrightarrow> distinct (elems_of S n)"
proof (induction n rule: less_induct)
  case (less n)
  show ?case
  proof (cases "n = root_id")
    case False
    note p = tree_ok_parent [OF less.prems False]
    have "n \<notin> set (elems_of S (nd_dir (fs_nodes S n)))" using elems_of_le [OF less.prems(1) p(2)] p(1) by force
    then show ?thesis using elems_of_step [OF less.prems False] less.IH [OF p(1) less.prems(1) p(2)] by simp
  qed simp
qed

lemma concat_only:
  assumes "distinct xs" and "v \<in> set xs" and "\<And>e. e \<in> set xs \<Longrightarrow> e \<noteq> v \<Longrightarrow> f e = []"
  shows "concat (map f xs) = f v"
  using assms
proof (induction xs)
  case (Cons x xs)
  show ?case
  proof (cases "x = v")
    case True
    then have "\<forall>e\<in>set xs. f e = []" using Cons.prems(1,3) by auto
    then show ?thesis using True by simp
  next
    case False
    then show ?thesis using Cons by auto
  qed
qed simp

text \<open>Below a variant directory there is one source directory: the same place below its source.\<close>

lemma one_source:
  assumes t: "tree_ok S" and f: "flat S" and p: "p < fs_next S" and v: "v < fs_next S" "nd_srcdir (fs_nodes S v) = Some b"
    and c: "comps S p = comps S v @ ws"
  shows "srcs_spec S p = [comps S b @ ws]"
proof -
  have vp: "v \<in> set (elems_of S p)" by (rule prefix_elems [OF t p v(1) c])
  have other: "nd_srcdir (fs_nodes S e) = None" if ep: "e \<in> set (elems_of S p)" and ev: "e \<noteq> v" for e
  proof (rule ccontr)
    assume ne: "nd_srcdir (fs_nodes S e) \<noteq> None"
    have e: "e < fs_next S" using elems_of_le [OF t p ep] by simp
    obtain us vs where u: "elems_of S p = elems_of S v @ us" "elems_of S p = elems_of S e @ vs"
      using elems_of_above [OF t p vp] elems_of_above [OF t p ep] by blast
    then have "(\<exists>ws. elems_of S e = elems_of S v @ ws) \<or> (\<exists>ws. elems_of S v = elems_of S e @ ws)"
      by (metis append_eq_append_conv2)
    then have "v \<in> set (elems_of S e) \<or> e \<in> set (elems_of S v)"
      using in_own_elems [OF t v(1)] in_own_elems [OF t e] by auto
    then show False using f ne v e ev unfolding flat_def by (metis option.distinct(1))
  qed
  show ?thesis
    unfolding srcs_spec_def srcs_from_def chain_elems [OF t p]
    by (subst concat_only [where v = v]) (use elems_distinct [OF t p] vp other v c in auto)
qed

section \<open>Properties\<close>

text \<open>
  C27: The memo of \<open>srcdir_list\<close> is never stale: after any sequence of lookups, \<open>VariantDir\<close> and
  \<open>Repository\<close> calls and earlier questions, it gives for every directory, from the nearest up, the
  same place below the source of each variant directory it is in, as the links are now. The paths
  looked up and linked have no component with a newline or a leading hash sign (\<open>tidy\<close>).
\<close>

theorem source_dirs_current:
  assumes "vd_ok L0" and "linking L0 L" and "d < fs_next (lk_fs L)" and "srcdir_list d L = (Inr rs, L')"
  shows "map (comps (lk_fs L')) rs = srcs_spec (lk_fs L) d \<and> vd_ok L'"
  using srcdir_list_ok [OF linking_ok [OF assms(2,1)] assms(3,4)] by (simp add: dirs_at_def)

lemma twig_linked_lookup:
  assumes "n < 6" and "lookup_comps (lk_fs twig_linked) (Some d) p = comps twig n" and "newline \<notin> set p"
    and "d < 6" "nd_class (fs_nodes twig d) = DirK" and "nd_class (fs_nodes twig n) = k \<or> k = EntryK"
  shows "lookup E p (Some d) k True (lk_fs twig_linked) = (Inr n, lk_fs twig_linked)"
proof -
  note s = twig_linked_ok(2)
  show ?thesis
    by (rule lookup_existing [OF vd_okD(1) [OF twig_linked_ok(1)] assms(3)])
      (use s same_tree_comps [OF s] assms twig_planted(4) in \<open>auto simp: same_tree_def\<close>)
qed

lemma twig_chain: "chain (lk_fs twig_linked) 4 = [4, Suc 0, 0]" "chain (lk_fs twig_linked) 2 = [2, Suc 0, 0]"
  using chain_elems [OF twig_facts(1)] same_tree_chain [OF twig_linked_ok(2)] by (simp_all add: twig_planted twig_elems)

lemma twig_source_dirs:
  "srcdir_list 4 twig_linked = (Inr [2], twig_linked\<lparr>lk_srcdirs := [4 \<mapsto> [2]]\<rparr>)"
proof -
  have c: "lookup_comps (lk_fs twig_linked) (Some 2) ''.'' = comps twig 2"
    using dots_comps [of "[]"] same_tree_comps [OF twig_linked_ok(2)] by simp
  have "lookup (lk_disk twig_linked) ''.'' (Some 2) DirK True (lk_fs twig_linked) = (Inr 2, lk_fs twig_linked)"
    by (rule twig_linked_lookup [OF _ c]) (simp_all add: twig_facts newline_def)
  then have "dir_Dir 2 ''.'' twig_linked = (Inr 2, twig_linked)" by (simp add: dir_Dir_def in_fs_def fs_class_lookup)
  then show ?thesis
    by (simp add: srcdir_list_def twig_linked_ok(4,6) twig_chain)
qed

theorem source_dirs_current_witness:
  "\<exists>L'. srcdir_list 4 twig_linked = (Inr [2], L') \<and> map (comps (lk_fs L')) [2] = srcs_spec (lk_fs twig_linked) 4 \<and>
     srcs_spec (lk_fs twig_linked) 4 = [[''w'', ''a'']]"
proof -
  have n: "4 < fs_next (lk_fs twig_linked)" using twig_linked_ok(2) twig_planted(4) by (simp add: same_tree_def)
  have c: "comps (lk_fs twig_linked) 2 = [''w'', ''a'']"
    using same_tree_comps [OF twig_linked_ok(2)] twig_facts(5) by simp
  show ?thesis
    using source_dirs_current [OF twig_linked_ok(1) linking.none n twig_source_dirs] twig_source_dirs c by simp
qed

text \<open>Searching below a tree that has only grown keeps variant directories out of each other.\<close>

lemma flat_kept:
  fixes L' :: linked
  assumes "vd_ok L" and "flat (lk_fs L)" and gr: "grown (lk_fs L) (lk_fs L')" and sl: "same_links (lk_fs L) (lk_fs L')"
  shows "flat (lk_fs L')"
  unfolding flat_def
proof (intro allI impI)
  fix x e
  assume a: "nd_srcdir (node_of L' x) \<noteq> None" "nd_srcdir (node_of L' e) \<noteq> None" "e < fs_next (lk_fs L')"
    "x \<in> set (elems_of (lk_fs L') e)"
  have old: "nd_srcdir (node_of L x) \<noteq> None" "nd_srcdir (node_of L e) \<noteq> None" using a sl by (auto simp: same_links_def)
  then have "e < fs_next (lk_fs L)" using loneD [OF links_okD(1) [OF vd_okD(3) [OF assms(1)]], of e] by force
  then show "x = e" using assms(2) old a(4) grown_elems [OF gr] unfolding flat_def by metis
qed

text \<open>
  The climb from a file: it is its own target when its directory is in a variant directory of a directory above,
  and otherwise the targets are at its place in every variant directory.
\<close>

lemma alter_targets_at:
  assumes "at_top L" and "n < fs_next (lk_fs L)" and "nd_class (node_of L n) = FileK"
    and "alter_targets False n L = (Inr ts, L')"
  shows "(if reflects (lk_fs L) (nd_dir (node_of L n)) (nd_dir (node_of L n)) then ts = [n]
      else at (lk_fs L') ts (climb_from (lk_fs L) (nd_dir (node_of L n)) (comps (lk_fs L) n))) \<and>
    vd_ok L' \<and> grown (lk_fs L) (lk_fs L') \<and> same_links (lk_fs L) (lk_fs L')"
proof -
  let ?S = "lk_fs L" and ?d = "nd_dir (node_of L n)" and ?name = "nd_name (node_of L n)"
  have v: "vd_ok L" using assms(1) by (simp add: at_top_def)
  note t = vd_okD(1) [OF v]
  have nr: "n \<noteq> root_id" using assms(3) tree_okD(2) [OF t] by force
  note p = tree_ok_parent [OF t assms(2) nr]
  obtain r1 L1 where 1: "climb_loop ?d [?name] (chain ?S ?d) L = (r1, L1)" by fastforce
  have g: "good_names [?name]" using name_good [OF v assms(2) nr] by simp
  note k = climb_loop_ok [OF assms(1) p(2) g 1 p(2)]
  have cn: "comps ?S ?d @ [?name] = comps ?S n" using comps_step [OF t assms(2) nr] by simp
  have o: "vd_ok L1" "grown ?S (lk_fs L1)" "same_links ?S (lk_fs L1)" using looks_ok [OF v] k by blast+
  obtain c where c: "r1 = Inr c" "ts = (case c of Reflected \<Rightarrow> [n] | Targets ns \<Rightarrow> ns)" "L' = L1"
    using assms(3,4) 1 by (cases r1) (auto simp: alter_targets_def variant_dir_target_climb_def then_do_def)
  show ?thesis
  proof (cases c)
    case Reflected
    then show ?thesis using k c o by simp
  next
    case (Targets ns)
    then have "\<not> reflects ?S ?d ?d" "at (lk_fs L1) ns (climb_from ?S ?d (comps ?S n))"
      using k c(1) cn by auto
    then show ?thesis using Targets c o by simp
  qed
qed

text \<open>The source of a target is the node whose path the climb took it from.\<close>

lemma target_leads_back:
  assumes v: "vd_ok L" and n: "n < fs_next (lk_fs L)" "n \<noteq> root_id" and v1: "vd_ok L'"
    and gr: "grown (lk_fs L) (lk_fs L')" and sl: "same_links (lk_fs L) (lk_fs L')"
    and at: "at (lk_fs L') ts (climb_from (lk_fs L) (nd_dir (node_of L n)) (comps (lk_fs L) n))"
    and f: "flat (lk_fs L)" and tt: "t' \<in> set ts" and m: "node_srcnode t' L' = (Inr m, L2)"
  shows "m = n"
proof -
  let ?S = "lk_fs L" and ?S1 = "lk_fs L'" and ?d = "nd_dir (node_of L n)" and ?name = "nd_name (node_of L n)"
  note t = vd_okD(1) [OF v] and t1 = vd_okD(1) [OF v1]
  note p = tree_ok_parent [OF t n]
  have cn: "comps ?S ?d @ [?name] = comps ?S n" using comps_step [OF t n] by simp
  have tn: "t' < fs_next ?S1" using at tt by (simp add: at_def)
  have "comps ?S1 t' \<in> set (map (comps ?S1) ts)" using tt by simp
  then have "comps ?S1 t' \<in> set (climb_from ?S ?d (comps ?S n))" using at by (simp only: at_def)
  then obtain b v where b: "b \<in> set (chain ?S ?d)" "v \<in> set (nd_variant_dirs (node_of L b))"
      "comps ?S1 t' = comps ?S v @ drop (length (comps ?S b)) (comps ?S n)"
    by (auto simp: climb_from_def)
  note vd = variant_is_dir [OF \<open>vd_ok L\<close> b(2)]
  have be: "b \<in> set (elems_of ?S ?d)" using b(1) chain_elems [OF t p(2)] by simp
  obtain ws where ws: "comps ?S ?d = comps ?S b @ ws" using elems_of_above [OF t p(2) be] by blast
  have ct: "comps ?S1 t' = comps ?S1 v @ ws @ [?name]"
    using b(3) ws cn grown_comps [OF gr, of v] vd by (simp flip: cn)
  then have tr: "t' \<noteq> root_id" by auto
  note q = tree_ok_parent [OF t1 tn tr]
  have pt: "comps ?S1 (nd_dir (node_of L' t')) = comps ?S1 v @ ws" "nd_name (node_of L' t') = ?name"
    using comps_step [OF t1 tn tr] ct by (simp_all add: append_assoc [symmetric] del: append_assoc)
  have vn: "v < fs_next ?S1" "nd_srcdir (node_of L' v) = Some b" using vd grown_less [OF gr] sl by (auto simp: same_links_def)
  note fl = flat_kept [OF \<open>vd_ok L\<close> f gr sl]
  have "nd_srcdir (node_of L' t') = None"
  proof (rule ccontr)
    assume "nd_srcdir (node_of L' t') \<noteq> None"
    then have "v = t'" using fl vn tn prefix_elems [OF t1 tn vn(1) ct] unfolding flat_def by blast
    then show False using ct by simp
  qed
  then have "base_srcnode t' L' = (Inr m, L2)" using m by (simp add: node_srcnode_def)
  note s = base_srcnode_ok [OF v1 tn tr this]
  have "comps (lk_fs L2) m = (comps ?S1 b @ ws) @ [?name]"
    using s one_source [OF t1 fl q(2) vn pt(1)] pt(2) by simp
  moreover have bn: "b < fs_next ?S" using elems_of_le [OF t p(2) be] by simp
  ultimately have "comps (lk_fs L2) m = comps ?S n" using ws cn grown_comps [OF gr bn] by simp
  moreover have "grown ?S (lk_fs L2)" using s grown_trans [OF gr] by blast
  ultimately show "m = n"
    using comps_inj [of "lk_fs L2" m n] s grown_less [of ?S "lk_fs L2" n] grown_comps [of ?S "lk_fs L2" n] n(1) vd_okD(1) by simp
qed

text \<open>
  C28: The targets that stand for a file that is not derived, with the current directory at the top: when a
  directory on the way up has a variant directory that holds the file's own directory, the file itself (it is not
  reflected again); otherwise the entries at its place in every variant directory of a directory above it, and
  where no variant directory is inside another the source of each of them is the file it started from.
\<close>

theorem variant_round_trip:
  assumes "at_top L" and "n < fs_next (lk_fs L)" and "nd_class (node_of L n) = FileK"
    and "alter_targets False n L = (Inr ts, L')"
  shows "if reflects (lk_fs L) (nd_dir (node_of L n)) (nd_dir (node_of L n)) then ts = [n]
    else map (comps (lk_fs L')) ts = climb_from (lk_fs L) (nd_dir (node_of L n)) (comps (lk_fs L) n) \<and>
      (flat (lk_fs L) \<longrightarrow> (\<forall>t\<in>set ts. \<forall>m L2. node_srcnode t L' = (Inr m, L2) \<longrightarrow> m = n))"
proof -
  have v: "vd_ok L" using assms(1) by (simp add: at_top_def)
  have nr: "n \<noteq> root_id" using assms(3) tree_okD(2) [OF vd_okD(1) [OF v]] by force
  note a = alter_targets_at [OF assms]
  show ?thesis using a target_leads_back [OF v assms(2) nr] by (auto simp: at_def)
qed

lemma twig_same: "comps (lk_fs twig_linked) = comps twig" "elems_of (lk_fs twig_linked) n = elems_of twig n"
  "fs_next (lk_fs twig_linked) = 6" "nd_class (node_of twig_linked n) = nd_class (fs_nodes twig n)"
  "nd_dir (node_of twig_linked n) = nd_dir (fs_nodes twig n)" "nd_name (node_of twig_linked n) = nd_name (fs_nodes twig n)"
  using twig_linked_ok(2) same_tree_comps [OF twig_linked_ok(2)] twig_planted(4) by (auto simp: same_tree_def fun_eq_iff)

lemma twig_flat: "flat (lk_fs twig_linked)"
  by (auto simp: flat_def twig_linked_ok(4))

lemma twig_targets: "alter_targets False 3 twig_linked = (Inr [5], twig_linked)"
proof -
  let ?S = "lk_fs twig_linked"
  have cwd: "fs_cwd ?S = fs_top ?S" using twig_linked_ok(3) by (simp add: at_top_def)
  have b: "4 < fs_next ?S" and g: "good_names [''b.c'']" by (simp add: twig_same, code_simp)
  note sc = shown_path_comps [OF twig_linked_ok(1) cwd b g]
  have path: "nd_path (node_of twig_linked 4) = shown_path ?S 4"
    using twig_linked_ok(3) by (simp add: at_top_def paths_ok_def twig_same twig_facts)
  have "lookup (lk_disk twig_linked) (foldl path_join (shown_path ?S 4) [''b.c'']) None EntryK True ?S = (Inr 5, ?S)"
    by (rule lookup_existing [OF vd_okD(1) [OF twig_linked_ok(1)] sc(2)])
      (use sc(1) in \<open>simp_all add: twig_same twig_facts twig_planted\<close>)
  then have e: "in_fs (fs_Entry (lk_disk twig_linked) (path_join (shown_path ?S 4) ''b.c'') None True) twig_linked = (Inr 5, twig_linked)"
    by (simp add: in_fs_def fs_class_lookup)
  have "\<not> is_under ?S 2 4"
    using is_under_elems [OF vd_okD(1) [OF twig_linked_ok(1)], of 2 4] by (simp add: twig_same twig_elems)
  then show ?thesis
    by (simp add: alter_targets_def variant_dir_target_climb_def twig_same twig_facts twig_chain twig_linked_ok(5) path e)
qed

theorem variant_round_trip_witness:
  "\<exists>L2. alter_targets False 3 twig_linked = (Inr [5], twig_linked) \<and> comps (lk_fs twig_linked) 5 = [''w'', ''v'', ''b.c''] \<and>
     node_srcnode 5 twig_linked = (Inr 3, L2)"
proof -
  let ?L2 = "twig_linked\<lparr>lk_srcdirs := [4 \<mapsto> [2]]\<rparr>"
  have c: "lookup_comps (lk_fs twig_linked) (Some 2) ''b.c'' = comps twig 3"
  proof -
    have "proper_name ''b.c''" "tidy ''b.c''" by code_simp+
    then show ?thesis using name_comps by (simp add: twig_same twig_facts)
  qed
  have "lookup (lk_disk ?L2) ''b.c'' (Some 2) EntryK True (lk_fs twig_linked) = (Inr 3, lk_fs twig_linked)"
    by (rule twig_linked_lookup [OF _ c]) (simp_all add: twig_facts newline_def)
  then have d: "dir_Entry 2 ''b.c'' ?L2 = (Inr 3, ?L2)" by (simp add: dir_Entry_def in_fs_def fs_class_lookup)
  have m: "in_fs (must_be_same EntryK 3) ?L2 = (Inr (), ?L2)"
    by (simp add: in_fs_def must_be_same_def twig_same twig_facts)
  have "base_srcnode 5 twig_linked = (Inr 3, ?L2)"
    by (simp add: base_srcnode_def twig_source_dirs twig_same twig_planted d m)
  then have s: "node_srcnode 5 twig_linked = (Inr 3, ?L2)" by (simp add: node_srcnode_def twig_linked_ok(4))
  have "\<not> reflects (lk_fs twig_linked) 2 2"
    using is_under_elems [OF vd_okD(1) [OF twig_linked_ok(1)], of 2 4]
    by (auto simp: reflects_def twig_chain twig_same twig_elems twig_linked_ok)
  then have "(3::fsid) = 3 \<and> map (comps (lk_fs twig_linked)) [5] = climb_from (lk_fs twig_linked) (nd_dir (node_of twig_linked 3))
      (comps (lk_fs twig_linked) 3)"
    using variant_round_trip [OF twig_linked_ok(3) _ _ twig_targets] twig_flat s by (simp add: twig_same twig_facts)
  then show ?thesis using s twig_targets by (simp add: twig_same twig_planted)
qed

text \<open>
  \<open>VariantDir\<close> keeps the links consistent whatever it answers: directories and sources stay each
  other's inverse, and no source is below its variant directory; when it returns, the directory
  at the one path has the directory at the other path as its source.
\<close>

theorem variant_dir_links:
  assumes "vd_ok L" and "tidy_path variant" and "tidy_path src" and "VariantDir variant src dup L = (r, L')"
  shows "links_ok (lk_fs L') \<and> (r = Inr () \<longrightarrow> (\<exists>v s. nd_srcdir (node_of L' v) = Some s \<and> v \<in> set (nd_variant_dirs (node_of L' s)) \<and>
    comps (lk_fs L') v = lookup_comps (lk_fs L) None variant \<and> comps (lk_fs L') s = lookup_comps (lk_fs L) None src))"
proof -
  note k = VariantDir_ok [OF assms]
  have "links_ok (lk_fs L')" using vd_okD(3) [OF k(1)] .
  then show ?thesis using k(3) links_okD(4) by blast
qed

theorem variant_dir_links_witness:
  "\<exists>r L'. VariantDir ''v'' ''a'' False (fresh no_disk twig) = (r, L') \<and> links_ok (lk_fs L')"
proof -
  obtain r L' where e: "VariantDir ''v'' ''a'' False (fresh no_disk twig) = (r, L')" by fastforce
  have "tidy_path ''v''" "tidy_path ''a''" by code_simp+
  then show ?thesis using variant_dir_links [OF twig_facts(2) _ _ e] e by blast
qed

section \<open>Two variant directories that are each other's source\<close>

lemma dir_link_more:
  assumes "d \<in> set (cleared_nodes (lk_fs (on_node d (\<lambda>x. x\<lparr>nd_srcdir := Some s, nd_dup := dup\<rparr>) L)) d)"
  shows "nd_dup (node_of (dir_link d s dup L) d) = dup" and "lk_rdirs (dir_link d s dup L) d = None"
    and "lk_rdirs L n = None \<Longrightarrow> lk_rdirs (dir_link d s dup L) n = None"
    and "nd_dup (node_of L n) = dup \<Longrightarrow> nd_dup (node_of (dir_link d s dup L) n) = dup"
proof -
  have f: "nd_dup (node_of (fold (clear_node (Some dup)) ns L0) n) = (if n \<in> set ns then dup else nd_dup (node_of L0 n)) \<and>
      lk_rdirs (fold (clear_node (Some dup)) ns L0) n = (if n \<in> set ns then None else lk_rdirs L0 n)" for ns L0 n
    by (induction ns arbitrary: L0) (auto simp: clear_node_def upd_def)
  show "nd_dup (node_of (dir_link d s dup L) d) = dup" "lk_rdirs (dir_link d s dup L) d = None"
    "lk_rdirs L n = None \<Longrightarrow> lk_rdirs (dir_link d s dup L) n = None"
    "nd_dup (node_of L n) = dup \<Longrightarrow> nd_dup (node_of (dir_link d s dup L) n) = dup"
    using assms f by (auto simp: dir_link_def clear_repository_cache_def on_node_def upd_def)
qed

lemma rdirs_recurse:
  assumes "nd_srcdir (node_of L a) = Some b" and "nd_srcdir (node_of L b) = Some a" and "\<not> nd_dup (node_of L a)"
    and "\<not> nd_dup (node_of L b)" and "lk_rdirs L a = None" and "lk_rdirs L b = None" and "d = a \<or> d = b"
  shows "get_all_rdirs depth d L = (Inl RecursionErr, L)"
  using assms(7)
proof (induction depth arbitrary: d)
  case (Suc depth)
  have "chain (lk_fs L) d = d # tl (chain (lk_fs L) d)" by (subst (1 2) chain.simps) simp
  then obtain rest where ch: "chain (lk_fs L) d = d # rest" by blast
  have "getRepositories (get_all_rdirs depth) d L = (Inl RecursionErr, L)"
    using Suc.prems Suc.IH assms(1-4) by (auto simp: getRepositories_def)
  then show ?case using Suc.prems assms(5,6) ch by auto
qed (use assms(5,6) in auto)

text \<open>
  Two directories can be made each other's source, as only directories below one another are
  refused; without duplication the search for the directories one stands for then never ends:
  whatever the limit is, it is reached.
\<close>

theorem mutual_variants_recurse:
  assumes "vd_ok L" and "a < fs_next (lk_fs L)" "nd_class (node_of L a) = DirK" and "b < fs_next (lk_fs L)" "nd_class (node_of L b) = DirK"
    and "\<not> is_under (lk_fs L) a b" and "\<not> is_under (lk_fs L) b a"
    and "nd_srcdir (node_of L a) = None" and "nd_srcdir (node_of L b) = None" and "lk_rdirs L = Map.empty"
    and "variant_dir_nodes a b False L = (r1, L1)" and "variant_dir_nodes b a False L1 = (r2, L2)"
  shows "r1 = Inr () \<and> r2 = Inr () \<and> get_all_rdirs depth a L2 = (Inl RecursionErr, L2)"
proof -
  have ab: "a \<noteq> b" using assms(6) by (subst (asm) is_under.simps) auto
  have 1: "r1 = Inr ()" "L1 = dir_link a b False L" using assms(7,8,11) by (auto simp: variant_dir_nodes_def)
  note s1 = dir_link_state [where d = a and s = b and dup = False and L = L, folded 1(2)]
  note v1 = variant_dir_nodes_ok [OF assms(1-5) assms(11)]
  have u: "is_under (lk_fs L1) a b = is_under (lk_fs L) a b"
    using is_under_elems [OF vd_okD(1) [OF assms(1)] assms(2)] is_under_elems [OF vd_okD(1) [OF v1(1)] grown_less [OF v1(2) assms(2)]]
      grown_elems [OF v1(2) assms(2)] by simp
  have 2: "r2 = Inr ()" "L2 = dir_link b a False L1"
    using assms(6,9,12) u ab s1(2) [of b] by (auto simp: variant_dir_nodes_def)
  note s2 = dir_link_state [where d = b and s = a and dup = False and L = L1, folded 2(2)]
  have root: "x \<noteq> root_id" if "\<not> is_under (lk_fs L) y x" "y < fs_next (lk_fs L)" for x y
    using that is_under_elems [OF vd_okD(1) [OF assms(1)]] elems_of_root_in by blast
  have own: "d \<in> set (cleared_nodes (lk_fs (on_node d (\<lambda>x. x\<lparr>nd_srcdir := s, nd_dup := False\<rparr>) M)) d)"
    if "tree_ok (lk_fs M)" "d < fs_next (lk_fs M)" "d \<noteq> root_id" for d s M
    using tree_ok_parent(1) [OF that] by (intro cleared_self) (simp add: on_node_def)
  note m1 = dir_link_more [where s = b, OF own [OF vd_okD(1) [OF assms(1)] assms(2) root [OF assms(7,4)]], folded 1(2)]
  note m2 = dir_link_more [where s = a, OF own [OF vd_okD(1) [OF v1(1)] grown_less [OF v1(2) assms(4)] root [OF assms(6,2)]], folded 2(2)]
  have "get_all_rdirs depth a L2 = (Inl RecursionErr, L2)"
    by (rule rdirs_recurse [where a = a and b = b])
      (use s1(2) s2(2) m1 m2 ab assms(10) in auto)
  then show ?thesis using 1 2 by simp
qed

theorem mutual_variants_recurse_witness:
  "\<exists>L2. variant_dir_nodes 4 2 False (snd (variant_dir_nodes 2 4 False (fresh no_disk twig))) = (Inr (), L2) \<and>
     get_all_rdirs 1000 2 L2 = (Inl RecursionErr, L2)"
proof -
  let ?L = "fresh no_disk twig"
  obtain r1 L1 where 1: "variant_dir_nodes 2 4 False ?L = (r1, L1)" by fastforce
  obtain r2 L2 where 2: "variant_dir_nodes 4 2 False L1 = (r2, L2)" by fastforce
  have f: "lk_fs ?L = twig" "lk_rdirs ?L = Map.empty" by (simp_all add: fresh_def)
  have "\<not> is_under twig 2 4" "\<not> is_under twig 4 2"
    using is_under_elems [OF twig_facts(1)] by (simp_all add: twig_elems twig_planted)
  then have "r1 = Inr () \<and> r2 = Inr () \<and> get_all_rdirs 1000 2 L2 = (Inl RecursionErr, L2)"
    using mutual_variants_recurse [OF twig_facts(2) _ _ _ _ _ _ _ _ _ 1 2] twig_planted(2)
    by (simp add: f twig_facts twig_planted unlinked_def)
  then show ?thesis using 1 2 by auto
qed

end
