(* ===== verification/FileFind.thy ===== *)
theory FileFind
  imports FileLinks
begin

text \<open>
  The search for files on the disk, in repositories and in source directories, of \<open>Node/FS.py\<close>:
  what a directory finds for a name, the duplication of a source into its variant directory that
  looking for it brings about, and \<open>FileFinder\<close>. The memos of \<open>stat\<close> and \<open>exists\<close> are left out: the
  disk changes only by the duplications, after which the node is cleared. Symbolic links are followed
  and a link that leads nowhere is taken for nothing.
\<close>

section \<open>The disk\<close>

text \<open>
  Whether a node is derived, whether source code control has a name in a directory, whether
  linking two paths works, and whether actions are executed (not with \<open>-n\<close>).
\<close>

record fs_hooks =
  fh_derived :: "fsid \<Rightarrow> bool"
  fh_scm :: "fsid \<Rightarrow> string \<Rightarrow> bool"
  fh_link_ok :: "string \<Rightarrow> string \<Rightarrow> bool"
  fh_execute :: bool

definition on_disk :: "disk \<Rightarrow> string \<Rightarrow> bool" where
  "on_disk D p \<longleftrightarrow> dk_isdir D p \<or> dk_isfile D p"

definition abspath_of :: "linked \<Rightarrow> fsid \<Rightarrow> string" where
  "abspath_of L n = get_abspath (lk_fs L) n"

definition exists_base :: "fsid \<Rightarrow> linked \<Rightarrow> bool" where
  "exists_base n L = on_disk (lk_disk L) (abspath_of L n)"

text \<open>\<open>entry_exists_on_disk\<close>: the names are listed once.\<close>

definition listing :: "linked \<Rightarrow> fsid \<Rightarrow> string \<Rightarrow> bool" where
  "listing L d name \<longleftrightarrow> proper_name name \<and> on_disk (lk_disk L) (entry_abspath (lk_fs L) d name)"

definition entry_exists_on_disk :: "fsid \<Rightarrow> string \<Rightarrow> linked \<Rightarrow> bool \<times> linked" where
  "entry_exists_on_disk d name L =
     (case lk_listed L d of
        Some f \<Rightarrow> (f name, L)
      | None \<Rightarrow> (listing L d name, L\<lparr>lk_listed := (lk_listed L)(d \<mapsto> listing L d)\<rparr>))"

section \<open>What an entry is\<close>

definition change_class :: "klass \<Rightarrow> fsid \<Rightarrow> linked \<Rightarrow> linked" where
  "change_class k n L = clear_node None n (L\<lparr>lk_fs := become k n (lk_fs L)\<rparr>)"

text \<open>\<open>disambiguate\<close>: what is on the disk, else a directory when there is one in the source directory.\<close>

definition disambiguate :: "bool \<Rightarrow> fsid \<Rightarrow> linked \<Rightarrow> (fs_error + fsid) \<times> linked" where
  "disambiguate must_exist n L =
     (if nd_class (node_of L n) \<noteq> EntryK then (Inr n, L)
      else if dk_isdir (lk_disk L) (abspath_of L n) then (Inr n, change_class DirK n L)
      else if dk_isfile (lk_disk L) (abspath_of L n) then (Inr n, change_class FileK n L)
      else let d = nd_dir (node_of L n); name = nd_name (node_of L n) in
        then_do (node_srcnode d L) (\<lambda>s L1.
          let (there, L2) = (if s \<noteq> d then entry_exists_on_disk s name L1 else (False, L1)) in
          then_do (if there then then_do (node_srcnode n L2) (\<lambda>m L3. (Inr (dk_isdir (lk_disk L3) (abspath_of L3 m)), L3))
                   else (Inr False, L2))
            (\<lambda>isdir L4. if isdir then (Inr n, change_class DirK n L4)
               else if must_exist then (Inl (UserErr (''No such file or directory: '' @ CHR 0x27 # abspath_of L4 n @ [CHR 0x27])), L4)
               else (Inr n, change_class FileK n L4))))"

section \<open>Duplicating a source\<close>

definition with_disk :: "(disk \<Rightarrow> disk) \<Rightarrow> linked \<Rightarrow> linked" where
  "with_disk f L = L\<lparr>lk_disk := f (lk_disk L)\<rparr>"

definition make_dir :: "string \<Rightarrow> disk \<Rightarrow> disk" where
  "make_dir p D = D\<lparr>dk_isdir := (dk_isdir D)(p := True)\<rparr>"

definition unlink_file :: "string \<Rightarrow> disk \<Rightarrow> disk" where
  "unlink_file p D = D\<lparr>dk_isfile := (dk_isfile D)(p := False)\<rparr>"

definition link_file :: "string \<Rightarrow> disk \<Rightarrow> disk" where
  "link_file p D = D\<lparr>dk_isfile := (dk_isfile D)(p := True)\<rparr>"

text \<open>\<open>Dir._create\<close>: the missing directories from the first one that exists.\<close>

definition dir_create :: "fs_hooks \<Rightarrow> fsid \<Rightarrow> linked \<Rightarrow> (fs_error + unit) \<times> linked" where
  "dir_create H d L =
     (let missing = takeWhile (\<lambda>p. \<not> exists_base p L) (chain (lk_fs L) d) in
      if last (chain (lk_fs L) d) \<in> set missing then (Inl (StopErr (nd_path (node_of L (last missing)))), L)
      else (Inr (), if fh_execute H then with_disk (fold (\<lambda>p. make_dir (abspath_of L p)) (rev missing)) L else L))"

text \<open>\<open>File.do_duplicate\<close>; a directory does nothing. What is in the way is removed first.\<close>

definition do_duplicate :: "fs_hooks \<Rightarrow> fsid \<Rightarrow> fsid \<Rightarrow> linked \<Rightarrow> (fs_error + unit) \<times> linked" where
  "do_duplicate H n src L =
     (if nd_class (node_of L n) \<noteq> FileK then (Inr (), L)
      else then_do (dir_create H (nd_dir (node_of L n)) L) (\<lambda>_ L1.
        let dest = abspath_of L1 n; L2 = (if fh_execute H then with_disk (unlink_file dest) L1 else L1) in
        if fh_execute H \<and> \<not> fh_link_ok H (abspath_of L1 src) dest then (Inl (StopErr dest), L2)
        else (Inr (), let L3 = (if fh_execute H then with_disk (link_file dest) L2 else L2) in
               clear_node None n (L3\<lparr>lk_dups := n # lk_dups L3\<rparr>))))"

text \<open>\<open>srcdir_duplicate\<close>: the first source directory that has the name on the disk.\<close>

fun srcdir_duplicate_loop :: "fs_hooks \<Rightarrow> fsid \<Rightarrow> string \<Rightarrow> fsid list \<Rightarrow> linked \<Rightarrow> (fs_error + fsid option) \<times> linked" where
  "srcdir_duplicate_loop H d name [] L = (Inr None, L)"
| "srcdir_duplicate_loop H d name (s # ss) L =
     (if is_under (lk_fs L) d s then (Inr None, L)
      else case entry_exists_on_disk s name L of
        (False, L1) \<Rightarrow> srcdir_duplicate_loop H d name ss L1
      | (True, L1) \<Rightarrow>
          then_do (dir_Entry s name L1) (\<lambda>e L2. then_do (disambiguate False e L2) (\<lambda>src L3.
            if nd_dup (node_of L3 d)
            then then_do (dir_Entry d name L3) (\<lambda>e' L4. then_do (disambiguate False e' L4) (\<lambda>n L5.
              then_do (do_duplicate H n src L5) (\<lambda>_ L6. (Inr (Some n), L6))))
            else (Inr (Some src), L3))))"

definition srcdir_duplicate :: "fs_hooks \<Rightarrow> fsid \<Rightarrow> string \<Rightarrow> linked \<Rightarrow> (fs_error + fsid option) \<times> linked" where
  "srcdir_duplicate H d name L = then_do (srcdir_list d L) (\<lambda>ss L1. srcdir_duplicate_loop H d name ss L1)"

text \<open>What \<open>try: return ... except TypeError: pass\<close> leads to.\<close>

definition or_else_type ::
  "(fs_error + fsid) \<times> linked \<Rightarrow> (linked \<Rightarrow> (fs_error + fsid option) \<times> linked) \<Rightarrow> (fs_error + fsid option) \<times> linked" where
  "or_else_type r f =
     (case r of (Inr n, L) \<Rightarrow> (Inr (Some n), L) | (Inl (TypeErr m), L) \<Rightarrow> f L | (Inl e, L) \<Rightarrow> (Inl e, L))"

definition not_of_class :: "klass \<Rightarrow> (fs_error + fsid option) \<times> linked \<Rightarrow> (fs_error + fsid option) \<times> linked" where
  "not_of_class k r = then_do r (\<lambda>n L.
     (Inr (case n of None \<Rightarrow> None | Some m \<Rightarrow> if nd_class (node_of L m) = k then None else Some m), L))"

definition dir_on_disk :: "fs_hooks \<Rightarrow> fsid \<Rightarrow> string \<Rightarrow> linked \<Rightarrow> (fs_error + fsid option) \<times> linked" where
  "dir_on_disk H d name L =
     (let (there, L1) = entry_exists_on_disk d name L;
          next = (\<lambda>L. not_of_class FileK (srcdir_duplicate H d name L)) in
      if there then or_else_type (dir_Dir d name L1) next else next L1)"

definition file_on_disk :: "fs_hooks \<Rightarrow> fsid \<Rightarrow> string \<Rightarrow> linked \<Rightarrow> (fs_error + fsid option) \<times> linked" where
  "file_on_disk H d name L =
     (let (there, L1) = entry_exists_on_disk d name L;
          next = (\<lambda>L. not_of_class DirK (srcdir_duplicate H d name L)) in
      if there \<or> fh_scm H d name then or_else_type (dir_File d name L1) next else next L1)"

section \<open>Ways of duplicating\<close>

datatype link_kind = HardLink | SoftLink | CopyFile

text \<open>
  \<open>_hardlink_func\<close> follows symbolic links by itself; the two branches for a relative and an absolute
  link are the wrong way round. \<open>None\<close> when the links are a circle.
\<close>

partial_function (option) hardlink_source :: "(string \<Rightarrow> string option) \<Rightarrow> string \<Rightarrow> string option" where
  "hardlink_source readlink src =
     (case readlink src of
        None \<Rightarrow> Some src
      | Some link \<Rightarrow> hardlink_source readlink
          (if take 1 link \<noteq> ''/'' then link else path_join (fst (path_split src)) link))"

definition link_kinds :: "string \<Rightarrow> link_kind list option" where
  "link_kinds style =
     (if style = ''hard-soft-copy'' then Some [HardLink, SoftLink, CopyFile]
      else if style = ''soft-hard-copy'' then Some [SoftLink, HardLink, CopyFile]
      else if style = ''hard-copy'' then Some [HardLink, CopyFile]
      else if style = ''soft-copy'' then Some [SoftLink, CopyFile]
      else if style = ''copy'' then Some [CopyFile] else None)"

text \<open>\<open>set_duplicate\<close> discards what the platform does not have; an unknown style is an internal error.\<close>

definition set_duplicate :: "(link_kind \<Rightarrow> bool) \<Rightarrow> string \<Rightarrow> link_kind list option" where
  "set_duplicate available style = map_option (filter available) (link_kinds style)"

text \<open>\<open>LinkFunc\<close>: the ways in order until one works; the failure of the last one is raised.\<close>

fun try_links :: "(link_kind \<Rightarrow> bool) \<Rightarrow> link_kind list \<Rightarrow> unit + link_kind option" where
  "try_links works [] = Inr None"
| "try_links works (k # ks) = (if works k then Inr (Some k) else if ks = [] then Inl () else try_links works ks)"

definition LinkFunc :: "(link_kind \<Rightarrow> bool) \<Rightarrow> (link_kind \<Rightarrow> bool) \<Rightarrow> link_kind list \<Rightarrow> unit + link_kind option" where
  "LinkFunc available works funcs =
     try_links works (if funcs = [] then the (set_duplicate available ''hard-soft-copy'') else funcs)"

section \<open>Existence, and the file in a repository\<close>

type_synonym node_test = "fsid \<Rightarrow> linked \<Rightarrow> (fs_error + bool) \<times> linked"

text \<open>The node a directory has for a name, or what \<open>file_on_disk\<close> makes.\<close>

definition entry_or_disk ::
  "fs_hooks \<Rightarrow> fsid \<Rightarrow> string \<Rightarrow> node_test \<Rightarrow> linked \<Rightarrow> (fs_error + fsid option) \<times> linked" where
  "entry_or_disk H d name ok L =
     (case nd_entries (node_of L d) name of
        Some n \<Rightarrow> then_do (ok n L) (\<lambda>b L1. (Inr (if b then Some n else None), L1))
      | None \<Rightarrow> file_on_disk H d name L)"

fun rfile_loop :: "fs_hooks \<Rightarrow> node_test \<Rightarrow> fsid \<Rightarrow> fsid list \<Rightarrow> linked \<Rightarrow> (fs_error + fsid) \<times> linked" where
  "rfile_loop H ex n [] L = (Inr n, L)"
| "rfile_loop H ex n (d # ds) L =
     then_do (entry_or_disk H d (nd_name (node_of L n)) (\<lambda>_ L1. (Inr True, L1)) L) (\<lambda>found L1.
       case found of None \<Rightarrow> rfile_loop H ex n ds L1
       | Some m \<Rightarrow> then_do (ex m L1) (\<lambda>b L2.
           if b \<and> (nd_class (node_of L2 m) \<noteq> DirK \<or> \<not> fh_derived H m) then (Inr m, L2)
           else rfile_loop H ex n ds L2))"

text \<open>
  \<open>exists\<close>: a file in a variant directory that is not derived is duplicated first, from the file its
  source is in a repository; when there is no source, an old copy is removed. The number bounds
  the nested calls.
\<close>

fun node_exists :: "nat \<Rightarrow> fs_hooks \<Rightarrow> node_test"
  and node_rfile :: "nat \<Rightarrow> fs_hooks \<Rightarrow> fsid \<Rightarrow> linked \<Rightarrow> (fs_error + fsid) \<times> linked" where
  "node_exists 0 H n L = (Inl RecursionErr, L)"
| "node_exists (Suc k) H n L =
     (case nd_class (node_of L n) of
        DirK \<Rightarrow> (Inr (exists_base n L), L)
      | EntryK \<Rightarrow> then_do (disambiguate False n L) (\<lambda>m L1. node_exists k H m L1)
      | FileK \<Rightarrow>
          if nd_dup (node_of L n) \<and> \<not> fh_derived H n \<and> n \<notin> set (lk_dups L) then
            then_do (node_srcnode n L) (\<lambda>s L1.
              if s = n then (Inr (exists_base n L1), L1)
              else then_do (node_rfile k H s L1) (\<lambda>src L2.
                if abspath_of L2 src = abspath_of L2 n then (Inr (exists_base n L2), L2)
                else then_do (node_exists k H src L2) (\<lambda>b L3.
                  if b then then_do (do_duplicate H n src L3) (\<lambda>_ L4. (Inr (exists_base n L4), L4))
                  else (Inr False, if exists_base n L3 then with_disk (unlink_file (abspath_of L3 n)) L3 else L3))))
          else (Inr (exists_base n L), L))"
| "node_rfile 0 H n L = (Inl RecursionErr, L)"
| "node_rfile (Suc k) H n L =
     (if nd_class (node_of L n) = DirK then (Inr n, L)
      else let L0 = (if nd_class (node_of L n) = EntryK then change_class FileK n L else L) in
        then_do (node_exists k H n L0) (\<lambda>b L1.
          if b then (Inr n, L1)
          else then_do (get_all_rdirs k (nd_dir (node_of L1 n)) L1) (\<lambda>ds L2.
            rfile_loop H (\<lambda>m L3. node_exists k H m L3) n ds L2)))"

section \<open>Finding a file in a directory\<close>

text \<open>The first directory with a file of the name, derived or existing.\<close>

fun first_file :: "nat \<Rightarrow> fs_hooks \<Rightarrow> string \<Rightarrow> fsid list \<Rightarrow> linked \<Rightarrow> (fs_error + fsid option) \<times> linked" where
  "first_file k H name [] L = (Inr None, L)"
| "first_file k H name (d # ds) L =
     then_do (entry_or_disk H d name
        (\<lambda>n L1. if nd_class (node_of L1 n) = DirK then (Inr False, L1)
                else if fh_derived H n then (Inr True, L1) else node_exists k H n L1) L)
       (\<lambda>found L1. case found of Some n \<Rightarrow> (Inr (Some n), L1) | None \<Rightarrow> first_file k H name ds L1)"

text \<open>A file object that no directory knows, which \<open>File(filename, self, self.fs)\<close> makes.\<close>

definition new_file :: "string \<Rightarrow> fsid \<Rightarrow> linked \<Rightarrow> fsid \<times> linked" where
  "new_file name d L = (let S = lk_fs L; n = fs_next S in
     (n, L\<lparr>lk_fs := S\<lparr>fs_nodes := (fs_nodes S)(n := base_init S FileK name d), fs_next := Suc n\<rparr>\<rparr>))"

fun first_source ::
  "nat \<Rightarrow> fs_hooks \<Rightarrow> string \<Rightarrow> fsid list \<Rightarrow> linked \<Rightarrow> (fs_error + fsid option) \<times> linked" where
  "first_source k H name [] L = (Inr None, L)"
| "first_source k H name (s # ss) L =
     then_do (get_all_rdirs k s L) (\<lambda>rs L1. then_do (first_file k H name rs L1) (\<lambda>found L2.
       case found of Some _ \<Rightarrow> (Inr (Some s), L2) | None \<Rightarrow> first_source k H name ss L2))"

definition srcdir_find_file ::
  "nat \<Rightarrow> fs_hooks \<Rightarrow> fsid \<Rightarrow> string \<Rightarrow> linked \<Rightarrow> (fs_error + (fsid \<times> fsid) option) \<times> linked" where
  "srcdir_find_file k H d name L =
     (let keep = (\<lambda>r L. (Inr r, L\<lparr>lk_srcfile := (lk_srcfile L)(d := (lk_srcfile L d)(name \<mapsto> r))\<rparr>)) in
      case lk_srcfile L d name of
        Some r \<Rightarrow> (Inr r, L)
      | None \<Rightarrow>
          then_do (get_all_rdirs k d L) (\<lambda>rs L1. then_do (first_file k H name rs L1) (\<lambda>found L2.
            case found of
              Some n \<Rightarrow> keep (Some (n, d)) L2
            | None \<Rightarrow> then_do (srcdir_list d L2) (\<lambda>ss L3. then_do (first_source k H name ss L3) (\<lambda>src L4.
                case src of
                  None \<Rightarrow> keep None L4
                | Some s \<Rightarrow> let (n, L5) = new_file name d L4 in keep (Some (n, s)) L5)))))"

section \<open>The file finder\<close>

function filedir_lookup :: "fs_hooks \<Rightarrow> fsid \<Rightarrow> string \<Rightarrow> linked \<Rightarrow> (fs_error + fsid option) \<times> linked" where
  "filedir_lookup H p fd L =
     (let (dir, name) = path_split fd;
          d = (if take 1 (drop 1 dir) = '':'' then drop 2 dir else dir) in
      if name = [] \<and> take 1 d = ''/'' then (Inr (Some root_id), L)
      else then_do (if dir = [] then (Inr (Some p), L)
                    else if length dir < length fd then filedir_lookup H p dir L
                    else (Inl RecursionErr, L)) (\<lambda>q L1.
        case q of None \<Rightarrow> (Inr None, L1)
        | Some e \<Rightarrow>
            (case nd_entries (node_of L1 e) name of
               None \<Rightarrow> dir_on_disk H e name L1
             | Some n \<Rightarrow>
                 (case nd_class (node_of L1 n) of
                    DirK \<Rightarrow> (Inr (Some n), L1)
                  | EntryK \<Rightarrow> then_do (in_fs (must_be_same DirK n) L1) (\<lambda>_ L2. (Inr (Some n), L2))
                  | FileK \<Rightarrow> (Inr None, L1)))))"
  by pat_completeness auto
termination
  by (relation "measure (\<lambda>(_, _, fd, _). length fd)") auto

declare filedir_lookup.simps [simp del]

fun filedir_all :: "fs_hooks \<Rightarrow> string \<Rightarrow> fsid list \<Rightarrow> linked \<Rightarrow> (fs_error + fsid list) \<times> linked" where
  "filedir_all H fd [] L = (Inr [], L)"
| "filedir_all H fd (p # ps) L =
     then_do (filedir_lookup H p fd L) (\<lambda>d L1. then_do (filedir_all H fd ps L1)
       (\<lambda>ds L2. (Inr (case d of None \<Rightarrow> ds | Some e \<Rightarrow> e # ds), L2)))"

fun find_in :: "nat \<Rightarrow> fs_hooks \<Rightarrow> string \<Rightarrow> fsid list \<Rightarrow> linked \<Rightarrow> (fs_error + fsid option) \<times> linked" where
  "find_in k H name [] L = (Inr None, L)"
| "find_in k H name (d # ds) L =
     then_do (srcdir_find_file k H d name L) (\<lambda>r L1.
       case r of Some (n, _) \<Rightarrow> (Inr (Some n), L1) | None \<Rightarrow> find_in k H name ds L1)"

definition find_file :: "nat \<Rightarrow> fs_hooks \<Rightarrow> string \<Rightarrow> fsid list \<Rightarrow> linked \<Rightarrow> (fs_error + fsid option) \<times> linked" where
  "find_file k H filename paths L =
     (case lk_found L (filename, paths) of
        Some r \<Rightarrow> (Inr r, L)
      | None \<Rightarrow>
          let (filedir, name) = path_split filename in
          then_do (if filedir = [] then (Inr paths, L) else filedir_all H filedir paths L) (\<lambda>ps L1.
            then_do (find_in k H name ps L1)
              (\<lambda>r L2. (Inr r, L2\<lparr>lk_found := (lk_found L2)((filename, paths) \<mapsto> r)\<rparr>))))"

section \<open>Other uses of repositories\<close>

fun rfindall_loop :: "nat \<Rightarrow> fsid \<Rightarrow> (fsid + string) list \<Rightarrow> linked \<Rightarrow> (fs_error + fsid list) \<times> linked" where
  "rfindall_loop k d [] L = (Inr [], L)"
| "rfindall_loop k d (p # ps) L =
     then_do (case p of Inl n \<Rightarrow> (Inr [n], L)
              | Inr name \<Rightarrow> then_do (dir_Dir d name L) (\<lambda>e L1. get_all_rdirs k e L1))
       (\<lambda>rs L1. then_do (rfindall_loop k d ps L1) (\<lambda>more L2. (Inr (rs @ more), L2)))"

definition Rfindalldirs :: "nat \<Rightarrow> fsid \<Rightarrow> (fsid + string) list \<Rightarrow> linked \<Rightarrow> (fs_error + fsid list) \<times> linked" where
  "Rfindalldirs k d pathlist L =
     (case lk_rfind L d pathlist of
        Some r \<Rightarrow> (Inr r, L)
      | None \<Rightarrow> then_do (rfindall_loop k d pathlist L)
          (\<lambda>r L1. (Inr r, L1\<lparr>lk_rfind := (lk_rfind L1)(d := (lk_rfind L1 d)(pathlist \<mapsto> r))\<rparr>)))"

text \<open>
  \<open>rentry\<close>: an entry in a repository that the disk has and no node stands for yet; a node that is
  there already is passed over.
\<close>

fun rentry_loop :: "fsid \<Rightarrow> fsid list \<Rightarrow> linked \<Rightarrow> (fs_error + fsid) \<times> linked" where
  "rentry_loop n [] L = (Inr n, L)"
| "rentry_loop n (d # ds) L = (let name = nd_name (node_of L n) in
     case nd_entries (node_of L d) name of
       Some _ \<Rightarrow> rentry_loop n ds L
     | None \<Rightarrow> (case entry_exists_on_disk d name L of
         (True, L1) \<Rightarrow> dir_Entry d name L1 | (False, L1) \<Rightarrow> rentry_loop n ds L1))"

definition rentry :: "nat \<Rightarrow> fs_hooks \<Rightarrow> fsid \<Rightarrow> linked \<Rightarrow> (fs_error + fsid) \<times> linked" where
  "rentry k H n L = then_do (node_exists k H n L) (\<lambda>b L1.
     if b then (Inr n, L1)
     else then_do (get_all_rdirs k (nd_dir (node_of L1 n)) L1) (\<lambda>ds L2. rentry_loop n ds L2))"

fun rentry_exists_loop :: "string \<Rightarrow> fsid list \<Rightarrow> linked \<Rightarrow> bool \<times> linked" where
  "rentry_exists_loop name [] L = (False, L)"
| "rentry_exists_loop name (d # ds) L =
     (case nd_entries (node_of L d) name of
        Some _ \<Rightarrow> (True, L)
      | None \<Rightarrow> (case entry_exists_on_disk d name L of
          (True, L1) \<Rightarrow> (True, L1) | (False, L1) \<Rightarrow> rentry_exists_loop name ds L1))"

definition rentry_exists_on_disk :: "nat \<Rightarrow> fsid \<Rightarrow> string \<Rightarrow> linked \<Rightarrow> (fs_error + bool) \<times> linked" where
  "rentry_exists_on_disk k d name L =
     (case entry_exists_on_disk d name L of
        (True, L1) \<Rightarrow> (Inr True, L1)
      | (False, L1) \<Rightarrow> then_do (get_all_rdirs k d L1)
          (\<lambda>ds L2. case rentry_exists_loop name ds L2 of (b, L3) \<Rightarrow> (Inr b, L3)))"

end
