(* ===== verification/FindProps.thy ===== *)
theory FindProps
  imports FileFind VariantProps
begin

text \<open>
  Properties of the search for files. The locale states what a relation between the states before
  and after must allow (the lookups, the memos, the two ways the disk is written) for the whole
  search to keep it; one interpretation shows that nothing is written where no directory is to be
  duplicated, the other that a run which executes nothing makes no file and no directory. That it
  still removes one is shown on a small tree.
\<close>

section \<open>What a search may do\<close>

locale search_steps =
  fixes R :: "linked \<Rightarrow> linked \<Rightarrow> bool" and H :: fs_hooks
  assumes refl: "R L L"
    and trans: "R L1 L2 \<Longrightarrow> R L2 L3 \<Longrightarrow> R L1 L3"
    and looked_up: "R L (snd (dir_Dir d name L))" "R L (snd (dir_Entry d name L))" "R L (snd (dir_File d name L))"
    and same_class: "R L (snd (in_fs (must_be_same k n) L))"
    and class_changed: "R L (change_class k n L)"
    and remembered: "R L (L\<lparr>lk_rdirs := r\<rparr>)" "R L (L\<lparr>lk_srcdirs := s\<rparr>)" "R L (L\<lparr>lk_srcfile := f\<rparr>)"
      "R L (L\<lparr>lk_rfind := g\<rparr>)" "R L (L\<lparr>lk_listed := l\<rparr>)"
    and added: "R L (snd (new_file name d L))"
    and duplicated: "nd_dup (node_of L0 m) \<Longrightarrow> R L0 L \<Longrightarrow> R L0 (snd (do_duplicate H n src L))"
    and removed: "nd_dup (node_of L0 m) \<Longrightarrow> R L0 L \<Longrightarrow> R L0 (with_disk (unlink_file p) L)"
begin

text \<open>All lemmas say: after the steps that led to \<open>L\<close> the operation is a further one.\<close>

lemma then_step:
  assumes "R L0 (snd r)" and "\<And>a L1. R L0 L1 \<Longrightarrow> R L0 (snd (f a L1))"
  shows "R L0 (snd (then_do r f))"
  using assms by (cases r; cases "fst r") auto

lemmas base_steps =
  trans [OF _ looked_up(1)] trans [OF _ looked_up(2)] trans [OF _ looked_up(3)] trans [OF _ same_class] trans [OF _ class_changed]
  trans [OF _ remembered(1)] trans [OF _ remembered(2)] trans [OF _ remembered(3)] trans [OF _ remembered(4)]
  trans [OF _ remembered(5)]

lemma listed_eq:
  assumes "entry_exists_on_disk d name L = (b, L1)" and "R L0 L"
  shows "R L0 L1"
proof -
  have "L1 = L \<or> (\<exists>l. L1 = L\<lparr>lk_listed := l\<rparr>)" using assms(1) by (auto simp: entry_exists_on_disk_def split: option.splits)
  then show ?thesis using assms(2) by (elim disjE exE) (simp_all add: trans [OF _ remembered(5)])
qed

lemma reps_dirs_step: "R L0 L \<Longrightarrow> R L0 (snd (reps_dirs fname rs L))"
proof (induction rs arbitrary: L)
  case (Cons r rs)
  show ?case unfolding reps_dirs.simps by (intro then_step base_steps Cons) simp_all
qed simp

lemma getRepositories_step:
  assumes "\<And>d L. R L0 L \<Longrightarrow> R L0 (snd (get d L))" and "R L0 L"
  shows "R L0 (snd (getRepositories get d L))"
  using assms by (auto simp: getRepositories_def Let_def intro!: then_step split: option.split)

lemma rdirs_loop_step:
  assumes "\<And>d L. R L0 L \<Longrightarrow> R L0 (snd (get d L))" and "R L0 L"
  shows "R L0 (snd (rdirs_loop get fname ds L))"
  using assms(2)
  by (induction ds arbitrary: L fname) (auto intro!: then_step getRepositories_step reps_dirs_step assms(1))

lemma get_all_rdirs_step: "R L0 L \<Longrightarrow> R L0 (snd (get_all_rdirs k d L))"
  by (induction k arbitrary: d L) (auto intro!: then_step base_steps rdirs_loop_step split: option.split)

lemma srcdirs_loop_step: "R L0 L \<Longrightarrow> R L0 (snd (srcdirs_loop name ds L))"
  by (induction ds arbitrary: L name) (auto intro!: then_step base_steps split: option.split)

lemma srcdir_list_step: "R L0 L \<Longrightarrow> R L0 (snd (srcdir_list d L))"
  by (auto simp: srcdir_list_def split: option.split intro!: then_step base_steps srcdirs_loop_step)

lemma node_srcnode_step: "R L0 L \<Longrightarrow> R L0 (snd (node_srcnode n L))"
  by (auto simp: node_srcnode_def base_srcnode_def split: option.split list.split intro!: then_step base_steps srcdir_list_step)

lemma disambiguate_step: "R L0 L \<Longrightarrow> R L0 (snd (disambiguate must n L))"
  by (auto simp: disambiguate_def Let_def split: prod.split intro!: then_step base_steps node_srcnode_step
      dest: listed_eq)

lemmas search_rules = then_step base_steps get_all_rdirs_step srcdir_list_step node_srcnode_step disambiguate_step

section \<open>Duplicating and looking on the disk\<close>

lemma dup_flag: "nd_dup (node_of L1 d) \<Longrightarrow> R L0 L1 \<Longrightarrow> R L1 L \<Longrightarrow> R L0 (snd (do_duplicate H n src L))"
  by (rule trans [OF _ duplicated])

lemma srcdir_duplicate_step: "R L0 L \<Longrightarrow> R L0 (snd (srcdir_duplicate H d name L))"
proof -
  have dup: "R L0 (snd (then_do (dir_Entry d name L) (\<lambda>e' L4. then_do (disambiguate False e' L4) (\<lambda>n L5.
              then_do (do_duplicate H n src L5) (\<lambda>_ L6. (Inr (Some n), L6))))))"
    if "R L0 L" and "nd_dup (node_of L d)" for L0 L src
    by (rule trans [OF that(1)])
      (auto intro!: then_step looked_up disambiguate_step duplicated [OF that(2)])
  have "R L0 (snd (srcdir_duplicate_loop H d name ss L))" if "R L0 L" for ss L
    using that
  proof (induction ss arbitrary: L)
    case (Cons s ss)
    obtain b L1 where e: "entry_exists_on_disk s name L = (b, L1)" by fastforce
    note L1 = listed_eq [OF e Cons.prems]
    show ?case
      by (cases b) (auto simp: e intro!: then_step base_steps disambiguate_step dup L1 Cons.IH Cons.prems)
  qed simp
  then show "R L0 L \<Longrightarrow> R L0 (snd (srcdir_duplicate H d name L))"
    by (auto simp: srcdir_duplicate_def intro!: then_step srcdir_list_step)
qed

lemma on_disk_step:
  "R L0 L \<Longrightarrow> R L0 (snd (dir_on_disk H d name L))"
  "R L0 L \<Longrightarrow> R L0 (snd (file_on_disk H d name L))"
proof -
  have or: "R L0 (snd (or_else_type r f))" if "R L0 (snd r)" and "\<And>L1. R L0 L1 \<Longrightarrow> R L0 (snd (f L1))" for r f
    using that by (auto simp: or_else_type_def split: prod.splits sum.splits fs_error.splits)
  have nc: "R L0 (snd (not_of_class k r))" if "R L0 (snd r)" for k r
    using that by (auto simp: not_of_class_def intro!: then_step)
  show "R L0 L \<Longrightarrow> R L0 (snd (dir_on_disk H d name L))" "R L0 L \<Longrightarrow> R L0 (snd (file_on_disk H d name L))"
    by (auto simp: dir_on_disk_def file_on_disk_def Let_def split: prod.split dest: listed_eq
        intro!: or nc base_steps srcdir_duplicate_step)
qed

section \<open>Looking for a file\<close>

lemma entry_or_disk_step:
  assumes "\<And>m L. R L0 L \<Longrightarrow> R L0 (snd (ok m L))" and "R L0 L"
  shows "R L0 (snd (entry_or_disk H d name ok L))"
  using assms by (auto simp: entry_or_disk_def intro!: then_step on_disk_step split: option.split)

lemma rfile_loop_step:
  assumes "\<And>m L. R L0 L \<Longrightarrow> R L0 (snd (ex m L))" and "R L0 L"
  shows "R L0 (snd (rfile_loop H ex n ds L))"
  using assms(2)
proof (induction ds arbitrary: L)
  case (Cons d ds)
  show ?case unfolding rfile_loop.simps
    by (intro then_step entry_or_disk_step)
      (auto intro!: then_step assms(1) Cons split: option.split)
qed simp

lemma node_exists_step:
  "R L0 L \<Longrightarrow> R L0 (snd (node_exists k H n L))"
  "R L0 L \<Longrightarrow> R L0 (snd (node_rfile k H n L))"
proof (induction k arbitrary: n L L0)
  case (Suc k)
  have dup: "R L0 (snd (then_do (node_srcnode n L) (\<lambda>s L1.
              if s = n then (Inr (exists_base n L1), L1)
              else then_do (node_rfile k H s L1) (\<lambda>src L2.
                if abspath_of L2 src = abspath_of L2 n then (Inr (exists_base n L2), L2)
                else then_do (node_exists k H src L2) (\<lambda>b L3.
                  if b then then_do (do_duplicate H n src L3) (\<lambda>_ L4. (Inr (exists_base n L4), L4))
                  else (Inr False, if exists_base n L3 then with_disk (unlink_file (abspath_of L3 n)) L3 else L3))))))"
    if "nd_dup (node_of L n)" and "R L0 L" for n L L0
    by (rule trans [OF that(2)])
      (auto intro!: then_step node_srcnode_step Suc.IH refl duplicated [OF that(1)] removed [OF that(1)])
  {
    case 1
    show ?case
    proof (cases "nd_class (node_of L n) = FileK \<and> nd_dup (node_of L n) \<and> \<not> fh_derived H n \<and> n \<notin> set (lk_dups L)")
      case True
      note d = dup [OF conjunct1 [OF conjunct2 [OF True]] 1]
      show ?thesis using True d by simp
    next
      case False
      then show ?thesis using 1
        by (auto split: klass.split intro!: then_step disambiguate_step Suc.IH)
    qed
  next
    case 2
    then show ?case
      by (auto simp: Let_def intro!: then_step base_steps(5) Suc.IH get_all_rdirs_step rfile_loop_step)
  }
qed (simp_all)

lemma first_file_step: "R L0 L \<Longrightarrow> R L0 (snd (first_file k H name ds L))"
proof (induction ds arbitrary: L)
  case (Cons d ds)
  then show ?case unfolding first_file.simps
    by (intro then_step entry_or_disk_step) (auto intro!: node_exists_step Cons.IH split: option.split)
qed simp

lemma first_source_step: "R L0 L \<Longrightarrow> R L0 (snd (first_source k H name ss L))"
proof (induction ss arbitrary: L)
  case (Cons s ss)
  then show ?case unfolding first_source.simps
    by (intro then_step get_all_rdirs_step first_file_step) (auto intro!: Cons.IH split: option.split)
qed simp

lemma srcdir_find_file_step: "R L0 L \<Longrightarrow> R L0 (snd (srcdir_find_file k H d name L))"
  unfolding srcdir_find_file_def Let_def
  by (auto intro!: then_step get_all_rdirs_step first_file_step srcdir_list_step first_source_step base_steps
      trans [OF _ added [unfolded new_file_def Let_def snd_conv]] simp: new_file_def Let_def split: option.split)

lemma filedir_lookup_step: "R L0 L \<Longrightarrow> R L0 (snd (filedir_lookup H p fd L))"
proof (induction "length fd" arbitrary: fd L rule: less_induct)
  case less
  show ?case
    by (subst filedir_lookup.simps)
      (auto simp: Let_def less split: prod.split option.split klass.split intro!: then_step less.hyps base_steps on_disk_step)
qed

lemma filedir_all_step: "R L0 L \<Longrightarrow> R L0 (snd (filedir_all H fd ps L))"
proof (induction ps arbitrary: L)
  case (Cons p ps)
  then show ?case unfolding filedir_all.simps by (intro then_step filedir_lookup_step Cons.IH) simp_all
qed simp

lemma find_in_step: "R L0 L \<Longrightarrow> R L0 (snd (find_in k H name ds L))"
proof (induction ds arbitrary: L)
  case (Cons d ds)
  then show ?case unfolding find_in.simps
    by (intro then_step srcdir_find_file_step) (auto intro!: Cons.IH split: option.split)
qed simp

lemma rentry_step: "R L0 L \<Longrightarrow> R L0 (snd (rentry k H n L))"
proof -
  have "R L0 L \<Longrightarrow> R L0 (snd (rentry_loop n ds L))" for ds L
  proof (induction ds arbitrary: L)
    case (Cons d ds)
    obtain b L1 where e: "entry_exists_on_disk d (nd_name (node_of L n)) L = (b, L1)" by fastforce
    note L1 = listed_eq [OF e Cons.prems]
    show ?case by (cases b) (auto simp: e Let_def intro!: base_steps L1 Cons.IH Cons.prems split: option.split)
  qed simp
  then show "R L0 L \<Longrightarrow> R L0 (snd (rentry k H n L))"
    by (auto simp: rentry_def intro!: then_step node_exists_step get_all_rdirs_step)
qed

end

text \<open>\<open>find_file\<close> itself also remembers what it found.\<close>

locale find_steps = search_steps +
  assumes found_memo: "R L (L\<lparr>lk_found := h\<rparr>)"
begin

lemma find_file_step: "R L0 L \<Longrightarrow> R L0 (snd (find_file k H filename paths L))"
  by (auto simp: find_file_def Let_def split: option.split prod.split
      intro!: then_step filedir_all_step find_in_step base_steps trans [OF _ found_memo])

end

section \<open>Without duplication\<close>

definition no_dup :: "fsys \<Rightarrow> bool" where
  "no_dup S \<longleftrightarrow> (\<forall>n. \<not> nd_dup (fs_nodes S n))"

text \<open>Lookups make nodes that take the flag of their directory.\<close>

lemma enter_node_dup:
  assumes "no_dup S"
  shows "no_dup (enter_node p name k d S)"
  using assms by (auto simp: no_dup_def enter_node_def morph_dir_def upd_def base_init_def Let_def)

lemma become_dup: "no_dup S \<Longrightarrow> no_dup (become k m S)"
  by (auto simp: no_dup_def become_def morph_dir_def upd_def Let_def)

lemma must_be_same_dup:
  "no_dup S \<Longrightarrow> no_dup (snd (must_be_same k m S))"
  using become_dup [of S k m] by (simp add: must_be_same_def Let_def)

lemma lookup_abs_dup:
  "no_dup S \<Longrightarrow> no_dup (snd (lookup_abs E k create p S))"
proof (induction E k create p S rule: lookup_abs.induct)
  case (1 E k create p S)
  note m = must_be_same_dup [OF 1(2)]
  show ?case
  proof (cases "fs_lookupDict S p")
    case (Some n)
    then show ?thesis using m [of k n] by (subst lookup_abs.simps) (auto split: prod.splits sum.splits)
  next
    case None
    show ?thesis
    proof (cases "create \<and> rsplit_path p \<noteq> None")
      case False
      then show ?thesis using None 1(2) by (subst lookup_abs.simps) (cases "rsplit_path p"; auto)
    next
      case True
      then obtain a b where ab: "rsplit_path p = Some (a, b)" by auto
      obtain rd S1 where l: "lookup_abs E DirK True a S = (rd, S1)" by fastforce
      have s1: "no_dup S1" using "1.IH" [OF None _ ab refl 1(2)] True l by simp
      then show ?thesis
        using None True ab l enter_node_dup [OF s1] by (subst lookup_abs.simps) (auto split: sum.splits option.splits)
    qed
  qed
qed

lemma lookup_dup:
  assumes "no_dup S"
  shows "no_dup (snd (lookup E p dir k create S))"
proof -
  have "no_dup (snd (case must_be_same DirK d S of (Inl e, S1) \<Rightarrow> (Inl e, S1)
      | (Inr _, S1) \<Rightarrow> lookup_abs E k create (q S1) S1))" for d q
    using must_be_same_dup [OF assms, of DirK d] lookup_abs_dup by (auto split: prod.splits sum.splits)
  then show ?thesis using lookup_abs_dup [OF assms] unfolding lookup_def Let_def by (auto split: option.splits)
qed

definition calm :: "linked \<Rightarrow> linked \<Rightarrow> bool" where
  "calm L L' \<longleftrightarrow> (no_dup (lk_fs L) \<longrightarrow> no_dup (lk_fs L') \<and> lk_disk L' = lk_disk L)"

lemma calm_in_fs:
  assumes "\<And>S. no_dup S \<Longrightarrow> no_dup (snd (f S))"
  shows "calm L (snd (in_fs f L))"
  using assms [of "lk_fs L"] by (auto simp: calm_def in_fs_def split: prod.split)

interpretation quiet: find_steps calm H for H
proof unfold_locales
  show "calm L (snd (dir_Dir d name L))" "calm L (snd (dir_Entry d name L))" "calm L (snd (dir_File d name L))" for L d name
    unfolding dir_Dir_def dir_Entry_def dir_File_def fs_Dir_def fs_Entry_def fs_File_def
    by (auto intro!: calm_in_fs lookup_dup)
  show "calm L (snd (in_fs (must_be_same k n) L))" for L k n
    by (intro calm_in_fs must_be_same_dup)
  show "calm L (change_class k n L)" for L k n
    by (simp add: calm_def change_class_def clear_node_def become_dup)
  show "calm L (snd (new_file name d L))" for L name d
    by (auto simp: calm_def new_file_def Let_def no_dup_def base_init_def)
qed (auto simp: calm_def no_dup_def)

section \<open>Without execution\<close>

definition makes_nothing :: "linked \<Rightarrow> linked \<Rightarrow> bool" where
  "makes_nothing L L' \<longleftrightarrow> dk_isdir (lk_disk L') = dk_isdir (lk_disk L) \<and>
     (\<forall>p. dk_isfile (lk_disk L') p \<longrightarrow> dk_isfile (lk_disk L) p)"

lemma makes_nothing_in_fs: "makes_nothing L (snd (in_fs f L))"
  by (auto simp: makes_nothing_def in_fs_def split: prod.split)

lemma makes_nothing_trans: "makes_nothing L1 L2 \<Longrightarrow> makes_nothing L2 L3 \<Longrightarrow> makes_nothing L1 L3"
  by (auto simp: makes_nothing_def)

lemma dir_create_dry:
  assumes "\<not> fh_execute H"
  shows "snd (dir_create H d L) = L"
  using assms by (simp add: dir_create_def Let_def)

lemma do_duplicate_dry:
  assumes "\<not> fh_execute H"
  shows "makes_nothing L (snd (do_duplicate H n src L))"
proof -
  obtain r L1 where "dir_create H (nd_dir (node_of L n)) L = (r, L1)" by fastforce
  then show ?thesis using assms dir_create_dry [OF assms, of "nd_dir (node_of L n)" L]
    by (cases r) (auto simp: do_duplicate_def makes_nothing_def Let_def clear_node_def)
qed

definition dry :: "fs_hooks \<Rightarrow> fs_hooks" where
  "dry H = H\<lparr>fh_execute := False\<rparr>"

interpretation dry_run: find_steps makes_nothing "dry H" for H
proof unfold_locales
  show "makes_nothing L (snd (dir_Dir d name L))" "makes_nothing L (snd (dir_Entry d name L))"
    "makes_nothing L (snd (dir_File d name L))" "makes_nothing L (snd (in_fs (must_be_same k n) L))" for L d name k n
    unfolding dir_Dir_def dir_Entry_def dir_File_def by (rule makes_nothing_in_fs)+
  show "makes_nothing L0 (snd (do_duplicate (dry H) n src L))" if "makes_nothing L0 L" for L0 L n src
    by (rule makes_nothing_trans [OF that do_duplicate_dry]) (simp add: dry_def)
qed (auto simp: makes_nothing_def change_class_def clear_node_def new_file_def Let_def with_disk_def unlink_file_def)

section \<open>What the search does to the disk\<close>

text \<open>
  Where no directory is to be duplicated, looking for a file leaves the disk exactly as it is,
  whatever nodes, repositories and source directories it goes through, and no node is
  to be duplicated afterwards either.
\<close>

theorem search_leaves_disk:
  assumes "no_dup (lk_fs L)"
  shows "no_dup (lk_fs (snd (find_file k H filename paths L))) \<and> lk_disk (snd (find_file k H filename paths L)) = lk_disk L"
  using quiet.find_file_step [OF quiet.refl] assms by (simp add: calm_def)

theorem search_leaves_disk_witness:
  "lk_disk (snd (find_file 5 \<lparr>fh_derived = \<lambda>_. False, fh_scm = \<lambda>_ _. False, fh_link_ok = \<lambda>_ _. True, fh_execute = True\<rparr>
      ''a/b.h'' [root_id] (fresh no_disk root_fs))) = no_disk"
  using search_leaves_disk [of "fresh no_disk root_fs"] by (simp add: no_dup_def root_fs_def root_node_def fresh_def)

text \<open>
  When actions are not executed, looking for a file with duplication makes no directory and no
  file: what is there afterwards was there before.
\<close>

theorem dry_search_makes_nothing:
  assumes "\<not> fh_execute H" and "find_file k H filename paths L = (r, L')"
  shows "dk_isdir (lk_disk L') = dk_isdir (lk_disk L) \<and> {p. dk_isfile (lk_disk L') p} \<subseteq> {p. dk_isfile (lk_disk L) p}"
proof -
  have "dry H = H" using assms(1) by (simp add: dry_def)
  then show ?thesis using dry_run.find_file_step [OF dry_run.refl, of L k H filename paths] assms(2)
    by (auto simp: makes_nothing_def)
qed

theorem dry_search_makes_nothing_witness:
  "{p. dk_isfile (lk_disk (snd (find_file 5
      \<lparr>fh_derived = \<lambda>_. False, fh_scm = \<lambda>_ _. False, fh_link_ok = \<lambda>_ _. True, fh_execute = False\<rparr>
      ''a/b.h'' [root_id] (fresh no_disk root_fs)))) p} \<subseteq> {''/w/f''}"
proof -
  let ?H = "\<lparr>fh_derived = \<lambda>_. False, fh_scm = \<lambda>_ _. False, fh_link_ok = \<lambda>_ _. True, fh_execute = False\<rparr>"
  obtain r L' where f: "find_file 5 ?H ''a/b.h'' [root_id] (fresh no_disk root_fs) = (r, L')" by fastforce
  then show ?thesis using dry_search_makes_nothing [OF _ f] by (simp add: fresh_def no_disk_def)
qed

end
