(* ===== verification/BlockDevice.thy ===== *)
theory BlockDevice
  imports MemoryStore
begin

unbundle bit_operations_syntax

text \<open>
  The block device of \<open>src/io\<close>: buffers and the buffer manager. A block is a list of 64-bit words,
  little-endian, and a buffer is a copy of a block with its number. The device counts the writes that
  still reach it before the power fails, so that a crash between two writes can be stated. System
  calls that fail end the process and are left out.
\<close>

section \<open>Words of a block\<close>

text \<open>\<open>BUFFER_BLOCK_SIZE\<close> is 4096 bytes.\<close>

definition BLOCK_WORDS :: nat where
  "BLOCK_WORDS = 512"

definition low_half :: "64 word \<Rightarrow> 32 word" where
  "low_half w = ucast w"

definition high_half :: "64 word \<Rightarrow> 32 word" where
  "high_half w = ucast (drop_bit 32 w)"

definition two_halves :: "32 word \<Rightarrow> 32 word \<Rightarrow> 64 word" where
  "two_halves lo hi = (ucast lo :: 64 word) OR push_bit 32 (ucast hi)"

definition set_low :: "32 word \<Rightarrow> 64 word \<Rightarrow> 64 word" where
  "set_low v w = two_halves v (high_half w)"

definition set_high :: "32 word \<Rightarrow> 64 word \<Rightarrow> 64 word" where
  "set_high v w = two_halves (low_half w) v"

lemma low_two_halves [simp]: "low_half (two_halves a b) = a"
  unfolding low_half_def two_halves_def
  by (rule bit_word_eqI) (auto simp: bit_simps)

lemma high_two_halves [simp]: "high_half (two_halves a b) = b"
  unfolding high_half_def two_halves_def
  by (rule bit_word_eqI) (auto simp: bit_simps dest: bit_imp_le_length)

lemma halves_set [simp]:
  "low_half (set_low v w) = v" "high_half (set_low v w) = high_half w"
  "low_half (set_high v w) = low_half w" "high_half (set_high v w) = v"
  by (simp_all add: set_low_def set_high_def)

section \<open>The device\<close>

record buffer =
  buf_data :: "64 word list"
  buf_block :: nat

record device =
  dv_size :: nat
  dv_blocks :: "nat \<Rightarrow> 64 word list"
  dv_power :: "nat option"

definition bm_get :: "device \<Rightarrow> nat \<Rightarrow> bool \<Rightarrow> buffer status_with" where
  "bm_get d n zeroed =
     (if dv_size d \<le> n then Inl NO_SPACE
      else Inr \<lparr>buf_data = (if zeroed then replicate BLOCK_WORDS 0 else dv_blocks d n), buf_block = n\<rparr>)"

definition bm_write :: "buffer \<Rightarrow> device \<Rightarrow> device" where
  "bm_write b d =
     (case dv_power d of
        Some 0 \<Rightarrow> d
      | Some (Suc k) \<Rightarrow> d\<lparr>dv_blocks := (dv_blocks d)(buf_block b := buf_data b), dv_power := Some k\<rparr>
      | None \<Rightarrow> d\<lparr>dv_blocks := (dv_blocks d)(buf_block b := buf_data b)\<rparr>)"

text \<open>Blocks have the size the manager gives them.\<close>

definition device_ok :: "device \<Rightarrow> bool" where
  "device_ok d \<longleftrightarrow> (\<forall>n. length (dv_blocks d n) = BLOCK_WORDS)"

text \<open>After the crash the device has power again.\<close>

definition restarted :: "device \<Rightarrow> device" where
  "restarted d = d\<lparr>dv_power := None\<rparr>"

lemma bm_write_power [simp]:
  "dv_power d = None \<Longrightarrow> dv_power (bm_write b d) = None"
  "dv_size (bm_write b d) = dv_size d"
  by (auto simp: bm_write_def split: option.split nat.split)

lemma bm_write_blocks [simp]:
  "dv_power d = None \<Longrightarrow> dv_blocks (bm_write b d) = (dv_blocks d)(buf_block b := buf_data b)"
  by (simp add: bm_write_def)

lemma bm_write_ok: "device_ok d \<Longrightarrow> length (buf_data b) = BLOCK_WORDS \<Longrightarrow> device_ok (bm_write b d)"
  by (auto simp: bm_write_def device_ok_def split: option.split nat.split)

lemma bm_get_Inr:
  "bm_get d n z = Inr b \<longleftrightarrow> n < dv_size d \<and> b = \<lparr>buf_data = (if z then replicate BLOCK_WORDS 0 else dv_blocks d n), buf_block = n\<rparr>"
  by (auto simp: bm_get_def)

section \<open>Checksums\<close>

text \<open>The words from the second one up to the flag \<open>__END\<close>.\<close>

definition calculate_checksum :: "64 word list \<Rightarrow> 64 word" where
  "calculate_checksum ws = fold (\<lambda>w c. c XOR w) ws 0"

definition covered_words :: "nat \<Rightarrow> 64 word list \<Rightarrow> 64 word list" where
  "covered_words fin b = drop 1 (take fin b)"

definition block_valid :: "nat \<Rightarrow> 64 word list \<Rightarrow> bool" where
  "block_valid fin b \<longleftrightarrow> b ! 0 = calculate_checksum (covered_words fin b)"

definition block_prewrite :: "nat \<Rightarrow> 64 word list \<Rightarrow> 64 word list" where
  "block_prewrite fin b = b[0 := calculate_checksum (covered_words fin b)]"

lemma prewrite_simps [simp]:
  "length (block_prewrite fin b) = length b"
  "0 < i \<Longrightarrow> block_prewrite fin b ! i = b ! i"
  by (simp_all add: block_prewrite_def)

lemma covered_prewrite [simp]: "covered_words fin (block_prewrite fin b) = covered_words fin b"
  by (cases b) (auto simp: covered_words_def block_prewrite_def take_Cons' split: if_splits)

lemma prewrite_valid [simp]: "b \<noteq> [] \<Longrightarrow> block_valid fin (block_prewrite fin b)"
  by (cases b) (simp_all add: block_valid_def, simp add: block_prewrite_def)

lemma checksum_zeros [simp]: "calculate_checksum (replicate n 0) = 0"
proof -
  have "fold (\<lambda>w c. c XOR w) (replicate n 0) 0 = (0 :: 64 word)" by (induction n) auto
  then show ?thesis by (simp add: calculate_checksum_def)
qed

text \<open>A block of zeros counts as written.\<close>

lemma zeros_valid: "0 < n \<Longrightarrow> block_valid fin (replicate n 0)"
  by (simp add: block_valid_def covered_words_def)

end
