(* ===== verification/LogManager.thy ===== *)
theory LogManager
  imports BlockDevice
begin

text \<open>
  The log of \<open>src/db/log_manager.cc\<close>: its superblock, the blocks of entries, appending, starting a new
  generation and reading from the front. The two structures are laid over the words of a block
  as the compiler lays them out: an entry is three words, the first of which
  holds the operation in its lower half.
\<close>

section \<open>Entries\<close>

datatype op_code = ADD_NODE | ADD_EDGE | ADD_EDGE_PART | REMOVE_NODE | REMOVE_EDGE | REMOVE_EDGE_PART
  | OtherOp "32 word"

fun op_num :: "op_code \<Rightarrow> 32 word" where
  "op_num ADD_NODE = 0"
| "op_num ADD_EDGE = 1"
| "op_num ADD_EDGE_PART = 2"
| "op_num REMOVE_NODE = 3"
| "op_num REMOVE_EDGE = 4"
| "op_num REMOVE_EDGE_PART = 5"
| "op_num (OtherOp w) = w"

definition op_of :: "32 word \<Rightarrow> op_code" where
  "op_of w = (if w = 0 then ADD_NODE else if w = 1 then ADD_EDGE else if w = 2 then ADD_EDGE_PART
     else if w = 3 then REMOVE_NODE else if w = 4 then REMOVE_EDGE else if w = 5 then REMOVE_EDGE_PART
     else OtherOp w)"

record entry =
  en_opcode :: op_code
  en_idA :: node_id
  en_idB :: node_id

definition named_op :: "entry \<Rightarrow> bool" where
  "named_op e \<longleftrightarrow> (case en_opcode e of OtherOp _ \<Rightarrow> False | _ \<Rightarrow> True)"

lemma op_of_num: "named_op e \<Longrightarrow> op_of (op_num (en_opcode e)) = en_opcode e"
  by (cases "en_opcode e") (simp_all add: named_op_def op_of_def)

section \<open>The superblock\<close>

definition BLOCK_MAGIC :: "32 word" where
  "BLOCK_MAGIC = 1234567"

definition sb_end :: nat where "sb_end = 3"

definition sb_generation :: "64 word list \<Rightarrow> 32 word" where "sb_generation b = high_half (b ! 1)"
definition sb_start :: "64 word list \<Rightarrow> 32 word" where "sb_start b = low_half (b ! 2)"
definition sb_size :: "64 word list \<Rightarrow> 32 word" where "sb_size b = high_half (b ! 2)"

definition set_generation :: "32 word \<Rightarrow> 64 word list \<Rightarrow> 64 word list" where
  "set_generation v b = b[1 := set_high v (b ! 1)]"
definition set_start :: "32 word \<Rightarrow> 64 word list \<Rightarrow> 64 word list" where
  "set_start v b = b[2 := set_low v (b ! 2)]"
definition set_size :: "32 word \<Rightarrow> 64 word list \<Rightarrow> 64 word list" where
  "set_size v b = b[2 := set_high v (b ! 2)]"

definition sb_init :: "nat \<Rightarrow> 64 word list \<Rightarrow> 64 word list" where
  "sb_init address b = set_size 0 (set_start (of_nat (address + 1)) (set_generation 0 (b[1 := set_low BLOCK_MAGIC (b ! 1)])))"

section \<open>Log blocks\<close>

definition LOG_BLOCK_ENTRY_COUNT :: nat where
  "LOG_BLOCK_ENTRY_COUNT = (4096 - 4 * 8) div 24"

definition lb_end :: nat where "lb_end = 4 + 3 * LOG_BLOCK_ENTRY_COUNT"

definition lb_nEntries :: "64 word list \<Rightarrow> 32 word" where "lb_nEntries b = low_half (b ! 3)"

definition set_nEntries :: "32 word \<Rightarrow> 64 word list \<Rightarrow> 64 word list" where
  "set_nEntries v b = b[3 := set_low v (b ! 3)]"

definition lb_entry :: "64 word list \<Rightarrow> nat \<Rightarrow> entry" where
  "lb_entry b i = \<lparr>en_opcode = op_of (low_half (b ! (4 + 3 * i))), en_idA = b ! (5 + 3 * i), en_idB = b ! (6 + 3 * i)\<rparr>"

definition set_entry :: "nat \<Rightarrow> entry \<Rightarrow> 64 word list \<Rightarrow> 64 word list" where
  "set_entry i e b =
     b[4 + 3 * i := set_low (op_num (en_opcode e)) (b ! (4 + 3 * i)), 5 + 3 * i := en_idA e, 6 + 3 * i := en_idB e]"

definition lb_init :: "32 word \<Rightarrow> 64 word list \<Rightarrow> 64 word list" where
  "lb_init generation b = set_nEntries 0 (b[1 := ucast BLOCK_MAGIC, 2 := ucast generation])"

section \<open>The manager\<close>

record log_manager =
  lm_min :: nat
  lm_max :: nat
  lm_super :: buffer
  lm_current :: buffer

text \<open>The constructor; the buffers are null until \<open>init\<close> or \<open>format\<close>.\<close>

definition new_log :: "nat \<times> nat \<Rightarrow> device \<Rightarrow> (nat \<times> nat) run" where
  "new_log r d = (if snd r < dv_size d \<and> fst r < snd r then Ok r else Die)"

definition on_data :: "(64 word list \<Rightarrow> 64 word list) \<Rightarrow> buffer \<Rightarrow> buffer" where
  "on_data f b = b\<lparr>buf_data := f (buf_data b)\<rparr>"

definition log_init :: "nat \<times> nat \<Rightarrow> device \<Rightarrow> (log_manager \<times> device) run" where
  "log_init r d =
     (case bm_get d (fst r) False of
        Inl _ \<Rightarrow> Die
      | Inr sb \<Rightarrow>
          if \<not> block_valid sb_end (buf_data sb) then Die
          else (case bm_get d (unat (sb_start (buf_data sb) + sb_size (buf_data sb) - 1)) False of
              Inl _ \<Rightarrow> Die
            | Inr cur \<Rightarrow>
                if block_valid lb_end (buf_data cur)
                then Ok (\<lparr>lm_min = fst r, lm_max = snd r, lm_super = sb, lm_current = cur\<rparr>, d) else Die))"

definition increaseGeneration :: "log_manager \<times> device \<Rightarrow> (log_manager \<times> device) run" where
  "increaseGeneration L = (case L of (lm, d) \<Rightarrow>
     let b = buf_data (lm_super lm);
         sb = on_data (\<lambda>b. block_prewrite sb_end (set_size 1 (set_start (of_nat (lm_min lm + 1)) (set_generation (sb_generation b + 1) b)))) (lm_super lm);
         d1 = bm_write sb d in
     case bm_get d1 (unat (sb_start (buf_data sb))) False of
       Inl _ \<Rightarrow> Die
     | Inr nb \<Rightarrow>
         let cur = on_data (\<lambda>b. block_prewrite lb_end (lb_init (sb_generation (buf_data sb)) b)) nb
         in Ok (lm\<lparr>lm_super := sb, lm_current := cur\<rparr>, bm_write cur d1))"

definition getGeneration :: "log_manager \<Rightarrow> 64 word" where
  "getGeneration lm = ucast (sb_generation (buf_data (lm_super lm)))"

definition log_format :: "nat \<times> nat \<Rightarrow> device \<Rightarrow> (log_manager \<times> device) run" where
  "log_format r d =
     (case bm_get d (fst r) False of
        Inl _ \<Rightarrow> Die
      | Inr sb \<Rightarrow>
          let (sb1, d1) = (if block_valid sb_end (buf_data sb) then (sb, d)
                           else let s = on_data (\<lambda>b. block_prewrite sb_end (sb_init (fst r) b)) sb in (s, bm_write s d))
          in increaseGeneration (\<lparr>lm_min = fst r, lm_max = snd r, lm_super = sb1, lm_current = sb1\<rparr>, d1))"

text \<open>
  \<open>logOperation\<close>: a full block is followed by a new one; the superblock is written before it. The
  number of the last block of the log is not looked at.
\<close>

definition log_append :: "entry \<Rightarrow> log_manager \<times> device \<Rightarrow> code \<times> log_manager \<times> device" where
  "log_append e L = (case L of (lm, d) \<Rightarrow>
     let n = unat (lb_nEntries (buf_data (lm_current lm)));
         cur = on_data (\<lambda>b. block_prewrite lb_end (set_nEntries (lb_nEntries b + 1) (set_entry n e b))) (lm_current lm)
     in (SUCCESS, lm\<lparr>lm_current := cur\<rparr>, bm_write cur d))"

definition logOperation :: "entry \<Rightarrow> log_manager \<times> device \<Rightarrow> code \<times> log_manager \<times> device" where
  "logOperation e L = (case L of (lm, d) \<Rightarrow>
     if unat (lb_nEntries (buf_data (lm_current lm))) = LOG_BLOCK_ENTRY_COUNT
     then let sb = buf_data (lm_super lm) in
          (case bm_get d (unat (sb_start sb + sb_size sb)) False of
             Inl c \<Rightarrow> (c, lm, d)
           | Inr nb \<Rightarrow>
               let cur = on_data (lb_init (sb_generation sb)) nb;
                   sup = on_data (\<lambda>b. block_prewrite sb_end (set_size (sb_size b + 1) b)) (lm_super lm)
               in log_append e (lm\<lparr>lm_current := cur, lm_super := sup\<rparr>, bm_write sup d))
     else log_append e (lm, d))"

section \<open>Reading the log\<close>

record reader =
  rd_buffer :: "buffer option"
  rd_end :: nat
  rd_block :: nat
  rd_index :: nat

text \<open>\<open>Reader\<close>; the generation is kept and never compared with that of a block.\<close>

definition readLog :: "log_manager \<times> device \<Rightarrow> reader run" where
  "readLog L = (case L of (lm, d) \<Rightarrow>
     let b = buf_data (lm_super lm); start = unat (sb_start b); fin = start + unat (sb_size b) in
     if start < fin
     then (case bm_get d start False of
             Inl _ \<Rightarrow> Die
           | Inr buf \<Rightarrow> if block_valid lb_end (buf_data buf)
               then Ok \<lparr>rd_buffer = Some buf, rd_end = fin, rd_block = start, rd_index = 0\<rparr> else Die)
     else Ok \<lparr>rd_buffer = None, rd_end = fin, rd_block = start, rd_index = 0\<rparr>)"

definition hasNext :: "reader \<Rightarrow> bool" where
  "hasNext r = (case rd_buffer r of
     None \<Rightarrow> False
   | Some b \<Rightarrow> rd_block r < rd_end r - 1 \<or> rd_index r < unat (lb_nEntries (buf_data b)))"

definition take_entry :: "reader \<Rightarrow> (entry \<times> reader) run" where
  "take_entry r = (case rd_buffer r of
     None \<Rightarrow> Die
   | Some b \<Rightarrow> if rd_index r < LOG_BLOCK_ENTRY_COUNT
       then Ok (lb_entry (buf_data b) (rd_index r), r\<lparr>rd_index := rd_index r + 1\<rparr>) else Die)"

definition getNext :: "device \<Rightarrow> reader \<Rightarrow> (entry \<times> reader) run" where
  "getNext d r = (case rd_buffer r of
     None \<Rightarrow> Die
   | Some b \<Rightarrow>
       if \<not> block_valid lb_end (buf_data b) then Die
       else if rd_index r = unat (lb_nEntries (buf_data b))
       then (if rd_block r + 1 < rd_end r
             then (case bm_get d (rd_block r + 1) False of
                     Inl _ \<Rightarrow> Die
                   | Inr nb \<Rightarrow> if block_valid lb_end (buf_data nb)
                       then take_entry (r\<lparr>rd_buffer := Some nb, rd_block := rd_block r + 1, rd_index := 0\<rparr>) else Die)
             else Die)
       else take_entry r)"

text \<open>
  \<open>while (reader.hasNext()) reader.getNext()\<close>. Every step goes on to a later entry or a later block,
  and an index beyond a block's entries ends the process.
\<close>

lemma getNext_progress:
  assumes "getNext d r = Ok (e, r')" and "hasNext r"
  shows "rd_end r' = rd_end r \<and> (rd_block r' = rd_block r \<and> rd_index r' = Suc (rd_index r) \<or>
    rd_block r' = Suc (rd_block r) \<and> rd_index r' = 1) \<and> rd_index r' \<le> LOG_BLOCK_ENTRY_COUNT"
  using assms by (auto simp: getNext_def take_entry_def split: option.splits if_splits sum.splits)

function replay :: "(entry \<Rightarrow> 's \<Rightarrow> 's run) \<Rightarrow> device \<Rightarrow> reader \<Rightarrow> 's \<Rightarrow> 's run" where
  "replay step d r s =
     (if hasNext r
      then (case getNext d r of
              Die \<Rightarrow> Die
            | Ok (e, r') \<Rightarrow> (case step e s of Die \<Rightarrow> Die | Ok s' \<Rightarrow> replay step d r' s'))
      else Ok s)"
  by pat_completeness auto
termination
proof (relation "measure (\<lambda>(_, _, r, _). (rd_end r - rd_block r) * (LOG_BLOCK_ENTRY_COUNT + 1) + (LOG_BLOCK_ENTRY_COUNT + 1 - rd_index r))")
  fix step :: "entry \<Rightarrow> 's \<Rightarrow> 's run" and d r s e r' s' p
  assume h: "hasNext r" and g: "getNext d r = Ok p" and p: "(e, r') = p" and st: "step e s = Ok s'"
  let ?C = LOG_BLOCK_ENTRY_COUNT
  have "(rd_end r' - rd_block r') * (?C + 1) + (?C + 1 - rd_index r') < (rd_end r - rd_block r) * (?C + 1) + (?C + 1 - rd_index r)"
  proof (cases "rd_block r' = rd_block r")
    case True
    then show ?thesis using getNext_progress [of d r e r'] g p h by auto
  next
    case False
    have "rd_block r < rd_end r - 1"
      using False g p by (auto simp: getNext_def take_entry_def split: option.splits if_splits sum.splits)
    then have "rd_end r - rd_block r = Suc (rd_end r - Suc (rd_block r))" by simp
    then show ?thesis using False getNext_progress [of d r e r'] g p h by auto
  qed
  then show "((step, d, r', s'), step, d, r, s) \<in> measure (\<lambda>(_, _, r, _). (rd_end r - rd_block r) * (?C + 1) + (?C + 1 - rd_index r))"
    by simp
qed simp

declare replay.simps [simp del]

definition read_all :: "log_manager \<times> device \<Rightarrow> entry list run" where
  "read_all L = (case readLog L of Die \<Rightarrow> Die | Ok r \<Rightarrow> replay (\<lambda>e es. Ok (es @ [e])) (snd L) r [])"

end
