(* ===== verification/LogInv.thy ===== *)
theory LogInv
  imports LogManager
begin

text \<open>
  What the log holds: the abstraction is the list of the entries of each block, of which all but the
  last are full. Appending, starting a generation and opening implement appending to, emptying and
  finding that list, and reading goes through its concatenation.
\<close>

section \<open>Blocks\<close>

lemma counts [simp]: "LOG_BLOCK_ENTRY_COUNT = 169" "lb_end = 511" "sb_end = 3"
  by (simp_all add: LOG_BLOCK_ENTRY_COUNT_def lb_end_def sb_end_def)

definition block_has :: "64 word list \<Rightarrow> entry list \<Rightarrow> bool" where
  "block_has b es \<longleftrightarrow> length b = BLOCK_WORDS \<and> unat (lb_nEntries b) = length es \<and> length es \<le> LOG_BLOCK_ENTRY_COUNT \<and>
     (\<forall>i<length es. lb_entry b i = es ! i)"

lemma block_hasD:
  "block_has b es \<Longrightarrow> length b = 512" "block_has b es \<Longrightarrow> unat (lb_nEntries b) = length es"
  "block_has b es \<Longrightarrow> length es \<le> 169" "block_has b es \<Longrightarrow> i < length es \<Longrightarrow> lb_entry b i = es ! i"
  by (simp_all add: block_has_def BLOCK_WORDS_def)

lemma lb_init_has: "length b = BLOCK_WORDS \<Longrightarrow> block_has (lb_init g b) []"
  by (simp add: block_has_def lb_init_def set_nEntries_def lb_nEntries_def BLOCK_WORDS_def)

lemma prewrite_has [simp]: "block_has (block_prewrite fin b) es = block_has b es"
  by (simp add: block_has_def lb_nEntries_def lb_entry_def)

definition add_entry :: "entry \<Rightarrow> 64 word list \<Rightarrow> 64 word list" where
  "add_entry e b = set_nEntries (lb_nEntries b + 1) (set_entry (unat (lb_nEntries b)) e b)"

lemma add_entry_has:
  assumes "block_has b es" and "length es < 169" and "named_op e"
  shows "block_has (add_entry e b) (es @ [e])"
proof -
  note b = block_hasD [OF assms(1)]
  let ?n = "length es"
  have n: "lb_nEntries (add_entry e b) = lb_nEntries b + 1"
    using b(1) by (simp add: add_entry_def lb_nEntries_def set_nEntries_def set_entry_def)
  have "unat (lb_nEntries b + 1) = Suc ?n"
    using b(2) assms(2) by (subst unat_plus_simple [THEN iffD1]) (auto simp: word_le_nat_alt unat_word_ariths)
  moreover have "lb_entry (add_entry e b) i = (es @ [e]) ! i" if "i < Suc ?n" for i
  proof (cases "i = ?n")
    case True
    have "4 + 3 * ?n < 512" "5 + 3 * ?n < 512" "6 + 3 * ?n < 512" using assms(2) by auto
    then show ?thesis using True b(1,2) op_of_num [OF assms(3)]
      by (simp add: lb_entry_def add_entry_def set_nEntries_def set_entry_def nth_list_update)
  next
    case False
    then have i: "i < ?n" using that by simp
    have "lb_entry (add_entry e b) i = lb_entry b i"
      using i b(2) by (simp add: lb_entry_def add_entry_def set_nEntries_def set_entry_def nth_list_update)
    then show ?thesis using i b(4) by (simp add: nth_append)
  qed
  ultimately show ?thesis
    using assms(2) b(1) n by (simp add: block_has_def BLOCK_WORDS_def add_entry_def set_nEntries_def set_entry_def)
qed

section \<open>The log\<close>

definition chunks_ok :: "entry list list \<Rightarrow> bool" where
  "chunks_ok bs \<longleftrightarrow> bs \<noteq> [] \<and> (\<forall>c\<in>set (butlast bs). length c = LOG_BLOCK_ENTRY_COUNT) \<and>
     length (last bs) \<le> LOG_BLOCK_ENTRY_COUNT \<and> (1 < length bs \<longrightarrow> last bs \<noteq> [])"

definition add_chunk :: "entry list list \<Rightarrow> entry \<Rightarrow> entry list list" where
  "add_chunk bs e = (if length (last bs) = LOG_BLOCK_ENTRY_COUNT then bs @ [[e]] else butlast bs @ [last bs @ [e]])"

lemma add_chunk_ok: "chunks_ok bs \<Longrightarrow> chunks_ok (add_chunk bs e)"
  by (cases bs rule: rev_cases) (auto simp: chunks_ok_def add_chunk_def butlast_append split: if_splits)

lemma concat_add_chunk: "bs \<noteq> [] \<Longrightarrow> concat (add_chunk bs e) = concat bs @ [e]"
  by (cases bs rule: rev_cases) (auto simp: add_chunk_def)

lemma chunk_length:
  assumes "chunks_ok bs" and "k < length bs" and "Suc k \<noteq> length bs"
  shows "length (bs ! k) = 169"
proof -
  have k: "k < length (butlast bs)" using assms(2,3) by simp
  then have "bs ! k \<in> set (butlast bs)" using nth_mem [OF k] by (simp add: nth_butlast)
  then show ?thesis using assms(1) by (simp add: chunks_ok_def)
qed

text \<open>What is on the device from block \<open>m\<close> on.\<close>

definition blocks_on :: "device \<Rightarrow> nat \<Rightarrow> entry list list \<Rightarrow> bool" where
  "blocks_on d m bs \<longleftrightarrow> chunks_ok bs \<and> m + length bs < dv_size d \<and>
     (\<forall>k<length bs. block_has (dv_blocks d (m + 1 + k)) (bs ! k) \<and> block_valid lb_end (dv_blocks d (m + 1 + k)))"

definition log_on :: "device \<Rightarrow> nat \<Rightarrow> entry list list \<Rightarrow> bool" where
  "log_on d m bs \<longleftrightarrow> blocks_on d m bs \<and> dv_size d < 2 ^ 32 \<and>
     block_valid sb_end (dv_blocks d m) \<and> sb_start (dv_blocks d m) = of_nat (m + 1) \<and>
     sb_size (dv_blocks d m) = of_nat (length bs)"

definition log_ok :: "log_manager \<times> device \<Rightarrow> entry list list \<Rightarrow> bool" where
  "log_ok L bs \<longleftrightarrow> (case L of (lm, d) \<Rightarrow>
     device_ok d \<and> dv_power d = None \<and> log_on d (lm_min lm) bs \<and>
     lm_super lm = \<lparr>buf_data = dv_blocks d (lm_min lm), buf_block = lm_min lm\<rparr> \<and>
     lm_current lm = \<lparr>buf_data = dv_blocks d (lm_min lm + length bs), buf_block = lm_min lm + length bs\<rparr>)"

lemma blocks_onD:
  assumes "blocks_on d m bs"
  shows "chunks_ok bs" "m + length bs < dv_size d"
    "k < length bs \<Longrightarrow> block_has (dv_blocks d (m + 1 + k)) (bs ! k)"
    "k < length bs \<Longrightarrow> block_valid lb_end (dv_blocks d (m + 1 + k))" "0 < length bs"
  using assms by (auto simp: blocks_on_def chunks_ok_def)

lemma log_onD:
  assumes "log_on d m bs"
  shows "chunks_ok bs" "m + length bs < dv_size d" "m + length bs + 1 < 2 ^ 32"
    "block_valid sb_end (dv_blocks d m)" "sb_start (dv_blocks d m) = of_nat (m + 1)"
    "sb_size (dv_blocks d m) = of_nat (length bs)"
    "k < length bs \<Longrightarrow> block_has (dv_blocks d (m + 1 + k)) (bs ! k)"
    "k < length bs \<Longrightarrow> block_valid lb_end (dv_blocks d (m + 1 + k))"
    "0 < length bs" "dv_size d < 2 ^ 32" "blocks_on d m bs"
  using assms by (auto simp: log_on_def blocks_on_def chunks_ok_def)

lemma log_okD:
  assumes "log_ok (lm, d) bs"
  shows "device_ok d" "dv_power d = None" "log_on d (lm_min lm) bs"
    "lm_super lm = \<lparr>buf_data = dv_blocks d (lm_min lm), buf_block = lm_min lm\<rparr>"
    "lm_current lm = \<lparr>buf_data = dv_blocks d (lm_min lm + length bs), buf_block = lm_min lm + length bs\<rparr>"
  using assms by (auto simp: log_ok_def)

text \<open>The numbers of the superblock do not wrap around.\<close>

lemma log_numbers:
  assumes "log_on d m bs"
  shows "unat (sb_start (dv_blocks d m)) = m + 1" "unat (sb_size (dv_blocks d m)) = length bs"
    "unat (sb_start (dv_blocks d m) + sb_size (dv_blocks d m)) = m + 1 + length bs"
    "unat (sb_start (dv_blocks d m) + sb_size (dv_blocks d m) - 1) = m + length bs"
proof -
  note D = log_onD [OF assms]
  have 1: "unat (of_nat k :: 32 word) = k" if "k < 2 ^ 32" for k
    using that by (simp add: unat_of_nat take_bit_nat_eq_self)
  show "unat (sb_start (dv_blocks d m)) = m + 1" "unat (sb_size (dv_blocks d m)) = length bs"
    using D(3) by (simp_all only: D(5,6)) (subst 1; simp)+
  have s: "sb_start (dv_blocks d m) + sb_size (dv_blocks d m) = of_nat (m + 1 + length bs)"
    unfolding D(5,6) by simp
  then show "unat (sb_start (dv_blocks d m) + sb_size (dv_blocks d m)) = m + 1 + length bs"
    using D(3) by (simp only: s) (subst 1; simp)
  have "sb_start (dv_blocks d m) + sb_size (dv_blocks d m) - 1 = of_nat (m + length bs)"
    unfolding s by simp
  then show "unat (sb_start (dv_blocks d m) + sb_size (dv_blocks d m) - 1) = m + length bs"
    using D(3) by (metis 1 add_lessD1)
qed

text \<open>Opening the log finds it.\<close>

lemma log_init_ok:
  assumes "log_on d m bs" and "device_ok d" and "dv_power d = None"
  shows "\<exists>lm. log_init (m, x) d = Ok (lm, d) \<and> log_ok (lm, d) bs \<and> lm_min lm = m \<and> lm_max lm = x"
proof -
  note D = log_onD [OF assms(1)] and N = log_numbers [OF assms(1)]
  obtain k where k: "length bs = Suc k" using D(9) by (cases bs) auto
  show ?thesis
    using assms D(2,4) D(8) [of k] k N(4) by (simp add: log_init_def bm_get_def log_ok_def)
qed

section \<open>Appending\<close>

text \<open>Blocks outside the log stay as they are.\<close>

definition same_outside :: "nat \<Rightarrow> nat \<Rightarrow> device \<Rightarrow> device \<Rightarrow> bool" where
  "same_outside a b d d' \<longleftrightarrow> dv_size d' = dv_size d \<and> (\<forall>n. n < a \<or> b < n \<longrightarrow> dv_blocks d' n = dv_blocks d n)"

lemma same_outside_trans:
  "same_outside a b d d1 \<Longrightarrow> same_outside a b d1 d2 \<Longrightarrow> same_outside a b d d2"
  by (simp add: same_outside_def)

lemma same_outside_mono: "same_outside a b d d' \<Longrightarrow> b \<le> c \<Longrightarrow> same_outside a c d d'"
  by (simp add: same_outside_def)

lemma same_outside_write [simp]:
  "dv_power d = None \<Longrightarrow> a \<le> buf_block x \<Longrightarrow> buf_block x \<le> b \<Longrightarrow> same_outside a b d (bm_write x d)"
  by (auto simp: same_outside_def)

text \<open>The last block is rewritten with one entry more.\<close>

lemma log_append_ok:
  assumes d: "device_ok d" "dv_power d = None" "dv_size d < 2 ^ 32" and cs: "chunks_ok (init @ [c @ [e]])"
    and size: "lm_min lm + length init + 1 < dv_size d"
    and sb: "block_valid sb_end (dv_blocks d (lm_min lm))" "sb_start (dv_blocks d (lm_min lm)) = of_nat (lm_min lm + 1)"
      "sb_size (dv_blocks d (lm_min lm)) = of_nat (length init + 1)"
      "lm_super lm = \<lparr>buf_data = dv_blocks d (lm_min lm), buf_block = lm_min lm\<rparr>"
    and cur: "buf_block (lm_current lm) = lm_min lm + 1 + length init" "block_has (buf_data (lm_current lm)) c" "length c < 169"
    and init: "\<And>k. k < length init \<Longrightarrow> block_has (dv_blocks d (lm_min lm + 1 + k)) (init ! k) \<and> block_valid lb_end (dv_blocks d (lm_min lm + 1 + k))"
    and e: "named_op e"
  shows "\<exists>lm' d'. log_append e (lm, d) = (SUCCESS, lm', d') \<and> log_ok (lm', d') (init @ [c @ [e]]) \<and>
    lm_min lm' = lm_min lm \<and> lm_max lm' = lm_max lm \<and> same_outside (lm_min lm) (lm_min lm + 1 + length init) d d'"
proof -
  let ?m = "lm_min lm" and ?n = "length init"
  define b where "b = block_prewrite lb_end (add_entry e (buf_data (lm_current lm)))"
  have has: "block_has b (c @ [e])" using add_entry_has [OF cur(2,3) e] by (simp add: b_def)
  have "length b = 512" by (rule block_hasD(1) [OF has])
  have "add_entry e (buf_data (lm_current lm)) \<noteq> []"
    using block_hasD(1) [OF add_entry_has [OF cur(2,3) e]] by auto
  then have v: "block_valid lb_end b" by (simp add: b_def)
  let ?cur = "\<lparr>buf_data = b, buf_block = ?m + 1 + ?n\<rparr>"
  have app: "log_append e (lm, d) = (SUCCESS, lm\<lparr>lm_current := ?cur\<rparr>, bm_write ?cur d)"
    using cur(1) by (cases "lm_current lm") (simp add: log_append_def on_data_def b_def add_entry_def Let_def)
  have "log_on (bm_write ?cur d) ?m (init @ [c @ [e]])"
    unfolding log_on_def blocks_on_def using d cs size sb has v init by (auto simp: nth_append less_Suc_eq)
  then have "log_ok (lm\<lparr>lm_current := ?cur\<rparr>, bm_write ?cur d) (init @ [c @ [e]])"
    using d sb(4) bm_write_ok [OF d(1), of ?cur] \<open>length b = 512\<close> by (simp add: log_ok_def BLOCK_WORDS_def)
  then show ?thesis using app d(2) by auto
qed

theorem logOperation_ok:
  assumes L: "log_ok (lm, d) bs" and e: "named_op e"
    and room: "length (last bs) < LOG_BLOCK_ENTRY_COUNT \<or> lm_min lm + length bs + 1 < dv_size d"
  shows "\<exists>lm' d'. logOperation e (lm, d) = (SUCCESS, lm', d') \<and> log_ok (lm', d') (add_chunk bs e) \<and>
    lm_min lm' = lm_min lm \<and> lm_max lm' = lm_max lm \<and>
    same_outside (lm_min lm) (lm_min lm + length (add_chunk bs e)) d d'"
proof -
  note D = log_okD [OF L]
  note O = log_onD [OF D(3)] and N = log_numbers [OF D(3)]
  obtain init c where bs: "bs = init @ [c]" using O(1) by (cases bs rule: rev_cases) (auto simp: chunks_ok_def)
  let ?m = "lm_min lm"
  have cc: "block_has (dv_blocks d (?m + length bs)) c" using O(7) [of "length init"] by (simp add: bs)
  have ok: "chunks_ok (add_chunk bs e)" by (rule add_chunk_ok [OF O(1)])
  have init: "block_has (dv_blocks d (?m + 1 + k)) (init ! k) \<and> block_valid lb_end (dv_blocks d (?m + 1 + k))"
    if "k < length init" for k
    using O(7,8) [of k] that by (simp add: bs nth_append)
  show ?thesis
  proof (cases "length c = 169")
    case False
    then have less: "length c < 169" using block_hasD(3) [OF cc] by simp
    have "unat (lb_nEntries (buf_data (lm_current lm))) \<noteq> 169" using block_hasD(2) [OF cc] False by (simp add: D(5))
    then have "logOperation e (lm, d) = log_append e (lm, d)" by (simp add: logOperation_def)
    moreover have "\<exists>lm' d'. log_append e (lm, d) = (SUCCESS, lm', d') \<and> log_ok (lm', d') (init @ [c @ [e]]) \<and>
        lm_min lm' = ?m \<and> lm_max lm' = lm_max lm \<and> same_outside ?m (?m + 1 + length init) d d'"
      by (rule log_append_ok)
        (use D O(2,4,5,6,10) init ok False less cc e in \<open>auto simp: bs add_chunk_def\<close>)
    ultimately show ?thesis using False by (simp add: bs add_chunk_def)
  next
    case True
    have full: "unat (lb_nEntries (buf_data (lm_current lm))) = 169" using block_hasD(2) [OF cc] True by (simp add: D(5))
    have size: "?m + length bs + 1 < dv_size d" using room True by (simp add: bs)
    define sb where "sb = block_prewrite sb_end (set_size (sb_size (dv_blocks d ?m) + 1) (dv_blocks d ?m))"
    define new where "new = lb_init (sb_generation (dv_blocks d ?m)) (dv_blocks d (?m + 1 + length bs))"
    let ?sup = "\<lparr>buf_data = sb, buf_block = ?m\<rparr>" and ?cur = "\<lparr>buf_data = new, buf_block = ?m + 1 + length bs\<rparr>"
    let ?lm = "lm\<lparr>lm_current := ?cur, lm_super := ?sup\<rparr>" and ?d = "bm_write ?sup d"
    have len: "length (dv_blocks d n) = 512" for n using D(1) by (simp add: device_ok_def BLOCK_WORDS_def)
    then have ne: "dv_blocks d n \<noteq> []" for n by (metis list.size(3) zero_neq_numeral)
    have op: "logOperation e (lm, d) = log_append e (?lm, ?d)"
      using full size N(3) by (simp add: logOperation_def D(4) bm_get_def on_data_def sb_def new_def Let_def)
    have sb: "length sb = 512" "block_valid sb_end sb" "sb_start sb = of_nat (?m + 1)" "sb_size sb = of_nat (length bs + 1)"
      using len ne O(5,6) by (auto simp: sb_def set_size_def sb_start_def sb_size_def)
    have "device_ok ?d" using bm_write_ok [OF D(1), of ?sup] sb(1) by (simp add: BLOCK_WORDS_def)
    moreover have "block_has new []" by (simp add: new_def lb_init_has len BLOCK_WORDS_def)
    ultimately have "\<exists>lm' d'. log_append e (?lm, ?d) = (SUCCESS, lm', d') \<and> log_ok (lm', d') (bs @ [[] @ [e]]) \<and>
        lm_min lm' = lm_min ?lm \<and> lm_max lm' = lm_max ?lm \<and> same_outside (lm_min ?lm) (lm_min ?lm + 1 + length bs) ?d d'"
      by (intro log_append_ok)
        (use D(2) O(10) O(7,8) [of k for k] ok True size sb e in \<open>auto simp: bs add_chunk_def\<close>)
    then show ?thesis
      using True D(2) same_outside_trans [OF same_outside_write [of d ?m ?sup "?m + 1 + length bs"]]
      by (auto simp: op bs add_chunk_def)
  qed
qed

lemma logOperation_generation:
  "logOperation e (lm, d) = (c, lm', d') \<Longrightarrow> getGeneration lm' = getGeneration lm"
  by (auto simp: logOperation_def log_append_def getGeneration_def sb_generation_def on_data_def set_size_def Let_def
      split: if_splits sum.splits)

theorem logOperation_full:
  assumes "log_ok (lm, d) bs" and "length (last bs) = LOG_BLOCK_ENTRY_COUNT" and "dv_size d \<le> lm_min lm + length bs + 1"
  shows "logOperation e (lm, d) = (NO_SPACE, lm, d)"
proof -
  note D = log_okD [OF assms(1)]
  note O = log_onD [OF D(3)] and N = log_numbers [OF D(3)]
  obtain init c where bs: "bs = init @ [c]" using O(1) by (cases bs rule: rev_cases) (auto simp: chunks_ok_def)
  have "block_has (dv_blocks d (lm_min lm + length bs)) c" using O(7) [of "length init"] by (simp add: bs)
  then show ?thesis using assms(2,3) block_hasD(2) N(3) by (fastforce simp: bs logOperation_def D(4,5) bm_get_def)
qed

section \<open>A new generation\<close>

lemma increaseGeneration_ok:
  assumes "device_ok d" and "dv_power d = None" and "dv_size d < 2 ^ 32" and "lm_min lm + 1 < dv_size d"
    and "buf_block (lm_super lm) = lm_min lm" and "length (buf_data (lm_super lm)) = BLOCK_WORDS"
  shows "\<exists>lm' d'. increaseGeneration (lm, d) = Ok (lm', d') \<and> log_ok (lm', d') [[]] \<and>
    sb_generation (buf_data (lm_super lm')) = sb_generation (buf_data (lm_super lm)) + 1 \<and>
    lm_min lm' = lm_min lm \<and> lm_max lm' = lm_max lm \<and> same_outside (lm_min lm) (lm_min lm + 1) d d'"
proof -
  let ?m = "lm_min lm" and ?b = "buf_data (lm_super lm)"
  define sb where "sb = block_prewrite sb_end (set_size 1 (set_start (of_nat (?m + 1)) (set_generation (sb_generation ?b + 1) ?b)))"
  define new where "new = block_prewrite lb_end (lb_init (sb_generation sb) (dv_blocks d (?m + 1)))"
  let ?sup = "\<lparr>buf_data = sb, buf_block = ?m\<rparr>" and ?cur = "\<lparr>buf_data = new, buf_block = ?m + 1\<rparr>"
  let ?d1 = "bm_write ?sup d"
  let ?d2 = "bm_write ?cur ?d1"
  have len: "length (dv_blocks d n) = 512" "length ?b = 512" for n
    using assms(1,6) by (simp_all add: device_ok_def BLOCK_WORDS_def)
  then have ne: "dv_blocks d n \<noteq> []" "?b \<noteq> []" for n by (metis list.size(3) zero_neq_numeral)+
  have sb: "length sb = 512" "block_valid sb_end sb" "sb_start sb = of_nat (?m + 1)" "sb_size sb = 1"
    "sb_generation sb = sb_generation ?b + 1"
    using len ne by (auto simp: sb_def set_size_def set_start_def set_generation_def sb_start_def sb_size_def sb_generation_def)
  have start: "unat (sb_start sb) = ?m + 1"
    using assms(3,4) unfolding sb(3) by (simp only: unat_of_nat) (simp add: take_bit_nat_eq_self)
  have new: "length new = 512" "block_valid lb_end new" "block_has new []"
    using len ne lb_init_has [of "dv_blocks d (?m + 1)" "sb_generation sb"]
    by (auto simp: new_def BLOCK_WORDS_def lb_init_def set_nEntries_def)
  have run: "increaseGeneration (lm, d) = Ok (lm\<lparr>lm_super := ?sup, lm_current := ?cur\<rparr>, ?d2)"
    using assms(2,4,5) start by (cases "lm_super lm") (simp add: increaseGeneration_def Let_def on_data_def bm_get_def sb_def new_def)
  have "device_ok ?d2" using assms(1) sb(1) new(1) by (simp add: bm_write_ok BLOCK_WORDS_def)
  moreover have "log_on ?d2 ?m [[]]"
    using assms(2,3,4) sb new by (simp add: log_on_def blocks_on_def chunks_ok_def)
  ultimately have "log_ok (lm\<lparr>lm_super := ?sup, lm_current := ?cur\<rparr>, ?d2) [[]]"
    using assms(2) by (simp add: log_ok_def)
  then show ?thesis using run sb(5) assms(2) by (auto simp: same_outside_def)
qed

lemma log_format_ok:
  assumes "device_ok d" and "dv_power d = None" and "dv_size d < 2 ^ 32" and "fst r + 1 < dv_size d"
  shows "\<exists>lm' d'. log_format r d = Ok (lm', d') \<and> log_ok (lm', d') [[]] \<and>
    lm_min lm' = fst r \<and> lm_max lm' = snd r \<and> same_outside (fst r) (fst r + 1) d d' \<and>
    (block_valid sb_end (dv_blocks d (fst r)) \<longrightarrow> sb_generation (buf_data (lm_super lm')) = sb_generation (dv_blocks d (fst r)) + 1)"
proof -
  let ?lm = "\<lambda>s. \<lparr>lm_min = fst r, lm_max = snd r, lm_super = s, lm_current = s\<rparr>"
  let ?old = "\<lparr>buf_data = dv_blocks d (fst r), buf_block = fst r\<rparr>"
  let ?new = "\<lparr>buf_data = block_prewrite sb_end (sb_init (fst r) (dv_blocks d (fst r))), buf_block = fst r\<rparr>"
  have len: "length (dv_blocks d n) = BLOCK_WORDS" for n using assms(1) by (simp add: device_ok_def)
  have "length (buf_data ?new) = BLOCK_WORDS"
    by (simp add: len sb_init_def set_size_def set_start_def set_generation_def)
  then have w: "device_ok (bm_write ?new d)" "length (buf_data ?new) = BLOCK_WORDS" by (simp_all add: bm_write_ok assms(1))
  have "log_format r d = (if block_valid sb_end (dv_blocks d (fst r)) then increaseGeneration (?lm ?old, d)
      else increaseGeneration (?lm ?new, bm_write ?new d))"
    using assms(4) by (simp add: log_format_def bm_get_def on_data_def Let_def)
  then show ?thesis
    using increaseGeneration_ok [of d "?lm ?old"] increaseGeneration_ok [of "bm_write ?new d" "?lm ?new"] assms len w
      same_outside_trans [OF same_outside_write [of d "fst r" ?new "fst r + 1"]]
    by (auto split: if_splits)
qed

section \<open>Reading\<close>

text \<open>The steps for the entries in order, until one ends the process.\<close>

fun run_steps :: "('a \<Rightarrow> 's \<Rightarrow> 's run) \<Rightarrow> 'a list \<Rightarrow> 's \<Rightarrow> 's run" where
  "run_steps step [] s = Ok s"
| "run_steps step (e # es) s = (case step e s of Die \<Rightarrow> Die | Ok s' \<Rightarrow> run_steps step es s')"

lemma run_steps_append:
  "run_steps step (es @ fs) s = (case run_steps step es s of Die \<Rightarrow> Die | Ok s' \<Rightarrow> run_steps step fs s')"
  by (induction es arbitrary: s) (auto split: run.split)

lemma run_steps_collect [simp]: "run_steps (\<lambda>e es. Ok (es @ [e])) es s = Ok (s @ es)"
  by (induction es arbitrary: s) auto

definition reader_at :: "device \<Rightarrow> nat \<Rightarrow> nat \<Rightarrow> nat \<Rightarrow> nat \<Rightarrow> reader" where
  "reader_at d m n k j = \<lparr>rd_buffer = Some \<lparr>buf_data = dv_blocks d (m + 1 + k), buf_block = m + 1 + k\<rparr>,
     rd_end = m + 1 + n, rd_block = m + 1 + k, rd_index = j\<rparr>"

lemma reader_next:
  assumes "blocks_on d m bs" and "k < length bs" and "j < length (bs ! k)"
  shows "hasNext (reader_at d m n k j)" "getNext d (reader_at d m n k j) = Ok (bs ! k ! j, reader_at d m n k (Suc j))"
proof -
  note b = blocks_onD(3,4) [OF assms(1,2)]
  note h = block_hasD [OF b(1)]
  show "hasNext (reader_at d m n k j)" using h(2) assms(3) by (simp add: hasNext_def reader_at_def)
  show "getNext d (reader_at d m n k j) = Ok (bs ! k ! j, reader_at d m n k (Suc j))"
    using h(2,3) h(4) [OF assms(3)] assms(3) b(2) by (simp add: getNext_def take_entry_def reader_at_def)
qed

lemma reader_next_block:
  assumes "blocks_on d m bs" and "Suc k < length bs" and "length bs \<le> n"
  shows "hasNext (reader_at d m n k (length (bs ! k)))"
    "getNext d (reader_at d m n k (length (bs ! k))) = Ok (bs ! Suc k ! 0, reader_at d m n (Suc k) 1)"
    "0 < length (bs ! Suc k)"
proof -
  note O = blocks_onD [OF assms(1)]
  show ne: "0 < length (bs ! Suc k)"
  proof (cases "Suc (Suc k) = length bs")
    case True
    have "bs \<noteq> []" using assms(2) by auto
    from last_conv_nth [OF this] have "bs ! Suc k = last bs" by (simp flip: True)
    then show ?thesis using O(1) assms(2) by (simp add: chunks_ok_def)
  next
    case False
    then show ?thesis using chunk_length [OF O(1) assms(2)] by simp
  qed
  have b: "block_has (dv_blocks d (m + 1 + k)) (bs ! k)" "block_valid lb_end (dv_blocks d (m + 1 + k))"
    "block_has (dv_blocks d (m + 1 + Suc k)) (bs ! Suc k)" "block_valid lb_end (dv_blocks d (m + 1 + Suc k))"
    using O(3,4) [of k] O(3,4) [of "Suc k"] assms(2) by auto
  show "hasNext (reader_at d m n k (length (bs ! k)))" using assms(2,3) by (simp add: hasNext_def reader_at_def)
  show "getNext d (reader_at d m n k (length (bs ! k))) = Ok (bs ! Suc k ! 0, reader_at d m n (Suc k) 1)"
    using block_hasD(2) [OF b(1)] block_hasD(4) [OF b(3) ne] b(2,4) assms(2,3) O(2)
    by (simp add: getNext_def take_entry_def reader_at_def bm_get_def)
qed

lemma reader_done:
  assumes "blocks_on d m bs" and "Suc k = length bs"
  shows "\<not> hasNext (reader_at d m (length bs) k (length (bs ! k)))"
  using block_hasD(2) [OF blocks_onD(3) [OF assms(1), of k]] assms(2) by (simp add: hasNext_def reader_at_def)

text \<open>Reading up to the end of the last block, whatever follows it.\<close>

lemma replay_at:
  assumes "blocks_on d m bs" and "length bs \<le> n" and "k < length bs" and "j \<le> length (bs ! k)"
  shows "replay step d (reader_at d m n k j) s =
    (case run_steps step (drop j (bs ! k) @ concat (drop (Suc k) bs)) s of
       Die \<Rightarrow> Die | Ok s' \<Rightarrow> replay step d (reader_at d m n (length bs - 1) (length (last bs))) s')"
  using assms(3,4)
proof (induction "drop j (bs ! k) @ concat (drop (Suc k) bs)" arbitrary: k j s)
  case Nil
  then have j: "j = length (bs ! k)" by simp
  have k: "Suc k = length bs"
  proof (rule ccontr)
    assume "Suc k \<noteq> length bs"
    then have "Suc k < length bs" using Nil by simp
    then show False using reader_next_block(3) [OF assms(1) _ assms(2), of k] Nil(1)
      by (metis Nil_is_append_conv concat.simps(2) Cons_nth_drop_Suc length_greater_0_conv)
  qed
  have "bs \<noteq> []" using Nil(2) by auto
  from last_conv_nth [OF this] have "last bs = bs ! k" by (simp flip: k)
  then show ?case using k j by (simp flip: k)
next
  case (Cons e rest)
  note nx = \<open>e # rest = drop j (bs ! k) @ concat (drop (Suc k) bs)\<close>
  show ?case
  proof (cases "j < length (bs ! k)")
    case True
    have dr: "drop j (bs ! k) = bs ! k ! j # drop (Suc j) (bs ! k)" using True by (simp add: Cons_nth_drop_Suc)
    note IH = Cons.hyps(1) [of "Suc j" k]
    show ?thesis using reader_next [OF assms(1) Cons.prems(1) True] dr IH True Cons.prems(1) nx
      by (subst replay.simps) (simp split: run.split)
  next
    case False
    then have j: "j = length (bs ! k)" using Cons.prems by simp
    then have "drop (Suc k) bs \<noteq> []" using nx by auto
    then have k: "Suc k < length bs" by simp
    note b = reader_next_block [OF assms(1) k assms(2)]
    have dr: "drop (Suc k) bs = bs ! Suc k # drop (Suc (Suc k)) bs" using k by (simp add: Cons_nth_drop_Suc)
    have hd: "bs ! Suc k = bs ! Suc k ! 0 # drop 1 (bs ! Suc k)" using b(3) Cons_nth_drop_Suc [of 0 "bs ! Suc k"] by simp
    have all: "drop j (bs ! k) @ concat (drop (Suc k) bs) = bs ! Suc k ! 0 # drop 1 (bs ! Suc k) @ concat (drop (Suc (Suc k)) bs)"
      using j dr hd by (metis append_Cons append_self_conv2 concat.simps(2) drop_all order_refl)
    have IH: "replay step d (reader_at d m n (Suc k) 1) s' =
        (case run_steps step (drop 1 (bs ! Suc k) @ concat (drop (Suc (Suc k)) bs)) s' of
           Die \<Rightarrow> Die | Ok s' \<Rightarrow> replay step d (reader_at d m n (length bs - 1) (length (last bs))) s')" for s'
      by (rule Cons.hyps(1)) (use nx all k b(3) in \<open>auto simp: Suc_le_eq\<close>)
    show ?thesis using b(1,2) IH unfolding all j [symmetric] by (subst replay.simps) (simp split: run.split)
  qed
qed

theorem replay_log:
  assumes "log_ok (lm, d) bs"
  shows "\<exists>r. readLog (lm, d) = Ok r \<and> replay step d r s = run_steps step (concat bs) s"
proof -
  note D = log_okD [OF assms]
  note O = log_onD [OF D(3)] and N = log_numbers [OF D(3)]
  have "lm_min lm + 1 < dv_size d" using O(2,9) by linarith
  then have "readLog (lm, d) = Ok (reader_at d (lm_min lm) (length bs) 0 0)"
    using O(9) O(8) [of 0] N(1,2) by (simp add: readLog_def D(4) Let_def bm_get_def reader_at_def)
  moreover have "bs ! 0 @ concat (drop 1 bs) = concat bs" using O(9) by (cases bs) auto
  moreover have "replay step d (reader_at d (lm_min lm) (length bs) (length bs - 1) (length (last bs))) s' = Ok s'" for s'
  proof -
    have "bs \<noteq> []" using O(9) by auto
    then show ?thesis using reader_done [OF O(11), of "length bs - 1"] last_conv_nth [of bs] by (subst replay.simps) simp
  qed
  ultimately show ?thesis using replay_at [OF O(11) order_refl O(9), of 0 step s] by (cases "run_steps step (concat bs) s") auto
qed

corollary read_all_log: "log_ok (lm, d) bs \<Longrightarrow> read_all (lm, d) = Ok (concat bs)"
  using replay_log [of lm d bs "\<lambda>e es. Ok (es @ [e])" "[]"] by (auto simp: read_all_def)

section \<open>Crashes\<close>

text \<open>The device when only \<open>k\<close> more writes reach it.\<close>

definition failing :: "nat \<Rightarrow> device \<Rightarrow> device" where
  "failing k d = d\<lparr>dv_power := Some k\<rparr>"

lemma failing_simps [simp]:
  "dv_size (failing k d) = dv_size d" "dv_blocks (failing k d) = dv_blocks d" "bm_get (failing k d) n z = bm_get d n z"
  "bm_write b (failing 0 d) = failing 0 d"
  "dv_power d = None \<Longrightarrow> bm_write b (failing (Suc k) d) = failing k (bm_write b d)"
  "dv_power d = None \<Longrightarrow> restarted (failing k d) = d"
  by (simp_all add: failing_def bm_get_def bm_write_def restarted_def)

lemma log_append_failing:
  assumes "dv_power d = None"
  shows "snd (snd (log_append e (lm, failing k d))) = (if k = 0 then failing 0 d else failing (k - 1) (snd (snd (log_append e (lm, d)))))"
  using assms by (cases k) (simp_all add: log_append_def Let_def)

text \<open>A crash while an entry is appended to a block that is not full loses the entry or keeps it.\<close>

lemma append_crash:
  assumes "log_ok (lm, d) bs" and "named_op e" and "length (last bs) < LOG_BLOCK_ENTRY_COUNT"
    and "logOperation e (lm, failing k d) = (c, lm', d')"
  shows "\<exists>lm''. log_init (lm_min lm, x) (restarted d') = Ok (lm'', restarted d') \<and>
    log_ok (lm'', restarted d') (if k = 0 then bs else add_chunk bs e)"
proof -
  note D = log_okD [OF assms(1)]
  note O = log_onD [OF D(3)]
  obtain init c where bs: "bs = init @ [c]" using O(1) by (cases bs rule: rev_cases) (auto simp: chunks_ok_def)
  have "block_has (dv_blocks d (lm_min lm + length bs)) c" using O(7) [of "length init"] by (simp add: bs)
  then have nf: "unat (lb_nEntries (buf_data (lm_current lm))) \<noteq> 169" using block_hasD(2) assms(3) by (fastforce simp: bs D(5))
  obtain lm1 d1 where 1: "logOperation e (lm, d) = (SUCCESS, lm1, d1)" "log_ok (lm1, d1) (add_chunk bs e)" "lm_min lm1 = lm_min lm"
    using logOperation_ok [OF assms(1,2)] assms(3) by blast
  have "d' = (if k = 0 then failing 0 d else failing (k - 1) d1)"
    using log_append_failing [OF D(2), of e lm k] assms(4) 1(1) nf by (auto simp: logOperation_def)
  then have "restarted d' = (if k = 0 then d else d1)" using D(2) log_okD(2) [OF 1(2)] by simp
  then show ?thesis using log_init_ok [OF D(3,1,2)] log_init_ok [OF log_okD(3,1,2) [OF 1(2)]] 1(3) by auto
qed

text \<open>When a block is full, the superblock is written before the new block.\<close>

lemma full_crash:
  assumes "log_ok (lm, d) bs" and "length (last bs) = LOG_BLOCK_ENTRY_COUNT" and "lm_min lm + length bs + 1 < dv_size d"
    and "logOperation e (lm, failing 1 d) = (c, lm', d')"
  shows "\<exists>sb. restarted d' = bm_write \<lparr>buf_data = sb, buf_block = lm_min lm\<rparr> d \<and> length sb = BLOCK_WORDS \<and>
    block_valid sb_end sb \<and> sb_start sb = of_nat (lm_min lm + 1) \<and> sb_size sb = of_nat (length bs + 1)"
proof -
  note D = log_okD [OF assms(1)]
  note O = log_onD [OF D(3)] and N = log_numbers [OF D(3)]
  let ?m = "lm_min lm"
  obtain init c where bs: "bs = init @ [c]" using O(1) by (cases bs rule: rev_cases) (auto simp: chunks_ok_def)
  have "block_has (dv_blocks d (?m + length bs)) c" using O(7) [of "length init"] by (simp add: bs)
  then have full: "unat (lb_nEntries (buf_data (lm_current lm))) = 169" using block_hasD(2) assms(2) by (fastforce simp: bs D(5))
  let ?sb = "block_prewrite sb_end (set_size (sb_size (dv_blocks d ?m) + 1) (dv_blocks d ?m))"
  let ?w = "bm_write \<lparr>buf_data = ?sb, buf_block = ?m\<rparr>"
  have len: "length (dv_blocks d n) = 512" for n using D(1) by (simp add: device_ok_def BLOCK_WORDS_def)
  then have ne: "dv_blocks d n \<noteq> []" for n by (metis list.size(3) zero_neq_numeral)
  have "d' = failing 0 (?w d)"
    using full assms(3,4) N(3) D(2) log_append_failing [of "?w d" e _ 0]
    by (auto simp: logOperation_def D(4) bm_get_def on_data_def Let_def log_append_def)
  then show ?thesis using D(2) len ne O(5,6)
    by (intro exI [of _ ?sb]) (auto simp: set_size_def sb_start_def sb_size_def BLOCK_WORDS_def)
qed

end
