(* ===== verification/Checkpoint.thy ===== *)
theory Checkpoint
  imports BlockDevice
begin

text \<open>
  The checkpoints of \<open>src/db/checkpoint_manager.cc\<close>: the superblock, the writer and the reader of a
  stream of words over blocks, writing the nodes of the store in the iteration order of its hash
  tables, and reading them back. A dereferenced failure ends the process.
\<close>

section \<open>The superblock\<close>

definition cs_checkpointed :: "64 word list \<Rightarrow> bool" where "cs_checkpointed b \<longleftrightarrow> b ! 0 AND 255 \<noteq> 0"
definition cs_version :: "64 word list \<Rightarrow> 64 word" where "cs_version b = b ! 1"
definition cs_nodeCount :: "64 word list \<Rightarrow> 64 word" where "cs_nodeCount b = b ! 2"

definition set_checkpointed :: "bool \<Rightarrow> 64 word list \<Rightarrow> 64 word list" where
  "set_checkpointed v b = b[0 := (b ! 0 AND NOT 255) OR (if v then 1 else 0)]"

record ckpt_manager =
  cm_min :: nat
  cm_max :: nat
  cm_super :: buffer

text \<open>The constructor wants a range that is not empty.\<close>

definition new_checkpoint :: "nat \<times> nat \<Rightarrow> (nat \<times> nat) run" where
  "new_checkpoint r = (if fst r < snd r then Ok r else Die)"

definition ckpt_init :: "nat \<times> nat \<Rightarrow> device \<Rightarrow> ckpt_manager run" where
  "ckpt_init r d = (case bm_get d (fst r) False of Inl _ \<Rightarrow> Die
     | Inr b \<Rightarrow> Ok \<lparr>cm_min = fst r, cm_max = snd r, cm_super = b\<rparr>)"

definition ckpt_format :: "nat \<times> nat \<Rightarrow> device \<Rightarrow> (ckpt_manager \<times> device) run" where
  "ckpt_format r d = (case bm_get d (fst r) True of Inl _ \<Rightarrow> Die
     | Inr b \<Rightarrow> Ok (\<lparr>cm_min = fst r, cm_max = snd r, cm_super = b\<rparr>, bm_write b d))"

definition hasCheckpoint :: "64 word \<Rightarrow> ckpt_manager \<Rightarrow> bool" where
  "hasCheckpoint generation cm \<longleftrightarrow> cs_checkpointed (buf_data (cm_super cm)) \<and> cs_version (buf_data (cm_super cm)) = generation"

section \<open>Writing\<close>

record writer =
  w_block :: nat
  w_end :: nat
  w_cur :: buffer
  w_pos :: nat

text \<open>\<open>readBlock\<close> writes the current block and takes the next one as zeros.\<close>

definition w_next :: "nat \<Rightarrow> writer \<times> device \<Rightarrow> (writer \<times> device) run" where
  "w_next n W = (case W of (w, d) \<Rightarrow>
     let d1 = bm_write (w_cur w) d in
     case bm_get d1 n True of Inl _ \<Rightarrow> Die | Inr b \<Rightarrow> Ok (w\<lparr>w_cur := b, w_pos := 0\<rparr>, d1))"

definition new_writer :: "nat \<Rightarrow> nat \<Rightarrow> device \<Rightarrow> (writer \<times> device) run" where
  "new_writer start fin d = (case bm_get d start False of Inl _ \<Rightarrow> Die
     | Inr b \<Rightarrow> w_next start (\<lparr>w_block = start, w_end = fin, w_cur = b, w_pos = 0\<rparr>, d))"

definition put_word :: "64 word \<Rightarrow> writer \<Rightarrow> writer" where
  "put_word x w = w\<lparr>w_cur := (w_cur w)\<lparr>buf_data := (buf_data (w_cur w))[w_pos w := x]\<rparr>, w_pos := w_pos w + 1\<rparr>"

text \<open>The flag is whether there was space (\<open>OutOfSpaceException\<close> otherwise).\<close>

definition writeUint64 :: "64 word \<Rightarrow> writer \<times> device \<Rightarrow> (bool \<times> writer \<times> device) run" where
  "writeUint64 x W = (case W of (w, d) \<Rightarrow>
     if w_end w \<le> w_block w then Ok (False, w, d)
     else if BLOCK_WORDS \<le> w_pos w
     then let w1 = w\<lparr>w_block := w_block w + 1\<rparr> in
          if w_block w1 = w_end w1 then Ok (False, w1, d)
          else (case w_next (w_block w1) (w1, d) of Die \<Rightarrow> Die | Ok (w2, d2) \<Rightarrow> Ok (True, put_word x w2, d2))
     else Ok (True, put_word x w, d))"

fun write_words :: "64 word list \<Rightarrow> writer \<times> device \<Rightarrow> (bool \<times> writer \<times> device) run" where
  "write_words [] W = Ok (True, W)"
| "write_words (x # xs) W =
     (case writeUint64 x W of Die \<Rightarrow> Die | Ok (False, W1) \<Rightarrow> Ok (False, W1) | Ok (True, W1) \<Rightarrow> write_words xs W1)"

text \<open>The words of the nodes: the id, the number of edges, the edges.\<close>

definition node_words :: "(node_id \<times> node_id list) list \<Rightarrow> 64 word list" where
  "node_words ns = concat (map (\<lambda>(n, es). n # of_nat (length es) # es) ns)"

text \<open>The hash tables iterate in the orders \<open>no\<close> and \<open>ho\<close>.\<close>

definition node_list :: "(node_id set \<Rightarrow> node_id list) \<Rightarrow> (edges \<Rightarrow> node_id list) \<Rightarrow> store \<Rightarrow> (node_id \<times> node_id list) list" where
  "node_list no ho m = map (\<lambda>n. (n, ho (case m n of Some e \<Rightarrow> e | None \<Rightarrow> {}))) (no (dom m))"

definition performCheckpoint ::
  "(node_id set \<Rightarrow> node_id list) \<Rightarrow> (edges \<Rightarrow> node_id list) \<Rightarrow> 64 word \<Rightarrow> store \<Rightarrow> ckpt_manager \<times> device
     \<Rightarrow> (code \<times> ckpt_manager \<times> device) run" where
  "performCheckpoint no ho generation m C = (case C of (cm, d) \<Rightarrow>
     let ns = node_list no ho m;
         b = (buf_data (cm_super cm))[1 := generation];
         sb = (cm_super cm)\<lparr>buf_data := (set_checkpointed False b)[2 := of_nat (length ns)]\<rparr>;
         cm1 = cm\<lparr>cm_super := sb\<rparr>; d1 = bm_write sb d in
     case new_writer (cm_min cm + 1) (cm_max cm) d1 of
       Die \<Rightarrow> Die
     | Ok W \<Rightarrow>
         (case write_words (node_words ns) W of
            Die \<Rightarrow> Die
          | Ok (False, w, d2) \<Rightarrow> Ok (NO_SPACE, cm1, d2)
          | Ok (True, w, d2) \<Rightarrow>
              let d3 = bm_write (w_cur w) d2; sb2 = sb\<lparr>buf_data := set_checkpointed True (buf_data sb)\<rparr> in
              Ok (SUCCESS, cm\<lparr>cm_super := sb2\<rparr>, bm_write sb2 d3)))"

section \<open>Reading\<close>

record word_reader =
  r_block :: nat
  r_end :: nat
  r_cur :: buffer
  r_pos :: nat

definition r_next :: "nat \<Rightarrow> device \<Rightarrow> word_reader \<Rightarrow> word_reader run" where
  "r_next n d r = (case bm_get d n False of Inl _ \<Rightarrow> Die | Inr b \<Rightarrow> Ok (r\<lparr>r_cur := b, r_pos := 0\<rparr>))"

definition new_reader :: "nat \<Rightarrow> nat \<Rightarrow> device \<Rightarrow> word_reader run" where
  "new_reader start fin d = (case bm_get d start False of Inl _ \<Rightarrow> Die
     | Inr b \<Rightarrow> r_next start d \<lparr>r_block = start, r_end = fin, r_cur = b, r_pos = 0\<rparr>)"

definition pick_word :: "word_reader \<Rightarrow> 64 word \<times> word_reader" where
  "pick_word r = (buf_data (r_cur r) ! r_pos r, r\<lparr>r_pos := r_pos r + 1\<rparr>)"

definition readUint64 :: "device \<Rightarrow> word_reader \<Rightarrow> (64 word \<times> word_reader) run" where
  "readUint64 d r =
     (if r_end r \<le> r_block r then Die
      else if BLOCK_WORDS \<le> r_pos r
      then (case r_next (r_block r + 1) d (r\<lparr>r_block := r_block r + 1\<rparr>) of Die \<Rightarrow> Die | Ok r1 \<Rightarrow> Ok (pick_word r1))
      else Ok (pick_word r))"

definition restore_edge :: "node_id \<Rightarrow> node_id \<Rightarrow> store \<Rightarrow> store" where
  "restore_edge n e m =
     (let m1 = (if m e = None then snd (addNode e m) else m)
      in case m1 n of None \<Rightarrow> m1 | Some es \<Rightarrow> m1(n \<mapsto> snd (node_addEdge e es)))"

fun read_edges :: "nat \<Rightarrow> node_id \<Rightarrow> device \<Rightarrow> word_reader \<Rightarrow> store \<Rightarrow> (word_reader \<times> store) run" where
  "read_edges 0 n d r m = Ok (r, m)"
| "read_edges (Suc k) n d r m =
     (case readUint64 d r of Die \<Rightarrow> Die | Ok (e, r1) \<Rightarrow> read_edges k n d r1 (restore_edge n e m))"

fun read_nodes :: "nat \<Rightarrow> device \<Rightarrow> word_reader \<Rightarrow> store \<Rightarrow> store run" where
  "read_nodes 0 d r m = Ok m"
| "read_nodes (Suc k) d r m =
     (case readUint64 d r of Die \<Rightarrow> Die
      | Ok (n, r1) \<Rightarrow>
          (case readUint64 d r1 of Die \<Rightarrow> Die
           | Ok (c, r2) \<Rightarrow>
               (case read_edges (unat c) n d r2 (snd (addNode n m)) of Die \<Rightarrow> Die
                | Ok (r3, m3) \<Rightarrow> read_nodes k d r3 m3)))"

text \<open>Only the version of the superblock is compared, not the flag \<open>checkpointed\<close>.\<close>

definition restoreCheckpoint :: "64 word \<Rightarrow> ckpt_manager \<times> device \<Rightarrow> store \<Rightarrow> store run" where
  "restoreCheckpoint generation C m = (case C of (cm, d) \<Rightarrow>
     let b = buf_data (cm_super cm) in
     if cs_version b \<noteq> generation then Ok m
     else (case new_reader (cm_min cm + 1) (cm_max cm) d of
             Die \<Rightarrow> Die | Ok r \<Rightarrow> read_nodes (unat (cs_nodeCount b)) d r m))"

section \<open>What is written is read\<close>

definition stored :: "device \<Rightarrow> nat \<Rightarrow> 64 word list \<Rightarrow> bool" where
  "stored d s ws \<longleftrightarrow> (\<forall>i<length ws. dv_blocks d (s + i div 512) ! (i mod 512) = ws ! i)"

text \<open>A writer that has written \<open>ws\<close> from block \<open>s\<close> on; \<open>q\<close> blocks are finished.\<close>

definition written :: "nat \<Rightarrow> nat \<Rightarrow> 64 word list \<Rightarrow> writer \<times> device \<Rightarrow> bool" where
  "written s fin ws W \<longleftrightarrow> (case W of (w, d) \<Rightarrow> \<exists>q.
     w_block w = s + q \<and> w_end w = fin \<and> s + q < fin \<and> buf_block (w_cur w) = s + q \<and> length (buf_data (w_cur w)) = 512 \<and>
     w_pos w \<le> 512 \<and> length ws = 512 * q + w_pos w \<and> (0 < q \<longrightarrow> 0 < w_pos w) \<and>
     (\<forall>i<length ws. (if i div 512 = q then buf_data (w_cur w) else dv_blocks d (s + i div 512)) ! (i mod 512) = ws ! i))"

end
