(* ===== verification/CkptInv.thy ===== *)
theory CkptInv
  imports Checkpoint
begin

text \<open>
  The stream of words of a checkpoint: what the writer has written is on the blocks, the reader
  reads it back word for word, and the nodes that are read back are those that were written,
  with the ends of their edges.
\<close>

lemma BLOCK_WORDS_simp [simp]: "BLOCK_WORDS = 512"
  by (simp add: BLOCK_WORDS_def)

section \<open>Writing\<close>

text \<open>What writing changes: blocks from the first one of the stream on.\<close>

definition writes_in :: "nat \<Rightarrow> nat \<Rightarrow> device \<Rightarrow> device \<Rightarrow> bool" where
  "writes_in a b d d' \<longleftrightarrow> dv_size d' = dv_size d \<and> dv_power d' = dv_power d \<and> (device_ok d \<longrightarrow> device_ok d') \<and>
     (\<forall>n. n < a \<or> b \<le> n \<longrightarrow> dv_blocks d' n = dv_blocks d n)"

lemma writes_in_refl [simp]: "writes_in a b d d"
  by (simp add: writes_in_def)

lemma writes_in_trans: "writes_in a b d d1 \<Longrightarrow> writes_in a b d1 d2 \<Longrightarrow> writes_in a b d d2"
  by (simp add: writes_in_def)

lemma writes_in_write:
  "dv_power d = None \<Longrightarrow> a \<le> buf_block x \<Longrightarrow> buf_block x < b \<Longrightarrow> length (buf_data x) = 512 \<Longrightarrow> writes_in a b d (bm_write x d)"
  using bm_write_ok [of d x] by (auto simp: writes_in_def)

lemma write_step:
  assumes w: "written s fin ws (w, d)" and d: "dv_power d = None" "fin \<le> dv_size d"
    and room: "s + length ws div 512 < fin"
  shows "\<exists>w' d'. writeUint64 x (w, d) = Ok (True, w', d') \<and> written s fin (ws @ [x]) (w', d') \<and> writes_in s fin d d'"
proof -
  obtain q where q: "w_block w = s + q" "w_end w = fin" "s + q < fin" "buf_block (w_cur w) = s + q" "length (buf_data (w_cur w)) = 512"
      "w_pos w \<le> 512" "length ws = 512 * q + w_pos w" "0 < q \<longrightarrow> 0 < w_pos w"
    and c: "\<And>i. i < length ws \<Longrightarrow> (if i div 512 = q then buf_data (w_cur w) else dv_blocks d (s + i div 512)) ! (i mod 512) = ws ! i"
    using w by (auto simp: written_def)
  show ?thesis
  proof (cases "w_pos w < 512")
    case True
    have "length ws div 512 = q" "length ws mod 512 = w_pos w" using True q(7) by auto
    moreover have "(buf_data (w_cur w))[w_pos w := x] ! (i mod 512) = ws ! i" if "i < length ws" and "i div 512 = q" for i
    proof -
      have "512 * q + i mod 512 = i" using mult_div_mod_eq [of 512 i] that(2) by simp
      then have "i mod 512 \<noteq> w_pos w" using that(1) q(7) by auto
      then show ?thesis using c [OF that(1)] that(2) by simp
    qed
    moreover have "dv_blocks d (s + i div 512) ! (i mod 512) = ws ! i" if "i < length ws" and "i div 512 \<noteq> q" for i
      using c [OF that(1)] that(2) by simp
    ultimately have "written s fin (ws @ [x]) (put_word x w, d)"
      unfolding written_def put_word_def using q True
      by (auto intro!: exI [of _ q] simp: nth_append less_Suc_eq)
    then show ?thesis using True q by (auto simp: writeUint64_def)
  next
    case False
    then have p: "w_pos w = 512" using q(6) by simp
    have l: "length ws = 512 * Suc q" using p q(7) by simp
    have r: "s + Suc q < fin" using room unfolding l by simp
    let ?b = "\<lparr>buf_data = replicate 512 (0 :: 64 word), buf_block = s + Suc q\<rparr>"
    let ?w = "put_word x (w\<lparr>w_block := s + Suc q, w_cur := ?b, w_pos := 0\<rparr>)"
    have run: "writeUint64 x (w, d) = Ok (True, ?w, bm_write (w_cur w) d)"
      using q(1-3) p r d by (simp add: writeUint64_def w_next_def bm_get_def)
    have le: "i div 512 \<le> q" if "i < length ws" for i using that l by (metis less_Suc_eq_le less_mult_imp_div_less mult.commute)
    have old: "dv_blocks (bm_write (w_cur w) d) (s + i div 512) ! (i mod 512) = ws ! i \<and> i div 512 \<noteq> Suc q" if "i < length ws" for i
      using c [OF that] le [OF that] d(1) q(4) by (cases "i div 512 = q") auto
    have "(512 * Suc q) div 512 = Suc q" "(512 * Suc q) mod 512 = 0" by simp_all
    then have "written s fin (ws @ [x]) (?w, bm_write (w_cur w) d)"
      unfolding written_def put_word_def using q(2) r l old
      by (auto intro!: exI [of _ "Suc q"] simp: nth_append less_Suc_eq simp del: mult_Suc_right)
    moreover have "writes_in s fin d (bm_write (w_cur w) d)" using q(3,4,5) d(1) by (intro writes_in_write) auto
    ultimately show ?thesis using run by blast
  qed
qed

text \<open>The words fit when the block of the last one is before the end.\<close>

lemma write_words_ok:
  assumes "written s fin ws (w, d)" and "dv_power d = None" and "fin \<le> dv_size d"
    and "xs \<noteq> [] \<Longrightarrow> s + (length ws + length xs - 1) div 512 < fin"
  shows "\<exists>w' d'. write_words xs (w, d) = Ok (True, w', d') \<and> written s fin (ws @ xs) (w', d') \<and> writes_in s fin d d'"
  using assms
proof (induction xs arbitrary: ws w d)
  case Nil
  then show ?case by auto
next
  case (Cons x xs)
  have m: "length ws div 512 \<le> (length ws + length (x # xs) - 1) div 512" by (rule div_le_mono) simp
  then have "s + length ws div 512 < fin" using Cons.prems(4) by (meson add_mono_thms_linordered_semiring(2) le_less_trans list.discI)
  then obtain w1 d1 where 1: "writeUint64 x (w, d) = Ok (True, w1, d1)" "written s fin (ws @ [x]) (w1, d1)" "writes_in s fin d d1"
    using write_step [OF Cons.prems(1-3)] by blast
  have "\<exists>w' d'. write_words xs (w1, d1) = Ok (True, w', d') \<and> written s fin ((ws @ [x]) @ xs) (w', d') \<and> writes_in s fin d1 d'"
    by (rule Cons.IH [OF 1(2)]) (use Cons.prems(2-4) 1(3) in \<open>auto simp: writes_in_def\<close>)
  then show ?case using 1 by (auto intro: writes_in_trans)
qed

lemma flush_stored:
  assumes "written s fin ws (w, d)" and "dv_power d = None"
  shows "stored (bm_write (w_cur w) d) s ws" "writes_in s fin d (bm_write (w_cur w) d)"
proof -
  obtain q where q: "s + q < fin" "buf_block (w_cur w) = s + q" "length (buf_data (w_cur w)) = 512"
    and c: "\<And>i. i < length ws \<Longrightarrow> (if i div 512 = q then buf_data (w_cur w) else dv_blocks d (s + i div 512)) ! (i mod 512) = ws ! i"
    using assms(1) by (auto simp: written_def)
  show "stored (bm_write (w_cur w) d) s ws"
    unfolding stored_def using c assms(2) q(2) by (auto split: if_splits)
  show "writes_in s fin d (bm_write (w_cur w) d)" using q assms(2) by (intro writes_in_write) auto
qed

lemma new_writer_ok:
  assumes "dv_power d = None" and "device_ok d" and "s < fin" and "fin \<le> dv_size d"
  shows "\<exists>w. new_writer s fin d = Ok (w, bm_write \<lparr>buf_data = dv_blocks d s, buf_block = s\<rparr> d) \<and>
    written s fin [] (w, bm_write \<lparr>buf_data = dv_blocks d s, buf_block = s\<rparr> d)"
  using assms by (auto simp: new_writer_def w_next_def bm_get_def written_def)

section \<open>Reading\<close>

definition at_word :: "nat \<Rightarrow> nat \<Rightarrow> device \<Rightarrow> nat \<Rightarrow> word_reader" where
  "at_word s fin d t = (let q = (t - 1) div 512 in
     \<lparr>r_block = s + q, r_end = fin, r_cur = \<lparr>buf_data = dv_blocks d (s + q), buf_block = s + q\<rparr>, r_pos = t - 512 * q\<rparr>)"

lemma new_reader_at: "s < dv_size d \<Longrightarrow> new_reader s fin d = Ok (at_word s fin d 0)"
  by (simp add: new_reader_def r_next_def bm_get_def at_word_def)

lemma read_step:
  assumes "stored d s ws" and "t < length ws" and "s + (length ws - 1) div 512 < fin" and "fin \<le> dv_size d"
  shows "readUint64 d (at_word s fin d t) = Ok (ws ! t, at_word s fin d (Suc t))"
proof -
  have w: "dv_blocks d (s + t div 512) ! (t mod 512) = ws ! t" using assms(1,2) by (simp add: stored_def)
  have "t div 512 \<le> (length ws - 1) div 512" by (rule div_le_mono) (use assms(2) in simp)
  then have b: "s + t div 512 < fin" "s + t div 512 < dv_size d" using assms(3,4) by linarith+
  show ?thesis
  proof (cases t)
    case 0
    then show ?thesis using w b by (simp add: readUint64_def at_word_def pick_word_def)
  next
    case (Suc u)
    define q p where "q = u div 512" and "p = u mod 512"
    have u: "u = 512 * q + p" "p < 512" by (simp_all add: q_def p_def)
    show ?thesis
    proof (cases "Suc p < 512")
      case True
      have t: "t = 512 * q + Suc p" using Suc u(1) by simp
      have "t div 512 = q" "t mod 512 = Suc p" "t - 512 * q = Suc p" unfolding t using True by simp_all
      moreover have "(t - 1) div 512 = q" by (simp add: Suc q_def)
      ultimately show ?thesis using w b True by (simp add: readUint64_def at_word_def pick_word_def)
    next
      case False
      then have "p = 511" using u(2) by simp
      then have t: "t = 512 * Suc q" using Suc u(1) by simp
      have "t div 512 = Suc q" "t mod 512 = 0" "t - 512 * q = 512" "t - 512 * Suc q = 0" unfolding t by simp_all
      moreover have "(t - 1) div 512 = q" by (simp add: Suc q_def)
      ultimately show ?thesis using w b by (simp add: readUint64_def at_word_def pick_word_def r_next_def bm_get_def)
    qed
  qed
qed

section \<open>The nodes\<close>

definition restore_node :: "node_id \<times> node_id list \<Rightarrow> store \<Rightarrow> store" where
  "restore_node x m = fold (restore_edge (fst x)) (snd x) (snd (addNode (fst x) m))"

lemma read_edges_at:
  assumes "stored d s ws" and "s + (length ws - 1) div 512 < fin" and "fin \<le> dv_size d"
    and "t + length es \<le> length ws" and "\<And>i. i < length es \<Longrightarrow> ws ! (t + i) = es ! i"
  shows "read_edges (length es) n d (at_word s fin d t) m = Ok (at_word s fin d (t + length es), fold (restore_edge n) es m)"
  using assms(4,5)
proof (induction es arbitrary: t m)
  case (Cons e es)
  have e: "ws ! t = e" using Cons.prems(2) [of 0] by simp
  have "read_edges (length es) n d (at_word s fin d (Suc t)) m' =
      Ok (at_word s fin d (Suc t + length es), fold (restore_edge n) es m')" for m'
  proof (rule Cons.IH)
    show "Suc t + length es \<le> length ws" using Cons.prems(1) by simp
    show "ws ! (Suc t + i) = es ! i" if "i < length es" for i using Cons.prems(2) [of "Suc i"] that by simp
  qed
  then show ?case using read_step [OF assms(1) _ assms(2,3), of t] Cons.prems(1) e by simp
qed simp

lemma node_words_simps [simp]:
  "node_words [] = []" "node_words ((n, es) # ns) = n # of_nat (length es) # es @ node_words ns"
  by (simp_all add: node_words_def)

lemma read_nodes_at:
  assumes "stored d s ws" and "s + (length ws - 1) div 512 < fin" and "fin \<le> dv_size d" and "length ws < 2 ^ 64"
    and "ws = pre @ node_words ns"
  shows "read_nodes (length ns) d (at_word s fin d (length pre)) m = Ok (fold restore_node ns m)"
  using assms(5)
proof (induction ns arbitrary: pre m)
  case (Cons x ns)
  obtain n es where x: "x = (n, es)" by (cases x)
  let ?t = "length pre"
  have ws: "ws = pre @ n # of_nat (length es) # es @ node_words ns" using Cons.prems by (simp add: x)
  have 1: "readUint64 d (at_word s fin d ?t) = Ok (n, at_word s fin d (Suc ?t))"
    using read_step [OF assms(1) _ assms(2,3), of ?t] by (simp add: ws)
  have 2: "readUint64 d (at_word s fin d (Suc ?t)) = Ok (of_nat (length es), at_word s fin d (Suc (Suc ?t)))"
    using read_step [OF assms(1) _ assms(2,3), of "Suc ?t"] by (simp add: ws nth_append)
  have c: "unat (of_nat (length es) :: 64 word) = length es"
    using assms(4) by (simp add: ws unat_of_nat take_bit_nat_eq_self)
  have 3: "read_edges (length es) n d (at_word s fin d (Suc (Suc ?t))) m' =
      Ok (at_word s fin d (Suc (Suc ?t) + length es), fold (restore_edge n) es m')" for m'
    by (rule read_edges_at [OF assms(1-3)]) (auto simp: ws nth_append)
  have "read_nodes (length ns) d (at_word s fin d (length (pre @ n # of_nat (length es) # es))) m' = Ok (fold restore_node ns m')" for m'
    by (rule Cons.IH) (simp add: ws)
  moreover have "fold restore_node (x # ns) m = fold restore_node ns (fold (restore_edge n) es (snd (addNode n m)))"
    by (simp add: x restore_node_def [of "(n, es)"])
  ultimately show ?case using 1 2 3 c by (simp add: x add.commute add.left_commute)
qed simp

text \<open>What restoring gives: the nodes with their edges, and nodes for the ends of edges.\<close>

lemma restore_edges:
  assumes "m n = Some E"
  shows "fold (restore_edge n) es m =
    (\<lambda>k. if k = n then Some (E \<union> set es) else if k \<in> set es \<and> m k = None then Some {} else m k)"
  using assms
proof (induction es arbitrary: m E)
  case (Cons e es)
  define m1 where "m1 = restore_edge n e m"
  have m1: "m1 = (\<lambda>k. if k = n then Some (insert e E) else if k = e \<and> m k = None then Some {} else m k)"
    using Cons.prems by (auto simp: m1_def restore_edge_def addNode_def node_addEdge_def fun_eq_iff)
  have "m1 n = Some (insert e E)" by (simp add: m1)
  from Cons.IH [where m = m1, OF this] show ?case by (auto simp: fun_eq_iff m1 simp flip: m1_def)
qed auto

definition restored_from :: "(node_id \<times> node_id list) list \<Rightarrow> store \<Rightarrow> store" where
  "restored_from ns m = (\<lambda>k. case map_of ns k of Some es \<Rightarrow> Some (set es \<union> (case m k of Some E \<Rightarrow> E | None \<Rightarrow> {}))
     | None \<Rightarrow> if m k = None \<and> (\<exists>x\<in>set ns. k \<in> set (snd x)) then Some {} else m k)"

lemma restore_node_eq:
  "restore_node (n, es) m = (\<lambda>k. if k = n then Some (set es \<union> (case m k of Some E \<Rightarrow> E | None \<Rightarrow> {}))
     else if k \<in> set es \<and> m k = None then Some {} else m k)"
proof -
  obtain E where E: "snd (addNode n m) n = Some E" "E = (case m n of Some E \<Rightarrow> E | None \<Rightarrow> {})"
    by (cases "m n") (auto simp: addNode_def)
  show ?thesis unfolding restore_node_def using restore_edges [where m = "snd (addNode n m)" and n = n, OF E(1), of es] E(2)
    by (auto simp: fun_eq_iff addNode_def)
qed

lemma restore_nodes:
  "distinct (map fst ns) \<Longrightarrow> fold restore_node ns m = restored_from ns m"
proof (induction ns arbitrary: m)
  case (Cons x ns)
  obtain n es where x: "x = (n, es)" by (cases x)
  have n: "map_of ns n = None" using Cons.prems by (simp add: x map_of_eq_None_iff)
  show ?case using Cons n by (auto simp: x restored_from_def restore_node_eq fun_eq_iff split: option.splits)
qed (simp add: restored_from_def)

section \<open>Checkpoints\<close>

definition ckpt_loaded :: "ckpt_manager \<Rightarrow> device \<Rightarrow> bool" where
  "ckpt_loaded cm d \<longleftrightarrow> cm_super cm = \<lparr>buf_data = dv_blocks d (cm_min cm), buf_block = cm_min cm\<rparr> \<and>
     cm_min cm + 1 < cm_max cm \<and> cm_max cm \<le> dv_size d"

definition fits :: "nat \<Rightarrow> nat \<Rightarrow> 64 word list \<Rightarrow> bool" where
  "fits s fin ws \<longleftrightarrow> s + (length ws - 1) div 512 < fin"

lemma perform_ok:
  assumes d: "device_ok d" "dv_power d = None" "dv_size d < 2 ^ 32" and cm: "ckpt_loaded cm d"
    and ns: "ns = node_list no ho m" "fits (cm_min cm + 1) (cm_max cm) (node_words ns)"
  shows "\<exists>cm' d'. performCheckpoint no ho g m (cm, d) = Ok (SUCCESS, cm', d') \<and> ckpt_loaded cm' d' \<and>
    cm_min cm' = cm_min cm \<and> cm_max cm' = cm_max cm \<and> writes_in (cm_min cm) (cm_max cm) d d' \<and>
    hasCheckpoint g cm' \<and> cs_nodeCount (buf_data (cm_super cm')) = of_nat (length ns) \<and> stored d' (cm_min cm + 1) (node_words ns)"
proof -
  let ?s = "cm_min cm + 1" and ?e = "cm_max cm" and ?ws = "node_words ns" and ?old = "dv_blocks d (cm_min cm)"
  have l: "cm_super cm = \<lparr>buf_data = ?old, buf_block = cm_min cm\<rparr>" "?s < ?e" "?e \<le> dv_size d" "length ?old = 512"
    using cm d(1) by (auto simp: ckpt_loaded_def device_ok_def)
  define b1 where "b1 = (set_checkpointed False (?old[1 := g]))[2 := of_nat (length ns)]"
  define b2 where "b2 = set_checkpointed True b1"
  have b: "length b1 = 512" "length b2 = 512" "b2 ! 1 = g" "b2 ! 2 = of_nat (length ns)"
    using l(4) by (simp_all add: b1_def b2_def set_checkpointed_def)
  have "(x AND NOT 255 OR 1) AND 255 \<noteq> (0 :: 64 word)" for x
  proof
    assume a: "(x AND NOT 255 OR 1) AND 255 = (0 :: 64 word)"
    have "bit ((x AND NOT 255 OR 1) AND 255 :: 64 word) 0" by (simp add: bit_simps)
    then show False unfolding a by simp
  qed
  then have flag: "cs_checkpointed b2" using b(1) by (simp add: cs_checkpointed_def b2_def set_checkpointed_def)
  let ?sb1 = "\<lparr>buf_data = b1, buf_block = cm_min cm\<rparr>" and ?sb2 = "\<lparr>buf_data = b2, buf_block = cm_min cm\<rparr>"
  let ?d1 = "bm_write ?sb1 d"
  have d1: "device_ok ?d1" "dv_power ?d1 = None" "writes_in (cm_min cm) ?e d ?d1"
    using d b(1) l(2) by (auto intro!: bm_write_ok writes_in_write)
  let ?d2 = "bm_write \<lparr>buf_data = dv_blocks ?d1 ?s, buf_block = ?s\<rparr> ?d1"
  obtain w where w: "new_writer ?s ?e ?d1 = Ok (w, ?d2)" "written ?s ?e [] (w, ?d2)"
    using new_writer_ok [OF d1(2,1) l(2)] l(3) by auto
  have len: "length (dv_blocks ?d1 ?s) = 512" using d1(1) by (simp add: device_ok_def)
  have d2: "writes_in (cm_min cm) ?e ?d1 ?d2" "dv_power ?d2 = None"
    using d1(2) l(2) len by (auto intro!: writes_in_write simp del: bm_write_blocks)
  obtain w3 d3 where 3: "write_words ?ws (w, ?d2) = Ok (True, w3, d3)" "written ?s ?e ?ws (w3, d3)" "writes_in ?s ?e ?d2 d3"
    using write_words_ok [OF w(2) d2(2), of ?ws] l(3) ns(2) by (auto simp: fits_def)
  have p3: "dv_power d3 = None" using 3(3) d2(2) by (simp add: writes_in_def)
  let ?d4 = "bm_write (w_cur w3) d3"
  note f = flush_stored [OF 3(2) p3]
  let ?d5 = "bm_write ?sb2 ?d4"
  have run: "performCheckpoint no ho g m (cm, d) = Ok (SUCCESS, cm\<lparr>cm_super := ?sb2\<rparr>, ?d5)"
    using w(1) 3(1) by (simp add: performCheckpoint_def l(1) Let_def b1_def b2_def flip: ns(1))
  have up: "writes_in (cm_min cm) ?e a b" if "writes_in ?s ?e a b" for a b using that by (simp add: writes_in_def)
  have p4: "dv_power ?d4 = None" using p3 by simp
  have "writes_in (cm_min cm) ?e ?d4 ?d5" using p4 b(2) l(2) by (intro writes_in_write) auto
  then have wi: "writes_in (cm_min cm) ?e d ?d5"
    by (meson writes_in_trans d1(3) d2(1) up [OF 3(3)] up [OF f(2)])
  moreover have "stored ?d5 ?s ?ws" using f(1) p4 by (simp add: stored_def)
  moreover have "ckpt_loaded (cm\<lparr>cm_super := ?sb2\<rparr>) ?d5" using l wi p4 by (simp add: ckpt_loaded_def writes_in_def)
  ultimately show ?thesis using run flag b(3,4) by (auto simp: hasCheckpoint_def cs_version_def cs_nodeCount_def)
qed

lemma restore_ok:
  assumes "ckpt_loaded cm d" and "dv_size d < 2 ^ 32" and "cs_version (buf_data (cm_super cm)) = g"
    and "cs_nodeCount (buf_data (cm_super cm)) = of_nat (length ns)" and "stored d (cm_min cm + 1) (node_words ns)"
    and "fits (cm_min cm + 1) (cm_max cm) (node_words ns)" and "distinct (map fst ns)"
  shows "restoreCheckpoint g (cm, d) m = Ok (restored_from ns m)"
proof -
  have l: "cm_min cm + 1 < cm_max cm" "cm_max cm \<le> dv_size d" using assms(1) by (auto simp: ckpt_loaded_def)
  have "(length (node_words ns) - 1) div 512 < 2 ^ 32" using assms(2,6) l(2) by (simp add: fits_def)
  then have small: "length (node_words ns) < 2 ^ 64" by (simp add: div_less_iff_less_mult)
  have "length xs \<le> length (node_words xs)" for xs by (induction xs) (auto simp: node_words_def)
  from le_less_trans [OF this small] have c: "unat (of_nat (length ns) :: 64 word) = length ns"
    by (simp add: unat_of_nat take_bit_nat_eq_self)
  have r: "read_nodes (length ns) d (at_word (cm_min cm + 1) (cm_max cm) d 0) m = Ok (restored_from ns m)"
    using read_nodes_at [OF assms(5) _ l(2) small, of "[]" ns m] assms(6) by (simp add: fits_def restore_nodes [OF assms(7)])
  have "cm_min cm + 1 < dv_size d" using l by simp
  note n = new_reader_at [OF this, of "cm_max cm"]
  show ?thesis unfolding restoreCheckpoint_def prod.case Let_def assms(3,4) c n run.case r by simp
qed

text \<open>Restoring looks at the blocks from the superblock on only.\<close>

lemma restore_cong:
  assumes "dv_size d' = dv_size d" and "\<And>n. a \<le> n \<Longrightarrow> dv_blocks d' n = dv_blocks d n" and "a \<le> cm_min cm"
  shows "restoreCheckpoint g (cm, d') m = restoreCheckpoint g (cm, d) m"
proof -
  have get: "bm_get d' n z = bm_get d n z" if "a \<le> n" for n z using assms(1,2) that by (simp add: bm_get_def)
  have word: "readUint64 d' r = readUint64 d r" if "a \<le> r_block r" for r
    using that get by (simp add: readUint64_def r_next_def)
  have mono: "a \<le> r_block r'" if "readUint64 d r = Ok (x, r')" "a \<le> r_block r" for r x r'
    using that by (auto simp: readUint64_def r_next_def pick_word_def split: if_splits run.splits sum.splits)
  have edges: "read_edges k n d' r m = read_edges k n d r m" if "a \<le> r_block r" for k n r m
    using that by (induction k arbitrary: r m) (auto simp: word split: run.split dest: mono)
  have after: "a \<le> r_block r'" if "read_edges k n d r m = Ok (r', m')" "a \<le> r_block r" for k n r m r' m'
    using that by (induction k arbitrary: r m) (auto split: run.splits dest: mono)
  have nodes: "read_nodes k d' r m = read_nodes k d r m" if "a \<le> r_block r" for k r m
    using that
  proof (induction k arbitrary: r m)
    case (Suc k)
    show ?case
    proof (cases "readUint64 d r")
      case 1: (Ok p)
      then have b1: "a \<le> r_block (snd p)" using mono [of r "fst p" "snd p"] Suc.prems by simp
      show ?thesis
      proof (cases "readUint64 d (snd p)")
        case 2: (Ok q)
        then have b2: "a \<le> r_block (snd q)" using mono [of "snd p" "fst q" "snd q"] b1 by simp
        show ?thesis
          by (cases "read_edges (unat (fst q)) (fst p) d (snd q) (snd (addNode (fst p) m))")
            (use 1 2 in \<open>auto simp: word [OF Suc.prems] word [OF b1] edges [OF b2] case_prod_beta intro!: Suc.IH dest: after [OF _ b2]\<close>)
      qed (use 1 in \<open>simp add: word [OF Suc.prems] word [OF b1] case_prod_beta\<close>)
    qed (simp add: word [OF Suc.prems])
  qed simp
  show ?thesis using get [of "cm_min cm + 1"] assms(3)
    by (auto simp: restoreCheckpoint_def new_reader_def r_next_def Let_def nodes split: sum.split)
qed

end
