(* ===== verification/LoggedStore.thy ===== *)
theory LoggedStore
  imports LogInv CkptInv
begin

text \<open>
  The durable store of \<open>src/db/logged_store.cc\<close>: every change is logged before it is made in memory, a
  checkpoint writes the store and starts a new generation of the log, and opening restores the
  checkpoint and replays the log. The mutex is left out: each operation is one step. The log has the
  first fifth of the device, the checkpoint the rest.
\<close>

section \<open>State and operations\<close>

record logged =
  ls_dev :: device
  ls_log :: log_manager
  ls_ckpt :: ckpt_manager
  ls_store :: store

definition log_range :: "device \<Rightarrow> nat \<times> nat" where "log_range d = (0, dv_size d div 5)"
definition ckpt_range :: "device \<Rightarrow> nat \<times> nat" where "ckpt_range d = (dv_size d div 5, dv_size d)"

definition logged_op :: "entry \<Rightarrow> (store \<Rightarrow> (code \<times> store) run) \<Rightarrow> logged \<Rightarrow> (code \<times> logged) run" where
  "logged_op e f S =
     (case logOperation e (ls_log S, ls_dev S) of (c, lm, d) \<Rightarrow>
        let S1 = S\<lparr>ls_log := lm, ls_dev := d\<rparr> in
        if c \<noteq> SUCCESS then Ok (c, S1)
        else (case f (ls_store S1) of Die \<Rightarrow> Die | Ok (c1, m) \<Rightarrow> Ok (c1, S1\<lparr>ls_store := m\<rparr>)))"

definition ls_addNode :: "node_id \<Rightarrow> logged \<Rightarrow> (code \<times> logged) run" where
  "ls_addNode n = logged_op \<lparr>en_opcode = ADD_NODE, en_idA = n, en_idB = 0\<rparr> (\<lambda>m. Ok (addNode n m))"

definition ls_removeNode :: "node_id \<Rightarrow> logged \<Rightarrow> (code \<times> logged) run" where
  "ls_removeNode n = logged_op \<lparr>en_opcode = REMOVE_NODE, en_idA = n, en_idB = 0\<rparr> (removeNode n)"

definition ls_addEdge :: "node_id \<Rightarrow> node_id \<Rightarrow> logged \<Rightarrow> (code \<times> logged) run" where
  "ls_addEdge a b = logged_op \<lparr>en_opcode = ADD_EDGE, en_idA = a, en_idB = b\<rparr> (addEdge a b)"

definition ls_removeEdge :: "node_id \<Rightarrow> node_id \<Rightarrow> logged \<Rightarrow> (code \<times> logged) run" where
  "ls_removeEdge a b = logged_op \<lparr>en_opcode = REMOVE_EDGE, en_idA = a, en_idB = b\<rparr> (removeEdge a b)"

definition ls_addEdgePart :: "node_id \<Rightarrow> node_id \<Rightarrow> logged \<Rightarrow> (code \<times> logged) run" where
  "ls_addEdgePart l r = logged_op \<lparr>en_opcode = ADD_EDGE_PART, en_idA = l, en_idB = r\<rparr> (\<lambda>m. Ok (addEdgePart l r m))"

definition ls_removeEdgePart :: "node_id \<Rightarrow> node_id \<Rightarrow> logged \<Rightarrow> (code \<times> logged) run" where
  "ls_removeEdgePart l r = logged_op \<lparr>en_opcode = REMOVE_EDGE_PART, en_idA = l, en_idB = r\<rparr> (\<lambda>m. Ok (removeEdgePart l r m))"

text \<open>The other operations ask the store in memory.\<close>

definition ls_findNode :: "node_id \<Rightarrow> logged \<Rightarrow> edges status_with" where
  "ls_findNode n S = findNode n (ls_store S)"

definition ls_getEdge :: "node_id \<Rightarrow> node_id \<Rightarrow> logged \<Rightarrow> ((edges \<times> edges) status_with) run" where
  "ls_getEdge a b S = getEdge a b (ls_store S)"

definition ls_getEdgePart :: "node_id \<Rightarrow> node_id \<Rightarrow> logged \<Rightarrow> code" where
  "ls_getEdgePart l r S = getEdgePart l r (ls_store S)"

definition ls_getNeighbors :: "(edges \<Rightarrow> node_id list) \<Rightarrow> node_id \<Rightarrow> logged \<Rightarrow> (node_id list) status_with" where
  "ls_getNeighbors ho n S = getNeighbors ho n (ls_store S)"

text \<open>When there is no space for the checkpoint, the generation stays.\<close>

definition checkpoint ::
  "(node_id set \<Rightarrow> node_id list) \<Rightarrow> (edges \<Rightarrow> node_id list) \<Rightarrow> logged \<Rightarrow> (code \<times> logged) run" where
  "checkpoint no ho S =
     (case performCheckpoint no ho (getGeneration (ls_log S)) (ls_store S) (ls_ckpt S, ls_dev S) of
        Die \<Rightarrow> Die
      | Ok (c, cm, d) \<Rightarrow>
          if c \<noteq> SUCCESS then Ok (c, S\<lparr>ls_ckpt := cm, ls_dev := d\<rparr>)
          else (case increaseGeneration (ls_log S, d) of
                  Die \<Rightarrow> Die
                | Ok (lm, d1) \<Rightarrow> Ok (SUCCESS, S\<lparr>ls_ckpt := cm, ls_log := lm, ls_dev := d1\<rparr>)))"

section \<open>Recovery\<close>

definition after_op :: "(code \<times> store) run \<Rightarrow> store run" where
  "after_op r = (case r of Die \<Rightarrow> Die | Ok (_, m) \<Rightarrow> Ok m)"

text \<open>There is no \<open>break\<close> after the removal of an edge.\<close>

definition recover_entry :: "entry \<Rightarrow> store \<Rightarrow> store run" where
  "recover_entry e m =
     (case en_opcode e of
        ADD_NODE \<Rightarrow> Ok (snd (addNode (en_idA e) m))
      | REMOVE_NODE \<Rightarrow> after_op (removeNode (en_idA e) m)
      | ADD_EDGE \<Rightarrow> after_op (addEdge (en_idA e) (en_idB e) m)
      | REMOVE_EDGE \<Rightarrow> (case removeEdge (en_idA e) (en_idB e) m of
            Die \<Rightarrow> Die | Ok (_, m1) \<Rightarrow> Ok (snd (addEdgePart (en_idA e) (en_idB e) m1)))
      | ADD_EDGE_PART \<Rightarrow> Ok (snd (addEdgePart (en_idA e) (en_idB e) m))
      | REMOVE_EDGE_PART \<Rightarrow> Ok (snd (removeEdgePart (en_idA e) (en_idB e) m))
      | OtherOp _ \<Rightarrow> Ok m)"

definition recover :: "logged \<Rightarrow> logged run" where
  "recover S =
     (case restoreCheckpoint (getGeneration (ls_log S) - 1) (ls_ckpt S, ls_dev S) (ls_store S) of
        Die \<Rightarrow> Die
      | Ok m \<Rightarrow>
          (case readLog (ls_log S, ls_dev S) of
             Die \<Rightarrow> Die
           | Ok r \<Rightarrow>
               (case replay recover_entry (ls_dev S) r m of
                  Die \<Rightarrow> Die | Ok m1 \<Rightarrow> Ok (S\<lparr>ls_store := m1\<rparr>))))"

definition open_store :: "bool \<Rightarrow> device \<Rightarrow> logged run" where
  "open_store formatLog d =
     (case new_log (log_range d) d of Die \<Rightarrow> Die | Ok lr \<Rightarrow>
     (case new_checkpoint (ckpt_range d) of Die \<Rightarrow> Die | Ok cr \<Rightarrow>
        if formatLog
        then (case log_format lr d of Die \<Rightarrow> Die | Ok (lm, d1) \<Rightarrow>
              (case ckpt_format cr d1 of Die \<Rightarrow> Die | Ok (cm, d2) \<Rightarrow>
                 Ok \<lparr>ls_dev = d2, ls_log = lm, ls_ckpt = cm, ls_store = Map.empty\<rparr>))
        else (case log_init lr d of Die \<Rightarrow> Die | Ok (lm, d1) \<Rightarrow>
              (case ckpt_init cr d1 of Die \<Rightarrow> Die | Ok cm \<Rightarrow>
                 recover \<lparr>ls_dev = d1, ls_log = lm, ls_ckpt = cm, ls_store = Map.empty\<rparr>))))"

section \<open>What is durable\<close>

text \<open>
  The log holds what leads from the state the checkpoint restores to the one in memory, and has
  not left its fifth of the device.
\<close>

definition log_holds :: "logged \<Rightarrow> entry list list \<Rightarrow> bool" where
  "log_holds S bs \<longleftrightarrow> log_ok (ls_log S, ls_dev S) bs \<and> lm_min (ls_log S) = 0 \<and> length bs < dv_size (ls_dev S) div 5 \<and>
     ckpt_loaded (ls_ckpt S) (ls_dev S) \<and> cm_min (ls_ckpt S) = dv_size (ls_dev S) div 5 \<and> cm_max (ls_ckpt S) = dv_size (ls_dev S)"

definition restores :: "logged \<Rightarrow> store \<Rightarrow> bool" where
  "restores S base \<longleftrightarrow> restoreCheckpoint (getGeneration (ls_log S) - 1) (ls_ckpt S, ls_dev S) Map.empty = Ok base"

definition durable_with :: "logged \<Rightarrow> entry list list \<Rightarrow> store \<Rightarrow> bool" where
  "durable_with S bs base \<longleftrightarrow> log_holds S bs \<and> restores S base \<and> run_steps recover_entry (concat bs) base = Ok (ls_store S)"

definition durable :: "logged \<Rightarrow> bool" where
  "durable S \<longleftrightarrow> (\<exists>bs base. log_holds S bs \<and> restores S base \<and> run_steps recover_entry (concat bs) base = Ok (ls_store S))"

lemma durable_iff: "durable S \<longleftrightarrow> (\<exists>bs base. durable_with S bs base)"
  by (simp add: durable_def durable_with_def)

definition log_room :: "logged \<Rightarrow> bool" where
  "log_room S \<longleftrightarrow> unat (sb_size (buf_data (lm_super (ls_log S)))) + 1 < dv_size (ls_dev S) div 5"

lemma log_room_iff: "log_holds S bs \<Longrightarrow> log_room S \<longleftrightarrow> length bs + 1 < dv_size (ls_dev S) div 5"
  using log_okD(4) [of "ls_log S" "ls_dev S" bs] log_numbers(2) [OF log_okD(3), of "ls_log S" "ls_dev S" bs]
  by (auto simp: log_holds_def log_room_def)

end
