(* ===== verification/Cluster.thy ===== *)
theory Cluster
  imports ShortestPath LoggedStore
begin

text \<open>
  Requests to a server of a cluster: \<open>src/net/http_controller.cc\<close>, the chain of replicas
  (\<open>src/db/replication_manager.cc\<close> and the handler of \<open>src/net/replication_server.cc\<close>) and the
  partitions (\<open>src/db/partition\<close> and the handler of \<open>src/net/partition_server.cc\<close>). A remote call
  reaches the handler of the other server and returns its answer; parsing requests and printing answers is
  left out, so a request is its ids, or nothing when they are missing or no numbers. A server of the chain
  that ends while it handles a request is taken for the end of the request.
\<close>

section \<open>Partitions\<close>

record part_config =
  pc_partitions :: "string list"
  pc_us :: nat

text \<open>\<open>nodeId % size\<close>, of unsigned numbers; there is no remainder when there are no partitions.\<close>

definition target :: "part_config \<Rightarrow> node_id \<Rightarrow> nat run" where
  "target c n = (if pc_partitions c = [] then Die else Ok (unat n mod length (pc_partitions c)))"

text \<open>\<open>PartitionManager::start\<close>: connections to all addresses but our own, as numbers of servers.\<close>

definition outbounds :: "part_config \<Rightarrow> nat list" where
  "outbounds c = filter (\<lambda>i. pc_partitions c ! i \<noteq> pc_partitions c ! pc_us c) [0..<length (pc_partitions c)]"

text \<open>An index out of range is undefined behaviour, taken for the end of the process.\<close>

definition getPartitionOutbound :: "part_config \<Rightarrow> nat \<Rightarrow> nat run" where
  "getPartitionOutbound c t =
     (if t = pc_us c then Die
      else let i = (if pc_us c < t then t - 1 else t) in
        if i < length (outbounds c) then Ok (outbounds c ! i) else Die)"

definition part_of_edge :: "part_config \<Rightarrow> node_id \<Rightarrow> node_id \<Rightarrow> ((node_id \<times> node_id) status_with) run" where
  "part_of_edge c a b =
     (case target c a of Die \<Rightarrow> Die
      | Ok ta \<Rightarrow>
          if ta = pc_us c then Ok (Inr (a, b))
          else (case target c b of Die \<Rightarrow> Die
                | Ok tb \<Rightarrow> if tb = pc_us c then Ok (Inr (b, a)) else Ok (Inl WRONG_PARTITION)))"

section \<open>The world of a server\<close>

text \<open>Its own store, those of the replicas down the chain, and those of the other partitions.\<close>

record world =
  wd_store :: store
  wd_chain :: "store list"
  wd_parts :: "nat \<Rightarrow> store"

datatype node_type = HEAD | MID | TAIL

record http =
  ht_repl :: "node_type option"
  ht_partman :: bool
  ht_config :: part_config

text \<open>\<open>PartitionManager::addEdge\<close> and \<open>removeEdge\<close>, with the remote handler.\<close>

definition remote_part ::
  "(node_id \<Rightarrow> node_id \<Rightarrow> store \<Rightarrow> code \<times> store) \<Rightarrow> part_config \<Rightarrow> node_id \<Rightarrow> node_id \<Rightarrow> world \<Rightarrow> (code \<times> world) run" where
  "remote_part f c local remote W =
     (case target c local of Die \<Rightarrow> Die
      | Ok tloc \<Rightarrow>
          if tloc \<noteq> pc_us c then Die
          else (case target c remote of Die \<Rightarrow> Die
                | Ok trem \<Rightarrow>
                    (case getPartitionOutbound c trem of Die \<Rightarrow> Die
                     | Ok k \<Rightarrow>
                         let (s, m) = f remote local (wd_parts W k) in
                         Ok (if s = SUCCESS then SUCCESS else PARTITION_FAIL, W\<lparr>wd_parts := (wd_parts W)(k := m)\<rparr>))))"

section \<open>Replication\<close>

text \<open>
  The handler of each replica commits and goes on to its successor; the flag is what the predecessor is told.
\<close>

fun replicate_down :: "(store \<Rightarrow> (code \<times> store) run) \<Rightarrow> store list \<Rightarrow> (bool \<times> store list) run" where
  "replicate_down op [] = Ok (True, [])"
| "replicate_down op (s # ss) =
     (case op s of
        Die \<Rightarrow> Die
      | Ok (c, s') \<Rightarrow>
          if c \<noteq> SUCCESS then Ok (False, s' # ss)
          else (case replicate_down op ss of Die \<Rightarrow> Die | Ok (b, ss') \<Rightarrow> Ok (b, s' # ss')))"

definition writesAllowed :: "node_type \<Rightarrow> bool" where
  "writesAllowed t \<longleftrightarrow> t = HEAD"

text \<open>
  \<open>replManager && (!writesAllowed() || !replicate...())\<close>: whether the request fails.
\<close>

definition not_replicated :: "http \<Rightarrow> (store \<Rightarrow> (code \<times> store) run) \<Rightarrow> world \<Rightarrow> (bool \<times> world) run" where
  "not_replicated h op W =
     (case ht_repl h of
        None \<Rightarrow> Ok (False, W)
      | Some t \<Rightarrow>
          if \<not> writesAllowed t then Ok (True, W)
          else (case replicate_down op (wd_chain W) of
                  Die \<Rightarrow> Die | Ok (b, ss) \<Rightarrow> Ok (\<not> b, W\<lparr>wd_chain := ss\<rparr>)))"

section \<open>Requests\<close>

datatype reply = Failed nat | NodeReply node_id | EdgeReply node_id node_id | InGraph bool
  | Neighbors node_id "node_id list" | Distance "64 word" | Checkpointed

definition foreign :: "http \<Rightarrow> node_id \<Rightarrow> bool run" where
  "foreign h n =
     (if ht_partman h then (case target (ht_config h) n of Die \<Rightarrow> Die | Ok t \<Rightarrow> Ok (t \<noteq> pc_us (ht_config h))) else Ok False)"

text \<open>Replicating and then committing, with the status that is no answer of its own.\<close>

definition commit ::
  "http \<Rightarrow> (store \<Rightarrow> (code \<times> store) run) \<Rightarrow> (code \<Rightarrow> nat) \<Rightarrow> reply \<Rightarrow> world \<Rightarrow> (reply \<times> world) run" where
  "commit h op failed ok W =
     (case not_replicated h op W of
        Die \<Rightarrow> Die
      | Ok (True, W1) \<Rightarrow> Ok (Failed 500, W1)
      | Ok (False, W1) \<Rightarrow>
          (case op (wd_store W1) of
             Die \<Rightarrow> Die
           | Ok (c, m) \<Rightarrow> Ok (if c = SUCCESS then ok else Failed (failed c), W1\<lparr>wd_store := m\<rparr>)))"

definition add_code :: "code \<Rightarrow> nat" where
  "add_code c = (if c = NO_ACTION then 204 else if c = NO_SPACE then 507 else 400)"

definition remove_code :: "code \<Rightarrow> nat" where
  "remove_code c = (if c = NO_SPACE then 507 else 400)"

definition add_node :: "http \<Rightarrow> node_id option \<Rightarrow> world \<Rightarrow> (reply \<times> world) run" where
  "add_node h n W =
     (case n of
        None \<Rightarrow> Ok (Failed 400, W)
      | Some n \<Rightarrow>
          (case foreign h n of
             Die \<Rightarrow> Die
           | Ok True \<Rightarrow> Ok (Failed 400, W)
           | Ok False \<Rightarrow> commit h (add_node_run n) add_code (NodeReply n) W))"

definition remove_node :: "http \<Rightarrow> node_id option \<Rightarrow> world \<Rightarrow> (reply \<times> world) run" where
  "remove_node h n W =
     (case n of
        None \<Rightarrow> Ok (Failed 400, W)
      | Some n \<Rightarrow>
          if wd_store W n = None then Ok (Failed 400, W)
          else if ht_partman h then Ok (Failed 400, W)
          else commit h (removeNode n) remove_code (NodeReply n) W)"

definition get_node :: "http \<Rightarrow> node_id option \<Rightarrow> world \<Rightarrow> reply run" where
  "get_node h n W =
     (case n of
        None \<Rightarrow> Ok (Failed 400)
      | Some n \<Rightarrow>
          (case foreign h n of
             Die \<Rightarrow> Die
           | Ok True \<Rightarrow> Ok (Failed 400)
           | Ok False \<Rightarrow> Ok (InGraph (status_code (findNode n (wd_store W)) = SUCCESS))))"

text \<open>\<open>isPartitionedEdgeOp\<close>; the second target is asked for when the first is ours.\<close>

definition partitioned :: "http \<Rightarrow> node_id \<Rightarrow> node_id \<Rightarrow> bool run" where
  "partitioned h a b = (case foreign h a of Die \<Rightarrow> Die | Ok True \<Rightarrow> Ok True | Ok False \<Rightarrow> foreign h b)"

definition add_edge_partition :: "http \<Rightarrow> node_id \<Rightarrow> node_id \<Rightarrow> world \<Rightarrow> (reply \<times> world) run" where
  "add_edge_partition h a b W =
     (case part_of_edge (ht_config h) a b of
        Die \<Rightarrow> Die
      | Ok (Inl _) \<Rightarrow> Ok (Failed 400, W)
      | Ok (Inr (l, r)) \<Rightarrow>
          if getEdgePart l r (wd_store W) = SUCCESS then Ok (Failed 204, W)
          else if a = b then Ok (Failed 400, W)
          else (case remote_part addEdgePart (ht_config h) l r W of
                  Die \<Rightarrow> Die
                | Ok (c, W1) \<Rightarrow>
                    if c \<noteq> SUCCESS then Ok (Failed 400, W1)
                    else let (c1, m) = addEdgePart l r (wd_store W1) in
                      if c1 = SUCCESS then Ok (EdgeReply a b, W1\<lparr>wd_store := m\<rparr>) else Die))"

definition remove_edge_partition :: "http \<Rightarrow> node_id \<Rightarrow> node_id \<Rightarrow> world \<Rightarrow> (reply \<times> world) run" where
  "remove_edge_partition h a b W =
     (case part_of_edge (ht_config h) a b of
        Die \<Rightarrow> Die
      | Ok (Inl _) \<Rightarrow> Ok (Failed 400, W)
      | Ok (Inr (l, r)) \<Rightarrow>
          if getEdgePart l r (wd_store W) \<noteq> SUCCESS then Ok (Failed 400, W)
          else if a = b then Ok (Failed 400, W)
          else (case remote_part removeEdgePart (ht_config h) l r W of
                  Die \<Rightarrow> Die
                | Ok (c, W1) \<Rightarrow>
                    if c \<noteq> SUCCESS then Ok (Failed 400, W1)
                    else let (c1, m) = removeEdgePart l r (wd_store W1) in
                      if c1 = SUCCESS then Ok (EdgeReply a b, W1\<lparr>wd_store := m\<rparr>) else Die))"

text \<open>Adding and removing an edge differ in what is done to a partitioned edge and in the statuses.\<close>

definition on_edge ::
  "http \<Rightarrow> (node_id \<Rightarrow> node_id \<Rightarrow> world \<Rightarrow> (reply \<times> world) run) \<Rightarrow> (node_id \<Rightarrow> node_id \<Rightarrow> store \<Rightarrow> (code \<times> store) run) \<Rightarrow>
     (code \<Rightarrow> nat) \<Rightarrow> (node_id \<times> node_id) option \<Rightarrow> world \<Rightarrow> (reply \<times> world) run" where
  "on_edge h parted op failed ids W =
     (case ids of
        None \<Rightarrow> Ok (Failed 400, W)
      | Some (a, b) \<Rightarrow>
          (case partitioned h a b of
             Die \<Rightarrow> Die
           | Ok True \<Rightarrow> parted a b W
           | Ok False \<Rightarrow>
               if wd_store W a = None \<or> wd_store W b = None then Ok (Failed 400, W)
               else commit h (op a b) failed (EdgeReply a b) W))"

definition add_edge :: "http \<Rightarrow> (node_id \<times> node_id) option \<Rightarrow> world \<Rightarrow> (reply \<times> world) run" where
  "add_edge h = on_edge h (add_edge_partition h) addEdge add_code"

definition remove_edge :: "http \<Rightarrow> (node_id \<times> node_id) option \<Rightarrow> world \<Rightarrow> (reply \<times> world) run" where
  "remove_edge h = on_edge h (remove_edge_partition h) removeEdge remove_code"

text \<open>The routes of the requests that change the store.\<close>

datatype request = PostAddNode "node_id option" | PostRemoveNode "node_id option"
  | PostAddEdge "(node_id \<times> node_id) option" | PostRemoveEdge "(node_id \<times> node_id) option"

fun handle :: "http \<Rightarrow> request \<Rightarrow> world \<Rightarrow> (reply \<times> world) run" where
  "handle h (PostAddNode n) W = add_node h n W"
| "handle h (PostRemoveNode n) W = remove_node h n W"
| "handle h (PostAddEdge ids) W = add_edge h ids W"
| "handle h (PostRemoveEdge ids) W = remove_edge h ids W"

definition get_edge :: "http \<Rightarrow> (node_id \<times> node_id) option \<Rightarrow> world \<Rightarrow> reply run" where
  "get_edge h ids W =
     (case ids of
        None \<Rightarrow> Ok (Failed 400)
      | Some (a, b) \<Rightarrow>
          (case partitioned h a b of
             Die \<Rightarrow> Die
           | Ok True \<Rightarrow>
               (case part_of_edge (ht_config h) a b of
                  Die \<Rightarrow> Die
                | Ok (Inl _) \<Rightarrow> Ok (Failed 400)
                | Ok (Inr (l, r)) \<Rightarrow> Ok (InGraph (getEdgePart l r (wd_store W) = SUCCESS)))
           | Ok False \<Rightarrow>
               (case getEdge a b (wd_store W) of Die \<Rightarrow> Die | Ok s \<Rightarrow> Ok (InGraph (status_code s = SUCCESS)))))"

definition get_neighbors :: "(edges \<Rightarrow> node_id list) \<Rightarrow> http \<Rightarrow> node_id option \<Rightarrow> world \<Rightarrow> reply run" where
  "get_neighbors ho h n W =
     (case n of
        None \<Rightarrow> Ok (Failed 400)
      | Some n \<Rightarrow>
          (case foreign h n of
             Die \<Rightarrow> Die
           | Ok True \<Rightarrow> Ok (Failed 400)
           | Ok False \<Rightarrow> (case getNeighbors ho n (wd_store W) of Inl _ \<Rightarrow> Ok (Failed 400) | Inr ns \<Rightarrow> Ok (Neighbors n ns))))"

definition shortest_path :: "(edges \<Rightarrow> node_id list) \<Rightarrow> http \<Rightarrow> (node_id \<times> node_id) option \<Rightarrow> world \<Rightarrow> reply run option" where
  "shortest_path ho h ids W =
     (case ids of
        None \<Rightarrow> Some (Ok (Failed 400))
      | Some (a, b) \<Rightarrow>
          if ht_partman h then Some (Ok (Failed 400))
          else (case shortestPath ho a b (wd_store W) of
                  None \<Rightarrow> None
                | Some Die \<Rightarrow> Some Die
                | Some (Ok (Inl c)) \<Rightarrow> Some (Ok (Failed (if c = NO_ACTION then 204 else 400)))
                | Some (Ok (Inr k)) \<Rightarrow> Some (Ok (Distance k))))"

section \<open>Checkpoints\<close>

text \<open>
  A replica logs or does not. The results of \<open>repl.thrift\<close> are handed up the chain as they are.
\<close>

datatype ckpt_result = OUT_OF_SPACE | CHECKPOINT_DISABLED | CHECKPOINT_DONE

fun checkpoint_down ::
  "(node_id set \<Rightarrow> node_id list) \<Rightarrow> (edges \<Rightarrow> node_id list) \<Rightarrow> (bool \<times> logged) list \<Rightarrow>
     (ckpt_result \<times> (bool \<times> logged) list) run" where
  "checkpoint_down no ho [] = Ok (CHECKPOINT_DONE, [])"
| "checkpoint_down no ho ((loggingEnabled, S) # rs) =
     (if \<not> loggingEnabled then Ok (CHECKPOINT_DISABLED, (loggingEnabled, S) # rs)
      else (case LoggedStore.checkpoint no ho S of
              Die \<Rightarrow> Die
            | Ok (c, S') \<Rightarrow>
                if c \<noteq> SUCCESS then Ok (OUT_OF_SPACE, (loggingEnabled, S') # rs)
                else (case checkpoint_down no ho rs of
                        Die \<Rightarrow> Die | Ok (r, rs') \<Rightarrow> Ok (r, (loggingEnabled, S') # rs'))))"

text \<open>The last server of a chain has no successor to ask.\<close>

definition replicateCheckpoint ::
  "(node_id set \<Rightarrow> node_id list) \<Rightarrow> (edges \<Rightarrow> node_id list) \<Rightarrow> node_type \<Rightarrow> (bool \<times> logged) list \<Rightarrow>
     (ckpt_result \<times> (bool \<times> logged) list) run" where
  "replicateCheckpoint no ho t rs = (if t = TAIL then Ok (CHECKPOINT_DONE, rs) else checkpoint_down no ho rs)"

definition http_checkpoint ::
  "(node_id set \<Rightarrow> node_id list) \<Rightarrow> (edges \<Rightarrow> node_id list) \<Rightarrow> http \<Rightarrow> bool \<times> logged \<Rightarrow> (bool \<times> logged) list \<Rightarrow>
     (reply \<times> (bool \<times> logged) \<times> (bool \<times> logged) list) run" where
  "http_checkpoint no ho h me rs =
     (if \<not> fst me then Ok (Failed 501, me, rs)
      else if ht_partman h then Ok (Failed 400, me, rs)
      else (case (case ht_repl h of None \<Rightarrow> Ok (CHECKPOINT_DONE, rs) | Some t \<Rightarrow> replicateCheckpoint no ho t rs) of
              Die \<Rightarrow> Die
            | Ok (r, rs') \<Rightarrow>
                if r \<noteq> CHECKPOINT_DONE then Ok (Failed 500, me, rs')
                else (case LoggedStore.checkpoint no ho (snd me) of
                        Die \<Rightarrow> Die
                      | Ok (c, S') \<Rightarrow>
                          if c = NO_SPACE then Ok (Failed 507, (fst me, S'), rs')
                          else if c \<noteq> SUCCESS then Die
                          else Ok (Checkpointed, (fst me, S'), rs'))))"

end
