(* ===== verification/LogProps.thy ===== *)
theory LogProps
  imports LogInv
begin

text \<open>
  Properties of the log: what was appended since it was formatted is read back after a restart, a
  full device is reported, a crash is harmless within a block, and where it is not.
\<close>

section \<open>What is appended is read back\<close>

fun log_all :: "entry list \<Rightarrow> log_manager \<times> device \<Rightarrow> code \<times> log_manager \<times> device" where
  "log_all [] L = (SUCCESS, L)"
| "log_all (e # es) L = (case logOperation e L of (c, L') \<Rightarrow> if c = SUCCESS then log_all es L' else (c, L'))"

definition blocks_for :: "nat \<Rightarrow> nat" where
  "blocks_for n = (n - 1) div LOG_BLOCK_ENTRY_COUNT + 1"

lemma chunks_blocks:
  assumes "chunks_ok bs"
  shows "length bs = blocks_for (length (concat bs))" "length (last bs) < LOG_BLOCK_ENTRY_COUNT \<Longrightarrow> blocks_for (length (concat bs) + 1) = length bs"
    "length (last bs) = LOG_BLOCK_ENTRY_COUNT \<Longrightarrow> blocks_for (length (concat bs) + 1) = length bs + 1"
proof -
  obtain init c where bs: "bs = init @ [c]" using assms by (cases bs rule: rev_cases) (auto simp: chunks_ok_def)
  have "length (concat init) = 169 * length init" if "\<forall>c\<in>set init. length c = 169" for init :: "entry list list"
    using that by (induction init) auto
  then have i: "length (concat init) = 169 * length init" using assms by (simp add: bs chunks_ok_def)
  have c: "length c \<le> 169" "0 < length init \<longrightarrow> 0 < length c" using assms by (auto simp: bs chunks_ok_def)
  show "length bs = blocks_for (length (concat bs))" using i c by (cases c) (auto simp: bs blocks_for_def)
  show "length (last bs) < LOG_BLOCK_ENTRY_COUNT \<Longrightarrow> blocks_for (length (concat bs) + 1) = length bs"
    using i by (simp add: bs blocks_for_def)
  show "length (last bs) = LOG_BLOCK_ENTRY_COUNT \<Longrightarrow> blocks_for (length (concat bs) + 1) = length bs + 1"
    using i by (simp add: bs blocks_for_def)
qed

lemma log_all_ok:
  assumes "log_ok (lm, d) bs" and "\<forall>e\<in>set es. named_op e" and "lm_min lm + blocks_for (length (concat bs) + length es) < dv_size d"
  shows "\<exists>lm' d' bs'. log_all es (lm, d) = (SUCCESS, lm', d') \<and> log_ok (lm', d') bs' \<and> concat bs' = concat bs @ es \<and>
    lm_min lm' = lm_min lm \<and> lm_max lm' = lm_max lm \<and>
    same_outside (lm_min lm) (lm_min lm + blocks_for (length (concat bs) + length es)) d d'"
  using assms
proof (induction es arbitrary: lm d bs)
  case Nil
  then show ?case by (auto simp: same_outside_def)
next
  case (Cons e es)
  note ch = log_onD(1) [OF log_okD(3) [OF Cons.prems(1)]]
  let ?n = "length (concat bs) + length (e # es)"
  have mono: "blocks_for (length (concat bs) + 1) \<le> blocks_for ?n" by (simp add: blocks_for_def div_le_mono)
  have "length (last bs) \<le> LOG_BLOCK_ENTRY_COUNT" using ch by (simp add: chunks_ok_def)
  then have room: "length (last bs) < LOG_BLOCK_ENTRY_COUNT \<or> lm_min lm + length bs + 1 < dv_size d"
    using chunks_blocks(3) [OF ch] mono Cons.prems(3) by (cases "length (last bs) = LOG_BLOCK_ENTRY_COUNT") auto
  obtain lm1 d1 where 1: "logOperation e (lm, d) = (SUCCESS, lm1, d1)" "log_ok (lm1, d1) (add_chunk bs e)"
    "lm_min lm1 = lm_min lm" "lm_max lm1 = lm_max lm" "same_outside (lm_min lm) (lm_min lm + length (add_chunk bs e)) d d1"
    using logOperation_ok [OF Cons.prems(1) _ room, of e] Cons.prems(2) by auto
  have cc: "concat (add_chunk bs e) = concat bs @ [e]" using ch by (simp add: concat_add_chunk chunks_ok_def)
  have len: "length (add_chunk bs e) \<le> blocks_for ?n"
    using chunks_blocks(1) [OF add_chunk_ok [OF ch], of e] mono by (simp add: cc)
  have "\<exists>lm' d' bs'. log_all es (lm1, d1) = (SUCCESS, lm', d') \<and> log_ok (lm', d') bs' \<and> concat bs' = concat (add_chunk bs e) @ es \<and>
    lm_min lm' = lm_min lm1 \<and> lm_max lm' = lm_max lm1 \<and>
    same_outside (lm_min lm1) (lm_min lm1 + blocks_for (length (concat (add_chunk bs e)) + length es)) d1 d'"
    by (rule Cons.IH [OF 1(2)]) (use Cons.prems 1(3,5) in \<open>auto simp: cc same_outside_def\<close>)
  then obtain lm' d' bs' where 2: "log_all es (lm1, d1) = (SUCCESS, lm', d')" "log_ok (lm', d') bs'"
    "concat bs' = concat bs @ e # es" "lm_min lm' = lm_min lm" "lm_max lm' = lm_max lm" "same_outside (lm_min lm) (lm_min lm + blocks_for ?n) d1 d'"
    using 1(3,4) cc by auto
  have "same_outside (lm_min lm) (lm_min lm + blocks_for ?n) d d1" using 1(5) len by (simp add: same_outside_mono)
  then show ?case using 1(1) 2 by (auto intro: same_outside_trans)
qed

text \<open>
  C15: On a device that does not fail and has fewer than 2 to the power 32 blocks, with a block range that the
  constructor accepts: after formatting, all named operations whose entries fit in the blocks of the log,
  up to \<open>_logMaxBlock\<close>, are logged; the manager that opens the device anew reads back exactly
  these, in order; and only the superblock and the blocks that hold entries have changed. (What
  happens beyond \<open>_logMaxBlock\<close>, which \<open>logOperation\<close> does not look at, is a property of its own.)
\<close>

theorem log_round_trip:
  assumes "device_ok d" and "dv_power d = None" and "dv_size d < 2 ^ 32"
    and "new_log r d = Ok r" and "\<forall>e\<in>set es. named_op e" and "fst r + blocks_for (length es) \<le> snd r"
  shows "\<exists>lm0 d0 lm1 d1 lm2. log_format r d = Ok (lm0, d0) \<and> log_all es (lm0, d0) = (SUCCESS, lm1, d1) \<and>
    log_init r d1 = Ok (lm2, d1) \<and> read_all (lm2, d1) = Ok es \<and>
    (\<forall>n. n < fst r \<or> fst r + blocks_for (length es) < n \<longrightarrow> dv_blocks d1 n = dv_blocks d n)"
proof -
  have fits: "fst r + blocks_for (length es) < dv_size d"
    using assms(4,6) by (simp add: new_log_def split: if_splits)
  have b: "1 \<le> blocks_for (length es)" by (simp add: blocks_for_def)
  then obtain lm0 d0 where 0: "log_format r d = Ok (lm0, d0)" "log_ok (lm0, d0) [[]]" "lm_min lm0 = fst r" "lm_max lm0 = snd r"
    "same_outside (fst r) (fst r + 1) d d0"
    using log_format_ok [OF assms(1-3), of r] fits by force
  obtain lm1 d1 bs where 1: "log_all es (lm0, d0) = (SUCCESS, lm1, d1)" "log_ok (lm1, d1) bs" "concat bs = es" "lm_min lm1 = fst r"
    "lm_max lm1 = snd r" "same_outside (fst r) (fst r + blocks_for (length es)) d0 d1"
    using log_all_ok [OF 0(2) assms(5)] 0(3,4,5) fits by (auto simp: same_outside_def)
  note D = log_okD [OF 1(2)]
  obtain lm2 where 2: "log_init r d1 = Ok (lm2, d1)" "log_ok (lm2, d1) bs"
    using log_init_ok [OF D(3,1,2)] 1(4) by (cases r) auto
  have "same_outside (fst r) (fst r + blocks_for (length es)) d d1"
    using 0(5) 1(6) b by (auto simp: same_outside_def)
  then show ?thesis using 0(1) 1(1,3) 2(1) read_all_log [OF 2(2)] by (auto simp: same_outside_def)
qed

definition blank :: "nat \<Rightarrow> device" where
  "blank n = \<lparr>dv_size = n, dv_blocks = (\<lambda>_. replicate BLOCK_WORDS 0), dv_power = None\<rparr>"

lemma blank_simps [simp]: "device_ok (blank n)" "dv_power (blank n) = None" "dv_size (blank n) = n"
  "dv_blocks (blank n) k = replicate BLOCK_WORDS 0"
  by (simp_all add: blank_def device_ok_def)

theorem log_round_trip_witness:
  "\<exists>lm0 d0 lm1 d1 lm2. log_format (0, 10) (blank 50) = Ok (lm0, d0) \<and>
     log_all (replicate 231 \<lparr>en_opcode = ADD_NODE, en_idA = 1, en_idB = 2\<rparr>) (lm0, d0) = (SUCCESS, lm1, d1) \<and>
     log_init (0, 10) d1 = Ok (lm2, d1) \<and> read_all (lm2, d1) = Ok (replicate 231 \<lparr>en_opcode = ADD_NODE, en_idA = 1, en_idB = 2\<rparr>)"
  using log_round_trip [of "blank 50" "(0, 10)" "replicate 231 \<lparr>en_opcode = ADD_NODE, en_idA = 1, en_idB = 2\<rparr>"]
  by (auto simp: blocks_for_def named_op_def new_log_def)

section \<open>Crashes\<close>

text \<open>
  C16: A crash during an append to a block that is not full, after however many writes, leaves a log
  that opens and reads back either without or with the new entry.
\<close>

theorem append_survives_crash:
  assumes "log_ok (lm, d) bs" and "named_op e" and "length (last bs) < LOG_BLOCK_ENTRY_COUNT"
    and "logOperation e (lm, failing k d) = (c, lm', d')"
  shows "\<exists>lm''. log_init (lm_min lm, x) (restarted d') = Ok (lm'', restarted d') \<and>
    read_all (lm'', restarted d') = Ok (concat bs @ (if k = 0 then [] else [e]))"
proof -
  have "bs \<noteq> []" using log_onD(1) [OF log_okD(3) [OF assms(1)]] by (simp add: chunks_ok_def)
  then show ?thesis using append_crash [OF assms, of x] read_all_log by (fastforce simp: concat_add_chunk)
qed

text \<open>
  When a block is full, a crash between the write of the superblock and that of the new
  block leaves a log that ends with whatever entries the new block had before: entries of an
  earlier generation are read as if they had been logged, as no generation is compared.
\<close>

theorem crash_replays_stale:
  assumes "log_ok (lm, d) bs" and "length (last bs) = LOG_BLOCK_ENTRY_COUNT" and "lm_min lm + length bs + 1 < dv_size d"
    and "block_has (dv_blocks d (lm_min lm + length bs + 1)) old" and "block_valid lb_end (dv_blocks d (lm_min lm + length bs + 1))"
    and "old \<noteq> []" and "logOperation e (lm, failing 1 d) = (c, lm', d')"
  shows "\<exists>lm''. log_init (lm_min lm, x) (restarted d') = Ok (lm'', restarted d') \<and>
    read_all (lm'', restarted d') = Ok (concat bs @ old)"
proof -
  let ?m = "lm_min lm"
  note D = log_okD [OF assms(1)]
  note O = log_onD [OF D(3)]
  obtain sb where sb: "restarted d' = bm_write \<lparr>buf_data = sb, buf_block = ?m\<rparr> d" "length sb = BLOCK_WORDS" "block_valid sb_end sb"
    "sb_start sb = of_nat (?m + 1)" "sb_size sb = of_nat (length bs + 1)"
    using full_crash [OF assms(1-3,7)] by blast
  let ?d = "restarted d'"
  have "chunks_ok (bs @ [old])"
    using O(1) assms(2,6) block_hasD(3) [OF assms(4)] by (cases bs rule: rev_cases) (auto simp: chunks_ok_def butlast_append split: if_splits)
  then have "log_on ?d ?m (bs @ [old])"
    unfolding log_on_def blocks_on_def using sb O(7,8,10) D(2) assms(3-5) by (auto simp: nth_append less_Suc_eq)
  then obtain lm2 where "log_init (?m, x) ?d = Ok (lm2, ?d)" "log_ok (lm2, ?d) (bs @ [old])"
    using log_init_ok [of ?d ?m] bm_write_ok [OF D(1)] sb(1,2) D(2) by force
  then show ?thesis using read_all_log by fastforce
qed

text \<open>
  On a device of zeros the same crash adds an entry nobody made: a block of zeros has a right checksum
  and the reader takes its first entry without looking at the number of entries, which is
  the addition of node 0.
\<close>

theorem crash_adds_node_zero:
  assumes "log_ok (lm, d) bs" and "length (last bs) = LOG_BLOCK_ENTRY_COUNT" and "lm_min lm + length bs + 1 < dv_size d"
    and "dv_blocks d (lm_min lm + length bs + 1) = replicate BLOCK_WORDS 0" and "logOperation e (lm, failing 1 d) = (c, lm', d')"
  shows "\<exists>lm''. log_init (lm_min lm, x) (restarted d') = Ok (lm'', restarted d') \<and>
    read_all (lm'', restarted d') = Ok (concat bs @ [\<lparr>en_opcode = ADD_NODE, en_idA = 0, en_idB = 0\<rparr>])"
proof -
  let ?m = "lm_min lm" and ?n = "length bs"
  note D = log_okD [OF assms(1)]
  note O = log_onD [OF D(3)]
  obtain sb where sb: "restarted d' = bm_write \<lparr>buf_data = sb, buf_block = ?m\<rparr> d" "length sb = BLOCK_WORDS" "block_valid sb_end sb"
    "sb_start sb = of_nat (?m + 1)" "sb_size sb = of_nat (?n + 1)"
    using full_crash [OF assms(1-3,5)] by blast
  let ?d = "restarted d'" and ?new = "replicate BLOCK_WORDS (0 :: 64 word)"
  have u: "unat (sb_start sb) = ?m + 1" "unat (sb_size sb) = ?n + 1" "unat (sb_start sb + sb_size sb - 1) = ?m + ?n + 1"
  proof -
    have 1: "unat (of_nat k :: 32 word) = k" if "k < 2 ^ 32" for k using that by (simp add: unat_of_nat take_bit_nat_eq_self)
    have "sb_start sb + sb_size sb - 1 = of_nat (?m + ?n + 1)" by (simp add: sb(4,5))
    then show "unat (sb_start sb) = ?m + 1" "unat (sb_size sb) = ?n + 1" "unat (sb_start sb + sb_size sb - 1) = ?m + ?n + 1"
      using O(10) assms(3) 1 unfolding sb(4,5) by (auto simp del: of_nat_Suc of_nat_add)
  qed
  have blocks: "dv_blocks ?d ?m = sb" "\<And>k. dv_blocks ?d (?m + 1 + k) = dv_blocks d (?m + 1 + k)" "dv_size ?d = dv_size d"
    using sb(1) D(2) by auto
  have on: "blocks_on ?d ?m bs" using O(11) blocks(2,3) by (simp add: blocks_on_def)
  have new: "dv_blocks ?d (?m + ?n + 1) = ?new" "block_valid lb_end ?new"
    using assms(4) blocks(2) [of ?n] by (simp_all add: zeros_valid BLOCK_WORDS_def)
  let ?lm = "\<lparr>lm_min = ?m, lm_max = x, lm_super = \<lparr>buf_data = sb, buf_block = ?m\<rparr>,
      lm_current = \<lparr>buf_data = ?new, buf_block = ?m + ?n + 1\<rparr>\<rparr>"
  have init: "log_init (?m, x) ?d = Ok (?lm, ?d)"
    using u sb(3) blocks new assms(3) by (simp add: log_init_def bm_get_def)
  have "bs \<noteq> []" "?m + 1 < dv_size d" using O(9) assms(3) by auto
  then have rd: "readLog (?lm, ?d) = Ok (reader_at ?d ?m (?n + 1) 0 0)"
    using u blocks_onD(4) [OF on, of 0] blocks(3) by (simp add: readLog_def bm_get_def reader_at_def Let_def)
  let ?step = "\<lambda>e es. Ok (es @ [e])"
  let ?fin = "reader_at ?d ?m (?n + 1) (?n - 1) (length (last bs))"
  have last: "last bs = bs ! (?n - 1)" "?n - 1 < ?n" using \<open>bs \<noteq> []\<close> by (simp_all add: last_conv_nth)
  have b: "block_has (dv_blocks ?d (?m + 1 + (?n - 1))) (last bs)" "block_valid lb_end (dv_blocks ?d (?m + 1 + (?n - 1)))"
    using blocks_onD(3,4) [OF on last(2)] by (simp_all add: last(1))
  obtain n0 where n0: "?n = Suc n0" using \<open>bs \<noteq> []\<close> by (cases bs) auto
  let ?after = "reader_at ?d ?m (?n + 1) ?n 1"
  have zero: "lb_entry ?new 0 = \<lparr>en_opcode = ADD_NODE, en_idA = 0, en_idB = 0\<rparr>" "lb_nEntries ?new = 0"
    by (simp_all add: lb_entry_def BLOCK_WORDS_def low_half_def op_of_def lb_nEntries_def)
  have nx: "hasNext ?fin" "getNext ?d ?fin = Ok (lb_entry ?new 0, ?after)" "\<not> hasNext ?after"
    using block_hasD(2) [OF b(1)] b(2) new zero n0 assms(3) blocks(3)
    by (auto simp: hasNext_def getNext_def take_entry_def reader_at_def bm_get_def)
  have "replay ?step ?d ?fin es = Ok (es @ [lb_entry ?new 0])" for es
    using nx by (subst replay.simps, simp) (subst replay.simps, simp)
  then have "replay ?step ?d (reader_at ?d ?m (?n + 1) 0 0) [] = Ok (concat bs @ [lb_entry ?new 0])"
  proof -
    assume e: "\<And>es. replay ?step ?d ?fin es = Ok (es @ [lb_entry ?new 0])"
    have "bs ! 0 @ concat (drop 1 bs) = concat bs" using \<open>bs \<noteq> []\<close> by (cases bs) auto
    then show ?thesis using replay_at [OF on, of "?n + 1" 0 0 ?step "[]"] \<open>bs \<noteq> []\<close> e by simp
  qed
  then show ?thesis using init rd zero(1) by (simp add: read_all_def)
qed

section \<open>Witnesses\<close>

text \<open>The log on a device of zeros with one full block.\<close>

lemma full_block:
  obtains lm d where "log_ok (lm, d) [replicate 169 \<lparr>en_opcode = ADD_NODE, en_idA = 1, en_idB = 2\<rparr>]" and "lm_min lm = 0"
    and "dv_size d = 50" and "dv_blocks d 2 = replicate BLOCK_WORDS 0"
proof -
  let ?es = "replicate 169 \<lparr>en_opcode = ADD_NODE, en_idA = 1, en_idB = 2\<rparr>"
  obtain lm0 d0 where 0: "log_ok (lm0, d0) [[]]" "lm_min lm0 = 0" "same_outside 0 1 (blank 50) d0"
    using log_format_ok [of "blank 50" "(0, 10)"] by auto
  obtain lm d bs where 1: "log_ok (lm, d) bs" "concat bs = ?es" "lm_min lm = 0" "same_outside 0 1 d0 d"
    using log_all_ok [OF 0(1), of ?es] 0(2,3) by (auto simp: named_op_def blocks_for_def same_outside_def)
  have "chunks_ok bs" using 1(1) by (auto simp: log_ok_def log_on_def blocks_on_def)
  then have "length bs = 1" using chunks_blocks(1) 1(2) by (fastforce simp: blocks_for_def)
  then have "bs = [?es]" using 1(2) by (cases bs) auto
  then show thesis using that [of lm d] 1 0(3) by (simp add: same_outside_def)
qed

theorem append_survives_crash_witness:
  "\<exists>lm d c lm' d' lm''. log_ok (lm, d) [[]] \<and>
     logOperation \<lparr>en_opcode = ADD_NODE, en_idA = 1, en_idB = 2\<rparr> (lm, failing 1 d) = (c, lm', d') \<and>
     log_init (0, 10) (restarted d') = Ok (lm'', restarted d') \<and>
     read_all (lm'', restarted d') = Ok [\<lparr>en_opcode = ADD_NODE, en_idA = 1, en_idB = 2\<rparr>]"
proof -
  let ?e = "\<lparr>en_opcode = ADD_NODE, en_idA = 1, en_idB = 2\<rparr>"
  obtain lm d where 0: "log_ok (lm, d) [[]]" "lm_min lm = 0"
    using log_format_ok [of "blank 50" "(0, 10)"] by auto
  obtain c lm' d' where op: "logOperation ?e (lm, failing 1 d) = (c, lm', d')" by (metis prod_cases3)
  obtain lm'' where "log_init (0, 10) (restarted d') = Ok (lm'', restarted d')" "read_all (lm'', restarted d') = Ok [?e]"
    using append_survives_crash [OF 0(1) _ _ op, of 10] 0(2) by (auto simp: named_op_def)
  then show ?thesis using 0(1) op by blast
qed

theorem crash_replays_stale_witness:
  "\<exists>lm d c lm' d' lm''. logOperation \<lparr>en_opcode = ADD_NODE, en_idA = 3, en_idB = 0\<rparr> (lm, failing 1 d) = (c, lm', d') \<and>
     log_init (0, 10) (restarted d') = Ok (lm'', restarted d') \<and>
     read_all (lm'', restarted d') = Ok (replicate 169 \<lparr>en_opcode = ADD_NODE, en_idA = 1, en_idB = 2\<rparr> @
       [\<lparr>en_opcode = REMOVE_NODE, en_idA = 7, en_idB = 0\<rparr>])"
proof -
  let ?es = "replicate 169 \<lparr>en_opcode = ADD_NODE, en_idA = 1, en_idB = 2\<rparr>" and ?old = "\<lparr>en_opcode = REMOVE_NODE, en_idA = 7, en_idB = 0\<rparr>"
    and ?e = "\<lparr>en_opcode = ADD_NODE, en_idA = 3, en_idB = 0\<rparr>"
  obtain lm1 d1 where 1: "log_ok (lm1, d1) [?es]" "lm_min lm1 = 0" "dv_size d1 = 50" by (rule full_block)
  obtain lm2 d2 where 2: "log_ok (lm2, d2) [?es, [?old]]" "lm_min lm2 = 0" "dv_size d2 = 50"
    using logOperation_ok [OF 1(1), of ?old] 1(2,3) by (auto simp: named_op_def add_chunk_def same_outside_def)
  note D = log_okD [OF 2(1)]
  have sup: "buf_block (lm_super lm2) = lm_min lm2" "length (buf_data (lm_super lm2)) = BLOCK_WORDS"
    using D(1,4) by (simp_all add: device_ok_def)
  obtain lm3 d3 where 3: "log_ok (lm3, d3) [[]]" "lm_min lm3 = 0" "same_outside 0 1 d2 d3"
    using increaseGeneration_ok [OF D(1,2) _ _ sup] 2(2,3) by auto
  obtain lm4 d4 bs where 4: "log_ok (lm4, d4) bs" "concat bs = ?es" "lm_min lm4 = 0" "same_outside 0 1 d3 d4"
    using log_all_ok [OF 3(1), of ?es] 3(2,3) 2(3) by (auto simp: named_op_def blocks_for_def same_outside_def)
  have "chunks_ok bs" using 4(1) by (auto simp: log_ok_def log_on_def blocks_on_def)
  then have "length bs = 1" using chunks_blocks(1) 4(2) by (fastforce simp: blocks_for_def)
  then have bs: "bs = [?es]" using 4(2) by (cases bs) auto
  have "dv_blocks d4 2 = dv_blocks d2 2" "dv_size d4 = 50" using 3(3) 4(4) 2(3) by (simp_all add: same_outside_def)
  then have old: "block_has (dv_blocks d4 2) [?old]" "block_valid lb_end (dv_blocks d4 2)" "dv_size d4 = 50"
    using log_onD(7,8) [OF D(3), of 1] 2(2) by (simp_all add: numeral_2_eq_2)
  obtain c lm' d' where op: "logOperation ?e (lm4, failing 1 d4) = (c, lm', d')" by (metis prod_cases3)
  obtain lm'' where "log_init (0, 10) (restarted d') = Ok (lm'', restarted d')" "read_all (lm'', restarted d') = Ok (?es @ [?old])"
    using crash_replays_stale [OF 4(1) _ _ _ _ _ op, of "[?old]" 10] 4(3) old by (auto simp: bs numeral_2_eq_2)
  then show ?thesis using op by blast
qed

theorem crash_adds_node_zero_witness:
  "\<exists>lm d c lm' d' lm''. logOperation \<lparr>en_opcode = ADD_NODE, en_idA = 3, en_idB = 0\<rparr> (lm, failing 1 d) = (c, lm', d') \<and>
     log_init (0, 10) (restarted d') = Ok (lm'', restarted d') \<and>
     read_all (lm'', restarted d') = Ok (replicate 169 \<lparr>en_opcode = ADD_NODE, en_idA = 1, en_idB = 2\<rparr> @
       [\<lparr>en_opcode = ADD_NODE, en_idA = 0, en_idB = 0\<rparr>])"
proof -
  let ?es = "replicate 169 \<lparr>en_opcode = ADD_NODE, en_idA = 1, en_idB = 2\<rparr>" and ?e = "\<lparr>en_opcode = ADD_NODE, en_idA = 3, en_idB = 0\<rparr>"
  obtain lm d where 1: "log_ok (lm, d) [?es]" "lm_min lm = 0" "dv_size d = 50" "dv_blocks d 2 = replicate BLOCK_WORDS 0"
    by (rule full_block)
  obtain c lm' d' where op: "logOperation ?e (lm, failing 1 d) = (c, lm', d')" by (metis prod_cases3)
  obtain lm'' where "log_init (0, 10) (restarted d') = Ok (lm'', restarted d')"
    "read_all (lm'', restarted d') = Ok (?es @ [\<lparr>en_opcode = ADD_NODE, en_idA = 0, en_idB = 0\<rparr>])"
    using crash_adds_node_zero [OF 1(1) _ _ _ op, of 10] 1(2-4) by (auto simp: BLOCK_WORDS_def numeral_2_eq_2)
  then show ?thesis using op by blast
qed

end
