(* ===== verification/DurableProps.thy ===== *)
theory DurableProps
  imports LoggedStore LogProps
begin

text \<open>
  Durability of the store: an operation whose log entry means the operation keeps the store
  recoverable (the locale, with its instances), opening recovers the store, checkpoints keep it, and
  the operation and the crashes for which this fails.
\<close>

section \<open>Recovering\<close>

lemma recover_durable:
  assumes "log_holds S bs" and "restores S base" and "run_steps recover_entry (concat bs) base = Ok m"
  shows "\<exists>lm. open_store False (ls_dev S) = Ok (S\<lparr>ls_log := lm, ls_store := m\<rparr>) \<and>
    log_holds (S\<lparr>ls_log := lm\<rparr>) bs \<and> getGeneration lm = getGeneration (ls_log S)"
proof -
  let ?d = "ls_dev S" and ?lm = "ls_log S"
  have h: "log_ok (?lm, ?d) bs" "lm_min ?lm = 0" "length bs < dv_size ?d div 5" "ckpt_loaded (ls_ckpt S) ?d"
    "cm_min (ls_ckpt S) = dv_size ?d div 5" "cm_max (ls_ckpt S) = dv_size ?d"
    using assms(1) by (auto simp: log_holds_def)
  note D = log_okD [OF h(1)]
  note O = log_onD [OF D(3)]
  have sz: "0 < dv_size ?d div 5" "dv_size ?d div 5 < dv_size ?d" using h(3) O(2) by linarith+
  obtain lm where lm: "log_init (0, dv_size ?d div 5) ?d = Ok (lm, ?d)" "log_ok (lm, ?d) bs" "lm_min lm = 0"
    using log_init_ok [OF D(3,1,2)] h(2) by auto
  have g: "getGeneration lm = getGeneration ?lm" using D(4) log_okD(4) [OF lm(2)] lm(3) h(2) by (simp add: getGeneration_def)
  have cm: "ckpt_init (dv_size ?d div 5, dv_size ?d) ?d = Ok (ls_ckpt S)"
    using h(4-6) sz by (cases "ls_ckpt S") (auto simp: ckpt_init_def bm_get_def ckpt_loaded_def)
  obtain r where r: "readLog (lm, ?d) = Ok r" "replay recover_entry ?d r base = Ok m"
    using replay_log [OF lm(2), of recover_entry base] assms(3) by auto
  have "open_store False ?d = Ok (S\<lparr>ls_log := lm, ls_store := m\<rparr>)"
    using sz lm(1) cm r assms(2) g
    by (cases S) (simp add: open_store_def new_log_def new_checkpoint_def log_range_def ckpt_range_def recover_def restores_def)
  then show ?thesis using lm g h by (auto simp: log_holds_def)
qed

lemma reopen_durable:
  assumes "durable S"
  shows "\<exists>S'. open_store False (ls_dev S) = Ok S' \<and> ls_store S' = ls_store S \<and> ls_dev S' = ls_dev S \<and> durable S'"
proof -
  obtain bs base where b: "log_holds S bs" "restores S base" "run_steps recover_entry (concat bs) base = Ok (ls_store S)"
    using assms by (auto simp: durable_def)
  obtain lm where lm: "open_store False (ls_dev S) = Ok (S\<lparr>ls_log := lm, ls_store := ls_store S\<rparr>)"
    "log_holds (S\<lparr>ls_log := lm\<rparr>) bs" "getGeneration lm = getGeneration (ls_log S)"
    using recover_durable [OF b] by blast
  have "durable (S\<lparr>ls_log := lm\<rparr>)" unfolding durable_def using b(2,3) lm(2,3)
    by (intro exI [of _ bs] exI [of _ base]) (simp add: restores_def)
  then show ?thesis using lm(1) by (intro exI [of _ "S\<lparr>ls_log := lm\<rparr>"]) simp
qed

section \<open>Operations\<close>

lemma logged_append:
  assumes "log_holds S bs" and "restores S base" and "named_op e" and "log_room S"
  shows "\<exists>lm d. logOperation e (ls_log S, ls_dev S) = (SUCCESS, lm, d) \<and>
    log_holds (S\<lparr>ls_log := lm, ls_dev := d\<rparr>) (add_chunk bs e) \<and> restores (S\<lparr>ls_log := lm, ls_dev := d\<rparr>) base \<and>
    dv_size d = dv_size (ls_dev S)"
proof -
  let ?d = "ls_dev S" and ?lm = "ls_log S"
  have h: "log_ok (?lm, ?d) bs" "lm_min ?lm = 0" "length bs < dv_size ?d div 5" "ckpt_loaded (ls_ckpt S) ?d"
    "cm_min (ls_ckpt S) = dv_size ?d div 5" "cm_max (ls_ckpt S) = dv_size ?d"
    using assms(1) by (auto simp: log_holds_def)
  have room: "length bs + 1 < dv_size ?d div 5" using assms(4) log_room_iff [OF assms(1)] by simp
  obtain lm d where 1: "logOperation e (?lm, ?d) = (SUCCESS, lm, d)" "log_ok (lm, d) (add_chunk bs e)" "lm_min lm = 0"
    "same_outside 0 (length (add_chunk bs e)) ?d d"
  proof -
    have "length bs + 1 < dv_size ?d" using room by linarith
    then show thesis using logOperation_ok [OF h(1) assms(3)] h(2) that by auto
  qed
  have len: "length (add_chunk bs e) < dv_size ?d div 5" using room by (auto simp: add_chunk_def)
  have b: "dv_size d = dv_size ?d" "\<And>n. dv_size ?d div 5 \<le> n \<Longrightarrow> dv_blocks d n = dv_blocks ?d n"
    using 1(4) len by (auto simp: same_outside_def)
  have "log_holds (S\<lparr>ls_log := lm, ls_dev := d\<rparr>) (add_chunk bs e)"
    using 1(2,3) len h b by (simp add: log_holds_def ckpt_loaded_def)
  moreover have "restores (S\<lparr>ls_log := lm, ls_dev := d\<rparr>) base"
    using assms(2) logOperation_generation [OF 1(1)] restore_cong [OF b, where cm = "ls_ckpt S"] h(5) by (simp add: restores_def)
  ultimately show ?thesis using 1(1) b(1) by blast
qed

text \<open>
  The contract of an operation: the entry it logs is one that replaying takes for the operation.
\<close>

locale logged_operation =
  fixes e :: entry and f :: "store \<Rightarrow> (code \<times> store) run"
  assumes named: "named_op e"
    and replays: "recover_entry e m = after_op (f m)"
begin

lemma keeps_log:
  assumes "durable_with S bs base" and "log_room S" and "logged_op e f S = Ok (c, S')"
  shows "durable_with S' (add_chunk bs e) base \<and> f (ls_store S) = Ok (c, ls_store S') \<and> dv_size (ls_dev S') = dv_size (ls_dev S)"
proof -
  have b: "log_holds S bs" "restores S base" "run_steps recover_entry (concat bs) base = Ok (ls_store S)"
    using assms(1) by (auto simp: durable_with_def)
  obtain lm d where l: "logOperation e (ls_log S, ls_dev S) = (SUCCESS, lm, d)"
    "log_holds (S\<lparr>ls_log := lm, ls_dev := d\<rparr>) (add_chunk bs e)" "restores (S\<lparr>ls_log := lm, ls_dev := d\<rparr>) base"
    "dv_size d = dv_size (ls_dev S)"
    using logged_append [OF b(1,2) named assms(2)] by blast
  obtain m where m: "f (ls_store S) = Ok (c, m)" "S' = S\<lparr>ls_log := lm, ls_dev := d, ls_store := m\<rparr>"
    using assms(3) l(1) by (auto simp: logged_op_def Let_def split: run.splits)
  have "bs \<noteq> []" using b(1) by (auto simp: log_holds_def log_ok_def log_on_def blocks_on_def chunks_ok_def)
  then have "run_steps recover_entry (concat (add_chunk bs e)) base = Ok m"
    using b(3) m(1) by (simp add: concat_add_chunk run_steps_append replays after_op_def)
  then have "durable_with S' (add_chunk bs e) base" unfolding durable_with_def m(2)
    using l(2,3) by (simp add: log_holds_def restores_def)
  then show ?thesis using m l(4) by simp
qed

lemma runs:
  assumes "durable_with S bs base" and "log_room S" and "f (ls_store S) = Ok (c, m)"
  shows "\<exists>S'. logged_op e f S = Ok (c, S')"
proof -
  obtain lm d where "logOperation e (ls_log S, ls_dev S) = (SUCCESS, lm, d)"
    using logged_append [OF _ _ named assms(2), of bs base] assms(1) unfolding durable_with_def by blast
  then show ?thesis using assms(3) by (simp add: logged_op_def)
qed

end

interpretation add_node: logged_operation "\<lparr>en_opcode = ADD_NODE, en_idA = n, en_idB = 0\<rparr>" "\<lambda>m. Ok (addNode n m)" for n
  by unfold_locales (simp_all add: named_op_def recover_entry_def after_op_def split: prod.split)

interpretation remove_node: logged_operation "\<lparr>en_opcode = REMOVE_NODE, en_idA = n, en_idB = 0\<rparr>" "removeNode n" for n
  by unfold_locales (simp_all add: named_op_def recover_entry_def)

interpretation add_edge: logged_operation "\<lparr>en_opcode = ADD_EDGE, en_idA = a, en_idB = b\<rparr>" "addEdge a b" for a b
  by unfold_locales (simp_all add: named_op_def recover_entry_def)

interpretation add_part: logged_operation "\<lparr>en_opcode = ADD_EDGE_PART, en_idA = a, en_idB = b\<rparr>" "\<lambda>m. Ok (addEdgePart a b m)" for a b
  by unfold_locales (simp_all add: named_op_def recover_entry_def after_op_def split: prod.split)

interpretation remove_part: logged_operation "\<lparr>en_opcode = REMOVE_EDGE_PART, en_idA = a, en_idB = b\<rparr>" "\<lambda>m. Ok (removeEdgePart a b m)" for a b
  by unfold_locales (simp_all add: named_op_def recover_entry_def after_op_def split: prod.split)

text \<open>The changes a client can ask for.\<close>

datatype change = AddNode node_id | RemoveNode node_id | AddEdge node_id node_id | RemoveEdge node_id node_id
  | AddEdgePart node_id node_id | RemoveEdgePart node_id node_id

fun in_memory :: "change \<Rightarrow> store \<Rightarrow> (code \<times> store) run" where
  "in_memory (AddNode n) m = Ok (addNode n m)"
| "in_memory (RemoveNode n) m = removeNode n m"
| "in_memory (AddEdge a b) m = addEdge a b m"
| "in_memory (RemoveEdge a b) m = removeEdge a b m"
| "in_memory (AddEdgePart a b) m = Ok (addEdgePart a b m)"
| "in_memory (RemoveEdgePart a b) m = Ok (removeEdgePart a b m)"

fun durably :: "change \<Rightarrow> logged \<Rightarrow> (code \<times> logged) run" where
  "durably (AddNode n) S = ls_addNode n S"
| "durably (RemoveNode n) S = ls_removeNode n S"
| "durably (AddEdge a b) S = ls_addEdge a b S"
| "durably (RemoveEdge a b) S = ls_removeEdge a b S"
| "durably (AddEdgePart a b) S = ls_addEdgePart a b S"
| "durably (RemoveEdgePart a b) S = ls_removeEdgePart a b S"

definition removes_edge :: "change \<Rightarrow> bool" where
  "removes_edge x \<longleftrightarrow> (case x of RemoveEdge _ _ \<Rightarrow> True | _ \<Rightarrow> False)"

fun entry_of :: "change \<Rightarrow> entry" where
  "entry_of (AddNode n) = \<lparr>en_opcode = ADD_NODE, en_idA = n, en_idB = 0\<rparr>"
| "entry_of (RemoveNode n) = \<lparr>en_opcode = REMOVE_NODE, en_idA = n, en_idB = 0\<rparr>"
| "entry_of (AddEdge a b) = \<lparr>en_opcode = ADD_EDGE, en_idA = a, en_idB = b\<rparr>"
| "entry_of (RemoveEdge a b) = \<lparr>en_opcode = REMOVE_EDGE, en_idA = a, en_idB = b\<rparr>"
| "entry_of (AddEdgePart a b) = \<lparr>en_opcode = ADD_EDGE_PART, en_idA = a, en_idB = b\<rparr>"
| "entry_of (RemoveEdgePart a b) = \<lparr>en_opcode = REMOVE_EDGE_PART, en_idA = a, en_idB = b\<rparr>"

lemma in_memory_funs:
  "in_memory (AddNode n) = (\<lambda>m. Ok (addNode n m))" "in_memory (RemoveNode n) = removeNode n"
  "in_memory (AddEdge a b) = addEdge a b" "in_memory (RemoveEdge a b) = removeEdge a b"
  "in_memory (AddEdgePart a b) = (\<lambda>m. Ok (addEdgePart a b m))" "in_memory (RemoveEdgePart a b) = (\<lambda>m. Ok (removeEdgePart a b m))"
  by (simp_all add: fun_eq_iff)

lemma durably_eq: "durably x S = logged_op (entry_of x) (in_memory x) S"
  by (cases x)
    (simp_all only: durably.simps entry_of.simps in_memory_funs ls_addNode_def ls_removeNode_def ls_addEdge_def
      ls_removeEdge_def ls_addEdgePart_def ls_removeEdgePart_def)

text \<open>Every change but the removal of an edge fulfils the contract.\<close>

lemma change_logged: "\<not> removes_edge x \<Longrightarrow> logged_operation (entry_of x) (in_memory x)"
  by (cases x)
    (simp_all only: removes_edge_def change.case entry_of.simps in_memory_funs not_True_eq_False add_node.logged_operation_axioms remove_node.logged_operation_axioms
      add_edge.logged_operation_axioms add_part.logged_operation_axioms remove_part.logged_operation_axioms)

text \<open>
  C13: Every change but the removal of an edge, made while the log has room, does to the store in memory what
  the memory store does, gives its status, and keeps the store durable.
\<close>

theorem change_stays_durable:
  assumes "durable S" and "log_room S" and "\<not> removes_edge x" and "durably x S = Ok (c, S')"
  shows "durable S' \<and> in_memory x (ls_store S) = Ok (c, ls_store S')"
  using logged_operation.keeps_log [OF change_logged [OF assms(3)] _ assms(2)] assms(1,4)
  unfolding durable_iff durably_eq by blast

section \<open>The first state\<close>

lemma zeros_restored:
  assumes "cs_nodeCount b = 0" and "cm_super cm = \<lparr>buf_data = b, buf_block = x\<rparr>" and "cm_min cm + 1 < dv_size d"
  shows "restoreCheckpoint g (cm, d) m = Ok m"
  using assms by (simp add: restoreCheckpoint_def new_reader_at)

text \<open>A device of at least ten blocks can be formatted, which gives a durable store without nodes.\<close>

lemma formatted_is_durable:
  assumes "device_ok d" and "dv_power d = None" and "dv_size d < 2 ^ 32" and "10 \<le> dv_size d"
  shows "\<exists>S bs base. open_store True d = Ok S \<and> durable_with S bs base \<and> ls_store S = Map.empty \<and>
    dv_size (ls_dev S) = dv_size d \<and> concat bs = [] \<and>
    (block_valid sb_end (dv_blocks d 0) \<longrightarrow> getGeneration (ls_log S) = ucast (sb_generation (dv_blocks d 0) + 1))"
proof -
  let ?m = "dv_size d div 5"
  have m: "2 \<le> ?m" "?m + 1 < dv_size d" using assms(4) by linarith+
  obtain lm d1 where 1: "log_format (0, ?m) d = Ok (lm, d1)" "log_ok (lm, d1) [[]]" "lm_min lm = 0" "same_outside 0 1 d d1"
    "block_valid sb_end (dv_blocks d 0) \<longrightarrow> sb_generation (buf_data (lm_super lm)) = sb_generation (dv_blocks d 0) + 1"
    using log_format_ok [OF assms(1-3), of "(0, ?m)"] m by auto
  let ?b = "\<lparr>buf_data = replicate BLOCK_WORDS (0 :: 64 word), buf_block = ?m\<rparr>"
  let ?cm = "\<lparr>cm_min = ?m, cm_max = dv_size d, cm_super = ?b\<rparr>" and ?d = "bm_write ?b d1"
  note D = log_okD [OF 1(2)]
  have sz: "dv_size d1 = dv_size d" using 1(4) by (simp add: same_outside_def)
  have cm: "ckpt_format (?m, dv_size d) d1 = Ok (?cm, ?d)" using m sz by (simp add: ckpt_format_def bm_get_def)
  let ?S = "\<lparr>ls_dev = ?d, ls_log = lm, ls_ckpt = ?cm, ls_store = Map.empty\<rparr>"
  have op: "open_store True d = Ok ?S"
    using m 1(1) cm by (simp add: open_store_def new_log_def new_checkpoint_def log_range_def ckpt_range_def)
  have "\<forall>n. n \<noteq> ?m \<longrightarrow> dv_blocks ?d n = dv_blocks d1 n" using D(2) by simp
  then have "log_ok (lm, ?d) [[]]"
    using 1(2,3) m D(1,2) bm_write_ok [of d1 ?b] by (simp add: log_ok_def log_on_def blocks_on_def)
  then have h: "log_holds ?S [[]]" using 1(3) m sz D(2) by (simp add: log_holds_def ckpt_loaded_def)
  moreover have "restores ?S Map.empty"
    unfolding restores_def using m sz by (auto intro!: zeros_restored simp: cs_nodeCount_def)
  ultimately have "durable_with ?S [[]] Map.empty" by (simp add: durable_with_def)
  moreover have "block_valid sb_end (dv_blocks d 0) \<longrightarrow> getGeneration (ls_log ?S) = ucast (sb_generation (dv_blocks d 0) + 1)"
    using 1(5) by (simp add: getGeneration_def)
  ultimately show ?thesis using op sz by (intro exI [of _ ?S] exI [of _ "[[]]"] exI [of _ Map.empty]) simp
qed

section \<open>Checkpoints\<close>

definition closed_store :: "store \<Rightarrow> bool" where
  "closed_store m \<longleftrightarrow> finite (dom m) \<and> (\<forall>n e. m n = Some e \<longrightarrow> finite e \<and> e \<subseteq> dom m)"

lemma store_ok_closed: "store_ok m \<Longrightarrow> closed_store m"
  by (fastforce simp: store_ok_def closed_store_def)

text \<open>What restoring the checkpoint of a store gives: nodes for the ends of edges are added.\<close>

definition with_ends :: "store \<Rightarrow> store" where
  "with_ends m = (\<lambda>k. if m k = None \<and> (\<exists>n e. m n = Some e \<and> k \<in> e) then Some {} else m k)"

lemma closed_ends: "closed_store m \<Longrightarrow> with_ends m = m"
  unfolding closed_store_def with_ends_def by (rule ext) (auto dest: subsetD)

lemma node_list_restored:
  assumes "enumerates no" and "enumerates ho" and "finite (dom m)" and "\<And>n e. m n = Some e \<Longrightarrow> finite e"
  shows "distinct (map fst (node_list no ho m))" "restored_from (node_list no ho m) Map.empty = with_ends m"
proof -
  have no: "set (no (dom m)) = dom m" "distinct (no (dom m))" using assms(1,3) by simp_all
  have f: "map fst (node_list no ho m) = no (dom m)" by (simp add: node_list_def o_def)
  then show "distinct (map fst (node_list no ho m))" using no(2) by simp
  have mo: "map_of (node_list no ho m) k = (case m k of None \<Rightarrow> None | Some e \<Rightarrow> Some (ho e))" for k
    using no(1) by (auto simp: node_list_def map_of_map_restrict restrict_map_def split: option.split)
  have h: "set (ho e) = e" if "m n = Some e" for n e using assms(2) assms(4) [OF that] by simp
  have ends: "(\<exists>x\<in>set (node_list no ho m). k \<in> set (snd x)) \<longleftrightarrow> (\<exists>n e. m n = Some e \<and> k \<in> e)" for k
  proof -
    have "(\<exists>x\<in>set (node_list no ho m). k \<in> set (snd x)) \<longleftrightarrow> (\<exists>n\<in>dom m. k \<in> set (ho (case m n of Some e \<Rightarrow> e | None \<Rightarrow> {})))"
      using no(1) by (simp add: node_list_def)
    also have "\<dots> \<longleftrightarrow> (\<exists>n e. m n = Some e \<and> k \<in> set (ho e))"
      unfolding Bex_def by (rule iff_exI) auto
    also have "\<dots> \<longleftrightarrow> (\<exists>n e. m n = Some e \<and> k \<in> e)" using h by blast
    finally show ?thesis .
  qed
  show "restored_from (node_list no ho m) Map.empty = with_ends m"
    unfolding restored_from_def with_ends_def mo ends by (auto simp: fun_eq_iff h split: option.split)
qed

lemma generation_back:
  assumes "w \<noteq> (-1 :: 32 word)"
  shows "(ucast (w + 1) :: 64 word) - 1 = ucast w"
proof -
  have "1 + w \<noteq> 0" using assms by (metis add.commute add_eq_0_iff)
  then have "unat (w + 1) = Suc (unat w)" using unatSuc [of w] by (simp add: add.commute)
  moreover have "unat w < 2 ^ LENGTH(32)" by (rule unsigned_less)
  ultimately have "unat (ucast (w + 1) :: 64 word) = unat (ucast w + 1 :: 64 word)"
    by (simp add: unat_word_ariths unsigned_ucast_eq take_bit_nat_eq_self)
  then have "(ucast (w + 1) :: 64 word) = ucast w + 1" by (simp add: word_unat_eq_iff)
  then show ?thesis by simp
qed

lemma checkpoint_durable:
  assumes S: "durable S" and m: "closed_store (ls_store S)" and o: "enumerates no" "enumerates ho"
    and f: "fits (cm_min (ls_ckpt S) + 1) (cm_max (ls_ckpt S)) (node_words (node_list no ho (ls_store S)))"
    and g: "getGeneration (ls_log S) \<noteq> ucast (- 1 :: 32 word)"
  shows "\<exists>S'. checkpoint no ho S = Ok (SUCCESS, S') \<and> durable S' \<and> ls_store S' = ls_store S \<and>
    read_all (ls_log S', ls_dev S') = Ok [] \<and> getGeneration (ls_log S') = getGeneration (ls_log S) + 1"
proof -
  let ?d = "ls_dev S" and ?lm = "ls_log S" and ?cm = "ls_ckpt S" and ?g = "getGeneration (ls_log S)" and ?m = "ls_store S"
  let ?ns = "node_list no ho ?m"
  obtain bs where h: "log_ok (?lm, ?d) bs" "lm_min ?lm = 0" "length bs < dv_size ?d div 5" "ckpt_loaded ?cm ?d"
    "cm_min ?cm = dv_size ?d div 5" "cm_max ?cm = dv_size ?d"
    using S by (auto simp: durable_def log_holds_def)
  note D = log_okD [OF h(1)]
  note O = log_onD [OF D(3)]
  obtain cm d where p: "performCheckpoint no ho ?g ?m (?cm, ?d) = Ok (SUCCESS, cm, d)" "ckpt_loaded cm d"
    "cm_min cm = cm_min ?cm" "cm_max cm = cm_max ?cm" "writes_in (cm_min ?cm) (cm_max ?cm) ?d d" "hasCheckpoint ?g cm"
    "cs_nodeCount (buf_data (cm_super cm)) = of_nat (length ?ns)" "stored d (cm_min ?cm + 1) (node_words ?ns)"
    using perform_ok [OF D(1,2) O(10) h(4) refl f, of ?g] by blast
  have d: "device_ok d" "dv_power d = None" "dv_size d = dv_size ?d" using p(5) D(1,2) by (auto simp: writes_in_def)
  have two: "1 < dv_size ?d div 5" using h(3) O(9) by linarith
  have sup: "buf_block (lm_super ?lm) = lm_min ?lm" "length (buf_data (lm_super ?lm)) = BLOCK_WORDS"
    using D(1,4) by (simp_all add: device_ok_def)
  have "lm_min ?lm + 1 < dv_size d" using two h(2) d(3) by linarith
  then obtain lm d1 where i: "increaseGeneration (?lm, d) = Ok (lm, d1)" "log_ok (lm, d1) [[]]"
    "sb_generation (buf_data (lm_super lm)) = sb_generation (buf_data (lm_super ?lm)) + 1" "lm_min lm = 0" "same_outside 0 1 d d1"
    using increaseGeneration_ok [OF d(1,2) _ _ sup] O(10) d(3) h(2) by auto
  let ?S = "S\<lparr>ls_ckpt := cm, ls_log := lm, ls_dev := d1\<rparr>"
  have b: "dv_size d1 = dv_size d" "\<And>n. dv_size ?d div 5 \<le> n \<Longrightarrow> dv_blocks d1 n = dv_blocks d n"
    using i(5) two by (auto simp: same_outside_def)
  have holds: "log_holds ?S [[]]"
    using i(2,4) two p(2-4) h(5,6) b d(3) by (simp add: log_holds_def ckpt_loaded_def)
  have "sb_generation (buf_data (lm_super ?lm)) \<noteq> -1" using g by (auto simp: getGeneration_def)
  then have gen: "getGeneration lm - 1 = ?g" using i(3) by (simp add: getGeneration_def generation_back)
  have fin: "finite (dom ?m)" "\<And>n e. ?m n = Some e \<Longrightarrow> finite e" using m by (auto simp: closed_store_def)
  note nl = node_list_restored [OF o fin]
  have "restoreCheckpoint ?g (cm, d) Map.empty = Ok (restored_from ?ns Map.empty)"
    by (rule restore_ok) (use p f nl(1) O(10) d(3) in \<open>auto simp: hasCheckpoint_def\<close>)
  then have "restoreCheckpoint ?g (cm, d1) Map.empty = Ok ?m"
    using restore_cong [OF b, where cm = cm] p(3) h(5) nl(2) closed_ends [OF m] by simp
  then have "restores ?S ?m" by (simp add: restores_def gen)
  then have "durable ?S" unfolding durable_def using holds by (intro exI [of _ "[[]]"] exI [of _ ?m]) simp
  moreover have "checkpoint no ho S = Ok (SUCCESS, ?S)" using p(1) i(1) by (simp add: checkpoint_def)
  moreover have "read_all (lm, d1) = Ok []" using read_all_log [OF i(2)] by simp
  moreover have "getGeneration lm = ?g + 1" using gen by (metis diff_add_cancel)
  ultimately show ?thesis by (intro exI [of _ ?S]) simp
qed

text \<open>
  C14: A checkpoint that fits on the device keeps what is in memory and leaves a durable store with an empty log:
  what is restored is the store as it was, when every edge ends at a node.
\<close>

theorem checkpoint_stays_durable:
  assumes S: "durable S" and m: "closed_store (ls_store S)" and o: "enumerates no" "enumerates ho"
    and f: "fits (cm_min (ls_ckpt S) + 1) (cm_max (ls_ckpt S)) (node_words (node_list no ho (ls_store S)))"
    and g: "getGeneration (ls_log S) \<noteq> ucast (- 1 :: 32 word)"
  shows "\<exists>S'. checkpoint no ho S = Ok (SUCCESS, S') \<and> durable S' \<and> ls_store S' = ls_store S \<and>
    read_all (ls_log S', ls_dev S') = Ok [] \<and> getGeneration (ls_log S') = getGeneration (ls_log S) + 1"
  by (rule checkpoint_durable [OF S m o f g])

section \<open>Histories\<close>

definition change_steps :: "change list \<Rightarrow> logged \<Rightarrow> logged run" where
  "change_steps = run_steps (\<lambda>x S. case durably x S of Die \<Rightarrow> Die | Ok (_, S') \<Rightarrow> Ok S')"

definition memory_steps :: "change list \<Rightarrow> store \<Rightarrow> store run" where
  "memory_steps = run_steps (\<lambda>x m. after_op (in_memory x m))"

lemma changes_durable:
  assumes "durable_with S bs base" and "\<forall>x\<in>set xs. \<not> removes_edge x" and "memory_steps xs (ls_store S) = Ok m"
    and "blocks_for (length (concat bs) + length xs) + 1 < dv_size (ls_dev S) div 5"
  shows "\<exists>S' bs'. change_steps xs S = Ok S' \<and> durable_with S' bs' base \<and> ls_store S' = m \<and> log_room S' \<and>
    getGeneration (ls_log S') = getGeneration (ls_log S) \<and> dv_size (ls_dev S') = dv_size (ls_dev S)"
  using assms
proof (induction xs arbitrary: S bs)
  case Nil
  have h: "log_holds S bs" using Nil.prems(1) by (simp add: durable_with_def)
  then have ch: "chunks_ok bs" by (auto simp: log_holds_def log_ok_def log_on_def blocks_on_def)
  have "log_room S" using chunks_blocks(1) [OF ch] Nil.prems(4) log_room_iff [OF h] by simp
  then show ?case using Nil.prems by (auto simp: change_steps_def memory_steps_def)
next
  case (Cons x xs)
  obtain c m1 where 1: "in_memory x (ls_store S) = Ok (c, m1)" "memory_steps xs m1 = Ok m"
    using Cons.prems(3) by (auto simp: memory_steps_def after_op_def split: run.splits)
  have h: "log_holds S bs" using Cons.prems(1) by (simp add: durable_with_def)
  then have ch: "chunks_ok bs" by (auto simp: log_holds_def log_ok_def log_on_def blocks_on_def)
  have "blocks_for (length (concat bs)) \<le> blocks_for (length (concat bs) + length (x # xs))"
    by (simp add: blocks_for_def div_le_mono)
  then have room: "log_room S"
    using chunks_blocks(1) [OF ch] Cons.prems(4) log_room_iff [OF h] by simp
  have op: "logged_operation (entry_of x) (in_memory x)" using Cons.prems(2) by (simp add: change_logged)
  obtain S1 where S1: "durably x S = Ok (c, S1)"
    using logged_operation.runs [OF op Cons.prems(1) room 1(1)] unfolding durably_eq by blast
  have k: "durable_with S1 (add_chunk bs (entry_of x)) base" "ls_store S1 = m1" "dv_size (ls_dev S1) = dv_size (ls_dev S)"
    using logged_operation.keeps_log [OF op Cons.prems(1) room S1 [unfolded durably_eq]] 1(1) by simp_all
  have g: "getGeneration (ls_log S1) = getGeneration (ls_log S)"
    using S1 logOperation_generation [of "entry_of x" "ls_log S" "ls_dev S"]
    by (auto simp: durably_eq logged_op_def Let_def split: prod.splits if_splits run.splits)
  have "concat (add_chunk bs (entry_of x)) = concat bs @ [entry_of x]"
    using ch by (simp add: concat_add_chunk chunks_ok_def)
  then have "\<exists>S' bs'. change_steps xs S1 = Ok S' \<and> durable_with S' bs' base \<and> ls_store S' = m \<and> log_room S' \<and>
      getGeneration (ls_log S') = getGeneration (ls_log S1) \<and> dv_size (ls_dev S') = dv_size (ls_dev S)"
    using Cons.IH [OF k(1)] Cons.prems(2,4) 1(2) k(2,3) by simp
  then show ?case using S1 g by (auto simp: change_steps_def)
qed

text \<open>
  C10: From formatting on, any history of changes other than the removal of edges that fits in the log and
  that the store in memory survives is carried out as in memory, and opening the device
  again gives the store with exactly these nodes and edges.
\<close>

theorem history_recovered:
  assumes "device_ok d" and "dv_power d = None" and "dv_size d < 2 ^ 32"
    and "\<forall>x\<in>set xs. \<not> removes_edge x" and "blocks_for (length xs) + 1 < dv_size d div 5" and "memory_steps xs Map.empty = Ok m"
  shows "\<exists>S0 S S'. open_store True d = Ok S0 \<and> change_steps xs S0 = Ok S \<and> ls_store S = m \<and>
    open_store False (ls_dev S) = Ok S' \<and> ls_store S' = m"
proof -
  have "10 \<le> dv_size d" using assms(5) by (simp add: blocks_for_def)
  then obtain S0 bs base where 0: "open_store True d = Ok S0" "durable_with S0 bs base" "ls_store S0 = Map.empty"
    "dv_size (ls_dev S0) = dv_size d" "concat bs = []"
    using formatted_is_durable [OF assms(1-3)] by blast
  obtain S bs' where 1: "change_steps xs S0 = Ok S" "durable_with S bs' base" "ls_store S = m"
    using changes_durable [OF 0(2) assms(4), of m] assms(5,6) 0(3-5) by auto
  have "durable S" using 1(2) by (auto simp: durable_iff)
  then obtain S' where "open_store False (ls_dev S) = Ok S'" "ls_store S' = m"
    using reopen_durable 1(3) by blast
  then show ?thesis using 0(1) 1(1,3) by blast
qed

theorem history_recovered_witness:
  "\<exists>S0 S S'. open_store True (blank 50) = Ok S0 \<and>
     change_steps [AddNode 1, AddNode 2, AddEdge 1 2, RemoveNode 1, AddNode 3, AddEdgePart 3 9] S0 = Ok S \<and>
     open_store False (ls_dev S) = Ok S' \<and> ls_store S' = [2 \<mapsto> {}, 3 \<mapsto> {9}]"
proof -
  let ?xs = "[AddNode 1, AddNode 2, AddEdge 1 2, RemoveNode 1, AddNode 3, AddEdgePart 3 9]"
  have "memory_steps ?xs Map.empty = Ok [2 \<mapsto> {}, 3 \<mapsto> {9}]"
    by (simp add: memory_steps_def after_op_def addNode_def addEdge_def removeNode_def addEdgePart_def findNode_def node_addEdge_def fun_eq_iff)
  then show ?thesis
    using history_recovered [of "blank 50" ?xs] by (fastforce simp: removes_edge_def blocks_for_def)
qed

text \<open>A store with two nodes and an edge, for the witnesses.\<close>

lemma sample_store:
  obtains S where "durable S" and "log_room S" and "ls_store S = [1 \<mapsto> {2}, 2 \<mapsto> {1}]" and "getGeneration (ls_log S) = 1"
    and "dv_size (ls_dev S) = 50"
proof -
  let ?xs = "[AddNode 1, AddNode 2, AddEdge 1 2]"
  have m: "memory_steps ?xs Map.empty = Ok [1 \<mapsto> {2}, 2 \<mapsto> {1}]"
    by (simp add: memory_steps_def after_op_def addNode_def addEdge_def findNode_def node_addEdge_def fun_eq_iff)
  have "block_valid sb_end (dv_blocks (blank 50) 0)" "sb_generation (dv_blocks (blank 50) 0) = 0"
    by (simp_all add: zeros_valid sb_generation_def high_half_def)
  then obtain S0 bs base where 0: "durable_with S0 bs base" "ls_store S0 = Map.empty" "dv_size (ls_dev S0) = 50" "concat bs = []"
    "getGeneration (ls_log S0) = 1"
    using formatted_is_durable [of "blank 50"] by auto
  have "\<forall>x\<in>set ?xs. \<not> removes_edge x" by (simp add: removes_edge_def)
  from changes_durable [OF 0(1) this _ ] m 0(2-5)
  obtain S bs' where "durable_with S bs' base" "ls_store S = [1 \<mapsto> {2}, 2 \<mapsto> {1}]" "log_room S" "getGeneration (ls_log S) = 1"
    "dv_size (ls_dev S) = 50"
    by (auto simp: blocks_for_def)
  then show thesis using that [of S] durable_iff by blast
qed

theorem change_stays_durable_witness:
  "\<exists>S S'. ls_store S = [1 \<mapsto> {2}, 2 \<mapsto> {1}] \<and> durably (RemoveNode 1) S = Ok (SUCCESS, S') \<and> durable S' \<and> ls_store S' = [2 \<mapsto> {}]"
proof -
  obtain S where S: "durable S" "log_room S" "ls_store S = [1 \<mapsto> {2}, 2 \<mapsto> {1}]" by (rule sample_store)
  have m: "in_memory (RemoveNode 1) (ls_store S) = Ok (SUCCESS, [2 \<mapsto> {}])"
    by (auto simp: S(3) removeNode_def fun_eq_iff)
  have r: "\<not> removes_edge (RemoveNode 1)" by (simp add: removes_edge_def)
  obtain S' where S': "durably (RemoveNode 1) S = Ok (SUCCESS, S')"
    using logged_operation.runs [OF change_logged [OF r] _ S(2) m] S(1) unfolding durable_iff durably_eq by blast
  show ?thesis using change_stays_durable [OF S(1,2) _ S'] m S(3) S' by (auto simp: removes_edge_def)
qed

text \<open>A checkpoint of the sample fits.\<close>

lemma sample_fits:
  assumes "durable S" and "ls_store S = [1 \<mapsto> {2}, 2 \<mapsto> {1}]" and "getGeneration (ls_log S) = 1" and "dv_size (ls_dev S) = 50"
  shows "closed_store (ls_store S)" "enumerates (sorted_list_of_set :: 64 word set \<Rightarrow> 64 word list)"
    "fits (cm_min (ls_ckpt S) + 1) (cm_max (ls_ckpt S)) (node_words (node_list sorted_list_of_set sorted_list_of_set (ls_store S)))"
    "getGeneration (ls_log S) \<noteq> ucast (- 1 :: 32 word)"
proof -
  have "cm_min (ls_ckpt S) = 10" "cm_max (ls_ckpt S) = 50" using assms(1,4) by (auto simp: durable_def log_holds_def)
  moreover have "length (node_words (node_list sorted_list_of_set sorted_list_of_set (ls_store S))) = 6"
    by (simp add: assms(2) node_list_def insert_commute)
  ultimately show "fits (cm_min (ls_ckpt S) + 1) (cm_max (ls_ckpt S)) (node_words (node_list sorted_list_of_set sorted_list_of_set (ls_store S)))"
    by (simp add: fits_def)
  have "(ucast (- 1 :: 32 word) :: 64 word) = mask 32" by (simp add: unsigned_minus_1_eq_mask)
  then show "getGeneration (ls_log S) \<noteq> ucast (- 1 :: 32 word)" by (simp add: assms(3) mask_eq_decr_exp)
qed (simp_all add: assms closed_store_def enumerates_def)

theorem checkpoint_stays_durable_witness:
  "\<exists>S S'. checkpoint sorted_list_of_set sorted_list_of_set S = Ok (SUCCESS, S') \<and> durable S' \<and> ls_store S' = [1 \<mapsto> {2}, 2 \<mapsto> {1}] \<and>
     read_all (ls_log S', ls_dev S') = Ok []"
proof -
  obtain S where S: "durable S" "log_room S" "ls_store S = [1 \<mapsto> {2}, 2 \<mapsto> {1}]" "getGeneration (ls_log S) = 1" "dv_size (ls_dev S) = 50"
    by (rule sample_store)
  note f = sample_fits [OF S(1,3,4,5)]
  show ?thesis using checkpoint_stays_durable [OF S(1) f(1) f(2) f(2) f(3) f(4)] S(3) by auto
qed

section \<open>What is not durable\<close>

text \<open>
  C18: A removed edge comes back in one direction when the store is opened again: replaying the removal goes on to the
  addition of an edge part. The recovered store is not symmetric and asking it for the edge ends the process.
\<close>

theorem removed_edge_returns:
  assumes "durable S" and "log_room S" and "has_edge (ls_store S) a b" and "ls_removeEdge a b S = Ok (SUCCESS, S')"
  shows "\<exists>S''. open_store False (ls_dev S') = Ok S'' \<and> \<not> has_edge (ls_store S') a b \<and>
    has_edge (ls_store S'') a b \<and> \<not> has_edge (ls_store S'') b a \<and> ls_getEdge a b S'' = Die"
proof -
  let ?e = "\<lparr>en_opcode = REMOVE_EDGE, en_idA = a, en_idB = b\<rparr>"
  obtain bs base where b: "log_holds S bs" "restores S base" "run_steps recover_entry (concat bs) base = Ok (ls_store S)"
    using assms(1) by (auto simp: durable_def)
  obtain lm d where l: "logOperation ?e (ls_log S, ls_dev S) = (SUCCESS, lm, d)"
    "log_holds (S\<lparr>ls_log := lm, ls_dev := d\<rparr>) (add_chunk bs ?e)" "restores (S\<lparr>ls_log := lm, ls_dev := d\<rparr>) base"
    using logged_append [OF b(1,2) _ assms(2), of ?e] by (auto simp: named_op_def)
  obtain m where m: "removeEdge a b (ls_store S) = Ok (SUCCESS, m)" "S' = S\<lparr>ls_log := lm, ls_dev := d, ls_store := m\<rparr>"
    using assms(4) l(1) by (auto simp: ls_removeEdge_def logged_op_def Let_def split: run.splits)
  obtain ea eb where e: "a \<noteq> b" "ls_store S a = Some ea" "ls_store S b = Some eb" "b \<in> ea" "a \<in> eb"
      "m = (ls_store S)(a \<mapsto> ea - {b}, b \<mapsto> eb - {a})"
    using m(1) assms(3) by (auto simp: removeEdge_def getEdge_def findNode_def node_hasEdge_def node_removeEdge_def has_edge_def
        split: if_splits option.splits)
  let ?m = "m(a \<mapsto> insert b (ea - {b}))"
  have "bs \<noteq> []" using b(1) by (auto simp: log_holds_def log_ok_def log_on_def blocks_on_def chunks_ok_def)
  moreover have "recover_entry ?e (ls_store S) = Ok ?m"
    using m(1) e(1,6) by (simp add: recover_entry_def addEdgePart_def findNode_def node_addEdge_def)
  ultimately have "run_steps recover_entry (concat (add_chunk bs ?e)) base = Ok ?m"
    using b(3) by (simp add: concat_add_chunk run_steps_append)
  then obtain lm' where "open_store False d = Ok (S\<lparr>ls_dev := d, ls_log := lm', ls_store := ?m\<rparr>)"
    using recover_durable [OF l(2,3)] by auto
  moreover have "\<not> has_edge m a b" "has_edge ?m a b" "\<not> has_edge ?m b a" "getEdge a b ?m = Die"
    using e by (auto simp: has_edge_def getEdge_def findNode_def node_hasEdge_def)
  ultimately show ?thesis by (auto simp: m(2) ls_getEdge_def)
qed

theorem removed_edge_returns_witness:
  "\<exists>S S' S''. ls_removeEdge 1 2 S = Ok (SUCCESS, S') \<and> \<not> has_edge (ls_store S') 1 2 \<and>
     open_store False (ls_dev S') = Ok S'' \<and> has_edge (ls_store S'') 1 2 \<and> ls_getEdge 1 2 S'' = Die"
proof -
  let ?e = "\<lparr>en_opcode = REMOVE_EDGE, en_idA = 1, en_idB = 2\<rparr>"
  obtain S where S: "durable S" "log_room S" "ls_store S = [1 \<mapsto> {2}, 2 \<mapsto> {1}]" by (rule sample_store)
  obtain bs base where "log_holds S bs" "restores S base" using S(1) by (auto simp: durable_def)
  then obtain lm d where "logOperation ?e (ls_log S, ls_dev S) = (SUCCESS, lm, d)"
    using logged_append [OF _ _ _ S(2), of bs base ?e] by (auto simp: named_op_def)
  then obtain S' where S': "ls_removeEdge 1 2 S = Ok (SUCCESS, S')"
    by (auto simp: ls_removeEdge_def logged_op_def S(3) removeEdge_def getEdge_def findNode_def node_hasEdge_def node_removeEdge_def)
  have "has_edge (ls_store S) 1 2" by (simp add: S(3) has_edge_def)
  then show ?thesis using removed_edge_returns [OF S(1,2) _ S'] S' by blast
qed

text \<open>A device that takes no more writes is not changed by a checkpoint.\<close>

lemma write_words_dead: "write_words ws (w, failing 0 d) = Ok (b, w', d') \<Longrightarrow> d' = failing 0 d"
proof (induction ws arbitrary: w)
  case (Cons x xs)
  have "d1 = failing 0 d" if "writeUint64 x (w, failing 0 d) = Ok (c, w1, d1)" for c w1 d1
    using that by (auto simp: writeUint64_def w_next_def Let_def split: if_splits run.splits sum.splits)
  then show ?case using Cons by (auto split: run.splits bool.splits)
qed simp

text \<open>
  C19: A crash in a checkpoint, after its superblock was written, loses everything the checkpoint before had: the generation
  on the superblock is not the one that is asked for any more, and nothing is restored.
\<close>

theorem checkpoint_crash_loses:
  assumes "durable S" and "read_all (ls_log S, ls_dev S) = Ok []"
    and "checkpoint no ho (S\<lparr>ls_dev := failing 1 (ls_dev S)\<rparr>) = Ok (c, S1)"
  shows "\<exists>S2. open_store False (restarted (ls_dev S1)) = Ok S2 \<and> ls_store S2 = Map.empty"
proof -
  let ?d = "ls_dev S" and ?cm = "ls_ckpt S" and ?g = "getGeneration (ls_log S)"
  obtain bs where h: "log_holds S bs" using assms(1) by (auto simp: durable_def)
  then have hd: "log_ok (ls_log S, ?d) bs" "lm_min (ls_log S) = 0" "length bs < dv_size ?d div 5" "ckpt_loaded ?cm ?d"
    "cm_min ?cm = dv_size ?d div 5" "cm_max ?cm = dv_size ?d"
    by (auto simp: log_holds_def)
  note D = log_okD [OF hd(1)]
  have es: "concat bs = []" using assms(2) read_all_log [OF hd(1)] by simp
  let ?n = "node_list no ho (ls_store S)"
  let ?b = "(set_checkpointed False ((buf_data (cm_super ?cm))[1 := ?g]))[2 := of_nat (length ?n)]"
  let ?sb = "\<lparr>buf_data = ?b, buf_block = cm_min ?cm\<rparr>"
  let ?D = "bm_write ?sb ?d"
  have len: "length (buf_data (cm_super ?cm)) = 512" "buf_block (cm_super ?cm) = cm_min ?cm"
    using hd(4) D(1) by (auto simp: ckpt_loaded_def device_ok_def)
  have sb: "(cm_super ?cm)\<lparr>buf_data := ?b\<rparr> = ?sb" using len(2) by (cases "cm_super ?cm") simp
  have one: "bm_write ?sb (failing 1 ?d) = failing 0 ?D" using D(2) by (simp add: failing_simps(5) [of ?d ?sb 0, simplified])
  obtain c1 cm1 d1 where p: "performCheckpoint no ho ?g (ls_store S) (?cm, failing 1 ?d) = Ok (c1, cm1, d1)"
    "ls_dev S1 = (if c1 \<noteq> SUCCESS then d1 else ls_dev S1)"
    "c1 = SUCCESS \<Longrightarrow> \<exists>lm d2. increaseGeneration (ls_log S, d1) = Ok (lm, d2) \<and> ls_dev S1 = d2"
    using assms(3) by (auto simp: checkpoint_def split: run.splits if_splits)
  have nw: "d' = failing 0 ?D" if "new_writer a e (failing 0 ?D) = Ok (w, d')" for a e w d'
    using that by (auto simp: new_writer_def w_next_def Let_def split: sum.splits)
  have "d1 = failing 0 ?D"
    using p(1) by (auto simp: performCheckpoint_def Let_def sb one simp del: One_nat_def split: run.splits bool.splits dest!: nw write_words_dead)
  moreover have "d' = failing 0 ?D" if "increaseGeneration (lm, failing 0 ?D) = Ok (lm', d')" for lm lm' d'
    using that by (auto simp: increaseGeneration_def Let_def split: sum.splits)
  ultimately have "ls_dev S1 = failing 0 ?D" using p(2,3) by (cases "c1 = SUCCESS") auto
  then have r: "restarted (ls_dev S1) = ?D" using D(2) by simp
  let ?S = "S\<lparr>ls_dev := ?D, ls_ckpt := ?cm\<lparr>cm_super := ?sb\<rparr>\<rparr>"
  have "length ?b = BLOCK_WORDS" using len(1) by (simp add: set_checkpointed_def)
  then have holds: "log_holds ?S bs"
    using hd D bm_write_ok [OF D(1), of ?sb] by (auto simp: log_holds_def log_ok_def log_on_def blocks_on_def ckpt_loaded_def)
  have "cs_version ?b = ?g" using len(1) by (simp add: cs_version_def set_checkpointed_def)
  then have "restores ?S Map.empty" by (simp add: restores_def restoreCheckpoint_def)
  then show ?thesis using recover_durable [OF holds, of Map.empty Map.empty] es r by auto
qed

lemma write_words_dead_runs:
  "w_end w \<le> dv_size d \<Longrightarrow> \<exists>b w'. write_words ws (w, failing 0 d) = Ok (b, w', failing 0 d)"
proof (induction ws arbitrary: w)
  case (Cons x xs)
  have "\<exists>b w1. writeUint64 x (w, failing 0 d) = Ok (b, w1, failing 0 d) \<and> w_end w1 = w_end w"
    using Cons.prems by (simp add: writeUint64_def w_next_def bm_get_def put_word_def Let_def) blast
  then obtain b w1 where 1: "writeUint64 x (w, failing 0 d) = Ok (b, w1, failing 0 d)" "w_end w1 = w_end w" by blast
  then show ?case using Cons by (cases b) auto
qed auto

lemma crash_runs:
  assumes "durable S"
  shows "\<exists>c S1. checkpoint no ho (S\<lparr>ls_dev := failing 1 (ls_dev S)\<rparr>) = Ok (c, S1)"
proof -
  let ?d = "ls_dev S" and ?cm = "ls_ckpt S" and ?lm = "ls_log S"
  obtain bs where h: "log_ok (?lm, ?d) bs" "lm_min ?lm = 0" "length bs < dv_size ?d div 5" "ckpt_loaded ?cm ?d"
    "cm_min ?cm = dv_size ?d div 5" "cm_max ?cm = dv_size ?d"
    using assms by (auto simp: durable_def log_holds_def)
  note D = log_okD [OF h(1)]
  have sz: "cm_min ?cm + 1 < dv_size ?d" "1 < dv_size ?d" using h(4,6) by (auto simp: ckpt_loaded_def)
  have one: "bm_write b (failing 1 ?d) = failing 0 (bm_write b ?d)" for b
    using D(2) failing_simps(5) [of ?d b 0] by simp
  obtain c cm D' where p: "performCheckpoint no ho (getGeneration ?lm) (ls_store S) (?cm, failing 1 ?d) = Ok (c, cm, failing 0 D')"
    "dv_size D' = dv_size ?d"
  proof -
    define sb where "sb = (cm_super ?cm)\<lparr>buf_data := (set_checkpointed False ((buf_data (cm_super ?cm))[1 := getGeneration ?lm]))
        [2 := of_nat (length (node_list no ho (ls_store S)))]\<rparr>"
    let ?D = "bm_write sb ?d"
    obtain w where w: "new_writer (cm_min ?cm + 1) (cm_max ?cm) (failing 0 ?D) = Ok (w, failing 0 ?D)" "w_end w = cm_max ?cm"
      using sz by (simp add: new_writer_def w_next_def bm_get_def)
    obtain b w' where "write_words (node_words (node_list no ho (ls_store S))) (w, failing 0 ?D) = Ok (b, w', failing 0 ?D)"
      using write_words_dead_runs [of w ?D "node_words (node_list no ho (ls_store S))"] w(2) h(6) by auto
    then show thesis using that [of _ _ ?D] w(1) one [of sb]
      by (cases b) (simp_all add: performCheckpoint_def Let_def sb_def del: One_nat_def)
  qed
  have "length (buf_data (lm_super ?lm)) = 512" using D(1,4) by (simp add: device_ok_def)
  then have "\<exists>r. increaseGeneration (?lm, failing 0 D') = Ok r"
    using h(2) p(2) sz by (simp add: increaseGeneration_def Let_def on_data_def bm_get_def set_size_def set_start_def set_generation_def sb_start_def)
  then show ?thesis using p(1) by (cases "c = SUCCESS") (auto simp: checkpoint_def)
qed

theorem checkpoint_crash_loses_witness:
  "\<exists>S c S1 S2. ls_store S = [1 \<mapsto> {2}, 2 \<mapsto> {1}] \<and> durable S \<and>
     checkpoint sorted_list_of_set sorted_list_of_set (S\<lparr>ls_dev := failing 1 (ls_dev S)\<rparr>) = Ok (c, S1) \<and>
     open_store False (restarted (ls_dev S1)) = Ok S2 \<and> ls_store S2 = Map.empty"
proof -
  obtain S where S: "durable S" "log_room S" "ls_store S = [1 \<mapsto> {2}, 2 \<mapsto> {1}]" "getGeneration (ls_log S) = 1" "dv_size (ls_dev S) = 50"
    by (rule sample_store)
  note f = sample_fits [OF S(1,3,4,5)]
  obtain S' where S': "durable S'" "ls_store S' = [1 \<mapsto> {2}, 2 \<mapsto> {1}]" "read_all (ls_log S', ls_dev S') = Ok []"
    using checkpoint_durable [OF S(1) f(1) f(2) f(2) f(3) f(4)] S(3) by auto
  obtain c S1 where c: "checkpoint sorted_list_of_set sorted_list_of_set (S'\<lparr>ls_dev := failing 1 (ls_dev S')\<rparr>) = Ok (c, S1)"
    using crash_runs [OF S'(1)] by blast
  show ?thesis using checkpoint_crash_loses [OF S'(1,3) c] S'(1,2) c by blast
qed

text \<open>
  C20: Nothing stops the log at the end of its fifth of the device: when that is full, the next operation succeeds and
  writes its entry over the superblock of the checkpoint.
\<close>

theorem log_overruns_checkpoint:
  assumes "log_holds S bs" and "length bs + 1 = dv_size (ls_dev S) div 5" and "length (last bs) = LOG_BLOCK_ENTRY_COUNT"
    and "named_op e" and "f (ls_store S) = Ok (c, m)"
  shows "\<exists>S'. logged_op e f S = Ok (c, S') \<and> block_has (dv_blocks (ls_dev S') (cm_min (ls_ckpt S))) [e]"
proof -
  have h: "log_ok (ls_log S, ls_dev S) bs" "lm_min (ls_log S) = 0" "cm_min (ls_ckpt S) = length bs + 1"
    using assms(1,2) by (auto simp: log_holds_def)
  have "length bs + 1 < dv_size (ls_dev S)" using assms(2) by linarith
  then obtain lm d where l: "logOperation e (ls_log S, ls_dev S) = (SUCCESS, lm, d)" "log_ok (lm, d) (bs @ [[e]])" "lm_min lm = 0"
    using logOperation_ok [OF h(1) assms(4)] h(2) assms(3) by (auto simp: add_chunk_def)
  have "block_has (dv_blocks d (0 + 1 + length bs)) ((bs @ [[e]]) ! length bs)"
    using log_onD(7) [OF log_okD(3) [OF l(2)], of "length bs"] l(3) by simp
  then show ?thesis using l(1) assms(5) h(3) by (simp add: logged_op_def)
qed

theorem log_overruns_checkpoint_witness:
  "\<exists>S S'. cm_min (ls_ckpt S) = 2 \<and> ls_addNode 5 S = Ok (SUCCESS, S') \<and>
     block_has (dv_blocks (ls_dev S') 2) [\<lparr>en_opcode = ADD_NODE, en_idA = 5, en_idB = 0\<rparr>]"
proof -
  let ?e = "\<lparr>en_opcode = ADD_NODE, en_idA = 5, en_idB = 0\<rparr>" and ?es = "replicate 169 \<lparr>en_opcode = ADD_NODE, en_idA = 1, en_idB = 0\<rparr>"
  obtain S0 bs0 where 0: "log_holds S0 bs0" "ls_store S0 = Map.empty" "dv_size (ls_dev S0) = 10" "concat bs0 = []"
    using formatted_is_durable [of "blank 10"] by (auto simp: durable_with_def)
  have h: "log_ok (ls_log S0, ls_dev S0) bs0" "lm_min (ls_log S0) = 0" "cm_min (ls_ckpt S0) = 2" "cm_max (ls_ckpt S0) = 10"
    "ckpt_loaded (ls_ckpt S0) (ls_dev S0)"
    using 0 by (auto simp: log_holds_def)
  obtain lm d bs where 1: "log_ok (lm, d) bs" "concat bs = ?es" "lm_min lm = 0" "same_outside 0 1 (ls_dev S0) d"
    using log_all_ok [OF h(1), of ?es] 0(3,4) h(2) by (auto simp: named_op_def blocks_for_def)
  have ch: "chunks_ok bs" using 1(1) by (auto simp: log_ok_def log_on_def blocks_on_def)
  have len: "length bs = 1" using chunks_blocks(1) [OF ch] 1(2) by (simp add: blocks_for_def)
  then have bs: "bs = [?es]" using 1(2) by (cases bs) auto
  let ?S = "S0\<lparr>ls_log := lm, ls_dev := d\<rparr>"
  have "log_holds ?S bs" using 1(1,3,4) h(3-5) 0(3) len by (simp add: log_holds_def ckpt_loaded_def same_outside_def)
  then obtain S' where "logged_op ?e (\<lambda>m. Ok (addNode 5 m)) ?S = Ok (SUCCESS, S')" "block_has (dv_blocks (ls_dev S') 2) [?e]"
    using log_overruns_checkpoint [of ?S bs ?e "\<lambda>m. Ok (addNode 5 m)" SUCCESS "[5 \<mapsto> {}]"] 0(2,3) 1(4) h(3) len bs
    by (auto simp: same_outside_def named_op_def addNode_def)
  then show ?thesis using h(3) by (intro exI [of _ ?S] exI [of _ S']) (simp add: ls_addNode_def)
qed

section \<open>Well-formedness\<close>

definition half_edge :: "change \<Rightarrow> bool" where
  "half_edge x \<longleftrightarrow> (case x of AddEdgePart _ _ \<Rightarrow> True | RemoveEdgePart _ _ \<Rightarrow> True | _ \<Rightarrow> False)"

lemma change_well_formed:
  assumes "store_ok m" and "\<not> half_edge x"
  shows "\<exists>m'. after_op (in_memory x m) = Ok m' \<and> store_ok m'"
proof (cases x)
  case (AddNode n)
  then show ?thesis using addNode_ok [OF assms(1), of n] by (cases "addNode n m") (simp add: after_op_def)
next
  case (RemoveNode n)
  then show ?thesis using removeNode_effect [OF assms(1), of n] by (auto simp: after_op_def)
next
  case (AddEdge a b)
  then show ?thesis using addEdge_effect [OF assms(1), of a b] by (auto simp: after_op_def)
next
  case (RemoveEdge a b)
  then show ?thesis using removeEdge_effect [OF assms(1), of a b] by (auto simp: after_op_def)
qed (use assms(2) in \<open>simp_all add: half_edge_def\<close>)

lemma changes_well_formed:
  "store_ok m \<Longrightarrow> \<forall>x\<in>set xs. \<not> half_edge x \<Longrightarrow> \<exists>m'. memory_steps xs m = Ok m' \<and> store_ok m'"
proof (induction xs arbitrary: m)
  case (Cons x xs)
  obtain m1 where "after_op (in_memory x m) = Ok m1" "store_ok m1"
    using change_well_formed [of m x] Cons.prems by auto
  then show ?case using Cons.IH [of m1] Cons.prems(2) by (simp add: memory_steps_def)
qed (simp add: memory_steps_def)

text \<open>
  C17: Any sequence of additions and removals of nodes and edges runs without ending the process, and leaves a graph: edges
  are symmetric, between different existing nodes, and finitely many.
\<close>

theorem changes_keep_graph:
  assumes "store_ok m" and "\<forall>x\<in>set xs. \<not> half_edge x"
  shows "\<exists>m'. memory_steps xs m = Ok m' \<and> store_ok m'"
  by (rule changes_well_formed [OF assms])

theorem changes_keep_graph_witness:
  "\<exists>m'. memory_steps [AddNode 1, AddEdge 1 2, AddNode 2, AddEdge 1 2, RemoveNode 1, RemoveEdge 1 2] Map.empty = Ok m' \<and> store_ok m'"
  by (rule changes_keep_graph) (simp_all add: store_ok_def half_edge_def)

end
