(* ===== verification/ClusterProps.thy ===== *)
theory ClusterProps
  imports Cluster DurableProps
begin

text \<open>
  Properties of requests in a cluster: a chain stays in step and answers as one server does, the
  partitions together are one store, and what goes wrong when a server of either kind is not where the
  others expect it to be.
\<close>

section \<open>The chain\<close>

definition in_step :: "world \<Rightarrow> bool" where
  "in_step W \<longleftrightarrow> store_ok (wd_store W) \<and> (\<forall>s\<in>set (wd_chain W). s = wd_store W)"

definition accepted :: "reply \<Rightarrow> bool" where
  "accepted r \<longleftrightarrow> (\<forall>c. r \<noteq> Failed c)"

text \<open>What replication asks of an operation: on a good store it answers, and changes it on success only.\<close>

locale replicated =
  fixes op :: "store \<Rightarrow> (code \<times> store) run"
  assumes answers: "store_ok m \<Longrightarrow> \<exists>c m'. op m = Ok (c, m') \<and> store_ok m' \<and> (c \<noteq> SUCCESS \<longrightarrow> m' = m)"
begin

lemma down:
  "store_ok m \<Longrightarrow> op m = Ok (c, m') \<Longrightarrow>
    replicate_down op (replicate k m) = Ok (c = SUCCESS \<or> k = 0, replicate k m')"
  using answers [of m] by (induction k) auto

lemma commit_head:
  assumes "in_step W" and "ht_repl h = Some HEAD"
  shows "\<exists>c m k. store_ok m \<and>
    commit h op f ok W =
      Ok (if c = SUCCESS then ok else if k = (0::nat) then Failed (f c) else Failed 500,
          W\<lparr>wd_store := m, wd_chain := replicate k m\<rparr>) \<and>
    commit (h\<lparr>ht_repl := None\<rparr>) op f ok W = Ok (if c = SUCCESS then ok else Failed (f c), W\<lparr>wd_store := m\<rparr>)"
proof -
  have W: "store_ok (wd_store W)" using assms(1) by (simp add: in_step_def)
  obtain c m where c: "op (wd_store W) = Ok (c, m)" "store_ok m" "c \<noteq> SUCCESS \<longrightarrow> m = wd_store W"
    using answers [OF W] by blast
  let ?k = "length (wd_chain W)"
  have ch: "wd_chain W = replicate ?k (wd_store W)"
    using assms(1) by (simp add: in_step_def replicate_length_same)
  have d: "replicate_down op (wd_chain W) = Ok (c = SUCCESS \<or> ?k = 0, replicate ?k m)"
    using down [OF _ c(1), of ?k] assms(1) ch by (simp add: in_step_def)
  have "not_replicated h op W = Ok (\<not> (c = SUCCESS \<or> ?k = 0), W\<lparr>wd_chain := replicate ?k m\<rparr>)"
    using d assms(2) by (simp add: not_replicated_def writesAllowed_def)
  then have "commit h op f ok W = Ok (if c = SUCCESS then ok else if ?k = 0 then Failed (f c) else Failed 500,
      W\<lparr>wd_store := m, wd_chain := replicate ?k m\<rparr>)"
    using c by (cases "c = SUCCESS"; cases "?k = 0") (auto simp: commit_def)
  moreover have "commit (h\<lparr>ht_repl := None\<rparr>) op f ok W = Ok (if c = SUCCESS then ok else Failed (f c), W\<lparr>wd_store := m\<rparr>)"
    using c by (simp add: commit_def not_replicated_def)
  ultimately show ?thesis using c(2) by blast
qed

lemma commit_in_step:
  assumes "in_step W" and "ht_repl h = Some HEAD" and "accepted ok"
  shows "\<exists>r W' r1 W1. commit h op f ok W = Ok (r, W') \<and> commit (h\<lparr>ht_repl := None\<rparr>) op f ok W = Ok (r1, W1) \<and>
    in_step W' \<and> wd_store W' = wd_store W1 \<and> (accepted r \<longleftrightarrow> accepted r1) \<and> (accepted r \<longrightarrow> r = r1)"
proof -
  obtain c m k where c: "store_ok m"
    "commit h op f ok W = Ok (if c = SUCCESS then ok else if k = (0::nat) then Failed (f c) else Failed 500,
       W\<lparr>wd_store := m, wd_chain := replicate k m\<rparr>)"
    "commit (h\<lparr>ht_repl := None\<rparr>) op f ok W = Ok (if c = SUCCESS then ok else Failed (f c), W\<lparr>wd_store := m\<rparr>)"
    using commit_head [OF assms(1,2)] by blast
  then show ?thesis using assms(3) by (simp add: in_step_def accepted_def)
qed

end

lemma addEdge_fails_same:
  assumes "addEdge a b m = Ok (c, m')" and "c \<noteq> SUCCESS"
  shows "m' = m"
proof (cases "a = b \<or> m a = None \<or> m b = None")
  case True
  then show ?thesis using assms by (auto simp: addEdge_def findNode_def split: option.splits if_splits sum.splits)
next
  case False
  then obtain ea eb where e: "m a = Some ea" "m b = Some eb" "a \<noteq> b" by auto
  then have "b \<in> ea" "a \<in> eb" "m' = m(a \<mapsto> insert b ea, b \<mapsto> insert a eb)"
    using assms by (auto simp: addEdge_def findNode_def node_addEdge_def Let_def split: if_splits)
  then show ?thesis using e by (auto simp: fun_eq_iff insert_absorb)
qed

lemma removeEdge_fails_same: "removeEdge a b m = Ok (c, m') \<Longrightarrow> c \<noteq> SUCCESS \<Longrightarrow> m' = m"
  by (auto simp: removeEdge_def getEdge_def findNode_def node_hasEdge_def node_removeEdge_def Let_def
      split: if_splits option.splits)

lemma removeNode_fails_same: "removeNode n m = Ok (c, m') \<Longrightarrow> c \<noteq> SUCCESS \<Longrightarrow> m' = m"
  by (auto simp: removeNode_def split: option.splits if_splits)

lemma addNode_fails_same: "addNode n m = (c, m') \<Longrightarrow> c \<noteq> SUCCESS \<Longrightarrow> m' = m"
  by (auto simp: addNode_def split: if_splits)

interpretation rep_add_node: replicated "add_node_run n" for n
proof
  fix m :: store assume "store_ok m"
  then show "\<exists>c m'. add_node_run n m = Ok (c, m') \<and> store_ok m' \<and> (c \<noteq> SUCCESS \<longrightarrow> m' = m)"
    using addNode_ok addNode_fails_same by (cases "addNode n m") (auto simp: add_node_run_def)
qed

interpretation rep_remove_node: replicated "removeNode n" for n
proof
  fix m :: store assume "store_ok m"
  then obtain c m' where c: "removeNode n m = Ok (c, m')" "store_ok m'" using removeNode_effect by fast
  show "\<exists>c m'. removeNode n m = Ok (c, m') \<and> store_ok m' \<and> (c \<noteq> SUCCESS \<longrightarrow> m' = m)"
    using c removeNode_fails_same [OF c(1)] by (intro exI [of _ c] exI [of _ m']) simp
qed

interpretation rep_add_edge: replicated "addEdge a b" for a b
proof
  fix m :: store assume "store_ok m"
  then obtain c m' where c: "addEdge a b m = Ok (c, m')" "store_ok m'" using addEdge_effect by fast
  show "\<exists>c m'. addEdge a b m = Ok (c, m') \<and> store_ok m' \<and> (c \<noteq> SUCCESS \<longrightarrow> m' = m)"
    using c addEdge_fails_same [OF c(1)] by (intro exI [of _ c] exI [of _ m']) simp
qed

interpretation rep_remove_edge: replicated "removeEdge a b" for a b
proof
  fix m :: store assume "store_ok m"
  then obtain c m' where c: "removeEdge a b m = Ok (c, m')" "store_ok m'" using removeEdge_effect by fast
  show "\<exists>c m'. removeEdge a b m = Ok (c, m') \<and> store_ok m' \<and> (c \<noteq> SUCCESS \<longrightarrow> m' = m)"
    using c removeEdge_fails_same [OF c(1)] by (intro exI [of _ c] exI [of _ m']) simp
qed

text \<open>Refused before anything is done, the same with and without replicas.\<close>

definition same_answer :: "http \<Rightarrow> (http \<Rightarrow> (reply \<times> world) run) \<Rightarrow> bool" where
  "same_answer h ask \<longleftrightarrow> (\<exists>r W' r1 W1. ask h = Ok (r, W') \<and> ask (h\<lparr>ht_repl := None\<rparr>) = Ok (r1, W1) \<and>
     in_step W' \<and> wd_store W' = wd_store W1 \<and> (accepted r \<longleftrightarrow> accepted r1) \<and> (accepted r \<longrightarrow> r = r1))"

lemma same_refused: "in_step W \<Longrightarrow> same_answer h (\<lambda>h. Ok (r, W))"
  by (simp add: same_answer_def)

lemma same_if: "(b \<Longrightarrow> same_answer h f) \<Longrightarrow> (\<not> b \<Longrightarrow> same_answer h g) \<Longrightarrow> same_answer h (\<lambda>h. if b then f h else g h)"
  by (cases b) simp_all

text \<open>Requests for an edge with one node at this partition and one at another.\<close>

definition edge_of :: "request \<Rightarrow> (node_id \<times> node_id) option" where
  "edge_of q = (case q of PostAddEdge e \<Rightarrow> e | PostRemoveEdge e \<Rightarrow> e | _ \<Rightarrow> None)"

definition crosses :: "http \<Rightarrow> request \<Rightarrow> bool" where
  "crosses h q = (case edge_of q of None \<Rightarrow> False | Some (a, b) \<Rightarrow> foreign h a \<noteq> foreign h b)"

definition has_parts :: "http \<Rightarrow> bool" where
  "has_parts h \<longleftrightarrow> (ht_partman h \<longrightarrow> pc_partitions (ht_config h) \<noteq> [])"

lemma foreign_alone [simp]:
  "foreign (h\<lparr>ht_repl := t\<rparr>) n = foreign h n" "partitioned (h\<lparr>ht_repl := t\<rparr>) a b = partitioned h a b"
proof -
  show f: "foreign (h\<lparr>ht_repl := t\<rparr>) n = foreign h n" for n by (auto simp: foreign_def split: run.split)
  show "partitioned (h\<lparr>ht_repl := t\<rparr>) a b = partitioned h a b" unfolding partitioned_def f ..
qed

lemma foreign_answers:
  "has_parts h \<Longrightarrow> foreign h n =
    Ok (ht_partman h \<and> unat n mod length (pc_partitions (ht_config h)) \<noteq> pc_us (ht_config h))"
  by (auto simp: foreign_def target_def has_parts_def)

text \<open>Both nodes are ours, or both are not and the edge is refused.\<close>

lemma not_crossing:
  assumes "has_parts h" and "foreign h a = foreign h b"
  shows "partitioned h a b = Ok False \<or> partitioned h a b = Ok True \<and> part_of_edge (ht_config h) a b = Ok (Inl WRONG_PARTITION)"
proof (cases "foreign h a = Ok True")
  case True
  then have "ht_partman h" "pc_partitions (ht_config h) \<noteq> []"
    "unat a mod length (pc_partitions (ht_config h)) \<noteq> pc_us (ht_config h)"
    "unat b mod length (pc_partitions (ht_config h)) \<noteq> pc_us (ht_config h)"
    using assms by (simp_all add: foreign_answers) (simp add: has_parts_def)
  then show ?thesis using True by (simp add: partitioned_def part_of_edge_def target_def)
next
  case False
  then have "foreign h a = Ok False" "foreign h b = Ok False" using assms by (simp_all add: foreign_answers)
  then show ?thesis by (simp add: partitioned_def)
qed

lemma handle_same:
  assumes W: "in_step W" and h: "ht_repl h = Some HEAD" "has_parts h" "\<not> crosses h q"
  shows "same_answer h (\<lambda>h. handle h q W)"
proof -
  note refused = same_refused [OF W, of h "Failed 400", unfolded same_answer_def]
  note C = rep_add_node.commit_in_step [OF W h(1)] rep_remove_node.commit_in_step [OF W h(1)]
    rep_add_edge.commit_in_step [OF W h(1)] rep_remove_edge.commit_in_step [OF W h(1)]
  have ok: "accepted (NodeReply n)" "accepted (EdgeReply a b)" for n a b by (simp_all add: accepted_def)
  have E: "partitioned h a b = Ok False \<or> partitioned h a b = Ok True \<and> part_of_edge (ht_config h) a b = Ok (Inl WRONG_PARTITION)"
    if "edge_of q = Some (a, b)" for a b
    using not_crossing [OF h(2)] h(3) that by (auto simp: crosses_def)
  show ?thesis
  proof (cases q)
    case (PostAddNode n)
    show ?thesis
    proof (cases n)
      case (Some m)
      obtain x where "foreign h m = Ok x" using foreign_answers [OF h(2), of m] by simp
      then show ?thesis unfolding same_answer_def using PostAddNode Some refused C(1) [OF ok(1)]
        by (cases x) (simp_all add: add_node_def)
    qed (use PostAddNode refused in \<open>simp add: same_answer_def add_node_def\<close>)
  next
    case (PostRemoveNode n)
    then show ?thesis unfolding same_answer_def using refused C(2) [OF ok(1)]
      by (cases n) (simp_all add: remove_node_def)
  next
    case (PostAddEdge n)
    then show ?thesis unfolding same_answer_def using E refused C(3) [OF ok(2)]
      by (cases n) (auto simp: add_edge_def on_edge_def edge_of_def add_edge_partition_def)
  next
    case (PostRemoveEdge n)
    then show ?thesis unfolding same_answer_def using E refused C(4) [OF ok(2)]
      by (cases n) (auto simp: remove_edge_def on_edge_def edge_of_def remove_edge_partition_def)
  qed
qed

text \<open>
  C12: A chain in step stays in step whatever its head is asked, except for an edge between two
  partitions, and the head accepts what one server without replicas would accept, with the same answer and the
  same store. This holds without a partition manager and with one that has partitions (as \<open>main.cc\<close>
  always passes; without partitions it ends the server, see \<open>no_partitions_kill\<close>); edges between
  partitions go to no replica, see \<open>partitioned_edge_not_replicated\<close>.
\<close>

theorem chain_stays_in_step:
  assumes "in_step W" and "ht_repl h = Some HEAD" and "has_parts h" and "\<not> crosses h q"
  shows "\<exists>r W' r1 W1. handle h q W = Ok (r, W') \<and> handle (h\<lparr>ht_repl := None\<rparr>) q W = Ok (r1, W1) \<and>
    in_step W' \<and> wd_store W' = wd_store W1 \<and> (accepted r \<longleftrightarrow> accepted r1) \<and> (accepted r \<longrightarrow> r = r1)"
  by (rule handle_same [OF assms, unfolded same_answer_def])

text \<open>A chain of a head and two replicas with one node, on which an edge is asked for and a node added.\<close>

definition three_servers :: world where
  "three_servers = \<lparr>wd_store = [1 \<mapsto> {}], wd_chain = [[1 \<mapsto> {}], [1 \<mapsto> {}]], wd_parts = (\<lambda>_. Map.empty)\<rparr>"

definition head_server :: http where
  "head_server = \<lparr>ht_repl = Some HEAD, ht_partman = False, ht_config = \<lparr>pc_partitions = [], pc_us = 0\<rparr>\<rparr>"

lemma one_node_ok: "store_ok [n \<mapsto> {}]"
  by (simp add: store_ok_def)

definition head_of_part :: http where
  "head_of_part = head_server\<lparr>ht_partman := True, ht_config := \<lparr>pc_partitions = [''a:1'', ''b:2''], pc_us = 0\<rparr>\<rparr>"

theorem chain_stays_in_step_witness:
  "\<exists>r W' r1 W1. handle head_of_part (PostAddNode (Some 2)) three_servers = Ok (r, W') \<and>
    handle (head_of_part\<lparr>ht_repl := None\<rparr>) (PostAddNode (Some 2)) three_servers = Ok (r1, W1) \<and>
    in_step W' \<and> wd_store W' = wd_store W1 \<and> (accepted r \<longleftrightarrow> accepted r1) \<and> (accepted r \<longrightarrow> r = r1)"
  by (rule chain_stays_in_step)
    (simp_all add: in_step_def three_servers_def head_server_def head_of_part_def one_node_ok has_parts_def
      crosses_def edge_of_def)

text \<open>
  A node that some replica has already can never be added through the head: every request fails with status
  500 and leaves the head without the node, where one server without replicas would add it.
\<close>

theorem replica_ahead_blocks:
  assumes "ht_repl h = Some HEAD" and "foreign h n = Ok False" and "s \<in> set (wd_chain W)" and "s n \<noteq> None"
  shows "\<exists>W'. add_node h (Some n) W = Ok (Failed 500, W') \<and> wd_store W' = wd_store W \<and>
    s \<in> set (wd_chain W')"
proof -
  have d: "\<exists>ss'. replicate_down (add_node_run n) ss = Ok (False, ss') \<and> s \<in> set ss'" if "s \<in> set ss" for ss
    using that assms(4)
    by (induction ss) (auto simp: add_node_run_def addNode_def)
  then obtain ss' where "replicate_down (add_node_run n) (wd_chain W) = Ok (False, ss')" "s \<in> set ss'"
    using assms(3) by blast
  then show ?thesis using assms(1,2)
    by (simp add: add_node_def commit_def not_replicated_def writesAllowed_def)
qed

theorem replica_ahead_blocks_witness:
  "\<exists>W'. add_node head_server (Some 2) (three_servers\<lparr>wd_chain := [[1 \<mapsto> {}], [2 \<mapsto> {}]]\<rparr>) = Ok (Failed 500, W') \<and>
    wd_store W' = wd_store (three_servers\<lparr>wd_chain := [[1 \<mapsto> {}], [2 \<mapsto> {}]]\<rparr>) \<and> [2 \<mapsto> {}] \<in> set (wd_chain W')"
  by (rule replica_ahead_blocks) (simp_all add: head_server_def foreign_def)

section \<open>The partitions\<close>

definition config_ok :: "part_config \<Rightarrow> bool" where
  "config_ok c \<longleftrightarrow> distinct (pc_partitions c) \<and> pc_us c < length (pc_partitions c)"

definition part_of :: "part_config \<Rightarrow> node_id \<Rightarrow> nat" where
  "part_of c n = unat n mod length (pc_partitions c)"

text \<open>The stores of all partitions as one.\<close>

definition whole :: "part_config \<Rightarrow> world \<Rightarrow> store" where
  "whole c W n = (if part_of c n = pc_us c then wd_store W n else wd_parts W (part_of c n) n)"

definition placed :: "part_config \<Rightarrow> world \<Rightarrow> bool" where
  "placed c W \<longleftrightarrow> (\<forall>n. wd_store W n \<noteq> None \<longrightarrow> part_of c n = pc_us c)"

lemma target_part: "config_ok c \<Longrightarrow> target c n = Ok (part_of c n)"
  by (auto simp: config_ok_def target_def part_of_def)

lemma part_of_less: "config_ok c \<Longrightarrow> part_of c n < length (pc_partitions c)"
  unfolding part_of_def by (rule mod_less_divisor) (auto simp: config_ok_def)

lemma outbounds_eq:
  assumes "config_ok c"
  shows "outbounds c = [0..<pc_us c] @ [Suc (pc_us c)..<length (pc_partitions c)]"
proof -
  let ?n = "length (pc_partitions c)" and ?u = "pc_us c"
  have "[0..<?n] = [0..<?u] @ [?u..<?n]" using assms upt_add_eq_append [of 0 ?u "?n - ?u"] by (simp add: config_ok_def)
  then have "[0..<?n] = [0..<?u] @ ?u # [Suc ?u..<?n]" using assms by (simp add: config_ok_def upt_conv_Cons)
  moreover have "pc_partitions c ! i \<noteq> pc_partitions c ! ?u \<longleftrightarrow> i \<noteq> ?u" if "i < ?n" for i
    using assms that by (simp add: config_ok_def nth_eq_iff_index_eq)
  then have "outbounds c = filter (\<lambda>i. i \<noteq> ?u) [0..<?n]" unfolding outbounds_def by (intro filter_cong) auto
  ultimately show ?thesis by simp
qed

lemma outbound_right:
  assumes "config_ok c" and "t < length (pc_partitions c)" and "t \<noteq> pc_us c"
  shows "getPartitionOutbound c t = Ok t"
  using assms by (auto simp: getPartitionOutbound_def outbounds_eq config_ok_def nth_append Let_def)

lemma addEdge_local:
  "addEdge a b m = Ok (c, m') \<Longrightarrow> m2 a = m a \<Longrightarrow> m2 b = m b \<Longrightarrow>
    addEdge a b m2 = Ok (c, m2(a := m' a, b := m' b)) \<and> m' = m(a := m' a, b := m' b)"
  by (cases "a = b"; cases "m a"; cases "m b")
    (auto simp: addEdge_def findNode_def node_addEdge_def Let_def fun_eq_iff split: if_splits)

lemma removeEdge_local:
  "removeEdge a b m = Ok (c, m') \<Longrightarrow> m2 a = m a \<Longrightarrow> m2 b = m b \<Longrightarrow>
    removeEdge a b m2 = Ok (c, m2(a := m' a, b := m' b)) \<and> m' = m(a := m' a, b := m' b)"
  by (cases "a = b"; cases "m a"; cases "m b")
    (auto simp: removeEdge_def getEdge_def findNode_def node_hasEdge_def node_removeEdge_def Let_def fun_eq_iff split: if_splits)

lemma addEdge_swap: "addEdge b a m = addEdge a b m"
  by (cases "a = b"; cases "m a"; cases "m b")
    (auto simp: addEdge_def findNode_def node_addEdge_def Let_def fun_upd_twist)

lemma removeEdge_swap: "removeEdge b a m = removeEdge a b m"
  by (cases "a = b"; cases "m a"; cases "m b")
    (auto simp: removeEdge_def getEdge_def findNode_def node_hasEdge_def node_removeEdge_def Let_def fun_upd_twist)

definition add_reply :: "node_id \<Rightarrow> node_id \<Rightarrow> code \<Rightarrow> reply" where
  "add_reply a b c = (if c = SUCCESS then EdgeReply a b else if c = NO_ACTION then Failed 204 else Failed 400)"

definition remove_reply :: "node_id \<Rightarrow> node_id \<Rightarrow> code \<Rightarrow> reply" where
  "remove_reply a b c = (if c = SUCCESS then EdgeReply a b else Failed 400)"

text \<open>An edge between a node of ours and one of another partition.\<close>

definition across :: "part_config \<Rightarrow> node_id \<Rightarrow> node_id \<Rightarrow> bool" where
  "across c l r \<longleftrightarrow> config_ok c \<and> part_of c l = pc_us c \<and> part_of c r \<noteq> pc_us c"

lemma across_part_of_edge:
  "across c l r \<Longrightarrow> (a, b) = (l, r) \<or> (a, b) = (r, l) \<Longrightarrow> part_of_edge c a b = Ok (Inr (l, r))"
  by (auto simp: across_def part_of_edge_def target_part)

lemma across_remote:
  "across c l r \<Longrightarrow> remote_part f c l r W =
    (case f r l (wd_parts W (part_of c r)) of (s, m) \<Rightarrow>
       Ok (if s = SUCCESS then SUCCESS else PARTITION_FAIL, W\<lparr>wd_parts := (wd_parts W)(part_of c r := m)\<rparr>))"
  by (simp add: across_def remote_part_def target_part outbound_right part_of_less)

lemma across_whole:
  assumes "across c l r"
  shows "wd_store W l = whole c W l" "wd_parts W (part_of c r) r = whole c W r"
  using assms by (auto simp: across_def whole_def)

lemma across_distinct: "across c l r \<Longrightarrow> l \<noteq> r"
  by (auto simp: across_def)

lemma across_update:
  assumes "across c l r"
  shows "whole c (W\<lparr>wd_store := (wd_store W)(l := x), wd_parts := (wd_parts W)(part_of c r := (wd_parts W (part_of c r))(r := y))\<rparr>) =
    (whole c W)(l := x, r := y)"
  using assms by (auto simp: across_def whole_def fun_eq_iff)

lemma local_update:
  "part_of c a = pc_us c \<Longrightarrow> part_of c b = pc_us c \<Longrightarrow>
    whole c (W\<lparr>wd_store := (wd_store W)(a := x, b := y)\<rparr>) = (whole c W)(a := x, b := y)"
  by (auto simp: whole_def fun_eq_iff)

lemma ok_symmetric: "store_ok m \<Longrightarrow> m a = Some ea \<Longrightarrow> m b = Some eb \<Longrightarrow> b \<in> ea \<longleftrightarrow> a \<in> eb"
  unfolding store_ok_def by (metis option.inject)

lemma ok_ends: "store_ok m \<Longrightarrow> m a = Some ea \<Longrightarrow> b \<in> ea \<Longrightarrow> \<exists>eb. m b = Some eb \<and> a \<in> eb"
  unfolding store_ok_def by blast

lemma across_add:
  assumes x: "across c l r" and ab: "(a, b) = (l, r) \<or> (a, b) = (r, l)" and h: "ht_config h = c"
    and ok: "store_ok (whole c W)" and l: "wd_store W l \<noteq> None"
  shows "\<exists>c0 W'. addEdge l r (whole c W) = Ok (c0, whole c W') \<and> add_edge_partition h a b W = Ok (add_reply a b c0, W')"
proof -
  note X = across_whole [OF x, of W] across_distinct [OF x]
  obtain el where el: "whole c W l = Some el" using l X(1) by auto
  have ne: "a \<noteq> b" using ab X(3) by auto
  have pe: "part_of_edge (ht_config h) a b = Ok (Inr (l, r))" using across_part_of_edge [OF x ab] h by simp
  note R = across_remote [OF x, where f = addEdgePart and W = W]
  show ?thesis
  proof (cases "whole c W r")
    case None
    then have "r \<notin> el" using ok_ends [OF ok el] by force
    then have "add_edge_partition h a b W = Ok (Failed 400, W)"
      using pe ne h R X None el
      by (simp add: add_edge_partition_def getEdgePart_def addEdgePart_def findNode_def node_hasEdge_def)
    moreover have "addEdge l r (whole c W) = Ok (DOES_NOT_EXIST, whole c W)"
      using X(3) el None by (simp add: addEdge_def findNode_def)
    ultimately show ?thesis by (intro exI [of _ DOES_NOT_EXIST] exI [of _ W]) (simp add: add_reply_def)
  next
    case (Some er)
    have sym: "r \<in> el \<longleftrightarrow> l \<in> er" by (rule ok_symmetric [OF ok el Some])
    show ?thesis
    proof (cases "r \<in> el")
      case True
      then have "add_edge_partition h a b W = Ok (Failed 204, W)"
        using pe X el by (simp add: add_edge_partition_def getEdgePart_def findNode_def node_hasEdge_def)
      moreover have "addEdge l r (whole c W) = Ok (NO_ACTION, whole c W)"
        using X(3) el Some True sym
        by (simp add: addEdge_def findNode_def node_addEdge_def Let_def insert_absorb fun_upd_idem)
      ultimately show ?thesis by (intro exI [of _ NO_ACTION] exI [of _ W]) (simp add: add_reply_def)
    next
      case False
      let ?W = "W\<lparr>wd_store := (wd_store W)(l := Some (insert r el)),
        wd_parts := (wd_parts W)(part_of c r := (wd_parts W (part_of c r))(r := Some (insert l er)))\<rparr>"
      have "add_edge_partition h a b W = Ok (EdgeReply a b, ?W)"
        using pe ne h R X Some el False sym
        by (simp add: add_edge_partition_def getEdgePart_def addEdgePart_def findNode_def node_hasEdge_def node_addEdge_def)
      moreover have "addEdge l r (whole c W) = Ok (SUCCESS, whole c ?W)"
        unfolding across_update [OF x]
        using X(3) el Some False sym by (simp add: addEdge_def findNode_def node_addEdge_def Let_def)
      ultimately show ?thesis by (intro exI [of _ SUCCESS] exI [of _ ?W]) (simp add: add_reply_def)
    qed
  qed
qed

lemma across_remove:
  assumes x: "across c l r" and ab: "(a, b) = (l, r) \<or> (a, b) = (r, l)" and h: "ht_config h = c"
    and ok: "store_ok (whole c W)"
  shows "\<exists>c0 W'. removeEdge l r (whole c W) = Ok (c0, whole c W') \<and>
    remove_edge_partition h a b W = Ok (remove_reply a b c0, W')"
proof -
  note X = across_whole [OF x, of W] across_distinct [OF x]
  have ne: "a \<noteq> b" using ab X(3) by auto
  have pe: "part_of_edge (ht_config h) a b = Ok (Inr (l, r))" using across_part_of_edge [OF x ab] h by simp
  note R = across_remote [OF x, where f = removeEdgePart and W = W]
  show ?thesis
  proof (cases "has_edge (whole c W) l r")
    case False
    then have "remove_edge_partition h a b W = Ok (Failed 400, W)"
      using pe X(1) by (auto simp: remove_edge_partition_def getEdgePart_def findNode_def node_hasEdge_def
          has_edge_def split: option.splits)
    moreover obtain c0 where "removeEdge l r (whole c W) = Ok (c0, whole c W)" "c0 \<noteq> SUCCESS"
      using removeEdge_effect [OF ok, of l r] removeEdge_fails_same False X(3) by (auto split: if_splits)
    ultimately show ?thesis by (intro exI [of _ c0] exI [of _ W]) (simp add: remove_reply_def)
  next
    case True
    then obtain el where el: "whole c W l = Some el" "r \<in> el" by (auto simp: has_edge_def)
    then obtain er where e: "whole c W l = Some el" "r \<in> el" "whole c W r = Some er" "l \<in> er"
      using ok_ends [OF ok] by blast
    let ?W = "W\<lparr>wd_store := (wd_store W)(l := Some (el - {r})),
      wd_parts := (wd_parts W)(part_of c r := (wd_parts W (part_of c r))(r := Some (er - {l})))\<rparr>"
    have "remove_edge_partition h a b W = Ok (EdgeReply a b, ?W)"
      using pe ne h R X e
      by (simp add: remove_edge_partition_def getEdgePart_def removeEdgePart_def findNode_def node_hasEdge_def node_removeEdge_def)
    moreover have "removeEdge l r (whole c W) = Ok (SUCCESS, whole c ?W)"
      unfolding across_update [OF x]
      using X(3) e by (simp add: removeEdge_def getEdge_def findNode_def node_hasEdge_def node_removeEdge_def Let_def)
    ultimately show ?thesis by (intro exI [of _ SUCCESS] exI [of _ ?W]) (simp add: remove_reply_def)
  qed
qed

text \<open>Both nodes are ours.\<close>

lemma ours_on_edge:
  assumes c: "config_ok c" and p: "part_of c a = pc_us c" "part_of c b = pc_us c"
    and h: "ht_config h = c" "ht_repl h = None"
    and loc: "\<And>m2. m2 a = whole c W a \<Longrightarrow> m2 b = whole c W b \<Longrightarrow> op a b m2 = Ok (c0, m2(a := x, b := y))"
    and missing: "wd_store W a = None \<or> wd_store W b = None \<Longrightarrow> c0 \<noteq> SUCCESS \<and> c0 \<noteq> NO_ACTION"
    and fails: "c0 \<noteq> SUCCESS \<Longrightarrow> (whole c W)(a := x, b := y) = whole c W"
    and r: "r = (if c0 = SUCCESS then EdgeReply a b
      else if wd_store W a = None \<or> wd_store W b = None then Failed 400 else Failed (f c0))"
  shows "\<exists>W'. op a b (whole c W) = Ok (c0, whole c W') \<and>
    on_edge h parted op f (Some (a, b)) W = Ok (r, W')"
proof -
  have s: "wd_store W a = whole c W a" "wd_store W b = whole c W b" using p by (simp_all add: whole_def)
  have nf: "partitioned h a b = Ok False" using c p h by (simp add: partitioned_def foreign_def target_part)
  show ?thesis
  proof (cases "wd_store W a = None \<or> wd_store W b = None")
    case True
    then have "op a b (whole c W) = Ok (c0, whole c W)" "r = Failed 400"
      using missing fails loc [of "whole c W"] r by auto
    moreover have "on_edge h parted op f (Some (a, b)) W = Ok (Failed 400, W)"
      using True nf by (auto simp: on_edge_def)
    ultimately show ?thesis by blast
  next
    case False
    then have "on_edge h parted op f (Some (a, b)) W =
        Ok (if c0 = SUCCESS then EdgeReply a b else Failed (f c0), W\<lparr>wd_store := (wd_store W)(a := x, b := y)\<rparr>)"
      unfolding on_edge_def using False nf h(2) loc [of "wd_store W"] s
      by (auto simp: commit_def not_replicated_def)
    moreover have "r = (if c0 = SUCCESS then EdgeReply a b else Failed (f c0))" using False r by auto
    moreover have "op a b (whole c W) = Ok (c0, whole c (W\<lparr>wd_store := (wd_store W)(a := x, b := y)\<rparr>))"
      using loc [of "whole c W"] local_update [OF p, of W x y] by simp
    ultimately show ?thesis by (intro exI [of _ "W\<lparr>wd_store := (wd_store W)(a := x, b := y)\<rparr>"]) simp
  qed
qed

lemma ours_add:
  assumes c: "config_ok c" and p: "part_of c a = pc_us c" "part_of c b = pc_us c"
    and h: "ht_config h = c" "ht_repl h = None" and ok: "store_ok (whole c W)"
  shows "\<exists>c0 W'. addEdge a b (whole c W) = Ok (c0, whole c W') \<and> add_edge h (Some (a, b)) W = Ok (add_reply a b c0, W')"
proof -
  obtain c0 m where m: "addEdge a b (whole c W) = Ok (c0, m)"
    "c0 = (if a = b then INVALID else if a \<notin> dom (whole c W) \<or> b \<notin> dom (whole c W) then DOES_NOT_EXIST
         else if has_edge (whole c W) a b then NO_ACTION else SUCCESS)"
    using addEdge_effect [OF ok, of a b] by blast
  have s: "wd_store W a = whole c W a" "wd_store W b = whole c W b" using p by (simp_all add: whole_def)
  have L: "addEdge a b m2 = Ok (c0, m2(a := m a, b := m b))" if "m2 a = whole c W a" "m2 b = whole c W b" for m2
    using addEdge_local [OF m(1) that] by blast
  have same: "(whole c W)(a := m a, b := m b) = whole c W" if "c0 \<noteq> SUCCESS"
    using addEdge_fails_same [OF m(1) that] by simp
  have missing: "c0 \<noteq> SUCCESS \<and> c0 \<noteq> NO_ACTION" if "wd_store W a = None \<or> wd_store W b = None"
    using that m(2) s by auto
  have r: "add_reply a b c0 = (if c0 = SUCCESS then EdgeReply a b
      else if wd_store W a = None \<or> wd_store W b = None then Failed 400 else Failed (add_code c0))"
    using m(2) missing by (simp add: add_reply_def add_code_def)
  show ?thesis unfolding add_edge_def
    by (intro exI [of _ c0]) (rule ours_on_edge [where op = addEdge and x = "m a" and y = "m b" and W = W, OF c p h],
        erule (1) L, erule missing, erule same, rule r)
qed

lemma ours_remove:
  assumes c: "config_ok c" and p: "part_of c a = pc_us c" "part_of c b = pc_us c"
    and h: "ht_config h = c" "ht_repl h = None" and ok: "store_ok (whole c W)"
  shows "\<exists>c0 W'. removeEdge a b (whole c W) = Ok (c0, whole c W') \<and> remove_edge h (Some (a, b)) W = Ok (remove_reply a b c0, W')"
proof -
  obtain c0 m where m: "removeEdge a b (whole c W) = Ok (c0, m)"
    "c0 = (if a = b then INVALID else if a \<notin> dom (whole c W) \<or> b \<notin> dom (whole c W) then DOES_NOT_EXIST
         else if has_edge (whole c W) a b then SUCCESS else DOES_NOT_EXIST)"
    using removeEdge_effect [OF ok, of a b] by blast
  have s: "wd_store W a = whole c W a" "wd_store W b = whole c W b" using p by (simp_all add: whole_def)
  have L: "removeEdge a b m2 = Ok (c0, m2(a := m a, b := m b))" if "m2 a = whole c W a" "m2 b = whole c W b" for m2
    using removeEdge_local [OF m(1) that] by blast
  have same: "(whole c W)(a := m a, b := m b) = whole c W" if "c0 \<noteq> SUCCESS"
    using removeEdge_fails_same [OF m(1) that] by simp
  have missing: "c0 \<noteq> SUCCESS \<and> c0 \<noteq> NO_ACTION" if "wd_store W a = None \<or> wd_store W b = None"
    using that m(2) s by auto
  have r: "remove_reply a b c0 = (if c0 = SUCCESS then EdgeReply a b
      else if wd_store W a = None \<or> wd_store W b = None then Failed 400 else Failed (remove_code c0))"
    using m(2) missing by (simp add: remove_reply_def remove_code_def)
  show ?thesis unfolding remove_edge_def
    by (intro exI [of _ c0]) (rule ours_on_edge [where op = removeEdge and x = "m a" and y = "m b" and W = W, OF c p h],
        erule (1) L, erule missing, erule same, rule r)
qed

text \<open>One of them is.\<close>

lemma across_cases:
  assumes "config_ok c" and "part_of c a = pc_us c \<or> part_of c b = pc_us c"
  obtains "part_of c a = pc_us c" "part_of c b = pc_us c"
  | l r where "across c l r" "(a, b) = (l, r) \<or> (a, b) = (r, l)"
  using assms by (auto simp: across_def)

lemma across_partitioned:
  "across c l r \<Longrightarrow> (a, b) = (l, r) \<or> (a, b) = (r, l) \<Longrightarrow> ht_config h = c \<Longrightarrow> ht_partman h \<Longrightarrow> partitioned h a b = Ok True"
  by (auto simp: across_def partitioned_def foreign_def target_part)

lemma partition_add:
  assumes c: "config_ok c" and o: "part_of c a = pc_us c \<or> part_of c b = pc_us c"
    and h: "ht_config h = c" "ht_repl h = None" "ht_partman h" and ok: "store_ok (whole c W)"
    and ex: "\<forall>n\<in>{a, b}. part_of c n = pc_us c \<longrightarrow> wd_store W n \<noteq> None"
  shows "\<exists>c0 W'. addEdge a b (whole c W) = Ok (c0, whole c W') \<and> add_edge h (Some (a, b)) W = Ok (add_reply a b c0, W')"
proof (rule across_cases [OF c o])
  fix l r assume x: "across c l r" "(a, b) = (l, r) \<or> (a, b) = (r, l)"
  then have l: "wd_store W l \<noteq> None" using ex by (auto simp: across_def)
  have "addEdge l r m = addEdge a b m" for m using x(2) addEdge_swap by auto
  then show ?thesis using across_add [OF x h(1) ok l] across_partitioned [OF x h(1,3)] by (simp add: add_edge_def on_edge_def)
qed (rule ours_add [OF c _ _ h(1,2) ok])

lemma partition_remove:
  assumes c: "config_ok c" and o: "part_of c a = pc_us c \<or> part_of c b = pc_us c"
    and h: "ht_config h = c" "ht_repl h = None" "ht_partman h" and ok: "store_ok (whole c W)"
  shows "\<exists>c0 W'. removeEdge a b (whole c W) = Ok (c0, whole c W') \<and> remove_edge h (Some (a, b)) W = Ok (remove_reply a b c0, W')"
proof (rule across_cases [OF c o])
  fix l r assume x: "across c l r" "(a, b) = (l, r) \<or> (a, b) = (r, l)"
  have "removeEdge l r m = removeEdge a b m" for m using x(2) removeEdge_swap by auto
  then show ?thesis using across_remove [OF x h(1) ok] across_partitioned [OF x h(1,3)] by (simp add: remove_edge_def on_edge_def)
qed (rule ours_remove [OF c _ _ h(1,2) ok])

text \<open>
  C11: The partitions together are one store: adding or removing an edge at a server that holds one of its nodes does to
  the whole what the operation of the memory store does, within a partition or across two, and answers by its status.
  For adding, the nodes of the edge that belong to this server have to be there.
\<close>

theorem partitions_are_one_store:
  assumes "config_ok c" and "part_of c a = pc_us c \<or> part_of c b = pc_us c"
    and "ht_config h = c" and "ht_repl h = None" and "ht_partman h" and "store_ok (whole c W)"
    and "\<forall>n\<in>{a, b}. part_of c n = pc_us c \<longrightarrow> wd_store W n \<noteq> None"
  shows "(\<exists>c0 W'. addEdge a b (whole c W) = Ok (c0, whole c W') \<and>
      handle h (PostAddEdge (Some (a, b))) W = Ok (add_reply a b c0, W')) \<and>
    (\<exists>c0 W'. removeEdge a b (whole c W) = Ok (c0, whole c W') \<and>
      handle h (PostRemoveEdge (Some (a, b))) W = Ok (remove_reply a b c0, W'))"
  using partition_add [OF assms] partition_remove [OF assms(1-6)] by simp

text \<open>Two partitions; this server has the even nodes.\<close>

definition two_parts :: part_config where
  "two_parts = \<lparr>pc_partitions = [''a:1'', ''b:2''], pc_us = 0\<rparr>"

definition even_server :: http where
  "even_server = \<lparr>ht_repl = None, ht_partman = True, ht_config = two_parts\<rparr>"

definition split_world :: world where
  "split_world = \<lparr>wd_store = [2 \<mapsto> {}], wd_chain = [], wd_parts = (\<lambda>_. [3 \<mapsto> {}])\<rparr>"

lemma two_parts_ok: "config_ok two_parts"
  by (simp add: config_ok_def two_parts_def)

lemma part_two [simp]: "part_of two_parts n = unat n mod 2"
  by (simp add: part_of_def two_parts_def numeral_2_eq_2)

lemma us_two [simp]: "pc_us two_parts = 0"
  by (simp add: two_parts_def)

lemma split_whole: "whole two_parts split_world = [2 \<mapsto> {}, 3 \<mapsto> {}]"
  by (auto simp: whole_def split_world_def fun_eq_iff)

theorem partitions_are_one_store_witness:
  "(\<exists>c0 W'. addEdge 3 2 (whole two_parts split_world) = Ok (c0, whole two_parts W') \<and>
      handle even_server (PostAddEdge (Some (3, 2))) split_world = Ok (add_reply 3 2 c0, W')) \<and>
    (\<exists>c0 W'. removeEdge 3 2 (whole two_parts split_world) = Ok (c0, whole two_parts W') \<and>
      handle even_server (PostRemoveEdge (Some (3, 2))) split_world = Ok (remove_reply 3 2 c0, W'))"
proof (rule partitions_are_one_store)
  show "store_ok (whole two_parts split_world)" unfolding split_whole by (simp add: store_ok_def)
  show "\<forall>n\<in>{3, 2}. part_of two_parts n = pc_us two_parts \<longrightarrow> wd_store split_world n \<noteq> None"
    by (simp add: split_world_def)
qed (simp_all add: two_parts_ok even_server_def)

section \<open>What goes wrong\<close>

text \<open>
  C21: When the node of an edge that belongs to this server is missing and the other one is at its partition, adding the
  edge ends the server: the other partition has its half of the edge by then, and the invariant that ours can be added fails.
\<close>

theorem missing_local_node_kills:
  assumes "across c l r" and "(a, b) = (l, r) \<or> (a, b) = (r, l)" and "ht_config h = c" and "ht_partman h"
    and "wd_store W l = None" and "wd_parts W (part_of c r) r = Some e" and "l \<notin> e"
  shows "handle h (PostAddEdge (Some (a, b))) W = Die \<and>
    (\<exists>W1. remote_part addEdgePart c l r W = Ok (SUCCESS, W1) \<and> wd_parts W1 (part_of c r) r = Some (insert l e))"
proof -
  have R: "\<exists>W1. remote_part addEdgePart c l r W = Ok (SUCCESS, W1) \<and> wd_parts W1 (part_of c r) r = Some (insert l e) \<and>
      wd_store W1 = wd_store W"
    using across_remote [OF assms(1), where f = addEdgePart and W = W] across_distinct [OF assms(1)] assms(6,7)
    by (simp add: addEdgePart_def findNode_def node_addEdge_def)
  have "a \<noteq> b" using assms(2) across_distinct [OF assms(1)] by auto
  then have "add_edge_partition h a b W = Die"
    using R across_part_of_edge [OF assms(1,2)] assms(3,5) across_distinct [OF assms(1)]
    by (auto simp: add_edge_partition_def getEdgePart_def addEdgePart_def findNode_def)
  then show ?thesis using R across_partitioned [OF assms(1-4)] by (auto simp: add_edge_def on_edge_def)
qed

theorem missing_local_node_kills_witness:
  "handle even_server (PostAddEdge (Some (4, 3))) split_world = Die \<and>
    (\<exists>W1. remote_part addEdgePart two_parts 4 3 split_world = Ok (SUCCESS, W1) \<and>
      wd_parts W1 (part_of two_parts 3) 3 = Some (insert 4 {}))"
  by (rule missing_local_node_kills)
    (simp_all add: across_def two_parts_ok even_server_def split_world_def)

text \<open>
  An edge between two partitions is written by any replica that is asked, whether it accepts other changes or not, and
  goes to no other replica.
\<close>

theorem partitioned_edge_not_replicated:
  assumes "across c l r" and "(a, b) = (l, r) \<or> (a, b) = (r, l)" and "ht_config h = c" and "ht_partman h"
    and "handle h (PostAddEdge (Some (a, b))) W = Ok (EdgeReply a b, W')"
  shows "wd_chain W' = wd_chain W \<and> wd_store W' \<noteq> wd_store W"
proof -
  have e: "add_edge_partition h a b W = Ok (EdgeReply a b, W')"
    using assms(5) across_partitioned [OF assms(1-4)] by (simp add: add_edge_def on_edge_def)
  have pe: "part_of_edge (ht_config h) a b = Ok (Inr (l, r))" using across_part_of_edge [OF assms(1,2)] assms(3) by simp
  obtain s k where "remote_part addEdgePart c l r W = Ok (s, W\<lparr>wd_parts := k\<rparr>)"
    using across_remote [OF assms(1), where f = addEdgePart and W = W] by (cases "addEdgePart r l (wd_parts W (part_of c r))") simp
  then have W': "W' = W\<lparr>wd_parts := k, wd_store := snd (addEdgePart l r (wd_store W))\<rparr>"
    "fst (addEdgePart l r (wd_store W)) = SUCCESS"
    using e pe assms(3) by (auto simp: add_edge_partition_def Let_def split: if_splits prod.splits)
  then obtain el where "wd_store W l = Some el" "r \<notin> el" "wd_store W' l = Some (insert r el)"
    by (auto simp: addEdgePart_def findNode_def node_addEdge_def split: if_splits option.splits)
  then show ?thesis using W'(1) by auto
qed

theorem partitioned_edge_not_replicated_witness:
  "\<exists>W'. handle (even_server\<lparr>ht_repl := Some TAIL\<rparr>) (PostAddEdge (Some (2, 3))) split_world = Ok (EdgeReply 2 3, W') \<and>
    wd_chain W' = wd_chain split_world \<and> wd_store W' \<noteq> wd_store split_world"
proof -
  let ?h = "even_server\<lparr>ht_repl := Some TAIL\<rparr>"
  have x: "across two_parts 2 3" by (simp add: across_def two_parts_ok)
  have h: "ht_config ?h = two_parts" "ht_partman ?h" by (simp_all add: even_server_def)
  have ab: "(2, 3) = (2, 3) \<or> (2 :: node_id, 3 :: node_id) = (3, 2)" by simp
  have ok: "store_ok (whole two_parts split_world)" unfolding split_whole by (simp add: store_ok_def)
  obtain c0 W' where 1: "addEdge 2 3 (whole two_parts split_world) = Ok (c0, whole two_parts W')"
    "add_edge_partition ?h 2 3 split_world = Ok (add_reply 2 3 c0, W')"
    using across_add [OF x ab h(1) ok] by (auto simp: split_world_def)
  then have "c0 = SUCCESS" by (simp add: split_whole addEdge_def findNode_def node_addEdge_def)
  then have e: "handle ?h (PostAddEdge (Some (2, 3))) split_world = Ok (EdgeReply 2 3, W')"
    using 1(2) across_partitioned [OF x ab h] by (simp add: add_edge_def on_edge_def add_reply_def)
  then show ?thesis using partitioned_edge_not_replicated [OF x ab h e] by blast
qed

text \<open>
  A server that is started without partitions has a partition manager all the same, and no remainder to take.
\<close>

lemma no_partitions_kill:
  "ht_partman h \<Longrightarrow> pc_partitions (ht_config h) = [] \<Longrightarrow> handle h (PostAddNode (Some n)) W = Die"
  by (simp add: add_node_def foreign_def target_def)

section \<open>Checkpoints\<close>

definition ckpt_ready ::
  "(node_id set \<Rightarrow> node_id list) \<Rightarrow> (edges \<Rightarrow> node_id list) \<Rightarrow> logged \<Rightarrow> bool" where
  "ckpt_ready no ho S \<longleftrightarrow> durable S \<and> closed_store (ls_store S) \<and>
     fits (cm_min (ls_ckpt S) + 1) (cm_max (ls_ckpt S)) (node_words (node_list no ho (ls_store S))) \<and>
     getGeneration (ls_log S) \<noteq> ucast (- 1 :: 32 word)"

definition checkpointed :: "logged \<Rightarrow> logged \<Rightarrow> bool" where
  "checkpointed S S' \<longleftrightarrow> durable S' \<and> ls_store S' = ls_store S \<and> read_all (ls_log S', ls_dev S') = Ok []"

lemma ready_checkpoint:
  assumes "ckpt_ready no ho S" and "enumerates no" and "enumerates ho"
  shows "\<exists>S'. LoggedStore.checkpoint no ho S = Ok (SUCCESS, S') \<and> checkpointed S S'"
  using checkpoint_durable [of S no ho] assms unfolding ckpt_ready_def checkpointed_def by blast

lemma ready_down:
  assumes "enumerates no" and "enumerates ho"
  shows "\<forall>p\<in>set rs. fst p \<and> ckpt_ready no ho (snd p) \<Longrightarrow>
    \<exists>rs'. checkpoint_down no ho rs = Ok (CHECKPOINT_DONE, rs') \<and>
      list_all2 (\<lambda>p q. fst q \<and> checkpointed (snd p) (snd q)) rs rs'"
proof (induction rs)
  case (Cons p rs)
  obtain S where p: "p = (True, S)" "ckpt_ready no ho S" using Cons.prems by (cases p) auto
  then obtain S' where "LoggedStore.checkpoint no ho S = Ok (SUCCESS, S')" "checkpointed S S'"
    using ready_checkpoint assms by blast
  moreover obtain rs' where "checkpoint_down no ho rs = Ok (CHECKPOINT_DONE, rs')"
    "list_all2 (\<lambda>p q. fst q \<and> checkpointed (snd p) (snd q)) rs rs'"
    using Cons by auto
  ultimately show ?case using p(1) by simp
qed simp

text \<open>
  C22: A checkpoint asked for at a server, when all servers from here down the chain log, have room and are
  durable. A server that does not log answers 501 and one with a partition manager answers 400,
  and nothing changes (as \<open>main.cc\<close> starts the server, without logging and with a partition manager, that
  is every request). Otherwise the checkpoint is carried out at the head or in the
  middle of a chain by the server and every one of its successors, and at the tail or outside a chain by the
  server alone: every store involved stays as it was and durable, with an empty log.
\<close>

theorem checkpoint_reaches_chain:
  assumes "enumerates no" and "enumerates ho"
    and "ckpt_ready no ho S" and "\<forall>p\<in>set rs. fst p \<and> ckpt_ready no ho (snd p)"
  shows "if \<not> logs then http_checkpoint no ho h (logs, S) rs = Ok (Failed 501, (logs, S), rs)
    else if ht_partman h then http_checkpoint no ho h (logs, S) rs = Ok (Failed 400, (logs, S), rs)
    else \<exists>S' rs'. http_checkpoint no ho h (logs, S) rs = Ok (Checkpointed, (logs, S'), rs') \<and> checkpointed S S' \<and>
      (if ht_repl h \<in> {Some HEAD, Some MID}
       then list_all2 (\<lambda>p q. fst q \<and> checkpointed (snd p) (snd q)) rs rs' else rs' = rs)"
proof -
  obtain S' where S': "LoggedStore.checkpoint no ho S = Ok (SUCCESS, S')" "checkpointed S S'"
    using ready_checkpoint [OF assms(3,1,2)] by blast
  obtain rs' where rs': "checkpoint_down no ho rs = Ok (CHECKPOINT_DONE, rs')"
    "list_all2 (\<lambda>p q. fst q \<and> checkpointed (snd p) (snd q)) rs rs'"
    using ready_down [OF assms(1,2,4)] by blast
  show ?thesis
  proof (cases "ht_repl h")
    case (Some t)
    then show ?thesis using S' rs' by (cases t) (simp_all add: http_checkpoint_def replicateCheckpoint_def)
  qed (use S' in \<open>simp add: http_checkpoint_def\<close>)
qed

theorem checkpoint_reaches_chain_witness:
  "\<exists>S S' rs'. http_checkpoint sorted_list_of_set sorted_list_of_set head_server (True, S) [(True, S)] =
      Ok (Checkpointed, (True, S'), rs') \<and> checkpointed S S' \<and>
    list_all2 (\<lambda>p q. fst q \<and> checkpointed (snd p) (snd q)) [(True, S)] rs'"
proof -
  obtain S where S: "durable S" "log_room S" "ls_store S = [1 \<mapsto> {2}, 2 \<mapsto> {1}]" "getGeneration (ls_log S) = 1" "dv_size (ls_dev S) = 50"
    by (rule sample_store)
  note f = sample_fits [OF S(1,3,4,5)]
  have r: "ckpt_ready sorted_list_of_set sorted_list_of_set S" using S(1) f by (simp add: ckpt_ready_def)
  show ?thesis
    using checkpoint_reaches_chain [OF f(2) f(2) r, of "[(True, S)]" True head_server] r by (simp add: head_server_def) blast
qed

end
