(* ===== verification/Scanners.thy ===== *)
theory Scanners
  imports FileFind PathList "HOL-Library.AList" "HOL-Library.List_Lexorder" "HOL-Library.Char_ord"
begin

text \<open>
  The package \<open>Scanner\<close>: scanner objects and their selection (\<open>Scanner/__init__.py\<close>), the scanner of C
  sources (\<open>Scanner/C.py\<close>) and of IDL files (\<open>Scanner/IDL.py\<close>) with their regular expressions as functions on
  strings, the scanners of programs (\<open>Scanner/Prog.py\<close>) and directories (\<open>Scanner/Dir.py\<close>). Files are looked for
  by the search of \<open>FileFind\<close>. The argument of a scanner and its environment belong to its function.
\<close>

section \<open>Scanner objects\<close>

text \<open>
  A scanner has a function, or a dictionary from scanner keys to scanners; what the function returns is nodes or
  names. \<open>AttributeErr\<close>: \<open>select\<close> returned nothing; \<open>CallErr\<close>: what is called is no function.
\<close>

datatype scan_error = AttributeErr | CallErr | FsErr fs_error | SubstErr | NotIterable

datatype ('n, 's) scanner = Scanner
  (sc_function: "('n, 's) scan_function") (sc_name: string) (sc_skeys: "string list")
  (sc_check: "('n \<Rightarrow> 's \<Rightarrow> bool) option") (sc_converts: bool) (sc_recurse: "'n list \<Rightarrow> 'n list")
and ('n, 's) scan_function =
    Plain "'n \<Rightarrow> 'n list \<Rightarrow> 's \<Rightarrow> (scan_error + ('n + string) list) \<times> 's"
  | ByKey "(string \<times> ('n, 's) scanner) list"

definition recurse_all_nodes :: "'n list \<Rightarrow> 'n list" where "recurse_all_nodes ns = ns"
definition recurse_no_nodes :: "'n list \<Rightarrow> 'n list" where "recurse_no_nodes ns = []"

text \<open>\<open>Base.__init__\<close>: without keys, those of the dictionary; \<open>recursive\<close> is a function or a truth value.\<close>

definition base_init ::
  "('n, 's) scan_function \<Rightarrow> string \<Rightarrow> string list option \<Rightarrow> ('n \<Rightarrow> 's \<Rightarrow> bool) option \<Rightarrow> bool \<Rightarrow>
     ('n list \<Rightarrow> 'n list) + bool \<Rightarrow> ('n, 's) scanner" where
  "base_init f name skeys chk conv rec =
     Scanner f name
       (case skeys of Some ks \<Rightarrow> ks | None \<Rightarrow> (case f of ByKey d \<Rightarrow> map fst d | Plain _ \<Rightarrow> []))
       chk conv
       (case rec of Inl r \<Rightarrow> r | Inr b \<Rightarrow> if b then recurse_all_nodes else recurse_no_nodes)"

definition base_select :: "('n \<Rightarrow> string) \<Rightarrow> 'n \<Rightarrow> ('n, 's) scanner \<Rightarrow> ('n, 's) scanner option" where
  "base_select key n sc = (case sc_function sc of ByKey d \<Rightarrow> map_of d (key n) | Plain _ \<Rightarrow> Some sc)"

text \<open>\<open>factory\<close> makes a node of a name, with the directory of the node that is scanned.\<close>

fun convert_found ::
  "('n \<Rightarrow> string \<Rightarrow> 's \<Rightarrow> (scan_error + 'n) \<times> 's) \<Rightarrow> bool \<Rightarrow> 'n \<Rightarrow> ('n + string) list \<Rightarrow> 's \<Rightarrow>
     (scan_error + ('n + string) list) \<times> 's" where
  "convert_found factory conv n [] S = (Inr [], S)"
| "convert_found factory conv n (x # xs) S =
     then_do (case x of Inr name \<Rightarrow> if conv then then_do (factory n name S) (\<lambda>m S1. (Inr (Inl m), S1)) else (Inr x, S)
              | Inl _ \<Rightarrow> (Inr x, S))
       (\<lambda>y S1. then_do (convert_found factory conv n xs S1) (\<lambda>ys S2. (Inr (y # ys), S2)))"

definition base_call ::
  "('n \<Rightarrow> string) \<Rightarrow> ('n \<Rightarrow> string \<Rightarrow> 's \<Rightarrow> (scan_error + 'n) \<times> 's) \<Rightarrow> ('n, 's) scanner \<Rightarrow> 'n \<Rightarrow> 'n list \<Rightarrow> 's \<Rightarrow>
     (scan_error + ('n + string) list) \<times> 's" where
  "base_call key factory sc n path S =
     (if (case sc_check sc of None \<Rightarrow> False | Some chk \<Rightarrow> \<not> chk n S) then (Inr [], S)
      else (case base_select key n sc of
              None \<Rightarrow> (Inl AttributeErr, S)
            | Some sc1 \<Rightarrow>
                (case sc_function sc1 of
                   ByKey _ \<Rightarrow> (Inl CallErr, S)
                 | Plain f \<Rightarrow> then_do (f n path S) (\<lambda>l S1. convert_found factory (sc_converts sc1) n l S1))))"

text \<open>The class \<open>Selector\<close> calls the scanner it selects.\<close>

definition selector_call ::
  "('n \<Rightarrow> string) \<Rightarrow> ('n \<Rightarrow> string \<Rightarrow> 's \<Rightarrow> (scan_error + 'n) \<times> 's) \<Rightarrow> (string \<times> ('n, 's) scanner) list \<Rightarrow> 'n \<Rightarrow>
     'n list \<Rightarrow> 's \<Rightarrow> (scan_error + ('n + string) list) \<times> 's" where
  "selector_call key factory d n path S =
     (case map_of d (key n) of None \<Rightarrow> (Inl CallErr, S) | Some sc \<Rightarrow> base_call key factory sc n path S)"

definition add_skey :: "string \<Rightarrow> ('n, 's) scanner \<Rightarrow> ('n, 's) scanner" where
  "add_skey k sc = (case sc of Scanner f name ks chk conv rec \<Rightarrow> Scanner f name (ks @ [k]) chk conv rec)"

definition add_scanner :: "string \<Rightarrow> ('n, 's) scanner \<Rightarrow> ('n, 's) scanner \<Rightarrow> scan_error + ('n, 's) scanner" where
  "add_scanner k new sc =
     (case sc of Scanner f name ks chk conv rec \<Rightarrow>
        (case f of
           Plain _ \<Rightarrow> Inl CallErr
         | ByKey d \<Rightarrow> Inr (add_skey k (Scanner (ByKey (AList.update k new d)) name ks chk conv rec))))"

section \<open>Include lines\<close>

text \<open>The groups of a match. After the keyword: a bracket, a name without closing brackets, a closing bracket.\<close>

definition blank :: "char \<Rightarrow> bool" where "blank c \<longleftrightarrow> c = CHR '' '' \<or> c = CHR 0x09"
definition close_bracket :: "char \<Rightarrow> bool" where "close_bracket c \<longleftrightarrow> c = CHR ''>'' \<or> c = CHR 0x22"
definition open_bracket :: "char \<Rightarrow> bool" where "open_bracket c \<longleftrightarrow> c = CHR ''<'' \<or> c = CHR 0x22"

definition after_keyword :: "string list \<Rightarrow> string \<Rightarrow> string option" where
  "after_keyword ks s = map_option (\<lambda>k. drop (length k) s) (find (\<lambda>k. take (length k) s = k) ks)"

fun bracketed :: "string \<Rightarrow> (string list \<times> string) option" where
  "bracketed [] = None"
| "bracketed (q # s) =
     (let name = takeWhile (\<lambda>c. \<not> close_bracket c) s in
      if open_bracket q \<and> name \<noteq> []
      then (case dropWhile (\<lambda>c. \<not> close_bracket c) s of [] \<Rightarrow> None | q2 # rest \<Rightarrow> Some ([[q], name, [q2]], rest))
      else None)"

definition c_include :: "string \<Rightarrow> (string list \<times> string) option" where
  "c_include s =
     (case dropWhile blank s of
        [] \<Rightarrow> None
      | h # s1 \<Rightarrow>
          if h = CHR ''#''
          then (case after_keyword [''include'', ''import''] (dropWhile blank s1) of
                  None \<Rightarrow> None | Some s2 \<Rightarrow> bracketed (dropWhile blank s2))
          else None)"

definition idl_include :: "string \<Rightarrow> (string list \<times> string) option" where
  "idl_include s =
     (let s1 = dropWhile blank s in
      case (case s1 of [] \<Rightarrow> None
            | h # r \<Rightarrow> if h = CHR ''#'' then after_keyword [''include''] (dropWhile blank r) else after_keyword [''import''] s1) of
        None \<Rightarrow> None
      | Some s2 \<Rightarrow> if s2 \<noteq> [] \<and> blank (hd s2) then bracketed (dropWhile blank s2) else None)"

text \<open>
  \<open>cre.findall\<close> of an expression that matches at the start of a line: the number counts the characters that
  still belong to the last match.
\<close>

fun findall :: "(string \<Rightarrow> (string list \<times> string) option) \<Rightarrow> bool \<Rightarrow> nat \<Rightarrow> string \<Rightarrow> string list list" where
  "findall m start k [] = []"
| "findall m start k (c # s) =
     (let here = (if start \<and> k = 0 then m (c # s) else None) in
      case here of
        Some (i, rest) \<Rightarrow> i # findall m (c = CHR 0x0A) (length s - length rest) s
      | None \<Rightarrow> findall m (c = CHR 0x0A) (k - 1) s)"

definition c_includes :: "string \<Rightarrow> string list list" where
  "c_includes text = findall c_include True 0 text"

definition idl_includes :: "string \<Rightarrow> string list list" where
  "idl_includes text = findall idl_include True 0 text"

section \<open>Classic scanners\<close>

text \<open>The includes that nodes remember, and the files no dependency was generated for.\<close>

record scan_state =
  sn_fs :: linked
  sn_includes :: "fsid \<rightharpoonup> string list list"
  sn_missing :: "(string \<times> fsid) list"

definition on_links :: "(linked \<Rightarrow> (fs_error + 'a) \<times> linked) \<Rightarrow> scan_state \<Rightarrow> (scan_error + 'a) \<times> scan_state" where
  "on_links f S = (case f (sn_fs S) of (r, L) \<Rightarrow> (map_sum FsErr id r, S\<lparr>sn_fs := L\<rparr>))"

text \<open>What a subclass overrides: the expression, the name and the directories of an include, its sort key.\<close>

record style =
  st_names :: "string \<Rightarrow> string list list"
  st_name :: "string list \<Rightarrow> string"
  st_paths :: "fsid \<Rightarrow> fsid list \<Rightarrow> string list \<Rightarrow> fsid list"
  st_key :: "string list \<Rightarrow> string"

definition classic_style :: "(string \<Rightarrow> string list list) \<Rightarrow> style" where
  "classic_style names = \<lparr>st_names = names, st_name = hd, st_paths = (\<lambda>d path i. d # path), st_key = hd\<rparr>"

definition cpp_style :: "(string \<Rightarrow> string list list) \<Rightarrow> style" where
  "cpp_style names =
     \<lparr>st_names = names, st_name = (\<lambda>i. i ! 1),
      st_paths = (\<lambda>d path i. if i ! 0 = [CHR 0x22] then d # path else path @ [d]),
      st_key = join_with '' ''\<rparr>"

fun find_includes ::
  "nat \<Rightarrow> fs_hooks \<Rightarrow> style \<Rightarrow> fsid \<Rightarrow> fsid list \<Rightarrow> fsid \<Rightarrow> string list list \<Rightarrow> scan_state \<Rightarrow>
     (scan_error + (string \<times> fsid) list) \<times> scan_state" where
  "find_includes k H sty d path node [] S = (Inr [], S)"
| "find_includes k H sty d path node (i # is) S =
     then_do (on_links (find_file k H (st_name sty i) (st_paths sty d path i)) S) (\<lambda>r S1.
       case r of
         None \<Rightarrow> find_includes k H sty d path node is (S1\<lparr>sn_missing := sn_missing S1 @ [(st_name sty i, node)]\<rparr>)
       | Some n \<Rightarrow> then_do (find_includes k H sty d path node is S1) (\<lambda>ps S2. (Inr ((st_key sty i, n) # ps), S2)))"

text \<open>\<open>Classic.scan\<close>, with the contents of the node.\<close>

definition classic_scan ::
  "nat \<Rightarrow> fs_hooks \<Rightarrow> style \<Rightarrow> (fsid \<Rightarrow> string) \<Rightarrow> fsid \<Rightarrow> fsid list \<Rightarrow> scan_state \<Rightarrow> (scan_error + fsid list) \<times> scan_state" where
  "classic_scan k H sty contents node path S =
     (let (includes, S1) =
        (case sn_includes S node of
           Some is \<Rightarrow> (is, S)
         | None \<Rightarrow> (let is = st_names sty (contents node) in (is, S\<lparr>sn_includes := (sn_includes S)(node \<mapsto> is)\<rparr>)))
      in then_do (find_includes k H sty (nd_dir (node_of (sn_fs S1) node)) path node includes S1)
           (\<lambda>ps S2. (Inr (map snd (sort_key fst ps)), S2)))"

text \<open>\<open>_scan\<close>, the function of a classic scanner, and the check of \<open>Current\<close>.\<close>

definition classic_function ::
  "nat \<Rightarrow> fs_hooks \<Rightarrow> style \<Rightarrow> (fsid \<Rightarrow> string) \<Rightarrow> fsid \<Rightarrow> fsid list \<Rightarrow> scan_state \<Rightarrow> (scan_error + (fsid + string) list) \<times> scan_state" where
  "classic_function k H sty contents node path S =
     then_do (on_links (node_rfile k H node) S) (\<lambda>m S1.
     then_do (on_links (node_exists k H m) S1) (\<lambda>b S2.
       if \<not> b then (Inr [], S2)
       else then_do (classic_scan k H sty contents m path S2) (\<lambda>ns S3. (Inr (map Inl ns), S3))))"

definition current_check :: "fs_hooks \<Rightarrow> (fsid \<Rightarrow> scan_state \<Rightarrow> bool) \<Rightarrow> fsid \<Rightarrow> scan_state \<Rightarrow> bool" where
  "current_check H up_to_date n S \<longleftrightarrow> \<not> fh_derived H n \<or> up_to_date n S"

definition classic_init ::
  "nat \<Rightarrow> fs_hooks \<Rightarrow> style \<Rightarrow> (fsid \<Rightarrow> string) \<Rightarrow> (fsid \<Rightarrow> scan_state \<Rightarrow> bool) \<Rightarrow> string \<Rightarrow> string list \<Rightarrow> (fsid, scan_state) scanner" where
  "classic_init k H sty contents up_to_date name suffixes =
     base_init (Plain (classic_function k H sty contents)) name (Some suffixes) (Some (current_check H up_to_date)) True (Inr True)"

definition CScanner ::
  "nat \<Rightarrow> fs_hooks \<Rightarrow> (fsid \<Rightarrow> string) \<Rightarrow> (fsid \<Rightarrow> scan_state \<Rightarrow> bool) \<Rightarrow> (fsid, scan_state) scanner" where
  "CScanner k H contents up_to_date =
     classic_init k H (cpp_style c_includes) contents up_to_date ''CScanner'' [''$CPPSUFFIXES'']"

definition IDLScan ::
  "nat \<Rightarrow> fs_hooks \<Rightarrow> (fsid \<Rightarrow> string) \<Rightarrow> (fsid \<Rightarrow> scan_state \<Rightarrow> bool) \<Rightarrow> (fsid, scan_state) scanner" where
  "IDLScan k H contents up_to_date =
     classic_init k H (cpp_style idl_includes) contents up_to_date ''IDLScan'' [''$IDLSUFFIXES'']"

section \<open>The directories of a path variable\<close>

definition path_item :: "fsid pyobj \<Rightarrow> (fsid + string) option" where
  "path_item x = (case x of PStr s \<Rightarrow> Some (Inr s) | PObj n \<Rightarrow> Some (Inl n) | _ \<Rightarrow> None)"

fun path_items :: "fsid pyobj list \<Rightarrow> (fsid + string) list option" where
  "path_items [] = Some []"
| "path_items (x # xs) =
     (case path_item x of None \<Rightarrow> None | Some i \<Rightarrow> map_option (\<lambda>is. i # is) (path_items xs))"

text \<open>\<open>FindPathDirs.__call__\<close>; \<open>cwd\<close> is the current directory of the file system.\<close>

definition find_path_dirs ::
  "nat \<Rightarrow> (string \<rightharpoonup> fsid pyobj) \<Rightarrow> (fsid pyobj \<Rightarrow> fsid pyobj) \<Rightarrow> (fsid pyobj \<Rightarrow> fsid pyobj) \<Rightarrow> string \<Rightarrow> fsid option \<Rightarrow> fsid \<Rightarrow>
     linked \<Rightarrow> (scan_error + fsid list) \<times> linked" where
  "find_path_dirs k env subst conv variable dir cwd L =
     (case env variable of
        None \<Rightarrow> (Inr [], L)
      | Some p \<Rightarrow>
          (case path_items (subst_path subst conv (pathlist_init p)) of
             None \<Rightarrow> (Inl SubstErr, L)
           | Some is \<Rightarrow>
               (case Rfindalldirs k (case dir of Some d \<Rightarrow> d | None \<Rightarrow> cwd) is L of (r, L1) \<Rightarrow> (map_sum FsErr id r, L1))))"

section \<open>Directories\<close>

definition skip_entry_list :: "string list" where
  "skip_entry_list = [''.'', ''..'', ''.sconsign'', ''.sconsign.dblite'', ''.sconsign.dir'', ''.sconsign.pag'',
     ''.sconsign.dat'', ''.sconsign.bak'', ''.sconsign.db'']"

definition do_not_scan :: "string \<Rightarrow> bool" where
  "do_not_scan name \<longleftrightarrow> name \<notin> set skip_entry_list"

text \<open>The entries come as the list of the names of the dictionary, in any order.\<close>

definition scan_in_memory :: "(string set \<Rightarrow> string list) \<Rightarrow> fsid \<Rightarrow> linked \<Rightarrow> fsid list" where
  "scan_in_memory ho n L =
     (if nd_class (node_of L n) = DirK
      then map (\<lambda>e. the (nd_entries (node_of L n) e)) (sort (filter do_not_scan (ho (dom (nd_entries (node_of L n))))))
      else [])"

fun enter_listed :: "fsid \<Rightarrow> string list \<Rightarrow> linked \<Rightarrow> (scan_error + unit) \<times> linked" where
  "enter_listed n [] L = (Inr (), L)"
| "enter_listed n (f # fs) L =
     (case dir_Entry n (''./'' @ f) L of (Inl e, L1) \<Rightarrow> (Inl (FsErr e), L1) | (Inr _, L1) \<Rightarrow> enter_listed n fs L1)"

text \<open>\<open>names\<close> is what the directory on the disk lists, nothing when that fails.\<close>

definition scan_on_disk ::
  "(string set \<Rightarrow> string list) \<Rightarrow> string list option \<Rightarrow> fsid \<Rightarrow> linked \<Rightarrow> (scan_error + fsid list) \<times> linked" where
  "scan_on_disk ho names n L =
     (case names of
        None \<Rightarrow> (Inr [], L)
      | Some fs \<Rightarrow> then_do (enter_listed n (filter do_not_scan fs) L) (\<lambda>_ L1. (Inr (scan_in_memory ho n L1), L1)))"

fun only_dirs :: "fsid list \<Rightarrow> linked \<Rightarrow> (scan_error + fsid list) \<times> linked" where
  "only_dirs [] L = (Inr [], L)"
| "only_dirs (n # ns) L =
     (case disambiguate False n L of
        (Inl e, L1) \<Rightarrow> (Inl (FsErr e), L1)
      | (Inr m, L1) \<Rightarrow> then_do (only_dirs ns L1) (\<lambda>ms L2. (Inr (if nd_class (node_of L1 m) = DirK then n # ms else ms), L2)))"

section \<open>Programs\<close>

text \<open>
  \<open>_subst_libs\<close>: a string is substituted and split; when substitution gives no string its result is taken as it
  is, and then has to be a list to be iterated over or added to one.
\<close>

fun subst_libs :: "(string \<Rightarrow> fsid pyobj) \<Rightarrow> fsid pyobj \<Rightarrow> scan_error + fsid pyobj list"
  and subst_libs_all :: "(string \<Rightarrow> fsid pyobj) \<Rightarrow> fsid pyobj list \<Rightarrow> scan_error + fsid pyobj list" where
  "subst_libs subst (PStr s) =
     (case subst s of
        PStr r \<Rightarrow> Inr (map PStr (split_ws r))
      | PList xs \<Rightarrow> Inr xs
      | PTuple xs \<Rightarrow> Inr xs
      | PDict d \<Rightarrow> Inr (map (\<lambda>p. PStr (fst p)) d)
      | PObj _ \<Rightarrow> Inl NotIterable)"
| "subst_libs subst (PList xs) = subst_libs_all subst xs"
| "subst_libs subst (PTuple xs) = subst_libs_all subst xs"
| "subst_libs subst (PDict d) = Inr [PDict d]"
| "subst_libs subst (PObj n) = Inr [PObj n]"
| "subst_libs_all subst [] = Inr []"
| "subst_libs_all subst (x # xs) =
     bind_result (subst_libs subst x) (\<lambda>ys. bind_result (subst_libs_all subst xs) (\<lambda>zs. Inr (ys @ zs)))"

text \<open>The pairs of affixes, a suffix with all prefixes before the next one.\<close>

definition affix_pairs :: "string list \<Rightarrow> string list \<Rightarrow> (string \<times> string) list" where
  "affix_pairs prefixes suffixes = concat (map (\<lambda>suf. map (\<lambda>pref. (pref, suf)) prefixes) suffixes)"

fun find_lib :: "nat \<Rightarrow> fs_hooks \<Rightarrow> fsid list \<Rightarrow> string \<Rightarrow> (string \<times> string) list \<Rightarrow> linked \<Rightarrow>
    (scan_error + fsid pyobj list) \<times> linked" where
  "find_lib k H libpath lib [] L = (Inr [], L)"
| "find_lib k H libpath lib ((pref, suf) # ps) L =
     (case find_file k H (adjustixes lib pref suf False) libpath L of
        (Inl e, L1) \<Rightarrow> (Inl (FsErr e), L1)
      | (Inr r, L1) \<Rightarrow> then_do (find_lib k H libpath lib ps L1)
          (\<lambda>ns L2. (Inr ((case r of None \<Rightarrow> [] | Some n \<Rightarrow> [PObj n]) @ ns), L2)))"

fun find_libs :: "nat \<Rightarrow> fs_hooks \<Rightarrow> fsid list \<Rightarrow> (string \<times> string) list \<Rightarrow> fsid pyobj list \<Rightarrow> linked \<Rightarrow>
    (scan_error + fsid pyobj list) \<times> linked" where
  "find_libs k H libpath pairs [] L = (Inr [], L)"
| "find_libs k H libpath pairs (lib # libs) L =
     then_do (case lib of PStr s \<Rightarrow> find_lib k H libpath s pairs L | _ \<Rightarrow> (Inr [lib], L))
       (\<lambda>ns L1. then_do (find_libs k H libpath pairs libs L1) (\<lambda>ms L2. (Inr (ns @ ms), L2)))"

text \<open>
  The values of \<open>LIBPREFIXES\<close> and \<open>LIBSUFFIXES\<close> come as the strings their elements are substituted by, the
  empty string when they are not set.
\<close>

definition prog_scan ::
  "nat \<Rightarrow> fs_hooks \<Rightarrow> (string \<Rightarrow> fsid pyobj) \<Rightarrow> fsid pyobj option \<Rightarrow> string list option \<Rightarrow> string list option \<Rightarrow>
     fsid list \<Rightarrow> linked \<Rightarrow> (scan_error + fsid pyobj list) \<times> linked" where
  "prog_scan k H subst libs prefixes suffixes libpath L =
     (case libs of
        None \<Rightarrow> (Inr [], L)
      | Some l \<Rightarrow>
          (case subst_libs subst l of
             Inl e \<Rightarrow> (Inl e, L)
           | Inr ls \<Rightarrow>
               find_libs k H libpath
                 (affix_pairs (case prefixes of Some ps \<Rightarrow> ps | None \<Rightarrow> [[]]) (case suffixes of Some ss \<Rightarrow> ss | None \<Rightarrow> [[]]))
                 ls L))"

end
