(* ===== verification/ScanProps.thy ===== *)
theory ScanProps
  imports Scanners FindProps
begin

text \<open>
  Properties of the scanners: the includes of a file are read back from its lines, a node that was scanned is
  scanned again without looking for anything, what a scanner of a directory lists, and what a scanner with a dictionary
  leaves out.
\<close>

section \<open>Include lines\<close>

datatype src_line = Directive string char string char | TextLine string

fun line_text :: "src_line \<Rightarrow> string" where
  "line_text (Directive kw q name q2) = CHR ''#'' # kw @ [CHR '' ''] @ [q] @ name @ [q2]"
| "line_text (TextLine s) = s"

definition starts_directive :: "string \<Rightarrow> bool" where
  "starts_directive s \<longleftrightarrow> (\<exists>r. dropWhile blank s = CHR ''#'' # r)"

fun line_ok :: "src_line \<Rightarrow> bool" where
  "line_ok (Directive kw q name q2) \<longleftrightarrow> kw \<in> {''include'', ''import''} \<and> open_bracket q \<and> close_bracket q2 \<and> name \<noteq> [] \<and>
     (\<forall>c\<in>set name. \<not> close_bracket c \<and> c \<noteq> CHR 0x0A)"
| "line_ok (TextLine s) \<longleftrightarrow> CHR 0x0A \<notin> set s \<and> \<not> starts_directive s"

fun include_of :: "src_line \<Rightarrow> string list list" where
  "include_of (Directive kw q name q2) = [[[q], name, [q2]]]"
| "include_of (TextLine s) = []"

definition file_text :: "src_line list \<Rightarrow> string" where
  "file_text ls = concat (map (\<lambda>l. line_text l @ [CHR 0x0A]) ls)"

lemma findall_rest:
  "CHR 0x0A \<notin> set s \<Longrightarrow> k \<le> length s \<Longrightarrow> \<not> start \<or> 0 < k \<Longrightarrow>
    findall m start k (s @ CHR 0x0A # t) = findall m True 0 t"
proof (induction s arbitrary: k start)
  case (Cons c s)
  then have "findall m start k ((c # s) @ CHR 0x0A # t) = findall m False (k - 1) (s @ CHR 0x0A # t)" by auto
  then show ?case using Cons by simp
qed simp

lemma findall_match:
  assumes "m (c # s @ CHR 0x0A # t) = Some (i, CHR 0x0A # t)" and "CHR 0x0A \<notin> set (c # s)"
  shows "findall m True 0 (c # s @ CHR 0x0A # t) = i # findall m True 0 t"
proof -
  have "(c = CHR 0x0A) = False" using assms(2) by auto
  then show ?thesis using assms findall_rest [of s "length s" False m t] by simp
qed

lemma findall_no_match:
  assumes "m (s @ CHR 0x0A # t) = None" and "CHR 0x0A \<notin> set s"
  shows "findall m True 0 (s @ CHR 0x0A # t) = findall m True 0 t"
proof (cases s)
  case (Cons c r)
  then have "(c = CHR 0x0A) = False" using assms(2) by auto
  then show ?thesis using assms Cons findall_rest [of r 0 False m t] by simp
qed (use assms in simp)

lemma close_newline: "\<not> close_bracket (CHR 0x0A)" "\<not> blank (CHR 0x0A)"
  by (simp_all add: close_bracket_def blank_def)

lemma open_not_blank: "open_bracket q \<Longrightarrow> \<not> blank q \<and> q \<noteq> CHR 0x0A"
  by (auto simp: open_bracket_def blank_def)

lemma bracketed_name:
  assumes "open_bracket q" and "close_bracket q2" and "name \<noteq> []" and "\<forall>c\<in>set name. \<not> close_bracket c"
  shows "bracketed (q # name @ q2 # r) = Some ([[q], name, [q2]], r)"
  using assms by (simp add: takeWhile_append dropWhile_append3 dropWhile_append2 takeWhile_eq_all_conv)

lemma c_include_directive:
  assumes "line_ok (Directive kw q name q2)"
  shows "c_include (line_text (Directive kw q name q2) @ r) = Some ([[q], name, [q2]], r)"
proof -
  let ?r = "CHR '' '' # q # name @ q2 # r"
  have b: "bracketed (q # name @ q2 # r) = Some ([[q], name, [q2]], r)" using assms by (simp add: bracketed_name)
  have q: "\<not> blank q" using assms open_not_blank by simp
  have d: "dropWhile blank ?r = q # name @ q2 # r" using q by (simp add: blank_def)
  have h: "\<not> blank (CHR ''#'')" "\<not> blank (CHR ''i'')" by (simp_all add: blank_def)
  have kw: "kw = ''include'' \<or> kw = ''import''" using assms by simp
  then have "after_keyword [''include'', ''import''] (kw @ ?r) = Some ?r" by (elim disjE) (simp_all add: after_keyword_def)
  moreover have "dropWhile blank (kw @ ?r) = kw @ ?r" using kw h(2) by (elim disjE) simp_all
  ultimately have "c_include (CHR ''#'' # kw @ ?r) = bracketed (dropWhile blank ?r)"
    unfolding c_include_def using h(1) by simp
  then show ?thesis unfolding d b by simp
qed

lemma c_include_text:
  assumes "\<not> starts_directive s" and "CHR 0x0A \<notin> set s"
  shows "c_include (s @ CHR 0x0A # t) = None"
proof (cases "dropWhile blank s")
  case Nil
  then have "dropWhile blank (s @ CHR 0x0A # t) = CHR 0x0A # t"
    by (simp add: dropWhile_append dropWhile_eq_Nil_conv close_newline)
  then show ?thesis by (simp add: c_include_def)
next
  case (Cons c r)
  then have "\<exists>x\<in>set s. \<not> blank x" by (metis dropWhile_eq_Nil_conv list.distinct(1))
  then have "dropWhile blank (s @ CHR 0x0A # t) = c # r @ CHR 0x0A # t" using Cons by (auto simp: dropWhile_append1)
  then show ?thesis using assms Cons by (auto simp: c_include_def starts_directive_def)
qed

lemma c_includes_lines: "\<forall>l\<in>set ls. line_ok l \<Longrightarrow> findall c_include True 0 (file_text ls) = concat (map include_of ls)"
proof (induction ls)
  case (Cons l ls)
  have t: "file_text (l # ls) = line_text l @ CHR 0x0A # file_text ls" by (simp add: file_text_def)
  show ?case
  proof (cases l)
    case (Directive kw q name q2)
    have ok: "line_ok (Directive kw q name q2)" using Cons.prems Directive by simp
    let ?s = "kw @ [CHR '' ''] @ [q] @ name @ [q2]"
    have nl: "CHR 0x0A \<notin> set (CHR ''#'' # ?s)"
    proof -
      have "kw = ''include'' \<or> kw = ''import''" using ok by simp
      then have "CHR 0x0A \<notin> set kw" by (elim disjE) simp_all
      moreover have "q \<noteq> CHR 0x0A" "q2 \<noteq> CHR 0x0A" using ok open_not_blank close_newline(1) by fastforce+
      moreover have "CHR 0x0A \<notin> set name" using ok by force
      ultimately show ?thesis by simp
    qed
    have e: "line_text l @ CHR 0x0A # file_text ls = CHR ''#'' # ?s @ CHR 0x0A # file_text ls" using Directive by simp
    have "c_include (CHR ''#'' # ?s @ CHR 0x0A # file_text ls) = Some ([[q], name, [q2]], CHR 0x0A # file_text ls)"
      using c_include_directive [OF ok, of "CHR 0x0A # file_text ls"] by simp
    then have "findall c_include True 0 (CHR ''#'' # ?s @ CHR 0x0A # file_text ls) = [[q], name, [q2]] # findall c_include True 0 (file_text ls)"
      using nl by (rule findall_match)
    then show ?thesis unfolding t e using Cons Directive by (simp del: findall.simps)
  next
    case (TextLine s)
    then show ?thesis unfolding t
      using findall_no_match [where m = c_include and s = s and t = "file_text ls"] c_include_text [of s "file_text ls"] Cons by (simp del: findall.simps)
  qed
qed (simp add: file_text_def)

text \<open>
  C29: The C scanner finds in a file of include lines and other lines that begin with no hash sign exactly the
  includes, with their brackets, in their order.
\<close>

theorem includes_read_back:
  assumes "\<forall>l\<in>set ls. line_ok l"
  shows "c_includes (file_text ls) = concat (map include_of ls)"
  unfolding c_includes_def by (rule c_includes_lines [OF assms])

theorem includes_read_back_witness:
  "c_includes (file_text [TextLine ''/* #include <no> */'', Directive ''include'' CHR ''<'' ''a.h'' CHR ''>'', TextLine [],
     Directive ''import'' CHR 0x22 ''b'' CHR 0x22]) = [[''<'', ''a.h'', ''>''], [[CHR 0x22], ''b'', [CHR 0x22]]]"
  using includes_read_back [of "[TextLine ''/* #include <no> */'', Directive ''include'' CHR ''<'' ''a.h'' CHR ''>'', TextLine [],
     Directive ''import'' CHR 0x22 ''b'' CHR 0x22]"]
  by (simp add: starts_directive_def blank_def open_bracket_def close_bracket_def)

section \<open>Scanning twice\<close>

text \<open>The search leaves alone what \<open>find_file\<close> remembers; only \<open>find_file\<close> itself adds to it.\<close>

definition same_found :: "linked \<Rightarrow> linked \<Rightarrow> bool" where
  "same_found L L' \<longleftrightarrow> lk_found L' = lk_found L"

lemma same_found_in_fs: "same_found L (snd (in_fs f L))"
  by (simp add: same_found_def in_fs_def split: prod.split)

lemma do_duplicate_found: "same_found L (snd (do_duplicate H n src L))"
proof -
  have c: "lk_found (snd (dir_create H d L)) = lk_found L" for d
    by (auto simp: dir_create_def with_disk_def Let_def clear_node_def)
  show ?thesis using c [of "nd_dir (node_of L n)"]
    by (auto simp: same_found_def do_duplicate_def with_disk_def clear_node_def Let_def then_do_def split: prod.split sum.split)
qed

interpretation kept: search_steps same_found H for H
proof unfold_locales
  show "same_found L (snd (dir_Dir d name L))" "same_found L (snd (dir_Entry d name L))"
    "same_found L (snd (dir_File d name L))" "same_found L (snd (in_fs (must_be_same k n) L))" for L d name k n
    unfolding dir_Dir_def dir_Entry_def dir_File_def by (rule same_found_in_fs)+
  show "same_found L0 (snd (do_duplicate H n src L))" if "same_found L0 L" for L0 L n src
    using that do_duplicate_found [of L H n src] by (simp add: same_found_def)
qed (auto simp: same_found_def change_class_def clear_node_def new_file_def Let_def with_disk_def)

lemma find_file_remembers:
  assumes "find_file k H f ps L = (Inr r, L')"
  shows "lk_found L' (f, ps) = Some r \<and> lk_found L \<subseteq>\<^sub>m lk_found L'"
proof (cases "lk_found L (f, ps)")
  case None
  obtain fd name where fn: "path_split f = (fd, name)" by fastforce
  obtain ds L1 where 1: "(if fd = [] then (Inr ps, L) else filedir_all H fd ps L) = (Inr ds, L1)"
      "\<exists>L2. find_in k H name ds L1 = (Inr r, L2) \<and> L' = L2\<lparr>lk_found := (lk_found L2)((f, ps) \<mapsto> r)\<rparr>"
    using assms None fn by (auto simp: find_file_def then_do_Inr)
  then obtain L2 where 2: "find_in k H name ds L1 = (Inr r, L2)" "L' = L2\<lparr>lk_found := (lk_found L2)((f, ps) \<mapsto> r)\<rparr>" by blast
  have "lk_found L1 = lk_found L"
    using 1(1) kept.filedir_all_step [of L L H fd ps] by (auto simp: same_found_def split: if_splits)
  moreover have "lk_found L2 = lk_found L1"
    using 2(1) kept.find_in_step [of L1 L1 k H name ds] by (simp add: same_found_def)
  ultimately show ?thesis using 2(2) None by (auto simp: map_le_def)
qed (use assms in \<open>simp add: find_file_def\<close>)

text \<open>What a search over includes has found is remembered, so that the next one finds the same.\<close>

definition recalls :: "style \<Rightarrow> fsid \<Rightarrow> fsid list \<Rightarrow> string list list \<Rightarrow> (string \<times> fsid) list \<Rightarrow> linked \<Rightarrow> bool" where
  "recalls sty d path is ps L \<longleftrightarrow>
     (\<exists>rs. map (\<lambda>i. lk_found L (st_name sty i, st_paths sty d path i)) is = map Some rs \<and>
        ps = concat (map2 (\<lambda>i r. case r of None \<Rightarrow> [] | Some n \<Rightarrow> [(st_key sty i, n)]) is rs))"

lemma found_mono: "lk_found L (x, y) = Some r \<Longrightarrow> lk_found L \<subseteq>\<^sub>m lk_found L' \<Longrightarrow> lk_found L' (x, y) = Some r"
  by (metis domI map_le_def)

lemma on_links_Inr: "on_links f S = (Inr a, S') \<longleftrightarrow> (\<exists>L. f (sn_fs S) = (Inr a, L) \<and> S' = S\<lparr>sn_fs := L\<rparr>)"
  by (cases "f (sn_fs S)"; cases "fst (f (sn_fs S))") (auto simp: on_links_def)

lemma find_includes_recalls:
  "find_includes k H sty d path node is S = (Inr ps, S') \<Longrightarrow>
    recalls sty d path is ps (sn_fs S') \<and> lk_found (sn_fs S) \<subseteq>\<^sub>m lk_found (sn_fs S') \<and> sn_includes S' = sn_includes S"
proof (induction "is" arbitrary: S ps)
  case (Cons i "is")
  let ?f = "st_name sty i" and ?p = "st_paths sty d path i"
  obtain r L1 where 1: "find_file k H ?f ?p (sn_fs S) = (Inr r, L1)"
    using Cons.prems by (auto simp: then_do_Inr on_links_Inr)
  note m = find_file_remembers [OF 1]
  obtain qs S1 where q: "find_includes k H sty d path node is S1 = (Inr qs, S')" "sn_fs S1 = L1" "sn_includes S1 = sn_includes S"
      "ps = (case r of None \<Rightarrow> qs | Some n \<Rightarrow> (st_key sty i, n) # qs)"
    using Cons.prems 1 by (auto simp: then_do_Inr on_links_Inr split: option.splits)
  note IH = Cons.IH [OF q(1)]
  obtain rs where rs: "map (\<lambda>i. lk_found (sn_fs S') (st_name sty i, st_paths sty d path i)) is = map Some rs"
      "qs = concat (map2 (\<lambda>i r. case r of None \<Rightarrow> [] | Some n \<Rightarrow> [(st_key sty i, n)]) is rs)"
    using IH unfolding recalls_def by blast
  have "lk_found (sn_fs S') (?f, ?p) = Some r" using m IH q(2) found_mono by blast
  then have "recalls sty d path (i # is) ps (sn_fs S')" unfolding recalls_def
    using rs q(4) by (intro exI [of _ "r # rs"]) (auto split: option.split)
  then show ?case using m IH q(2,3) map_le_trans by auto
qed (simp add: recalls_def)

lemma recalled_again:
  "recalls sty d path is ps (sn_fs S) \<Longrightarrow>
    \<exists>w. find_includes k H sty d path node is S = (Inr ps, S\<lparr>sn_missing := w\<rparr>)"
proof (induction "is" arbitrary: S ps)
  case Nil
  then show ?case by (intro exI [of _ "sn_missing S"]) (simp add: recalls_def)
next
  case (Cons i "is")
  obtain r rs where r: "lk_found (sn_fs S) (st_name sty i, st_paths sty d path i) = Some r"
      "map (\<lambda>i. lk_found (sn_fs S) (st_name sty i, st_paths sty d path i)) is = map Some rs"
      "ps = (case r of None \<Rightarrow> [] | Some n \<Rightarrow> [(st_key sty i, n)]) @
        concat (map2 (\<lambda>i r. case r of None \<Rightarrow> [] | Some n \<Rightarrow> [(st_key sty i, n)]) is rs)"
    using Cons.prems unfolding recalls_def by (auto simp: map_eq_Cons_conv Cons_eq_map_conv)
  let ?qs = "concat (map2 (\<lambda>i r. case r of None \<Rightarrow> [] | Some n \<Rightarrow> [(st_key sty i, n)]) is rs)"
  have f: "find_file k H (st_name sty i) (st_paths sty d path i) (sn_fs S) = (Inr r, sn_fs S)"
    using r(1) by (simp add: find_file_def)
  let ?S = "case r of None \<Rightarrow> S\<lparr>sn_missing := sn_missing S @ [(st_name sty i, node)]\<rparr> | Some n \<Rightarrow> S"
  have "sn_fs ?S = sn_fs S" by (simp split: option.split)
  then have "recalls sty d path is ?qs (sn_fs ?S)" using r(2) by (auto simp: recalls_def)
  from Cons.IH [OF this] obtain w where "find_includes k H sty d path node is ?S = (Inr ?qs, ?S\<lparr>sn_missing := w\<rparr>)" by blast
  then show ?case using f r(3) by (cases r) (auto simp: on_links_def)
qed

text \<open>
  C30: A file that has been scanned is not read again, and its includes are not looked for again: the next scan gives the
  same nodes whatever the file holds by then, and leaves nodes, memos and disk as they are.
\<close>

theorem scan_is_remembered:
  assumes "classic_scan k H sty contents node path S = (Inr ns, S')"
    and "nd_dir (node_of (sn_fs S') node) = nd_dir (node_of (sn_fs S) node)"
  shows "\<exists>w. classic_scan k H sty contents' node path S' = (Inr ns, S'\<lparr>sn_missing := w\<rparr>)"
proof -
  let ?is = "case sn_includes S node of Some is \<Rightarrow> is | None \<Rightarrow> st_names sty (contents node)"
  let ?d = "nd_dir (node_of (sn_fs S) node)"
  obtain S1 ps where 1: "find_includes k H sty ?d path node ?is S1 = (Inr ps, S')" "ns = map snd (sort_key fst ps)"
      "sn_includes S1 node = Some ?is"
    using assms(1) by (auto simp: classic_scan_def then_do_Inr Let_def split: option.splits)
  note r = find_includes_recalls [OF 1(1)]
  obtain w where "find_includes k H sty ?d path node ?is S' = (Inr ps, S'\<lparr>sn_missing := w\<rparr>)"
    using recalled_again r by blast
  moreover have "sn_includes S' node = Some ?is" using r 1(3) by simp
  ultimately show ?thesis using 1(2) assms(2) by (auto simp: classic_scan_def)
qed

text \<open>A tree in which every file that is looked for has been found to be node 3.\<close>

definition scanned_tree :: scan_state where
  "scanned_tree = \<lparr>sn_fs = twig_linked\<lparr>lk_found := (\<lambda>_. Some (Some 3))\<rparr>, sn_includes = Map.empty, sn_missing = []\<rparr>"

definition plain_hooks :: fs_hooks where
  "plain_hooks = \<lparr>fh_derived = (\<lambda>_. False), fh_scm = (\<lambda>_ _. False), fh_link_ok = (\<lambda>_ _. True), fh_execute = True\<rparr>"

theorem scan_is_remembered_witness:
  "\<exists>S' w. classic_scan 9 plain_hooks (cpp_style c_includes) (\<lambda>_. ''#include <a>'') 4 [] scanned_tree = (Inr [3], S') \<and>
     classic_scan 9 plain_hooks (cpp_style c_includes) (\<lambda>_. ''#include <b>'') 4 [] S' = (Inr [3], S'\<lparr>sn_missing := w\<rparr>)"
proof -
  have i: "c_includes ''#include <a>'' = [[''<'', ''a'', ''>'']]"
    by (simp add: c_includes_def c_include_def blank_def open_bracket_def close_bracket_def after_keyword_def)
  let ?S = "scanned_tree\<lparr>sn_includes := [4 \<mapsto> [[''<'', ''a'', ''>'']]]\<rparr>"
  have f: "find_file 9 plain_hooks n ps (sn_fs ?S) = (Inr (Some 3), sn_fs ?S)" for n ps
    by (simp add: find_file_def scanned_tree_def)
  have "classic_scan 9 plain_hooks (cpp_style c_includes) (\<lambda>_. ''#include <a>'') 4 [] scanned_tree = (Inr [3], ?S)"
    using f i by (simp add: classic_scan_def on_links_def cpp_style_def scanned_tree_def Let_def)
  then show ?thesis using scan_is_remembered [of 9 plain_hooks "cpp_style c_includes" "\<lambda>_. ''#include <a>''" 4 "[]" scanned_tree "[3]" ?S]
    by (simp add: scanned_tree_def)
qed

section \<open>Directories and dictionaries\<close>

text \<open>
  The scanner of a directory gives the entries the tree has for it, each once and in the order of their names, without
  the directory itself, its parent and the files of signatures.
\<close>

theorem directory_entries_listed:
  assumes "nd_class (node_of L n) = DirK" and "finite (dom (nd_entries (node_of L n)))" and "enumerates ho"
  shows "\<exists>names. sorted names \<and> distinct names \<and> set names = dom (nd_entries (node_of L n)) - set skip_entry_list \<and>
    map Some (scan_in_memory ho n L) = map (nd_entries (node_of L n)) names"
proof -
  let ?E = "nd_entries (node_of L n)"
  let ?names = "sort (filter do_not_scan (ho (dom ?E)))"
  have h: "set (ho (dom ?E)) = dom ?E" "distinct (ho (dom ?E))" using assms(2,3) by (simp_all add: enumerates_set enumerates_distinct)
  have s: "set ?names = dom ?E - set skip_entry_list" using h(1) by (auto simp: do_not_scan_def)
  then have "\<forall>e\<in>set ?names. ?E e \<noteq> None" by blast
  then have "map Some (scan_in_memory ho n L) = map ?E ?names" using assms(1) by (auto simp: scan_in_memory_def)
  then show ?thesis using s h(2) by (intro exI [of _ ?names]) (simp add: distinct_sort)
qed

theorem directory_entries_listed_witness:
  "\<exists>names. sorted names \<and> distinct names \<and>
    set names = dom (nd_entries (node_of (twig_linked\<lparr>lk_fs := upd 0 (\<lambda>x. x\<lparr>nd_class := DirK, nd_entries := [''b'' \<mapsto> 2, ''.'' \<mapsto> 0]\<rparr>) (lk_fs twig_linked)\<rparr>) 0)) - set skip_entry_list \<and>
    map Some (scan_in_memory sorted_list_of_set 0 (twig_linked\<lparr>lk_fs := upd 0 (\<lambda>x. x\<lparr>nd_class := DirK, nd_entries := [''b'' \<mapsto> 2, ''.'' \<mapsto> 0]\<rparr>) (lk_fs twig_linked)\<rparr>)) =
    map (nd_entries (node_of (twig_linked\<lparr>lk_fs := upd 0 (\<lambda>x. x\<lparr>nd_class := DirK, nd_entries := [''b'' \<mapsto> 2, ''.'' \<mapsto> 0]\<rparr>) (lk_fs twig_linked)\<rparr>) 0)) names"
  by (rule directory_entries_listed) (simp_all add: upd_def enumerates_sorted_list_of_set)

text \<open>
  A scanner with a dictionary asks its own check only: the scanner it selects is run without the check it would
  make itself, which the class \<open>Selector\<close> makes.
\<close>

theorem dictionary_skips_check:
  assumes "sc_function sc = ByKey d" and "sc_check sc = None" and "map_of d (key n) = Some sub"
    and "sc_function sub = Plain f" and "sc_check sub = Some chk" and "\<not> chk n S"
  shows "base_call key factory sc n path S = then_do (f n path S) (\<lambda>l S1. convert_found factory (sc_converts sub) n l S1) \<and>
    selector_call key factory d n path S = (Inr [], S)"
  using assms by (simp add: base_call_def base_select_def selector_call_def)

theorem dictionary_skips_check_witness:
  "base_call (\<lambda>_. ''.c'') (\<lambda>m _ S. (Inr m, S))
      (Scanner (ByKey [(''.c'', Scanner (Plain (\<lambda>n _ S. (Inr [Inl (n + 1)], S))) [] [] (Some (\<lambda>_ _. False)) True recurse_all_nodes)])
        [] [] None True recurse_no_nodes) (1 :: nat) [] () =
     then_do (Inr [Inl (1 + 1)], ()) (\<lambda>l S1. convert_found (\<lambda>m _ S. (Inr m, S)) True 1 l S1) \<and>
   selector_call (\<lambda>_. ''.c'') (\<lambda>m _ S. (Inr m, S))
      [(''.c'', Scanner (Plain (\<lambda>n _ S. (Inr [Inl (n + 1)], S))) [] [] (Some (\<lambda>_ _. False)) True recurse_all_nodes)] (1 :: nat) [] () = (Inr [], ())"
  using dictionary_skips_check [of "Scanner (ByKey [(''.c'', Scanner (Plain (\<lambda>n _ S. (Inr [Inl (n + 1)], S))) [] [] (Some (\<lambda>_ _. False)) True recurse_all_nodes)])
        [] [] None True recurse_no_nodes" _ "\<lambda>_. ''.c''" "1 :: nat" _ _ _ "()"]
  by simp

end
