(* ===== verification/Spec2Isabelle.thy ===== *)
theory Spec2Isabelle
  imports UniqueList OrderedDict PyPath PathList Warnings Errors Dblite CppPre NodeWalk
    Decisions BuildWalk ShortestPath
    Variables CacheDir Expansion EnvProps TreeProps SigProps VariantProps FindProps ClusterProps ScanProps
begin

text \<open>
  A verification development for the graph store and for the build system it ships.

  The repository has two bodies of code of its own language each: the store, C++ under
  \<open>src/db\<close>, \<open>src/io\<close>, \<open>src/net\<close> and \<open>src/util\<close>, and SCons 2.5.0, Python under
  \<open>scons/scons-local-2.5.0/SCons\<close>, which builds it. Paths below are relative to the latter
  unless they name a C++ file.

  THEORIES

  \<open>Prelude\<close>: results with errors, removal of duplicates, iteration orders of hash sets.
  \<open>PyString\<close>, \<open>PyList\<close>, \<open>PyPath\<close>: strings, nested sequences and duplicate removal, search
  paths, suffixes and the tree printer of \<open>Util.py\<close>. \<open>UniqueList\<close>, \<open>OrderedDict\<close>: those two
  classes (and \<open>Selector\<close>), the second as an instance of the contract \<open>keyed_store\<close>.
  \<open>NodeCore\<close>, \<open>Executor\<close>: \<open>Node/__init__.py\<close> and \<open>Executor.py\<close>, nodes and executors as two
  heaps of records addressed by numbers, because nodes refer to each other and share
  executors; what subclasses and actions do is the record \<open>hooks\<close> of functions.
  \<open>NodeInfo\<close>: signatures, \<open>changed\<close>, \<open>explain\<close>, deciders. \<open>NodeWalk\<close>: \<open>get_implicit_deps\<close> and
  \<open>Walker\<close>. \<open>Errors\<close>: \<open>Errors.py\<close>. \<open>Taskmaster\<close>, \<open>Task\<close>: the two classes of
  \<open>Taskmaster.py\<close>. \<open>Jobs\<close>: \<open>Job.py\<close>, the serial loop as a function and the parallel build as
  a step relation of main thread, workers and signals. \<open>Progress\<close>: the waiting graph stays
  finite. \<open>CppPre\<close>: \<open>cpp.py\<close>. \<open>PathList\<close>: \<open>PathList.py\<close>, \<open>Memoize.py\<close>. \<open>Warnings\<close>:
  \<open>Warnings.py\<close>. \<open>Dblite\<close>: \<open>dblite.py\<close>. \<open>Variables\<close>: the package \<open>Variables/\<close>, option
  declarations and the five kinds of variable. \<open>CacheDir\<close>: \<open>CacheDir.py\<close> on a file system of
  files, links and directories. \<open>Subst\<close>, \<open>Expansion\<close>: \<open>Subst.py\<close>, the expansion of construction
  variables in strings and in commands, and its properties. \<open>EnvValue\<close>, \<open>Environment\<close>,
  \<open>EnvProps\<close>: \<open>Environment.py\<close>, the values of construction variables, the environments and their
  properties. \<open>FilePaths\<close>, \<open>FileTree\<close>, \<open>TreeInv\<close>, \<open>TreeLookup\<close>, \<open>TreeProps\<close>:
  \<open>Node/FS.py\<close>, path names, the tree of file system nodes, its invariant, lookups and their
  properties. \<open>FileLinks\<close>, \<open>FileFind\<close>: variant directories, repositories and the search for files
  of the same file, with the memos as part of the state; \<open>LinkInv\<close>, \<open>LinkProps\<close>, \<open>VariantPaths\<close>,
  \<open>VariantProps\<close>, \<open>FindProps\<close>: what lookups do to the links, the invariant of the links and memos,
  the paths of targets, and the properties of variant directories and of the search. \<open>Scanners\<close>, \<open>ScanProps\<close>: the package \<open>Scanner/\<close>, with
  regular expressions as functions on strings. \<open>FileSig\<close>, \<open>SConsign\<close>, \<open>SigProps\<close>: the signatures of files and the deciders
  (\<open>Node/FS.py\<close>, \<open>Environment.py\<close>, \<open>Util.py\<close>), their storage (\<open>SConsign.py\<close>, with a heap of entries,
  because a dictionary and a memo share them), and the properties of both. \<open>MemoryStore\<close>, \<open>ShortestPath\<close>:
  \<open>src/db/memory_store.cc\<close> and \<open>src/db/types.cc\<close>, the former against the locale
  \<open>graph_store\<close> that stands for \<open>src/db/graph_store.h\<close>. \<open>BlockDevice\<close>: blocks, buffers and checksums of
  \<open>src/io\<close>, a device that stops after any number of writes. \<open>LogManager\<close>, \<open>Checkpoint\<close>, \<open>LoggedStore\<close>:
  \<open>src/db/log_manager.cc\<close>, \<open>src/db/checkpoint_manager.cc\<close>, \<open>src/db/logged_store.cc\<close>, at the level of the words of
  blocks; \<open>LogInv\<close>, \<open>LogProps\<close>, \<open>CkptInv\<close>, \<open>DurableProps\<close>: what a good log and a written checkpoint are,
  and what survives opening again and crashes. \<open>Cluster\<close>, \<open>ClusterProps\<close>: the requests of
  \<open>src/net/http_controller.cc\<close> over the chain of replicas (\<open>src/db/replication_manager.cc\<close>,
  \<open>src/net/replication_server.cc\<close>) and the partitions (\<open>src/db/partition\<close>, \<open>src/net/partition_server.cc\<close>). \<open>Scenario\<close>: a small build the
  model is evaluated on. \<open>Decisions\<close>, \<open>BuildWalk\<close>: properties of nodes, of the walk and of the
  jobs, with their witnesses.

  HOW STATE AND OPERATIONS CORRESPOND

  A Python object that is changed is a record; a method takes the record (or the heap, or
  the Taskmaster) and returns it changed. An exception is a left result, with the state at
  the moment it is raised when that can be seen. A Python set is a set, and where the code
  iterates over it the order is a parameter (\<open>enumerates\<close>). A loop that need not end is a
  partial function whose value \<open>None\<close> means that it does not end. In the store, node ids are
  64-bit words and a failed \<open>invariant\<close>, which ends the process, is the result \<open>Die\<close>.

  WHAT THE LEMMAS SHOW

  The walk hands out only nodes that are ready or whose scan raised, always returns, and keeps every
  reference count equal to the number of nodes waited for (\<open>refs_ok\<close>); failure reaches exactly the
  nodes that wait; \<open>postprocess\<close> wakes the parents; what waits for a side effect of a finished task is
  never woken, and a run of the parallel build that ends so is given. The parallel build counts its jobs and is never stuck. The memo of the children is never
  stale (\<open>heap_wf\<close>), what is recorded of a build is what is compared, and the decisions are
  characterised. The preprocessor's tables implement nested conditionals. The lazy list
  refines a duplicate-free list, inherited operations included, while those on raw positions meet no
  pending duplicates; the dictionary refines its contract. The database file survives a
  crash of \<open>sync\<close>, and a cache entry is never half-written, whatever part of a push fails. Option values follow their
  documented precedence. Expansion of variables ends, where names that Python defines
  stand for inert objects, and what is marked stays out of signatures.
  Appending loses nothing, the scanner map is never stale, reserved variables are never set.
  There is one file system node for each normalised path, and printed paths lead back to it. The source directories of a directory are never
  stale, targets in variant directories lead back to their sources or a file there is its own target, and a search without duplication
  leaves the disk alone. The C scanner reads back the includes of a file and scans it once. Content
  signatures are digests of the contents, what a build records is what the next one reads and
  compares with, and every decision ends. The store implements the graph, and \<open>shortestPath\<close> the distance.
  What is logged within the range of the log is read back, an append survives a crash, and a store whose changes are logged is
  recovered as it was (\<open>durable\<close>), but for removed edges, a full log and crashes at the wrong
  moment, whose consequences are stated. A chain in step answers as one server (\<open>in_step\<close>), but for edges
  between partitions, which are not replicated, and partitions together are one store (\<open>whole\<close>). A checkpoint
  reaches all successors from the head or the middle of a chain.

  BOUNDS AND FUEL

  \<open>find_cycle\<close> and \<open>render_tree\<close> are recursive in Python; their fuel bounds the depth, and one
  more than the number of nodes (or names) is shown to be enough. The number in \<open>expand\<close> and
  \<open>expand_list\<close> is Python's recursion limit; \<open>expansion_ends\<close> bounds what is needed. The subclass chain of
  \<open>Warnings\<close> is followed four steps, the longest chain of the module. \<open>get_next\<close>, \<open>deps_loop\<close>,
  \<open>ready_loop\<close>, \<open>wnb_loop\<close> and \<open>search_levels\<close> need no bound: that they return is proved.
  \<open>replay\<close> terminates because the reader moves on with every entry. A crash is the number of writes that the device still
  takes, any number.

  NOT MODELLED

  Of \<open>Node/FS.py\<close>, globs, the memos of \<open>stat\<close> and \<open>exists\<close>, source code control, the proxies of entries and the conversion of
  entries of old versions; pickling; builders, actions, the scanners of other languages than C and IDL, tools and the command line of SCons; the trace and statistics
  output. Of the store, the mutexes (each operation is one step), the system calls below the buffers and their
  errors, the connections between servers, the parsing of requests, the printing of answers and the
  option parsing of \<open>main\<close>.
\<close>

end
